(* ===== verification/Unicode_Fold.thy ===== *)
theory Unicode_Fold
  imports Main
begin

text \<open>
  Runes and the two Unicode tables the Go code relies on: \<open>unicode.IsSpace\<close> and the simple
  lower-case mapping behind \<open>strings.ToLower\<close>.  A Go string that holds valid UTF-8 is
  modelled by the list of its code points (\<open>gostr\<close>), so that the rune counts of the program are
  list lengths and its byte-wise string order is the lexicographic order of code points.
  Above ASCII the mapping is the Unicode table, written as arithmetic ranges
  \<open>(lo, hi, step, target of lo)\<close>.  The lemmas at the end are the facts the components use:
  folding neither makes nor removes white space, and it is idempotent.
\<close>

type_synonym rune = int

type_synonym gostr = "rune list"

definition space_ranges :: "(rune \<times> rune) list" where
  "space_ranges =
     [(9, 13), (32, 32), (133, 133), (160, 160), (5760, 5760), (8192, 8202), (8232, 8233),
      (8239, 8239), (8287, 8287), (12288, 12288)]"

definition isSpace :: "rune \<Rightarrow> bool" where
  "isSpace r \<longleftrightarrow> list_ex (\<lambda>(a, b). a \<le> r \<and> r \<le> b) space_ranges"

type_synonym case_range = "rune \<times> rune \<times> rune \<times> rune"

definition case_ranges :: "case_range list" where
  "case_ranges =
    [
     (192, 214, 1, 224), (216, 222, 1, 248), (256, 302, 2, 257), (304, 304, 1, 105),
     (306, 310, 2, 307), (313, 327, 2, 314), (330, 374, 2, 331), (376, 376, 1, 255),
     (377, 381, 2, 378), (385, 385, 1, 595), (386, 388, 2, 387), (390, 390, 1, 596),
     (391, 391, 1, 392), (393, 394, 1, 598), (395, 395, 1, 396), (398, 398, 1, 477),
     (399, 399, 1, 601), (400, 400, 1, 603), (401, 401, 1, 402), (403, 403, 1, 608),
     (404, 404, 1, 611), (406, 406, 1, 617), (407, 407, 1, 616), (408, 408, 1, 409),
     (412, 412, 1, 623), (413, 413, 1, 626), (415, 415, 1, 629), (416, 420, 2, 417),
     (422, 422, 1, 640), (423, 423, 1, 424), (425, 425, 1, 643), (428, 428, 1, 429),
     (430, 430, 1, 648), (431, 431, 1, 432), (433, 434, 1, 650), (435, 437, 2, 436),
     (439, 439, 1, 658), (440, 440, 1, 441), (444, 444, 1, 445), (452, 452, 1, 454),
     (453, 453, 1, 454), (455, 455, 1, 457), (456, 456, 1, 457), (458, 458, 1, 460),
     (459, 475, 2, 460), (478, 494, 2, 479), (497, 497, 1, 499), (498, 500, 2, 499),
     (502, 502, 1, 405), (503, 503, 1, 447), (504, 542, 2, 505), (544, 544, 1, 414),
     (546, 562, 2, 547), (570, 570, 1, 11365), (571, 571, 1, 572), (573, 573, 1, 410),
     (574, 574, 1, 11366), (577, 577, 1, 578), (579, 579, 1, 384), (580, 580, 1, 649),
     (581, 581, 1, 652), (582, 590, 2, 583), (880, 882, 2, 881), (886, 886, 1, 887),
     (895, 895, 1, 1011), (902, 902, 1, 940), (904, 906, 1, 941), (908, 908, 1, 972),
     (910, 911, 1, 973), (913, 929, 1, 945), (931, 939, 1, 963), (975, 975, 1, 983),
     (984, 1006, 2, 985), (1012, 1012, 1, 952), (1015, 1015, 1, 1016), (1017, 1017, 1, 1010),
     (1018, 1018, 1, 1019), (1021, 1023, 1, 891), (1024, 1039, 1, 1104), (1040, 1071, 1, 1072),
     (1120, 1152, 2, 1121), (1162, 1214, 2, 1163), (1216, 1216, 1, 1231),
     (1217, 1229, 2, 1218), (1232, 1326, 2, 1233), (1329, 1366, 1, 1377),
     (4256, 4293, 1, 11520), (4295, 4295, 1, 11559), (4301, 4301, 1, 11565),
     (5024, 5103, 1, 43888), (5104, 5109, 1, 5112), (7312, 7354, 1, 4304),
     (7357, 7359, 1, 4349), (7680, 7828, 2, 7681), (7838, 7838, 1, 223), (7840, 7934, 2, 7841),
     (7944, 7951, 1, 7936), (7960, 7965, 1, 7952), (7976, 7983, 1, 7968),
     (7992, 7999, 1, 7984), (8008, 8013, 1, 8000), (8025, 8031, 2, 8017),
     (8040, 8047, 1, 8032), (8072, 8079, 1, 8064), (8088, 8095, 1, 8080),
     (8104, 8111, 1, 8096), (8120, 8121, 1, 8112), (8122, 8123, 1, 8048),
     (8124, 8124, 1, 8115), (8136, 8139, 1, 8050), (8140, 8140, 1, 8131),
     (8152, 8153, 1, 8144), (8154, 8155, 1, 8054), (8168, 8169, 1, 8160),
     (8170, 8171, 1, 8058), (8172, 8172, 1, 8165), (8184, 8185, 1, 8056),
     (8186, 8187, 1, 8060), (8188, 8188, 1, 8179), (8486, 8486, 1, 969), (8490, 8490, 1, 107),
     (8491, 8491, 1, 229), (8498, 8498, 1, 8526), (8544, 8559, 1, 8560), (8579, 8579, 1, 8580),
     (9398, 9423, 1, 9424), (11264, 11311, 1, 11312), (11360, 11360, 1, 11361),
     (11362, 11362, 1, 619), (11363, 11363, 1, 7549), (11364, 11364, 1, 637),
     (11367, 11371, 2, 11368), (11373, 11373, 1, 593), (11374, 11374, 1, 625),
     (11375, 11375, 1, 592), (11376, 11376, 1, 594), (11378, 11378, 1, 11379),
     (11381, 11381, 1, 11382), (11390, 11391, 1, 575), (11392, 11490, 2, 11393),
     (11499, 11501, 2, 11500), (11506, 11506, 1, 11507), (42560, 42604, 2, 42561),
     (42624, 42650, 2, 42625), (42786, 42798, 2, 42787), (42802, 42862, 2, 42803),
     (42873, 42875, 2, 42874), (42877, 42877, 1, 7545), (42878, 42886, 2, 42879),
     (42891, 42891, 1, 42892), (42893, 42893, 1, 613), (42896, 42898, 2, 42897),
     (42902, 42920, 2, 42903), (42922, 42922, 1, 614), (42923, 42923, 1, 604),
     (42924, 42924, 1, 609), (42925, 42925, 1, 620), (42926, 42926, 1, 618),
     (42928, 42928, 1, 670), (42929, 42929, 1, 647), (42930, 42930, 1, 669),
     (42931, 42931, 1, 43859), (42932, 42946, 2, 42933), (42948, 42948, 1, 42900),
     (42949, 42949, 1, 642), (42950, 42950, 1, 7566), (42951, 42953, 2, 42952),
     (42960, 42960, 1, 42961), (42966, 42968, 2, 42967), (42997, 42997, 1, 42998),
     (65313, 65338, 1, 65345), (66560, 66599, 1, 66600), (66736, 66771, 1, 66776),
     (66928, 66938, 1, 66967), (66940, 66954, 1, 66979), (66956, 66962, 1, 66995),
     (66964, 66965, 1, 67003), (68736, 68786, 1, 68800), (71840, 71871, 1, 71872),
     (93760, 93791, 1, 93792), (125184, 125217, 1, 125218)
    ]"

fun in_range :: "case_range \<Rightarrow> rune \<Rightarrow> bool" where
  "in_range (lo, hi, st, to) r \<longleftrightarrow> lo \<le> r \<and> r \<le> hi \<and> (r - lo) mod st = 0"

fun shift_in :: "case_range \<Rightarrow> rune \<Rightarrow> rune" where
  "shift_in (lo, hi, st, to) r = to + (r - lo)"

fun lower_in :: "case_range list \<Rightarrow> rune \<Rightarrow> rune" where
  "lower_in [] r = r"
| "lower_in (e # es) r = (if in_range e r then shift_in e r else lower_in es r)"

definition lower_rune :: "rune \<Rightarrow> rune" where
  "lower_rune r =
     (if r < 128 then (if 65 \<le> r \<and> r \<le> 90 then r + 32 else r) else lower_in case_ranges r)"

subsection \<open>White space and folding\<close>

text \<open>No range of the table contains or reaches a white-space rune.\<close>

fun misses_spaces :: "case_range \<Rightarrow> bool" where
  "misses_spaces (lo, hi, st, to) \<longleftrightarrow>
     list_all (\<lambda>(a, b). (b < lo \<or> hi < a) \<and> (b < to \<or> to + (hi - lo) < a)) space_ranges"

lemma case_ranges_miss_spaces: "list_all misses_spaces case_ranges"
  by code_simp

lemma misses_spacesD:
  assumes "misses_spaces e" "in_range e r"
  shows "\<not> isSpace r" "\<not> isSpace (shift_in e r)"
proof -
  obtain lo hi st to where e: "e = (lo, hi, st, to)" by (cases e)
  have m: "(b < lo \<or> hi < a) \<and> (b < to \<or> to + (hi - lo) < a)"
    if "(a, b) \<in> set space_ranges" for a b
    using assms(1) that by (auto simp: e list_all_iff)
  have r: "lo \<le> r" "r \<le> hi" using assms(2) by (auto simp: e)
  show "\<not> isSpace r" using m r unfolding isSpace_def list_ex_iff by fastforce
  show "\<not> isSpace (shift_in e r)"
    using m r unfolding isSpace_def list_ex_iff e shift_in.simps by fastforce
qed

lemma lower_in_hit: "lower_in T r = r \<or> (\<exists>e \<in> set T. in_range e r \<and> lower_in T r = shift_in e r)"
  by (induction T) auto

lemma isSpace_small: "r < 128 \<Longrightarrow> isSpace r \<longleftrightarrow> (9 \<le> r \<and> r \<le> 13) \<or> r = 32"
  by (auto simp: isSpace_def space_ranges_def)

lemma isSpace_lower_rune [simp]: "isSpace (lower_rune r) \<longleftrightarrow> isSpace r"
proof (cases "r < 128")
  case True
  then show ?thesis by (auto simp: lower_rune_def isSpace_small)
next
  case False
  then have l: "lower_rune r = lower_in case_ranges r" by (simp add: lower_rune_def)
  from lower_in_hit [of case_ranges r] show ?thesis
  proof
    assume "\<exists>e \<in> set case_ranges. in_range e r \<and> lower_in case_ranges r = shift_in e r"
    then obtain e where e: "e \<in> set case_ranges" "in_range e r"
      "lower_in case_ranges r = shift_in e r" by blast
    from e(1) case_ranges_miss_spaces have "misses_spaces e" by (simp add: list_all_iff)
    from misses_spacesD [OF this e(2)] e(3) l show ?thesis by simp
  qed (simp add: l)
qed

subsection \<open>Folding is idempotent\<close>

text \<open>
  No lower-case image is in a range again.  Comparing every range with every other is quadratic,
  so the table is cut into blocks, and a block whose bounds the image misses is skipped.
\<close>

fun shifted :: "case_range \<Rightarrow> case_range \<Rightarrow> bool" where
  "shifted (lo, hi, st, to) (lo', hi', st', to') \<longleftrightarrow>
     to + (hi - lo) < lo' \<or> hi' < to \<or>
     ((lo = hi \<or> st = 2) \<and> (lo' = hi' \<or> st' = 2) \<and> (to - lo') mod 2 \<noteq> 0)"

fun within :: "rune \<Rightarrow> rune \<Rightarrow> case_range \<Rightarrow> bool" where
  "within a b (lo, hi, st, to) \<longleftrightarrow> a \<le> lo \<and> hi \<le> b"

fun skips :: "case_range \<Rightarrow> rune \<times> rune \<times> case_range list \<Rightarrow> bool" where
  "skips (lo, hi, st, to) (a, b, es) \<longleftrightarrow> to + (hi - lo) < a \<or> b < to \<or> list_all (shifted (lo, hi, st, to)) es"

fun blocks :: "nat \<Rightarrow> case_range list \<Rightarrow> (rune \<times> rune \<times> case_range list) list" where
  "blocks 0 es = []"
| "blocks (Suc n) es = (let b = take 13 es in (fst (hd b), fst (snd (last b)), b) # blocks n (drop 13 es))"

definition table_checked :: bool where
  "table_checked \<longleftrightarrow>
     (let bs = blocks 14 case_ranges in
      concat (map (\<lambda>(a, b, es). es) bs) = case_ranges \<and>
      list_all (\<lambda>(lo, hi, st, to). 90 < to) case_ranges \<and>
      list_all (\<lambda>(a, b, es). list_all (within a b) es) bs \<and>
      list_all (\<lambda>e. list_all (skips e) bs) case_ranges)"

lemma table_checked: table_checked
  by code_simp

lemma shifted_apart:
  assumes "shifted e e'" and "in_range e r"
  shows "\<not> in_range e' (shift_in e r)"
proof
  obtain lo hi st to where e: "e = (lo, hi, st, to)" by (cases e)
  obtain lo' hi' st' to' where e': "e' = (lo', hi', st', to')" by (cases e')
  assume "in_range e' (shift_in e r)"
  then have x: "lo' \<le> to + (r - lo)" "to + (r - lo) \<le> hi'" "(to + (r - lo) - lo') mod st' = 0"
    by (auto simp: e e')
  from assms(2) have r: "lo \<le> r" "r \<le> hi" "(r - lo) mod st = 0" by (auto simp: e)
  from assms(1) consider "to + (hi - lo) < lo'" | "hi' < to"
    | "lo = hi \<or> st = 2" "lo' = hi' \<or> st' = 2" "(to - lo') mod 2 \<noteq> 0"
    by (auto simp: e e')
  then show False
  proof cases
    case 3
    from 3(1) r have "2 dvd r - lo" by auto
    moreover from 3(2) x have "2 dvd to + (r - lo) - lo'" by auto
    ultimately show False using 3(3) by presburger
  qed (use x r in auto)
qed

lemma skips_apart:
  assumes "skips e (a, b, es)" and "list_all (within a b) es" and "e' \<in> set es" and "in_range e r"
  shows "\<not> in_range e' (shift_in e r)"
proof -
  obtain lo hi st to where e: "e = (lo, hi, st, to)" by (cases e)
  obtain lo' hi' st' to' where e': "e' = (lo', hi', st', to')" by (cases e')
  from assms(2,3) have w: "a \<le> lo'" "hi' \<le> b" by (auto simp: e' list_all_iff)
  from assms(4) have r: "lo \<le> r" "r \<le> hi" by (auto simp: e)
  have "to + (hi - lo) < a \<or> b < to \<or> list_all (shifted e) es"
    using assms(1) unfolding e skips.simps .
  then consider "to + (hi - lo) < a \<or> b < to" | "shifted e e'"
    using assms(3) unfolding list_all_iff by blast
  then show ?thesis
  proof cases
    case 1
    then show ?thesis using w r unfolding e e' in_range.simps shift_in.simps by linarith
  next
    case 2
    then show ?thesis using assms(4) by (rule shifted_apart)
  qed
qed

lemma lower_in_fix: "\<forall>e \<in> set T. \<not> in_range e r \<Longrightarrow> lower_in T r = r"
  by (induction T) auto

lemma case_ranges_settled:
  assumes "e \<in> set case_ranges" and "in_range e r"
  shows "lower_in case_ranges (shift_in e r) = shift_in e r"
proof (rule lower_in_fix, rule ballI)
  fix e' assume e': "e' \<in> set case_ranges"
  let ?bs = "blocks 14 case_ranges"
  from table_checked have c: "concat (map (\<lambda>(a, b, es). es) ?bs) = case_ranges"
    "list_all (\<lambda>(a, b, es). list_all (within a b) es) ?bs"
    "list_all (\<lambda>e. list_all (skips e) ?bs) case_ranges"
    unfolding table_checked_def Let_def by blast+
  from e' c(1) have "e' \<in> set (concat (map (\<lambda>(a, b, es). es) ?bs))" by simp
  then obtain a b es where b: "(a, b, es) \<in> set ?bs" "e' \<in> set es" by auto
  from b(1) c(2) have "list_all (within a b) es" unfolding list_all_iff by fast
  moreover from b(1) c(3) assms(1) have "skips e (a, b, es)" unfolding list_all_iff by fast
  ultimately show "\<not> in_range e' (shift_in e r)" using skips_apart b(2) assms(2) by blast
qed


lemma lower_rune_idem [simp]: "lower_rune (lower_rune r) = lower_rune r"
proof (cases "r < 128")
  case True
  then show ?thesis by (simp add: lower_rune_def)
next
  case False
  then have l: "lower_rune r = lower_in case_ranges r" by (simp add: lower_rune_def)
  from lower_in_hit [of case_ranges r] show ?thesis
  proof
    assume "\<exists>e \<in> set case_ranges. in_range e r \<and> lower_in case_ranges r = shift_in e r"
    then obtain e where e: "e \<in> set case_ranges" "in_range e r"
      "lower_in case_ranges r = shift_in e r" by blast
    obtain lo hi st to where ee: "e = (lo, hi, st, to)" by (cases e)
    from table_checked have "list_all (\<lambda>(lo, hi, st, to). 90 < to) case_ranges"
      unfolding table_checked_def Let_def by blast
    with e(1) have "90 < to" unfolding ee list_all_iff by fast
    with e(2) have "90 < shift_in e r" by (simp add: ee)
    with case_ranges_settled [OF e(1,2)] e(3) l show ?thesis by (simp add: lower_rune_def)
  qed (simp add: l)
qed

lemma lower_rune_fixed: "r < 128 \<Longrightarrow> \<not> (65 \<le> r \<and> r \<le> 90) \<Longrightarrow> lower_rune r = r"
  by (simp add: lower_rune_def)

end
