(* ===== verification/Go_Prelude.thy ===== *)
theory Go_Prelude
  imports Unicode_Fold "HOL-Library.List_Lexorder" "HOL-Library.AList" "HOL-Library.Multiset"
begin

text \<open>
  What every component of the development shares: the functions of Go's \<open>strings\<close> package the
  program calls, first-error combinators for the program's chains of checks, the
  append-unless-seen loop it writes in several places, and the generic lemmas on them.
  Go's string order is the order of \<open>List_Lexorder\<close>; a Go map is an association list whose order
  is the (unspecified) iteration order; times are nanoseconds since Go's zero time, so that
  \<open>IsZero\<close> is \<open>t = 0\<close>; a Go \<open>error\<close> that may be nil is an \<open>option\<close>.
\<close>

named_theorems go_eval \<open>equations that compute string functions on literals\<close>
named_theorems go_err \<open>what the first-error combinators report\<close>

type_synonym time = int
type_synonym duration = int
type_synonym 'v gomap = "(gostr \<times> 'v) list"

section \<open>Strings\<close>

definition lit :: "string \<Rightarrow> gostr" where
  "lit s = map of_char s"

definition trimSpace :: "gostr \<Rightarrow> gostr" where
  "trimSpace s = rev (dropWhile isSpace (rev (dropWhile isSpace s)))"

definition toLower :: "gostr \<Rightarrow> gostr" where
  "toLower s = map lower_rune s"

definition hasPrefix :: "gostr \<Rightarrow> gostr \<Rightarrow> bool" where
  "hasPrefix s p \<longleftrightarrow> take (length p) s = p"

definition trimPrefix :: "gostr \<Rightarrow> gostr \<Rightarrow> gostr" where
  "trimPrefix s p = (if hasPrefix s p then drop (length p) s else s)"

definition trimSuffix :: "gostr \<Rightarrow> gostr \<Rightarrow> gostr" where
  "trimSuffix s p = rev (trimPrefix (rev s) (rev p))"

definition trimRunes :: "gostr \<Rightarrow> rune set \<Rightarrow> gostr" where
  "trimRunes s cs = rev (dropWhile (\<lambda>r. r \<in> cs) (rev (dropWhile (\<lambda>r. r \<in> cs) s)))"

fun containsStr :: "gostr \<Rightarrow> gostr \<Rightarrow> bool" where
  "containsStr [] sub \<longleftrightarrow> sub = []"
| "containsStr (r # s) sub \<longleftrightarrow> hasPrefix (r # s) sub \<or> containsStr s sub"

function replaceNonEmpty :: "gostr \<Rightarrow> gostr \<Rightarrow> gostr \<Rightarrow> gostr" where
  "replaceNonEmpty [] old new = []"
| "replaceNonEmpty (r # s) old new =
     (if old \<noteq> [] \<and> hasPrefix (r # s) old
      then new @ replaceNonEmpty (drop (length old) (r # s)) old new
      else r # replaceNonEmpty s old new)"
  by pat_completeness auto
termination
  by (relation "measure (\<lambda>(s, old, new). length s)") auto

definition replaceAll :: "gostr \<Rightarrow> gostr \<Rightarrow> gostr \<Rightarrow> gostr" where
  "replaceAll s old new =
     (if old = [] then new @ concat (map (\<lambda>r. r # new) s) else replaceNonEmpty s old new)"

fun splitRune :: "rune \<Rightarrow> gostr \<Rightarrow> gostr list" where
  "splitRune sep [] = [[]]"
| "splitRune sep (r # s) =
     (if r = sep then [] # splitRune sep s
      else (case splitRune sep s of [] \<Rightarrow> [[r]] | w # ws \<Rightarrow> (r # w) # ws))"

function fieldsFunc :: "(rune \<Rightarrow> bool) \<Rightarrow> gostr \<Rightarrow> gostr list" where
  "fieldsFunc p [] = []"
| "fieldsFunc p (r # s) =
     (if p r then fieldsFunc p s
      else (r # takeWhile (\<lambda>c. \<not> p c) s) # fieldsFunc p (dropWhile (\<lambda>c. \<not> p c) s))"
  by pat_completeness auto
termination
  by (relation "measure (\<lambda>(p, s). length s)") (auto simp: le_imp_less_Suc length_dropWhile_le)

abbreviation fieldsSpace :: "gostr \<Rightarrow> gostr list" where
  "fieldsSpace \<equiv> fieldsFunc isSpace"

fun joinStr :: "gostr \<Rightarrow> gostr list \<Rightarrow> gostr" where
  "joinStr sep [] = []"
| "joinStr sep [w] = w"
| "joinStr sep (w # v # ws) = w @ sep @ joinStr sep (v # ws)"

fun itoa :: "nat \<Rightarrow> gostr" where
  "itoa n = (if n < 10 then [48 + int n] else itoa (n div 10) @ [48 + int (n mod 10)])"

declare itoa.simps [simp del] replaceNonEmpty.simps [simp del]

lemma lit_inj [simp]: "lit s = lit t \<longleftrightarrow> s = t"
  by (simp add: lit_def inj_map_eq_map inj_on_def)

lemma lit_Nil_iff [simp]: "lit s = [] \<longleftrightarrow> s = []" "[] = lit s \<longleftrightarrow> s = []"
  by (auto simp: lit_def)

lemma lit_eval [go_eval]: "lit [] = []" "lit (c # s) = of_char c # lit s"
  by (simp_all add: lit_def)

lemma dropWhile_hd: "dropWhile P xs = [] \<or> \<not> P (hd (dropWhile P xs))"
  by (induction xs) auto

lemma dropWhile_fixed: "dropWhile P xs = xs \<longleftrightarrow> xs = [] \<or> \<not> P (hd xs)"
  by (cases xs) (auto, metis impossible_Cons length_dropWhile_le)

lemma dropWhile_full: "length xs \<le> length (dropWhile P xs) \<Longrightarrow> dropWhile P xs = xs"
  by (metis append_self_conv2 length_0_conv length_append takeWhile_dropWhile_id
      add_le_same_cancel2 le_zero_eq)

lemma trimSpace_decomp:
  obtains u v where "s = u @ trimSpace s @ v" "list_all isSpace u" "list_all isSpace v"
proof -
  let ?t = "dropWhile isSpace s"
  have "s = takeWhile isSpace s @ ?t" by simp
  moreover have "rev ?t = takeWhile isSpace (rev ?t) @ dropWhile isSpace (rev ?t)" by simp
  then have "?t = trimSpace s @ rev (takeWhile isSpace (rev ?t))"
    unfolding trimSpace_def by (metis rev_append rev_rev_ident)
  ultimately have "s = takeWhile isSpace s @ trimSpace s @ rev (takeWhile isSpace (rev ?t))"
    by metis
  moreover have "list_all isSpace (takeWhile isSpace s)"
    "list_all isSpace (rev (takeWhile isSpace (rev ?t)))"
    by (auto simp: list_all_iff dest: set_takeWhileD)
  ultimately show thesis using that by blast
qed

lemma trimSpace_fixed:
  "trimSpace s = s \<longleftrightarrow> s = [] \<or> \<not> isSpace (hd s) \<and> \<not> isSpace (last s)" (is "_ \<longleftrightarrow> ?R")
proof
  assume eq: "trimSpace s = s"
  have "length (trimSpace s) \<le> length (dropWhile isSpace s)"
    unfolding trimSpace_def by (metis length_dropWhile_le length_rev)
  then have l: "dropWhile isSpace s = s"
    using eq by (intro dropWhile_full) simp
  then have "dropWhile isSpace (rev s) = rev s"
    using eq unfolding trimSpace_def by (metis rev_rev_ident)
  with l show ?R by (auto simp: dropWhile_fixed hd_rev)
next
  assume ?R
  then have "dropWhile isSpace s = s" "dropWhile isSpace (rev s) = rev s"
    by (auto simp: dropWhile_fixed hd_rev)
  then show "trimSpace s = s" by (simp add: trimSpace_def)
qed

lemma trimSpace_idem [simp]: "trimSpace (trimSpace s) = trimSpace s"
proof -
  let ?t = "dropWhile isSpace s"
  have "trimSpace s = [] \<or> \<not> isSpace (last (trimSpace s))"
    using dropWhile_hd [of isSpace "rev ?t"] by (auto simp: trimSpace_def last_rev)
  moreover have "trimSpace s = [] \<or> \<not> isSpace (hd (trimSpace s))"
  proof (cases "trimSpace s = []")
    case False
    have "?t = trimSpace s @ rev (takeWhile isSpace (rev ?t))"
      unfolding trimSpace_def by (metis rev_append rev_rev_ident takeWhile_dropWhile_id)
    with False have "hd ?t = hd (trimSpace s)" "?t \<noteq> []"
      by (metis hd_append2, metis append_is_Nil_conv)
    with dropWhile_hd [of isSpace s] show ?thesis by metis
  qed simp
  ultimately show ?thesis by (auto simp: trimSpace_fixed)
qed

lemma trimSpace_Nil [simp]: "trimSpace [] = []"
  by (simp add: trimSpace_def)

lemma trimSpace_subset: "set (trimSpace s) \<subseteq> set s"
  by (rule trimSpace_decomp [of s]) (metis set_append Un_upper1 Un_upper2 order_trans)

lemma trimSpace_empty_iff: "trimSpace s = [] \<longleftrightarrow> list_all isSpace s"
proof
  assume "trimSpace s = []"
  then show "list_all isSpace s" by (metis trimSpace_decomp append_Nil list_all_append)
next
  assume "list_all isSpace s"
  then have d: "dropWhile isSpace s = []" by (simp add: list_all_iff)
  show "trimSpace s = []" unfolding trimSpace_def d by simp
qed

lemma trimSpace_all: "list_all P s \<Longrightarrow> list_all P (trimSpace s)"
  using trimSpace_subset [of s] by (auto simp: list_all_iff)

lemma toLower_Nil_iff [simp]: "toLower s = [] \<longleftrightarrow> s = []" "[] = toLower s \<longleftrightarrow> s = []"
  by (auto simp: toLower_def)

lemma toLower_idem [simp]: "toLower (toLower s) = toLower s"
  by (simp add: toLower_def)

lemma trimSpace_toLower: "trimSpace (toLower s) = toLower (trimSpace s)"
proof -
  have *: "dropWhile isSpace (map lower_rune t) = map lower_rune (dropWhile isSpace t)" for t
    by (induction t) auto
  show ?thesis by (simp add: trimSpace_def toLower_def * rev_map)
qed

lemma hasPrefix_append [simp]: "hasPrefix (p @ s) p"
  by (simp add: hasPrefix_def)

lemma hasPrefixE: "hasPrefix s p \<Longrightarrow> (\<And>t. s = p @ t \<Longrightarrow> P) \<Longrightarrow> P"
  by (metis append_take_drop_id hasPrefix_def)

lemma replaceNonEmpty_same: "\<not> containsStr s old \<Longrightarrow> replaceNonEmpty s old new = s"
  by (induction s) (auto simp: replaceNonEmpty.simps)

lemma containsStr_single: "containsStr s [c] \<longleftrightarrow> c \<in> set s"
  by (induction s) (auto simp: hasPrefix_def)

lemma splitRune_ne [simp]: "splitRune c s \<noteq> []"
  by (induction s) (auto split: list.splits)

lemma splitRune_join: "joinStr [c] (splitRune c s) = s \<and> (\<forall>w \<in> set (splitRune c s). c \<notin> set w)"
proof (induction s)
  case (Cons r s)
  show ?case
  proof (cases "r = c")
    case True
    then show ?thesis using Cons by (cases "splitRune c s") auto
  next
    case False
    obtain w ws where w: "splitRune c s = w # ws" by (cases "splitRune c s") auto
    with Cons False show ?thesis by (cases ws) auto
  qed
qed simp

lemma splitRune_subset: "w \<in> set (splitRune c s) \<Longrightarrow> set w \<subseteq> set s"
proof -
  have "\<forall>w \<in> set (splitRune c s). set w \<subseteq> set s"
  proof (induction s)
    case (Cons r s)
    obtain w ws where "splitRune c s = w # ws" by (cases "splitRune c s") auto
    with Cons show ?case by auto
  qed simp
  then show "w \<in> set (splitRune c s) \<Longrightarrow> set w \<subseteq> set s" by blast
qed

lemma splitRune_pair:
  "c \<notin> set a \<Longrightarrow> splitRune c (a @ [c] @ b) = a # splitRune c b"
  by (induction a) auto

lemma splitRune_none: "c \<notin> set s \<Longrightarrow> splitRune c s = [s]"
  by (induction s) auto

lemma splitRune_append: "splitRune c (a @ c # b) = splitRune c a @ splitRune c b"
  by (induction a) (auto split: list.splits)

section \<open>First error of a sequence of checks\<close>

fun firstError :: "'e option list \<Rightarrow> 'e option" where
  "firstError [] = None"
| "firstError (None # es) = firstError es"
| "firstError (Some e # es) = Some e"

definition errIf :: "bool \<Rightarrow> 'e \<Rightarrow> 'e option" where
  "errIf b e = (if b then Some e else None)"

fun forErr :: "nat \<Rightarrow> (nat \<Rightarrow> 'a \<Rightarrow> 'e option) \<Rightarrow> 'a list \<Rightarrow> 'e option" where
  "forErr i f [] = None"
| "forErr i f (x # xs) = (case f i x of Some e \<Rightarrow> Some e | None \<Rightarrow> forErr (Suc i) f xs)"

lemma firstError_None [go_err, simp]: "firstError es = None \<longleftrightarrow> (\<forall>e \<in> set es. e = None)"
  by (induction es rule: firstError.induct) auto

lemma case_error_None [go_err]:
  "(case e of None \<Rightarrow> r | Some x \<Rightarrow> Some x) = None \<longleftrightarrow> e = None \<and> r = None"
  by (cases e) auto

lemma firstError_Some: "firstError es = Some e \<Longrightarrow> Some e \<in> set es"
  by (induction es rule: firstError.induct) auto

lemma errIf_None [go_err, simp]: "errIf b e = None \<longleftrightarrow> \<not> b"
  by (simp add: errIf_def)

lemma errIf_Some [go_err, simp]: "errIf b e = Some e' \<longleftrightarrow> b \<and> e' = e"
  by (auto simp: errIf_def)

lemma forErr_None [go_err]: "forErr i f xs = None \<longleftrightarrow> (\<forall>k < length xs. f (i + k) (xs ! k) = None)"
proof (induction xs arbitrary: i)
  case (Cons x xs)
  show ?case
    by (auto simp: Cons.IH All_less_Suc2 split: option.splits)
qed simp

lemma forErr_None_const: "forErr i (\<lambda>_. g) xs = None \<longleftrightarrow> (\<forall>x \<in> set xs. g x = None)"
  by (induction xs arbitrary: i) (auto split: option.splits)

lemma forErr_Some:
  "forErr i f xs = Some e \<Longrightarrow> \<exists>k < length xs. f (i + k) (xs ! k) = Some e"
proof (induction xs arbitrary: i)
  case (Cons x xs)
  show ?case
  proof (cases "f i x")
    case None
    with Cons.prems have "forErr (Suc i) f xs = Some e" by simp
    from Cons.IH [OF this] obtain k where "k < length xs" "f (Suc i + k) (xs ! k) = Some e" by blast
    then show ?thesis by (intro exI [of _ "Suc k"]) auto
  next
    case (Some e')
    with Cons.prems show ?thesis by (intro exI [of _ 0]) auto
  qed
qed simp

section \<open>Append unless seen\<close>

text \<open>
  The loop \<open>for v in values { v = f(v); if v == "" or seen[v] continue; seen[v]; out = append(out, v) }\<close>:
  \<open>seen\<close> is always the set of \<open>out\<close>.
\<close>

definition addFresh :: "gostr list \<Rightarrow> gostr \<Rightarrow> gostr list" where
  "addFresh out v = (if v = [] then out else if v \<in> set out then out else out @ [v])"

lemma set_foldl_addFresh:
  "set (foldl (\<lambda>out v. addFresh out (f v)) out vs) = set out \<union> (f ` set vs - {[]})"
  by (induction vs arbitrary: out) (auto simp: addFresh_def)

lemma distinct_foldl_addFresh:
  "distinct out \<Longrightarrow> distinct (foldl (\<lambda>out v. addFresh out (f v)) out vs)"
  by (induction vs arbitrary: out) (auto simp: addFresh_def)

lemma foldl_addFresh_fixed:
  "distinct (out @ vs) \<Longrightarrow> [] \<notin> set vs \<Longrightarrow> (\<And>v. v \<in> set vs \<Longrightarrow> f v = v) \<Longrightarrow>
   foldl (\<lambda>out v. addFresh out (f v)) out vs = out @ vs"
  by (induction vs arbitrary: out) (auto simp: addFresh_def)

lemma length_foldl_addFresh:
  "length (foldl (\<lambda>out v. addFresh out (f v)) out vs) \<le> length out + length vs"
proof (induction vs arbitrary: out)
  case (Cons v vs)
  have "length (addFresh out (f v)) \<le> Suc (length out)" by (simp add: addFresh_def)
  with Cons.IH [of "addFresh out (f v)"] show ?case by simp
qed simp

end
