(* ===== verification/Policy.thy ===== *)
theory Policy
  imports Go_Prelude
begin

text \<open>
  The proxy policy file, \<open>libs/proxy-contract/policy\<close>: its schema (\<open>policy.go\<close>), the canonical
  form both sides of the contract work from (\<open>normalize.go\<close>) and the validation of a policy
  (\<open>validate.go\<close>).  Every error return of the source is one constructor of \<open>policy_error\<close>,
  with the indices it prints.  Decoding the YAML text is not modelled: a policy here is the
  decoded value.  The map \<open>SetHeader\<close> is an association list in the order Go iterates over it.
\<close>

section \<open>Schema\<close>

record ProxyEnv =
  pe_Name :: gostr
  pe_Secret :: gostr
  pe_Rules :: "gostr list"
  pe_In :: "gostr list"

record ProxyBasicAuth =
  ba_Username :: gostr
  ba_Secret :: gostr

record ProxyPlaceholderReplacement =
  pp_Placeholder :: gostr
  pp_Secret :: gostr
  pp_In :: "gostr list"

record ProxyRule =
  pr_Name :: gostr
  pr_MatchHosts :: "gostr list"
  pr_MatchPathPrefixes :: "gostr list"
  pr_SetHeader :: "gostr gomap"
  pr_SetBasicAuth :: "ProxyBasicAuth option"
  pr_ReplacePlaceholder :: "ProxyPlaceholderReplacement list"

record Proxy =
  px_NoProxy :: "gostr list"
  px_SetLowercaseProxyEnv :: bool
  px_Secrets :: "gostr list"
  px_Env :: "ProxyEnv list"
  px_Rules :: "ProxyRule list"

record Config =
  cf_SchemaVersion :: int
  cf_Proxy :: Proxy

definition SchemaVersion :: int where
  "SchemaVersion = 1"

datatype alias_error = AliasEmpty | AliasChars

datatype env_name_error = EnvNameEmpty | EnvNameChars

datatype policy_error =
    SchemaNewer int int | SchemaNegative int | SchemaOlder int int
  | SecretsAlias nat alias_error | NoSecrets
  | RuleNoHosts nat | RuleEmptyHost nat nat
  | RuleEmptyPrefix nat nat | RulePrefixSlash nat nat
  | RuleEmptyHeader nat
  | BasicUsername nat | BasicSecretAlias nat alias_error | BasicSecretUndeclared nat gostr
  | BasicAndHeader nat
  | ReplPlaceholder nat nat | ReplSecretAlias nat nat alias_error
  | ReplSecretUndeclared nat nat gostr | ReplNoIn nat nat
  | ReplInBody nat nat nat | ReplInOther nat nat nat
  | EnvName nat env_name_error | EnvDuplicate nat gostr
  | EnvSecretAlias nat alias_error | EnvSecretUndeclared nat gostr
  | EnvNoRules nat | EnvRuleMissing nat nat gostr | EnvRuleAmbiguous nat nat gostr
  | EnvInBody nat nat | EnvInOther nat nat

section \<open>Canonical form\<close>

definition normalizeList :: "gostr list \<Rightarrow> bool \<Rightarrow> gostr list" where
  "normalizeList vs lower =
     foldl (\<lambda>out v. addFresh out (let v = trimSpace v in if lower then toLower v else v)) [] vs"

definition secretAliasRE :: "gostr \<Rightarrow> bool" where
  "secretAliasRE s \<longleftrightarrow> s \<noteq> [] \<and>
     list_all (\<lambda>r. (97 \<le> r \<and> r \<le> 122) \<or> (48 \<le> r \<and> r \<le> 57) \<or> r = 95 \<or> r = 45) s"

definition envNameRE :: "gostr \<Rightarrow> bool" where
  "envNameRE s \<longleftrightarrow>
     (case s of
        [] \<Rightarrow> False
      | r # t \<Rightarrow>
          ((65 \<le> r \<and> r \<le> 90) \<or> (97 \<le> r \<and> r \<le> 122) \<or> r = 95) \<and>
          list_all (\<lambda>r. (65 \<le> r \<and> r \<le> 90) \<or> (97 \<le> r \<and> r \<le> 122) \<or> (48 \<le> r \<and> r \<le> 57) \<or> r = 95) t)"

definition normalizeAlias :: "gostr \<Rightarrow> alias_error + gostr" where
  "normalizeAlias alias =
     (let alias = toLower (trimSpace alias) in
      if alias = [] then Inl AliasEmpty
      else if \<not> secretAliasRE alias then Inl AliasChars
      else Inr alias)"

definition normalizeEnvName :: "gostr \<Rightarrow> env_name_error + gostr" where
  "normalizeEnvName name =
     (let name = trimSpace name in
      if name = [] then Inl EnvNameEmpty
      else if \<not> envNameRE name then Inl EnvNameChars
      else Inr name)"

definition NormalizedNoProxy :: "Proxy \<Rightarrow> gostr list" where
  "NormalizedNoProxy p = normalizeList (px_NoProxy p) False"

fun normalizedSecretsFrom :: "nat \<Rightarrow> gostr list \<Rightarrow> gostr list \<Rightarrow> (nat \<times> alias_error) + gostr list" where
  "normalizedSecretsFrom i out [] = Inr out"
| "normalizedSecretsFrom i out (alias # as) =
     (case normalizeAlias alias of
        Inl e \<Rightarrow> Inl (i, e)
      | Inr a \<Rightarrow> normalizedSecretsFrom (Suc i) (if a \<in> set out then out else out @ [a]) as)"

definition NormalizedSecrets :: "Proxy \<Rightarrow> (nat \<times> alias_error) + gostr list" where
  "NormalizedSecrets p = normalizedSecretsFrom 0 [] (px_Secrets p)"

text \<open>\<open>textproto.CanonicalMIMEHeaderKey\<close>: a key of token bytes gets its wire case, any other
  key is returned unchanged.\<close>

definition validHeaderFieldByte :: "rune \<Rightarrow> bool" where
  "validHeaderFieldByte r \<longleftrightarrow>
     (48 \<le> r \<and> r \<le> 57) \<or> (65 \<le> r \<and> r \<le> 90) \<or> (97 \<le> r \<and> r \<le> 122) \<or>
     r \<in> {33, 35, 36, 37, 38, 39, 42, 43, 45, 46, 94, 95, 96, 124, 126}"

fun wireCase :: "bool \<Rightarrow> gostr \<Rightarrow> gostr" where
  "wireCase upper [] = []"
| "wireCase upper (r # s) =
     (let c = (if upper \<and> 97 \<le> r \<and> r \<le> 122 then r - 32
               else if \<not> upper \<and> 65 \<le> r \<and> r \<le> 90 then r + 32 else r)
      in c # wireCase (c = 45) s)"

definition CanonicalMIMEHeaderKey :: "gostr \<Rightarrow> gostr" where
  "CanonicalMIMEHeaderKey s = (if list_all validHeaderFieldByte s then wireCase True s else s)"

definition normalizeHeaders :: "gostr gomap \<Rightarrow> gostr gomap" where
  "normalizeHeaders hs =
     foldl (\<lambda>m (k, v). AList.update (CanonicalMIMEHeaderKey (trimSpace k)) (trimSpace v) m) [] hs"

definition normalizeReplacement :: "ProxyPlaceholderReplacement \<Rightarrow> ProxyPlaceholderReplacement" where
  "normalizeReplacement repl =
     \<lparr>pp_Placeholder = trimSpace (pp_Placeholder repl),
      pp_Secret = toLower (trimSpace (pp_Secret repl)),
      pp_In = normalizeList (pp_In repl) True\<rparr>"

definition normalizeBasicAuth :: "ProxyBasicAuth \<Rightarrow> ProxyBasicAuth" where
  "normalizeBasicAuth b =
     \<lparr>ba_Username = trimSpace (ba_Username b), ba_Secret = toLower (trimSpace (ba_Secret b))\<rparr>"

definition normalizeRule :: "ProxyRule \<Rightarrow> ProxyRule" where
  "normalizeRule rule =
     \<lparr>pr_Name = trimSpace (pr_Name rule),
      pr_MatchHosts = normalizeList (pr_MatchHosts rule) True,
      pr_MatchPathPrefixes = normalizeList (pr_MatchPathPrefixes rule) False,
      pr_SetHeader = normalizeHeaders (pr_SetHeader rule),
      pr_SetBasicAuth = map_option normalizeBasicAuth (pr_SetBasicAuth rule),
      pr_ReplacePlaceholder = map normalizeReplacement (pr_ReplacePlaceholder rule)\<rparr>"

definition NormalizedRules :: "Proxy \<Rightarrow> ProxyRule list" where
  "NormalizedRules p = map normalizeRule (px_Rules p)"

definition normalizeEnv :: "ProxyEnv \<Rightarrow> ProxyEnv" where
  "normalizeEnv env =
     (let places = normalizeList (pe_In env) True in
      \<lparr>pe_Name = trimSpace (pe_Name env),
       pe_Secret = toLower (trimSpace (pe_Secret env)),
       pe_Rules = normalizeList (pe_Rules env) False,
       pe_In = (if places = [] then [lit ''header''] else places)\<rparr>)"

definition NormalizedEnv :: "Proxy \<Rightarrow> ProxyEnv list" where
  "NormalizedEnv p = map normalizeEnv (px_Env p)"

section \<open>Validation\<close>

definition checkSchemaVersion :: "int \<Rightarrow> int \<Rightarrow> policy_error option" where
  "checkSchemaVersion have want =
     (if have = 0 \<or> have = want then None
      else if want < have then Some (SchemaNewer have want)
      else if have < 0 then Some (SchemaNegative have)
      else Some (SchemaOlder have want))"

text \<open>The place a secret may be substituted in: the two \<open>switch where\<close> statements of the
  validation, which differ in the error they build.\<close>

definition checkPlace :: "policy_error \<Rightarrow> policy_error \<Rightarrow> gostr \<Rightarrow> policy_error option" where
  "checkPlace body other place =
     (let place = toLower (trimSpace place) in
      if place = lit ''header'' \<or> place = lit ''query'' \<or> place = lit ''path'' then None
      else if place = lit ''body'' then Some body
      else Some other)"

definition checkPathPrefix :: "nat \<Rightarrow> nat \<Rightarrow> gostr \<Rightarrow> policy_error option" where
  "checkPathPrefix i j pfx =
     (let pfx = trimSpace pfx in
      firstError
        [errIf (pfx = []) (RuleEmptyPrefix i j),
         errIf (\<not> hasPrefix pfx (lit ''/'')) (RulePrefixSlash i j)])"

definition hasAuthorizationHeader :: "gostr gomap \<Rightarrow> bool" where
  "hasAuthorizationHeader hs =
     list_ex (\<lambda>(k, v). CanonicalMIMEHeaderKey (trimSpace k) = lit ''Authorization'') hs"

definition checkDeclared ::
  "gostr list \<Rightarrow> (alias_error \<Rightarrow> policy_error) \<Rightarrow> (gostr \<Rightarrow> policy_error) \<Rightarrow> gostr \<Rightarrow> policy_error option"
where
  "checkDeclared declared bad undeclared secret =
     (case normalizeAlias secret of
        Inl e \<Rightarrow> Some (bad e)
      | Inr a \<Rightarrow> errIf (a \<notin> set declared) (undeclared a))"

definition checkBasicAuth :: "gostr list \<Rightarrow> nat \<Rightarrow> ProxyRule \<Rightarrow> policy_error option" where
  "checkBasicAuth declared i rule =
     (case pr_SetBasicAuth rule of
        None \<Rightarrow> None
      | Some b \<Rightarrow>
          firstError
            [errIf (trimSpace (ba_Username b) = []) (BasicUsername i),
             checkDeclared declared (BasicSecretAlias i) (BasicSecretUndeclared i) (ba_Secret b),
             errIf (hasAuthorizationHeader (pr_SetHeader rule)) (BasicAndHeader i)])"

definition checkReplacement ::
  "gostr list \<Rightarrow> nat \<Rightarrow> nat \<Rightarrow> ProxyPlaceholderReplacement \<Rightarrow> policy_error option"
where
  "checkReplacement declared i j repl =
     firstError
       [errIf (trimSpace (pp_Placeholder repl) = []) (ReplPlaceholder i j),
        checkDeclared declared (ReplSecretAlias i j) (ReplSecretUndeclared i j) (pp_Secret repl),
        errIf (pp_In repl = []) (ReplNoIn i j),
        forErr 0 (\<lambda>k. checkPlace (ReplInBody i j k) (ReplInOther i j k)) (pp_In repl)]"

definition checkRule :: "gostr list \<Rightarrow> nat \<Rightarrow> ProxyRule \<Rightarrow> policy_error option" where
  "checkRule declared i rule =
     firstError
       [errIf (pr_MatchHosts rule = []) (RuleNoHosts i),
        forErr 0 (\<lambda>j host. errIf (trimSpace host = []) (RuleEmptyHost i j)) (pr_MatchHosts rule),
        forErr 0 (checkPathPrefix i) (pr_MatchPathPrefixes rule),
        errIf (list_ex (\<lambda>(k, v). trimSpace k = []) (pr_SetHeader rule)) (RuleEmptyHeader i),
        checkBasicAuth declared i rule,
        forErr 0 (checkReplacement declared i) (pr_ReplacePlaceholder rule)]"

definition ruleNames :: "ProxyRule list \<Rightarrow> gostr list" where
  "ruleNames rules = filter (\<lambda>n. n \<noteq> []) (map (\<lambda>r. trimSpace (pr_Name r)) rules)"

definition checkRuleRef :: "gostr list \<Rightarrow> nat \<Rightarrow> nat \<Rightarrow> gostr \<Rightarrow> policy_error option" where
  "checkRuleRef names i j ruleName =
     (let count = count_list names ruleName in
      if count = 0 then Some (EnvRuleMissing i j ruleName)
      else if 1 < count then Some (EnvRuleAmbiguous i j ruleName)
      else None)"

text \<open>The loop over the environment mappings; \<open>seen\<close> is \<open>seenEnvNames\<close>.\<close>

fun checkEnvs ::
  "gostr list \<Rightarrow> gostr list \<Rightarrow> nat \<Rightarrow> gostr list \<Rightarrow> ProxyEnv list \<Rightarrow> policy_error option"
where
  "checkEnvs declared names i seen [] = None"
| "checkEnvs declared names i seen (env # envs) =
     (case normalizeEnvName (pe_Name env) of
        Inl e \<Rightarrow> Some (EnvName i e)
      | Inr name \<Rightarrow>
          (case firstError
             [errIf (name \<in> set seen) (EnvDuplicate i name),
              checkDeclared declared (EnvSecretAlias i) (EnvSecretUndeclared i) (pe_Secret env),
              errIf (pe_Rules env = []) (EnvNoRules i),
              forErr 0 (checkRuleRef names i) (pe_Rules env),
              forErr 0 (\<lambda>j. checkPlace (EnvInBody i j) (EnvInOther i j)) (pe_In env)]
           of Some e \<Rightarrow> Some e
            | None \<Rightarrow> checkEnvs declared names (Suc i) (name # seen) envs))"

definition validateProxy :: "Proxy \<Rightarrow> policy_error option" where
  "validateProxy p =
     (case NormalizedSecrets p of
        Inl (i, e) \<Rightarrow> Some (SecretsAlias i e)
      | Inr declared \<Rightarrow>
          firstError
            [errIf (declared = []) NoSecrets,
             forErr 0 (checkRule declared) (NormalizedRules p),
             checkEnvs declared (ruleNames (NormalizedRules p)) 0 [] (NormalizedEnv p)])"

definition Validate :: "Config \<Rightarrow> policy_error option" where
  "Validate c =
     firstError [checkSchemaVersion (cf_SchemaVersion c) SchemaVersion, validateProxy (cf_Proxy c)]"

section \<open>What a valid policy promises\<close>

definition placeOK :: "gostr \<Rightarrow> bool" where
  "placeOK w \<longleftrightarrow> toLower (trimSpace w) \<in> {lit ''header'', lit ''query'', lit ''path''}"

definition aliasDeclared :: "gostr list \<Rightarrow> gostr \<Rightarrow> bool" where
  "aliasDeclared declared s \<longleftrightarrow>
     secretAliasRE (toLower (trimSpace s)) \<and> toLower (trimSpace s) \<in> set declared"

definition replacementOK :: "gostr list \<Rightarrow> ProxyPlaceholderReplacement \<Rightarrow> bool" where
  "replacementOK declared repl \<longleftrightarrow>
     pp_Placeholder repl \<noteq> [] \<and> aliasDeclared declared (pp_Secret repl) \<and>
     pp_In repl \<noteq> [] \<and> list_all placeOK (pp_In repl)"

definition basicAuthOK :: "gostr list \<Rightarrow> ProxyRule \<Rightarrow> ProxyBasicAuth \<Rightarrow> bool" where
  "basicAuthOK declared rule b \<longleftrightarrow>
     ba_Username b \<noteq> [] \<and> aliasDeclared declared (ba_Secret b) \<and>
     map_of (pr_SetHeader rule) (lit ''Authorization'') = None"

text \<open>A rule of the canonical form: what it says of hosts, path prefixes, headers, basic
  authentication and placeholders.\<close>

definition ruleOK :: "gostr list \<Rightarrow> ProxyRule \<Rightarrow> bool" where
  "ruleOK declared rule \<longleftrightarrow>
     pr_MatchHosts rule \<noteq> [] \<and>
     list_all (\<lambda>p. hasPrefix p (lit ''/'')) (pr_MatchPathPrefixes rule) \<and>
     map_of (pr_SetHeader rule) [] = None \<and>
     pred_option (basicAuthOK declared rule) (pr_SetBasicAuth rule) \<and>
     list_all (replacementOK declared) (pr_ReplacePlaceholder rule)"

definition envOK :: "gostr list \<Rightarrow> ProxyRule list \<Rightarrow> ProxyEnv \<Rightarrow> bool" where
  "envOK declared rules env \<longleftrightarrow>
     envNameRE (pe_Name env) \<and> aliasDeclared declared (pe_Secret env) \<and> pe_Rules env \<noteq> [] \<and>
     list_all (\<lambda>n. length (filter (\<lambda>r. pr_Name r = n) rules) = 1) (pe_Rules env) \<and>
     list_all placeOK (pe_In env)"

definition policyOK :: "Config \<Rightarrow> bool" where
  "policyOK c \<longleftrightarrow>
     cf_SchemaVersion c \<in> {0, SchemaVersion} \<and>
     (case NormalizedSecrets (cf_Proxy c) of
        Inl e \<Rightarrow> False
      | Inr declared \<Rightarrow>
          declared \<noteq> [] \<and>
          list_all (ruleOK declared) (NormalizedRules (cf_Proxy c)) \<and>
          distinct (map pe_Name (NormalizedEnv (cf_Proxy c))) \<and>
          list_all (envOK declared (NormalizedRules (cf_Proxy c))) (NormalizedEnv (cf_Proxy c)))"

section \<open>Canonical lists, headers and aliases\<close>

lemma normalizeList_set:
  "set (normalizeList vs lower) =
   (\<lambda>v. if lower then toLower (trimSpace v) else trimSpace v) ` set vs - {[]}"
  by (auto simp: normalizeList_def set_foldl_addFresh Let_def)

lemma normalizeList_distinct [simp]: "distinct (normalizeList vs lower)"
  by (simp add: normalizeList_def distinct_foldl_addFresh)

lemma normalizeList_trimmed:
  "v \<in> set (normalizeList vs False) \<Longrightarrow> v \<noteq> [] \<and> trimSpace v = v"
  by (auto simp: normalizeList_set)

lemma normalizeList_lower_trimmed:
  "v \<in> set (normalizeList vs True) \<Longrightarrow> v \<noteq> [] \<and> trimSpace v = v \<and> toLower v = v"
  by (auto simp: normalizeList_set trimSpace_toLower)

lemma normalizeList_idem:
  assumes "\<And>v. v \<in> set vs \<Longrightarrow> v \<noteq> [] \<and> trimSpace v = v \<and> (lower \<longrightarrow> toLower v = v)"
    and "distinct vs"
  shows "normalizeList vs lower = vs"
  using assms by (auto simp: normalizeList_def Let_def intro!: foldl_addFresh_fixed [of "[]", simplified])

lemma wireCase_idem: "wireCase up (wireCase up s) = wireCase up s"
  by (induction up s rule: wireCase.induct) (auto simp: Let_def)

lemma wireCase_valid: "list_all validHeaderFieldByte s \<Longrightarrow> list_all validHeaderFieldByte (wireCase up s)"
  by (induction up s rule: wireCase.induct) (auto simp: Let_def validHeaderFieldByte_def)

lemma validHeaderFieldByte_no_space: "validHeaderFieldByte r \<Longrightarrow> \<not> isSpace r"
  by (auto simp: validHeaderFieldByte_def isSpace_small)

lemma wireCase_Nil_iff [simp]: "wireCase up s = [] \<longleftrightarrow> s = []"
  by (cases s) (auto simp: Let_def)

lemma canonical_idem [simp]:
  "CanonicalMIMEHeaderKey (CanonicalMIMEHeaderKey s) = CanonicalMIMEHeaderKey s"
  by (simp add: CanonicalMIMEHeaderKey_def wireCase_idem wireCase_valid)

lemma canonical_Nil_iff [simp]: "CanonicalMIMEHeaderKey s = [] \<longleftrightarrow> s = []"
  by (simp add: CanonicalMIMEHeaderKey_def)

lemma list_all_no_space: "list_all validHeaderFieldByte s \<Longrightarrow> trimSpace s = s"
  by (auto simp: trimSpace_fixed list_all_iff dest: validHeaderFieldByte_no_space)

lemma trim_canonical_trim [simp]:
  "trimSpace (CanonicalMIMEHeaderKey (trimSpace s)) = CanonicalMIMEHeaderKey (trimSpace s)"
  by (simp add: CanonicalMIMEHeaderKey_def wireCase_valid list_all_no_space)

definition canonHeader :: "gostr \<Rightarrow> bool" where
  "canonHeader k \<longleftrightarrow> trimSpace k = k \<and> CanonicalMIMEHeaderKey k = k"

lemma canonHeader_canonical [simp]: "canonHeader (CanonicalMIMEHeaderKey (trimSpace k))"
  by (simp add: canonHeader_def)

lemma foldl_headers_keys:
  "fst ` set (foldl (\<lambda>m (k, v). AList.update (CanonicalMIMEHeaderKey (trimSpace k)) (trimSpace v) m) m hs) =
   fst ` set m \<union> (\<lambda>(k, v). CanonicalMIMEHeaderKey (trimSpace k)) ` set hs"
proof (induction hs arbitrary: m)
  case (Cons h hs)
  obtain k v where h: "h = (k, v)" by (cases h)
  show ?case unfolding h foldl_Cons prod.case Cons.IH dom_update by simp
qed simp

lemma foldl_headers_distinct:
  "distinct (map fst m) \<Longrightarrow>
   distinct (map fst (foldl (\<lambda>m (k, v). AList.update (CanonicalMIMEHeaderKey (trimSpace k)) (trimSpace v) m) m hs))"
  by (induction hs arbitrary: m) (auto simp: distinct_update)

lemma normalizeHeaders_distinct [simp]: "distinct (map fst (normalizeHeaders hs))"
  unfolding normalizeHeaders_def by (rule foldl_headers_distinct) simp

lemma normalizeHeaders_keys:
  "fst ` set (normalizeHeaders hs) = (\<lambda>(k, v). CanonicalMIMEHeaderKey (trimSpace k)) ` set hs"
  unfolding normalizeHeaders_def by (simp add: foldl_headers_keys)

lemma normalizeHeaders_canon: "(k, v) \<in> set (normalizeHeaders hs) \<Longrightarrow> canonHeader k"
  using normalizeHeaders_keys [of hs] by (force simp: image_iff)

abbreviation headerKey :: "gostr \<Rightarrow> gostr" where
  "headerKey k \<equiv> CanonicalMIMEHeaderKey (trimSpace k)"

abbreviation sameHeader :: "gostr \<Rightarrow> gostr gomap \<Rightarrow> gostr gomap" where
  "sameHeader c hs \<equiv> filter (\<lambda>h. headerKey (fst h) = c) hs"

lemma map_of_foldl_headers:
  "map_of (foldl (\<lambda>m (k, v). AList.update (headerKey k) (trimSpace v) m) m hs) c =
   (if sameHeader c hs = [] then map_of m c else Some (trimSpace (snd (last (sameHeader c hs)))))"
proof (induction hs arbitrary: m)
  case (Cons h hs)
  obtain k v where h: "h = (k, v)" by (cases h)
  show ?case
    unfolding h foldl_Cons prod.case Cons.IH by (auto simp: update_conv')
qed simp

lemma map_of_normalizeHeaders:
  "map_of (normalizeHeaders hs) c =
   (if sameHeader c hs = [] then None else Some (trimSpace (snd (last (sameHeader c hs)))))"
  unfolding normalizeHeaders_def map_of_foldl_headers by (simp only: map_of.simps)

lemma foldl_headers_fixed:
  assumes "\<And>k v. (k, v) \<in> set hs \<Longrightarrow> canonHeader k \<and> trimSpace v = v"
    and "distinct (map fst (m @ hs))"
  shows "foldl (\<lambda>m (k, v). AList.update (CanonicalMIMEHeaderKey (trimSpace k)) (trimSpace v) m) m hs
    = m @ hs"
  using assms
proof (induction hs arbitrary: m)
  case (Cons h hs)
  obtain k v where h: "h = (k, v)" by (cases h)
  have kv: "canonHeader k" "trimSpace v = v" using Cons.prems(1) [of k v] h by auto
  have "k \<notin> fst ` set m" using Cons.prems(2) h by auto
  then have "AList.update k v m = m @ [(k, v)]" by (induction m) auto
  moreover have "foldl (\<lambda>m (k, v). AList.update (CanonicalMIMEHeaderKey (trimSpace k)) (trimSpace v) m)
      (m @ [(k, v)]) hs = (m @ [(k, v)]) @ hs"
    using Cons.prems h by (intro Cons.IH) auto
  ultimately show ?case using kv by (simp add: h canonHeader_def)
qed simp

lemma normalizeHeaders_trimmed: "(k, v) \<in> set (normalizeHeaders hs) \<Longrightarrow> trimSpace v = v"
proof -
  assume "(k, v) \<in> set (normalizeHeaders hs)"
  then have "map_of (normalizeHeaders hs) k = Some v"
    by (simp add: map_of_eq_Some_iff)
  then show ?thesis by (auto simp: map_of_normalizeHeaders split: if_splits)
qed

lemma normalizeHeaders_idem: "normalizeHeaders (normalizeHeaders hs) = normalizeHeaders hs"
  unfolding normalizeHeaders_def [of "normalizeHeaders hs"]
  by (subst foldl_headers_fixed [where m = "[]"])
    (auto simp: normalizeHeaders_canon normalizeHeaders_trimmed)

lemma normalizeAlias_Inr:
  "normalizeAlias s = Inr a \<longleftrightarrow> secretAliasRE (toLower (trimSpace s)) \<and> a = toLower (trimSpace s)"
  by (auto simp: normalizeAlias_def secretAliasRE_def Let_def)

lemma normalizedSecretsFrom_Inr:
  "normalizedSecretsFrom i out as = Inr r \<Longrightarrow>
   list_all (\<lambda>s. secretAliasRE (toLower (trimSpace s))) as \<and>
   set r = set out \<union> (\<lambda>s. toLower (trimSpace s)) ` set as \<and>
   (distinct out \<longrightarrow> distinct r)"
proof (induction as arbitrary: i out)
  case (Cons s xs)
  then obtain a where a: "normalizeAlias s = Inr a"
    and rest: "normalizedSecretsFrom (Suc i) (if a \<in> set out then out else out @ [a]) xs = Inr r"
    by (auto split: sum.splits)
  from Cons.IH [OF rest] a show ?case
    by (auto simp: normalizeAlias_Inr split: if_splits)
qed simp

lemma NormalizedSecrets_Inr:
  assumes "NormalizedSecrets p = Inr r"
  shows "distinct r" and "set r = (\<lambda>s. toLower (trimSpace s)) ` set (px_Secrets p)"
    and "\<And>a. a \<in> set r \<Longrightarrow> secretAliasRE a"
  using normalizedSecretsFrom_Inr [OF assms [unfolded NormalizedSecrets_def]]
  by (auto simp: list_all_iff)

lemma secretAliasRE_fixed:
  assumes "secretAliasRE a"
  shows "trimSpace a = a" "toLower a = a"
proof -
  have r: "\<not> isSpace r \<and> lower_rune r = r" if "r \<in> set a" for r
    using assms that by (auto simp: secretAliasRE_def list_all_iff isSpace_small lower_rune_def)
  show "toLower a = a" using r by (simp add: toLower_def map_idI)
  show "trimSpace a = a" using r assms
    by (metis hd_in_set last_in_set trimSpace_fixed)
qed

section \<open>Validation decides the promise\<close>

lemma checkPlace_None: "checkPlace b o' w = None \<longleftrightarrow> placeOK w"
  by (auto simp: checkPlace_def placeOK_def Let_def)

lemma forErr_checkPlace: "forErr i (\<lambda>j. checkPlace (b j) (o' j)) ws = None \<longleftrightarrow> list_all placeOK ws"
  by (simp add: forErr_None checkPlace_None list_all_length)

lemma checkDeclared_None: "checkDeclared declared b u s = None \<longleftrightarrow> aliasDeclared declared s"
  by (auto simp: checkDeclared_def aliasDeclared_def normalizeAlias_Inr split: sum.splits)
    (metis (no_types) normalizeAlias_Inr sum.distinct(1))+

lemma map_of_None_set: "map_of hs k = None \<longleftrightarrow> (\<forall>v. (k, v) \<notin> set hs)"
  by (metis map_of_SomeD weak_map_of_SomeI not_None_eq)

lemma no_Authorization_canon:
  "\<not> hasAuthorizationHeader (normalizeHeaders hs) \<longleftrightarrow>
   map_of (normalizeHeaders hs) (lit ''Authorization'') = None"
  using normalizeHeaders_canon [of _ _ hs]
  unfolding map_of_None_set hasAuthorizationHeader_def list_ex_iff canonHeader_def by force

lemma no_empty_header_canon:
  "\<not> list_ex (\<lambda>(k, v). trimSpace k = []) (normalizeHeaders hs) \<longleftrightarrow> map_of (normalizeHeaders hs) [] = None"
  using normalizeHeaders_canon [of _ _ hs]
  unfolding map_of_None_set list_ex_iff canonHeader_def by force

lemma checkBasicAuth_None:
  "checkBasicAuth declared i (normalizeRule r) = None \<longleftrightarrow>
   pred_option (basicAuthOK declared (normalizeRule r)) (pr_SetBasicAuth (normalizeRule r))"
  using no_Authorization_canon [of "pr_SetHeader r"]
  by (auto simp: checkBasicAuth_def basicAuthOK_def normalizeRule_def normalizeBasicAuth_def
      checkDeclared_None split: option.splits)

lemma checkReplacement_None:
  "checkReplacement declared i j (normalizeReplacement repl) = None \<longleftrightarrow>
   replacementOK declared (normalizeReplacement repl)"
  by (auto simp: checkReplacement_def replacementOK_def checkDeclared_None forErr_checkPlace
      normalizeReplacement_def)

lemma checkPathPrefix_None:
  "forErr 0 (checkPathPrefix i) (normalizeList vs False) = None \<longleftrightarrow>
   list_all (\<lambda>p. hasPrefix p (lit ''/'')) (normalizeList vs False)"
proof -
  have "checkPathPrefix i j v = None \<longleftrightarrow> hasPrefix v (lit ''/'')"
    if "v \<in> set (normalizeList vs False)" for j v
    using normalizeList_trimmed [OF that] by (simp add: checkPathPrefix_def)
  then show ?thesis by (simp add: forErr_None list_all_length)
qed

lemma checkRule_None:
  "checkRule declared i (normalizeRule r) = None \<longleftrightarrow> ruleOK declared (normalizeRule r)"
proof -
  have hosts: "forErr 0 (\<lambda>j host. errIf (trimSpace host = []) (RuleEmptyHost i j))
      (normalizeList (pr_MatchHosts r) True) = None"
    using normalizeList_lower_trimmed by (auto simp: forErr_None errIf_def dest: nth_mem)
  have repls: "forErr 0 (checkReplacement declared i) (map normalizeReplacement rs) = None \<longleftrightarrow>
      list_all (replacementOK declared) (map normalizeReplacement rs)" for rs
    by (simp add: forErr_None checkReplacement_None list_all_length)
  have sel: "pr_MatchHosts (normalizeRule r) = normalizeList (pr_MatchHosts r) True"
    "pr_MatchPathPrefixes (normalizeRule r) = normalizeList (pr_MatchPathPrefixes r) False"
    "pr_SetHeader (normalizeRule r) = normalizeHeaders (pr_SetHeader r)"
    "pr_ReplacePlaceholder (normalizeRule r) = map normalizeReplacement (pr_ReplacePlaceholder r)"
    by (simp_all add: normalizeRule_def)
  show ?thesis
    unfolding checkRule_def ruleOK_def firstError_None
    by (simp only: list.set ball_simps errIf_None sel hosts checkPathPrefix_None
        no_empty_header_canon checkBasicAuth_None repls simp_thms)
qed

lemma count_ruleNames:
  assumes "n \<noteq> []"
  shows "count_list (ruleNames (NormalizedRules p)) n =
    length (filter (\<lambda>r. pr_Name r = n) (NormalizedRules p))"
proof -
  have "count_list (filter (\<lambda>n. n \<noteq> []) (map (\<lambda>r. trimSpace (pr_Name r)) (map normalizeRule rs))) n =
      length (filter (\<lambda>r. pr_Name r = n) (map normalizeRule rs))" for rs
    using assms by (induction rs) (auto simp: normalizeRule_def)
  then show ?thesis by (simp add: ruleNames_def NormalizedRules_def)
qed

lemma checkRuleRef_None: "checkRuleRef names i j n = None \<longleftrightarrow> count_list names n = 1"
  by (auto simp: checkRuleRef_def Let_def)

lemma normalizeEnvName_Inr: "normalizeEnvName s = Inr n \<longleftrightarrow> envNameRE (trimSpace s) \<and> n = trimSpace s"
  by (auto simp: normalizeEnvName_def envNameRE_def Let_def)

lemma checkEnvs_None:
  "checkEnvs declared (ruleNames (NormalizedRules p)) i seen (map normalizeEnv envs) = None \<longleftrightarrow>
   distinct (map pe_Name (map normalizeEnv envs)) \<and>
   set (map pe_Name (map normalizeEnv envs)) \<inter> set seen = {} \<and>
   list_all (envOK declared (NormalizedRules p)) (map normalizeEnv envs)"
proof (induction envs arbitrary: i seen)
  case (Cons env envs)
  let ?e = "normalizeEnv env"
  have rules: "forErr 0 (checkRuleRef (ruleNames (NormalizedRules p)) i) (pe_Rules ?e) = None \<longleftrightarrow>
      list_all (\<lambda>n. length (filter (\<lambda>r. pr_Name r = n) (NormalizedRules p)) = 1) (pe_Rules ?e)"
  proof -
    have "count_list (ruleNames (NormalizedRules p)) n =
        length (filter (\<lambda>r. pr_Name r = n) (NormalizedRules p))" if "n \<in> set (pe_Rules ?e)" for n
      using that normalizeList_trimmed by (intro count_ruleNames) (auto simp: normalizeEnv_def Let_def)
    then show ?thesis by (simp add: forErr_None checkRuleRef_None list_all_length)
  qed
  have name: "normalizeEnvName (pe_Name ?e) = Inr n \<longleftrightarrow> envNameRE (pe_Name ?e) \<and> n = pe_Name ?e" for n
    by (simp add: normalizeEnvName_Inr normalizeEnv_def Let_def)
  show ?case
  proof (cases "normalizeEnvName (pe_Name ?e)")
    case (Inl e)
    with name have "\<not> envNameRE (pe_Name ?e)" by (metis Inr_not_Inl)
    with Inl show ?thesis by (simp add: envOK_def)
  next
    case (Inr n)
    with name have n: "envNameRE (pe_Name ?e)" "n = pe_Name ?e" by auto
    have "checkEnvs declared (ruleNames (NormalizedRules p)) i seen (?e # map normalizeEnv envs) = None \<longleftrightarrow>
      n \<notin> set seen \<and> envOK declared (NormalizedRules p) ?e \<and>
      checkEnvs declared (ruleNames (NormalizedRules p)) (Suc i) (n # seen) (map normalizeEnv envs) = None"
      using n(1) unfolding checkEnvs.simps Inr envOK_def rules [symmetric]
      by (auto simp: case_error_None checkDeclared_None forErr_checkPlace)
    then show ?thesis using n(2) unfolding list.map Cons.IH by auto
  qed
qed simp

lemma Validate_decides: "Validate c = None \<longleftrightarrow> policyOK c"
proof (cases "NormalizedSecrets (cf_Proxy c)")
  case (Inl e)
  then show ?thesis by (cases e) (simp add: Validate_def validateProxy_def policyOK_def)
next
  case (Inr declared)
  have v: "checkSchemaVersion v SchemaVersion = None \<longleftrightarrow> v \<in> {0, SchemaVersion}" for v
    by (auto simp: checkSchemaVersion_def)
  have r: "forErr 0 (checkRule declared) (NormalizedRules p) = None \<longleftrightarrow>
      list_all (ruleOK declared) (NormalizedRules p)" for p
    by (simp add: forErr_None NormalizedRules_def checkRule_None list_all_length)
  have e: "checkEnvs declared (ruleNames (NormalizedRules p)) 0 [] (NormalizedEnv p) = None \<longleftrightarrow>
      distinct (map pe_Name (NormalizedEnv p)) \<and>
      list_all (envOK declared (NormalizedRules p)) (NormalizedEnv p)" for p
    unfolding NormalizedEnv_def by (simp add: checkEnvs_None)
  show ?thesis
    by (auto simp: Validate_def validateProxy_def policyOK_def Inr v r e)
qed

text \<open>
  C12: a policy is accepted exactly when its schema version is one this build reads and its
  canonical form keeps every promise of \<open>policyOK\<close>: at least one secret, every rule matches
  some host, every path prefix is absolute, no empty header name, no rule sets the
  Authorization header twice, every secret named by basic authentication, a placeholder or an
  environment mapping is declared, environment names are valid and unique, and every rule name
  they refer to denotes exactly one rule.
\<close>

theorem Validate_iff_policyOK: "Validate c = None \<longleftrightarrow> policyOK c"
  by (rule Validate_decides)

text \<open>
  C24: the canonical form is canonical: normalizing a rule or an environment mapping a second
  time changes nothing, so the CLI that renders a policy and the proxy that reads it back work
  from the same value.
\<close>

theorem normalize_idempotent:
  "NormalizedRules (p\<lparr>px_Rules := NormalizedRules p\<rparr>) = NormalizedRules p \<and>
   NormalizedEnv (p\<lparr>px_Env := NormalizedEnv p\<rparr>) = NormalizedEnv p"
proof -
  have low: "normalizeList (normalizeList vs True) True = normalizeList vs True" for vs
    by (rule normalizeList_idem) (auto dest: normalizeList_lower_trimmed)
  have plain: "normalizeList (normalizeList vs False) False = normalizeList vs False" for vs
    by (rule normalizeList_idem) (auto dest: normalizeList_trimmed)
  have header: "normalizeList [lit ''header''] True = [lit ''header'']"
    by (simp add: normalizeList_def addFresh_def trimSpace_def toLower_def isSpace_def
        space_ranges_def lower_rune_def Let_def lit_def)
  have repl: "normalizeReplacement (normalizeReplacement r) = normalizeReplacement r" for r
    by (simp add: normalizeReplacement_def low trimSpace_toLower)
  have basic: "normalizeBasicAuth (normalizeBasicAuth b) = normalizeBasicAuth b" for b
    by (simp add: normalizeBasicAuth_def trimSpace_toLower)
  have rule: "normalizeRule (normalizeRule r) = normalizeRule r" for r
    by (simp add: normalizeRule_def low plain normalizeHeaders_idem repl option.map_comp comp_def
        basic)
  have env: "normalizeEnv (normalizeEnv e) = normalizeEnv e" for e
    by (simp add: normalizeEnv_def Let_def low plain header trimSpace_toLower)
  show ?thesis by (simp add: NormalizedRules_def NormalizedEnv_def rule env)
qed

lemma normalizeHeaders_last: "map_of (normalizeHeaders (hs @ [(k, v)])) (headerKey k) = Some (trimSpace v)"
  by (simp add: map_of_normalizeHeaders)

lemma normalizeHeaders_lookup:
  assumes "map_of (normalizeHeaders hs) c = Some w"
  shows "\<exists>k v. (k, v) \<in> set hs \<and> headerKey k = c \<and> w = trimSpace v"
proof -
  from assms have ne: "sameHeader c hs \<noteq> []" and w: "w = trimSpace (snd (last (sameHeader c hs)))"
    by (auto simp: map_of_normalizeHeaders split: if_splits)
  from last_in_set [OF ne] have "last (sameHeader c hs) \<in> set hs"
    "headerKey (fst (last (sameHeader c hs))) = c" by auto
  with w show ?thesis by (metis prod.collapse)
qed

lemma normalizeHeaders_dom:
  "map_of (normalizeHeaders hs) c = None \<longleftrightarrow> (\<forall>h \<in> set hs. headerKey (fst h) \<noteq> c)"
  by (auto simp: map_of_normalizeHeaders filter_empty_conv)

lemma perm_last:
  assumes "x \<in> set xs"
  obtains ys where "mset (ys @ [x]) = mset xs"
proof -
  from assms obtain us vs where "xs = us @ x # vs" by (meson split_list)
  then have "mset ((us @ vs) @ [x]) = mset xs" by simp
  then show thesis by (rule that)
qed

text \<open>
  Two keys of a rule's \<open>set_header\<close> map that are one header on the wire make the
  canonical form depend on Go's unspecified map iteration order: the order is immaterial
  exactly when all entries of one wire header carry the same trimmed value.
\<close>

theorem normalizeHeaders_order:
  "(\<forall>hs'. mset hs' = mset hs \<longrightarrow> map_of (normalizeHeaders hs') = map_of (normalizeHeaders hs)) \<longleftrightarrow>
   (\<forall>(k, v) \<in> set hs. \<forall>(k', v') \<in> set hs. headerKey k = headerKey k' \<longrightarrow> trimSpace v = trimSpace v')"
  (is "?order \<longleftrightarrow> ?agree")
proof
  assume order: ?order
  have "trimSpace v = trimSpace v'"
    if kv: "(k, v) \<in> set hs" "(k', v') \<in> set hs" and eq: "headerKey k = headerKey k'" for k v k' v'
  proof -
    obtain ys where ys: "mset (ys @ [(k, v)]) = mset hs" using perm_last [OF kv(1)] .
    obtain zs where zs: "mset (zs @ [(k', v')]) = mset hs" using perm_last [OF kv(2)] .
    have "map_of (normalizeHeaders (ys @ [(k, v)])) = map_of (normalizeHeaders (zs @ [(k', v')]))"
      using order ys zs by metis
    then have "Some (trimSpace v) = Some (trimSpace v')"
      using normalizeHeaders_last [of ys k v] normalizeHeaders_last [of zs k' v'] eq by metis
    then show ?thesis by simp
  qed
  then show ?agree by fast
next
  assume agree: ?agree
  show ?order
  proof (intro allI impI ext)
    fix hs' c
    assume "mset hs' = mset hs"
    then have s: "set hs' = set hs" by (metis set_mset_mset)
    show "map_of (normalizeHeaders hs') c = map_of (normalizeHeaders hs) c"
    proof (cases "map_of (normalizeHeaders hs) c")
      case None
      with s have "map_of (normalizeHeaders hs') c = None" by (simp only: normalizeHeaders_dom)
      with None show ?thesis by simp
    next
      case (Some w)
      then obtain w' where w': "map_of (normalizeHeaders hs') c = Some w'"
        using s by (metis normalizeHeaders_dom not_None_eq)
      from normalizeHeaders_lookup [OF Some] normalizeHeaders_lookup [OF w'] agree s
      have "w' = w" by fastforce
      with Some w' show ?thesis by simp
    qed
  qed
qed

text \<open>The two spellings of one header, with different values: some order gives another
  canonical form.\<close>

theorem normalizeHeaders_order_witness:
  "\<exists>hs'. mset hs' = mset [(lit ''x-a'', lit ''1''), (lit ''X-A'', lit ''2'')] \<and>
     map_of (normalizeHeaders hs') \<noteq>
     map_of (normalizeHeaders [(lit ''x-a'', lit ''1''), (lit ''X-A'', lit ''2'')])"
proof -
  have eq: "headerKey (lit ''x-a'') = headerKey (lit ''X-A'')" by code_simp
  have ne: "trimSpace (lit ''1'') \<noteq> trimSpace (lit ''2'')" by code_simp
  show ?thesis
    using normalizeHeaders_order [of "[(lit ''x-a'', lit ''1''), (lit ''X-A'', lit ''2'')]"] eq ne
    by auto
qed

end
