(* ===== verification/Proxy_Rules.thy ===== *)
theory Proxy_Rules
  imports Policy
begin

text \<open>
  The data plane of the egress proxy, \<open>systems/proxy/internal/proxy\<close>: compiling rules
  (\<open>rules.go\<close>), rendering \<open>{{secret.x}}\<close> templates (\<open>template.go\<close>), matching and mutating
  requests, and the three handlers of \<open>server.go\<close>.  The HTTP library of Go is modelled as far as
  the source uses it: a header map is an association list from names to value lists, a
  dereference of a nil \<open>URL\<close> is the result \<open>None\<close> (a panic).  Percent-decoding and encoding of
  query strings and paths works on bytes and is the parameter \<open>url_lib\<close>; nothing is assumed
  of it.
\<close>

section \<open>What the rules use of Go's standard library\<close>

record URL =
  u_Scheme :: gostr
  u_Opaque :: gostr
  u_Host :: gostr
  u_Path :: gostr
  u_RawPath :: gostr
  u_ForceQuery :: bool
  u_RawQuery :: gostr

type_synonym Header = "gostr list gomap"

record Request =
  rq_Method :: gostr
  rq_Host :: gostr
  rq_URL :: "URL option"
  rq_Header :: Header
  rq_RequestURI :: gostr

record url_lib =
  ul_ParseQuery :: "gostr \<Rightarrow> gostr list gomap"
  ul_Encode :: "gostr list gomap \<Rightarrow> gostr"
  ul_EscapedPath :: "gostr \<Rightarrow> gostr \<Rightarrow> gostr"

definition RequestURI :: "url_lib \<Rightarrow> URL \<Rightarrow> gostr" where
  "RequestURI lib u =
     (let result =
        (if u_Opaque u = []
         then (let p = ul_EscapedPath lib (u_Path u) (u_RawPath u) in if p = [] then lit ''/'' else p)
         else if hasPrefix (u_Opaque u) (lit ''//'') then u_Scheme u @ lit '':'' @ u_Opaque u
         else u_Opaque u)
      in if u_ForceQuery u \<or> u_RawQuery u \<noteq> [] then result @ lit ''?'' @ u_RawQuery u else result)"

definition headerSet :: "gostr \<Rightarrow> gostr \<Rightarrow> Header \<Rightarrow> Header" where
  "headerSet key value h = AList.update (CanonicalMIMEHeaderKey key) [value] h"

definition headerDel :: "gostr \<Rightarrow> Header \<Rightarrow> Header" where
  "headerDel key h = AList.delete (CanonicalMIMEHeaderKey key) h"

text \<open>\<open>net.SplitHostPort\<close>: the host and port of \<open>host:port\<close> or \<open>[host]:port\<close>, or an error.\<close>

definition lastColon :: "gostr \<Rightarrow> (gostr \<times> gostr) option" where
  "lastColon s =
     (let port = rev (takeWhile (\<lambda>r. r \<noteq> 58) (rev s)) in
      if length port = length s then None
      else Some (take (length s - length port - 1) s, port))"

definition SplitHostPort :: "gostr \<Rightarrow> (gostr \<times> gostr) option" where
  "SplitHostPort s =
     (case lastColon s of
        None \<Rightarrow> None
      | Some (before, port) \<Rightarrow>
          if take 1 s = [91]
          then (let host = takeWhile (\<lambda>r. r \<noteq> 93) (drop 1 s); end = length host + 1 in
                if 93 \<notin> set s then None
                else if end + 1 = length s then None
                else if end + 1 \<noteq> length before then None
                else if 91 \<in> set (drop 1 s) then None
                else if 93 \<in> set (drop (end + 1) s) then None
                else Some (host, port))
          else if 58 \<in> set before then None
          else if 91 \<in> set s then None
          else if 93 \<in> set s then None
          else Some (before, port))"

text \<open>\<open>[]byte(s)\<close> of a string and \<open>base64.StdEncoding.EncodeToString\<close>.\<close>

definition utf8_rune :: "rune \<Rightarrow> int list" where
  "utf8_rune r =
     (if r < 128 then [r]
      else if r < 2048 then [192 + r div 64, 128 + r mod 64]
      else if r < 65536 then [224 + r div 4096, 128 + r div 64 mod 64, 128 + r mod 64]
      else [240 + r div 262144, 128 + r div 4096 mod 64, 128 + r div 64 mod 64, 128 + r mod 64])"

definition utf8 :: "gostr \<Rightarrow> int list" where
  "utf8 s = concat (map utf8_rune s)"

definition b64_char :: "int \<Rightarrow> rune" where
  "b64_char n =
     (if n < 26 then 65 + n else if n < 52 then 71 + n else if n < 62 then n - 4
      else if n = 62 then 43 else 47)"

fun base64 :: "int list \<Rightarrow> gostr" where
  "base64 (a # b # c # bs) =
     b64_char (a div 4) # b64_char (a mod 4 * 16 + b div 16) #
     b64_char (b mod 16 * 4 + c div 64) # b64_char (c mod 64) # base64 bs"
| "base64 [a, b] =
     [b64_char (a div 4), b64_char (a mod 4 * 16 + b div 16), b64_char (b mod 16 * 4), 61]"
| "base64 [a] = [b64_char (a div 4), b64_char (a mod 4 * 16), 61, 61]"
| "base64 [] = []"

section \<open>Secret templates\<close>

type_synonym secrets = "gostr gomap"

text \<open>Indexing a Go map: the zero value of an absent key.\<close>

definition secretOf :: "secrets \<Rightarrow> gostr \<Rightarrow> gostr" where
  "secretOf sv a = trimSpace (case map_of sv a of None \<Rightarrow> [] | Some v \<Rightarrow> v)"

definition reSpace :: "rune \<Rightarrow> bool" where
  "reSpace r \<longleftrightarrow> r \<in> {9, 10, 12, 13, 32}"

definition aliasRune :: "rune \<Rightarrow> bool" where
  "aliasRune r \<longleftrightarrow> (97 \<le> r \<and> r \<le> 122) \<or> (48 \<le> r \<and> r \<le> 57) \<or> r = 95 \<or> r = 45"

text \<open>A match of \<open>secretTemplateRE\<close> at the start of the text: the captured alias and what
  follows the match.  The classes on both sides of each repetition are disjoint, so the greedy
  repetitions need no backtracking.\<close>

definition secretTemplateRE :: "gostr \<Rightarrow> (gostr \<times> gostr) option" where
  "secretTemplateRE s =
     (if \<not> hasPrefix s (lit ''{{'') then None
      else let s1 = dropWhile reSpace (drop 2 s) in
        if \<not> hasPrefix s1 (lit ''secret.'') then None
        else let s2 = drop 7 s1;
                 sub = takeWhile aliasRune s2;
                 s3 = dropWhile reSpace (dropWhile aliasRune s2) in
          if sub = [] then None
          else if \<not> hasPrefix s3 (lit ''}}'') then None
          else Some (sub, drop 2 s3))"

lemma secretTemplateRE_shorter:
  "secretTemplateRE s = Some (a, rest) \<Longrightarrow> length rest < length s"
proof -
  assume m: "secretTemplateRE s = Some (a, rest)"
  let ?s1 = "dropWhile reSpace (drop 2 s)"
  let ?s3 = "dropWhile reSpace (dropWhile aliasRune (drop 7 ?s1))"
  from m have p: "hasPrefix s (lit ''{{'')" "rest = drop 2 ?s3"
    by (auto simp: secretTemplateRE_def Let_def split: if_splits)
  then have "2 \<le> length s" by (auto simp: lit_eval elim!: hasPrefixE)
  moreover have "length ?s3 \<le> length s - 2"
    by (rule order_trans [OF length_dropWhile_le], rule order_trans [OF length_dropWhile_le])
      (use length_dropWhile_le [of reSpace "drop 2 s"] in simp)
  ultimately show ?thesis using p(2) by simp
qed

datatype template_error = MissingSecretValue gostr

text \<open>\<open>ReplaceAllStringFunc\<close> with the callback of the source; after the first error every match
  is returned unchanged, and the error is what the caller sees.\<close>

function renderMatches :: "secrets \<Rightarrow> gostr \<Rightarrow> template_error + gostr" where
  "renderMatches sv [] = Inr []"
| "renderMatches sv (r # s) =
     (case secretTemplateRE (r # s) of
        None \<Rightarrow> (case renderMatches sv s of Inl e \<Rightarrow> Inl e | Inr out \<Rightarrow> Inr (r # out))
      | Some (sub, rest) \<Rightarrow>
          (let a = toLower (trimSpace sub); value = secretOf sv a in
           if value = [] then Inl (MissingSecretValue a)
           else (case renderMatches sv rest of Inl e \<Rightarrow> Inl e | Inr out \<Rightarrow> Inr (value @ out))))"
  by pat_completeness auto
termination
  by (relation "measure (\<lambda>(sv, s). length s)") (auto dest: secretTemplateRE_shorter)

definition renderSecretTemplate :: "gostr \<Rightarrow> secrets \<Rightarrow> template_error + gostr" where
  "renderSecretTemplate raw sv =
     (if \<not> containsStr raw (lit ''{{'') then Inr raw else renderMatches sv raw)"

section \<open>Rules\<close>

record BasicAuth =
  bauth_Username :: gostr
  bauth_Secret :: gostr

record PlaceholderReplacement =
  repl_Placeholder :: gostr
  repl_Secret :: gostr
  repl_In :: "gostr list"

record Rule =
  rule_Name :: gostr
  rule_MatchHosts :: "gostr list"
  rule_MatchPathPrefixes :: "gostr list"
  rule_SetHeader :: "gostr gomap"
  rule_SetBasicAuth :: "BasicAuth option"
  rule_ReplacePlaceholder :: "PlaceholderReplacement list"

record compiledPlaceholderReplacement =
  cp_placeholder :: gostr
  cp_secretValue :: gostr
  cp_inHeader :: bool
  cp_inQuery :: bool
  cp_inPath :: bool

record compiledRule =
  cr_name :: gostr
  cr_matchHosts :: "gostr list"
  cr_matchPathPrefixes :: "gostr list"
  cr_setHeader :: "gostr gomap"
  cr_setBasicAuthHeader :: gostr
  cr_replacePlaceholder :: "compiledPlaceholderReplacement list"

datatype compile_error =
    NoUsableMatchHosts nat | EmptyHeaderName nat | HeaderTemplate nat gostr template_error
  | BasicAuthAndHeader nat | BasicAuthUsername nat | BasicAuthNoValue nat gostr
  | ReplacementNoValue nat nat gostr

definition normalizePathPrefixes :: "gostr list \<Rightarrow> gostr list" where
  "normalizePathPrefixes vs = filter (\<lambda>v. v \<noteq> []) (map trimSpace vs)"

definition normalizeHostForMatch :: "gostr \<Rightarrow> gostr" where
  "normalizeHostForMatch raw =
     (let host = trimSpace raw in
      if host = [] then []
      else
        let host = (case SplitHostPort host of Some (h, p) \<Rightarrow> h | None \<Rightarrow> host);
            host = trimRunes host {91, 93};
            host = trimSuffix host (lit ''.'')
        in toLower (trimSpace host))"

definition requestHost :: "Request \<Rightarrow> gostr" where
  "requestHost req =
     (case rq_URL req of
        Some u \<Rightarrow> if trimSpace (u_Host u) \<noteq> [] then u_Host u else rq_Host req
      | None \<Rightarrow> rq_Host req)"

definition compileHosts :: "gostr list \<Rightarrow> gostr list" where
  "compileHosts hosts = foldl (\<lambda>m raw. addFresh m (normalizeHostForMatch raw)) [] hosts"

fun compileHeaders ::
  "nat \<Rightarrow> secrets \<Rightarrow> gostr gomap \<Rightarrow> bool \<Rightarrow> gostr gomap \<Rightarrow> compile_error + gostr gomap \<times> bool"
where
  "compileHeaders i sv m hasAuth [] = Inr (m, hasAuth)"
| "compileHeaders i sv m hasAuth ((k, v) # hs) =
     (let headerName = CanonicalMIMEHeaderKey (trimSpace k) in
      if headerName = [] then Inl (EmptyHeaderName i)
      else case renderSecretTemplate v sv of
          Inl e \<Rightarrow> Inl (HeaderTemplate i k e)
        | Inr _ \<Rightarrow>
            compileHeaders i sv (AList.update headerName v m)
              (hasAuth \<or> headerName = lit ''Authorization'') hs)"

definition compileBasicAuth :: "nat \<Rightarrow> secrets \<Rightarrow> BasicAuth option \<Rightarrow> compile_error + gostr" where
  "compileBasicAuth i sv auth =
     (case auth of
        None \<Rightarrow> Inr []
      | Some b \<Rightarrow>
          (let username = trimSpace (bauth_Username b);
               secretAlias = toLower (trimSpace (bauth_Secret b));
               secretValue = secretOf sv secretAlias in
           if username = [] then Inl (BasicAuthUsername i)
           else if secretValue = [] then Inl (BasicAuthNoValue i secretAlias)
           else Inr (lit ''Basic '' @ base64 (utf8 (username @ lit '':'' @ secretValue)))))"

fun compileReplacements ::
  "nat \<Rightarrow> secrets \<Rightarrow> nat \<Rightarrow> PlaceholderReplacement list \<Rightarrow>
   compile_error + compiledPlaceholderReplacement list"
where
  "compileReplacements i sv j [] = Inr []"
| "compileReplacements i sv j (repl # repls) =
     (let secretAlias = toLower (trimSpace (repl_Secret repl));
          secretValue = secretOf sv secretAlias;
          places = map (\<lambda>w. toLower (trimSpace w)) (repl_In repl) in
      if secretValue = [] then Inl (ReplacementNoValue i j secretAlias)
      else case compileReplacements i sv (Suc j) repls of
          Inl e \<Rightarrow> Inl e
        | Inr out \<Rightarrow>
            Inr (\<lparr>cp_placeholder = trimSpace (repl_Placeholder repl),
                  cp_secretValue = secretValue,
                  cp_inHeader = lit ''header'' \<in> set places,
                  cp_inQuery = lit ''query'' \<in> set places,
                  cp_inPath = lit ''path'' \<in> set places\<rparr> # out))"

definition compileRule :: "secrets \<Rightarrow> nat \<Rightarrow> Rule \<Rightarrow> compile_error + compiledRule" where
  "compileRule sv i rule =
     (let hosts = compileHosts (rule_MatchHosts rule) in
      if hosts = [] then Inl (NoUsableMatchHosts i)
      else case compileHeaders i sv [] False (rule_SetHeader rule) of
          Inl e \<Rightarrow> Inl e
        | Inr (headers, hasAuth) \<Rightarrow>
            if hasAuth \<and> rule_SetBasicAuth rule \<noteq> None then Inl (BasicAuthAndHeader i)
            else case compileBasicAuth i sv (rule_SetBasicAuth rule) of
                Inl e \<Rightarrow> Inl e
              | Inr auth \<Rightarrow>
                  (case compileReplacements i sv 0 (rule_ReplacePlaceholder rule) of
                     Inl e \<Rightarrow> Inl e
                   | Inr repls \<Rightarrow>
                       Inr \<lparr>cr_name = trimSpace (rule_Name rule),
                            cr_matchHosts = hosts,
                            cr_matchPathPrefixes = normalizePathPrefixes (rule_MatchPathPrefixes rule),
                            cr_setHeader = headers,
                            cr_setBasicAuthHeader = auth,
                            cr_replacePlaceholder = repls\<rparr>))"

fun compileRulesFrom :: "secrets \<Rightarrow> nat \<Rightarrow> Rule list \<Rightarrow> compile_error + compiledRule list" where
  "compileRulesFrom sv i [] = Inr []"
| "compileRulesFrom sv i (rule # rules) =
     (case compileRule sv i rule of
        Inl e \<Rightarrow> Inl e
      | Inr c \<Rightarrow>
          (case compileRulesFrom sv (Suc i) rules of Inl e \<Rightarrow> Inl e | Inr cs \<Rightarrow> Inr (c # cs)))"

definition compileRules :: "Rule list \<Rightarrow> secrets \<Rightarrow> compile_error + compiledRule list" where
  "compileRules rules sv = compileRulesFrom sv 0 rules"

section \<open>Matching and mutating a request\<close>

definition matchesConnectHost :: "compiledRule \<Rightarrow> gostr \<Rightarrow> bool" where
  "matchesConnectHost r host =
     (let host = normalizeHostForMatch host in
      if host = [] then False else host \<in> set (cr_matchHosts r))"

text \<open>\<open>None\<close> is the nil dereference of \<open>req.URL.Path\<close>.\<close>

definition matchesRequest :: "compiledRule \<Rightarrow> Request \<Rightarrow> bool option" where
  "matchesRequest r req =
     (let host = normalizeHostForMatch (requestHost req) in
      if host = [] then Some False
      else if host \<notin> set (cr_matchHosts r) then Some False
      else if cr_matchPathPrefixes r = [] then Some True
      else case rq_URL req of
          None \<Rightarrow> None
        | Some u \<Rightarrow>
            (let path = (if u_Path u = [] then lit ''/'' else u_Path u) in
             Some (list_ex (hasPrefix path) (cr_matchPathPrefixes r))))"

definition replaceIn :: "compiledPlaceholderReplacement \<Rightarrow> gostr \<Rightarrow> gostr" where
  "replaceIn repl s = replaceAll s (cp_placeholder repl) (cp_secretValue repl)"

definition replaceValues :: "compiledPlaceholderReplacement \<Rightarrow> gostr list gomap \<Rightarrow> gostr list gomap" where
  "replaceValues repl h = map (\<lambda>(k, vs). (k, map (replaceIn repl) vs)) h"

definition replaceQuery :: "url_lib \<Rightarrow> compiledPlaceholderReplacement \<Rightarrow> URL \<Rightarrow> Request \<Rightarrow> Request" where
  "replaceQuery lib repl u req =
     (let query = ul_ParseQuery lib (u_RawQuery u); query' = replaceValues repl query in
      if query' = query then req
      else
        let u' = u\<lparr>u_RawQuery := ul_Encode lib query'\<rparr>
        in req\<lparr>rq_URL := Some u', rq_RequestURI := RequestURI lib u'\<rparr>)"

definition replacePath :: "url_lib \<Rightarrow> compiledPlaceholderReplacement \<Rightarrow> URL \<Rightarrow> Request \<Rightarrow> Request" where
  "replacePath lib repl u req =
     (let path' = replaceIn repl (u_Path u);
          raw' = (if u_RawPath u \<noteq> [] then replaceIn repl (u_RawPath u) else u_RawPath u);
          u' = u\<lparr>u_Path := path', u_RawPath := raw'\<rparr> in
      if path' \<noteq> u_Path u \<or> raw' \<noteq> u_RawPath u
      then req\<lparr>rq_URL := Some u', rq_RequestURI := RequestURI lib u'\<rparr>
      else req)"

definition applyCompiledPlaceholderReplacement ::
  "url_lib \<Rightarrow> Request \<Rightarrow> compiledPlaceholderReplacement \<Rightarrow> Request"
where
  "applyCompiledPlaceholderReplacement lib req repl =
     (if cp_placeholder repl = [] then req
      else
        let req = (if cp_inHeader repl then req\<lparr>rq_Header := replaceValues repl (rq_Header req)\<rparr> else req);
            req = (case rq_URL req of
                     None \<Rightarrow> req
                   | Some u \<Rightarrow> if cp_inQuery repl then replaceQuery lib repl u req else req)
        in case rq_URL req of
             None \<Rightarrow> req
           | Some u \<Rightarrow> if cp_inPath repl then replacePath lib repl u req else req)"

fun applyHeaders :: "secrets \<Rightarrow> gostr gomap \<Rightarrow> Request \<Rightarrow> template_error option \<times> Request" where
  "applyHeaders sv [] req = (None, req)"
| "applyHeaders sv ((name, tmpl) # hs) req =
     (case renderSecretTemplate tmpl sv of
        Inl e \<Rightarrow> (Some e, req)
      | Inr value \<Rightarrow> applyHeaders sv hs (req\<lparr>rq_Header := headerSet name value (rq_Header req)\<rparr>))"

definition applyRule ::
  "url_lib \<Rightarrow> secrets \<Rightarrow> compiledRule \<Rightarrow> Request \<Rightarrow> template_error option \<times> Request"
where
  "applyRule lib sv r req =
     (case applyHeaders sv (cr_setHeader r) req of
        (Some e, req) \<Rightarrow> (Some e, req)
      | (None, req) \<Rightarrow>
          (let req = foldl (applyCompiledPlaceholderReplacement lib) req (cr_replacePlaceholder r) in
           (None,
            if cr_setBasicAuthHeader r \<noteq> []
            then req\<lparr>rq_Header := headerSet (lit ''Authorization'') (cr_setBasicAuthHeader r) (rq_Header req)\<rparr>
            else req)))"

section \<open>Handlers\<close>

datatype ConnectAction = OkConnect | ConnectMitm

definition shouldMITMHost :: "compiledRule list \<Rightarrow> gostr \<Rightarrow> bool" where
  "shouldMITMHost rules host = list_ex (\<lambda>r. matchesConnectHost r host) rules"

definition handleConnect :: "compiledRule list \<Rightarrow> gostr \<Rightarrow> ConnectAction \<times> gostr" where
  "handleConnect rules host =
     (if shouldMITMHost rules host then (ConnectMitm, host) else (OkConnect, host))"

definition displayRuleName :: "compiledRule \<Rightarrow> gostr" where
  "displayRuleName r = (if trimSpace (cr_name r) \<noteq> [] then cr_name r else lit ''<unnamed>'')"

record Response =
  rs_StatusCode :: int
  rs_Header :: Header
  rs_Body :: gostr

text \<open>The response a handler makes itself: status 502, naming the rule.\<close>

datatype proxy_response = HeaderRenderFailed gostr

fun handleRules ::
  "url_lib \<Rightarrow> secrets \<Rightarrow> compiledRule list \<Rightarrow> Request \<Rightarrow> (Request \<times> proxy_response option) option"
where
  "handleRules lib sv [] req = Some (req, None)"
| "handleRules lib sv (r # rs) req =
     (case matchesRequest r req of
        None \<Rightarrow> None
      | Some False \<Rightarrow> handleRules lib sv rs req
      | Some True \<Rightarrow>
          (case applyRule lib sv r req of
             (Some e, req) \<Rightarrow> Some (req, Some (HeaderRenderFailed (displayRuleName r)))
           | (None, req) \<Rightarrow> handleRules lib sv rs req))"

text \<open>The outer \<open>None\<close> is a panic, the second component the response that replaces the
  upstream's.\<close>

definition handleRequest ::
  "url_lib \<Rightarrow> secrets \<Rightarrow> compiledRule list \<Rightarrow> Request option \<Rightarrow>
   (Request option \<times> proxy_response option) option"
where
  "handleRequest lib sv rules req =
     (case req of
        None \<Rightarrow> Some (None, None)
      | Some r \<Rightarrow>
          if rq_Method r = lit ''CONNECT'' then Some (Some r, None)
          else map_option (\<lambda>(r', resp). (Some r', resp)) (handleRules lib sv rules r))"

definition handleResponse :: "Response option \<Rightarrow> Response option" where
  "handleResponse resp =
     map_option
       (\<lambda>r. r\<lparr>rs_Header :=
               foldl (\<lambda>h key. headerDel key h) (rs_Header r)
                 [lit ''Authorization'', lit ''Proxy-Authorization'', lit ''X-Api-Key'']\<rparr>) resp"

section \<open>Templates\<close>

text \<open>The aliases a template names, in order.\<close>

function templateAliases :: "gostr \<Rightarrow> gostr list" where
  "templateAliases [] = []"
| "templateAliases (r # s) =
     (case secretTemplateRE (r # s) of
        None \<Rightarrow> templateAliases s
      | Some (sub, rest) \<Rightarrow> sub # templateAliases rest)"
  by pat_completeness auto
termination
  by (relation "measure length") (auto dest: secretTemplateRE_shorter)

lemma secretTemplateRE_alias:
  assumes "secretTemplateRE s = Some (a, rest)"
  shows "secretAliasRE a" and "toLower (trimSpace a) = a"
proof -
  have "a \<noteq> [] \<and> (\<exists>t. a = takeWhile aliasRune t)"
    using assms by (auto simp: secretTemplateRE_def Let_def split: if_splits)
  then show a: "secretAliasRE a"
    by (auto simp: secretAliasRE_def list_all_iff aliasRune_def dest: set_takeWhileD)
  show "toLower (trimSpace a) = a" using secretAliasRE_fixed [OF a] by simp
qed

lemma secretTemplateRE_braces: "\<not> containsStr s (lit ''{{'') \<Longrightarrow> secretTemplateRE s = None"
  by (cases s) (auto simp: secretTemplateRE_def hasPrefix_def)

lemma templateAliases_plain: "\<not> containsStr s (lit ''{{'') \<Longrightarrow> templateAliases s = []"
  by (induction s rule: templateAliases.induct) (auto simp: secretTemplateRE_braces split: option.splits)

lemma renderMatches_ok:
  "(\<exists>out. renderMatches sv s = Inr out) \<longleftrightarrow> (\<forall>a \<in> set (templateAliases s). secretOf sv a \<noteq> [])"
proof (induction sv s rule: renderMatches.induct)
  case (2 sv r s)
  show ?case
  proof (cases "secretTemplateRE (r # s)")
    case None
    with 2(1) show ?thesis by (auto split: sum.splits)
  next
    case (Some m)
    obtain sub rest where m: "m = (sub, rest)" by (cases m)
    note sub = secretTemplateRE_alias(2) [OF Some [unfolded m]]
    show ?thesis
    proof (cases "secretOf sv sub = []")
      case True
      with Some m sub show ?thesis by (auto simp: Let_def)
    next
      case False
      with 2(2) [OF Some m [symmetric]] sub Some m show ?thesis by (auto simp: Let_def split: sum.splits)
    qed
  qed
qed simp


lemma renderSecretTemplate_ok:
  "(\<exists>out. renderSecretTemplate raw sv = Inr out) \<longleftrightarrow>
   (\<forall>a \<in> set (templateAliases raw). secretOf sv a \<noteq> [])"
  using renderMatches_ok [of sv raw] templateAliases_plain [of raw]
  by (cases "containsStr raw (lit ''{{'')") (simp_all add: renderSecretTemplate_def)

section \<open>Base64\<close>

definition b64_val :: "rune \<Rightarrow> int" where
  "b64_val c =
     (if 65 \<le> c \<and> c \<le> 90 then c - 65 else if 97 \<le> c \<and> c \<le> 122 then c - 71
      else if 48 \<le> c \<and> c \<le> 57 then c + 4 else if c = 43 then 62 else 63)"

fun unbase64 :: "gostr \<Rightarrow> int list" where
  "unbase64 (p # q # r # s # cs) =
     (let a = b64_val p * 4 + b64_val q div 16;
          b = b64_val q mod 16 * 16 + b64_val r div 4;
          c = b64_val r mod 4 * 64 + b64_val s in
      if r = 61 then [a] else if s = 61 then [a, b] else a # b # c # unbase64 cs)"
| "unbase64 cs = []"

lemma b64_val_char [simp]: "0 \<le> n \<Longrightarrow> n < 64 \<Longrightarrow> b64_val (b64_char n) = n"
  by (auto simp: b64_val_def b64_char_def)

lemma b64_char_pad: "0 \<le> n \<Longrightarrow> n < 64 \<Longrightarrow> b64_char n \<noteq> 61"
  by (auto simp: b64_char_def)

lemma digits_pack:
  "0 \<le> y \<Longrightarrow> y < m \<Longrightarrow> (x * m + y) div m = (x :: int)" "0 \<le> y \<Longrightarrow> y < m \<Longrightarrow> (x * m + y) mod m = (y :: int)"
  by simp_all

lemma unbase64_quad:
  assumes "0 \<le> p" "p < 64" "0 \<le> q" "q < 64" "0 \<le> r" "r < 64" "0 \<le> s" "s < 64"
  shows "unbase64 (b64_char p # b64_char q # b64_char r # b64_char s # cs) =
      (p * 4 + q div 16) # (q mod 16 * 16 + r div 4) # (r mod 4 * 64 + s) # unbase64 cs"
    and "unbase64 [b64_char p, b64_char q, b64_char r, 61] = [p * 4 + q div 16, q mod 16 * 16 + r div 4]"
    and "unbase64 [b64_char p, b64_char q, 61, 61] = [p * 4 + q div 16]"
  using assms by (simp_all add: Let_def b64_char_pad)

lemma byte_sextets:
  assumes "0 \<le> a" "a < 256" "0 \<le> b" "b < 256" "0 \<le> c" "c < (256 :: int)"
  shows "0 \<le> a div 4" "a div 4 < 64" "0 \<le> a mod 4 * 16 + b div 16" "a mod 4 * 16 + b div 16 < 64"
    "0 \<le> b mod 16 * 4 + c div 64" "b mod 16 * 4 + c div 64 < 64" "0 \<le> c mod 64" "c mod 64 < 64"
proof -
  have "0 \<le> a mod 4" "a mod 4 < 4" "0 \<le> b mod 16" "b mod 16 < 16" by simp_all
  with assms show "0 \<le> a mod 4 * 16 + b div 16" "a mod 4 * 16 + b div 16 < 64"
    "0 \<le> b mod 16 * 4 + c div 64" "b mod 16 * 4 + c div 64 < 64" by linarith+
qed (use assms in auto)

lemma sextets_join:
  assumes "0 \<le> b" "b < 256" "0 \<le> c" "c < (256 :: int)"
  shows "a div 4 * 4 + (a mod 4 * 16 + b div 16) div 16 = a"
    and "(a mod 4 * 16 + b div 16) mod 16 * 16 + (b mod 16 * 4 + c div 64) div 4 = b"
    and "(b mod 16 * 4 + c div 64) mod 4 * 64 + c mod 64 = c"
proof -
  have "b div 16 < 16" "0 \<le> b div 16" "c div 64 < 4" "0 \<le> c div 64" using assms by auto
  then show "a div 4 * 4 + (a mod 4 * 16 + b div 16) div 16 = a"
    and "(a mod 4 * 16 + b div 16) mod 16 * 16 + (b mod 16 * 4 + c div 64) div 4 = b"
    and "(b mod 16 * 4 + c div 64) mod 4 * 64 + c mod 64 = c"
    by (simp_all only: digits_pack div_mult_mod_eq)
qed

lemma unbase64_base64: "\<forall>b \<in> set bs. 0 \<le> b \<and> b < 256 \<Longrightarrow> unbase64 (base64 bs) = bs"
proof (induction bs rule: base64.induct)
  case (1 a b c bs)
  then have r: "0 \<le> a" "a < 256" "0 \<le> b" "b < 256" "0 \<le> c" "c < 256"
    and IH: "unbase64 (base64 bs) = bs" by auto
  show ?case
    unfolding base64.simps unbase64_quad(1) [OF byte_sextets [OF r]] sextets_join [OF r(3-6)] IH ..
next
  case (2 a b)
  then have r: "0 \<le> a" "a < 256" "0 \<le> b" "b < 256" "0 \<le> (0::int)" "(0::int) < 256" by auto
  show ?case
    using unbase64_quad(2) [OF byte_sextets [OF r]] sextets_join(1,2) [OF r(3-6)] by simp
next
  case (3 a)
  then have r: "0 \<le> a" "a < 256" "0 \<le> (0::int)" "(0::int) < 256" "0 \<le> (0::int)" "(0::int) < 256" by auto
  show ?case
    using unbase64_quad(3) [OF byte_sextets [OF r]] sextets_join(1) [OF r(3-6)] by simp
qed simp

definition validRune :: "rune \<Rightarrow> bool" where
  "validRune r \<longleftrightarrow> 0 \<le> r \<and> r < 1114112"

lemma utf8_bytes: "list_all validRune s \<Longrightarrow> \<forall>b \<in> set (utf8 s). 0 \<le> b \<and> b < 256"
proof -
  have "0 \<le> b \<and> b < 256" if "validRune r" "b \<in> set (utf8_rune r)" for r b
    using that by (auto simp: validRune_def utf8_rune_def split: if_splits)
  then show "list_all validRune s \<Longrightarrow> \<forall>b \<in> set (utf8 s). 0 \<le> b \<and> b < 256"
    by (auto simp: utf8_def list_all_iff)
qed

section \<open>Compilation\<close>

lemma compileHosts_set:
  "set (compileHosts hosts) = normalizeHostForMatch ` set hosts - {[]}"
  unfolding compileHosts_def set_foldl_addFresh by simp

lemma compileRuleE:
  assumes "compileRule sv i rule = Inr c"
  obtains hasAuth where
    "cr_matchHosts c = compileHosts (rule_MatchHosts rule)" "cr_matchHosts c \<noteq> []"
    "compileHeaders i sv [] False (rule_SetHeader rule) = Inr (cr_setHeader c, hasAuth)"
    "\<not> (hasAuth \<and> rule_SetBasicAuth rule \<noteq> None)"
    "compileBasicAuth i sv (rule_SetBasicAuth rule) = Inr (cr_setBasicAuthHeader c)"
    "compileReplacements i sv 0 (rule_ReplacePlaceholder rule) = Inr (cr_replacePlaceholder c)"
  using assms by (auto simp: compileRule_def Let_def split: if_splits sum.splits)

lemma compileRulesFrom_nth:
  "compileRulesFrom sv i rules = Inr cs \<Longrightarrow>
   length cs = length rules \<and> (\<forall>k < length rules. compileRule sv (i + k) (rules ! k) = Inr (cs ! k))"
proof (induction rules arbitrary: i cs)
  case (Cons rule rules)
  then obtain c cs' where c: "compileRule sv i rule = Inr c"
    and rest: "compileRulesFrom sv (Suc i) rules = Inr cs'" and cs: "cs = c # cs'"
    by (auto split: sum.splits)
  from Cons.IH [OF rest] c show ?case by (auto simp: cs All_less_Suc2)
qed simp

lemma compileRules_mem:
  assumes "compileRules rules sv = Inr cs" and "c \<in> set cs"
  shows "\<exists>i rule. rule \<in> set rules \<and> compileRule sv i rule = Inr c"
  using compileRulesFrom_nth [OF assms(1) [unfolded compileRules_def]] assms(2)
  by (metis in_set_conv_nth)

text \<open>The keys a compiled rule sets are canonical and distinct, and their templates render.\<close>

definition headersOK :: "secrets \<Rightarrow> gostr gomap \<Rightarrow> bool" where
  "headersOK sv m \<longleftrightarrow> distinct (map fst m) \<and>
     (\<forall>(k, v) \<in> set m. CanonicalMIMEHeaderKey k = k \<and> (\<exists>out. renderSecretTemplate v sv = Inr out))"

lemma headersOK_update:
  assumes "headersOK sv m" and "CanonicalMIMEHeaderKey k = k" and "renderSecretTemplate v sv = Inr out"
  shows "headersOK sv (AList.update k v m)"
proof -
  have "set (AList.update k v m) \<subseteq> insert (k, v) (set m)" by (induction m) auto
  with assms show ?thesis unfolding headersOK_def by (fastforce simp: distinct_update)
qed

lemma compileHeaders_ok:
  "compileHeaders i sv m b hs = Inr (m', b') \<Longrightarrow> headersOK sv m \<Longrightarrow> headersOK sv m'"
proof (induction i sv m b hs rule: compileHeaders.induct)
  case (2 i sv m b k v hs)
  then show ?case by (auto simp: Let_def headersOK_update split: if_splits sum.splits)
qed simp

lemma compileRule_headers: "compileRule sv i rule = Inr c \<Longrightarrow> headersOK sv (cr_setHeader c)"
  by (erule compileRuleE, rule compileHeaders_ok) (auto simp: headersOK_def)


section \<open>Requests\<close>

lemma applyHeaders_ok:
  assumes "\<forall>(k, v) \<in> set hs. \<exists>out. renderSecretTemplate v sv = Inr out"
  obtains h where "applyHeaders sv hs req = (None, req\<lparr>rq_Header := h\<rparr>)"
proof -
  have "\<exists>h. applyHeaders sv hs req = (None, req\<lparr>rq_Header := h\<rparr>)"
    using assms
  proof (induction hs arbitrary: req)
    case Nil
    have "req = req\<lparr>rq_Header := rq_Header req\<rparr>" by simp
    then show ?case by (metis applyHeaders.simps(1))
  next
    case (Cons kv hs)
    obtain k v where kv: "kv = (k, v)" by (cases kv)
    from Cons.prems kv obtain out where out: "renderSecretTemplate v sv = Inr out" by auto
    from Cons.IH [of "req\<lparr>rq_Header := headerSet k out (rq_Header req)\<rparr>"] Cons.prems kv out
    show ?case by auto
  qed
  then show thesis using that by blast
qed

lemma replacement_keeps_URL:
  "rq_URL req = Some u \<Longrightarrow>
   \<exists>u'. rq_URL (applyCompiledPlaceholderReplacement lib req repl) = Some u' \<and> u_Host u' = u_Host u"
  by (auto simp: applyCompiledPlaceholderReplacement_def replaceQuery_def replacePath_def Let_def)

lemma replacements_keep_URL:
  "rq_URL req = Some u \<Longrightarrow>
   \<exists>u'. rq_URL (foldl (applyCompiledPlaceholderReplacement lib) req repls) = Some u' \<and> u_Host u' = u_Host u"
proof (induction repls arbitrary: req u)
  case (Cons repl repls)
  then obtain u1 where "rq_URL (applyCompiledPlaceholderReplacement lib req repl) = Some u1" "u_Host u1 = u_Host u"
    using replacement_keeps_URL by blast
  with Cons.IH show ?case by fastforce
qed simp

lemma applyRule_ok:
  assumes "headersOK sv (cr_setHeader c)" and "rq_URL req = Some u"
  obtains req' u' where "applyRule lib sv c req = (None, req')" "rq_URL req' = Some u'"
proof -
  have "\<forall>(k, v) \<in> set (cr_setHeader c). \<exists>out. renderSecretTemplate v sv = Inr out"
    using assms(1) by (auto simp: headersOK_def)
  then obtain h where h: "applyHeaders sv (cr_setHeader c) req = (None, req\<lparr>rq_Header := h\<rparr>)"
    by (rule applyHeaders_ok)
  obtain u' where
    "rq_URL (foldl (applyCompiledPlaceholderReplacement lib) (req\<lparr>rq_Header := h\<rparr>) (cr_replacePlaceholder c)) = Some u'"
    using replacements_keep_URL [of "req\<lparr>rq_Header := h\<rparr>" u] assms(2) by auto
  then have "\<exists>req'. applyRule lib sv c req = (None, req') \<and> rq_URL req' = Some u'"
    by (simp add: applyRule_def h Let_def)
  with that show thesis by blast
qed

lemma matchesRequest_URL: "rq_URL req = Some u \<Longrightarrow> \<exists>b. matchesRequest c req = Some b"
  by (auto simp: matchesRequest_def Let_def)

lemma handleRules_ok:
  "\<forall>c \<in> set cs. headersOK sv (cr_setHeader c) \<Longrightarrow> rq_URL req = Some u \<Longrightarrow>
   \<exists>req'. handleRules lib sv cs req = Some (req', None)"
proof (induction cs arbitrary: req u)
  case (Cons c cs)
  obtain b where b: "matchesRequest c req = Some b" using matchesRequest_URL [OF Cons.prems(2)] by blast
  show ?case
  proof (cases b)
    case True
    obtain req' u' where "applyRule lib sv c req = (None, req')" "rq_URL req' = Some u'"
      using applyRule_ok [of sv c req u lib] Cons.prems by auto
    with Cons.IH [of req' u'] Cons.prems b True show ?thesis by auto
  next
    case False
    with Cons.IH [OF _ Cons.prems(2)] Cons.prems b show ?thesis by auto
  qed
qed simp

text \<open>
  C25: rules that compiled never fail a request: for every request with a URL the handler returns
  the request for forwarding, with no panic and no 502, because every template was rendered once
  when the rules were compiled.
\<close>

theorem compiled_rules_serve_every_request:
  assumes "compileRules rules sv = Inr cs" and "rq_URL req = Some u"
  shows "\<exists>req'. handleRequest lib sv cs (Some req) = Some (Some req', None)"
proof -
  have "\<forall>c \<in> set cs. headersOK sv (cr_setHeader c)"
    using compileRules_mem [OF assms(1)] compileRule_headers by blast
  from handleRules_ok [OF this assms(2)] show ?thesis by (fastforce simp: handleRequest_def)
qed

text \<open>The host a request goes to is one some rule lists.\<close>

abbreviation hostListed :: "Rule list \<Rightarrow> gostr \<Rightarrow> bool" where
  "hostListed rules host \<equiv>
     \<exists>rule \<in> set rules. \<exists>h \<in> set (rule_MatchHosts rule). normalizeHostForMatch h = normalizeHostForMatch host"

lemma compiled_hosts:
  assumes "compileRules rules sv = Inr cs" and "\<not> hostListed rules host" and "c \<in> set cs"
  shows "normalizeHostForMatch host = [] \<or> normalizeHostForMatch host \<notin> set (cr_matchHosts c)"
proof -
  obtain i rule where "rule \<in> set rules" "compileRule sv i rule = Inr c"
    using compileRules_mem [OF assms(1,3)] by blast
  then have "set (cr_matchHosts c) \<subseteq> normalizeHostForMatch ` set (rule_MatchHosts rule)"
    by (auto elim!: compileRuleE simp: compileHosts_set)
  with assms(2) \<open>rule \<in> set rules\<close> show ?thesis by force
qed

lemma handleRules_unmatched:
  "\<forall>c \<in> set cs. matchesRequest c req = Some False \<Longrightarrow> handleRules lib sv cs req = Some (req, None)"
  by (induction cs) auto

text \<open>
  C26: secrets stay with the hosts the policy names.  A request to a host that no rule lists
  leaves the proxy exactly as it came, whatever it contains, and a CONNECT to such a host is
  tunnelled without interception.
\<close>

theorem unlisted_host_untouched:
  assumes "compileRules rules sv = Inr cs" and "\<not> hostListed rules (requestHost req)"
  shows "handleRequest lib sv cs (Some req) = Some (Some req, None) \<and>
    handleConnect cs (requestHost req) = (OkConnect, requestHost req)"
proof -
  note out = compiled_hosts [OF assms]
  then have "\<forall>c \<in> set cs. matchesRequest c req = Some False"
    by (auto simp: matchesRequest_def Let_def)
  moreover have "\<not> shouldMITMHost cs (requestHost req)"
    using out by (auto simp: shouldMITMHost_def matchesConnectHost_def Let_def list_ex_iff)
  ultimately show ?thesis
    by (simp add: handleRequest_def handleConnect_def handleRules_unmatched)
qed

text \<open>
  A rule with basic authentication has the last word on the Authorization header: after the
  rule was applied the header is the single value \<open>Basic <code>\<close>, whatever the client sent, and
  the code decodes to \<open>username:secret\<close>.
\<close>

theorem basic_auth_header:
  assumes "compileRule sv i rule = Inr c" and "rule_SetBasicAuth rule = Some b"
    and "list_all validRune (bauth_Username b)"
    and "list_all validRune (secretOf sv (toLower (trimSpace (bauth_Secret b))))"
    and "applyRule lib sv c req = (None, req')"
  shows "\<exists>code. map_of (rq_Header req') (lit ''Authorization'') = Some [lit ''Basic '' @ code] \<and>
    unbase64 code =
      utf8 (trimSpace (bauth_Username b) @ lit '':'' @ secretOf sv (toLower (trimSpace (bauth_Secret b))))"
proof -
  let ?cred = "trimSpace (bauth_Username b) @ lit '':'' @ secretOf sv (toLower (trimSpace (bauth_Secret b)))"
  have auth: "cr_setBasicAuthHeader c = lit ''Basic '' @ base64 (utf8 ?cred)"
    using assms(1,2) by (auto elim!: compileRuleE simp: compileBasicAuth_def Let_def split: if_splits)
  have canon: "CanonicalMIMEHeaderKey (lit ''Authorization'') = lit ''Authorization''" by code_simp
  have "list_all validRune ?cred"
    using assms(3,4) trimSpace_all [of validRune] by (simp add: lit_eval validRune_def)
  from unbase64_base64 [OF utf8_bytes [OF this]]
  have "unbase64 (base64 (utf8 ?cred)) = utf8 ?cred" .
  moreover have "map_of (rq_Header req') (lit ''Authorization'') = Some [cr_setBasicAuthHeader c]"
    using assms(5) auth
    by (auto simp: applyRule_def Let_def headerSet_def canon update_conv' split: prod.splits option.splits)
  ultimately show ?thesis using auth by auto
qed

text \<open>
  The headers that carry credentials never reach the client, and no other response header is
  touched.
\<close>

theorem handleResponse_strips:
  "map_of (rs_Header (the (handleResponse (Some resp)))) k =
   (if k \<in> {lit ''Authorization'', lit ''Proxy-Authorization'', lit ''X-Api-Key''} then None
    else map_of (rs_Header resp) k)"
proof -
  have canon: "CanonicalMIMEHeaderKey (lit ''Authorization'') = lit ''Authorization''"
    "CanonicalMIMEHeaderKey (lit ''Proxy-Authorization'') = lit ''Proxy-Authorization''"
    "CanonicalMIMEHeaderKey (lit ''X-Api-Key'') = lit ''X-Api-Key''"
    by code_simp+
  show ?thesis by (auto simp: handleResponse_def headerDel_def canon delete_conv')
qed

section \<open>What one rule writes\<close>

lemma map_of_applyHeaders:
  "headersOK sv hs \<Longrightarrow>
   map_of (rq_Header (snd (applyHeaders sv hs req))) k =
   (case map_of hs k of
      Some tmpl \<Rightarrow> Some [projr (renderSecretTemplate tmpl sv)]
    | None \<Rightarrow> map_of (rq_Header req) k)"
proof (induction hs arbitrary: req)
  case (Cons kv hs)
  obtain k' v where kv: "kv = (k', v)" by (cases kv)
  with Cons.prems obtain out where out: "renderSecretTemplate v sv = Inr out"
    and canon: "CanonicalMIMEHeaderKey k' = k'" and ok: "headersOK sv hs"
    and fresh: "map_of hs k' = None"
    by (auto simp: headersOK_def map_of_eq_None_iff)
  then show ?case
    using Cons.IH [OF ok] kv by (auto simp: headerSet_def update_conv' split: option.splits)
qed (simp add: headersOK_def)

text \<open>
  What a compiled rule writes into the headers does not depend on the order in which Go
  iterates over its \<open>set_header\<close> map: a header of the rule has exactly its rendered template,
  every other header keeps its values.
\<close>

theorem set_header_exact:
  assumes "compileRule sv i rule = Inr c" and "mset hs = mset (cr_setHeader c)"
  shows "fst (applyHeaders sv hs req) = None \<and>
    map_of (rq_Header (snd (applyHeaders sv hs req))) k =
      (case map_of (cr_setHeader c) k of
         Some tmpl \<Rightarrow> Some [projr (renderSecretTemplate tmpl sv)]
       | None \<Rightarrow> map_of (rq_Header req) k)"
proof -
  have ok: "headersOK sv (cr_setHeader c)" using compileRule_headers [OF assms(1)] .
  have sets: "set hs = set (cr_setHeader c)" using assms(2) by (metis set_mset_mset)
  have "mset (map fst hs) = mset (map fst (cr_setHeader c))" using assms(2) by simp
  then have d: "distinct (map fst hs)" using ok by (metis headersOK_def mset_eq_imp_distinct_iff)
  with ok sets have ok': "headersOK sv hs" by (simp add: headersOK_def)
  have same: "map_of hs = map_of (cr_setHeader c)"
    using map_of_inject_set [OF d] ok sets by (simp add: headersOK_def)
  have "\<forall>(k, v) \<in> set hs. \<exists>out. renderSecretTemplate v sv = Inr out"
    using ok' by (auto simp: headersOK_def)
  then obtain h where "applyHeaders sv hs req = (None, req\<lparr>rq_Header := h\<rparr>)" by (rule applyHeaders_ok)
  with map_of_applyHeaders [OF ok', of req k] show ?thesis by (simp add: same)
qed


section \<open>Examples\<close>

text \<open>A library whose escaping is the identity, one rule with a template, a placeholder and a
  secret, one with basic authentication.\<close>

definition plainLib :: url_lib where
  "plainLib = \<lparr>ul_ParseQuery = (\<lambda>q. [(q, [q])]), ul_Encode = concat \<circ> map fst, ul_EscapedPath = (\<lambda>p raw. p)\<rparr>"

definition sampleSecrets :: secrets where
  "sampleSecrets = [(lit ''token'', lit ''s3cret'')]"

definition sampleRule :: Rule where
  "sampleRule =
     \<lparr>rule_Name = lit ''api'', rule_MatchHosts = [lit ''api.example.com''],
      rule_MatchPathPrefixes = [lit ''/v1''],
      rule_SetHeader = [(lit ''x-key'', lit ''k {{ secret.token }}'')], rule_SetBasicAuth = None,
      rule_ReplacePlaceholder =
        [\<lparr>repl_Placeholder = lit ''PH'', repl_Secret = lit ''token'', repl_In = [lit ''path'']\<rparr>]\<rparr>"

definition basicRule :: Rule where
  "basicRule =
     sampleRule\<lparr>rule_SetHeader := [],
       rule_SetBasicAuth := Some \<lparr>bauth_Username = lit ''me'', bauth_Secret = lit ''token''\<rparr>\<rparr>"

definition sampleRequest :: "string \<Rightarrow> Request" where
  "sampleRequest host =
     \<lparr>rq_Method = lit ''GET'', rq_Host = lit host,
      rq_URL =
        Some \<lparr>u_Scheme = lit ''https'', u_Opaque = [], u_Host = lit host, u_Path = lit ''/v1/PH'',
              u_RawPath = [], u_ForceQuery = False, u_RawQuery = []\<rparr>,
      rq_Header = [(lit ''Authorization'', [lit ''mine''])], rq_RequestURI = lit ''/v1/PH''\<rparr>"

lemma sample_compiles:
  "compileRules [sampleRule] sampleSecrets = Inr (projr (compileRules [sampleRule] sampleSecrets))"
  "compileRule sampleSecrets 0 sampleRule = Inr (projr (compileRule sampleSecrets 0 sampleRule))"
  "compileRule sampleSecrets 0 basicRule = Inr (projr (compileRule sampleSecrets 0 basicRule))"
  by code_simp+

theorem compiled_rules_serve_every_request_witness:
  "\<exists>req'. handleRequest plainLib sampleSecrets (projr (compileRules [sampleRule] sampleSecrets))
     (Some (sampleRequest ''api.example.com'')) = Some (Some req', None)"
  by (rule compiled_rules_serve_every_request [OF sample_compiles(1)]) (simp add: sampleRequest_def)

theorem unlisted_host_untouched_witness:
  "handleRequest plainLib sampleSecrets (projr (compileRules [sampleRule] sampleSecrets))
     (Some (sampleRequest ''other.example.com'')) = Some (Some (sampleRequest ''other.example.com''), None)"
proof -
  have "\<not> hostListed [sampleRule] (requestHost (sampleRequest ''other.example.com''))" by code_simp
  from unlisted_host_untouched [OF sample_compiles(1) this] show ?thesis by blast
qed

theorem basic_auth_header_witness:
  "\<exists>code. map_of (rq_Header (snd (applyRule plainLib sampleSecrets
        (projr (compileRule sampleSecrets 0 basicRule)) (sampleRequest ''api.example.com''))))
      (lit ''Authorization'') = Some [lit ''Basic '' @ code] \<and>
    unbase64 code = utf8 (lit ''me:s3cret'')"
proof -
  let ?c = "projr (compileRule sampleSecrets 0 basicRule)"
  let ?b = "\<lparr>bauth_Username = lit ''me'', bauth_Secret = lit ''token''\<rparr>"
  have auth: "rule_SetBasicAuth basicRule = Some ?b" by (simp add: basicRule_def)
  have runes: "list_all validRune (bauth_Username ?b)"
    "list_all validRune (secretOf sampleSecrets (toLower (trimSpace (bauth_Secret ?b))))"
    by code_simp+
  have ran: "applyRule plainLib sampleSecrets ?c (sampleRequest ''api.example.com'') =
      (None, snd (applyRule plainLib sampleSecrets ?c (sampleRequest ''api.example.com'')))"
    by code_simp
  have "trimSpace (bauth_Username ?b) @ lit '':'' @ secretOf sampleSecrets (toLower (trimSpace (bauth_Secret ?b)))
      = lit ''me:s3cret''"
    by code_simp
  with basic_auth_header [OF sample_compiles(3) auth runes ran] show ?thesis by metis
qed

theorem set_header_exact_witness:
  "map_of (rq_Header (snd (applyHeaders sampleSecrets
      (cr_setHeader (projr (compileRule sampleSecrets 0 sampleRule))) (sampleRequest ''api.example.com''))))
     (lit ''X-Key'') = Some [lit ''k s3cret'']"
proof -
  have "(case map_of (cr_setHeader (projr (compileRule sampleSecrets 0 sampleRule))) (lit ''X-Key'') of
      Some tmpl \<Rightarrow> Some [projr (renderSecretTemplate tmpl sampleSecrets)]
    | None \<Rightarrow> map_of (rq_Header (sampleRequest ''api.example.com'')) (lit ''X-Key'')) = Some [lit ''k s3cret'']"
    by code_simp
  with set_header_exact [OF sample_compiles(2) refl, of "sampleRequest ''api.example.com''" "lit ''X-Key''"]
  show ?thesis by metis
qed

end
