(* ===== verification/Proxy_Config.thy ===== *)
theory Proxy_Config
  imports Proxy_Rules
begin

text \<open>
  From a policy to the rule set the proxy serves: \<open>systems/proxy/internal/config\<close>
  (\<open>resolve.go\<close>, \<open>secret_env.go\<close>, \<open>config.go\<close>) and the conversion of rules in
  \<open>systems/proxy/internal/app/app.go\<close>.  The process environment and the file system are the
  parameters \<open>getenv\<close> and \<open>readFile\<close>; the SHA-256 of the JSON of a value is a parameter too
  (\<open>None\<close> is a marshalling error), so a theorem holds for every fingerprint function.
\<close>

section \<open>Resolving a policy\<close>

record Runtime =
  rt_ServiceVersion :: gostr
  rt_AdminListen :: gostr
  rt_ProxyListen :: gostr
  rt_AdvertiseProxyURL :: gostr
  rt_StateDir :: gostr
  rt_NoProxy :: gostr
  rt_SetLowercaseProxyEnv :: bool
  rt_SecretValues :: secrets
  rt_EnvValues :: "gostr gomap"
  rt_Rules :: "ProxyRule list"
  rt_PolicyRevision :: gostr

record policyRevisionInput =
  ri_NoProxy :: "gostr list"
  ri_SetLowercaseProxyEnv :: bool
  ri_Secrets :: "gostr list"
  ri_Env :: "ProxyEnv list"
  ri_Rules :: "ProxyRule list"
  ri_EnvValues :: "gostr gomap"

record host_env =
  he_getenv :: "gostr \<Rightarrow> gostr"
  he_readFile :: "gostr \<Rightarrow> gostr option"
  he_placeholderSum :: "gostr \<times> gostr \<times> gostr list \<times> gostr list \<Rightarrow> gostr option"
  he_revisionSum :: "policyRevisionInput \<Rightarrow> gostr option"

datatype secret_env_error = EnvNameRequired | EnvMissing gostr gostr | EnvFileRead gostr gostr | EnvFileEmpty gostr gostr

datatype resolve_error =
    InvalidPolicy policy_error | ResolveSecrets nat alias_error | SecretEnvValue gostr secret_env_error
  | PlaceholderFailed gostr | MissingProxyRule gostr gostr | RevisionFailed

definition defaultNoProxy :: "gostr list" where
  "defaultNoProxy = [lit ''localhost'', lit ''127.0.0.1'', lit ''::1'']"

definition resolveNoProxy :: "gostr list \<Rightarrow> gostr list" where
  "resolveNoProxy normalized = (if normalized = [] then defaultNoProxy else normalized)"

text \<open>\<open>strings.ToUpper\<close> on the ASCII letters; an alias has no other letters.\<close>

definition upperAscii :: "gostr \<Rightarrow> gostr" where
  "upperAscii s = map (\<lambda>r. if 97 \<le> r \<and> r \<le> 122 then r - 32 else r) s"

definition proxySecretEnvName :: "gostr \<Rightarrow> gostr" where
  "proxySecretEnvName a = upperAscii (replaceAll a (lit ''-'') (lit ''_''))"

definition resolveSecretEnvValue :: "host_env \<Rightarrow> gostr \<Rightarrow> secret_env_error + gostr" where
  "resolveSecretEnvValue env name =
     (let name = trimSpace name in
      if name = [] then Inl EnvNameRequired
      else let value = trimSpace (he_getenv env name) in
        if value \<noteq> [] then Inr value
        else let fileEnvName = name @ lit ''_FILE''; filePath = trimSpace (he_getenv env fileEnvName) in
          if filePath = [] then Inl (EnvMissing name fileEnvName)
          else case he_readFile env filePath of
              None \<Rightarrow> Inl (EnvFileRead fileEnvName filePath)
            | Some content \<Rightarrow>
                (let value = trimSpace content in
                 if value = [] then Inl (EnvFileEmpty fileEnvName filePath) else Inr value))"

fun resolveSecretValues :: "host_env \<Rightarrow> secrets \<Rightarrow> gostr list \<Rightarrow> resolve_error + secrets" where
  "resolveSecretValues env sv [] = Inr sv"
| "resolveSecretValues env sv (a # as) =
     (case resolveSecretEnvValue env (proxySecretEnvName a) of
        Inl e \<Rightarrow> Inl (SecretEnvValue a e)
      | Inr value \<Rightarrow> resolveSecretValues env (AList.update a value sv) as)"

definition stablePlaceholderPrefix :: gostr where
  "stablePlaceholderPrefix = lit ''__Q15_PROXY_ENV_''"

definition stableProxyPlaceholder :: "host_env \<Rightarrow> ProxyEnv \<Rightarrow> gostr option" where
  "stableProxyPlaceholder env e =
     map_option (\<lambda>sum. stablePlaceholderPrefix @ sum @ lit ''__'')
       (he_placeholderSum env (pe_Name e, pe_Secret e, pe_Rules e, pe_In e))"

text \<open>\<open>ruleIndexByName\<close>: the last index of a name wins.\<close>

definition ruleIndexByName :: "ProxyRule list \<Rightarrow> (gostr \<times> nat) list" where
  "ruleIndexByName rules =
     foldl (\<lambda>m (i, rule). let name = trimSpace (pr_Name rule) in
              if name = [] then m else AList.update name i m) [] (enumerate 0 rules)"

fun addReplacement ::
  "(gostr \<times> nat) list \<Rightarrow> gostr \<Rightarrow> ProxyPlaceholderReplacement \<Rightarrow> gostr list \<Rightarrow> ProxyRule list \<Rightarrow>
   resolve_error + ProxyRule list"
where
  "addReplacement index envName repl [] rules = Inr rules"
| "addReplacement index envName repl (ruleName # names) rules =
     (case map_of index ruleName of
        None \<Rightarrow> Inl (MissingProxyRule envName ruleName)
      | Some i \<Rightarrow>
          addReplacement index envName repl names
            (rules[i := (rules ! i)\<lparr>pr_ReplacePlaceholder := pr_ReplacePlaceholder (rules ! i) @ [repl]\<rparr>]))"

fun resolveEnvs ::
  "host_env \<Rightarrow> (gostr \<times> nat) list \<Rightarrow> ProxyEnv list \<Rightarrow> ProxyRule list \<Rightarrow> gostr gomap \<Rightarrow>
   resolve_error + ProxyRule list \<times> gostr gomap"
where
  "resolveEnvs env index [] rules values = Inr (rules, values)"
| "resolveEnvs env index (e # es) rules values =
     (case stableProxyPlaceholder env e of
        None \<Rightarrow> Inl (PlaceholderFailed (pe_Name e))
      | Some placeholder \<Rightarrow>
          (case addReplacement index (pe_Name e)
                  \<lparr>pp_Placeholder = placeholder, pp_Secret = pe_Secret e, pp_In = pe_In e\<rparr>
                  (pe_Rules e) rules of
             Inl er \<Rightarrow> Inl er
           | Inr rules' \<Rightarrow> resolveEnvs env index es rules' (AList.update (pe_Name e) placeholder values)))"

definition resolveProxyRuleRuntime ::
  "host_env \<Rightarrow> ProxyRule list \<Rightarrow> ProxyEnv list \<Rightarrow> resolve_error + ProxyRule list \<times> gostr gomap"
where
  "resolveProxyRuleRuntime env rules envMappings =
     (if envMappings = [] then Inr (rules, [])
      else resolveEnvs env (ruleIndexByName rules) envMappings rules [])"

definition calculatePolicyRevision :: "host_env \<Rightarrow> policyRevisionInput \<Rightarrow> gostr option" where
  "calculatePolicyRevision env value = he_revisionSum env value"

definition ResolveRuntime :: "host_env \<Rightarrow> Config \<Rightarrow> resolve_error + Runtime" where
  "ResolveRuntime env cfg =
     (case Validate cfg of
        Some e \<Rightarrow> Inl (InvalidPolicy e)
      | None \<Rightarrow>
     (case NormalizedSecrets (cf_Proxy cfg) of
        Inl (i, e) \<Rightarrow> Inl (ResolveSecrets i e)
      | Inr aliases \<Rightarrow>
     (case resolveSecretValues env [] aliases of
        Inl e \<Rightarrow> Inl e
      | Inr secretValues \<Rightarrow>
     (case resolveProxyRuleRuntime env (NormalizedRules (cf_Proxy cfg)) (NormalizedEnv (cf_Proxy cfg)) of
        Inl e \<Rightarrow> Inl e
      | Inr (rules, envValues) \<Rightarrow>
     (case calculatePolicyRevision env
             \<lparr>ri_NoProxy = NormalizedNoProxy (cf_Proxy cfg),
              ri_SetLowercaseProxyEnv = px_SetLowercaseProxyEnv (cf_Proxy cfg),
              ri_Secrets = aliases,
              ri_Env = NormalizedEnv (cf_Proxy cfg),
              ri_Rules = rules,
              ri_EnvValues = envValues\<rparr> of
        None \<Rightarrow> Inl RevisionFailed
      | Some revision \<Rightarrow>
          Inr \<lparr>rt_ServiceVersion = lit ''dev'',
               rt_AdminListen = lit '':50052'',
               rt_ProxyListen = lit '':18080'',
               rt_AdvertiseProxyURL = lit ''http://q15-proxy:18080'',
               rt_StateDir = lit ''/var/lib/q15/proxy'',
               rt_NoProxy = joinStr (lit '','') (resolveNoProxy (NormalizedNoProxy (cf_Proxy cfg))),
               rt_SetLowercaseProxyEnv = px_SetLowercaseProxyEnv (cf_Proxy cfg),
               rt_SecretValues = secretValues,
               rt_EnvValues = envValues,
               rt_Rules = rules,
               rt_PolicyRevision = revision\<rparr>)))))"

section \<open>Handing the rules to the data plane\<close>

definition cloneBasicAuth :: "ProxyBasicAuth option \<Rightarrow> BasicAuth option" where
  "cloneBasicAuth v =
     map_option (\<lambda>b. \<lparr>bauth_Username = ba_Username b, bauth_Secret = ba_Secret b\<rparr>) v"

definition clonePlaceholderReplacements ::
  "ProxyPlaceholderReplacement list \<Rightarrow> PlaceholderReplacement list"
where
  "clonePlaceholderReplacements vs =
     map (\<lambda>v. \<lparr>repl_Placeholder = pp_Placeholder v, repl_Secret = pp_Secret v, repl_In = pp_In v\<rparr>) vs"

definition toProxyRule :: "ProxyRule \<Rightarrow> Rule" where
  "toProxyRule r =
     \<lparr>rule_Name = pr_Name r,
      rule_MatchHosts = pr_MatchHosts r,
      rule_MatchPathPrefixes = pr_MatchPathPrefixes r,
      rule_SetHeader = pr_SetHeader r,
      rule_SetBasicAuth = cloneBasicAuth (pr_SetBasicAuth r),
      rule_ReplacePlaceholder = clonePlaceholderReplacements (pr_ReplacePlaceholder r)\<rparr>"

definition toProxyRules :: "ProxyRule list \<Rightarrow> Rule list" where
  "toProxyRules rules = map toProxyRule rules"

definition resolveListenTarget :: "gostr \<Rightarrow> gostr \<times> gostr" where
  "resolveListenTarget value =
     (if hasPrefix value (lit ''unix://'') then (lit ''unix'', trimPrefix value (lit ''unix://''))
      else (lit ''tcp'', value))"

section \<open>Secret values\<close>

lemma resolveSecretEnvValue_Inr:
  "resolveSecretEnvValue env name = Inr v \<Longrightarrow> v \<noteq> [] \<and> trimSpace v = v"
  by (auto simp: resolveSecretEnvValue_def Let_def split: if_splits option.splits)

lemma resolveSecretValues_lookup:
  "resolveSecretValues env sv as = Inr sv' \<Longrightarrow>
   map_of sv' a =
     (if a \<in> set as then Some (projr (resolveSecretEnvValue env (proxySecretEnvName a))) else map_of sv a) \<and>
   (\<forall>a \<in> set as. \<exists>v. resolveSecretEnvValue env (proxySecretEnvName a) = Inr v)"
proof (induction env sv "as" rule: resolveSecretValues.induct)
  case (2 env sv a' "as")
  then obtain w where v: "resolveSecretEnvValue env (proxySecretEnvName a') = Inr w"
    by (auto split: sum.splits)
  with 2 show ?case by (auto simp: update_conv')
qed simp

text \<open>A resolved secret has a value exactly when its alias is declared.\<close>

lemma secretOf_declared:
  assumes "resolveSecretValues env [] as = Inr sv"
  shows "secretOf sv a \<noteq> [] \<longleftrightarrow> a \<in> set as"
proof (cases "a \<in> set as")
  case True
  with resolveSecretValues_lookup [OF assms, of a] obtain v where
    v: "map_of sv a = Some v" "resolveSecretEnvValue env (proxySecretEnvName a) = Inr v" by fastforce
  from resolveSecretEnvValue_Inr [OF v(2)] v(1) True show ?thesis by (simp add: secretOf_def)
next
  case False
  with resolveSecretValues_lookup [OF assms, of a] show ?thesis by (simp add: secretOf_def)
qed

section \<open>When rules compile\<close>

definition compilable :: "secrets \<Rightarrow> Rule \<Rightarrow> bool" where
  "compilable sv rule \<longleftrightarrow>
     (\<exists>h \<in> set (rule_MatchHosts rule). normalizeHostForMatch h \<noteq> []) \<and>
     (\<forall>(k, v) \<in> set (rule_SetHeader rule).
        trimSpace k \<noteq> [] \<and> (\<forall>a \<in> set (templateAliases v). secretOf sv a \<noteq> [])) \<and>
     pred_option (\<lambda>b. trimSpace (bauth_Username b) \<noteq> [] \<and>
        secretOf sv (toLower (trimSpace (bauth_Secret b))) \<noteq> [] \<and>
        \<not> hasAuthorizationHeader (rule_SetHeader rule)) (rule_SetBasicAuth rule) \<and>
     (\<forall>r \<in> set (rule_ReplacePlaceholder rule). secretOf sv (toLower (trimSpace (repl_Secret r))) \<noteq> [])"

lemma compileHeaders_Inr_iff:
  "(\<exists>m'. compileHeaders i sv m b hs = Inr (m', b')) \<longleftrightarrow>
   (\<forall>(k, v) \<in> set hs. trimSpace k \<noteq> [] \<and> (\<forall>a \<in> set (templateAliases v). secretOf sv a \<noteq> [])) \<and>
   b' = (b \<or> hasAuthorizationHeader hs)"
proof (induction i sv m b hs rule: compileHeaders.induct)
  case (2 i sv m b k v hs)
  note render = renderSecretTemplate_ok [of v sv]
  show ?case
  proof (cases "trimSpace k = []")
    case True
    then show ?thesis by (simp add: Let_def)
  next
    case False
    show ?thesis
    proof (cases "renderSecretTemplate v sv")
      case (Inl e)
      with render have "\<not> (\<forall>a \<in> set (templateAliases v). secretOf sv a \<noteq> [])" by (metis Inl_Inr_False)
      with Inl False show ?thesis by (auto simp: Let_def)
    next
      case (Inr out)
      with render have "\<forall>a \<in> set (templateAliases v). secretOf sv a \<noteq> []" by blast
      with Inr False 2 [of "CanonicalMIMEHeaderKey (trimSpace k)" out] show ?thesis
        by (auto simp: Let_def hasAuthorizationHeader_def)
    qed
  qed
qed (auto simp: hasAuthorizationHeader_def)

lemma compileReplacements_Inr_iff:
  "(\<exists>out. compileReplacements i sv j repls = Inr out) \<longleftrightarrow>
   (\<forall>r \<in> set repls. secretOf sv (toLower (trimSpace (repl_Secret r))) \<noteq> [])"
proof (induction repls arbitrary: j)
  case (Cons repl repls)
  show ?case
    using Cons.IH [of "Suc j"] by (auto simp: Let_def split: sum.splits)
qed simp

lemma compileBasicAuth_Inr_iff:
  "(\<exists>out. compileBasicAuth i sv auth = Inr out) \<longleftrightarrow>
   pred_option (\<lambda>b. trimSpace (bauth_Username b) \<noteq> [] \<and>
     secretOf sv (toLower (trimSpace (bauth_Secret b))) \<noteq> []) auth"
  by (cases auth) (auto simp: compileBasicAuth_def Let_def)

lemma compileRule_Inr_iff: "(\<exists>c. compileRule sv i rule = Inr c) \<longleftrightarrow> compilable sv rule"
proof -
  have hosts: "compileHosts (rule_MatchHosts rule) \<noteq> [] \<longleftrightarrow>
      (\<exists>h \<in> set (rule_MatchHosts rule). normalizeHostForMatch h \<noteq> [])"
    using compileHosts_set [of "rule_MatchHosts rule"] by (auto simp flip: set_empty)
  have "(\<exists>c. compileRule sv i rule = Inr c) \<longleftrightarrow>
      compileHosts (rule_MatchHosts rule) \<noteq> [] \<and>
      (\<exists>b. (\<exists>m. compileHeaders i sv [] False (rule_SetHeader rule) = Inr (m, b)) \<and>
           \<not> (b \<and> rule_SetBasicAuth rule \<noteq> None)) \<and>
      (\<exists>out. compileBasicAuth i sv (rule_SetBasicAuth rule) = Inr out) \<and>
      (\<exists>out. compileReplacements i sv 0 (rule_ReplacePlaceholder rule) = Inr out)"
    by (auto simp: compileRule_def Let_def split: sum.splits if_splits)
  also have "\<dots> \<longleftrightarrow> compilable sv rule"
    unfolding compileHeaders_Inr_iff compileReplacements_Inr_iff compileBasicAuth_Inr_iff hosts compilable_def
    by (cases "rule_SetBasicAuth rule") auto
  finally show ?thesis .
qed

lemma compileRules_Inr_iff:
  "(\<exists>cs. compileRules rules sv = Inr cs) \<longleftrightarrow> (\<forall>rule \<in> set rules. compilable sv rule)"
proof -
  have "(\<exists>cs. compileRulesFrom sv i rules = Inr cs) \<longleftrightarrow> (\<forall>rule \<in> set rules. compilable sv rule)" for i
  proof (induction rules arbitrary: i)
    case (Cons rule rules)
    show ?case
      using Cons.IH [of "Suc i"] compileRule_Inr_iff [of sv i rule]
      by (auto split: sum.splits)
  qed simp
  then show ?thesis by (simp add: compileRules_def)
qed

section \<open>Environment mappings become replacements\<close>

text \<open>Resolution only appends replacements to the canonical rules.\<close>

definition ruleExt :: "ProxyPlaceholderReplacement set \<Rightarrow> ProxyRule \<Rightarrow> ProxyRule \<Rightarrow> bool" where
  "ruleExt R r r' \<longleftrightarrow>
     (\<exists>ext. set ext \<subseteq> R \<and> r' = r\<lparr>pr_ReplacePlaceholder := pr_ReplacePlaceholder r @ ext\<rparr>)"

definition extendsBy :: "ProxyPlaceholderReplacement set \<Rightarrow> ProxyRule list \<Rightarrow> ProxyRule list \<Rightarrow> bool" where
  "extendsBy R = list_all2 (ruleExt R)"

lemma ruleExt_refl: "ruleExt R r r"
  unfolding ruleExt_def by (rule exI [of _ "[]"]) simp

lemma ruleExt_trans:
  assumes "ruleExt R r r'" and "ruleExt S r' r''" and "R \<union> S \<subseteq> T"
  shows "ruleExt T r r''"
proof -
  from assms(1) obtain a where a: "set a \<subseteq> R"
    "r' = r\<lparr>pr_ReplacePlaceholder := pr_ReplacePlaceholder r @ a\<rparr>" unfolding ruleExt_def by blast
  from assms(2) obtain b where b: "set b \<subseteq> S"
    "r'' = r'\<lparr>pr_ReplacePlaceholder := pr_ReplacePlaceholder r' @ b\<rparr>" unfolding ruleExt_def by blast
  have "r'' = r\<lparr>pr_ReplacePlaceholder := pr_ReplacePlaceholder r @ (a @ b)\<rparr>"
    unfolding b(2) a(2) by simp
  moreover have "set (a @ b) \<subseteq> T" using a(1) b(1) assms(3) by auto
  ultimately show ?thesis unfolding ruleExt_def by blast
qed

lemma extendsBy_refl: "extendsBy R rs rs"
  unfolding extendsBy_def by (rule list_all2_refl) (rule ruleExt_refl)

lemma extendsBy_trans:
  assumes "extendsBy R rs rs'" and "extendsBy S rs' rs''" and "R \<union> S \<subseteq> T"
  shows "extendsBy T rs rs''"
  using list_all2_trans [of "ruleExt R" "ruleExt S" "ruleExt T" rs rs' rs''] assms ruleExt_trans
  unfolding extendsBy_def by blast

lemma extendsBy_length: "extendsBy R rs rs' \<Longrightarrow> length rs' = length rs"
  by (simp add: extendsBy_def list_all2_lengthD)

lemma extendsBy_nth:
  assumes "extendsBy R rs rs'" and "i < length rs"
  obtains ext where "set ext \<subseteq> R"
    "rs' ! i = (rs ! i)\<lparr>pr_ReplacePlaceholder := pr_ReplacePlaceholder (rs ! i) @ ext\<rparr>"
  using list_all2_nthD [OF assms(1) [unfolded extendsBy_def] assms(2)] that
  unfolding ruleExt_def by blast

lemma extendsBy_keeps:
  assumes "extendsBy R rs rs'" and "i < length rs"
  shows "set (pr_ReplacePlaceholder (rs ! i)) \<subseteq> set (pr_ReplacePlaceholder (rs' ! i))"
    and "pr_Name (rs' ! i) = pr_Name (rs ! i)"
  by (rule extendsBy_nth [OF assms]; simp)+

lemma extendsBy_update:
  assumes "repl \<in> R"
  shows "extendsBy R rs (rs[i := (rs ! i)\<lparr>pr_ReplacePlaceholder := pr_ReplacePlaceholder (rs ! i) @ [repl]\<rparr>])"
proof -
  have "ruleExt R (rs ! k) (rs[i := (rs ! i)\<lparr>pr_ReplacePlaceholder := pr_ReplacePlaceholder (rs ! i) @ [repl]\<rparr>] ! k)"
    if "k < length rs" for k
  proof (cases "k = i")
    case True
    with assms that show ?thesis unfolding ruleExt_def by (intro exI [of _ "[repl]"]) simp
  qed (simp add: ruleExt_refl)
  then show ?thesis unfolding extendsBy_def list_all2_conv_all_nth by simp
qed

lemma addReplacement_ok:
  assumes "\<And>n. n \<in> set names \<Longrightarrow> \<exists>i < length rs. map_of index n = Some i"
  shows "\<exists>rs'. addReplacement index en repl names rs = Inr rs' \<and> extendsBy {repl} rs rs' \<and>
    (\<forall>n \<in> set names. repl \<in> set (pr_ReplacePlaceholder (rs' ! the (map_of index n))))"
  using assms
proof (induction names arbitrary: rs)
  case (Cons n names)
  from Cons.prems [of n] obtain i where i: "i < length rs" "map_of index n = Some i" by auto
  let ?rs = "rs[i := (rs ! i)\<lparr>pr_ReplacePlaceholder := pr_ReplacePlaceholder (rs ! i) @ [repl]\<rparr>]"
  obtain rs' where rs': "addReplacement index en repl names ?rs = Inr rs'" "extendsBy {repl} ?rs rs'"
    "\<forall>n \<in> set names. repl \<in> set (pr_ReplacePlaceholder (rs' ! the (map_of index n)))"
    using Cons.IH [of ?rs] Cons.prems by auto
  have "extendsBy {repl} rs ?rs" by (rule extendsBy_update) simp
  then have "extendsBy {repl} rs rs'" using extendsBy_trans rs'(2) by blast
  moreover have "repl \<in> set (pr_ReplacePlaceholder (rs' ! i))"
    using extendsBy_keeps(1) [OF rs'(2), of i] i by auto
  ultimately show ?case using rs' i by auto
qed (simp add: extendsBy_refl)


abbreviation envReplacement :: "gostr \<Rightarrow> ProxyEnv \<Rightarrow> ProxyPlaceholderReplacement" where
  "envReplacement ph e \<equiv> \<lparr>pp_Placeholder = ph, pp_Secret = pe_Secret e, pp_In = pe_In e\<rparr>"

lemma resolveEnvs_ok:
  assumes "\<forall>e \<in> set es. \<forall>n \<in> set (pe_Rules e). \<exists>i < length rs. map_of index n = Some i"
  shows "(case resolveEnvs env index es rs vals of
      Inl er \<Rightarrow> \<exists>e \<in> set es. er = PlaceholderFailed (pe_Name e)
    | Inr (rs', vals') \<Rightarrow>
        extendsBy {envReplacement ph e | ph e. e \<in> set es} rs rs' \<and>
        (\<forall>e \<in> set es. \<exists>ph. stableProxyPlaceholder env e = Some ph \<and>
          (\<forall>n \<in> set (pe_Rules e).
             envReplacement ph e \<in> set (pr_ReplacePlaceholder (rs' ! the (map_of index n))))))"
  using assms
proof (induction es arbitrary: rs vals)
  case (Cons e es)
  show ?case
  proof (cases "stableProxyPlaceholder env e")
    case (Some ph)
    let ?repl = "envReplacement ph e"
    obtain rs1 where rs1: "addReplacement index (pe_Name e) ?repl (pe_Rules e) rs = Inr rs1"
      "extendsBy {?repl} rs rs1"
      "\<forall>n \<in> set (pe_Rules e). ?repl \<in> set (pr_ReplacePlaceholder (rs1 ! the (map_of index n)))"
      using addReplacement_ok [of "pe_Rules e" rs index] Cons.prems by fastforce
    note len = extendsBy_length [OF rs1(2)]
    have "\<forall>e \<in> set es. \<forall>n \<in> set (pe_Rules e). \<exists>i < length rs1. map_of index n = Some i"
      using Cons.prems len by simp
    note IH = Cons.IH [OF this, of "AList.update (pe_Name e) ph vals"]
    show ?thesis
    proof (cases "resolveEnvs env index es rs1 (AList.update (pe_Name e) ph vals)")
      case (Inl er)
      with IH Some rs1(1) show ?thesis by auto
    next
      case (Inr res)
      obtain rs' vals' where res: "res = (rs', vals')" by (cases res)
      from IH have ext: "extendsBy {envReplacement ph e | ph e. e \<in> set es} rs1 rs'"
        and rest: "\<forall>e \<in> set es. \<exists>ph. stableProxyPlaceholder env e = Some ph \<and>
          (\<forall>n \<in> set (pe_Rules e). envReplacement ph e \<in> set (pr_ReplacePlaceholder (rs' ! the (map_of index n))))"
        by (simp_all add: Inr res)
      have "extendsBy {envReplacement ph e' | ph e'. e' \<in> set (e # es)} rs rs'"
        by (rule extendsBy_trans [OF rs1(2) ext]) auto
      moreover have "?repl \<in> set (pr_ReplacePlaceholder (rs' ! the (map_of index n)))"
        if n: "n \<in> set (pe_Rules e)" for n
      proof -
        obtain i where "i < length rs1" "map_of index n = Some i" using Cons.prems n len by auto
        with extendsBy_keeps(1) [OF ext, of i] rs1(3) n show ?thesis by fastforce
      qed
      ultimately show ?thesis using rest Some rs1(1) by (simp add: Inr res)
    qed
  qed simp
qed (simp add: extendsBy_refl)

lemma resolveEnvs_values:
  "resolveEnvs env index es rs vals = Inr (rs', vals') \<Longrightarrow> distinct (map pe_Name es) \<Longrightarrow>
   (\<forall>e \<in> set es. map_of vals' (pe_Name e) = stableProxyPlaceholder env e) \<and>
   (\<forall>k. k \<notin> pe_Name ` set es \<longrightarrow> map_of vals' k = map_of vals k)"
proof (induction es arbitrary: rs vals)
  case (Cons e es)
  from Cons.prems(1) obtain ph rs1 where ph: "stableProxyPlaceholder env e = Some ph"
    and rest: "resolveEnvs env index es rs1 (AList.update (pe_Name e) ph vals) = Inr (rs', vals')"
    by (auto split: option.splits sum.splits)
  from Cons.IH [OF rest] Cons.prems(2) ph show ?case by (auto simp: update_conv')
qed simp

lemma ruleIndexByName_lookup:
  assumes "n \<noteq> []" and "n \<in> (\<lambda>r. trimSpace (pr_Name r)) ` set rules"
  shows "\<exists>i < length rules. map_of (ruleIndexByName rules) n = Some i \<and> trimSpace (pr_Name (rules ! i)) = n"
proof -
  let ?f = "\<lambda>m (i, rule). let name = trimSpace (pr_Name rule) in
              if name = [] then m else AList.update name i m"
  have *: "(\<exists>i rule. (i, rule) \<in> set xs \<and> trimSpace (pr_Name rule) = n \<and> map_of (foldl ?f m xs) n = Some i) \<or>
      (n \<notin> (\<lambda>(i, rule). trimSpace (pr_Name rule)) ` set xs \<and> map_of (foldl ?f m xs) n = map_of m n)"
    for xs :: "(nat \<times> ProxyRule) list" and m
  proof (induction xs arbitrary: m)
    case (Cons x xs)
    obtain i r where x: "x = (i, r)" by (cases x)
    show ?case
      using Cons.IH [of "?f m (i, r)"] assms(1) by (auto simp: x Let_def update_conv' split: if_splits)
  qed simp
  have snds: "snd ` set (enumerate 0 rules) = set rules"
    using map_snd_enumerate [of 0 rules] by (metis set_map)
  from assms(2) have "n \<in> (\<lambda>(i, rule). trimSpace (pr_Name rule)) ` set (enumerate 0 rules)"
    unfolding snds [symmetric] by force
  with * [of "enumerate 0 rules" "[]"] obtain i rule where
    "(i, rule) \<in> set (enumerate 0 rules)" "trimSpace (pr_Name rule) = n"
    "map_of (ruleIndexByName rules) n = Some i"
    unfolding ruleIndexByName_def by blast
  then show ?thesis by (auto simp: in_set_enumerate_eq)
qed


section \<open>A validated policy resolves and compiles\<close>

lemma valid_policy:
  assumes "Validate cfg = None"
  obtains declared where "NormalizedSecrets (cf_Proxy cfg) = Inr declared"
    "\<forall>r \<in> set (NormalizedRules (cf_Proxy cfg)). ruleOK declared r"
    "distinct (map pe_Name (NormalizedEnv (cf_Proxy cfg)))"
    "\<forall>e \<in> set (NormalizedEnv (cf_Proxy cfg)). envOK declared (NormalizedRules (cf_Proxy cfg)) e"
  using assms Validate_decides [of cfg] by (auto simp: policyOK_def list_all_iff split: sum.splits)

lemma canonical_names:
  "r \<in> set (NormalizedRules p) \<Longrightarrow> trimSpace (pr_Name r) = pr_Name r"
  "e \<in> set (NormalizedEnv p) \<Longrightarrow> n \<in> set (pe_Rules e) \<Longrightarrow> n \<noteq> []"
  by (auto simp: NormalizedRules_def normalizeRule_def NormalizedEnv_def normalizeEnv_def Let_def
      dest: normalizeList_trimmed)

lemma env_rules_indexed:
  assumes "e \<in> set (NormalizedEnv p)" and "envOK declared (NormalizedRules p) e" and "n \<in> set (pe_Rules e)"
  shows "\<exists>i < length (NormalizedRules p). map_of (ruleIndexByName (NormalizedRules p)) n = Some i \<and>
    pr_Name (NormalizedRules p ! i) = n"
proof -
  have "length (filter (\<lambda>r. pr_Name r = n) (NormalizedRules p)) = 1"
    using assms(2,3) by (simp add: envOK_def list_all_iff)
  then have "filter (\<lambda>r. pr_Name r = n) (NormalizedRules p) \<noteq> []" by auto
  then obtain r where r: "r \<in> set (NormalizedRules p)" "pr_Name r = n" by (auto simp: filter_empty_conv)
  then have "n \<in> (\<lambda>r. trimSpace (pr_Name r)) ` set (NormalizedRules p)"
    using canonical_names(1) [OF r(1)] by force
  from ruleIndexByName_lookup [OF canonical_names(2) [OF assms(1,3)] this] show ?thesis
    using canonical_names(1) nth_mem by metis
qed

lemma ResolveRuntimeE:
  assumes "ResolveRuntime env cfg = Inr rt"
  obtains declared where "Validate cfg = None" "NormalizedSecrets (cf_Proxy cfg) = Inr declared"
    "resolveSecretValues env [] declared = Inr (rt_SecretValues rt)"
    "resolveProxyRuleRuntime env (NormalizedRules (cf_Proxy cfg)) (NormalizedEnv (cf_Proxy cfg)) =
       Inr (rt_Rules rt, rt_EnvValues rt)"
  using assms by (auto simp: ResolveRuntime_def split: option.splits sum.splits prod.splits)

lemma resolved_rules:
  assumes "Validate cfg = None" and "NormalizedSecrets (cf_Proxy cfg) = Inr declared"
    and "resolveProxyRuleRuntime env (NormalizedRules (cf_Proxy cfg)) (NormalizedEnv (cf_Proxy cfg)) =
      Inr (rs, vals)"
  shows "extendsBy {repl. aliasDeclared declared (pp_Secret repl)} (NormalizedRules (cf_Proxy cfg)) rs"
    and "e \<in> set (NormalizedEnv (cf_Proxy cfg)) \<Longrightarrow>
      \<exists>ph. stableProxyPlaceholder env e = Some ph \<and> map_of vals (pe_Name e) = Some ph \<and>
        (\<forall>n \<in> set (pe_Rules e). \<exists>i < length rs. pr_Name (rs ! i) = n \<and>
          envReplacement ph e \<in> set (pr_ReplacePlaceholder (rs ! i)))"
proof -
  let ?rules = "NormalizedRules (cf_Proxy cfg)" and ?envs = "NormalizedEnv (cf_Proxy cfg)"
  let ?index = "ruleIndexByName ?rules"
  from valid_policy [OF assms(1)] assms(2)
  have envs: "\<forall>e \<in> set ?envs. envOK declared ?rules e" and names: "distinct (map pe_Name ?envs)" by auto
  have pre: "\<forall>e \<in> set ?envs. \<forall>n \<in> set (pe_Rules e). \<exists>i < length ?rules. map_of ?index n = Some i"
    using envs env_rules_indexed by blast
  show ext: "extendsBy {repl. aliasDeclared declared (pp_Secret repl)} ?rules rs"
  proof (cases "?envs = []")
    case True
    with assms(3) show ?thesis by (simp add: resolveProxyRuleRuntime_def extendsBy_refl)
  next
    case False
    with assms(3) have "resolveEnvs env ?index ?envs ?rules [] = Inr (rs, vals)"
      by (simp add: resolveProxyRuleRuntime_def)
    with resolveEnvs_ok [OF pre, of env "[]"]
    have "extendsBy {envReplacement ph e | ph e. e \<in> set ?envs} ?rules rs" by simp
    then show ?thesis
      by (rule extendsBy_trans [OF extendsBy_refl]) (use envs in \<open>auto simp: envOK_def\<close>)
  qed
  assume e: "e \<in> set ?envs"
  then have run: "resolveEnvs env ?index ?envs ?rules [] = Inr (rs, vals)"
    using assms(3) by (auto simp: resolveProxyRuleRuntime_def split: if_splits)
  from resolveEnvs_ok [OF pre, of env "[]"] run e obtain ph where
    ph: "stableProxyPlaceholder env e = Some ph"
      "\<forall>n \<in> set (pe_Rules e). envReplacement ph e \<in> set (pr_ReplacePlaceholder (rs ! the (map_of ?index n)))"
    by auto
  have "\<exists>i < length rs. pr_Name (rs ! i) = n \<and> envReplacement ph e \<in> set (pr_ReplacePlaceholder (rs ! i))"
    if n: "n \<in> set (pe_Rules e)" for n
  proof -
    obtain i where "i < length ?rules" "map_of ?index n = Some i" "pr_Name (?rules ! i) = n"
      using env_rules_indexed [OF e _ n] envs e by blast
    with extendsBy_keeps(2) [OF ext] extendsBy_length [OF ext] ph(2) n show ?thesis
      by (intro exI [of _ i]) auto
  qed
  with ph(1) resolveEnvs_values [OF run names] e show
    "\<exists>ph. stableProxyPlaceholder env e = Some ph \<and> map_of vals (pe_Name e) = Some ph \<and>
        (\<forall>n \<in> set (pe_Rules e). \<exists>i < length rs. pr_Name (rs ! i) = n \<and>
          envReplacement ph e \<in> set (pr_ReplacePlaceholder (rs ! i)))" by auto
qed

text \<open>
  Every environment mapping of an accepted policy takes effect: the variable gets the
  mapping's placeholder as its value, and each rule the mapping names substitutes that
  placeholder by the mapping's secret in the places the mapping lists.
\<close>

theorem resolved_env_mapping:
  assumes "ResolveRuntime env cfg = Inr rt" and "e \<in> set (NormalizedEnv (cf_Proxy cfg))"
  shows "\<exists>ph. stableProxyPlaceholder env e = Some ph \<and> map_of (rt_EnvValues rt) (pe_Name e) = Some ph \<and>
    (\<forall>n \<in> set (pe_Rules e). \<exists>rule \<in> set (rt_Rules rt). pr_Name rule = n \<and>
      \<lparr>pp_Placeholder = ph, pp_Secret = pe_Secret e, pp_In = pe_In e\<rparr> \<in> set (pr_ReplacePlaceholder rule))"
proof -
  from assms(1) obtain declared where d: "Validate cfg = None"
    "NormalizedSecrets (cf_Proxy cfg) = Inr declared"
    "resolveProxyRuleRuntime env (NormalizedRules (cf_Proxy cfg)) (NormalizedEnv (cf_Proxy cfg)) =
       Inr (rt_Rules rt, rt_EnvValues rt)"
    by (rule ResolveRuntimeE)
  from resolved_rules(2) [OF d assms(2)] show ?thesis by (metis nth_mem)
qed

text \<open>The two conditions validation leaves to the proxy: a host that is not only dots and
  brackets, and templates that name declared secrets.\<close>

definition servable :: "gostr list \<Rightarrow> ProxyRule \<Rightarrow> bool" where
  "servable declared rule \<longleftrightarrow>
     list_ex (\<lambda>h. normalizeHostForMatch h \<noteq> []) (pr_MatchHosts rule) \<and>
     list_all (\<lambda>(k, v). list_all (\<lambda>a. a \<in> set declared) (templateAliases v)) (pr_SetHeader rule)"

lemma ruleOK_compilable:
  assumes sv: "\<And>a. secretOf sv a \<noteq> [] \<longleftrightarrow> a \<in> set declared"
    and ok: "ruleOK declared r" and canon: "\<And>k v. (k, v) \<in> set (pr_SetHeader r) \<Longrightarrow> canonHeader k"
    and user: "\<And>b. pr_SetBasicAuth r = Some b \<Longrightarrow> trimSpace (ba_Username b) = ba_Username b"
    and ext: "ruleExt {repl. aliasDeclared declared (pp_Secret repl)} r r'"
  shows "compilable sv (toProxyRule r') \<longleftrightarrow> servable declared r"
proof -
  from ext obtain ex where ex: "set ex \<subseteq> {repl. aliasDeclared declared (pp_Secret repl)}"
    "r' = r\<lparr>pr_ReplacePlaceholder := pr_ReplacePlaceholder r @ ex\<rparr>" unfolding ruleExt_def by blast
  have names: "trimSpace k \<noteq> []" if "(k, v) \<in> set (pr_SetHeader r)" for k v
    using canon [OF that] ok that unfolding canonHeader_def ruleOK_def map_of_None_set by metis
  have repls: "secretOf sv (toLower (trimSpace (pp_Secret repl))) \<noteq> []"
    if "repl \<in> set (pr_ReplacePlaceholder r @ ex)" for repl
    using that ok ex(1) unfolding sv by (auto simp: ruleOK_def list_all_iff replacementOK_def aliasDeclared_def)
  have basic: "trimSpace (ba_Username b) \<noteq> [] \<and> secretOf sv (toLower (trimSpace (ba_Secret b))) \<noteq> [] \<and>
      \<not> hasAuthorizationHeader (pr_SetHeader r)" if b: "pr_SetBasicAuth r = Some b" for b
  proof -
    have "basicAuthOK declared r b" using ok b by (simp add: ruleOK_def)
    moreover have "\<not> hasAuthorizationHeader (pr_SetHeader r)"
      if "map_of (pr_SetHeader r) (lit ''Authorization'') = None"
      using that canon unfolding map_of_None_set hasAuthorizationHeader_def list_ex_iff canonHeader_def
      by force
    ultimately show ?thesis using user [OF b] unfolding sv by (simp add: basicAuthOK_def aliasDeclared_def)
  qed
  have sel: "rule_MatchHosts (toProxyRule r') = pr_MatchHosts r" "rule_SetHeader (toProxyRule r') = pr_SetHeader r"
    "rule_SetBasicAuth (toProxyRule r') = cloneBasicAuth (pr_SetBasicAuth r)"
    "rule_ReplacePlaceholder (toProxyRule r') = clonePlaceholderReplacements (pr_ReplacePlaceholder r @ ex)"
    by (simp_all add: toProxyRule_def ex(2))
  have p1: "pred_option (\<lambda>b. trimSpace (bauth_Username b) \<noteq> [] \<and>
        secretOf sv (toLower (trimSpace (bauth_Secret b))) \<noteq> [] \<and>
        \<not> hasAuthorizationHeader (pr_SetHeader r)) (cloneBasicAuth (pr_SetBasicAuth r))"
    using basic by (cases "pr_SetBasicAuth r") (auto simp: cloneBasicAuth_def)
  have p2: "\<forall>rp \<in> set (clonePlaceholderReplacements (pr_ReplacePlaceholder r @ ex)).
      secretOf sv (toLower (trimSpace (repl_Secret rp))) \<noteq> []"
    using repls by (auto simp: clonePlaceholderReplacements_def)
  show ?thesis
    unfolding compilable_def sel servable_def using p1 p2 names
    by (auto simp: sv list_ex_iff list_all_iff)
qed

text \<open>
  C27: what validation promises the data plane.  The rules of an accepted and resolved policy
  compile exactly when every rule has a host that survives host normalization and every
  template names declared secrets: no other compile error is possible.
\<close>

theorem resolved_policy_compiles_iff:
  assumes "ResolveRuntime env cfg = Inr rt"
  shows "(\<exists>cs. compileRules (toProxyRules (rt_Rules rt)) (rt_SecretValues rt) = Inr cs) \<longleftrightarrow>
    list_all (servable (projr (NormalizedSecrets (cf_Proxy cfg)))) (NormalizedRules (cf_Proxy cfg))"
proof -
  let ?rules = "NormalizedRules (cf_Proxy cfg)"
  from assms obtain declared where d: "Validate cfg = None"
    "NormalizedSecrets (cf_Proxy cfg) = Inr declared"
    "resolveSecretValues env [] declared = Inr (rt_SecretValues rt)"
    "resolveProxyRuleRuntime env ?rules (NormalizedEnv (cf_Proxy cfg)) =
       Inr (rt_Rules rt, rt_EnvValues rt)"
    by (rule ResolveRuntimeE)
  note ext = resolved_rules(1) [OF d(1,2,4)]
  have each: "compilable (rt_SecretValues rt) (toProxyRule (rt_Rules rt ! i)) \<longleftrightarrow> servable declared (?rules ! i)"
    if i: "i < length ?rules" for i
  proof (rule ruleOK_compilable)
    have r: "?rules ! i \<in> set ?rules" using i by simp
    then obtain r0 where r0: "?rules ! i = normalizeRule r0" by (auto simp: NormalizedRules_def)
    show "ruleOK declared (?rules ! i)" using valid_policy [OF d(1)] d(2) r by auto
    show "canonHeader k" if "(k, v) \<in> set (pr_SetHeader (?rules ! i))" for k v
      using that normalizeHeaders_canon by (auto simp: r0 normalizeRule_def)
    show "trimSpace (ba_Username b) = ba_Username b" if "pr_SetBasicAuth (?rules ! i) = Some b" for b
      using that by (auto simp: r0 normalizeRule_def normalizeBasicAuth_def)
    show "ruleExt {repl. aliasDeclared declared (pp_Secret repl)} (?rules ! i) (rt_Rules rt ! i)"
      using ext i unfolding extendsBy_def by (rule list_all2_nthD)
  qed (rule secretOf_declared [OF d(3)])
  show ?thesis
    unfolding compileRules_Inr_iff toProxyRules_def using each extendsBy_length [OF ext] d(2)
    by (simp add: list_all_length all_set_conv_all_nth)
qed


section \<open>Example\<close>

definition sampleEnv :: host_env where
  "sampleEnv =
     \<lparr>he_getenv = (\<lambda>n. if n = lit ''GH_TOKEN'' then lit ''s3cret'' else []), he_readFile = (\<lambda>p. None),
      he_placeholderSum = (\<lambda>(n, s, rs, ps). Some (lit ''00'')), he_revisionSum = (\<lambda>v. Some (lit ''rev''))\<rparr>"

definition samplePolicy :: Config where
  "samplePolicy =
     \<lparr>cf_SchemaVersion = 1,
      cf_Proxy =
        \<lparr>px_NoProxy = [], px_SetLowercaseProxyEnv = False, px_Secrets = [lit ''gh-token''],
         px_Env = [\<lparr>pe_Name = lit ''TOKEN'', pe_Secret = lit ''gh-token'', pe_Rules = [lit ''api''], pe_In = []\<rparr>],
         px_Rules =
           [\<lparr>pr_Name = lit ''api'', pr_MatchHosts = [lit ''api.example.com''], pr_MatchPathPrefixes = [],
             pr_SetHeader = [(lit ''x-key'', lit ''{{secret.gh-token}}'')], pr_SetBasicAuth = None,
             pr_ReplacePlaceholder = []\<rparr>]\<rparr>\<rparr>"

lemma sample_resolves: "ResolveRuntime sampleEnv samplePolicy = Inr (projr (ResolveRuntime sampleEnv samplePolicy))"
  by code_simp

theorem resolved_env_mapping_witness:
  "\<exists>ph. map_of (rt_EnvValues (projr (ResolveRuntime sampleEnv samplePolicy))) (lit ''TOKEN'') = Some ph \<and>
     (\<exists>rule \<in> set (rt_Rules (projr (ResolveRuntime sampleEnv samplePolicy))).
        pr_ReplacePlaceholder rule \<noteq> [])"
proof -
  let ?e = "\<lparr>pe_Name = lit ''TOKEN'', pe_Secret = lit ''gh-token'', pe_Rules = [lit ''api''], pe_In = [lit ''header'']\<rparr>"
  have "NormalizedEnv (cf_Proxy samplePolicy) = [?e]" by code_simp
  then have "?e \<in> set (NormalizedEnv (cf_Proxy samplePolicy))" by simp
  from resolved_env_mapping [OF sample_resolves this] show ?thesis
    by (auto intro!: bexI [where P = "\<lambda>r. pr_ReplacePlaceholder r \<noteq> []"])
qed

theorem resolved_policy_compiles_iff_witness:
  "\<exists>cs. compileRules (toProxyRules (rt_Rules (projr (ResolveRuntime sampleEnv samplePolicy))))
     (rt_SecretValues (projr (ResolveRuntime sampleEnv samplePolicy))) = Inr cs"
proof -
  have "list_all (servable (projr (NormalizedSecrets (cf_Proxy samplePolicy))))
      (NormalizedRules (cf_Proxy samplePolicy))" by code_simp
  with resolved_policy_compiles_iff [OF sample_resolves] show ?thesis by blast
qed

end
