(* ===== verification/Exec_Session.thy ===== *)
theory Exec_Session
  imports Go_Prelude "HOL-Library.Word" "HOL-Library.Sublist"
begin

text \<open>
  The session manager of the execution service, \<open>systems/exec/internal/service\<close>:
  \<open>manager.go\<close>, the pure parts of \<open>local_executor.go\<close> and the error mapping of \<open>grpc.go\<close>.
  What the operating system answers (the executor's start, reads of a stream, writes to and the
  close of stdin, the result of \<open>Wait\<close>, the clock) is an explicit argument of the operation
  that asks for it.  Each critical section of a session is one function on \<open>managedSession\<close>;
  the goroutines that run them concurrently are the step relation \<open>session_step\<close>.
\<close>

section \<open>Data\<close>

datatype SessionState =
  STATE_UNSPECIFIED | STARTING | RUNNING | EXITED | TERMINATING | TERMINATED | FAILED

datatype event_payload =
    Started gostr | Stdout "int list" | Stderr "int list" | StdinClosed | Exited int
  | Terminated gostr bool

record SessionEvent =
  ev_EventIndex :: int
  ev_OccurredAt :: time
  ev_Event :: event_payload

text \<open>Which handles of a running command are non-nil.\<close>

record RunningCommand =
  rc_Stdin :: bool
  rc_Stdout :: bool
  rc_Stderr :: bool
  rc_Wait :: bool
  rc_Terminate :: bool

record CommandRequest =
  rq_Command :: gostr
  rq_Packages :: "gostr list"
  rq_WorkingDir :: gostr
  rq_Env :: "gostr list"

record managedSession =
  ms_id :: gostr
  ms_command :: gostr
  ms_packages :: "gostr list"
  ms_workingDir :: gostr
  ms_process :: "RunningCommand option"
  ms_streams :: nat
  ms_stdinOpen :: bool
  ms_state :: SessionState
  ms_startedAt :: time
  ms_finishedAt :: time
  ms_exitCode :: int
  ms_hasExitCode :: bool
  ms_terminationReason :: gostr
  ms_terminateForce :: bool
  ms_events :: "SessionEvent list"
  ms_nextEventIndex :: int

record Session =
  se_SessionId :: gostr
  se_Command :: gostr
  se_Packages :: "gostr list"
  se_WorkingDir :: gostr
  se_StdinOpen :: bool
  se_State :: SessionState
  se_NextEventIndex :: int
  se_HasExitCode :: bool
  se_ExitCode :: int
  se_TerminationReason :: gostr
  se_StartedAt :: "time option"
  se_FinishedAt :: "time option"

record Manager =
  mg_defaultWorkingDir :: gostr
  mg_defaultEnv :: "gostr list"
  mg_sessions :: "managedSession gomap"
  mg_nextID :: "64 word"

datatype exec_error =
    SessionNotFound | SessionIDRequired | CommandRequired | WorkingDirRequired | AfterEventIndexNegative
  | SessionStdinClosed | WriteStdinFailed gostr | CloseStdinFailed gostr | CloseSessionStdinFailed gostr
  | TerminateFailed gostr | ExecutorFailed gostr | ContextError gostr | CallbackError gostr
  | ExecutorRequired | DefaultWorkingDirRequired

section \<open>Events of one session\<close>

definition newStartedEvent :: "gostr \<Rightarrow> int \<Rightarrow> time \<Rightarrow> SessionEvent" where
  "newStartedEvent sessionID i at = \<lparr>ev_EventIndex = i, ev_OccurredAt = at, ev_Event = Started sessionID\<rparr>"

definition newStdoutEvent :: "int \<Rightarrow> time \<Rightarrow> int list \<Rightarrow> SessionEvent" where
  "newStdoutEvent i at data = \<lparr>ev_EventIndex = i, ev_OccurredAt = at, ev_Event = Stdout data\<rparr>"

definition newStderrEvent :: "int \<Rightarrow> time \<Rightarrow> int list \<Rightarrow> SessionEvent" where
  "newStderrEvent i at data = \<lparr>ev_EventIndex = i, ev_OccurredAt = at, ev_Event = Stderr data\<rparr>"

definition newStdinClosedEvent :: "int \<Rightarrow> time \<Rightarrow> SessionEvent" where
  "newStdinClosedEvent i at = \<lparr>ev_EventIndex = i, ev_OccurredAt = at, ev_Event = StdinClosed\<rparr>"

definition newExitedEvent :: "int \<Rightarrow> time \<Rightarrow> int \<Rightarrow> SessionEvent" where
  "newExitedEvent i at code = \<lparr>ev_EventIndex = i, ev_OccurredAt = at, ev_Event = Exited code\<rparr>"

definition newTerminatedEvent :: "int \<Rightarrow> time \<Rightarrow> gostr \<Rightarrow> bool \<Rightarrow> SessionEvent" where
  "newTerminatedEvent i at reason force =
     \<lparr>ev_EventIndex = i, ev_OccurredAt = at, ev_Event = Terminated reason force\<rparr>"

definition isTerminalEvent :: "SessionEvent \<Rightarrow> bool" where
  "isTerminalEvent e =
     (case ev_Event e of Exited _ \<Rightarrow> True | Terminated _ _ \<Rightarrow> True | _ \<Rightarrow> False)"

definition isTerminalState :: "SessionState \<Rightarrow> bool" where
  "isTerminalState st = (case st of EXITED \<Rightarrow> True | TERMINATED \<Rightarrow> True | FAILED \<Rightarrow> True | _ \<Rightarrow> False)"

definition isTerminalLocked :: "managedSession \<Rightarrow> bool" where
  "isTerminalLocked s = isTerminalState (ms_state s)"

definition appendEventLocked :: "SessionEvent \<Rightarrow> managedSession \<Rightarrow> managedSession" where
  "appendEventLocked e s =
     s\<lparr>ms_events := ms_events s @ [e], ms_nextEventIndex := ev_EventIndex e + 1\<rparr>"

definition markStdinClosed :: "time \<Rightarrow> managedSession \<Rightarrow> managedSession" where
  "markStdinClosed now s =
     (if \<not> ms_stdinOpen s then s
      else let s = s\<lparr>ms_stdinOpen := False\<rparr>
           in appendEventLocked (newStdinClosedEvent (ms_nextEventIndex s) now) s)"

definition appendOutput :: "time \<Rightarrow> int list \<Rightarrow> bool \<Rightarrow> managedSession \<Rightarrow> managedSession" where
  "appendOutput now data stdout s =
     (if stdout then appendEventLocked (newStdoutEvent (ms_nextEventIndex s) now data) s
      else appendEventLocked (newStderrEvent (ms_nextEventIndex s) now data) s)"

definition snapshotLocked :: "managedSession \<Rightarrow> Session" where
  "snapshotLocked s =
     \<lparr>se_SessionId = ms_id s, se_Command = ms_command s, se_Packages = ms_packages s,
      se_WorkingDir = ms_workingDir s, se_StdinOpen = ms_stdinOpen s, se_State = ms_state s,
      se_NextEventIndex = ms_nextEventIndex s, se_HasExitCode = ms_hasExitCode s,
      se_ExitCode = ms_exitCode s, se_TerminationReason = ms_terminationReason s,
      se_StartedAt = (if ms_startedAt s \<noteq> 0 then Some (ms_startedAt s) else None),
      se_FinishedAt = (if ms_finishedAt s \<noteq> 0 then Some (ms_finishedAt s) else None)\<rparr>"

definition eventsAfter :: "int \<Rightarrow> managedSession \<Rightarrow> SessionEvent list \<times> bool" where
  "eventsAfter after s = (filter (\<lambda>e. \<not> ev_EventIndex e \<le> after) (ms_events s), isTerminalLocked s)"

text \<open>The condition on which \<open>waitForUpdate\<close> returns.\<close>

definition waitForUpdate :: "gostr option \<Rightarrow> int \<Rightarrow> managedSession \<Rightarrow> bool" where
  "waitForUpdate ctxErr after s \<longleftrightarrow>
     ctxErr \<noteq> None \<or> (ms_events s \<noteq> [] \<and> after < ev_EventIndex (last (ms_events s))) \<or> isTerminalLocked s"

section \<open>The goroutines of a session\<close>

datatype read_error = ReadOK | ReadEOF | ReadError gostr

text \<open>\<open>int32(x)\<close> of an integer.\<close>

definition int32_of :: "int \<Rightarrow> int" where
  "int32_of n = (n + 2147483648) mod 4294967296 - 2147483648"

text \<open>The error of \<open>Wait\<close>: nil, an exit status that is a signal or a code, or any other error.\<close>

datatype wait_error = WaitOK | WaitSignaled int | WaitExitCode int gostr | WaitOther gostr

definition exitCodeFromWait :: "wait_error \<Rightarrow> int \<times> bool" where
  "exitCodeFromWait e =
     (case e of
        WaitOK \<Rightarrow> (0, True)
      | WaitSignaled sig \<Rightarrow> (int32_of (- int32_of sig), True)
      | WaitExitCode code msg \<Rightarrow> (int32_of code, True)
      | WaitOther msg \<Rightarrow> (0, False))"

definition waitForExit :: "wait_error \<Rightarrow> time \<Rightarrow> managedSession \<Rightarrow> managedSession" where
  "waitForExit e now s =
     (let (exitCode, hasExitCode) = exitCodeFromWait e;
          s = s\<lparr>ms_finishedAt := now, ms_exitCode := exitCode, ms_hasExitCode := hasExitCode\<rparr> in
      if ms_state s = TERMINATING
      then let s = s\<lparr>ms_state := TERMINATED\<rparr>
           in appendEventLocked
                (newTerminatedEvent (ms_nextEventIndex s) now (ms_terminationReason s) (ms_terminateForce s)) s
      else case e of
          WaitOther msg \<Rightarrow>
            (let s = s\<lparr>ms_state := FAILED, ms_terminationReason := msg\<rparr>
             in appendEventLocked (newTerminatedEvent (ms_nextEventIndex s) now msg False) s)
        | _ \<Rightarrow>
            (let s = s\<lparr>ms_state := EXITED\<rparr>
             in appendEventLocked (newExitedEvent (ms_nextEventIndex s) now exitCode) s))"

definition terminationReason :: "bool \<Rightarrow> gostr" where
  "terminationReason force = (if force then lit ''force kill requested'' else lit ''terminate requested'')"

text \<open>The critical section of \<open>TerminateSession\<close>.\<close>

definition requestTermination :: "bool \<Rightarrow> managedSession \<Rightarrow> managedSession" where
  "requestTermination force s =
     s\<lparr>ms_state := TERMINATING, ms_terminationReason := terminationReason force, ms_terminateForce := force\<rparr>"

text \<open>
  Where the goroutine of \<open>captureStream\<close> stands between two critical sections: in its loop, past a
  read that failed, past the loop with the \<open>Done\<close> of its wait group to come, or at its end.
\<close>

datatype capture = Reading | ReadFailed gostr | Closing | Captured

definition streamDone :: "managedSession \<Rightarrow> managedSession" where
  "streamDone s = s\<lparr>ms_streams := ms_streams s - 1\<rparr>"

definition captureStream ::
  "bool \<Rightarrow> time \<Rightarrow> int list \<Rightarrow> read_error \<Rightarrow> bool \<Rightarrow> capture \<Rightarrow> managedSession \<Rightarrow> capture \<times> managedSession"
where
  "captureStream present now data e stdout c s =
     (case c of
        Reading \<Rightarrow>
          (if \<not> present then (Closing, s)
           else (case e of ReadOK \<Rightarrow> Reading | ReadEOF \<Rightarrow> Closing | ReadError msg \<Rightarrow> ReadFailed msg,
                 if data \<noteq> [] then appendOutput now data stdout s else s))
      | ReadFailed msg \<Rightarrow> (Closing, appendOutput now (lit ''stream read error: '' @ msg @ [10]) False s)
      | Closing \<Rightarrow> (Captured, streamDone s)
      | Captured \<Rightarrow> (Captured, s))"

text \<open>A session with its goroutines: where the capture loops stand and whether \<open>waitForExit\<close> still runs.\<close>

record session_sys =
  ss_session :: managedSession
  ss_out :: capture
  ss_err :: capture
  ss_wait :: bool

definition hasHandle :: "(RunningCommand \<Rightarrow> bool) \<Rightarrow> managedSession \<Rightarrow> bool" where
  "hasHandle h s = (case ms_process s of None \<Rightarrow> False | Some p \<Rightarrow> h p)"

inductive session_step :: "session_sys \<Rightarrow> session_sys \<Rightarrow> bool" where
  out_read: "ss_out y \<noteq> Captured \<Longrightarrow>
    captureStream (hasHandle rc_Stdout (ss_session y)) now data e True (ss_out y) (ss_session y) = (c, s) \<Longrightarrow>
    session_step y (y\<lparr>ss_session := s, ss_out := c\<rparr>)"
| err_read: "ss_err y \<noteq> Captured \<Longrightarrow>
    captureStream (hasHandle rc_Stderr (ss_session y)) now data e False (ss_err y) (ss_session y) = (c, s) \<Longrightarrow>
    session_step y (y\<lparr>ss_session := s, ss_err := c\<rparr>)"
| wait_exit: "ss_wait y \<Longrightarrow> hasHandle rc_Wait (ss_session y) \<Longrightarrow> ms_streams (ss_session y) = 0 \<Longrightarrow>
    session_step y (y\<lparr>ss_session := waitForExit e now (ss_session y), ss_wait := False\<rparr>)"
| close_stdin: "session_step y (y\<lparr>ss_session := markStdinClosed now (ss_session y)\<rparr>)"
| terminate: "\<not> isTerminalLocked (ss_session y) \<Longrightarrow>
    session_step y (y\<lparr>ss_session := requestTermination force (ss_session y)\<rparr>)"

section \<open>Watching a session\<close>

datatype deliver_result = Delivered int | TerminalSeen | CallbackFailed gostr

text \<open>The loop over one batch of events: the callback's answers and the events it was given.\<close>

fun deliver ::
  "(SessionEvent \<Rightarrow> gostr option) \<Rightarrow> int \<Rightarrow> SessionEvent list \<Rightarrow> deliver_result \<times> SessionEvent list"
where
  "deliver onEvent next [] = (Delivered next, [])"
| "deliver onEvent next (e # es) =
     (case onEvent e of
        Some msg \<Rightarrow> (CallbackFailed msg, [e])
      | None \<Rightarrow>
          if isTerminalEvent e then (TerminalSeen, [e])
          else (case deliver onEvent (ev_EventIndex e) es of (r, given) \<Rightarrow> (r, e # given)))"

datatype watch_result = WatchDone | WatchFailed exec_error | WatchWaiting int

text \<open>The loop of \<open>WatchSession\<close> over the states of the session it observes, each with the error
  of its context; \<open>WatchWaiting\<close> is blocking in \<open>waitForUpdate\<close> after the last of them.\<close>

fun watchLoop ::
  "(SessionEvent \<Rightarrow> gostr option) \<Rightarrow> int \<Rightarrow> (managedSession \<times> gostr option) list \<Rightarrow>
   watch_result \<times> SessionEvent list"
where
  "watchLoop onEvent next [] = (WatchWaiting next, [])"
| "watchLoop onEvent next ((s, ctxErr) # obs) =
     (case eventsAfter next s of
        (events, terminal) \<Rightarrow>
          (case deliver onEvent next events of
             (CallbackFailed msg, given) \<Rightarrow> (WatchFailed (CallbackError msg), given)
           | (TerminalSeen, given) \<Rightarrow> (WatchDone, given)
           | (Delivered next', given) \<Rightarrow>
               if terminal then (WatchDone, given)
               else (case ctxErr of
                       Some msg \<Rightarrow> (WatchFailed (ContextError msg), given)
                     | None \<Rightarrow> (case watchLoop onEvent next' obs of (r, rest) \<Rightarrow> (r, given @ rest)))))"

section \<open>The manager\<close>

definition lookup :: "Manager \<Rightarrow> gostr \<Rightarrow> exec_error + managedSession" where
  "lookup m sessionID =
     (let sessionID = trimSpace sessionID in
      if sessionID = [] then Inl SessionIDRequired
      else case map_of (mg_sessions m) sessionID of None \<Rightarrow> Inl SessionNotFound | Some s \<Rightarrow> Inr s)"

definition putSession :: "managedSession \<Rightarrow> Manager \<Rightarrow> Manager" where
  "putSession s m = m\<lparr>mg_sessions := AList.update (ms_id s) s (mg_sessions m)\<rparr>"

definition NewManager :: "bool \<Rightarrow> gostr \<Rightarrow> gostr list \<Rightarrow> exec_error + Manager" where
  "NewManager executorNil workingDir env =
     (if executorNil then Inl ExecutorRequired
      else let dir = trimSpace workingDir in
        if dir = [] then Inl DefaultWorkingDirRequired
        else Inr \<lparr>mg_defaultWorkingDir = dir, mg_defaultEnv = env, mg_sessions = [], mg_nextID = 0\<rparr>)"

definition normalizePackages :: "gostr list \<Rightarrow> gostr list" where
  "normalizePackages ps = filter (\<lambda>p. p \<noteq> []) (map trimSpace ps)"

definition sessionID :: "64 word \<Rightarrow> gostr" where
  "sessionID n = lit ''sess-'' @ itoa (unat n)"

definition newSession ::
  "gostr \<Rightarrow> gostr \<Rightarrow> gostr list \<Rightarrow> gostr \<Rightarrow> RunningCommand \<Rightarrow> bool \<Rightarrow> time \<Rightarrow> managedSession"
where
  "newSession sid command packages workingDir process keepStdinOpen now =
     appendEventLocked (newStartedEvent sid 1 now)
       \<lparr>ms_id = sid, ms_command = command, ms_packages = packages, ms_workingDir = workingDir,
        ms_process = Some process, ms_streams = 0, ms_stdinOpen = (keepStdinOpen \<and> rc_Stdin process),
        ms_state = RUNNING, ms_startedAt = now, ms_finishedAt = 0, ms_exitCode = 0,
        ms_hasExitCode = False, ms_terminationReason = [], ms_terminateForce = False,
        ms_events = [], ms_nextEventIndex = 0\<rparr>"

text \<open>\<open>start\<close> is the executor, \<open>closeErr\<close> the answer of closing stdin, \<open>now\<close> and \<open>now'\<close> the two
  readings of the clock.\<close>

definition StartSession ::
  "(CommandRequest \<Rightarrow> gostr + RunningCommand) \<Rightarrow> gostr option \<Rightarrow> time \<Rightarrow> time \<Rightarrow> gostr \<Rightarrow> gostr list \<Rightarrow>
   gostr \<Rightarrow> bool \<Rightarrow> Manager \<Rightarrow> (exec_error + Session) \<times> Manager"
where
  "StartSession start closeErr now now' command packages workingDir keepStdinOpen m =
     (let command = trimSpace command in
      if command = [] then (Inl CommandRequired, m)
      else
        let packages = normalizePackages packages;
            workingDir = trimSpace workingDir;
            workingDir = (if workingDir = [] then mg_defaultWorkingDir m else workingDir) in
        case start \<lparr>rq_Command = command, rq_Packages = packages, rq_WorkingDir = workingDir,
                    rq_Env = mg_defaultEnv m\<rparr> of
          Inl msg \<Rightarrow> (Inl (ExecutorFailed msg), m)
        | Inr process \<Rightarrow>
            (let m = m\<lparr>mg_nextID := mg_nextID m + 1\<rparr>;
                 sid = sessionID (mg_nextID m);
                 s = newSession sid command packages workingDir process keepStdinOpen now in
             if \<not> keepStdinOpen \<and> rc_Stdin process
             then (case closeErr of
                     Some msg \<Rightarrow> (Inl (CloseSessionStdinFailed msg), m)
                   | None \<Rightarrow>
                       (let s = s\<lparr>ms_stdinOpen := False\<rparr>;
                            s = appendEventLocked (newStdinClosedEvent (ms_nextEventIndex s) now') s;
                            s = s\<lparr>ms_streams := 2\<rparr>
                        in (Inr (snapshotLocked s), putSession s m)))
             else (let s = s\<lparr>ms_streams := 2\<rparr> in (Inr (snapshotLocked s), putSession s m))))"

definition GetSession :: "Manager \<Rightarrow> gostr \<Rightarrow> exec_error + Session" where
  "GetSession m sid = map_sum (\<lambda>e. e) snapshotLocked (lookup m sid)"

definition ListSessions :: "Manager \<Rightarrow> Session list" where
  "ListSessions m = sort_key se_SessionId (map (\<lambda>(sid, s). snapshotLocked s) (mg_sessions m))"

definition WatchSession ::
  "(SessionEvent \<Rightarrow> gostr option) \<Rightarrow> Manager \<Rightarrow> gostr \<Rightarrow> int \<Rightarrow> (managedSession \<times> gostr option) list \<Rightarrow>
   watch_result \<times> SessionEvent list"
where
  "WatchSession onEvent m sid after obs =
     (if after < 0 then (WatchFailed AfterEventIndexNegative, [])
      else case lookup m sid of
          Inl e \<Rightarrow> (WatchFailed e, [])
        | Inr s \<Rightarrow> watchLoop onEvent after obs)"

text \<open>\<open>written\<close> is what \<open>stdin.Write\<close> answers, \<open>closeErr\<close> what \<open>stdin.Close\<close> does.\<close>

definition WriteSessionStdin ::
  "int \<times> gostr option \<Rightarrow> gostr option \<Rightarrow> time \<Rightarrow> gostr \<Rightarrow> int list \<Rightarrow> bool \<Rightarrow> Manager \<Rightarrow>
   (exec_error + Session) \<times> int \<times> Manager"
where
  "WriteSessionStdin written closeErr now sid data closeStdin m =
     (case lookup m sid of
        Inl e \<Rightarrow> (Inl e, 0, m)
      | Inr s \<Rightarrow>
          if data = [] \<and> \<not> closeStdin then (Inr (snapshotLocked s), 0, m)
          else if \<not> ms_stdinOpen s \<or> \<not> hasHandle rc_Stdin s
          then (Inl SessionStdinClosed, 0, m)
          else
            let bytesWritten = (if data \<noteq> [] then fst written else 0) in
            case (if data \<noteq> [] then snd written else None) of
              Some msg \<Rightarrow> (Inl (WriteStdinFailed msg), bytesWritten, m)
            | None \<Rightarrow>
                if closeStdin
                then (case closeErr of
                        Some msg \<Rightarrow> (Inl (CloseStdinFailed msg), bytesWritten, m)
                      | None \<Rightarrow>
                          (let s = markStdinClosed now s
                           in (Inr (snapshotLocked s), bytesWritten, putSession s m)))
                else (Inr (snapshotLocked s), bytesWritten, m))"

definition TerminateSession ::
  "gostr option \<Rightarrow> gostr \<Rightarrow> bool \<Rightarrow> Manager \<Rightarrow> (exec_error + Session) \<times> Manager"
where
  "TerminateSession killErr sid force m =
     (case lookup m sid of
        Inl e \<Rightarrow> (Inl e, m)
      | Inr s \<Rightarrow>
          if isTerminalState (ms_state s) then (Inr (snapshotLocked s), m)
          else
            let s = requestTermination force s; m = putSession s m in
            case (if hasHandle rc_Terminate s then killErr else None) of
              Some msg \<Rightarrow> (Inl (TerminateFailed msg), m)
            | None \<Rightarrow> (Inr (snapshotLocked s), m))"

section \<open>Status codes\<close>

datatype status_code = NotFound | InvalidArgument | Internal

definition errText :: "exec_error \<Rightarrow> gostr" where
  "errText e =
     (case e of
        SessionNotFound \<Rightarrow> lit ''session not found''
      | SessionIDRequired \<Rightarrow> lit ''session_id is required''
      | CommandRequired \<Rightarrow> lit ''command is required''
      | WorkingDirRequired \<Rightarrow> lit ''working dir is required''
      | AfterEventIndexNegative \<Rightarrow> lit ''after_event_index must be >= 0''
      | SessionStdinClosed \<Rightarrow> lit ''session stdin is closed''
      | WriteStdinFailed msg \<Rightarrow> lit ''write stdin: '' @ msg
      | CloseStdinFailed msg \<Rightarrow> lit ''close stdin: '' @ msg
      | CloseSessionStdinFailed msg \<Rightarrow> lit ''close session stdin: '' @ msg
      | TerminateFailed msg \<Rightarrow> lit ''terminate session: '' @ msg
      | ExecutorFailed msg \<Rightarrow> msg
      | ContextError msg \<Rightarrow> msg
      | CallbackError msg \<Rightarrow> msg
      | ExecutorRequired \<Rightarrow> lit ''executor is required''
      | DefaultWorkingDirRequired \<Rightarrow> lit ''default working dir is required'')"

definition isInvalidArgumentError :: "exec_error \<Rightarrow> bool" where
  "isInvalidArgumentError e =
     (let msg = toLower (trimSpace (errText e)) in
      containsStr msg (lit ''required'') \<or> containsStr msg (lit ''must be >=''))"

definition mapError :: "exec_error \<Rightarrow> status_code" where
  "mapError e =
     (if e = SessionNotFound then NotFound
      else if isInvalidArgumentError e then InvalidArgument else Internal)"

section \<open>Preparing a command\<close>

definition normalizeCommandRequest :: "CommandRequest \<Rightarrow> exec_error + CommandRequest" where
  "normalizeCommandRequest req =
     (let req = req\<lparr>rq_Command := trimSpace (rq_Command req)\<rparr> in
      if rq_Command req = [] then Inl CommandRequired
      else let req = req\<lparr>rq_WorkingDir := trimSpace (rq_WorkingDir req)\<rparr> in
        if rq_WorkingDir req = [] then Inl WorkingDirRequired
        else Inr (req\<lparr>rq_Packages := normalizePackages (rq_Packages req)\<rparr>))"

definition ensurePackage :: "gostr list \<Rightarrow> gostr \<Rightarrow> gostr list" where
  "ensurePackage ps required = (if required \<in> set ps then ps else ps @ [required])"

definition runtimeBashPackage :: gostr where
  "runtimeBashPackage = lit ''nixpkgs#bash''"

definition buildNixShellArgs :: "gostr \<Rightarrow> gostr list \<Rightarrow> gostr \<Rightarrow> gostr list" where
  "buildNixShellArgs command packages sslCertFile =
     [lit ''--extra-experimental-features'', lit ''nix-command flakes'', lit ''--option'',
      lit ''ssl-cert-file'', sslCertFile, lit ''--option'', lit ''build-users-group'', [], lit ''shell'']
     @ ensurePackage packages runtimeBashPackage
     @ [lit ''--command'', lit ''bash'', lit ''-lc'', command]"

text \<open>\<open>strings.Cut(entry, "=")\<close>.\<close>

definition cutEq :: "gostr \<Rightarrow> (gostr \<times> gostr) option" where
  "cutEq entry =
     (if 61 \<in> set entry
      then Some (takeWhile (\<lambda>r. r \<noteq> 61) entry, drop 1 (dropWhile (\<lambda>r. r \<noteq> 61) entry))
      else None)"

fun envValue :: "gostr list \<Rightarrow> gostr \<Rightarrow> gostr" where
  "envValue [] key = []"
| "envValue (entry # entries) key =
     (case cutEq entry of
        Some (k, v) \<Rightarrow> if k = key then v else envValue entries key
      | None \<Rightarrow> envValue entries key)"

definition envKey :: "gostr \<Rightarrow> gostr" where
  "envKey entry = (case cutEq entry of None \<Rightarrow> [] | Some (k, v) \<Rightarrow> trimSpace k)"

definition mergeBase :: "gostr list \<times> (gostr \<times> nat) list \<Rightarrow> gostr \<Rightarrow> gostr list \<times> (gostr \<times> nat) list" where
  "mergeBase acc entry =
     (let (out, index) = acc; key = envKey entry in
      if key = [] then acc else (out @ [entry], AList.update key (length out) index))"

definition mergeOverride ::
  "gostr list \<times> (gostr \<times> nat) list \<Rightarrow> gostr \<Rightarrow> gostr list \<times> (gostr \<times> nat) list"
where
  "mergeOverride acc entry =
     (let (out, index) = acc; key = envKey entry in
      if key = [] then acc
      else case map_of index key of
          Some i \<Rightarrow> (out[i := entry], index)
        | None \<Rightarrow> (out @ [entry], AList.update key (length out) index))"

definition mergeEnv :: "gostr list \<Rightarrow> gostr list \<Rightarrow> gostr list" where
  "mergeEnv base overrides =
     (if overrides = [] then base
      else fst (foldl mergeOverride (foldl mergeBase ([], []) base) overrides))"

definition resolveNixSSLCertFile :: "(gostr \<Rightarrow> bool) \<Rightarrow> gostr list \<Rightarrow> gostr option" where
  "resolveNixSSLCertFile readable env =
     (let path = trimSpace (envValue env (lit ''NIX_SSL_CERT_FILE''));
          path = (if path = [] then lit ''/etc/ssl/certs/ca-certificates.crt'' else path)
      in if readable path then Some path else None)"

section \<open>The event log\<close>

definition numbered :: "managedSession \<Rightarrow> bool" where
  "numbered s \<longleftrightarrow>
     map ev_EventIndex (ms_events s) = map (\<lambda>i. int i + 1) [0..<length (ms_events s)] \<and>
     ms_nextEventIndex s = int (length (ms_events s)) + 1"

text \<open>A running session has no terminal event; a finished one has exactly one, followed at most by
  the closing of stdin.\<close>

definition terminalShape :: "managedSession \<Rightarrow> bool" where
  "terminalShape s \<longleftrightarrow>
     (if isTerminalLocked s
      then \<exists>pre e post. ms_events s = pre @ e # post \<and> isTerminalEvent e \<and>
             list_all (\<lambda>e. \<not> isTerminalEvent e) pre \<and> list_all (\<lambda>e. ev_Event e = StdinClosed) post
      else list_all (\<lambda>e. \<not> isTerminalEvent e) (ms_events s))"

definition stdinShape :: "managedSession \<Rightarrow> bool" where
  "stdinShape s \<longleftrightarrow>
     length (filter (\<lambda>e. ev_Event e = StdinClosed) (ms_events s)) \<le> (if ms_stdinOpen s then 0 else 1)"

definition logOK :: "managedSession \<Rightarrow> bool" where
  "logOK s \<longleftrightarrow> numbered s \<and> terminalShape s \<and> stdinShape s \<and>
     ms_events s \<noteq> [] \<and> ev_Event (hd (ms_events s)) = Started (ms_id s)"

definition sysOK :: "session_sys \<Rightarrow> bool" where
  "sysOK y \<longleftrightarrow> logOK (ss_session y) \<and>
     ms_streams (ss_session y) = of_bool (ss_out y \<noteq> Captured) + of_bool (ss_err y \<noteq> Captured) \<and>
     (isTerminalLocked (ss_session y) \<longleftrightarrow> \<not> ss_wait y) \<and>
     (\<not> ss_wait y \<longrightarrow> ss_out y = Captured \<and> ss_err y = Captured)"

definition startedSys :: "managedSession \<Rightarrow> session_sys" where
  "startedSys s = \<lparr>ss_session = s, ss_out = Reading, ss_err = Reading, ss_wait = True\<rparr>"

lemmas event_defs = newStartedEvent_def newStdoutEvent_def newStderrEvent_def newStdinClosedEvent_def
  newExitedEvent_def newTerminatedEvent_def

lemma numbered_append:
  "numbered s \<Longrightarrow> ev_EventIndex e = ms_nextEventIndex s \<Longrightarrow> numbered (appendEventLocked e s)"
  by (simp add: numbered_def appendEventLocked_def)

lemma logOK_output:
  assumes "logOK s" and "\<not> isTerminalLocked s"
  shows "logOK (appendOutput now data stdout s)" and "ms_state (appendOutput now data stdout s) = ms_state s"
proof -
  have n: "numbered (appendOutput now data stdout s)"
    using assms(1) by (auto simp: logOK_def appendOutput_def event_defs intro!: numbered_append)
  show "logOK (appendOutput now data stdout s)"
    using assms n
    by (auto simp: logOK_def terminalShape_def stdinShape_def appendOutput_def appendEventLocked_def
        event_defs isTerminalLocked_def isTerminalEvent_def)
  show "ms_state (appendOutput now data stdout s) = ms_state s"
    by (simp add: appendOutput_def appendEventLocked_def)
qed

lemma logOK_stdin_closed:
  assumes "logOK s"
  shows "logOK (markStdinClosed now s)"
proof (cases "ms_stdinOpen s")
  case True
  have n: "numbered (markStdinClosed now s)"
    using assms True by (simp add: logOK_def markStdinClosed_def numbered_def appendEventLocked_def event_defs)
  have "terminalShape (markStdinClosed now s)"
  proof (cases "isTerminalLocked s")
    case tm: True
    with assms obtain pre e post where "ms_events s = pre @ e # post" "isTerminalEvent e"
      "list_all (\<lambda>e. \<not> isTerminalEvent e) pre" "list_all (\<lambda>e. ev_Event e = StdinClosed) post"
      by (auto simp: logOK_def terminalShape_def)
    then have "ms_events (markStdinClosed now s) =
        pre @ e # (post @ [newStdinClosedEvent (ms_nextEventIndex s) now])"
      "list_all (\<lambda>e. ev_Event e = StdinClosed) (post @ [newStdinClosedEvent (ms_nextEventIndex s) now])"
      using True by (simp_all add: markStdinClosed_def appendEventLocked_def event_defs)
    moreover have "isTerminalLocked (markStdinClosed now s)"
      using tm True by (simp add: markStdinClosed_def appendEventLocked_def isTerminalLocked_def)
    ultimately show ?thesis
      using \<open>isTerminalEvent e\<close> \<open>list_all (\<lambda>e. \<not> isTerminalEvent e) pre\<close>
      unfolding terminalShape_def by metis
  next
    case False
    with assms True show ?thesis
      by (simp add: logOK_def terminalShape_def markStdinClosed_def appendEventLocked_def
          isTerminalLocked_def event_defs isTerminalEvent_def)
  qed
  with n True assms show ?thesis
    by (simp add: logOK_def stdinShape_def markStdinClosed_def appendEventLocked_def event_defs)
next
  case False
  with assms show ?thesis by (simp add: markStdinClosed_def)
qed

lemma waitForExit_keeps [simp]:
  "ms_stdinOpen (waitForExit err now s) = ms_stdinOpen s" "ms_id (waitForExit err now s) = ms_id s"
  "ms_streams (waitForExit err now s) = ms_streams s" "ms_process (waitForExit err now s) = ms_process s"
  "isTerminalLocked (waitForExit err now s)"
  by (simp_all add: waitForExit_def Let_def appendEventLocked_def isTerminalLocked_def isTerminalState_def
      split: wait_error.splits prod.splits)

lemma waitForExit_event:
  obtains e where "ms_events (waitForExit err now s) = ms_events s @ [e]"
    "ms_nextEventIndex (waitForExit err now s) = ms_nextEventIndex s + 1"
    "isTerminalEvent e" "ev_EventIndex e = ms_nextEventIndex s"
proof -
  have "\<exists>e. ms_events (waitForExit err now s) = ms_events s @ [e] \<and>
    ms_nextEventIndex (waitForExit err now s) = ms_nextEventIndex s + 1 \<and>
    isTerminalEvent e \<and> ev_EventIndex e = ms_nextEventIndex s"
    by (simp add: waitForExit_def Let_def appendEventLocked_def event_defs isTerminalEvent_def
        split: wait_error.splits prod.splits)
  with that show thesis by blast
qed

lemma logOK_exit:
  assumes "logOK s" and "\<not> isTerminalLocked s"
  shows "logOK (waitForExit err now s)"
proof -
  let ?t = "waitForExit err now s"
  obtain e where evs: "ms_events ?t = ms_events s @ [e]" "ms_nextEventIndex ?t = ms_nextEventIndex s + 1"
    and e: "isTerminalEvent e" "ev_EventIndex e = ms_nextEventIndex s" by (rule waitForExit_event)
  have "ev_Event e \<noteq> StdinClosed" using e(1) by (auto simp: isTerminalEvent_def)
  moreover have "list_all (\<lambda>e. \<not> isTerminalEvent e) (ms_events s)"
    using assms by (simp add: logOK_def terminalShape_def)
  then have "terminalShape ?t"
    unfolding terminalShape_def evs using e(1)
    by (simp, intro exI [of _ "ms_events s"] exI [of _ e] exI [of _ "[]"]) simp
  ultimately show ?thesis
    using assms e(2) unfolding logOK_def numbered_def stdinShape_def evs by auto
qed

section \<open>Every step keeps the log\<close>

lemma captureStream_ok:
  assumes "captureStream present now data e stdout c s = (c', s')" "logOK s" "\<not> isTerminalLocked s" "c \<noteq> Captured"
  shows "logOK s'" "\<not> isTerminalLocked s'" "ms_process s' = ms_process s"
    "ms_streams s' = ms_streams s - of_bool (c' = Captured)"
proof -
  have out: "logOK (appendOutput now data stdout s) \<and> \<not> isTerminalLocked (appendOutput now data stdout s) \<and>
      ms_streams (appendOutput now data stdout s) = ms_streams s \<and>
      ms_process (appendOutput now data stdout s) = ms_process s"
    if "logOK s" "\<not> isTerminalLocked s" for now data stdout s
    using logOK_output [OF that] that(2)
    by (simp add: isTerminalLocked_def appendOutput_def appendEventLocked_def)
  have dn: "logOK (streamDone s) = logOK s" "isTerminalLocked (streamDone s) = isTerminalLocked s"
    "ms_process (streamDone s) = ms_process s" "ms_streams (streamDone s) = ms_streams s - 1" for s
    by (simp_all add: streamDone_def logOK_def numbered_def terminalShape_def stdinShape_def isTerminalLocked_def)
  have "logOK s' \<and> \<not> isTerminalLocked s' \<and> ms_process s' = ms_process s \<and>
      ms_streams s' = ms_streams s - of_bool (c' = Captured)"
    using assms by (auto simp: captureStream_def dn out split: capture.splits if_splits read_error.splits)
  then show "logOK s'" "\<not> isTerminalLocked s'" "ms_process s' = ms_process s"
    "ms_streams s' = ms_streams s - of_bool (c' = Captured)" by blast+
qed

lemma logOK_terminating:
  assumes "logOK s" and "\<not> isTerminalLocked s"
  shows "logOK (requestTermination force s)" "\<not> isTerminalLocked (requestTermination force s)"
  using assms
  by (simp_all add: requestTermination_def logOK_def numbered_def terminalShape_def stdinShape_def
      isTerminalLocked_def isTerminalState_def)

lemma markStdinClosed_keeps [simp]:
  "isTerminalLocked (markStdinClosed now s) = isTerminalLocked s"
  "ms_streams (markStdinClosed now s) = ms_streams s" "ms_process (markStdinClosed now s) = ms_process s"
  "ms_id (markStdinClosed now s) = ms_id s"
  by (simp_all add: markStdinClosed_def appendEventLocked_def isTerminalLocked_def)

lemma session_step_sysOK:
  assumes "session_step y y'" and "sysOK y"
  shows "sysOK y'"
  using assms
proof (induction rule: session_step.induct)
  case (out_read y now data e c s)
  have nt: "\<not> isTerminalLocked (ss_session y)" and ok: "logOK (ss_session y)"
    using out_read by (auto simp: sysOK_def)
  from captureStream_ok [OF out_read(2) ok nt out_read(1)] out_read(1,3) show ?case by (auto simp: sysOK_def)
next
  case (err_read y now data e c s)
  have nt: "\<not> isTerminalLocked (ss_session y)" and ok: "logOK (ss_session y)"
    using err_read by (auto simp: sysOK_def)
  from captureStream_ok [OF err_read(2) ok nt err_read(1)] err_read(1,3) show ?case by (auto simp: sysOK_def)
next
  case (wait_exit y e now)
  have nt: "\<not> isTerminalLocked (ss_session y)" and ok: "logOK (ss_session y)"
    using wait_exit by (auto simp: sysOK_def)
  from logOK_exit [OF ok nt] wait_exit show ?case by (auto simp: sysOK_def)
next
  case (close_stdin y now)
  then show ?case by (auto simp: sysOK_def logOK_stdin_closed)
next
  case (terminate y force)
  with logOK_terminating [of "ss_session y" force] show ?case
    by (auto simp: sysOK_def) (simp add: requestTermination_def)+
qed

lemma reachable_sysOK: "session_step\<^sup>*\<^sup>* y y' \<Longrightarrow> sysOK y \<Longrightarrow> sysOK y'"
  by (induction rule: rtranclp_induct) (auto intro: session_step_sysOK)

text \<open>What a step may do to the session: extend the log, and leave a finished session finished.\<close>

lemma captureStream_events:
  assumes "captureStream present now data e stdout c s = (c', s')"
  shows "prefix (ms_events s) (ms_events s')" "ms_process s' = ms_process s"
  using assms
  by (auto simp: captureStream_def streamDone_def appendOutput_def appendEventLocked_def
      split: capture.splits if_splits read_error.splits)

lemma session_step_prefix:
  "session_step y y' \<Longrightarrow> prefix (ms_events (ss_session y)) (ms_events (ss_session y'))"
proof (induction rule: session_step.induct)
  case (wait_exit y e now)
  show ?case using waitForExit_event [of e now "ss_session y"] by fastforce
next
  case (close_stdin y now)
  show ?case by (simp add: markStdinClosed_def appendEventLocked_def)
next
  case (terminate y force)
  show ?case by (simp add: requestTermination_def)
qed (simp_all add: captureStream_events)

lemma reachable_prefix:
  "session_step\<^sup>*\<^sup>* y y' \<Longrightarrow> prefix (ms_events (ss_session y)) (ms_events (ss_session y'))"
  by (induction rule: rtranclp_induct) (auto intro: session_step_prefix prefix_order.trans)

abbreviation outcome :: "managedSession \<Rightarrow> SessionState \<times> int \<times> bool \<times> gostr \<times> time" where
  "outcome s \<equiv> (ms_state s, ms_exitCode s, ms_hasExitCode s, ms_terminationReason s, ms_finishedAt s)"

lemma session_step_final:
  "session_step y y' \<Longrightarrow> sysOK y \<Longrightarrow> isTerminalLocked (ss_session y) \<Longrightarrow>
   outcome (ss_session y') = outcome (ss_session y)"
  by (erule session_step.cases)
    (auto simp: sysOK_def markStdinClosed_def appendEventLocked_def)

lemma reachable_final:
  assumes "session_step\<^sup>*\<^sup>* y y'" and "sysOK y" and "isTerminalLocked (ss_session y)"
  shows "outcome (ss_session y') = outcome (ss_session y)"
  using assms(1)
proof (induction rule: rtranclp_induct)
  case (step y1 y2)
  have "isTerminalLocked (ss_session y1)"
    using step.IH assms(3) by (simp add: isTerminalLocked_def)
  with session_step_final [OF step(2) reachable_sysOK [OF step(1) assms(2)]] step.IH show ?case by simp
qed simp

section \<open>Starting a session\<close>

lemma sysOK_started:
  "sysOK (startedSys ((newSession sid cmd ps wd p keep now)\<lparr>ms_streams := 2\<rparr>))"
  by (simp add: sysOK_def startedSys_def newSession_def appendEventLocked_def event_defs logOK_def
      numbered_def terminalShape_def stdinShape_def isTerminalLocked_def isTerminalState_def isTerminalEvent_def)

lemma sysOK_started_closed:
  "sysOK (startedSys ((appendEventLocked (newStdinClosedEvent 2 now')
      ((newSession sid cmd ps wd p False now)\<lparr>ms_stdinOpen := False\<rparr>))\<lparr>ms_streams := 2\<rparr>))"
  by (simp add: sysOK_def startedSys_def newSession_def appendEventLocked_def event_defs logOK_def
      numbered_def terminalShape_def stdinShape_def isTerminalLocked_def isTerminalState_def isTerminalEvent_def)

lemma newSession_index [simp]: "ms_nextEventIndex (newSession sid cmd ps wd p keep now) = 2"
  "ms_id (newSession sid cmd ps wd p keep now) = sid"
  by (simp_all add: newSession_def appendEventLocked_def event_defs)

lemma appendEvent_id [simp]: "ms_id (appendEventLocked e s) = ms_id s"
  by (simp add: appendEventLocked_def)

lemma StartSession_ok:
  assumes "StartSession start closeErr now now' cmd ps wd keep m = (Inr snap, m')"
  obtains s where "sysOK (startedSys s)" "snap = snapshotLocked s" "ms_id s = sessionID (mg_nextID m + 1)"
    "m' = putSession s (m\<lparr>mg_nextID := mg_nextID m + 1\<rparr>)"
  using assms that [OF sysOK_started] that [OF sysOK_started_closed]
  by (auto simp: StartSession_def Let_def split: if_splits sum.splits option.splits)


lemma StartSession_stored:
  assumes "StartSession start closeErr now now' cmd ps wd keep m = (Inr snap, m')"
    and "map_of (mg_sessions m') (se_SessionId snap) = Some s"
  shows "sysOK (startedSys s)" "ms_id s = se_SessionId snap" "snap = snapshotLocked s"
proof -
  from assms(1) obtain s' where s': "sysOK (startedSys s')" "snap = snapshotLocked s'"
    "m' = putSession s' (m\<lparr>mg_nextID := mg_nextID m + 1\<rparr>)" by (rule StartSession_ok)
  have "se_SessionId snap = ms_id s'" by (simp add: s'(2) snapshotLocked_def)
  with assms(2) s'(3) have "s = s'" by (simp add: putSession_def update_conv')
  with s' \<open>se_SessionId snap = ms_id s'\<close>
  show "sysOK (startedSys s)" "ms_id s = se_SessionId snap" "snap = snapshotLocked s" by auto
qed

lemma terminalShape_count:
  assumes "terminalShape s"
  shows "length (filter isTerminalEvent (ms_events s)) = of_bool (isTerminalLocked s)"
    and "list_all (\<lambda>e. ev_Event e = StdinClosed)
      (drop 1 (dropWhile (\<lambda>e. \<not> isTerminalEvent e) (ms_events s)))"
proof -
  have "length (filter isTerminalEvent (ms_events s)) = of_bool (isTerminalLocked s) \<and>
    list_all (\<lambda>e. ev_Event e = StdinClosed) (drop 1 (dropWhile (\<lambda>e. \<not> isTerminalEvent e) (ms_events s)))"
  proof (cases "isTerminalLocked s")
    case True
    with assms obtain pre e post where es: "ms_events s = pre @ e # post" "isTerminalEvent e"
      "list_all (\<lambda>e. \<not> isTerminalEvent e) pre" "list_all (\<lambda>e. ev_Event e = StdinClosed) post"
      by (auto simp: terminalShape_def)
    have "filter isTerminalEvent pre = []" using es(3) by (simp add: list_all_iff filter_empty_conv)
    moreover have "filter isTerminalEvent post = []"
      using es(4) by (auto simp: list_all_iff filter_empty_conv isTerminalEvent_def)
    moreover have "dropWhile (\<lambda>e. \<not> isTerminalEvent e) (pre @ e # post) = e # post"
      using es(2,3) by (simp add: list_all_iff dropWhile_append)
    ultimately show ?thesis using es True by simp
  next
    case False
    with assms have "list_all (\<lambda>e. \<not> isTerminalEvent e) (ms_events s)" by (simp add: terminalShape_def)
    then have none: "filter isTerminalEvent (ms_events s) = []"
      "dropWhile (\<lambda>e. \<not> isTerminalEvent e) (ms_events s) = []"
      by (simp_all add: list_all_iff filter_empty_conv)
    show ?thesis unfolding none using False by simp
  qed
  then show "length (filter isTerminalEvent (ms_events s)) = of_bool (isTerminalLocked s)"
    and "list_all (\<lambda>e. ev_Event e = StdinClosed) (drop 1 (dropWhile (\<lambda>e. \<not> isTerminalEvent e) (ms_events s)))"
    by blast+
qed

text \<open>
  C28: whatever the goroutines of a started session do, its event log is well formed: the
  events are numbered 1, 2, 3, \<dots> without gaps, the first is the session's own start, there is
  one terminal event if the session has finished and none before, only the closing of stdin can
  follow it, and stdin is closed at most once.
\<close>

theorem session_log_wellformed:
  assumes "StartSession start closeErr now now' cmd ps wd keep m = (Inr snap, m')"
    and "map_of (mg_sessions m') (se_SessionId snap) = Some s"
    and "session_step\<^sup>*\<^sup>* (startedSys s) y"
  shows "map ev_EventIndex (ms_events (ss_session y)) =
      map (\<lambda>i. int i + 1) [0..<length (ms_events (ss_session y))] \<and>
    ev_Event (hd (ms_events (ss_session y))) = Started (se_SessionId snap) \<and>
    length (filter isTerminalEvent (ms_events (ss_session y))) = of_bool (isTerminalLocked (ss_session y)) \<and>
    list_all (\<lambda>e. ev_Event e = StdinClosed)
      (drop 1 (dropWhile (\<lambda>e. \<not> isTerminalEvent e) (ms_events (ss_session y)))) \<and>
    length (filter (\<lambda>e. ev_Event e = StdinClosed) (ms_events (ss_session y))) \<le> 1"
proof -
  note st = StartSession_stored [OF assms(1,2)]
  have ok: "logOK (ss_session y)" using reachable_sysOK [OF assms(3) st(1)] by (simp add: sysOK_def)
  have ok0: "logOK s" using st(1) by (simp add: sysOK_def startedSys_def)
  have "prefix (ms_events s) (ms_events (ss_session y))"
    using reachable_prefix [OF assms(3)] by (simp add: startedSys_def)
  with ok0 have "hd (ms_events (ss_session y)) = hd (ms_events s)"
    by (auto simp: logOK_def prefix_def)
  with ok0 st(2) have "ev_Event (hd (ms_events (ss_session y))) = Started (se_SessionId snap)"
    by (simp add: logOK_def)
  moreover have "length (filter (\<lambda>e. ev_Event e = StdinClosed) (ms_events (ss_session y))) \<le> 1"
    using ok by (auto simp: logOK_def stdinShape_def split: if_splits)
  ultimately show ?thesis
    using ok terminalShape_count [of "ss_session y"] by (simp add: logOK_def numbered_def)
qed

text \<open>
  C34: a finished session stays as it finished: state, exit code, termination reason and finishing
  time never change again, whatever runs afterwards.
\<close>

theorem finished_session_stable:
  assumes "StartSession start closeErr now now' cmd ps wd keep m = (Inr snap, m')"
    and "map_of (mg_sessions m') (se_SessionId snap) = Some s"
    and "session_step\<^sup>*\<^sup>* (startedSys s) y" and "isTerminalLocked (ss_session y)"
    and "session_step\<^sup>*\<^sup>* y y'"
  shows "outcome (ss_session y') = outcome (ss_session y)"
  using reachable_final [OF assms(5) reachable_sysOK [OF assms(3)] assms(4)]
    StartSession_stored(1) [OF assms(1,2)] by blast

section \<open>Watching\<close>

definition upToTerminal :: "SessionEvent list \<Rightarrow> SessionEvent list" where
  "upToTerminal es =
     takeWhile (\<lambda>e. \<not> isTerminalEvent e) es @ take 1 (dropWhile (\<lambda>e. \<not> isTerminalEvent e) es)"

text \<open>The states a watcher sees, in the order of the session's run.\<close>

fun observes :: "session_sys \<Rightarrow> session_sys list \<Rightarrow> bool" where
  "observes y [] = True"
| "observes y (y1 # ys) = (session_step\<^sup>*\<^sup>* y y1 \<and> observes y1 ys)"

lemma upToTerminal_append:
  "list_all (\<lambda>e. \<not> isTerminalEvent e) xs \<Longrightarrow> upToTerminal (xs @ ys) = xs @ upToTerminal ys"
  by (simp add: upToTerminal_def list_all_iff takeWhile_append dropWhile_append)

lemma deliver_ok:
  "(\<And>e. onEvent e = None) \<Longrightarrow>
   deliver onEvent next es =
     (if list_all (\<lambda>e. \<not> isTerminalEvent e) es
      then (Delivered (if es = [] then next else ev_EventIndex (last es)), es)
      else (TerminalSeen, upToTerminal es))"
  by (induction es arbitrary: "next") (auto simp: upToTerminal_def)

lemma numbered_nth: "numbered s \<Longrightarrow> i < length (ms_events s) \<Longrightarrow> ev_EventIndex (ms_events s ! i) = int i + 1"
proof -
  assume n: "numbered s" and i: "i < length (ms_events s)"
  have "ev_EventIndex (ms_events s ! i) = map ev_EventIndex (ms_events s) ! i" using i by simp
  also have "\<dots> = map (\<lambda>i. int i + 1) [0..<length (ms_events s)] ! i" using n by (simp add: numbered_def)
  finally show ?thesis using i by simp
qed

lemma numbered_filter:
  assumes "numbered s"
  shows "filter (\<lambda>e. \<not> ev_EventIndex e \<le> n) (ms_events s) = drop (nat n) (ms_events s)"
proof -
  let ?es = "ms_events s"
  have t: "filter (\<lambda>e. \<not> ev_EventIndex e \<le> n) (take (nat n) ?es) = []"
    using numbered_nth [OF assms] by (auto simp: filter_empty_conv in_set_conv_nth)
  have d: "filter (\<lambda>e. \<not> ev_EventIndex e \<le> n) (drop (nat n) ?es) = drop (nat n) ?es"
    using numbered_nth [OF assms] by (auto simp: filter_id_conv in_set_conv_nth split: if_splits)
  have "filter (\<lambda>e. \<not> ev_EventIndex e \<le> n) ?es =
      filter (\<lambda>e. \<not> ev_EventIndex e \<le> n) (take (nat n) ?es @ drop (nat n) ?es)" by simp
  then show ?thesis unfolding filter_append t d by simp
qed

lemma numbered_last: "numbered s \<Longrightarrow> ms_events s \<noteq> [] \<Longrightarrow> ev_EventIndex (last (ms_events s)) = int (length (ms_events s))"
  using numbered_nth [of s "length (ms_events s) - 1"] by (cases "ms_events s" rule: rev_cases) simp_all

text \<open>What is left to deliver after a batch.\<close>

lemma drop_batch:
  assumes "prefix es fs"
  shows "drop n fs = drop n es @ drop (if drop n es = [] then n else length es) fs"
  using assms by (auto simp: prefix_def)

lemma watchLoop_exact:
  assumes cb: "\<And>e. onEvent e = None"
  shows "sysOK y \<Longrightarrow> observes y (ys @ [yf]) \<Longrightarrow> \<forall>y \<in> set ys. \<not> isTerminalLocked (ss_session y) \<Longrightarrow>
    isTerminalLocked (ss_session yf) \<Longrightarrow>
    watchLoop onEvent n (map (\<lambda>y. (ss_session y, None)) (ys @ [yf])) =
      (WatchDone, upToTerminal (drop (nat n) (ms_events (ss_session yf))))"
proof (induction ys arbitrary: y n)
  case Nil
  then have "logOK (ss_session yf)" using reachable_sysOK by (auto simp: sysOK_def)
  then have "numbered (ss_session yf)" by (simp add: logOK_def)
  moreover have "upToTerminal es = es" if "list_all (\<lambda>e. \<not> isTerminalEvent e) es" for es
    using upToTerminal_append [OF that, of "[]"] by (simp add: upToTerminal_def)
  ultimately show ?case using Nil by (simp add: eventsAfter_def deliver_ok [OF cb] numbered_filter)
next
  case (Cons y1 ys)
  let ?es = "ms_events (ss_session y1)" and ?fs = "ms_events (ss_session yf)"
  have ok1: "sysOK y1" using Cons.prems reachable_sysOK by auto
  then have num: "numbered (ss_session y1)" and nt: "list_all (\<lambda>e. \<not> isTerminalEvent e) ?es"
    using Cons.prems(3) by (auto simp: sysOK_def logOK_def terminalShape_def)
  have pre: "prefix ?es ?fs"
  proof -
    have "observes y (zs @ [z]) \<Longrightarrow> prefix (ms_events (ss_session y)) (ms_events (ss_session z))" for y zs z
      by (induction zs arbitrary: y) (auto dest: reachable_prefix intro: prefix_order.trans)
    with Cons.prems(2) show ?thesis by auto
  qed
  have ntd: "list_all (\<lambda>e. \<not> isTerminalEvent e) (drop (nat n) ?es)"
    using nt by (auto simp: list_all_iff dest: in_set_dropD)
  define n' where "n' = (if drop (nat n) ?es = [] then n else ev_EventIndex (last (drop (nat n) ?es)))"
  have n': "nat n' = (if drop (nat n) ?es = [] then nat n else length ?es)"
    using numbered_last [OF num] by (cases "?es = []") (auto simp: n'_def last_drop)
  have "watchLoop onEvent n' (map (\<lambda>y. (ss_session y, None)) (ys @ [yf])) =
      (WatchDone, upToTerminal (drop (nat n') ?fs))"
    using Cons.IH [OF ok1] Cons.prems by auto
  moreover have "upToTerminal (drop (nat n) ?fs) = drop (nat n) ?es @ upToTerminal (drop (nat n') ?fs)"
    unfolding n' upToTerminal_append [OF ntd, symmetric] using drop_batch [OF pre, of "nat n"] by (rule arg_cong)
  moreover have "deliver onEvent n (drop (nat n) ?es) = (Delivered n', drop (nat n) ?es)"
    unfolding deliver_ok [OF cb] n'_def using ntd by simp
  ultimately show ?case
    using Cons.prems(3) by (simp add: eventsAfter_def numbered_filter [OF num])
qed

text \<open>
  C35: a watcher misses nothing and sees nothing twice.  However its observations interleave with
  the session's run, a watch from a cursor delivers exactly the events after the cursor, in
  order, up to and including the first terminal one, and then returns.
\<close>

theorem watch_delivers_exactly:
  assumes "StartSession start closeErr now now' cmd ps wd keep m = (Inr snap, m')"
    and "map_of (mg_sessions m') (se_SessionId snap) = Some s"
    and "lookup m' sid = Inr s" and "0 \<le> cursor" and "\<And>e. onEvent e = None"
    and "observes (startedSys s) (ys @ [yf])"
    and "\<forall>y \<in> set ys. \<not> isTerminalLocked (ss_session y)" and "isTerminalLocked (ss_session yf)"
  shows "WatchSession onEvent m' sid cursor (map (\<lambda>y. (ss_session y, None)) (ys @ [yf])) =
    (WatchDone, upToTerminal (filter (\<lambda>e. cursor < ev_EventIndex e) (ms_events (ss_session yf))))"
proof -
  have ok: "sysOK (startedSys s)" using StartSession_stored(1) [OF assms(1,2)] .
  have "sysOK yf"
  proof -
    have "observes y (zs @ [z]) \<Longrightarrow> sysOK y \<Longrightarrow> sysOK z" for y zs z
      by (induction zs arbitrary: y) (auto dest: reachable_sysOK)
    with assms(6) ok show ?thesis by blast
  qed
  then have "numbered (ss_session yf)" by (simp add: sysOK_def logOK_def)
  with numbered_filter [of "ss_session yf" cursor]
    watchLoop_exact [OF assms(5) ok assms(6-8), where n = cursor]
  show ?thesis using assms(3,4) by (simp add: WatchSession_def not_le)
qed

section \<open>The registry of sessions\<close>

definition digitsValue :: "gostr \<Rightarrow> int" where
  "digitsValue s = foldl (\<lambda>a r. a * 10 + (r - 48)) 0 s"

lemma digitsValue_itoa: "digitsValue (itoa n) = int n"
proof (induction n rule: itoa.induct)
  case (1 n)
  show ?case
  proof (cases "n < 10")
    case True
    then show ?thesis by (simp add: itoa.simps [of n] digitsValue_def)
  next
    case False
    with 1 have "digitsValue (itoa n) = int (n div 10) * 10 + int (n mod 10)"
      by (simp add: itoa.simps [of n] digitsValue_def)
    also have "\<dots> = int n" by (metis div_mult_mod_eq of_nat_add of_nat_mult of_nat_numeral)
    finally show ?thesis .
  qed
qed

lemma sessionID_inj: "sessionID a = sessionID b \<longleftrightarrow> a = b"
proof
  assume "sessionID a = sessionID b"
  then have "digitsValue (itoa (unat a)) = digitsValue (itoa (unat b))" by (simp add: sessionID_def)
  then show "a = b" by (simp only: digitsValue_itoa of_nat_eq_iff word_unat_eq_iff)
qed simp

text \<open>Sessions are filed under their own id, and every id was handed out by the counter.\<close>

definition filed :: "64 word \<Rightarrow> gostr \<times> managedSession \<Rightarrow> bool" where
  "filed n x \<longleftrightarrow> ms_id (snd x) = fst x \<and> trimSpace (fst x) = fst x \<and> fst x \<noteq> [] \<and>
     (\<exists>i. 0 < i \<and> i \<le> n \<and> fst x = sessionID i)"

definition managerOK :: "Manager \<Rightarrow> bool" where
  "managerOK m \<longleftrightarrow>
     distinct (map fst (mg_sessions m)) \<and> (\<forall>x \<in> set (mg_sessions m). filed (mg_nextID m) x)"

lemma managerOK_new: "NewManager b wd env = Inr m \<Longrightarrow> managerOK m"
  by (auto simp: NewManager_def managerOK_def Let_def split: if_splits)

lemma set_update_subset: "set (AList.update k v xs) \<subseteq> insert (k, v) (set xs)"
  by (induction xs) auto

lemma managerOK_put:
  assumes "managerOK m" and "ms_id s = sessionID i" and "0 < i" "i \<le> mg_nextID m"
    and "trimSpace (ms_id s) = ms_id s"
  shows "managerOK (putSession s m)"
proof -
  have "ms_id s \<noteq> []" using assms(2) by (simp add: sessionID_def)
  then have "filed (mg_nextID m) (ms_id s, s)" using assms(2-5) unfolding filed_def by auto
  then have "\<forall>x \<in> set (AList.update (ms_id s) s (mg_sessions m)). filed (mg_nextID m) x"
    using set_update_subset [of "ms_id s" s "mg_sessions m"] assms(1) unfolding managerOK_def by blast
  then show ?thesis using assms(1) by (simp add: managerOK_def putSession_def distinct_update)
qed

lemma managerOK_counter:
  assumes "managerOK m" and "mg_nextID m < - 1"
  shows "managerOK (m\<lparr>mg_nextID := mg_nextID m + 1\<rparr>)" "0 < mg_nextID m + 1"
    "map_of (mg_sessions m) (sessionID (mg_nextID m + 1)) = None"
proof -
  have le: "mg_nextID m < mg_nextID m + 1" using assms(2) by unat_arith
  then show "0 < mg_nextID m + 1" by (metis word_gt_0 word_not_simps(1))
  have "filed (mg_nextID m + 1) x" if "filed (mg_nextID m) x" for x
    using that le unfolding filed_def by (metis order_trans less_imp_le)
  then show "managerOK (m\<lparr>mg_nextID := mg_nextID m + 1\<rparr>)"
    using assms(1) by (simp add: managerOK_def)
  have "sessionID (mg_nextID m + 1) \<noteq> k" if "(k, s) \<in> set (mg_sessions m)" for k s
    using that assms(1) le sessionID_inj by (fastforce simp: managerOK_def filed_def)
  then show "map_of (mg_sessions m) (sessionID (mg_nextID m + 1)) = None"
    by (metis map_of_SomeD not_None_eq)
qed

lemma itoa_digits: "list_all (\<lambda>r. 48 \<le> r \<and> r \<le> 57) (itoa n) \<and> itoa n \<noteq> []"
proof (induction n rule: itoa.induct)
  case (1 n)
  then show ?case by (cases "n < 10") (auto simp: itoa.simps [of n])
qed

lemma sessionID_trimmed: "trimSpace (sessionID i) = sessionID i"
proof -
  have "\<not> isSpace (last (itoa (unat i)))"
    using itoa_digits [of "unat i"] by (auto simp: list_all_iff isSpace_small dest!: last_in_set)
  then show ?thesis
    using itoa_digits [of "unat i"]
    by (auto simp: trimSpace_fixed sessionID_def lit_eval isSpace_small)
qed

text \<open>
  Starting a session adds exactly one: its id is new, every session already tracked is
  untouched, the registry stays consistent, and the answer is the snapshot of a running session
  at its beginning; an error leaves the tracked sessions as they were.
\<close>

theorem StartSession_registers:
  assumes "managerOK m" and "mg_nextID m < - 1"
  shows "case StartSession start closeErr now now' cmd ps wd keep m of
      (Inl e, m') \<Rightarrow> mg_sessions m' = mg_sessions m \<and> managerOK m'
    | (Inr snap, m') \<Rightarrow>
        map_of (mg_sessions m) (se_SessionId snap) = None \<and>
        (\<forall>k. k \<noteq> se_SessionId snap \<longrightarrow> map_of (mg_sessions m') k = map_of (mg_sessions m) k) \<and>
        GetSession m' (se_SessionId snap) = Inr snap \<and> se_State snap = RUNNING \<and> managerOK m'"
proof (cases "StartSession start closeErr now now' cmd ps wd keep m")
  case (Pair r m')
  note counter = managerOK_counter [OF assms]
  show ?thesis
  proof (cases r)
    case (Inl e)
    with Pair have "m' = m \<or> m' = m\<lparr>mg_nextID := mg_nextID m + 1\<rparr>"
      by (auto simp: StartSession_def Let_def split: if_splits sum.splits option.splits)
    with Pair Inl counter(1) assms(1) show ?thesis by auto
  next
    case (Inr snap)
    from Pair Inr obtain s where s: "sysOK (startedSys s)" "snap = snapshotLocked s"
      "ms_id s = sessionID (mg_nextID m + 1)" "m' = putSession s (m\<lparr>mg_nextID := mg_nextID m + 1\<rparr>)"
      using StartSession_ok by metis
    have sid: "se_SessionId snap = ms_id s" by (simp add: s(2) snapshotLocked_def)
    have "managerOK m'"
      unfolding s(4) by (rule managerOK_put [OF counter(1) s(3) counter(2)]) (simp_all add: s(3) sessionID_trimmed)
    moreover have "GetSession m' (se_SessionId snap) = Inr snap"
      unfolding sid using sessionID_trimmed [of "mg_nextID m + 1"]
      by (simp add: GetSession_def lookup_def s(2,4) putSession_def update_conv' Let_def
          s(3) sessionID_def)
    moreover have "se_State snap = RUNNING"
      using Pair Inr by (auto simp: StartSession_def Let_def snapshotLocked_def newSession_def
          appendEventLocked_def split: if_splits sum.splits option.splits)
    ultimately show ?thesis
      using counter(3) by (simp add: Pair Inr sid s(3,4) putSession_def update_conv')
  qed
qed

text \<open>
  The listing is complete, strictly ordered by session id and independent of the order in
  which Go iterates over the session map.
\<close>

theorem ListSessions_deterministic:
  assumes "managerOK m" and "mset sessions' = mset (mg_sessions m)"
  shows "ListSessions (m\<lparr>mg_sessions := sessions'\<rparr>) = ListSessions m \<and>
    sorted_wrt (<) (map se_SessionId (ListSessions m)) \<and>
    set (ListSessions m) = snapshotLocked ` snd ` set (mg_sessions m)"
proof -
  let ?snaps = "\<lambda>xs. map (\<lambda>(k, s). snapshotLocked s) (xs :: (gostr \<times> managedSession) list)"
  have ids: "map se_SessionId (?snaps (mg_sessions m)) = map fst (mg_sessions m)"
    using assms(1) by (auto simp: managerOK_def filed_def snapshotLocked_def)
  have dist: "distinct (map se_SessionId (?snaps (mg_sessions m)))"
    unfolding ids using assms(1) by (simp add: managerOK_def)
  then have inj: "inj_on se_SessionId (set (?snaps (mg_sessions m)))"
    unfolding map_map distinct_map set_map by (blast intro: inj_on_imageI)
  have "mset (?snaps sessions') = mset (?snaps (mg_sessions m))" using assms(2) by simp
  then have "sort_key se_SessionId (?snaps sessions') = sort_key se_SessionId (?snaps (mg_sessions m))"
    using inj by (metis (no_types, lifting) mset_sort set_mset_mset sort_key_inj_key_eq sorted_sort_key)
  moreover have "distinct (map se_SessionId (ListSessions m))"
  proof -
    have "mset (map se_SessionId (ListSessions m)) = mset (map se_SessionId (?snaps (mg_sessions m)))"
      by (simp only: ListSessions_def mset_map mset_sort)
    with dist show ?thesis by (metis mset_eq_imp_distinct_iff)
  qed
  ultimately show ?thesis
    by (auto simp: ListSessions_def strict_sorted_iff image_image case_prod_unfold)
qed

lemma lookup_trimmed: "lookup m (trimSpace sid) = lookup m sid"
  by (simp add: lookup_def Let_def)

lemma lookup_Inr:
  "lookup m sid = Inr s \<longleftrightarrow> trimSpace sid \<noteq> [] \<and> map_of (mg_sessions m) (trimSpace sid) = Some s"
  by (auto simp: lookup_def Let_def split: option.splits)

lemma lookup_filed: "managerOK m \<Longrightarrow> lookup m sid = Inr s \<Longrightarrow> ms_id s = trimSpace sid"
  by (auto simp: lookup_Inr managerOK_def filed_def dest: map_of_SomeD)

lemma lookup_put:
  "trimSpace sid \<noteq> [] \<Longrightarrow> ms_id s = trimSpace sid \<Longrightarrow> lookup (putSession s m) sid = Inr s"
  by (simp add: lookup_Inr putSession_def update_conv')

text \<open>
  Once a client has closed a session's stdin, the closed stdin is final: the answer says so,
  and every later attempt to write or to close is refused with the same error and changes
  nothing.
\<close>

theorem stdin_close_is_final:
  assumes "managerOK m" and "WriteSessionStdin written closeErr now sid data True m = (Inr snap, n, m')"
    and "data' \<noteq> [] \<or> close'"
  shows "\<not> se_StdinOpen snap \<and>
    WriteSessionStdin written' closeErr' now' sid data' close' m' = (Inl SessionStdinClosed, 0, m')"
proof -
  obtain s where s: "lookup m sid = Inr s" "ms_stdinOpen s" and snap: "snap = snapshotLocked (markStdinClosed now s)"
    and m': "m' = putSession (markStdinClosed now s) m"
    using assms(2) by (auto simp: WriteSessionStdin_def Let_def split: sum.splits if_splits option.splits)
  have "lookup m' sid = Inr (markStdinClosed now s)"
    unfolding m' using lookup_filed [OF assms(1) s(1)] s(1) by (intro lookup_put) (auto simp: lookup_Inr)
  moreover have "\<not> ms_stdinOpen (markStdinClosed now s)"
    by (simp add: markStdinClosed_def appendEventLocked_def)
  ultimately show ?thesis
    using assms(3) by (auto simp: snap snapshotLocked_def WriteSessionStdin_def)
qed

section \<open>Every session can finish\<close>

lemma session_step_process:
  "session_step y y' \<Longrightarrow> sysOK y \<Longrightarrow> ms_process (ss_session y') = ms_process (ss_session y)"
  by (erule session_step.cases) (auto simp: sysOK_def requestTermination_def dest: captureStream_events)

lemma reachable_process:
  assumes "session_step\<^sup>*\<^sup>* y y'" and "sysOK y"
  shows "ms_process (ss_session y') = ms_process (ss_session y)"
  using assms by (induction rule: rtranclp_induct) (auto dest: session_step_process reachable_sysOK)

text \<open>Either capture loop can end, and leaves the other and the waiting goroutine where they were.\<close>

lemma captures_end:
  shows "\<exists>y'. session_step\<^sup>*\<^sup>* y y' \<and> ss_out y' = Captured \<and> ss_err y' = ss_err y \<and> ss_wait y' = ss_wait y"
    and "\<exists>y'. session_step\<^sup>*\<^sup>* y y' \<and> ss_err y' = Captured \<and> ss_out y' = ss_out y \<and> ss_wait y' = ss_wait y"
proof -
  have close: "\<exists>s. captureStream present 0 [] ReadEOF stdout c t = (Closing, s)" if "c \<noteq> Captured" "c \<noteq> Closing"
    for present stdout c t
    using that by (cases c) (auto simp: captureStream_def)
  have ends: "captureStream present 0 [] ReadEOF stdout Closing t = (Captured, streamDone t)" for present stdout t
    by (simp add: captureStream_def)
  have out: "session_step y (y\<lparr>ss_session := streamDone (ss_session y), ss_out := Captured\<rparr>)" if "ss_out y = Closing" for y
    by (rule session_step.out_read [of _ 0 "[]" ReadEOF]) (simp_all add: ends that)
  have err: "session_step y (y\<lparr>ss_session := streamDone (ss_session y), ss_err := Captured\<rparr>)" if "ss_err y = Closing" for y
    by (rule session_step.err_read [of _ 0 "[]" ReadEOF]) (simp_all add: ends that)
  show "\<exists>y'. session_step\<^sup>*\<^sup>* y y' \<and> ss_out y' = Captured \<and> ss_err y' = ss_err y \<and> ss_wait y' = ss_wait y"
  proof (cases "ss_out y = Captured \<or> ss_out y = Closing")
    case True
    then show ?thesis
    proof
      assume "ss_out y = Captured"
      then show ?thesis by (intro exI [of _ y]) simp
    next
      assume "ss_out y = Closing"
      from r_into_rtranclp [of session_step, OF out [OF this]] show ?thesis by fastforce
    qed
  next
    case False
    then obtain t where t: "session_step y (y\<lparr>ss_session := t, ss_out := Closing\<rparr>)"
      using close session_step.out_read by metis
    have "session_step\<^sup>*\<^sup>* y ((y\<lparr>ss_session := t, ss_out := Closing\<rparr>)\<lparr>ss_session := streamDone t, ss_out := Captured\<rparr>)"
      using converse_rtranclp_into_rtranclp [OF t r_into_rtranclp [of session_step, OF out]] by simp
    then show ?thesis by fastforce
  qed
  show "\<exists>y'. session_step\<^sup>*\<^sup>* y y' \<and> ss_err y' = Captured \<and> ss_out y' = ss_out y \<and> ss_wait y' = ss_wait y"
  proof (cases "ss_err y = Captured \<or> ss_err y = Closing")
    case True
    then show ?thesis
    proof
      assume "ss_err y = Captured"
      then show ?thesis by (intro exI [of _ y]) simp
    next
      assume "ss_err y = Closing"
      from r_into_rtranclp [of session_step, OF err [OF this]] show ?thesis by fastforce
    qed
  next
    case False
    then obtain t where t: "session_step y (y\<lparr>ss_session := t, ss_err := Closing\<rparr>)"
      using close session_step.err_read by metis
    have "session_step\<^sup>*\<^sup>* y ((y\<lparr>ss_session := t, ss_err := Closing\<rparr>)\<lparr>ss_session := streamDone t, ss_err := Captured\<rparr>)"
      using converse_rtranclp_into_rtranclp [OF t r_into_rtranclp [of session_step, OF err]] by simp
    then show ?thesis by fastforce
  qed
qed

lemma finish_from:
  assumes "sysOK y" and "hasHandle rc_Wait (ss_session y)"
  shows "\<exists>y'. session_step\<^sup>*\<^sup>* y y' \<and> isTerminalLocked (ss_session y')"
proof (cases "ss_wait y")
  case False
  with assms(1) show ?thesis by (auto simp: sysOK_def)
next
  case True
  obtain y1 where y1: "session_step\<^sup>*\<^sup>* y y1" "ss_out y1 = Captured" "ss_wait y1 = ss_wait y"
    using captures_end(1) [of y] by blast
  obtain y2 where "session_step\<^sup>*\<^sup>* y1 y2" "ss_err y2 = Captured" "ss_out y2 = ss_out y1" "ss_wait y2 = ss_wait y1"
    using captures_end(2) [of y1] by blast
  with y1 True have y2: "session_step\<^sup>*\<^sup>* y y2" "ss_out y2 = Captured" "ss_err y2 = Captured" "ss_wait y2"
    by (auto intro: rtranclp_trans)
  have "ms_streams (ss_session y2) = 0" using reachable_sysOK [OF y2(1) assms(1)] y2 by (simp add: sysOK_def)
  moreover have "hasHandle rc_Wait (ss_session y2)" using assms(2) reachable_process [OF y2(1) assms(1)]
    by (simp add: hasHandle_def)
  ultimately have "session_step y2 (y2\<lparr>ss_session := waitForExit WaitOK 0 (ss_session y2), ss_wait := False\<rparr>)"
    using y2(4) by (intro session_step.wait_exit)
  from rtranclp.rtrancl_into_rtrancl [OF y2(1) this] show ?thesis by force
qed

text \<open>
  C36: no session is stuck: from every state a started session can reach, the streams can end and
  the process can exit, and the session then is in a terminal state.
\<close>

theorem session_can_finish:
  assumes "StartSession start closeErr now now' cmd ps wd keep m = (Inr snap, m')"
    and "map_of (mg_sessions m') (se_SessionId snap) = Some s" and "hasHandle rc_Wait s"
    and "session_step\<^sup>*\<^sup>* (startedSys s) y"
  shows "\<exists>y'. session_step\<^sup>*\<^sup>* y y' \<and> isTerminalLocked (ss_session y')"
proof -
  have ok: "sysOK (startedSys s)" using StartSession_stored(1) [OF assms(1,2)] .
  have "hasHandle rc_Wait (ss_session y)"
    using reachable_process [OF assms(4) ok] assms(3) by (simp add: startedSys_def hasHandle_def)
  with finish_from reachable_sysOK [OF assms(4) ok] show ?thesis by blast
qed

section \<open>Merging environments\<close>

text \<open>The entry that counts for a key when a process is started with an environment: the last.\<close>

definition lastFor :: "gostr \<Rightarrow> gostr list \<Rightarrow> gostr option" where
  "lastFor k es = foldl (\<lambda>acc e. if envKey e = k then Some e else acc) None es"

lemma lastFor_snoc: "lastFor k (es @ [e]) = (if envKey e = k then Some e else lastFor k es)"
  by (simp add: lastFor_def)

lemma lastFor_Nil [simp]: "lastFor k [] = None"
  by (simp add: lastFor_def)

lemma lastFor_append: "lastFor k (xs @ ys) = (case lastFor k ys of None \<Rightarrow> lastFor k xs | Some e \<Rightarrow> Some e)"
proof (induction ys rule: rev_induct)
  case (snoc y ys)
  then show ?case
    using lastFor_snoc [of k "xs @ ys" y] lastFor_snoc [of k ys y] by (simp split: option.splits)
qed simp

definition lastPos :: "gostr \<Rightarrow> gostr list \<Rightarrow> nat option" where
  "lastPos k ks =
     (let ps = filter (\<lambda>i. ks ! i = k) [0..<length ks] in if ps = [] then None else Some (last ps))"

lemma lastPos_snoc: "lastPos k (ks @ [x]) = (if x = k then Some (length ks) else lastPos k ks)"
proof -
  have eq: "filter (\<lambda>i. (ks @ [x]) ! i = k) [0..<length (ks @ [x])] =
      filter (\<lambda>i. ks ! i = k) [0..<length ks] @ (if x = k then [length ks] else [])"
    by (auto simp: nth_append intro!: filter_cong)
  show ?thesis unfolding lastPos_def [of k "ks @ [x]"] eq by (simp add: lastPos_def Let_def)
qed

lemma lastPos_Nil [simp]: "lastPos k [] = None"
  by (simp add: lastPos_def)

lemma lastPos_Some: "lastPos k ks = Some i \<Longrightarrow> i < length ks \<and> ks ! i = k"
proof (induction ks rule: rev_induct)
  case (snoc x ks)
  then show ?case by (auto simp: lastPos_snoc nth_append split: if_splits)
qed simp

lemma lastFor_lastPos: "lastFor k out = map_option ((!) out) (lastPos k (map envKey out))"
proof (induction out rule: rev_induct)
  case (snoc e out)
  have "map_option ((!) (out @ [e])) (lastPos k (map envKey out)) =
      map_option ((!) out) (lastPos k (map envKey out))"
    using lastPos_Some [of k "map envKey out"]
    by (cases "lastPos k (map envKey out)") (auto simp: nth_append)
  with snoc show ?case by (auto simp: lastFor_snoc lastPos_snoc)
qed simp

text \<open>The index points at the last entry of every key.\<close>

definition indexOK :: "gostr list \<times> (gostr \<times> nat) list \<Rightarrow> bool" where
  "indexOK acc \<longleftrightarrow> (\<forall>k. map_of (snd acc) k = lastPos k (map envKey (fst acc)))"

lemma indexOK_push:
  "indexOK (out, index) \<Longrightarrow> indexOK (out @ [e], AList.update (envKey e) (length out) index)"
  by (auto simp: indexOK_def update_conv' lastPos_snoc)

lemma mergeBase_ok: "indexOK acc \<Longrightarrow> indexOK (mergeBase acc e)"
  "k \<noteq> [] \<Longrightarrow> lastFor k (fst (mergeBase acc e)) = lastFor k (fst acc @ [e])"
  by (cases acc; auto simp: mergeBase_def Let_def indexOK_push lastFor_snoc)+

lemma mergeOverride_replace:
  assumes "indexOK (out, index)" and "map_of index (envKey e) = Some i"
  shows "map envKey (out[i := e]) = map envKey out"
    and "lastFor k (out[i := e]) = lastFor k (out @ [e])"
proof -
  have i: "i < length out" "envKey (out ! i) = envKey e" "lastPos (envKey e) (map envKey out) = Some i"
    using lastPos_Some [of "envKey e" "map envKey out" i] assms by (auto simp: indexOK_def)
  show keys: "map envKey (out[i := e]) = map envKey out"
    using i(1,2) by (simp add: map_update list_update_same_conv)
  show "lastFor k (out[i := e]) = lastFor k (out @ [e])"
  proof (cases "k = envKey e")
    case True
    then show ?thesis unfolding lastFor_lastPos [of k "out[i := e]"] keys using i by (simp add: lastFor_snoc)
  next
    case False
    have "map_option ((!) (out[i := e])) (lastPos k (map envKey out)) =
        map_option ((!) out) (lastPos k (map envKey out))"
      using False i(2) lastPos_Some [of k "map envKey out"]
      by (cases "lastPos k (map envKey out)") (auto, metis nth_list_update_neq)
    with False show ?thesis
      unfolding lastFor_lastPos [of k "out[i := e]"] keys lastFor_snoc by (simp add: lastFor_lastPos)
  qed
qed

lemma mergeOverride_ok: "indexOK acc \<Longrightarrow> indexOK (mergeOverride acc e)"
  "indexOK acc \<Longrightarrow> k \<noteq> [] \<Longrightarrow> lastFor k (fst (mergeOverride acc e)) = lastFor k (fst acc @ [e])"
proof -
  obtain out index where acc: "acc = (out, index)" by (cases acc)
  assume ok: "indexOK acc"
  show "indexOK (mergeOverride acc e)"
  proof (cases "map_of index (envKey e)")
    case None
    with ok indexOK_push [of out index e] show ?thesis by (simp add: acc mergeOverride_def Let_def)
  next
    case (Some i)
    with ok mergeOverride_replace(1) [of out index e i] show ?thesis
      by (simp add: acc mergeOverride_def Let_def indexOK_def)
  qed
  assume "k \<noteq> []"
  then show "lastFor k (fst (mergeOverride acc e)) = lastFor k (fst acc @ [e])"
    using ok mergeOverride_replace(2) [of out index e _ k]
    by (auto simp: acc mergeOverride_def Let_def lastFor_snoc split: option.splits)
qed

lemma foldl_merge_ok:
  assumes f: "\<And>acc e. indexOK acc \<Longrightarrow> indexOK (f acc e)"
    "\<And>acc e. indexOK acc \<Longrightarrow> lastFor k (fst (f acc e)) = lastFor k (fst acc @ [e])"
    and acc: "indexOK acc"
  shows "indexOK (foldl f acc es) \<and> lastFor k (fst (foldl f acc es)) = lastFor k (fst acc @ es)"
proof (induction es rule: rev_induct)
  case (snoc e es)
  with f [of "foldl f acc es" e] show ?case
    by (simp add: lastFor_snoc del: append_assoc flip: append_assoc)
qed (use acc in simp)

text \<open>
  The environment of a command: for every variable the merged environment has the last
  override if there is one and otherwise the inherited entry.
\<close>

theorem mergeEnv_overrides:
  assumes "k \<noteq> []"
  shows "lastFor k (mergeEnv base overrides) =
    (case lastFor k overrides of Some e \<Rightarrow> Some e | None \<Rightarrow> lastFor k base)"
proof -
  have "indexOK ([], [])" by (simp add: indexOK_def)
  from foldl_merge_ok [of mergeBase k, OF mergeBase_ok(1) mergeBase_ok(2) [OF assms] this, of base]
  have b: "indexOK (foldl mergeBase ([], []) base)" "lastFor k (fst (foldl mergeBase ([], []) base)) = lastFor k base"
    by simp_all
  from foldl_merge_ok [of mergeOverride k, OF mergeOverride_ok(1) mergeOverride_ok(2) [OF _ assms] b(1), of overrides]
  show ?thesis
    by (auto simp: mergeEnv_def lastFor_append b(2) split: option.splits)
qed


section \<open>Example\<close>

definition sampleManager :: Manager where
  "sampleManager = \<lparr>mg_defaultWorkingDir = lit ''/work'', mg_defaultEnv = [], mg_sessions = [], mg_nextID = 0\<rparr>"

definition sampleStart :: "bool \<Rightarrow> (exec_error + Session) \<times> Manager" where
  "sampleStart keep =
     StartSession (\<lambda>r. Inr \<lparr>rc_Stdin = True, rc_Stdout = False, rc_Stderr = False, rc_Wait = True, rc_Terminate = True\<rparr>)
       None 5 6 (lit ''ls'') [] [] keep sampleManager"

definition sampleSession :: "bool \<Rightarrow> managedSession" where
  "sampleSession keep = snd (hd (mg_sessions (snd (sampleStart keep))))"

lemma sample_started:
  "sampleStart keep = (Inr (snapshotLocked (sampleSession keep)), snd (sampleStart keep))"
  "map_of (mg_sessions (snd (sampleStart keep))) (se_SessionId (snapshotLocked (sampleSession keep))) =
     Some (sampleSession keep)"
  "hasHandle rc_Wait (sampleSession keep)" "managerOK sampleManager" "ms_id (sampleSession keep) = sessionID 1"
  "ms_stdinOpen (sampleSession keep) = keep"
proof -
  have cmd: "trimSpace (lit ''ls'') = lit ''ls''" by code_simp
  show "sampleStart keep = (Inr (snapshotLocked (sampleSession keep)), snd (sampleStart keep))"
    and "map_of (mg_sessions (snd (sampleStart keep))) (se_SessionId (snapshotLocked (sampleSession keep))) =
      Some (sampleSession keep)"
    and "hasHandle rc_Wait (sampleSession keep)" "ms_id (sampleSession keep) = sessionID 1"
    and "ms_stdinOpen (sampleSession keep) = keep"
    by (auto simp: sampleStart_def sampleSession_def StartSession_def Let_def cmd sampleManager_def
        putSession_def snapshotLocked_def newSession_def appendEventLocked_def hasHandle_def)
  show "managerOK sampleManager" by (simp add: managerOK_def sampleManager_def)
qed

text \<open>The sample session with its streams at their end and its process gone.\<close>

definition sampleEnded :: "bool \<Rightarrow> session_sys" where
  "sampleEnded keep =
     \<lparr>ss_session = waitForExit WaitOK 9 ((sampleSession keep)\<lparr>ms_streams := 0\<rparr>),
      ss_out = Captured, ss_err = Captured, ss_wait = False\<rparr>"

lemma sample_ends: "session_step\<^sup>*\<^sup>* (startedSys (sampleSession keep)) (sampleEnded keep)"
proof -
  let ?s = "sampleSession keep"
  have no: "\<not> hasHandle rc_Stdout ?s" "\<not> hasHandle rc_Stderr ?s" "ms_streams ?s = 2" "hasHandle rc_Wait ?s"
  proof -
    have cmd: "trimSpace (lit ''ls'') = lit ''ls''" by code_simp
    show "\<not> hasHandle rc_Stdout ?s" "\<not> hasHandle rc_Stderr ?s" "ms_streams ?s = 2" "hasHandle rc_Wait ?s"
      by (auto simp: sampleStart_def sampleSession_def StartSession_def Let_def cmd sampleManager_def
        putSession_def newSession_def appendEventLocked_def hasHandle_def)
  qed
  let ?y = "\<lambda>s out err. \<lparr>ss_session = s, ss_out = out, ss_err = err, ss_wait = True\<rparr>"
  let ?s1 = "?s\<lparr>ms_streams := 1\<rparr>" and ?y2 = "?y (?s\<lparr>ms_streams := 0\<rparr>) Captured Captured"
  have "session_step (startedSys ?s) (?y ?s Closing Reading)" "session_step (?y ?s Closing Reading) (?y ?s1 Captured Reading)"
    using session_step.out_read [of "startedSys ?s" 0 "[]" ReadEOF Closing ?s]
      session_step.out_read [of "?y ?s Closing Reading" 0 "[]" ReadEOF Captured ?s1] no
    by (simp_all add: startedSys_def captureStream_def streamDone_def)
  moreover have "session_step (?y ?s1 Captured Reading) (?y ?s1 Captured Closing)" "session_step (?y ?s1 Captured Closing) ?y2"
    using session_step.err_read [of "?y ?s1 Captured Reading" 0 "[]" ReadEOF Closing ?s1]
      session_step.err_read [of "?y ?s1 Captured Closing" 0 "[]" ReadEOF Captured "?s\<lparr>ms_streams := 0\<rparr>"] no
    by (simp_all add: captureStream_def streamDone_def hasHandle_def)
  moreover have c: "session_step ?y2 (sampleEnded keep)"
    using session_step.wait_exit [of ?y2 WaitOK 9] no by (simp add: sampleEnded_def hasHandle_def)
  ultimately show ?thesis by (meson converse_rtranclp_into_rtranclp r_into_rtranclp)
qed

lemma sample_terminal: "isTerminalLocked (ss_session (sampleEnded keep))"
  by (simp add: sampleEnded_def)

lemma sample_start_eq:
  "StartSession (\<lambda>r. Inr \<lparr>rc_Stdin = True, rc_Stdout = False, rc_Stderr = False, rc_Wait = True, rc_Terminate = True\<rparr>)
     None 5 6 (lit ''ls'') [] [] keep sampleManager =
   (Inr (snapshotLocked (sampleSession keep)), snd (sampleStart keep))"
  using sample_started(1) [of keep] by (simp only: sampleStart_def)

theorem session_log_wellformed_witness:
  "length (filter isTerminalEvent (ms_events (ss_session (sampleEnded False)))) = 1"
  using session_log_wellformed [OF sample_start_eq sample_started(2) sample_ends, of False]
    sample_terminal [of False] by simp

theorem finished_session_stable_witness:
  "outcome (ss_session (sampleEnded True\<lparr>ss_session := markStdinClosed 10 (ss_session (sampleEnded True))\<rparr>)) =
   outcome (ss_session (sampleEnded True))"
  by (rule finished_session_stable [OF sample_start_eq sample_started(2) sample_ends sample_terminal
        r_into_rtranclp [of session_step, OF session_step.close_stdin]])

theorem watch_delivers_exactly_witness:
  "WatchSession (\<lambda>e. None) (snd (sampleStart False)) (lit ''sess-1'') 1
     (map (\<lambda>y. (ss_session y, None)) ([] @ [sampleEnded False])) =
   (WatchDone, upToTerminal (filter (\<lambda>e. 1 < ev_EventIndex e) (ms_events (ss_session (sampleEnded False)))))"
proof (rule watch_delivers_exactly [OF sample_start_eq sample_started(2)])
  have one: "sessionID 1 = lit ''sess-1''" by code_simp
  have "trimSpace (lit ''sess-1'') = lit ''sess-1''" by code_simp
  then show "lookup (snd (sampleStart False)) (lit ''sess-1'') = Inr (sampleSession False)"
    using sample_started(2,5) [of False] by (simp add: lookup_Inr one snapshotLocked_def)
qed (simp_all add: sample_ends sample_terminal)

theorem session_can_finish_witness:
  "\<exists>y'. session_step\<^sup>*\<^sup>* (startedSys (sampleSession True)) y' \<and> isTerminalLocked (ss_session y')"
  by (rule session_can_finish [OF sample_start_eq sample_started(2,3) rtranclp.rtrancl_refl])

theorem StartSession_registers_witness:
  "GetSession (snd (sampleStart True)) (lit ''sess-1'') = Inr (snapshotLocked (sampleSession True))"
proof -
  have one: "sessionID 1 = lit ''sess-1''" by code_simp
  have "mg_nextID sampleManager < - 1" by (simp add: sampleManager_def word_gt_0)
  from StartSession_registers [OF sample_started(4) this,
      of "\<lambda>r. Inr \<lparr>rc_Stdin = True, rc_Stdout = False, rc_Stderr = False, rc_Wait = True, rc_Terminate = True\<rparr>"
        None 5 6 "lit ''ls''" "[]" "[]" True]
  show ?thesis using sample_started(5) [of True] by (simp add: sample_start_eq one snapshotLocked_def)
qed

definition sampleTwo :: Manager where
  "sampleTwo =
     sampleManager\<lparr>mg_nextID := 2,
       mg_sessions := [(sessionID 2, (sampleSession True)\<lparr>ms_id := sessionID 2\<rparr>),
                       (sessionID 1, (sampleSession True)\<lparr>ms_id := sessionID 1\<rparr>)]\<rparr>"

lemma sampleTwo_ok: "managerOK sampleTwo"
proof -
  have "sessionID i \<noteq> []" for i by (simp add: sessionID_def)
  moreover have "(0 :: 64 word) < 1" "(1 :: 64 word) \<le> 2" "(0 :: 64 word) < 2" by (simp_all add: word_gt_0)
  moreover have "(1 :: 64 word) \<noteq> 2" by simp
  ultimately show ?thesis
    by (auto simp: managerOK_def filed_def sampleTwo_def sessionID_inj sessionID_trimmed)
qed

theorem ListSessions_deterministic_witness:
  "ListSessions (sampleTwo\<lparr>mg_sessions := rev (mg_sessions sampleTwo)\<rparr>) = ListSessions sampleTwo"
  using ListSessions_deterministic [OF sampleTwo_ok, of "rev (mg_sessions sampleTwo)"] by simp

theorem stdin_close_is_final_witness:
  "fst (WriteSessionStdin (1, None) None 8 (sessionID 1) [65] False
     (snd (snd (WriteSessionStdin (0, None) None 7 (sessionID 1) [] True sampleTwo)))) = Inl SessionStdinClosed"
proof -
  let ?w = "WriteSessionStdin (0, None) None 7 (sessionID 1) [] True sampleTwo"
  have look: "lookup sampleTwo (sessionID 1) = Inr ((sampleSession True)\<lparr>ms_id := sessionID 1\<rparr>)"
    by (simp add: lookup_Inr sessionID_trimmed sampleTwo_def sessionID_inj) (simp add: sessionID_def)
  have "hasHandle rc_Stdin (sampleSession True)"
  proof -
    have "trimSpace (lit ''ls'') = lit ''ls''" by code_simp
    then show ?thesis
      by (simp add: sampleStart_def sampleSession_def StartSession_def Let_def sampleManager_def
        putSession_def newSession_def appendEventLocked_def hasHandle_def)
  qed
  then have "\<exists>snap n m'. ?w = (Inr snap, n, m')"
    using sample_started(6) [of True] by (simp add: WriteSessionStdin_def look Let_def hasHandle_def)
  then obtain snap n m' where w: "?w = (Inr snap, n, m')" by blast
  from stdin_close_is_final [OF sampleTwo_ok w, of "[65]" False "(1, None)" None 8]
  show ?thesis by (simp add: w)
qed

theorem mergeEnv_overrides_witness:
  "lastFor (lit ''A'') (mergeEnv [lit ''A=1'', lit ''B=2''] [lit ''A=3'']) = Some (lit ''A=3'')"
proof -
  have "lastFor (lit ''A'') [lit ''A=3''] = Some (lit ''A=3'')" by code_simp
  with mergeEnv_overrides [of "lit ''A''" "[lit ''A=1'', lit ''B=2'']" "[lit ''A=3'']"]
  show ?thesis by simp
qed

end
