(* ===== verification/Cron_Expr.thy ===== *)
theory Cron_Expr
  imports Go_Format
begin

text \<open>
  The strict five-field cron expressions of the background controllers,
  \<open>systems/agent/internal/cronexpr\<close>.  The parser and the search for occurrences belong to the
  third-party package go-cron: a parsed schedule is the pair of its two search functions, and
  the parser is an argument of \<open>Parse\<close>.  \<open>Prev\<close> asserts an optional interface of a schedule, so
  that function may be absent.
\<close>

record cronSchedule =
  cs_Next :: "time \<Rightarrow> time"
  cs_Prev :: "(time \<Rightarrow> time) option"

datatype cron_error =
    SpecRequired | MacrosUnsupported | TimezonesUnsupported | FiveFields | FieldRequired
  | UnsupportedToken rune | EmptyListItem | InvalidStep gostr | StepBase | ParserError gostr

type_synonym cron_parser = "gostr \<Rightarrow> gostr + cronSchedule"

definition validateStep :: "gostr \<Rightarrow> cron_error option" where
  "validateStep item =
     (if \<not> containsStr item (lit ''/'') then None
      else case splitRune 47 item of
          [base, step] \<Rightarrow>
            (let base = trimSpace base; step = trimSpace step in
             firstError
               [errIf (base = [] \<or> step = []) (InvalidStep item),
                errIf (base \<noteq> lit ''*'' \<and> \<not> containsStr base (lit ''-'')) StepBase])
        | _ \<Rightarrow> Some (InvalidStep item))"

definition validateItem :: "gostr \<Rightarrow> cron_error option" where
  "validateItem item =
     (let item = trimSpace item in if item = [] then Some EmptyListItem else validateStep item)"

definition validateToken :: "rune \<Rightarrow> cron_error option" where
  "validateToken r = errIf (\<not> (isDigit r \<or> r \<in> {42, 44, 45, 47})) (UnsupportedToken r)"

definition validateField :: "gostr \<Rightarrow> cron_error option" where
  "validateField field =
     (let field = trimSpace field in
      firstError
        [errIf (field = []) FieldRequired,
         forErr 0 (\<lambda>_. validateToken) field,
         forErr 0 (\<lambda>_. validateItem) (splitRune 44 field)])"

definition validateSpec :: "gostr \<Rightarrow> cron_error option" where
  "validateSpec raw =
     firstError
       [errIf (raw = []) SpecRequired,
        errIf (hasPrefix raw (lit ''@'')) MacrosUnsupported,
        errIf (hasPrefix raw (lit ''TZ='') \<or> hasPrefix raw (lit ''CRON_TZ='')) TimezonesUnsupported,
        errIf (length (fieldsSpace raw) \<noteq> 5) FiveFields,
        forErr 0 (\<lambda>_. validateField) (fieldsSpace raw)]"

definition Parse :: "cron_parser \<Rightarrow> gostr \<Rightarrow> cron_error + cronSchedule" where
  "Parse parser raw =
     (let raw = trimSpace raw in
      case validateSpec raw of
        Some e \<Rightarrow> Inl e
      | None \<Rightarrow> (case parser raw of Inl msg \<Rightarrow> Inl (ParserError msg) | Inr s \<Rightarrow> Inr s))"

text \<open>\<open>None\<close> is the bool \<open>false\<close>; the zero time of the library means no match.\<close>

definition Next :: "cronSchedule \<Rightarrow> time \<Rightarrow> time option" where
  "Next e after = (let t = cs_Next e after in if t = 0 then None else Some t)"

definition Prev :: "cronSchedule \<Rightarrow> time \<Rightarrow> time option" where
  "Prev e before =
     (case cs_Prev e of
        None \<Rightarrow> None
      | Some prev \<Rightarrow> (let t = prev before in if t = 0 then None else Some t))"

section \<open>What an accepted expression looks like\<close>

text \<open>A field of the documented subset: a comma-separated list of items over digits, \<open>*\<close> and \<open>-\<close>,
  each with at most one step, and a step only on \<open>*\<close> or a range.\<close>

definition stepOK :: "gostr \<Rightarrow> bool" where
  "stepOK item \<longleftrightarrow>
     47 \<notin> set item \<or>
     (\<exists>base step. item = base @ [47] @ step \<and> 47 \<notin> set (base @ step) \<and> base \<noteq> [] \<and> step \<noteq> [] \<and>
        (base = [42] \<or> 45 \<in> set base))"

definition fieldOK :: "gostr \<Rightarrow> bool" where
  "fieldOK field \<longleftrightarrow>
     list_all (\<lambda>r. isDigit r \<or> r \<in> {42, 44, 45, 47}) field \<and>
     list_all (\<lambda>item. item \<noteq> [] \<and> stepOK item) (splitRune 44 field)"

lemma isDigit_no_space: "isDigit r \<Longrightarrow> \<not> isSpace r"
proof -
  have "list_all (\<lambda>(a, b). list_all (\<lambda>(c, d). b < c \<or> d < a) space_ranges) digit_ranges" by code_simp
  then show "isDigit r \<Longrightarrow> \<not> isSpace r"
    by (force simp: isDigit_def isSpace_def list_all_iff list_ex_iff)
qed

lemma tokens_trimmed:
  "list_all (\<lambda>r. isDigit r \<or> r \<in> {42, 44, 45, 47}) s \<Longrightarrow> trimSpace s = s"
proof -
  assume a: "list_all (\<lambda>r. isDigit r \<or> r \<in> {42, 44, 45, 47}) s"
  have "\<not> isSpace r" if "r \<in> set s" for r
    using a that isDigit_no_space by (auto simp: list_all_iff isSpace_small)
  then show ?thesis by (auto simp: trimSpace_fixed)
qed

lemma validateStep_None:
  assumes "list_all (\<lambda>r. isDigit r \<or> r \<in> {42, 44, 45, 47}) item"
  shows "validateStep item = None \<longleftrightarrow> stepOK item"
proof (cases "47 \<in> set item")
  case True
  have trim: "trimSpace w = w" if "w \<in> set (splitRune 47 item)" for w
  proof -
    have "set w \<subseteq> set item" using that by (rule splitRune_subset)
    with assms show ?thesis by (intro tokens_trimmed) (auto simp: list_all_iff)
  qed
  show ?thesis
  proof (cases "\<exists>base step. splitRune 47 item = [base, step]")
    case split: True
    then obtain base step where bs: "splitRune 47 item = [base, step]" by blast
    with splitRune_join [of 47 item] have item: "item = base @ [47] @ step"
      and no: "47 \<notin> set base" "47 \<notin> set step" by auto
    have "stepOK item \<longleftrightarrow> base \<noteq> [] \<and> step \<noteq> [] \<and> (base = [42] \<or> 45 \<in> set base)"
    proof -
      have "b = base \<and> t = step" if "item = b @ [47] @ t" "47 \<notin> set (b @ t)" for b t
        using that splitRune_pair [of 47 b t] splitRune_none [of 47 t] bs by auto
      then have "stepOK item \<Longrightarrow> base \<noteq> [] \<and> step \<noteq> [] \<and> (base = [42] \<or> 45 \<in> set base)"
        using True unfolding stepOK_def by blast
      moreover have "stepOK item" if "base \<noteq> [] \<and> step \<noteq> [] \<and> (base = [42] \<or> 45 \<in> set base)"
        unfolding stepOK_def using that item no
        by (intro disjI2 exI [of _ base] exI [of _ step]) simp
      ultimately show ?thesis by blast
    qed
    with bs trim True show ?thesis
      by (auto simp: validateStep_def lit_eval containsStr_single Let_def)
  next
    case False
    have "\<not> stepOK item"
    proof
      assume "stepOK item"
      with True obtain b t where "item = b @ [47] @ t" "47 \<notin> set (b @ t)" by (auto simp: stepOK_def)
      with splitRune_pair [of 47 b t] splitRune_none [of 47 t] False show False by auto
    qed
    moreover have "validateStep item = Some (InvalidStep item)"
      using False True by (auto simp: validateStep_def lit_eval containsStr_single split: list.splits)
    ultimately show ?thesis by simp
  qed
next
  case False
  then show ?thesis by (simp add: validateStep_def stepOK_def lit_eval containsStr_single)
qed

lemma validateField_None:
  assumes "field \<noteq> []" and "trimSpace field = field"
  shows "validateField field = None \<longleftrightarrow> fieldOK field"
proof -
  have tok: "forErr 0 (\<lambda>_. validateToken) field = None \<longleftrightarrow>
      list_all (\<lambda>r. isDigit r \<or> r \<in> {42, 44, 45, 47}) field"
    by (auto simp: forErr_None_const validateToken_def list_all_iff)
  have item: "validateItem w = None \<longleftrightarrow> w \<noteq> [] \<and> stepOK w"
    if "list_all (\<lambda>r. isDigit r \<or> r \<in> {42, 44, 45, 47}) field" "w \<in> set (splitRune 44 field)" for w
  proof -
    have w: "list_all (\<lambda>r. isDigit r \<or> r \<in> {42, 44, 45, 47}) w"
      using that splitRune_subset [OF that(2)] by (auto simp: list_all_iff)
    show ?thesis
      using validateStep_None [OF w] tokens_trimmed [OF w] by (simp add: validateItem_def Let_def)
  qed
  show ?thesis
  proof (cases "list_all (\<lambda>r. isDigit r \<or> r \<in> {42, 44, 45, 47}) field")
    case True
    have "forErr 0 (\<lambda>_. validateItem) (splitRune 44 field) = None \<longleftrightarrow>
        list_all (\<lambda>item. item \<noteq> [] \<and> stepOK item) (splitRune 44 field)"
      using item [OF True] by (simp add: forErr_None_const list_all_iff)
    with True tok assms show ?thesis by (simp add: validateField_def fieldOK_def Let_def)
  next
    case False
    with tok assms show ?thesis by (simp add: validateField_def fieldOK_def Let_def)
  qed
qed

lemma fieldsFunc_fields: "\<forall>w \<in> set (fieldsFunc p s). w \<noteq> [] \<and> (\<forall>r \<in> set w. \<not> p r)"
proof (induction p s rule: fieldsFunc.induct)
  case (2 p r s)
  show ?case
  proof (cases "p r")
    case False
    have "\<not> p c" if "c \<in> set (takeWhile (\<lambda>c. \<not> p c) s)" for c
      using set_takeWhileD [OF that] by blast
    then have head: "\<forall>c \<in> set (r # takeWhile (\<lambda>c. \<not> p c) s). \<not> p c" using False by auto
    have eq: "fieldsFunc p (r # s) =
        (r # takeWhile (\<lambda>c. \<not> p c) s) # fieldsFunc p (dropWhile (\<lambda>c. \<not> p c) s)"
      using False by (simp only: fieldsFunc.simps if_False)
    show ?thesis unfolding eq set_simps(2) using head 2(2) [OF False] by blast
  next
    case True
    have "fieldsFunc p (r # s) = fieldsFunc p s" using True by (simp only: fieldsFunc.simps if_True)
    with 2(1) [OF True] show ?thesis by (simp only:)
  qed
qed simp

lemma fieldsSpace_trimmed:
  assumes "w \<in> set (fieldsSpace s)"
  shows "w \<noteq> [] \<and> trimSpace w = w"
proof -
  have "w \<noteq> []" "\<forall>r \<in> set w. \<not> isSpace r" using fieldsFunc_fields [of isSpace s] assms by blast+
  then show ?thesis by (simp add: trimSpace_fixed)
qed

text \<open>
  C37: the strict parser accepts exactly the documented subset: five fields, each a list of
  items over digits, \<open>*\<close> and \<open>-\<close> with steps only on \<open>*\<close> or a range, that the cron library also
  parses; macros and time zones fall outside it.
\<close>

theorem Parse_accepts_iff:
  "Parse parser raw = Inr s \<longleftrightarrow>
   length (fieldsSpace (trimSpace raw)) = 5 \<and> list_all fieldOK (fieldsSpace (trimSpace raw)) \<and>
   parser (trimSpace raw) = Inr s"
proof -
  let ?raw = "trimSpace raw" and ?fs = "fieldsSpace (trimSpace raw)"
  have fields: "forErr 0 (\<lambda>_. validateField) ?fs = None \<longleftrightarrow> list_all fieldOK ?fs"
    using validateField_None fieldsSpace_trimmed by (auto simp: forErr_None_const list_all_iff)
  have hd_ok: "?raw \<noteq> [] \<and> (isDigit (hd ?raw) \<or> hd ?raw \<in> {42, 44, 45, 47})"
    if five: "length ?fs = 5" and ok: "list_all fieldOK ?fs"
  proof -
    have ne: "?raw \<noteq> []" using five by auto
    have ns: "\<not> isSpace (hd ?raw)" using trimSpace_fixed [of ?raw] ne by auto
    obtain r t where rt: "?raw = r # t" using ne by (cases ?raw) auto
    with ns have "?fs = (r # takeWhile (\<lambda>c. \<not> isSpace c) t) # fieldsSpace (dropWhile (\<lambda>c. \<not> isSpace c) t)"
      by simp
    with ok have "fieldOK (r # takeWhile (\<lambda>c. \<not> isSpace c) t)" by simp
    with rt show ?thesis by (simp add: fieldOK_def)
  qed
  have digit_letters: "\<not> isDigit 64" "\<not> isDigit 84" "\<not> isDigit 67" by code_simp+
  have "validateSpec ?raw = None \<longleftrightarrow> length ?fs = 5 \<and> list_all fieldOK ?fs"
  proof (cases "length ?fs = 5 \<and> list_all fieldOK ?fs")
    case True
    with hd_ok have hd: "?raw \<noteq> []" "isDigit (hd ?raw) \<or> hd ?raw \<in> {42, 44, 45, 47}" by auto
    with digit_letters have "\<not> hasPrefix ?raw (lit ''@'')" "\<not> hasPrefix ?raw (lit ''TZ='')"
      "\<not> hasPrefix ?raw (lit ''CRON_TZ='')"
      by (auto simp: lit_eval elim!: hasPrefixE)
    with True hd fields show ?thesis by (simp add: validateSpec_def)
  next
    case False
    with fields show ?thesis by (auto simp: validateSpec_def)
  qed
  then show ?thesis by (auto simp: Parse_def Let_def split: option.splits sum.splits)
qed

end
