(* ===== verification/Schedule_Types.thy ===== *)
theory Schedule_Types
  imports Cron_Expr
begin

text \<open>
  The data of the scheduler, \<open>systems/agent/internal/schedule/types.go\<close>, and the pure functions of
  \<open>manager.go\<close> on it: normalization and validation of owners, models, tools and jobs, the
  preparation of a schedule, run records and notification texts.  \<open>Kind\<close>, \<open>Status\<close> and
  \<open>ContextProfile\<close> are string types in the source and stay strings here, so that a stored job may
  hold any value.  A nil slice of tool names is \<open>None\<close>: the JSON of a job tells it from an empty
  one.  Converting a time to UTC does not change the instant and is the identity.  The run id
  is a name-based UUID of the job id and the start time, computed by the package google/uuid:
  the argument \<open>uuid\<close>.
\<close>

section \<open>Data\<close>

type_synonym Kind = gostr
type_synonym Status = gostr
type_synonym ContextProfile = gostr

definition JobSchemaVersion :: int where "JobSchemaVersion = 1"

definition KindOneShot :: Kind where "KindOneShot = lit ''oneshot''"
definition KindRecurring :: Kind where "KindRecurring = lit ''recurring''"

definition ContextProfileMinimal :: ContextProfile where "ContextProfileMinimal = lit ''minimal''"
definition ContextProfileAgent :: ContextProfile where "ContextProfileAgent = lit ''agent''"

definition StatusPending :: Status where "StatusPending = lit ''pending''"
definition StatusRunning :: Status where "StatusRunning = lit ''running''"
definition StatusSucceeded :: Status where "StatusSucceeded = lit ''succeeded''"
definition StatusFailed :: Status where "StatusFailed = lit ''failed''"
definition StatusInterrupted :: Status where "StatusInterrupted = lit ''interrupted''"
definition StatusModelUnavailable :: Status where "StatusModelUnavailable = lit ''model_unavailable''"

lemmas status_defs = StatusPending_def StatusRunning_def StatusSucceeded_def StatusFailed_def
  StatusInterrupted_def StatusModelUnavailable_def

record ModelTarget =
  mt_Provider :: gostr
  mt_Ref :: gostr

definition modelString :: "ModelTarget \<Rightarrow> gostr" where
  "modelString t =
     (if mt_Provider t = [] then mt_Ref t
      else if mt_Ref t = [] then mt_Provider t
      else mt_Provider t @ lit ''/'' @ mt_Ref t)"

record Owner =
  ow_Channel :: gostr
  ow_ChatID :: gostr
  ow_UserID :: gostr

record RunRecord =
  rr_SchemaVersion :: int
  rr_ID :: gostr
  rr_JobID :: gostr
  rr_JobName :: gostr
  rr_Owner :: Owner
  rr_Status :: Status
  rr_Model :: ModelTarget
  rr_AllowedTools :: "gostr list option"
  rr_ScheduledFor :: time
  rr_StartedAt :: time
  rr_FinishedAt :: time
  rr_Output :: gostr
  rr_Error :: gostr
  rr_NotifyError :: gostr

record Notification =
  nt_Channel :: gostr
  nt_ChatID :: gostr
  nt_Text :: gostr
  nt_DeliveredAt :: time

record Job =
  jb_SchemaVersion :: int
  jb_ID :: gostr
  jb_Name :: gostr
  jb_Prompt :: gostr
  jb_ContextProfile :: ContextProfile
  jb_Kind :: Kind
  jb_RunAt :: time
  jb_Cron :: gostr
  jb_Notify :: bool
  jb_Model :: ModelTarget
  jb_MaxTurns :: int
  jb_AllowedTools :: "gostr list option"
  jb_Owner :: Owner
  jb_CreatedAt :: time
  jb_UpdatedAt :: time
  jb_LastRunAt :: time
  jb_LastSuccessAt :: time
  jb_LastFailureAt :: time
  jb_LastScheduledFor :: time
  jb_NextFire :: time
  jb_ConsecutiveFailures :: int
  jb_LastStatus :: Status
  jb_LastError :: gostr
  jb_Done :: bool
  jb_ModelUnavailableNotified :: bool
  jb_PendingRun :: "RunRecord option"
  jb_PendingNotification :: "Notification option"

record CreateRequest =
  cq_Name :: gostr
  cq_Prompt :: gostr
  cq_ContextProfile :: ContextProfile
  cq_Kind :: Kind
  cq_RunAt :: time
  cq_Cron :: gostr
  cq_Notify :: bool
  cq_Model :: ModelTarget
  cq_MaxTurns :: int
  cq_AllowedTools :: "gostr list"

record UpdateRequest =
  uq_Name :: "gostr option"
  uq_Prompt :: "gostr option"
  uq_ContextProfile :: "ContextProfile option"
  uq_Kind :: "Kind option"
  uq_RunAt :: "time option"
  uq_Cron :: "gostr option"
  uq_Notify :: "bool option"
  uq_Model :: "ModelTarget option"
  uq_MaxTurns :: "int option"
  uq_AllowedTools :: "gostr list option"

record RunRequest =
  rn_Job :: Job
  rn_RunID :: gostr
  rn_ScheduledFor :: time
  rn_StartedAt :: time
  rn_CurrentTimeUTC :: time

record RunResult =
  rs_Text :: gostr
  rs_Model :: ModelTarget

record RunFilter =
  rf_JobID :: gostr
  rf_JobName :: gostr
  rf_Statuses :: "Status list"
  rf_Since :: time
  rf_Before :: time
  rf_Limit :: int

record RunQuery =
  rqy_Owner :: Owner
  rqy_Filter :: RunFilter

record RunHistory =
  rh_Matched :: int
  rh_StatusCounts :: "(Status \<times> int) list"
  rh_Runs :: "RunRecord list"

record DeliveredNotification =
  dn_JobID :: gostr
  dn_RunID :: gostr
  dn_Channel :: gostr
  dn_ChatID :: gostr
  dn_Text :: gostr
  dn_DeliveredAt :: time

datatype sched_error =
    OwnerChannelRequired | OwnerChatIDRequired | OwnerUserIDRequired | Unauthorized gostr
  | RunAtRequired | RunAtNotFuture | InvalidCron cron_error | CronNoFuture | BadKind Kind
  | NameRequired | NameTooLong | PromptRequired | PromptTooLong | BadContextProfile
  | BadMaxTurns | ModelProviderRequired | ModelRefRequired | ToolsNotUnique | ToolsWhitespace
  | UnknownModel ModelTarget | UnknownTool gostr | NewIDFailed gostr | NewIDEmpty
  | MaxJobsReached | DuplicateID gostr | StoreFailed gostr | NotFoundErr | JobRunning gostr
  | RunAtOnlyOneShot | CronOnlyRecurring | BadSchema int | IDRequired
  | PendingRunSchema int | PendingRunJobID gostr | PendingRunIDRequired | PendingRunStartRequired
  | PendingRunIdentity gostr gostr | PendingNotificationNoRun | PendingNotificationChannel
  | PendingNotificationChatID | PendingNotificationText | NextFireRequired
  | NotificationStillPending | IntentDisappeared | DeliveryTimestampMissing | RecordDeliveryFailed gostr
  | CompletedWithoutRun | TooManyJobs | BadHistoryLimit | SinceNotBefore | BadRunStatus Status

definition maxNameRunes :: nat where "maxNameRunes = 120"
definition maxPromptRunes :: nat where "maxPromptRunes = 20000"
definition maxOutputRunes :: int where "maxOutputRunes = 20000"
definition maxNotifyRunes :: int where "maxNotifyRunes = 3500"

section \<open>Normalization and validation\<close>

definition normalizeOwner :: "Owner \<Rightarrow> Owner" where
  "normalizeOwner o' =
     \<lparr>ow_Channel = trimSpace (ow_Channel o'), ow_ChatID = trimSpace (ow_ChatID o'),
      ow_UserID = trimSpace (ow_UserID o')\<rparr>"

definition validateOwner :: "Owner \<Rightarrow> sched_error option" where
  "validateOwner o' =
     (let o' = normalizeOwner o' in
      firstError
        [errIf (ow_Channel o' = []) OwnerChannelRequired,
         errIf (ow_ChatID o' = []) OwnerChatIDRequired,
         errIf (ow_UserID o' = []) OwnerUserIDRequired])"

definition sameOwner :: "Owner \<Rightarrow> Owner \<Rightarrow> bool" where
  "sameOwner l r \<longleftrightarrow> normalizeOwner l = normalizeOwner r"

definition normalizeModelTarget :: "ModelTarget \<Rightarrow> ModelTarget" where
  "normalizeModelTarget m = \<lparr>mt_Provider = trimSpace (mt_Provider m), mt_Ref = trimSpace (mt_Ref m)\<rparr>"

definition emptyModel :: ModelTarget where
  "emptyModel = \<lparr>mt_Provider = [], mt_Ref = []\<rparr>"

definition validateModelTarget :: "ModelTarget \<Rightarrow> sched_error option" where
  "validateModelTarget m =
     (let m = normalizeModelTarget m in
      firstError
        [errIf (mt_Provider m = []) ModelProviderRequired, errIf (mt_Ref m = []) ModelRefRequired])"

definition normalizeContextProfile :: "ContextProfile \<Rightarrow> ContextProfile" where
  "normalizeContextProfile p = trimSpace p"

definition validateContextProfile :: "ContextProfile \<Rightarrow> sched_error option" where
  "validateContextProfile p =
     errIf (normalizeContextProfile p \<notin> {ContextProfileMinimal, ContextProfileAgent}) BadContextProfile"

definition normalizeToolNames :: "gostr list \<Rightarrow> gostr list" where
  "normalizeToolNames names = foldl (\<lambda>out n. addFresh out (trimSpace n)) [] names"

text \<open>The names of a possibly nil slice, as \<open>range\<close> and \<open>len\<close> see them.\<close>

definition toolList :: "gostr list option \<Rightarrow> gostr list" where
  "toolList ts = (case ts of None \<Rightarrow> [] | Some ns \<Rightarrow> ns)"

definition validateCanonicalToolNames :: "gostr list \<Rightarrow> sched_error option" where
  "validateCanonicalToolNames names =
     (let normalized = normalizeToolNames names in
      if length normalized \<noteq> length names then Some ToolsNotUnique
      else forErr 0 (\<lambda>i n. errIf (n \<noteq> normalized ! i) ToolsWhitespace) names)"

definition normalizeStoredToolLists :: "Job \<Rightarrow> bool \<times> Job" where
  "normalizeStoredToolLists job =
     (let n1 = (jb_AllowedTools job = None);
          job = (if n1 then job\<lparr>jb_AllowedTools := Some []\<rparr> else job)
      in case jb_PendingRun job of
           None \<Rightarrow> (n1, job)
         | Some r \<Rightarrow>
             if rr_AllowedTools r = None
             then (True, job\<lparr>jb_PendingRun := Some (r\<lparr>rr_AllowedTools := Some []\<rparr>)\<rparr>)
             else (n1, job))"

definition isArchivedRunStatus :: "Status \<Rightarrow> bool" where
  "isArchivedRunStatus s \<longleftrightarrow>
     s \<in> {StatusSucceeded, StatusFailed, StatusInterrupted, StatusModelUnavailable}"

definition prepareSchedule :: "cron_parser \<Rightarrow> Job \<Rightarrow> time \<Rightarrow> bool \<Rightarrow> sched_error + Job" where
  "prepareSchedule parser job now requireFuture =
     (if jb_Kind job = KindOneShot
      then let job = job\<lparr>jb_Cron := []\<rparr> in
        if jb_RunAt job = 0 then Inl RunAtRequired
        else if requireFuture \<and> \<not> now < jb_RunAt job then Inl RunAtNotFuture
        else Inr (job\<lparr>jb_NextFire := jb_RunAt job\<rparr>)
      else if jb_Kind job = KindRecurring
      then let job = job\<lparr>jb_RunAt := 0, jb_Cron := trimSpace (jb_Cron job)\<rparr> in
        case Parse parser (jb_Cron job) of
          Inl e \<Rightarrow> Inl (InvalidCron e)
        | Inr expr \<Rightarrow>
            (case Next expr now of
               None \<Rightarrow> Inl CronNoFuture
             | Some next \<Rightarrow> Inr (job\<lparr>jb_NextFire := next\<rparr>))
      else Inl (BadKind (jb_Kind job)))"

definition validateMutableJob :: "int \<Rightarrow> Job \<Rightarrow> sched_error option" where
  "validateMutableJob maxTurns job =
     firstError
       [errIf (jb_Name job = []) NameRequired,
        errIf (maxNameRunes < length (jb_Name job)) NameTooLong,
        errIf (jb_Prompt job = []) PromptRequired,
        errIf (maxPromptRunes < length (jb_Prompt job)) PromptTooLong,
        validateContextProfile (jb_ContextProfile job),
        errIf (jb_MaxTurns job \<le> 0 \<or> maxTurns < jb_MaxTurns job) BadMaxTurns,
        validateModelTarget (jb_Model job),
        validateCanonicalToolNames (toolList (jb_AllowedTools job))]"

definition validateAvailableModel :: "(ModelTarget \<Rightarrow> bool) \<Rightarrow> ModelTarget \<Rightarrow> sched_error option" where
  "validateAvailableModel modelExists m = errIf (\<not> modelExists m) (UnknownModel m)"

definition validateAvailableTools :: "(gostr \<Rightarrow> bool) \<Rightarrow> gostr list \<Rightarrow> sched_error option" where
  "validateAvailableTools toolExists names = forErr 0 (\<lambda>_ n. errIf (\<not> toolExists n) (UnknownTool n)) names"

definition runID :: "(gostr \<Rightarrow> time \<Rightarrow> gostr) \<Rightarrow> gostr \<Rightarrow> time \<Rightarrow> gostr" where
  "runID uuid jobID startedAt = lit ''run-'' @ uuid (trimSpace jobID) startedAt"

definition validatePendingRun ::
  "(gostr \<Rightarrow> time \<Rightarrow> gostr) \<Rightarrow> Job \<Rightarrow> RunRecord \<Rightarrow> sched_error option"
where
  "validatePendingRun uuid job r =
     firstError
       [errIf (rr_SchemaVersion r \<noteq> JobSchemaVersion) (PendingRunSchema (rr_SchemaVersion r)),
        errIf (rr_JobID r \<noteq> jb_ID job) (PendingRunJobID (rr_JobID r)),
        errIf (trimSpace (rr_ID r) = []) PendingRunIDRequired,
        errIf (rr_StartedAt r = 0) PendingRunStartRequired,
        validateCanonicalToolNames (toolList (rr_AllowedTools r)),
        errIf (rr_ID r \<noteq> runID uuid (jb_ID job) (rr_StartedAt r))
          (PendingRunIdentity (rr_ID r) (runID uuid (jb_ID job) (rr_StartedAt r)))]"

definition validatePendingNotification :: "Job \<Rightarrow> Notification \<Rightarrow> sched_error option" where
  "validatePendingNotification job n =
     firstError
       [errIf (jb_PendingRun job = None) PendingNotificationNoRun,
        errIf (trimSpace (nt_Channel n) = []) PendingNotificationChannel,
        errIf (trimSpace (nt_ChatID n) = []) PendingNotificationChatID,
        errIf (trimSpace (nt_Text n) = []) PendingNotificationText]"

definition validateStoredTiming :: "cron_parser \<Rightarrow> Job \<Rightarrow> sched_error option" where
  "validateStoredTiming parser job =
     (if jb_Kind job = KindOneShot
      then firstError
        [errIf (jb_RunAt job = 0) RunAtRequired,
         errIf (\<not> jb_Done job \<and> jb_NextFire job = 0) NextFireRequired]
      else if jb_Kind job = KindRecurring
      then firstError
        [(case Parse parser (jb_Cron job) of Inl e \<Rightarrow> Some (InvalidCron e) | Inr _ \<Rightarrow> None),
         errIf (jb_NextFire job = 0) NextFireRequired]
      else Some (BadKind (jb_Kind job)))"

definition validateStoredJob ::
  "cron_parser \<Rightarrow> (gostr \<Rightarrow> time \<Rightarrow> gostr) \<Rightarrow> int \<Rightarrow> Job \<Rightarrow> sched_error option"
where
  "validateStoredJob parser uuid maxTurns job =
     firstError
       [errIf (jb_SchemaVersion job \<noteq> JobSchemaVersion) (BadSchema (jb_SchemaVersion job)),
        errIf (trimSpace (jb_ID job) = []) IDRequired,
        validateOwner (jb_Owner job),
        errIf (jb_Name job = []) NameRequired,
        errIf (jb_Prompt job = []) PromptRequired,
        validateContextProfile (jb_ContextProfile job),
        errIf (jb_MaxTurns job \<le> 0 \<or> maxTurns < jb_MaxTurns job) BadMaxTurns,
        validateModelTarget (jb_Model job),
        validateCanonicalToolNames (toolList (jb_AllowedTools job)),
        (case jb_PendingRun job of None \<Rightarrow> None | Some r \<Rightarrow> validatePendingRun uuid job r),
        (case jb_PendingNotification job of None \<Rightarrow> None | Some n \<Rightarrow> validatePendingNotification job n),
        validateStoredTiming parser job]"

section \<open>Run records and notifications\<close>

definition interruptedText :: gostr where
  "interruptedText = lit ''runtime stopped before the scheduled run completed''"

definition markInterrupted :: "Job \<Rightarrow> time \<Rightarrow> Job" where
  "markInterrupted job now =
     job\<lparr>jb_LastStatus := StatusInterrupted, jb_LastError := interruptedText, jb_LastFailureAt := now,
         jb_ConsecutiveFailures := jb_ConsecutiveFailures job + 1,
         jb_ModelUnavailableNotified := False, jb_UpdatedAt := now\<rparr>"

definition interruptedRecord :: "(gostr \<Rightarrow> time \<Rightarrow> gostr) \<Rightarrow> Job \<Rightarrow> time \<Rightarrow> RunRecord" where
  "interruptedRecord uuid job finishedAt =
     (let startedAt = (if jb_LastRunAt job = 0 then finishedAt else jb_LastRunAt job) in
      \<lparr>rr_SchemaVersion = JobSchemaVersion, rr_ID = runID uuid (jb_ID job) startedAt,
       rr_JobID = jb_ID job, rr_JobName = jb_Name job, rr_Owner = jb_Owner job,
       rr_Status = StatusInterrupted, rr_Model = jb_Model job, rr_AllowedTools = jb_AllowedTools job,
       rr_ScheduledFor = jb_LastScheduledFor job, rr_StartedAt = startedAt, rr_FinishedAt = finishedAt,
       rr_Output = [], rr_Error = interruptedText, rr_NotifyError = []\<rparr>)"

definition truncateRunes :: "gostr \<Rightarrow> int \<Rightarrow> gostr" where
  "truncateRunes s limit =
     (if limit \<le> 0 \<or> int (length s) \<le> limit then s
      else if limit = 1 then [8230]
      else take (nat (limit - 1)) s @ [8230])"

definition notificationDisplayName :: "gostr \<Rightarrow> gostr" where
  "notificationDisplayName name =
     (case fieldsSpace name of
        [] \<Rightarrow> lit ''Scheduled job''
      | [field] \<Rightarrow>
          (let parts = fieldsFunc (\<lambda>r. r = 45 \<or> r = 95) field in
           if length parts < 2 then field
           else case joinStr (lit '' '') parts of [] \<Rightarrow> [] | r # rs \<Rightarrow> upper_rune r # rs)
      | ws \<Rightarrow> joinStr (lit '' '') ws)"

definition notificationWithFooter :: "gostr \<Rightarrow> gostr \<Rightarrow> gostr \<Rightarrow> gostr" where
  "notificationWithFooter header body footer =
     (let bodyLimit = maxNotifyRunes - int (length header) - int (length footer) - 4 in
      if bodyLimit \<le> 0 then truncateRunes (header @ [10, 10] @ footer) maxNotifyRunes
      else header @ [10, 10] @ truncateRunes body bodyLimit @ [10, 10] @ footer)"

text \<open>The headers begin with U+23F0, and with U+26A0 U+FE0F when the run failed.\<close>

definition notificationText :: "Job \<Rightarrow> RunRecord \<Rightarrow> gostr" where
  "notificationText job record =
     (let name = notificationDisplayName (jb_Name job);
          body = trimSpace (rr_Output record);
          (header, body) =
            (if rr_Error record \<noteq> []
             then ([9888, 65039, 32] @ name @ lit '' failed'', trimSpace (rr_Error record))
             else ([9200, 32] @ name,
                   if body = [] then lit ''Completed without text output.'' else body));
          footer = lit ''Scheduled for '' @ formatUTC (rr_ScheduledFor record);
          footer = (if jb_Kind job = KindRecurring \<and> jb_NextFire job \<noteq> 0
                    then footer @ [10] @ lit ''Next run '' @ formatUTC (jb_NextFire job) else footer)
      in notificationWithFooter header body footer)"


section \<open>Bounds and canonical tool lists\<close>

lemma truncateRunes_length: "0 < limit \<Longrightarrow> int (length (truncateRunes s limit)) \<le> limit"
  by (auto simp: truncateRunes_def)

lemma truncateRunes_same: "int (length s) \<le> limit \<Longrightarrow> truncateRunes s limit = s"
  by (simp add: truncateRunes_def)

lemma notificationWithFooter_length:
  "int (length (notificationWithFooter header body footer)) \<le> maxNotifyRunes"
proof (cases "maxNotifyRunes - int (length header) - int (length footer) - 4 \<le> 0")
  case True
  moreover have "0 < maxNotifyRunes" by (simp add: maxNotifyRunes_def)
  ultimately show ?thesis
    using truncateRunes_length [of maxNotifyRunes "header @ [10, 10] @ footer"]
    by (simp add: notificationWithFooter_def Let_def)
next
  case False
  let ?limit = "maxNotifyRunes - int (length header) - int (length footer) - 4"
  have "int (length (truncateRunes body ?limit)) \<le> ?limit" using False by (intro truncateRunes_length) simp
  with False show ?thesis by (simp add: notificationWithFooter_def Let_def)
qed

text \<open>
  A notification never exceeds the transport's limit of 3500 characters, however long the
  job's name, its output or its error; and nothing is cut from one that fits.
\<close>

theorem notification_bounded:
  "int (length (notificationText job record)) \<le> maxNotifyRunes \<and>
   (body \<noteq> [] \<and> int (length header + length body + length footer) + 4 \<le> maxNotifyRunes \<longrightarrow>
    notificationWithFooter header body footer = header @ [10, 10] @ body @ [10, 10] @ footer)"
proof (intro conjI impI)
  show "int (length (notificationText job record)) \<le> maxNotifyRunes"
    by (simp add: notificationText_def Let_def notificationWithFooter_length split: prod.splits)
next
  assume fits: "body \<noteq> [] \<and> int (length header + length body + length footer) + 4 \<le> maxNotifyRunes"
  then have "0 < length body" by simp
  with fits have "\<not> maxNotifyRunes - int (length header) - int (length footer) - 4 \<le> 0" by linarith
  with fits show "notificationWithFooter header body footer = header @ [10, 10] @ body @ [10, 10] @ footer"
    by (simp add: notificationWithFooter_def Let_def truncateRunes_same)
qed

theorem notification_bounded_witness:
  "notificationWithFooter [65] [66] [67] = [65, 10, 10, 66, 10, 10, 67]"
  using notification_bounded [of _ _ "[66]" "[65]" "[67]"] by (simp add: maxNotifyRunes_def)

lemma canonical_normalized:
  "distinct (normalizeToolNames names) \<and>
   set (normalizeToolNames names) = trimSpace ` set names - {[]} \<and>
   (\<forall>n \<in> set (normalizeToolNames names). n \<noteq> [] \<and> trimSpace n = n)"
  by (auto simp: normalizeToolNames_def set_foldl_addFresh distinct_foldl_addFresh)

lemma normalizeToolNames_fixed:
  "distinct names \<Longrightarrow> \<forall>n \<in> set names. n \<noteq> [] \<and> trimSpace n = n \<Longrightarrow> normalizeToolNames names = names"
  by (auto simp: normalizeToolNames_def intro!: foldl_addFresh_fixed [of "[]", simplified])

lemma validateCanonicalToolNames_None:
  "validateCanonicalToolNames names = None \<longleftrightarrow> normalizeToolNames names = names"
  by (auto simp: validateCanonicalToolNames_def Let_def forErr_None intro: nth_equalityI)

text \<open>
  The check of a stored tool list accepts exactly the canonical lists: every name trimmed and
  non-empty, no name twice; and normalizing any list of names gives such a list with the same
  trimmed names.
\<close>

theorem tool_lists_canonical:
  "(validateCanonicalToolNames names = None \<longleftrightarrow>
      distinct names \<and> list_all (\<lambda>n. n \<noteq> [] \<and> trimSpace n = n) names) \<and>
   validateCanonicalToolNames (normalizeToolNames names) = None \<and>
   set (normalizeToolNames names) = trimSpace ` set names - {[]}"
proof -
  have eq: "normalizeToolNames ns = ns \<longleftrightarrow> distinct ns \<and> (\<forall>n \<in> set ns. n \<noteq> [] \<and> trimSpace n = n)" for ns
    using canonical_normalized [of ns] normalizeToolNames_fixed [of ns] by metis
  show ?thesis
    unfolding validateCanonicalToolNames_None eq [of names]
    using canonical_normalized [of names] normalizeToolNames_fixed [of "normalizeToolNames names"]
    unfolding list_all_iff by blast
qed

end
