(* ===== verification/Atomic_File.thy ===== *)
theory Atomic_File
  imports Go_Prelude
begin

text \<open>
  A file system with failing system calls, and the durable file mutations of
  \<open>systems/agent/internal/atomicfile\<close> over it.  A path is its list of components from the root.  A
  file's data is \<open>None\<close> while it is empty or half written.  Every system call takes the next
  answer of the world: \<open>Some msg\<close> makes it fail with an I/O error and no effect; after the last
  answer everything succeeds.  The world remembers every state the file system went through,
  so that a statement about all of them is one about a crash at any moment.  \<open>os.CreateTemp\<close>
  promises a name that is not in use; here it is the prefix followed by more zeros than any name
  in the file system has characters.  \<open>fsync\<close> has no effect on the visible state.
\<close>

section \<open>The file system\<close>

type_synonym path = "gostr list"

datatype 'c node = DirNode | FileNode "'c option"

type_synonym 'c fs = "(path \<times> 'c node) list"

record 'c world =
  w_fs :: "'c fs"
  w_past :: "'c fs list"
  w_answers :: "gostr option list"

datatype io_error =
    NotExist | AlreadyExist | NotDir | IsDir | DirNotEmpty | NotADirectory path | RootMissing path
  | Sys gostr | Wrapped gostr io_error

type_synonym ('e, 'c, 'a) act = "'c world \<Rightarrow> ('e + 'a) \<times> 'c world"

definition isNotExist :: "io_error \<Rightarrow> bool" where
  "isNotExist e \<longleftrightarrow> e = NotExist"

definition isExist :: "io_error \<Rightarrow> bool" where
  "isExist e \<longleftrightarrow> e = AlreadyExist"

definition isDirNode :: "'c node \<Rightarrow> bool" where
  "isDirNode n \<longleftrightarrow> (case n of DirNode \<Rightarrow> True | FileNode _ \<Rightarrow> False)"

subsection \<open>Sequencing\<close>

definition retA :: "'a \<Rightarrow> ('e, 'c, 'a) act" where
  "retA x w = (Inr x, w)"

definition failA :: "'e \<Rightarrow> ('e, 'c, 'a) act" where
  "failA e w = (Inl e, w)"

definition bindA :: "('e, 'c, 'a) act \<Rightarrow> ('a \<Rightarrow> ('e, 'c, 'b) act) \<Rightarrow> ('e, 'c, 'b) act" where
  "bindA m k w = (case m w of (Inl e, w') \<Rightarrow> (Inl e, w') | (Inr x, w') \<Rightarrow> k x w')"

definition handleA ::
  "('e, 'c, 'a) act \<Rightarrow> ('a \<Rightarrow> ('f, 'c, 'b) act) \<Rightarrow> ('e \<Rightarrow> ('f, 'c, 'b) act) \<Rightarrow> ('f, 'c, 'b) act"
where
  "handleA m k h w = (case m w of (Inl e, w') \<Rightarrow> h e w' | (Inr x, w') \<Rightarrow> k x w')"

definition mapErr :: "('e \<Rightarrow> 'f) \<Rightarrow> ('e, 'c, 'a) act \<Rightarrow> ('f, 'c, 'a) act" where
  "mapErr f m = handleA m retA (\<lambda>e. failA (f e))"

text \<open>Go's \<open>defer func() { if err != nil { _ = cleanup() } }()\<close>.\<close>

definition onErrorA :: "('e, 'c, 'a) act \<Rightarrow> ('f, 'c, 'b) act \<Rightarrow> ('e, 'c, 'a) act" where
  "onErrorA m cleanup = handleA m retA (\<lambda>e. handleA cleanup (\<lambda>_. failA e) (\<lambda>_. failA e))"

definition guardA :: "'e option \<Rightarrow> ('e, 'c, unit) act" where
  "guardA r = (case r of None \<Rightarrow> retA () | Some e \<Rightarrow> failA e)"

subsection \<open>System calls\<close>

definition answer :: "'c world \<Rightarrow> gostr option \<times> 'c world" where
  "answer w = (case w_answers w of [] \<Rightarrow> (None, w) | a # as \<Rightarrow> (a, w\<lparr>w_answers := as\<rparr>))"

definition sysCall :: "('c fs \<Rightarrow> io_error + 'a \<times> 'c fs) \<Rightarrow> (io_error, 'c, 'a) act" where
  "sysCall f w =
     (case answer w of
        (Some msg, w') \<Rightarrow> (Inl (Sys msg), w')
      | (None, w') \<Rightarrow>
          (case f (w_fs w') of
             Inl e \<Rightarrow> (Inl e, w')
           | Inr (x, fs') \<Rightarrow> (Inr x, w'\<lparr>w_fs := fs', w_past := w_fs w' # w_past w'\<rparr>)))"

definition blocked :: "'c fs \<Rightarrow> path \<Rightarrow> bool" where
  "blocked fs p \<longleftrightarrow>
     list_ex (\<lambda>k. case map_of fs (take k p) of Some (FileNode _) \<Rightarrow> True | _ \<Rightarrow> False) [0..<length p]"

definition statFs :: "'c fs \<Rightarrow> path \<Rightarrow> io_error + 'c node" where
  "statFs fs p =
     (if blocked fs p then Inl NotDir
      else case map_of fs p of None \<Rightarrow> Inl NotExist | Some n \<Rightarrow> Inr n)"

definition stat :: "path \<Rightarrow> (io_error, 'c, 'c node) act" where
  "stat p = sysCall (\<lambda>fs. case statFs fs p of Inl e \<Rightarrow> Inl e | Inr n \<Rightarrow> Inr (n, fs))"

definition readFile :: "path \<Rightarrow> (io_error, 'c, 'c option) act" where
  "readFile p = sysCall (\<lambda>fs. case statFs fs p of
       Inl e \<Rightarrow> Inl e
     | Inr DirNode \<Rightarrow> Inl IsDir
     | Inr (FileNode d) \<Rightarrow> Inr (d, fs))"

definition parentError :: "'c fs \<Rightarrow> path \<Rightarrow> io_error option" where
  "parentError fs p =
     (case statFs fs (butlast p) of
        Inl e \<Rightarrow> Some e
      | Inr n \<Rightarrow> errIf (\<not> isDirNode n) NotDir)"

definition mkdir :: "path \<Rightarrow> (io_error, 'c, unit) act" where
  "mkdir p = sysCall (\<lambda>fs. case statFs fs p of
       Inr _ \<Rightarrow> Inl AlreadyExist
     | Inl _ \<Rightarrow>
         (case parentError fs p of
            Some e \<Rightarrow> Inl e
          | None \<Rightarrow> Inr ((), AList.update p DirNode fs)))"

definition tempPrefix :: gostr where
  "tempPrefix = lit ''.tmp-''"

definition freshTemp :: "'c fs \<Rightarrow> path \<Rightarrow> path" where
  "freshTemp fs dir =
     dir @ [tempPrefix @ replicate (Suc (sum_list (map (\<lambda>(p, _). length (concat p)) fs))) 48]"

definition createTemp :: "path \<Rightarrow> (io_error, 'c, path) act" where
  "createTemp dir = sysCall (\<lambda>fs.
     let p = freshTemp fs dir in
     case parentError fs p of
       Some e \<Rightarrow> Inl e
     | None \<Rightarrow> Inr (p, AList.update p (FileNode None) fs))"

text \<open>Writing through the descriptor of the open file at \<open>p\<close>.\<close>

definition writeOpen :: "path \<Rightarrow> 'c option \<Rightarrow> (io_error, 'c, unit) act" where
  "writeOpen p c = sysCall (\<lambda>fs. case map_of fs p of
       Some (FileNode _) \<Rightarrow> Inr ((), AList.update p (FileNode c) fs)
     | _ \<Rightarrow> Inr ((), fs))"

definition noEffect :: "(io_error, 'c, unit) act" where
  "noEffect = sysCall (\<lambda>fs. Inr ((), fs))"

definition rename :: "path \<Rightarrow> path \<Rightarrow> (io_error, 'c, unit) act" where
  "rename old new = sysCall (\<lambda>fs. case (statFs fs old, parentError fs new) of
       (Inl e, _) \<Rightarrow> Inl e
     | (Inr _, Some e) \<Rightarrow> Inl e
     | (Inr n, None) \<Rightarrow>
         (if isDirNode n \<or> map_of fs new = Some DirNode then Inl IsDir
          else Inr ((), AList.update new n (AList.delete old fs))))"

definition removePath :: "path \<Rightarrow> (io_error, 'c, unit) act" where
  "removePath p = sysCall (\<lambda>fs. case statFs fs p of
       Inl e \<Rightarrow> Inl e
     | Inr n \<Rightarrow>
         (if isDirNode n \<and> list_ex (\<lambda>(q, _). q \<noteq> [] \<and> butlast q = p) fs then Inl DirNotEmpty
          else Inr ((), AList.delete p fs)))"

section \<open>Package atomicfile\<close>

definition SyncDirectory :: "path \<Rightarrow> (io_error, 'c, unit) act" where
  "SyncDirectory p = bindA (stat p) (\<lambda>_. noEffect)"

definition mkdirUnlessThere :: "path \<Rightarrow> (io_error, 'c, unit) act" where
  "mkdirUnlessThere p =
     handleA (mkdir p) retA
       (\<lambda>e. if \<not> isExist e then failA e
            else bindA (stat p) (\<lambda>n. if isDirNode n then retA () else failA (NotADirectory p)))"

fun ensureDirectoryRev :: "gostr list \<Rightarrow> (io_error, 'c, unit) act" where
  "ensureDirectoryRev [] =
     handleA (stat [])
       (\<lambda>n. if isDirNode n then retA () else failA (NotADirectory []))
       (\<lambda>e. if isNotExist e then failA (RootMissing []) else failA e)"
| "ensureDirectoryRev (c # cs) =
     handleA (stat (rev (c # cs)))
       (\<lambda>n. if isDirNode n then retA () else failA (NotADirectory (rev (c # cs))))
       (\<lambda>e. if \<not> isNotExist e then failA e
            else bindA (ensureDirectoryRev cs) (\<lambda>_.
                 bindA (mkdirUnlessThere (rev (c # cs))) (\<lambda>_. SyncDirectory (rev cs))))"

definition EnsureDirectory :: "path \<Rightarrow> (io_error, 'c, unit) act" where
  "EnsureDirectory p = ensureDirectoryRev (rev p)"

text \<open>Filling the temporary file \<open>tmp\<close> and renaming it to \<open>p\<close>.\<close>

definition installTemp :: "path \<Rightarrow> 'c option \<Rightarrow> path \<Rightarrow> (io_error, 'c, unit) act" where
  "installTemp p c tmp =
     bindA (mapErr (Wrapped (lit ''write temp file'')) (onErrorA (writeOpen tmp c) noEffect)) (\<lambda>_.
     bindA (mapErr (Wrapped (lit ''sync temp file'')) (onErrorA noEffect noEffect)) (\<lambda>_.
     bindA (mapErr (Wrapped (lit ''close temp file'')) noEffect) (\<lambda>_.
     bindA (mapErr (Wrapped (lit ''rename temp file'')) (rename tmp p)) (\<lambda>_.
     mapErr (Wrapped (lit ''sync parent dir'')) (SyncDirectory (butlast p))))))"

definition WriteBytes :: "path \<Rightarrow> 'c option \<Rightarrow> (io_error, 'c, unit) act" where
  "WriteBytes p c =
     bindA (mapErr (Wrapped (lit ''create parent dir'')) (EnsureDirectory (butlast p))) (\<lambda>_.
     bindA (mapErr (Wrapped (lit ''create temp file'')) (createTemp (butlast p))) (\<lambda>tmp.
     onErrorA (installTemp p c tmp) (removePath tmp)))"

definition Remove :: "path \<Rightarrow> (io_error, 'c, unit) act" where
  "Remove p =
     bindA (removePath p) (\<lambda>_. mapErr (Wrapped (lit ''sync parent dir'')) (SyncDirectory (butlast p)))"

section \<open>Reasoning about actions\<close>

text \<open>
  \<open>since base w\<close> are the states the file system has been in since the remembered states were
  \<open>base\<close>, the present one included.  \<open>triple I P m Q E\<close>: run where \<open>P\<close> holds and the invariant
  \<open>I\<close> has held since \<open>base\<close>, \<open>m\<close> keeps \<open>I\<close> in every state it goes through, and \<open>Q\<close> holds of
  its result or \<open>E\<close> of its error.
\<close>

definition safeSince :: "'c fs list \<Rightarrow> ('c fs \<Rightarrow> bool) \<Rightarrow> 'c world \<Rightarrow> bool" where
  "safeSince base I w \<longleftrightarrow> I (w_fs w) \<and> (\<exists>news. w_past w = news @ base \<and> list_all I news)"

definition triple ::
  "('c fs \<Rightarrow> bool) \<Rightarrow> ('c fs \<Rightarrow> bool) \<Rightarrow> ('e, 'c, 'a) act \<Rightarrow> ('a \<Rightarrow> 'c fs \<Rightarrow> bool) \<Rightarrow>
   ('e \<Rightarrow> 'c fs \<Rightarrow> bool) \<Rightarrow> bool"
where
  "triple I P m Q E \<longleftrightarrow>
     (\<forall>base w r w'. safeSince base I w \<longrightarrow> P (w_fs w) \<longrightarrow> m w = (r, w') \<longrightarrow>
        safeSince base I w' \<and> (case r of Inl e \<Rightarrow> E e (w_fs w') | Inr x \<Rightarrow> Q x (w_fs w')))"

lemma tripleD:
  "triple I P m Q E \<Longrightarrow> m w = (r, w') \<Longrightarrow> safeSince base I w \<Longrightarrow> P (w_fs w) \<Longrightarrow>
   safeSince base I w' \<and> (case r of Inl e \<Rightarrow> E e (w_fs w') | Inr x \<Rightarrow> Q x (w_fs w'))"
  unfolding triple_def by blast

lemma tripleI:
  "(\<And>base w r w'. safeSince base I w \<Longrightarrow> P (w_fs w) \<Longrightarrow> m w = (r, w') \<Longrightarrow>
      safeSince base I w' \<and> (case r of Inl e \<Rightarrow> E e (w_fs w') | Inr x \<Rightarrow> Q x (w_fs w'))) \<Longrightarrow> triple I P m Q E"
  unfolding triple_def by blast

lemma safeSince_start: "I (w_fs w) \<Longrightarrow> safeSince (w_past w) I w"
  by (simp add: safeSince_def)

lemma safeSince_fs: "safeSince base I w \<Longrightarrow> w_fs w' = w_fs w \<Longrightarrow> w_past w' = w_past w \<Longrightarrow> safeSince base I w'"
  by (simp add: safeSince_def)

lemma safeSince_step:
  "safeSince base I w \<Longrightarrow> I fs' \<Longrightarrow> w_fs w' = fs' \<Longrightarrow> w_past w' = w_fs w # w_past w \<Longrightarrow> safeSince base I w'"
  unfolding safeSince_def by (metis append_Cons list.pred_inject(2))

lemma triple_conseq:
  assumes m: "triple I P' m Q' E'"
    and P: "\<And>fs. I fs \<Longrightarrow> P fs \<Longrightarrow> P' fs"
    and Q: "\<And>x fs. I fs \<Longrightarrow> Q' x fs \<Longrightarrow> Q x fs"
    and E: "\<And>e fs. I fs \<Longrightarrow> E' e fs \<Longrightarrow> E e fs"
  shows "triple I P m Q E"
proof (rule tripleI)
  fix base w r w' assume w: "safeSince base I w" "P (w_fs w)" and run: "m w = (r, w')"
  then have "P' (w_fs w)" using P by (simp add: safeSince_def)
  from tripleD [OF m run w(1) this]
  have s: "safeSince base I w'" and r: "case r of Inl e \<Rightarrow> E' e (w_fs w') | Inr x \<Rightarrow> Q' x (w_fs w')" by auto
  from s have "I (w_fs w')" by (simp add: safeSince_def)
  with s r show "safeSince base I w' \<and> (case r of Inl e \<Rightarrow> E e (w_fs w') | Inr x \<Rightarrow> Q x (w_fs w'))"
    by (cases r) (simp_all add: Q E)
qed

lemma triple_pre: "(\<And>fs. I fs \<Longrightarrow> P fs \<Longrightarrow> triple I P m Q E) \<Longrightarrow> triple I P m Q E"
  unfolding triple_def safeSince_def by blast

lemma triple_ret: "triple I (Q x) (retA x) Q E"
  by (simp add: triple_def retA_def)

lemma triple_fail: "triple I (E e) (failA e) Q E"
  by (simp add: triple_def failA_def)

lemma triple_handle:
  assumes "triple I P m R F"
    and "\<And>x. triple I (R x) (k x) Q E"
    and "\<And>e. triple I (F e) (h e) Q E"
  shows "triple I P (handleA m k h) Q E"
proof (rule tripleI)
  fix base w r w' assume w: "safeSince base I w" "P (w_fs w)" and run: "handleA m k h w = (r, w')"
  obtain r1 w1 where m: "m w = (r1, w1)" by fastforce
  from tripleD [OF assms(1) m w]
  have s: "safeSince base I w1" and c: "case r1 of Inl e \<Rightarrow> F e (w_fs w1) | Inr x \<Rightarrow> R x (w_fs w1)" by auto
  show "safeSince base I w' \<and> (case r of Inl e \<Rightarrow> E e (w_fs w') | Inr x \<Rightarrow> Q x (w_fs w'))"
  proof (cases r1)
    case (Inl e)
    with run m have "h e w1 = (r, w')" by (simp add: handleA_def)
    from tripleD [OF assms(3) this s] c Inl show ?thesis by simp
  next
    case (Inr x)
    with run m have "k x w1 = (r, w')" by (simp add: handleA_def)
    from tripleD [OF assms(2) this s] c Inr show ?thesis by simp
  qed
qed

lemma bindA_handle: "bindA m k = handleA m k failA"
  by (rule ext) (simp add: bindA_def handleA_def failA_def split: prod.splits sum.splits)

lemma triple_bind:
  assumes "triple I P m R E" "\<And>x. triple I (R x) (k x) Q E"
  shows "triple I P (bindA m k) Q E"
  unfolding bindA_handle using assms triple_fail by (rule triple_handle)

lemma triple_mapErr:
  assumes "triple I P m Q (\<lambda>e. E (f e))"
  shows "triple I P (mapErr f m) Q E"
  unfolding mapErr_def using assms by (rule triple_handle) (auto intro: triple_ret triple_fail)

lemma triple_onError:
  assumes "triple I P m Q F" "\<And>e. triple I (F e) c (\<lambda>_. E e) (\<lambda>_. E e)"
  shows "triple I P (onErrorA m c) Q E"
  unfolding onErrorA_def
  by (rule triple_handle [OF assms(1) triple_ret], rule triple_handle [OF assms(2)]) (rule triple_fail)+

lemma triple_sysCall:
  assumes "\<And>fs x fs'. I fs \<Longrightarrow> P fs \<Longrightarrow> f fs = Inr (x, fs') \<Longrightarrow> I fs' \<and> Q x fs'"
    and "\<And>e fs. I fs \<Longrightarrow> P fs \<Longrightarrow> (\<exists>msg. e = Sys msg) \<or> f fs = Inl e \<Longrightarrow> E e fs"
  shows "triple I P (sysCall f) Q E"
proof (rule tripleI)
  fix base w r w' assume w: "safeSince base I w" "P (w_fs w)" and run: "sysCall f w = (r, w')"
  obtain a w1 where a: "answer w = (a, w1)" by fastforce
  then have w1: "w_fs w1 = w_fs w" "w_past w1 = w_past w"
    by (auto simp: answer_def split: list.splits)
  show "safeSince base I w' \<and> (case r of Inl e \<Rightarrow> E e (w_fs w') | Inr x \<Rightarrow> Q x (w_fs w'))"
  proof (cases a)
    case (Some msg)
    with a run have "r = Inl (Sys msg)" "w' = w1" by (auto simp: sysCall_def)
    with w w1 assms(2) [of "w_fs w" "Sys msg"] show ?thesis
      using safeSince_fs [OF w(1) w1] by (auto simp: safeSince_def)
  next
    case None
    show ?thesis
    proof (cases "f (w_fs w)")
      case (Inl e)
      with a None run w1 have "r = Inl e" "w' = w1" by (auto simp: sysCall_def)
      with w w1 assms(2) [of "w_fs w" e] Inl show ?thesis
        using safeSince_fs [OF w(1) w1] by (auto simp: safeSince_def)
    next
      case (Inr y)
      obtain x fs' where y: "y = (x, fs')" by fastforce
      with Inr a None run w1 have r: "r = Inr x"
        and w': "w' = w1\<lparr>w_fs := fs', w_past := w_fs w # w_past w\<rparr>" by (auto simp: sysCall_def)
      have "I fs' \<and> Q x fs'" using w Inr y assms(1) [of "w_fs w" x fs'] by (simp add: safeSince_def)
      with r w' w1 show ?thesis using safeSince_step [OF w(1), of fs' w'] by simp
    qed
  qed
qed

lemma triple_noEffect: "triple I P noEffect (\<lambda>_. P) (\<lambda>_. P)"
  unfolding noEffect_def by (rule triple_sysCall) auto

lemma triple_stat:
  "triple I P (stat p) (\<lambda>n fs. P fs \<and> statFs fs p = Inr n)
     (\<lambda>e fs. P fs \<and> ((\<exists>msg. e = Sys msg) \<or> statFs fs p = Inl e))"
  unfolding stat_def by (rule triple_sysCall) (auto split: sum.splits)

lemma triple_SyncDirectory: "triple I P (SyncDirectory p) (\<lambda>_. P) (\<lambda>_. P)"
  unfolding SyncDirectory_def
proof (rule triple_bind)
  show "triple I P (stat p) (\<lambda>_. P) (\<lambda>_. P)" by (rule triple_conseq [OF triple_stat [where P = P]]) auto
  show "triple I P noEffect (\<lambda>_. P) (\<lambda>_. P)" by (rule triple_noEffect)
qed

section \<open>Well-formed file systems\<close>

definition wfFs :: "'c fs \<Rightarrow> bool" where
  "wfFs fs \<longleftrightarrow>
     distinct (map fst fs) \<and> map_of fs [] = Some DirNode \<and>
     list_all (\<lambda>(q, _). q \<noteq> [] \<longrightarrow> map_of fs (butlast q) = Some DirNode) fs"

definition isTemp :: "path \<Rightarrow> bool" where
  "isTemp q \<longleftrightarrow>
     q \<noteq> [] \<and> hasPrefix (last q) tempPrefix \<and>
     list_all (\<lambda>r. 48 \<le> r \<and> r \<le> 57) (drop (length tempPrefix) (last q))"

lemma isDirNode_simps [simp]: "isDirNode DirNode" "\<not> isDirNode (FileNode d)"
  by (simp_all add: isDirNode_def)

lemma isDirNode_iff: "isDirNode n \<longleftrightarrow> n = DirNode"
  by (cases n) auto

lemma map_of_alist [simp]:
  "map_of (AList.update k v fs) q = (if q = k then Some v else map_of fs q)"
  "map_of (AList.delete k fs) q = (if q = k then None else map_of fs q)"
  by (auto simp: update_conv' delete_conv')

lemma wfFs_alt:
  "wfFs fs \<longleftrightarrow>
     distinct (map fst fs) \<and> map_of fs [] = Some DirNode \<and>
     (\<forall>q. q \<noteq> [] \<longrightarrow> map_of fs q \<noteq> None \<longrightarrow> map_of fs (butlast q) = Some DirNode)"
  by (auto simp: wfFs_def list_all_iff map_of_eq_None_iff image_iff Ball_def)

lemma wfFs_parent: "wfFs fs \<Longrightarrow> map_of fs q = Some n \<Longrightarrow> q \<noteq> [] \<Longrightarrow> map_of fs (butlast q) = Some DirNode"
  by (auto simp: wfFs_alt)

lemma wfFs_ancestor:
  "wfFs fs \<Longrightarrow> map_of fs q = Some n \<Longrightarrow> k < length q \<Longrightarrow> map_of fs (take k q) = Some DirNode"
proof (induction q arbitrary: n k rule: rev_induct)
  case (snoc c q)
  from wfFs_parent [OF snoc.prems(1,2)] have q: "map_of fs q = Some DirNode" by simp
  show ?case
  proof (cases "k = length q")
    case False
    with snoc.prems have "k < length q" by simp
    from snoc.IH [OF snoc.prems(1) q this] this show ?thesis by simp
  qed (use q in simp)
qed simp

lemma wfFs_not_blocked: "wfFs fs \<Longrightarrow> map_of fs q = Some n \<Longrightarrow> \<not> blocked fs q"
  by (auto simp: blocked_def list_ex_iff wfFs_ancestor)

lemma wfFs_not_blocked_parent:
  assumes "wfFs fs" "q = [] \<or> map_of fs (butlast q) = Some DirNode"
  shows "\<not> blocked fs q"
proof (cases q rule: rev_cases)
  case (snoc p c)
  with assms have p: "map_of fs p = Some DirNode" by simp
  have "map_of fs (take k q) = Some DirNode" if "k < length q" for k
    using that p wfFs_ancestor [OF assms(1) p, of k] snoc by (cases "k = length p") auto
  then show ?thesis by (auto simp: blocked_def list_ex_iff)
qed (simp add: blocked_def)

lemma statFs_Inr [simp]: "wfFs fs \<Longrightarrow> statFs fs q = Inr n \<longleftrightarrow> map_of fs q = Some n"
  using wfFs_not_blocked [of fs q] by (auto simp: statFs_def split: option.splits)

lemma statFs_NotExist: "statFs fs q = Inl NotExist \<Longrightarrow> map_of fs q = None"
  by (auto simp: statFs_def split: if_splits option.splits)

lemma statFs_absent:
  "wfFs fs \<Longrightarrow> map_of fs (butlast q) = Some DirNode \<Longrightarrow> map_of fs q = None \<Longrightarrow> statFs fs q = Inl NotExist"
  using wfFs_not_blocked_parent [of fs q] by (simp add: statFs_def)

lemma statFs_Inl_absent: "wfFs fs \<Longrightarrow> statFs fs q = Inl e \<Longrightarrow> map_of fs q = None"
  using statFs_Inr by (metis Inl_Inr_False not_None_eq)

lemma parentError_None:
  assumes "wfFs fs"
  shows "parentError fs p = None \<longleftrightarrow> map_of fs (butlast p) = Some DirNode"
proof (cases "statFs fs (butlast p)")
  case (Inl e)
  with statFs_Inl_absent [OF assms this] show ?thesis by (simp add: parentError_def)
next
  case (Inr n)
  then have "map_of fs (butlast p) = Some n" using assms by simp
  with Inr show ?thesis unfolding parentError_def by (simp add: isDirNode_iff del: statFs_Inr)
qed

lemma wfFs_update:
  assumes "wfFs fs" "map_of fs q \<noteq> Some DirNode" "map_of fs (butlast q) = Some DirNode"
  shows "wfFs (AList.update q n fs)"
proof -
  have "q \<noteq> []" using assms by (auto simp: wfFs_alt)
  moreover have "butlast k \<noteq> q" if "k \<noteq> []" "map_of fs k \<noteq> None" for k
    using that assms by (auto simp: wfFs_alt)
  moreover have "butlast q \<noteq> q" using \<open>q \<noteq> []\<close>
    by (metis append_butlast_last_id append_self_conv not_Cons_self2)
  ultimately show ?thesis using assms by (auto simp: wfFs_alt distinct_update)
qed

lemma wfFs_delete:
  assumes "wfFs fs" "map_of fs q \<noteq> Some DirNode"
  shows "wfFs (AList.delete q fs)"
proof -
  have "butlast k \<noteq> q" if "k \<noteq> []" "map_of fs k \<noteq> None" for k
    using that assms by (auto simp: wfFs_alt)
  moreover have "q \<noteq> []" using assms by (auto simp: wfFs_alt)
  ultimately show ?thesis using assms
    by (auto simp: wfFs_alt distinct_delete simp del: map_of_eq_Some_iff)
qed

lemma freshTemp_absent: "map_of fs (freshTemp fs dir) = None"
proof (rule ccontr)
  let ?n = "sum_list (map (\<lambda>(p, _). length (concat p)) fs)"
  assume "map_of fs (freshTemp fs dir) \<noteq> None"
  then obtain n where "(freshTemp fs dir, n) \<in> set fs" by (auto dest: map_of_SomeD)
  then have "length (concat (freshTemp fs dir)) \<le> ?n"
    by (force intro: member_le_sum_list)
  then show False by (simp add: freshTemp_def)
qed

lemma freshTemp_isTemp [simp]: "isTemp (freshTemp fs dir)" "butlast (freshTemp fs dir) = dir"
  by (auto simp: isTemp_def freshTemp_def list_all_iff)

section \<open>Writes and removals touch one file\<close>

text \<open>
  \<open>evolvesT T fs0 p V fs\<close>: the state \<open>fs\<close> differs from \<open>fs0\<close> at most in what \<open>p\<close> holds, which is one
  of \<open>V\<close>, in directories that did not exist, and in temporary files (the paths in \<open>T\<close>) that did
  not exist.
\<close>

definition evolvesT ::
  "(path \<Rightarrow> bool) \<Rightarrow> 'c fs \<Rightarrow> path \<Rightarrow> 'c node option set \<Rightarrow> 'c fs \<Rightarrow> bool"
where
  "evolvesT T fs0 p V fs \<longleftrightarrow>
     wfFs fs \<and> map_of fs p \<in> V \<and>
     (\<forall>q. q \<noteq> p \<longrightarrow>
        map_of fs q = map_of fs0 q \<or>
        map_of fs0 q = None \<and>
          (map_of fs q = Some DirNode \<or> T q \<and> (\<exists>d. map_of fs q = Some (FileNode d))))"

abbreviation evolves :: "'c fs \<Rightarrow> path \<Rightarrow> 'c node option set \<Rightarrow> 'c fs \<Rightarrow> bool" where
  "evolves \<equiv> evolvesT isTemp"

lemmas evolves_def = evolvesT_def [of isTemp]

lemma evolves_wf: "evolvesT T fs0 p V fs \<Longrightarrow> wfFs fs"
  by (simp add: evolvesT_def)

lemma evolves_refl: "wfFs fs0 \<Longrightarrow> map_of fs0 p \<in> V \<Longrightarrow> evolvesT T fs0 p V fs0"
  by (simp add: evolvesT_def)

lemma evolves_mkdir:
  assumes "evolvesT T fs0 p V fs" "q \<noteq> p" "map_of fs q = None" "map_of fs (butlast q) = Some DirNode"
  shows "evolvesT T fs0 p V (AList.update q DirNode fs)"
proof -
  have "map_of fs0 q = None" using assms by (metis evolvesT_def)
  with assms show ?thesis by (auto simp: evolvesT_def wfFs_update)
qed

lemma evolves_temp:
  assumes "evolvesT T fs0 p V fs" "q \<noteq> p" "T q" "map_of fs0 q = None"
    "map_of fs q \<noteq> Some DirNode" "map_of fs (butlast q) = Some DirNode"
  shows "evolvesT T fs0 p V (AList.update q (FileNode d) fs)"
  using assms by (auto simp: evolvesT_def wfFs_update)

lemma evolves_drop_temp:
  assumes "evolvesT T fs0 p V fs" "q \<noteq> p" "map_of fs0 q = None" "map_of fs q \<noteq> Some DirNode"
  shows "evolvesT T fs0 p V (AList.delete q fs)"
  using assms by (auto simp: evolvesT_def wfFs_delete)

lemma evolves_set:
  assumes "evolvesT T fs0 p V fs" "Some n \<in> V" "map_of fs p \<noteq> Some DirNode"
    "map_of fs (butlast p) = Some DirNode"
  shows "evolvesT T fs0 p V (AList.update p n fs)"
  using assms by (auto simp: evolvesT_def wfFs_update)

lemma evolves_unset:
  assumes "evolvesT T fs0 p V fs" "None \<in> V" "map_of fs p \<noteq> Some DirNode"
  shows "evolvesT T fs0 p V (AList.delete p fs)"
  using assms by (auto simp: evolvesT_def wfFs_delete)

lemma triple_mkdir:
  assumes I: "\<And>fs. I fs \<Longrightarrow> wfFs fs"
    and new: "\<And>fs. I fs \<Longrightarrow> map_of fs q = None \<Longrightarrow> map_of fs (butlast q) = Some DirNode \<Longrightarrow>
                I (AList.update q DirNode fs)"
  shows "triple I (\<lambda>_. True) (mkdirUnlessThere q) (\<lambda>_ fs. map_of fs q = Some DirNode) (\<lambda>_ _. True)"
proof -
  have mk: "triple I (\<lambda>_. True) (mkdir q) (\<lambda>_ fs. map_of fs q = Some DirNode) (\<lambda>_ _. True)"
    unfolding mkdir_def
    by (rule triple_sysCall)
      (auto simp: parentError_None I intro!: new intro: statFs_Inl_absent [OF I] split: sum.splits option.splits)
  have "triple I (\<lambda>_. True) (stat q) (\<lambda>n fs. map_of fs q = Some n) (\<lambda>_ _. True)"
    by (rule triple_conseq [OF triple_stat [where P = "\<lambda>_. True"]]) (auto simp: I)
  then have st: "triple I (\<lambda>_. True)
      (bindA (stat q) (\<lambda>n. if isDirNode n then retA () else failA (NotADirectory q)))
      (\<lambda>_ fs. map_of fs q = Some DirNode) (\<lambda>_ _. True)"
    by (rule triple_bind)
      (auto simp: isDirNode_iff intro: triple_ret triple_conseq [OF triple_fail [where E = "\<lambda>_ _. True"]])
  show ?thesis
    unfolding mkdirUnlessThere_def
    by (rule triple_handle [OF mk])
      (auto intro: st triple_ret triple_conseq [OF triple_fail [where E = "\<lambda>_ _. True"]])
qed

lemma triple_trivial_fail [simp]: "triple I P (failA e) Q (\<lambda>_ _. True)"
  by (rule triple_conseq [OF triple_fail [where E = "\<lambda>_ _. True"]]) auto

lemma triple_ensureDirectoryRev:
  assumes I: "\<And>fs. I fs \<Longrightarrow> wfFs fs"
    and new: "\<And>fs q. I fs \<Longrightarrow> length q \<le> length rp \<Longrightarrow> map_of fs q = None \<Longrightarrow>
                map_of fs (butlast q) = Some DirNode \<Longrightarrow> I (AList.update q DirNode fs)"
  shows "triple I (\<lambda>_. True) (ensureDirectoryRev rp) (\<lambda>_ fs. map_of fs (rev rp) = Some DirNode) (\<lambda>_ _. True)"
  using new
proof (induction rp)
  case Nil
  have "triple I (\<lambda>_. True) (stat []) (\<lambda>n fs. map_of fs [] = Some n) (\<lambda>_ _. True)"
    by (rule triple_conseq [OF triple_stat [where P = "\<lambda>_. True"]]) (auto simp: I)
  then show ?case
    unfolding ensureDirectoryRev.simps rev.simps
    by (rule triple_handle) (auto simp: isDirNode_iff intro: triple_ret)
next
  case (Cons c cs)
  let ?p = "rev (c # cs)"
  have st: "triple I (\<lambda>_. True) (stat ?p) (\<lambda>n fs. map_of fs ?p = Some n) (\<lambda>_ _. True)"
    by (rule triple_conseq [OF triple_stat [where P = "\<lambda>_. True"]]) (auto simp: I)
  have parent: "triple I (\<lambda>_. True) (ensureDirectoryRev cs) (\<lambda>_ _. True) (\<lambda>_ _. True)"
    by (rule triple_conseq [OF Cons.IH]) (auto intro: Cons.prems)
  have mk: "triple I (\<lambda>_. True) (mkdirUnlessThere ?p) (\<lambda>_ fs. map_of fs ?p = Some DirNode) (\<lambda>_ _. True)"
    by (rule triple_mkdir [OF I]) (auto intro: Cons.prems)
  have "triple I (\<lambda>_. True)
      (bindA (ensureDirectoryRev cs) (\<lambda>_. bindA (mkdirUnlessThere ?p) (\<lambda>_. SyncDirectory (rev cs))))
      (\<lambda>_ fs. map_of fs ?p = Some DirNode) (\<lambda>_ _. True)"
    by (rule triple_bind [OF parent triple_bind [OF mk]])
      (rule triple_conseq [OF triple_SyncDirectory], auto)
  then show ?case
    unfolding ensureDirectoryRev.simps
    by (intro triple_handle [OF st]) (auto simp: isDirNode_iff intro: triple_ret)
qed

lemma triple_EnsureDirectory:
  assumes "p \<noteq> []"
  shows "triple (evolves fs0 p V) (\<lambda>_. True) (EnsureDirectory (butlast p))
           (\<lambda>_ fs. map_of fs (butlast p) = Some DirNode) (\<lambda>_ _. True)"
proof -
  have "q \<noteq> p" if "length q \<le> length (rev (butlast p))" for q
    using that assms by (cases p rule: rev_cases) auto
  then show ?thesis
    unfolding EnsureDirectory_def
    using triple_ensureDirectoryRev [of "evolves fs0 p V" "rev (butlast p)"]
    by (auto intro: evolves_mkdir evolves_wf)
qed

text \<open>The facts about the temporary file between its creation and the rename.\<close>

definition tempOf :: "(path \<Rightarrow> bool) \<Rightarrow> 'c fs \<Rightarrow> path \<Rightarrow> path \<Rightarrow> bool" where
  "tempOf T fs0 p tmp \<longleftrightarrow> T tmp \<and> tmp \<noteq> p \<and> butlast tmp = butlast p \<and> map_of fs0 tmp = None"

definition tempHolds :: "path \<Rightarrow> path \<Rightarrow> 'c option \<Rightarrow> 'c fs \<Rightarrow> bool" where
  "tempHolds p tmp d fs \<longleftrightarrow>
     map_of fs (butlast p) = Some DirNode \<and> map_of fs tmp = Some (FileNode d)"

lemma triple_createTemp:
  assumes "\<not> isTemp p"
  shows "triple (evolves fs0 p V) (\<lambda>fs. map_of fs (butlast p) = Some DirNode) (createTemp (butlast p))
           (\<lambda>tmp fs. tempOf isTemp fs0 p tmp \<and> tempHolds p tmp None fs) (\<lambda>_ _. True)"
  unfolding createTemp_def
proof (rule triple_sysCall)
  fix fs tmp fs'
  assume I: "evolves fs0 p V fs" and dir: "map_of fs (butlast p) = Some DirNode"
    and run: "(let q = freshTemp fs (butlast p) in case parentError fs q of Some e \<Rightarrow> Inl e
               | None \<Rightarrow> Inr (q, AList.update q (FileNode None) fs)) = Inr (tmp, fs')"
  then have tmp: "tmp = freshTemp fs (butlast p)" and fs': "fs' = AList.update tmp (FileNode None) fs"
    by (auto simp: Let_def split: option.splits)
  have "isTemp tmp" "butlast tmp = butlast p" "map_of fs tmp = None"
    using freshTemp_absent [of fs] by (auto simp: tmp)
  moreover from this assms have "tmp \<noteq> p" by auto
  moreover from this I \<open>map_of fs tmp = None\<close> have "map_of fs0 tmp = None" by (metis evolves_def)
  ultimately have t: "tempOf isTemp fs0 p tmp" by (simp add: tempOf_def)
  have "evolves fs0 p V fs'"
    unfolding fs' using I t dir \<open>map_of fs tmp = None\<close> by (intro evolves_temp) (auto simp: tempOf_def)
  moreover have "butlast p \<noteq> tmp" using dir \<open>map_of fs tmp = None\<close> by auto
  then have "tempHolds p tmp None fs'" using dir by (auto simp: fs' tempHolds_def)
  ultimately show "evolves fs0 p V fs' \<and> tempOf isTemp fs0 p tmp \<and> tempHolds p tmp None fs'" using t by blast
qed auto

lemma triple_writeOpen:
  assumes "tempOf T fs0 p tmp"
  shows "triple (evolvesT T fs0 p V) (tempHolds p tmp None) (writeOpen tmp c)
           (\<lambda>_. tempHolds p tmp c) (\<lambda>_. tempHolds p tmp None)"
  unfolding writeOpen_def
proof (rule triple_sysCall)
  fix fs and x :: unit and fs'
  assume I: "evolvesT T fs0 p V fs" and tmp: "tempHolds p tmp None fs"
    and run: "(case map_of fs tmp of Some (FileNode _) \<Rightarrow> Inr ((), AList.update tmp (FileNode c) fs)
               | _ \<Rightarrow> Inr ((), fs)) = Inr (x, fs')"
  then have fs': "fs' = AList.update tmp (FileNode c) fs" by (simp add: tempHolds_def)
  have "butlast p \<noteq> tmp" using tmp by (auto simp: tempHolds_def)
  with I tmp assms show "evolvesT T fs0 p V fs' \<and> tempHolds p tmp c fs'"
    unfolding fs' by (auto simp: tempHolds_def tempOf_def intro!: evolves_temp)
qed auto

lemma triple_rename:
  assumes "tempOf T fs0 p tmp" "Some (FileNode c) \<in> V"
  shows "triple (evolvesT T fs0 p V) (tempHolds p tmp c) (rename tmp p)
           (\<lambda>_ fs. map_of fs p = Some (FileNode c) \<and> map_of fs tmp = None)
           (\<lambda>_. tempHolds p tmp c)"
  unfolding rename_def
proof (rule triple_sysCall)
  fix fs and x :: unit and fs'
  assume I: "evolvesT T fs0 p V fs" and tmp: "tempHolds p tmp c fs"
    and run: "(case (statFs fs tmp, parentError fs p) of (Inl e, _) \<Rightarrow> Inl e | (Inr _, Some e) \<Rightarrow> Inl e
       | (Inr n, None) \<Rightarrow> if isDirNode n \<or> map_of fs p = Some DirNode then Inl IsDir
          else Inr ((), AList.update p n (AList.delete tmp fs))) = Inr (x, fs')"
  have "statFs fs tmp = Inr (FileNode c)" "parentError fs p = None"
    using tmp I by (auto simp: tempHolds_def evolves_wf parentError_None)
  with run have p: "map_of fs p \<noteq> Some DirNode"
    and fs': "fs' = AList.update p (FileNode c) (AList.delete tmp fs)"
    by (auto split: if_splits)
  have ne: "tmp \<noteq> p" "butlast p \<noteq> tmp" using assms tmp by (auto simp: tempOf_def tempHolds_def)
  have "evolvesT T fs0 p V (AList.delete tmp fs)"
    using I assms tmp by (intro evolves_drop_temp) (auto simp: tempOf_def tempHolds_def)
  with p ne tmp assms show "evolvesT T fs0 p V fs' \<and> map_of fs' p = Some (FileNode c) \<and> map_of fs' tmp = None"
    unfolding fs' by (auto simp: tempHolds_def intro!: evolves_set)
qed auto

lemma triple_dropTemp:
  assumes "tempOf T fs0 p tmp"
  shows "triple (evolvesT T fs0 p V) (\<lambda>fs. map_of fs tmp \<noteq> Some DirNode) (removePath tmp) (\<lambda>_ _. True) (\<lambda>_ _. True)"
  unfolding removePath_def
  using assms by (intro triple_sysCall)
    (auto simp: tempOf_def intro!: evolves_drop_temp split: sum.splits if_splits)

lemma triple_installTemp:
  assumes t: "tempOf isTemp fs0 p tmp" and V: "Some (FileNode c) \<in> V"
  shows "triple (evolves fs0 p V) (tempHolds p tmp None) (installTemp p c tmp)
           (\<lambda>_ fs. map_of fs p = Some (FileNode c)) (\<lambda>_ fs. map_of fs tmp \<noteq> Some DirNode)"
proof -
  let ?I = "evolves fs0 p V" and ?F = "\<lambda>fs. map_of fs tmp \<noteq> Some DirNode"
  let ?T = "tempHolds p tmp c" and ?R = "\<lambda>fs. map_of fs p = Some (FileNode c) \<and> map_of fs tmp = None"
  have wr: "triple ?I (tempHolds p tmp None) (onErrorA (writeOpen tmp c) noEffect) (\<lambda>_. ?T) (\<lambda>_. ?F)"
    by (rule triple_conseq [OF triple_onError [OF triple_writeOpen [OF t] triple_noEffect]])
      (auto simp: tempHolds_def)
  have sync: "triple ?I ?T (onErrorA noEffect noEffect) (\<lambda>_. ?T) (\<lambda>_. ?F)"
    by (rule triple_conseq [OF triple_onError [OF triple_noEffect [where P = ?T] triple_noEffect]])
      (auto simp: tempHolds_def)
  have close: "triple ?I ?T noEffect (\<lambda>_. ?T) (\<lambda>_. ?F)"
    by (rule triple_conseq [OF triple_noEffect [where P = ?T]]) (auto simp: tempHolds_def)
  have ren: "triple ?I ?T (rename tmp p) (\<lambda>_. ?R) (\<lambda>_. ?F)"
    by (rule triple_conseq [OF triple_rename [OF t V]]) (auto simp: tempHolds_def)
  have dir: "triple ?I ?R (SyncDirectory (butlast p)) (\<lambda>_ fs. map_of fs p = Some (FileNode c)) (\<lambda>_. ?F)"
    by (rule triple_conseq [OF triple_SyncDirectory [where P = ?R]]) auto
  show ?thesis
    unfolding installTemp_def
    by (rule triple_bind, rule triple_mapErr, rule wr, rule triple_bind, rule triple_mapErr, rule sync,
        rule triple_bind, rule triple_mapErr, rule close, rule triple_bind, rule triple_mapErr, rule ren,
        rule triple_mapErr, rule dir)
qed

lemma triple_WriteBytes:
  assumes "p \<noteq> []" "\<not> isTemp p" "Some (FileNode c) \<in> V"
  shows "triple (evolves fs0 p V) (\<lambda>_. True) (WriteBytes p c)
           (\<lambda>_ fs. map_of fs p = Some (FileNode c)) (\<lambda>_ _. True)"
proof -
  let ?I = "evolves fs0 p V" and ?P = "\<lambda>tmp fs. tempOf isTemp fs0 p tmp \<and> tempHolds p tmp None fs"
  have rest: "triple ?I (?P tmp) (onErrorA (installTemp p c tmp) (removePath tmp))
      (\<lambda>_ fs. map_of fs p = Some (FileNode c)) (\<lambda>_ _. True)" for tmp
  proof (rule triple_pre)
    fix fs assume "?P tmp fs"
    then have t: "tempOf isTemp fs0 p tmp" by simp
    show "triple ?I (?P tmp) (onErrorA (installTemp p c tmp) (removePath tmp))
      (\<lambda>_ fs. map_of fs p = Some (FileNode c)) (\<lambda>_ _. True)"
      by (rule triple_conseq
            [OF triple_onError [OF triple_installTemp [OF t assms(3)] triple_dropTemp [OF t]]]) auto
  qed
  show ?thesis
    unfolding WriteBytes_def
    by (rule triple_bind, rule triple_mapErr, rule triple_EnsureDirectory [OF assms(1)],
        rule triple_bind, rule triple_mapErr, rule triple_createTemp [OF assms(2)], rule rest)
qed

lemma triple_removePath:
  assumes "None \<in> V" "Some DirNode \<notin> V"
  shows "triple (evolvesT T fs0 p V) (\<lambda>_. True) (removePath p) (\<lambda>_ fs. map_of fs p = None)
           (\<lambda>e fs. e = NotExist \<longrightarrow> map_of fs p = None)"
  unfolding removePath_def
proof (rule triple_sysCall)
  fix fs and x :: unit and fs'
  assume I: "evolvesT T fs0 p V fs"
    and run: "(case statFs fs p of Inl e \<Rightarrow> Inl e | Inr n \<Rightarrow>
         (if isDirNode n \<and> list_ex (\<lambda>(q, _). q \<noteq> [] \<and> butlast q = p) fs then Inl DirNotEmpty
          else Inr ((), AList.delete p fs))) = Inr (x, fs')"
  have "map_of fs p \<noteq> Some DirNode" using I assms by (auto simp: evolvesT_def)
  with I assms run show "evolvesT T fs0 p V fs' \<and> map_of fs' p = None"
    by (auto intro: evolves_unset split: sum.splits if_splits)
qed (auto dest: statFs_NotExist split: sum.splits if_splits)

lemma triple_Remove:
  assumes "None \<in> V" "Some DirNode \<notin> V"
  shows "triple (evolves fs0 p V) (\<lambda>_. True) (Remove p) (\<lambda>_ fs. map_of fs p = None)
           (\<lambda>e fs. e = NotExist \<longrightarrow> map_of fs p = None)"
  unfolding Remove_def
  by (rule triple_bind [OF triple_removePath [OF assms]], rule triple_mapErr)
    (rule triple_conseq [OF triple_SyncDirectory], auto)

lemma triple_readFile:
  assumes "\<And>fs. I fs \<Longrightarrow> wfFs fs"
  shows "triple I P (readFile p) (\<lambda>d fs. P fs \<and> map_of fs p = Some (FileNode d))
     (\<lambda>e fs. P fs \<and> (e = NotExist \<longrightarrow> map_of fs p = None))"
  unfolding readFile_def
  by (rule triple_sysCall) (auto simp: assms dest: statFs_NotExist split: sum.splits node.splits)

end
