(* ===== verification/Go_Path.thy ===== *)
theory Go_Path
  imports Go_Prelude
begin

text \<open>
  What the program uses of \<open>path/filepath\<close> on Unix and of \<open>strings.EqualFold\<close> against ASCII text,
  and the binary search of \<open>sort.Search\<close>.
\<close>

definition isAbs :: "gostr \<Rightarrow> bool" where
  "isAbs p \<longleftrightarrow> hasPrefix p (lit ''/'')"

definition cleanStep :: "bool \<Rightarrow> gostr list \<Rightarrow> gostr \<Rightarrow> gostr list" where
  "cleanStep rooted out c =
     (if c = [] \<or> c = lit ''.'' then out
      else if c = lit ''..''
      then (if out \<noteq> [] \<and> last out \<noteq> lit ''..'' then butlast out
            else if rooted then out else out @ [c])
      else out @ [c])"

definition cleanComponents :: "gostr \<Rightarrow> gostr list" where
  "cleanComponents p = foldl (cleanStep (isAbs p)) [] (splitRune 47 p)"

definition cleanPath :: "gostr \<Rightarrow> gostr" where
  "cleanPath p =
     (let s = (if isAbs p then lit ''/'' else []) @ joinStr (lit ''/'') (cleanComponents p)
      in if s = [] then lit ''.'' else s)"

definition ext :: "gostr \<Rightarrow> gostr" where
  "ext p =
     (let base = takeWhile (\<lambda>r. r \<noteq> 47) (rev p)
      in if 46 \<in> set base then rev (takeWhile (\<lambda>r. r \<noteq> 46) base @ [46]) else [])"

text \<open>The letters that fold to an ASCII letter, the long s and the Kelvin sign among them.\<close>

definition foldASCII :: "rune \<Rightarrow> rune" where
  "foldASCII r =
     (if r = 383 then 115 else if r = 8490 then 107 else if 65 \<le> r \<and> r \<le> 90 then r + 32 else r)"

definition equalFoldASCII :: "gostr \<Rightarrow> gostr \<Rightarrow> bool" where
  "equalFoldASCII s t \<longleftrightarrow> map foldASCII s = map foldASCII t"

function searchLoop :: "(nat \<Rightarrow> bool) \<Rightarrow> nat \<Rightarrow> nat \<Rightarrow> nat" where
  "searchLoop f i j =
     (if i < j then let h = (i + j) div 2 in if f h then searchLoop f i h else searchLoop f (h + 1) j
      else i)"
  by pat_completeness auto
termination
  by (relation "measure (\<lambda>(f, i, j). j - i)") auto

declare searchLoop.simps [simp del]

definition sortSearch :: "nat \<Rightarrow> (nat \<Rightarrow> bool) \<Rightarrow> nat" where
  "sortSearch n f = searchLoop f 0 n"

lemma searchLoop_least:
  assumes "i \<le> j" "\<And>a b. i \<le> a \<Longrightarrow> a \<le> b \<Longrightarrow> b < j \<Longrightarrow> f a \<Longrightarrow> f b"
  shows "i \<le> searchLoop f i j \<and> searchLoop f i j \<le> j \<and>
         (\<forall>k. i \<le> k \<and> k < searchLoop f i j \<longrightarrow> \<not> f k) \<and> (\<forall>k. searchLoop f i j \<le> k \<and> k < j \<longrightarrow> f k)"
  using assms
proof (induction f i j rule: searchLoop.induct)
  case (1 f i j)
  show ?case
  proof (cases "i < j")
    case True
    let ?h = "(i + j) div 2"
    have h: "i \<le> ?h" "?h < j" using True by auto
    show ?thesis
    proof (cases "f ?h")
      case fh: True
      have "\<And>a b. i \<le> a \<Longrightarrow> a \<le> b \<Longrightarrow> b < ?h \<Longrightarrow> f a \<Longrightarrow> f b" using "1.prems"(2) h by (meson less_trans)
      then have IH: "i \<le> searchLoop f i ?h \<and> searchLoop f i ?h \<le> ?h \<and>
          (\<forall>k. i \<le> k \<and> k < searchLoop f i ?h \<longrightarrow> \<not> f k) \<and> (\<forall>k. searchLoop f i ?h \<le> k \<and> k < ?h \<longrightarrow> f k)"
        using "1.IH"(1) [OF True refl fh h(1)] by blast
      have "f k" if "?h \<le> k" "k < j" for k using "1.prems"(2) [OF h(1) that fh] .
      with IH h have "(\<forall>k. searchLoop f i ?h \<le> k \<and> k < j \<longrightarrow> f k)" by (meson not_less)
      with IH h True fh show ?thesis unfolding searchLoop.simps [of f i j] by (simp add: Let_def)
    next
      case nfh: False
      have "\<And>a b. ?h + 1 \<le> a \<Longrightarrow> a \<le> b \<Longrightarrow> b < j \<Longrightarrow> f a \<Longrightarrow> f b"
        using "1.prems"(2) h by (meson add_leD1 le_trans)
      moreover have "?h + 1 \<le> j" using h by simp
      ultimately have IH: "?h + 1 \<le> searchLoop f (?h + 1) j \<and> searchLoop f (?h + 1) j \<le> j \<and>
          (\<forall>k. ?h + 1 \<le> k \<and> k < searchLoop f (?h + 1) j \<longrightarrow> \<not> f k) \<and>
          (\<forall>k. searchLoop f (?h + 1) j \<le> k \<and> k < j \<longrightarrow> f k)"
        using "1.IH"(2) [OF True refl nfh] by blast
      have "\<not> f k" if "i \<le> k" "k \<le> ?h" for k using "1.prems"(2) [OF that h(2)] nfh by blast
      with IH have "\<forall>k. i \<le> k \<and> k < searchLoop f (?h + 1) j \<longrightarrow> \<not> f k"
        by (metis Suc_eq_plus1 not_less_eq_eq)
      with IH h True nfh show ?thesis
        unfolding searchLoop.simps [of f i j] by (simp add: Let_def)
    qed
  next
    case False
    with "1.prems" have "j = i" by simp
    moreover have "searchLoop f i i = i" by (simp add: searchLoop.simps [of f i i])
    ultimately show ?thesis by auto
  qed
qed

text \<open>On a monotone predicate the search returns the number of indices before the first hit.\<close>

lemma sortSearch_least:
  assumes "\<And>a b. a \<le> b \<Longrightarrow> b < n \<Longrightarrow> f a \<Longrightarrow> f b"
  shows "sortSearch n f \<le> n" "k < sortSearch n f \<Longrightarrow> \<not> f k" "sortSearch n f \<le> k \<Longrightarrow> k < n \<Longrightarrow> f k"
  using searchLoop_least [of 0 n f] assms by (auto simp: sortSearch_def)

end
