(* ===== verification/Schedule_Store.thy ===== *)
theory Schedule_Store
  imports Schedule_Types Atomic_File Go_Path
begin

text \<open>
  The persistence of scheduled jobs and run records,
  \<open>systems/agent/internal/schedulestore/store.go\<close>, over the file system of \<open>Atomic_File\<close>.  What a
  file holds is one of: the JSON the store wrote for a job or for a run, or bytes of another
  origin, given by what decoding them as a job and as a run would return.  Encoding a time
  outside the years 0 to 9999 is an error of \<open>encoding/json\<close>; decoding what was encoded returns
  the same value, and decoding the JSON of a job as a run (or the converse) fills the fields that
  share a name.  \<open>ctx.Err()\<close> takes an answer of the world like a system call.  File modes are not
  modelled: restoring them is a call that may fail.
\<close>

section \<open>What the files hold\<close>

datatype stored = JobFile Job | RunFile RunRecord | OtherFile gostr "gostr + Job" "gostr + RunRecord"

type_synonym store_world = "stored world"

datatype store_error =
    RootRequired | RootNotAbsolute | CtxErr gostr
  | StoreJobIDRequired | StoreJobIDInvalid gostr | RunIDRequired | RunIDInvalid gostr
  | StartedAtRequired | MarshalFailed gostr | IOFailed gostr io_error
  | DecodeFailed gostr | NameMismatch gostr gostr | DifferentContents path
  | Joined store_error store_error
  | QueryOwnerRequired | QueryLimitNotPositive | QueryLimitTooLarge | QueryStatusInvalid Status
  | QueryRange | RunSchema int | RunStartRequired | RunStatusInvalid Status
  | QueryFailed store_error

type_synonym 'a store_act = "(store_error, stored, 'a) act"

definition jsonTimeOK :: "time \<Rightarrow> bool" where
  "jsonTimeOK t \<longleftrightarrow> (let (y, _) = yearDay (t div 86400000000000) in 0 \<le> y \<and> y \<le> 9999)"

definition runTimes :: "RunRecord \<Rightarrow> time list" where
  "runTimes r = [rr_ScheduledFor r, rr_StartedAt r, rr_FinishedAt r]"

definition jobTimes :: "Job \<Rightarrow> time list" where
  "jobTimes j =
     [jb_RunAt j, jb_CreatedAt j, jb_UpdatedAt j, jb_LastRunAt j, jb_LastSuccessAt j,
      jb_LastFailureAt j, jb_LastScheduledFor j, jb_NextFire j] @
     (case jb_PendingRun j of None \<Rightarrow> [] | Some r \<Rightarrow> runTimes r) @
     (case jb_PendingNotification j of None \<Rightarrow> [] | Some n \<Rightarrow> [nt_DeliveredAt n])"

definition marshalJob :: "Job \<Rightarrow> store_error + stored" where
  "marshalJob j =
     (if list_all jsonTimeOK (jobTimes j) then Inr (JobFile j) else Inl (MarshalFailed (jb_ID j)))"

definition marshalRun :: "RunRecord \<Rightarrow> store_error + stored" where
  "marshalRun r =
     (if list_all jsonTimeOK (runTimes r) then Inr (RunFile r) else Inl (MarshalFailed (rr_JobID r)))"

definition jobOfRun :: "RunRecord \<Rightarrow> Job" where
  "jobOfRun r =
     \<lparr>jb_SchemaVersion = rr_SchemaVersion r, jb_ID = rr_ID r, jb_Name = [], jb_Prompt = [],
      jb_ContextProfile = [], jb_Kind = [], jb_RunAt = 0, jb_Cron = [], jb_Notify = False,
      jb_Model = rr_Model r, jb_MaxTurns = 0, jb_AllowedTools = rr_AllowedTools r,
      jb_Owner = rr_Owner r, jb_CreatedAt = 0, jb_UpdatedAt = 0, jb_LastRunAt = 0,
      jb_LastSuccessAt = 0, jb_LastFailureAt = 0, jb_LastScheduledFor = 0, jb_NextFire = 0,
      jb_ConsecutiveFailures = 0, jb_LastStatus = [], jb_LastError = [], jb_Done = False,
      jb_ModelUnavailableNotified = False, jb_PendingRun = None, jb_PendingNotification = None\<rparr>"

definition runOfJob :: "Job \<Rightarrow> RunRecord" where
  "runOfJob j =
     \<lparr>rr_SchemaVersion = jb_SchemaVersion j, rr_ID = jb_ID j, rr_JobID = [], rr_JobName = [],
      rr_Owner = jb_Owner j, rr_Status = [], rr_Model = jb_Model j,
      rr_AllowedTools = jb_AllowedTools j, rr_ScheduledFor = 0, rr_StartedAt = 0,
      rr_FinishedAt = 0, rr_Output = [], rr_Error = [], rr_NotifyError = []\<rparr>"

definition unmarshalJob :: "stored option \<Rightarrow> gostr + Job" where
  "unmarshalJob d =
     (case d of
        None \<Rightarrow> Inl (lit ''unexpected end of JSON input'')
      | Some (JobFile j) \<Rightarrow> Inr j
      | Some (RunFile r) \<Rightarrow> Inr (jobOfRun r)
      | Some (OtherFile _ j _) \<Rightarrow> j)"

definition unmarshalRun :: "stored option \<Rightarrow> gostr + RunRecord" where
  "unmarshalRun d =
     (case d of
        None \<Rightarrow> Inl (lit ''unexpected end of JSON input'')
      | Some (JobFile j) \<Rightarrow> Inr (runOfJob j)
      | Some (RunFile r) \<Rightarrow> Inr r
      | Some (OtherFile _ _ r) \<Rightarrow> r)"

section \<open>The store\<close>

record Store =
  st_root :: gostr

definition jobsDir :: gostr where "jobsDir = lit ''jobs''"
definition runsDir :: gostr where "runsDir = lit ''runs''"
definition maxRunQueryLimit :: int where "maxRunQueryLimit = 100"
definition jsonExt :: gostr where "jsonExt = lit ''.json''"

definition NewStore :: "gostr \<Rightarrow> Store" where
  "NewStore root =
     (let root = trimSpace root in \<lparr>st_root = (if root \<noteq> [] then cleanPath root else root)\<rparr>)"

definition rootPath :: "Store \<Rightarrow> path" where
  "rootPath s = cleanComponents (st_root s)"

definition validateStore :: "Store \<Rightarrow> store_error option" where
  "validateStore s =
     firstError
       [errIf (trimSpace (st_root s) = []) RootRequired, errIf (\<not> isAbs (st_root s)) RootNotAbsolute]"

definition badID :: "gostr \<Rightarrow> bool" where
  "badID i \<longleftrightarrow> i \<noteq> trimSpace i \<or> i = lit ''.'' \<or> i = lit ''..'' \<or> 47 \<in> set i \<or> 92 \<in> set i"

definition validateJobID :: "gostr \<Rightarrow> store_error option" where
  "validateJobID i = firstError [errIf (i = []) StoreJobIDRequired, errIf (badID i) (StoreJobIDInvalid i)]"

definition validateRunID :: "gostr \<Rightarrow> store_error option" where
  "validateRunID i = firstError [errIf (i = []) RunIDRequired, errIf (badID i) (RunIDInvalid i)]"

definition jobFile :: "Store \<Rightarrow> gostr \<Rightarrow> path" where
  "jobFile s jobID = rootPath s @ [jobsDir, jobID @ jsonExt]"

definition jobPath :: "Store \<Rightarrow> gostr \<Rightarrow> store_error + path" where
  "jobPath s jobID =
     (case validateJobID jobID of Some e \<Rightarrow> Inl e | None \<Rightarrow> Inr (jobFile s jobID))"

definition ctxErr :: "unit store_act" where
  "ctxErr w = (case answer w of (Some msg, w') \<Rightarrow> (Inl (CtxErr msg), w') | (None, w') \<Rightarrow> (Inr (), w'))"

definition liftE :: "store_error + 'a \<Rightarrow> 'a store_act" where
  "liftE r = (case r of Inl e \<Rightarrow> failA e | Inr x \<Rightarrow> retA x)"

text \<open>The checks every operation starts with: the root, the context, and the context again once
  the lock is held.\<close>

definition enter :: "Store \<Rightarrow> unit store_act" where
  "enter s = bindA (guardA (validateStore s)) (\<lambda>_. bindA ctxErr (\<lambda>_. ctxErr))"

definition Init :: "Store \<Rightarrow> unit store_act" where
  "Init s =
     bindA (enter s) (\<lambda>_.
     bindA (mapErr (IOFailed (lit ''create root'')) (EnsureDirectory (rootPath s))) (\<lambda>_.
     bindA (mapErr (IOFailed (lit ''create directory'')) (EnsureDirectory (rootPath s @ [jobsDir]))) (\<lambda>_.
     mapErr (IOFailed (lit ''create directory'')) (EnsureDirectory (rootPath s @ [runsDir])))))"

subsection \<open>Snapshots\<close>

text \<open>The snapshot of a file: \<open>None\<close> when it does not exist.\<close>

definition captureFile :: "path \<Rightarrow> (io_error, stored, stored option option) act" where
  "captureFile p =
     handleA (readFile p)
       (\<lambda>d. bindA (stat p) (\<lambda>_. retA (Some d)))
       (\<lambda>e. if isNotExist e then retA None else failA e)"

definition restoreFile :: "path \<Rightarrow> stored option option \<Rightarrow> store_error \<Rightarrow> 'a store_act" where
  "restoreFile p snapshot cause =
     handleA
       (case snapshot of
          Some d \<Rightarrow> bindA (WriteBytes p d) (\<lambda>_. noEffect)
        | None \<Rightarrow> handleA (Remove p) retA (\<lambda>e. if isNotExist e then retA () else failA e))
       (\<lambda>_. failA cause)
       (\<lambda>e. failA (Joined cause (IOFailed (lit ''restore'') e)))"

subsection \<open>Jobs\<close>

definition storeFile :: "path \<Rightarrow> stored \<Rightarrow> unit store_act" where
  "storeFile p data =
     bindA (mapErr (IOFailed (lit ''read scheduled job'')) (captureFile p)) (\<lambda>snapshot.
     if snapshot = Some (Some data) then retA ()
     else handleA (WriteBytes p (Some data)) retA
            (\<lambda>e. restoreFile p snapshot (IOFailed (lit ''write scheduled job'') e)))"

definition StoreJob :: "Store \<Rightarrow> Job \<Rightarrow> unit store_act" where
  "StoreJob s job =
     bindA (enter s) (\<lambda>_.
     bindA (liftE (jobPath s (jb_ID job))) (\<lambda>p.
     bindA (liftE (marshalJob job)) (\<lambda>data. storeFile p data)))"

definition deleteFile :: "path \<Rightarrow> unit store_act" where
  "deleteFile p =
     bindA (mapErr (IOFailed (lit ''read scheduled job'')) (captureFile p)) (\<lambda>snapshot.
     if snapshot = None then retA ()
     else handleA (Remove p) retA
            (\<lambda>e. restoreFile p snapshot (IOFailed (lit ''delete scheduled job'') e)))"

definition DeleteJob :: "Store \<Rightarrow> gostr \<Rightarrow> unit store_act" where
  "DeleteJob s jobID =
     bindA (enter s) (\<lambda>_. bindA (liftE (jobPath s jobID)) (\<lambda>p. deleteFile p))"

text \<open>\<open>os.ReadDir\<close>: the names in a directory in increasing order, and which are directories.\<close>

definition dirEntries :: "stored fs \<Rightarrow> path \<Rightarrow> (gostr \<times> bool) list" where
  "dirEntries fs dir =
     sort_key fst (map (\<lambda>(q, n). (last q, isDirNode n)) (filter (\<lambda>(q, _). q \<noteq> [] \<and> butlast q = dir) fs))"

definition readDir :: "path \<Rightarrow> (io_error, stored, (gostr \<times> bool) list) act" where
  "readDir dir = sysCall (\<lambda>fs. case statFs fs dir of
       Inl e \<Rightarrow> Inl e
     | Inr n \<Rightarrow> if isDirNode n then Inr (dirEntries fs dir, fs) else Inl NotDir)"

definition isJSONName :: "gostr \<Rightarrow> bool" where
  "isJSONName name \<longleftrightarrow> equalFoldASCII (ext name) jsonExt"

definition checkLoaded :: "gostr \<Rightarrow> Job \<Rightarrow> store_error option" where
  "checkLoaded name job =
     firstError
       [validateJobID (jb_ID job), errIf (name \<noteq> jb_ID job @ jsonExt) (NameMismatch name (jb_ID job))]"

fun loadEntries :: "path \<Rightarrow> (gostr \<times> bool) list \<Rightarrow> Job list \<Rightarrow> Job list store_act" where
  "loadEntries dir [] jobs = retA jobs"
| "loadEntries dir ((name, d) # es) jobs =
     (if d \<or> \<not> isJSONName name then loadEntries dir es jobs
      else bindA (mapErr (IOFailed (lit ''read scheduled job'')) (readFile (dir @ [name]))) (\<lambda>data.
           case unmarshalJob data of
             Inl msg \<Rightarrow> failA (DecodeFailed msg)
           | Inr job \<Rightarrow> bindA (guardA (checkLoaded name job)) (\<lambda>_. loadEntries dir es (jobs @ [job]))))"

definition LoadJobs :: "Store \<Rightarrow> Job list store_act" where
  "LoadJobs s =
     bindA (enter s) (\<lambda>_.
     let dir = rootPath s @ [jobsDir] in
     handleA (readDir dir)
       (\<lambda>entries. loadEntries dir entries [])
       (\<lambda>e. if isNotExist e then retA [] else failA (IOFailed (lit ''read scheduled jobs dir'') e)))"

subsection \<open>Run records\<close>

definition pad9 :: "int \<Rightarrow> gostr" where
  "pad9 n =
     map (\<lambda>k. 48 + n div k mod 10)
       [100000000, 10000000, 1000000, 100000, 10000, 1000, 100, 10, 1]"

definition runPath :: "Store \<Rightarrow> RunRecord \<Rightarrow> path" where
  "runPath s r =
     (let t = rr_StartedAt r; secs = t div 1000000000; (y, m, d) = civilDate (secs div 86400);
          h = secs mod 86400
      in rootPath s @ [runsDir, pad4 y, pad2 m, pad2 d,
           pad2 (h div 3600) @ pad2 (h mod 3600 div 60) @ pad2 (h mod 60) @ lit ''.''
             @ pad9 (t mod 1000000000) @ lit ''-'' @ rr_ID r @ jsonExt])"

definition checkRun :: "RunRecord \<Rightarrow> store_error option" where
  "checkRun r =
     firstError
       [validateJobID (rr_JobID r), validateRunID (rr_ID r), errIf (rr_StartedAt r = 0) StartedAtRequired]"

definition appendFile :: "path \<Rightarrow> stored \<Rightarrow> unit store_act" where
  "appendFile p data =
     handleA (readFile p)
       (\<lambda>existing. if existing = Some data then retA () else failA (DifferentContents p))
       (\<lambda>e. if \<not> isNotExist e then failA (IOFailed (lit ''read scheduled run record'') e)
            else handleA (WriteBytes p (Some data)) retA
              (\<lambda>e. handleA (Remove p)
                 (\<lambda>_. failA (IOFailed (lit ''write scheduled run record'') e))
                 (\<lambda>re. if isNotExist re then failA (IOFailed (lit ''write scheduled run record'') e)
                       else failA (Joined (IOFailed (lit ''write scheduled run record'') e)
                                          (IOFailed (lit ''remove partial run record'') re)))))"

definition AppendRunRecord :: "Store \<Rightarrow> RunRecord \<Rightarrow> unit store_act" where
  "AppendRunRecord s record =
     bindA (enter s) (\<lambda>_.
     bindA (guardA (checkRun record)) (\<lambda>_.
     bindA (liftE (marshalRun record)) (\<lambda>data. appendFile (runPath s record) data)))"

definition checkStatuses :: "Status list \<Rightarrow> store_error option" where
  "checkStatuses sts =
     forErr 0 (\<lambda>_ st. errIf (st \<notin> {StatusSucceeded, StatusFailed, StatusInterrupted, StatusModelUnavailable})
       (QueryStatusInvalid st)) sts"

definition trimFilter :: "RunFilter \<Rightarrow> RunFilter" where
  "trimFilter f = f\<lparr>rf_JobID := trimSpace (rf_JobID f), rf_JobName := trimSpace (rf_JobName f)\<rparr>"

definition normalizeRunQuery :: "RunQuery \<Rightarrow> store_error + RunQuery" where
  "normalizeRunQuery query =
     (let ow = normalizeOwner (rqy_Owner query); f = trimFilter (rqy_Filter query) in
      case firstError
        [errIf (ow_Channel ow = [] \<or> ow_ChatID ow = [] \<or> ow_UserID ow = []) QueryOwnerRequired,
         errIf (rf_Limit f \<le> 0) QueryLimitNotPositive,
         errIf (maxRunQueryLimit < rf_Limit f) QueryLimitTooLarge,
         checkStatuses (rf_Statuses f),
         errIf (rf_Since f \<noteq> 0 \<and> rf_Before f \<noteq> 0 \<and> \<not> rf_Since f < rf_Before f) QueryRange]
      of Some e \<Rightarrow> Inl e
       | None \<Rightarrow> Inr \<lparr>rqy_Owner = ow, rqy_Filter = f\<rparr>)"

definition checkRunRecord :: "RunRecord \<Rightarrow> store_error option" where
  "checkRunRecord r =
     firstError
       [errIf (rr_SchemaVersion r \<noteq> JobSchemaVersion) (RunSchema (rr_SchemaVersion r)),
        validateJobID (rr_JobID r), validateRunID (rr_ID r),
        errIf (rr_StartedAt r = 0) RunStartRequired,
        errIf (rr_Status r \<notin> {StatusSucceeded, StatusFailed, StatusInterrupted, StatusModelUnavailable})
          (RunStatusInvalid (rr_Status r))]"

definition decodeRun :: "stored option \<Rightarrow> store_error + RunRecord" where
  "decodeRun data =
     (case unmarshalRun data of
        Inl msg \<Rightarrow> Inl (DecodeFailed msg)
      | Inr r \<Rightarrow> (case checkRunRecord r of Some e \<Rightarrow> Inl e | None \<Rightarrow> Inr r))"

definition readRunRecord :: "path \<Rightarrow> RunRecord store_act" where
  "readRunRecord p =
     bindA (mapErr (IOFailed (lit ''read scheduled run'')) (readFile p)) (\<lambda>data. liftE (decodeRun data))"

fun containsStatus :: "Status list \<Rightarrow> Status \<Rightarrow> bool" where
  "containsStatus [] c \<longleftrightarrow> False"
| "containsStatus (st # sts) c \<longleftrightarrow> st = c \<or> containsStatus sts c"

definition runMatches :: "RunRecord \<Rightarrow> RunQuery \<Rightarrow> bool" where
  "runMatches r query \<longleftrightarrow>
     (let f = rqy_Filter query in
      if normalizeOwner (rr_Owner r) \<noteq> rqy_Owner query then False
      else if rf_JobID f \<noteq> [] \<and> rr_JobID r \<noteq> rf_JobID f then False
      else if rf_JobName f \<noteq> [] \<and> rr_JobName r \<noteq> rf_JobName f then False
      else if rf_Statuses f \<noteq> [] \<and> \<not> containsStatus (rf_Statuses f) (rr_Status r) then False
      else if rf_Since f \<noteq> 0 \<and> rr_StartedAt r < rf_Since f then False
      else rf_Before f = 0 \<or> rr_StartedAt r < rf_Before f)"

definition olderRun :: "RunRecord \<Rightarrow> RunRecord \<Rightarrow> bool" where
  "olderRun a b \<longleftrightarrow>
     (if rr_StartedAt a = rr_StartedAt b then rr_ID a < rr_ID b else rr_StartedAt a < rr_StartedAt b)"

definition insertNewestRun :: "RunRecord list \<Rightarrow> RunRecord \<Rightarrow> nat \<Rightarrow> RunRecord list" where
  "insertNewestRun runs record limit =
     (let index = sortSearch (length runs) (\<lambda>i. olderRun (runs ! i) record) in
      if limit \<le> index then runs
      else let runs = take index runs @ [record] @ drop index runs
           in if limit < length runs then take limit runs else runs)"

definition bumpCount :: "Status \<Rightarrow> (Status \<times> int) list \<Rightarrow> (Status \<times> int) list" where
  "bumpCount st counts =
     AList.update st ((case map_of counts st of None \<Rightarrow> 0 | Some n \<Rightarrow> n) + 1) counts"

definition addMatch :: "RunQuery \<Rightarrow> RunHistory \<Rightarrow> RunRecord \<Rightarrow> RunHistory" where
  "addMatch query h r =
     (if \<not> runMatches r query then h
      else \<lparr>rh_Matched = rh_Matched h + 1, rh_StatusCounts = bumpCount (rr_Status r) (rh_StatusCounts h),
            rh_Runs = insertNewestRun (rh_Runs h) r (nat (rf_Limit (rqy_Filter query)))\<rparr>)"

text \<open>
  \<open>filepath.WalkDir\<close> visits a directory before what is in it, the entries of one directory in
  increasing order of their names: the order of the component lists.
\<close>

definition walkPaths :: "stored fs \<Rightarrow> path \<Rightarrow> (path \<times> bool) list" where
  "walkPaths fs root =
     sort_key fst (map (\<lambda>(q, n). (q, isDirNode n)) (filter (\<lambda>(q, _). take (length root) q = root) fs))"

definition walkStart :: "path \<Rightarrow> (io_error, stored, (path \<times> bool) list) act" where
  "walkStart root = sysCall (\<lambda>fs. case statFs fs root of
       Inl e \<Rightarrow> Inl e
     | Inr _ \<Rightarrow> Inr (walkPaths fs root, fs))"

fun walkRuns :: "RunQuery \<Rightarrow> (path \<times> bool) list \<Rightarrow> RunHistory \<Rightarrow> RunHistory store_act" where
  "walkRuns query [] h = retA h"
| "walkRuns query ((p, d) # es) h =
     bindA ctxErr (\<lambda>_.
     if d then bindA (mapErr (IOFailed (lit ''read dir'')) noEffect) (\<lambda>_. walkRuns query es h)
     else if \<not> isJSONName (last p) then walkRuns query es h
     else bindA (readRunRecord p) (\<lambda>r. walkRuns query es (addMatch query h r)))"

definition emptyHistory :: RunHistory where
  "emptyHistory = \<lparr>rh_Matched = 0, rh_StatusCounts = [], rh_Runs = []\<rparr>"

definition QueryRuns :: "Store \<Rightarrow> RunQuery \<Rightarrow> RunHistory store_act" where
  "QueryRuns s query =
     bindA (guardA (validateStore s)) (\<lambda>_.
     bindA ctxErr (\<lambda>_.
     bindA (liftE (normalizeRunQuery query)) (\<lambda>query.
     bindA ctxErr (\<lambda>_.
     handleA (walkStart (rootPath s @ [runsDir]))
       (\<lambda>es. mapErr QueryFailed (walkRuns query es emptyHistory))
       (\<lambda>e. if isNotExist e then retA emptyHistory
            else failA (QueryFailed (IOFailed (lit ''walk'') e)))))))"

section \<open>Triples of the store's operations\<close>

lemma triple_retI: "(\<And>fs. I fs \<Longrightarrow> P fs \<Longrightarrow> Q x fs) \<Longrightarrow> triple I P (retA x) Q E"
  by (simp add: triple_def retA_def safeSince_def)

lemma triple_ctxErr: "triple I P ctxErr (\<lambda>_. P) (\<lambda>_. P)"
proof (rule tripleI)
  fix base w r w' assume w: "safeSince base I w" "P (w_fs w)" and run: "ctxErr w = (r, w')"
  from run have "w_fs w' = w_fs w" "w_past w' = w_past w"
    by (auto simp: ctxErr_def answer_def split: prod.splits option.splits list.splits)
  with w show "safeSince base I w' \<and> (case r of Inl e \<Rightarrow> P (w_fs w') | Inr x \<Rightarrow> P (w_fs w'))"
    using safeSince_fs [OF w(1)] by (simp split: sum.splits)
qed

lemma triple_guardA: "triple I P (guardA r) (\<lambda>_ fs. P fs \<and> r = None) (\<lambda>_. P)"
  by (cases r) (auto simp: guardA_def triple_def retA_def failA_def)

lemma triple_liftE: "triple I P (liftE r) (\<lambda>x fs. P fs \<and> r = Inr x) (\<lambda>_. P)"
  by (cases r) (auto simp: liftE_def triple_def retA_def failA_def)

lemma triple_enter: "triple I P (enter s) (\<lambda>_ fs. P fs \<and> validateStore s = None) (\<lambda>_. P)"
proof -
  let ?P = "\<lambda>fs. P fs \<and> validateStore s = None"
  have "triple I ?P ctxErr (\<lambda>_. ?P) (\<lambda>_. P)" by (rule triple_conseq [OF triple_ctxErr [where P = ?P]]) auto
  then show ?thesis
    unfolding enter_def by (intro triple_bind [OF triple_guardA] triple_bind [where R = "\<lambda>_. ?P"])
qed

lemma triple_captureFile:
  assumes I: "\<And>fs. I fs \<Longrightarrow> wfFs fs"
  shows "triple I P (captureFile p)
     (\<lambda>snap fs. P fs \<and> map_of fs p = map_option FileNode snap) (\<lambda>_. P)"
proof -
  have st: "triple I (\<lambda>fs. P fs \<and> map_of fs p = Some (FileNode d)) (bindA (stat p) (\<lambda>_. retA (Some d)))
      (\<lambda>snap fs. P fs \<and> map_of fs p = map_option FileNode snap) (\<lambda>_. P)" for d
    by (rule triple_bind [where R = "\<lambda>_ fs. P fs \<and> map_of fs p = Some (FileNode d)"])
      (rule triple_conseq [OF triple_stat [where P = "\<lambda>fs. P fs \<and> map_of fs p = Some (FileNode d)"]], simp,
        blast, blast, simp add: triple_def retA_def)
  show ?thesis
    unfolding captureFile_def
    by (rule triple_handle [OF triple_readFile [OF I, where P = P] st])
      (auto simp: isNotExist_def triple_def retA_def failA_def)
qed

lemma triple_restoreFile:
  assumes "p \<noteq> []" "\<not> isTemp p" "map_option FileNode snap \<in> V" "Some DirNode \<notin> V"
  shows "triple (evolves fs0 p V) (\<lambda>_. True) (restoreFile p snap cause) Q (\<lambda>_ _. True)"
proof (cases snap)
  case None
  with assms have "None \<in> V" by simp
  then have "triple (evolves fs0 p V) (\<lambda>_. True)
      (handleA (Remove p) retA (\<lambda>e. if isNotExist e then retA () else failA e)) (\<lambda>_ _. True) (\<lambda>_ _. True)"
    using assms(4) by (intro triple_handle [OF triple_Remove]) (auto simp: triple_def retA_def failA_def)
  then show ?thesis
    unfolding restoreFile_def None option.case by (rule triple_handle) simp_all
next
  case (Some d)
  with assms have "Some (FileNode d) \<in> V" by simp
  then have "triple (evolves fs0 p V) (\<lambda>_. True) (bindA (WriteBytes p d) (\<lambda>_. noEffect)) (\<lambda>_ _. True) (\<lambda>_ _. True)"
    using assms by (intro triple_bind [OF triple_WriteBytes triple_conseq [OF triple_noEffect]]) auto
  then show ?thesis
    unfolding restoreFile_def Some option.case by (rule triple_handle) simp_all
qed

lemma triple_ret_True: "triple I (\<lambda>_. True) m Q E \<Longrightarrow> triple I P m Q E"
  by (rule triple_conseq) auto

lemma triple_storeFile:
  assumes p: "p \<noteq> []" "\<not> isTemp p"
  shows "triple (evolves fs0 p {map_of fs0 p, Some (FileNode (Some data))})
     (\<lambda>fs. map_of fs p = map_of fs0 p) (storeFile p data)
     (\<lambda>_ fs. map_of fs p = Some (FileNode (Some data))) (\<lambda>_ _. True)" (is "triple ?I ?P _ ?Q _")
proof -
  have rest: "triple ?I (\<lambda>fs. ?P fs \<and> map_of fs p = map_option FileNode snap)
      (if snap = Some (Some data) then retA ()
       else handleA (WriteBytes p (Some data)) retA (\<lambda>e. restoreFile p snap (IOFailed msg e)))
      ?Q (\<lambda>_ _. True)" (is "triple _ ?R _ _ _") for snap msg
  proof (rule triple_pre)
    fix fs assume "?I fs" "?R fs"
    then have old: "map_of fs0 p = map_option FileNode snap" by metis
    show "triple ?I ?R (if snap = Some (Some data) then retA ()
       else handleA (WriteBytes p (Some data)) retA (\<lambda>e. restoreFile p snap (IOFailed msg e))) ?Q (\<lambda>_ _. True)"
    proof (cases "snap = Some (Some data)")
      case True
      with old show ?thesis by (simp add: triple_def retA_def)
    next
      case False
      have "Some DirNode \<notin> {map_of fs0 p, Some (FileNode (Some data))}" using old by (cases snap) auto
      moreover have "map_option FileNode snap \<in> {map_of fs0 p, Some (FileNode (Some data))}" using old by simp
      ultimately have "triple ?I (\<lambda>_. True) (restoreFile p snap (IOFailed msg e)) ?Q (\<lambda>_ _. True)" for e
        using p by (intro triple_restoreFile)
      then have "triple ?I (\<lambda>_. True)
          (handleA (WriteBytes p (Some data)) retA (\<lambda>e. restoreFile p snap (IOFailed msg e))) ?Q (\<lambda>_ _. True)"
        using p by (intro triple_handle [OF triple_WriteBytes]) (auto intro: triple_retI)
      with False show ?thesis by (simp add: triple_ret_True)
    qed
  qed
  have cap: "triple ?I ?P (captureFile p) (\<lambda>snap fs. ?P fs \<and> map_of fs p = map_option FileNode snap) (\<lambda>_ _. True)"
    by (rule triple_conseq [OF triple_captureFile [where P = ?P]]) (auto simp: evolves_wf)
  show ?thesis
    unfolding storeFile_def by (rule triple_bind, rule triple_mapErr, rule cap, rule rest)
qed


lemma triple_deleteFile:
  assumes p: "p \<noteq> []" "\<not> isTemp p"
  shows "triple (evolves fs0 p {map_of fs0 p, None})
     (\<lambda>fs. map_of fs p = map_of fs0 p) (deleteFile p) (\<lambda>_ fs. map_of fs p = None) (\<lambda>_ _. True)"
    (is "triple ?I ?P _ ?Q _")
proof -
  have rest: "triple ?I (\<lambda>fs. ?P fs \<and> map_of fs p = map_option FileNode snap)
      (if snap = None then retA ()
       else handleA (Remove p) retA (\<lambda>e. restoreFile p snap (IOFailed msg e)))
      ?Q (\<lambda>_ _. True)" (is "triple _ ?R _ _ _") for snap msg
  proof (rule triple_pre)
    fix fs assume "?I fs" "?R fs"
    then have old: "map_of fs0 p = map_option FileNode snap" by metis
    show "triple ?I ?R (if snap = None then retA ()
       else handleA (Remove p) retA (\<lambda>e. restoreFile p snap (IOFailed msg e))) ?Q (\<lambda>_ _. True)"
    proof (cases "snap = None")
      case True
      with old show ?thesis by (simp only: if_True simp_thms) (rule triple_retI, simp)
    next
      case False
      have dir: "Some DirNode \<notin> {map_of fs0 p, None}" using old by (cases snap) auto
      have "map_option FileNode snap \<in> {map_of fs0 p, None}" using old by simp
      with dir p have "triple ?I (\<lambda>_. True) (restoreFile p snap (IOFailed msg e)) ?Q (\<lambda>_ _. True)" for e
        by (intro triple_restoreFile)
      then have "triple ?I (\<lambda>_. True) (handleA (Remove p) retA (\<lambda>e. restoreFile p snap (IOFailed msg e))) ?Q (\<lambda>_ _. True)"
        using dir by (intro triple_handle [OF triple_Remove]) (auto intro: triple_retI triple_ret_True)
      with False show ?thesis by (simp only: if_False simp_thms) (rule triple_ret_True)
    qed
  qed
  have cap: "triple ?I ?P (captureFile p) (\<lambda>snap fs. ?P fs \<and> map_of fs p = map_option FileNode snap) (\<lambda>_ _. True)"
    by (rule triple_conseq [OF triple_captureFile [where P = ?P]]) (auto simp: evolves_wf)
  show ?thesis
    unfolding deleteFile_def by (rule triple_bind, rule triple_mapErr, rule cap, rule rest)
qed

lemma triple_appendFile:
  assumes p: "p \<noteq> []" "\<not> isTemp p"
  shows "triple (evolves fs0 p {map_of fs0 p, if map_of fs0 p = None then Some (FileNode (Some data)) else map_of fs0 p})
     (\<lambda>fs. map_of fs p = map_of fs0 p) (appendFile p data)
     (\<lambda>_ fs. map_of fs p = Some (FileNode (Some data))) (\<lambda>_ _. True)"
    (is "triple (evolves fs0 p ?V) ?P _ ?Q _")
proof -
  let ?I = "evolves fs0 p ?V"
  let ?absent = "handleA (WriteBytes p (Some data)) retA
              (\<lambda>e. handleA (Remove p)
                 (\<lambda>_. failA (IOFailed (lit ''write scheduled run record'') e))
                 (\<lambda>re. if isNotExist re then failA (IOFailed (lit ''write scheduled run record'') e)
                       else failA (Joined (IOFailed (lit ''write scheduled run record'') e)
                                          (IOFailed (lit ''remove partial run record'') re))))"
  have new: "triple ?I P ?absent ?Q (\<lambda>_ _. True)" if none: "map_of fs0 p = None" for P
  proof (rule triple_ret_True, rule triple_handle)
    show "triple ?I (\<lambda>_. True) (WriteBytes p (Some data)) ?Q (\<lambda>_ _. True)"
      using p none by (intro triple_WriteBytes) auto
    have "triple ?I (\<lambda>_. True) (Remove p) (\<lambda>_ _. True) (\<lambda>_ _. True)"
      using none by (intro triple_conseq [OF triple_Remove]) auto
    then show "triple ?I (\<lambda>_. True) (handleA (Remove p)
                 (\<lambda>_. failA (IOFailed (lit ''write scheduled run record'') e))
                 (\<lambda>re. if isNotExist re then failA (IOFailed (lit ''write scheduled run record'') e)
                       else failA (Joined (IOFailed (lit ''write scheduled run record'') e)
                                          (IOFailed (lit ''remove partial run record'') re)))) ?Q (\<lambda>_ _. True)" for e
      by (rule triple_handle) simp_all
  qed (rule triple_ret)
  show ?thesis
    unfolding appendFile_def
  proof (rule triple_handle [OF triple_readFile [where P = ?P]])
    show "triple ?I (\<lambda>fs. ?P fs \<and> map_of fs p = Some (FileNode d))
        (if d = Some data then retA () else failA (DifferentContents p)) ?Q (\<lambda>_ _. True)" for d
    proof (cases "d = Some data")
      case True
      then show ?thesis by (simp only: if_True simp_thms) (rule triple_retI, blast)
    qed simp
    show "triple ?I (\<lambda>fs. ?P fs \<and> (e = NotExist \<longrightarrow> map_of fs p = None))
        (if \<not> isNotExist e then failA (IOFailed (lit ''read scheduled run record'') e) else ?absent)
        ?Q (\<lambda>_ _. True)" for e
    proof (rule triple_pre)
      fix fs assume "?P fs \<and> (e = NotExist \<longrightarrow> map_of fs p = None)"
      then have "isNotExist e \<Longrightarrow> map_of fs0 p = None" by (metis isNotExist_def)
      then show "triple ?I (\<lambda>fs. ?P fs \<and> (e = NotExist \<longrightarrow> map_of fs p = None))
        (if \<not> isNotExist e then failA (IOFailed (lit ''read scheduled run record'') e) else ?absent) ?Q (\<lambda>_ _. True)"
        using new by simp
    qed
  qed (simp add: evolves_wf)
qed

section \<open>The contract of a store\<close>

text \<open>
  What the manager relies on.  A store holds a map of jobs and a set of archived runs; an
  operation that succeeds has its effect, one that fails has it or not and nothing else; loading
  returns exactly the stored jobs.
\<close>

locale schedule_store =
  fixes storeJob :: "Job \<Rightarrow> 'w \<Rightarrow> ('e + unit) \<times> 'w"
    and deleteJob :: "gostr \<Rightarrow> 'w \<Rightarrow> ('e + unit) \<times> 'w"
    and appendRun :: "RunRecord \<Rightarrow> 'w \<Rightarrow> ('e + unit) \<times> 'w"
    and loadJobs :: "'w \<Rightarrow> ('e + Job list) \<times> 'w"
    and jobsIn :: "'w \<Rightarrow> gostr \<Rightarrow> Job option"
    and runsIn :: "'w \<Rightarrow> RunRecord set"
    and sound :: "'w \<Rightarrow> bool"
  assumes store_sound: "sound w \<Longrightarrow> storeJob j w = (r, w') \<Longrightarrow> sound w'"
    and store_runs: "sound w \<Longrightarrow> storeJob j w = (r, w') \<Longrightarrow> runsIn w' = runsIn w"
    and store_ok: "sound w \<Longrightarrow> storeJob j w = (Inr u, w') \<Longrightarrow> jobsIn w' = (jobsIn w)(jb_ID j \<mapsto> j)"
    and store_err: "sound w \<Longrightarrow> storeJob j w = (Inl e, w') \<Longrightarrow>
                      jobsIn w' = jobsIn w \<or> jobsIn w' = (jobsIn w)(jb_ID j \<mapsto> j)"
    and delete_sound: "sound w \<Longrightarrow> deleteJob i w = (r, w') \<Longrightarrow> sound w'"
    and delete_runs: "sound w \<Longrightarrow> deleteJob i w = (r, w') \<Longrightarrow> runsIn w' = runsIn w"
    and delete_ok: "sound w \<Longrightarrow> deleteJob i w = (Inr u, w') \<Longrightarrow> jobsIn w' = (jobsIn w)(i := None)"
    and delete_err: "sound w \<Longrightarrow> deleteJob i w = (Inl e, w') \<Longrightarrow>
                       jobsIn w' = jobsIn w \<or> jobsIn w' = (jobsIn w)(i := None)"
    and append_sound: "sound w \<Longrightarrow> appendRun rec w = (r, w') \<Longrightarrow> sound w'"
    and append_jobs: "sound w \<Longrightarrow> appendRun rec w = (r, w') \<Longrightarrow> jobsIn w' = jobsIn w"
    and append_ok: "sound w \<Longrightarrow> appendRun rec w = (Inr u, w') \<Longrightarrow> runsIn w' = insert rec (runsIn w)"
    and append_err: "sound w \<Longrightarrow> appendRun rec w = (Inl e, w') \<Longrightarrow>
                       runsIn w' = runsIn w \<or> runsIn w' = insert rec (runsIn w)"
    and load_same: "sound w \<Longrightarrow> loadJobs w = (q, w') \<Longrightarrow>
                      sound w' \<and> jobsIn w' = jobsIn w \<and> runsIn w' = runsIn w"
    and load_ok: "sound w \<Longrightarrow> loadJobs w = (Inr js, w') \<Longrightarrow>
                    distinct (map jb_ID js) \<and> map_of (map (\<lambda>j. (jb_ID j, j)) js) = jobsIn w"
begin

text \<open>Runs are never lost by any operation, whatever its outcome.\<close>

lemma runs_grow:
  "sound w \<Longrightarrow> storeJob j w = (a, w') \<Longrightarrow> runsIn w \<subseteq> runsIn w'"
  "sound w \<Longrightarrow> deleteJob i w = (a, w') \<Longrightarrow> runsIn w \<subseteq> runsIn w'"
  "sound w \<Longrightarrow> appendRun r w = (a, w') \<Longrightarrow> runsIn w \<subseteq> runsIn w'"
  using store_runs delete_runs append_ok append_err by (blast, blast, cases a) blast+

lemma store_other: "sound w \<Longrightarrow> storeJob j w = (a, w') \<Longrightarrow> i \<noteq> jb_ID j \<Longrightarrow> jobsIn w' i = jobsIn w i"
  by (cases a) (auto dest: store_ok store_err)

lemma store_same: "sound w \<Longrightarrow> storeJob j w = (a, w') \<Longrightarrow> jobsIn w' (jb_ID j) \<in> {jobsIn w (jb_ID j), Some j}"
  by (cases a) (auto dest: store_ok store_err)

lemma delete_other: "sound w \<Longrightarrow> deleteJob i w = (a, w') \<Longrightarrow> k \<noteq> i \<Longrightarrow> jobsIn w' k = jobsIn w k"
  by (cases a) (auto dest: delete_ok delete_err)

end

section \<open>The file store meets the contract\<close>

definition jobAt :: "Store \<Rightarrow> stored fs \<Rightarrow> gostr \<Rightarrow> Job option" where
  "jobAt s fs i =
     (if validateJobID i \<noteq> None then None
      else case map_of fs (jobFile s i) of
          Some (FileNode d) \<Rightarrow>
            (case unmarshalJob d of Inl _ \<Rightarrow> None | Inr j \<Rightarrow> if jb_ID j = i then Some j else None)
        | _ \<Rightarrow> None)"

definition archivedIn :: "Store \<Rightarrow> stored fs \<Rightarrow> RunRecord set" where
  "archivedIn s fs = {r. map_of fs (runPath s r) = Some (FileNode (Some (RunFile r)))}"

lemma not_isTemp_json: "last p = x @ jsonExt \<Longrightarrow> \<not> isTemp p"
proof
  assume l: "last p = x @ jsonExt" and "isTemp p"
  then have "hasPrefix (last p) tempPrefix"
    "list_all (\<lambda>r. 48 \<le> r \<and> r \<le> 57) (drop (length tempPrefix) (last p))"
    unfolding isTemp_def by blast+
  then obtain ds where ds: "last p = tempPrefix @ ds" "list_all (\<lambda>r. 48 \<le> r \<and> r \<le> 57) ds"
    by (metis append_eq_conv_conj hasPrefixE)
  have "last (last p) = 110" using l by (simp add: jsonExt_def lit_def)
  moreover have "last (last p) \<noteq> 110"
    using ds by (cases ds rule: rev_cases) (auto simp: tempPrefix_def lit_def)
  ultimately show False by simp
qed

lemma jobFile_props [simp]:
  "jobFile s i \<noteq> []" "\<not> isTemp (jobFile s i)" "jobFile s i = jobFile s k \<longleftrightarrow> i = k"
  "butlast (jobFile s i) = rootPath s @ [jobsDir]" "last (jobFile s i) = i @ jsonExt"
  by (simp_all add: jobFile_def butlast_append not_isTemp_json)

lemma runPath_shape: "\<exists>y m d x. runPath s r = rootPath s @ [runsDir, y, m, d, x @ jsonExt]"
  by (auto simp: runPath_def Let_def split: prod.splits)

lemma runPath_props [simp]:
  "runPath s r \<noteq> []" "\<not> isTemp (runPath s r)" "runPath s r \<noteq> jobFile s i" "jobFile s i \<noteq> runPath s r"
  using runPath_shape [of s r] not_isTemp_json [of "runPath s r"]
  by (auto simp: jobFile_def)

lemma evolves_file:
  "evolves fs0 p V fs \<Longrightarrow> q \<noteq> p \<Longrightarrow> \<not> isTemp q \<Longrightarrow>
   (map_of fs q = Some (FileNode d)) = (map_of fs0 q = Some (FileNode d))"
  unfolding evolves_def by (metis node.distinct(1) option.distinct(1) option.inject)

lemma jobAt_cong:
  assumes "\<And>d. (map_of fs (jobFile s i) = Some (FileNode d)) = (map_of fs0 (jobFile s i) = Some (FileNode d))"
  shows "jobAt s fs i = jobAt s fs0 i"
proof (cases "\<exists>d. map_of fs (jobFile s i) = Some (FileNode d)")
  case True
  then obtain d where "map_of fs (jobFile s i) = Some (FileNode d)" "map_of fs0 (jobFile s i) = Some (FileNode d)"
    using assms by blast
  then show ?thesis by (simp add: jobAt_def)
next
  case False
  then have "\<not> (\<exists>d. map_of fs0 (jobFile s i) = Some (FileNode d))" using assms by blast
  with False show ?thesis by (auto simp: jobAt_def split: option.splits node.splits)
qed

lemma jobAt_other: "evolves fs0 (jobFile s i) V fs \<Longrightarrow> k \<noteq> i \<Longrightarrow> jobAt s fs k = jobAt s fs0 k"
  by (rule jobAt_cong) (simp add: evolves_file)

lemma jobAt_run: "evolves fs0 (runPath s r) V fs \<Longrightarrow> jobAt s fs = jobAt s fs0"
  by (rule ext, rule jobAt_cong) (simp add: evolves_file)

lemma archivedIn_job: "evolves fs0 (jobFile s i) V fs \<Longrightarrow> archivedIn s fs = archivedIn s fs0"
  by (auto simp: archivedIn_def evolves_file)

lemma jobAt_stored:
  "validateJobID (jb_ID j) = None \<Longrightarrow> map_of fs (jobFile s (jb_ID j)) = Some (FileNode (Some (JobFile j))) \<Longrightarrow>
   jobAt s fs (jb_ID j) = Some j"
  by (simp add: jobAt_def unmarshalJob_def del: firstError_None)

lemma jobAt_update:
  "evolves fs0 (jobFile s i) V fs \<Longrightarrow> jobAt s fs i = v \<Longrightarrow> jobAt s fs = (jobAt s fs0)(i := v)"
  by (rule ext) (simp add: jobAt_other)

lemma archivedIn_append:
  assumes "evolves fs0 (runPath s r) V fs"
    and "map_of fs (runPath s r) = Some (FileNode (Some (RunFile r)))"
    and "map_of fs0 (runPath s r) \<in> {None, Some (FileNode (Some (RunFile r)))}"
  shows "archivedIn s fs = insert r (archivedIn s fs0)"
proof (rule set_eqI)
  fix r'
  show "r' \<in> archivedIn s fs \<longleftrightarrow> r' \<in> insert r (archivedIn s fs0)"
    using assms by (cases "runPath s r' = runPath s r") (auto simp: archivedIn_def evolves_file)
qed

lemma archivedIn_same:
  assumes "evolves fs0 (runPath s r) V fs" "map_of fs (runPath s r) = map_of fs0 (runPath s r)"
  shows "archivedIn s fs = archivedIn s fs0"
proof (rule set_eqI)
  fix r'
  show "r' \<in> archivedIn s fs \<longleftrightarrow> r' \<in> archivedIn s fs0"
    using assms by (cases "runPath s r' = runPath s r") (simp_all add: archivedIn_def evolves_file)
qed

subsection \<open>Storing, deleting, appending\<close>

abbreviation storeStates :: "Store \<Rightarrow> Job \<Rightarrow> stored fs \<Rightarrow> stored fs \<Rightarrow> bool" where
  "storeStates s job fs0 \<equiv> evolves fs0 (jobFile s (jb_ID job))
     {map_of fs0 (jobFile s (jb_ID job)), Some (FileNode (Some (JobFile job)))}"

abbreviation deleteStates :: "Store \<Rightarrow> gostr \<Rightarrow> stored fs \<Rightarrow> stored fs \<Rightarrow> bool" where
  "deleteStates s i fs0 \<equiv> evolves fs0 (jobFile s i) {map_of fs0 (jobFile s i), None}"

abbreviation appendStates :: "Store \<Rightarrow> RunRecord \<Rightarrow> stored fs \<Rightarrow> stored fs \<Rightarrow> bool" where
  "appendStates s r fs0 \<equiv> evolves fs0 (runPath s r)
     {map_of fs0 (runPath s r),
      if map_of fs0 (runPath s r) = None then Some (FileNode (Some (RunFile r))) else map_of fs0 (runPath s r)}"

lemma triple_bind_liftE:
  "(\<And>x. r = Inr x \<Longrightarrow> triple I P (k x) Q (\<lambda>_ _. True)) \<Longrightarrow> triple I P (bindA (liftE r) k) Q (\<lambda>_ _. True)"
  by (cases r) (auto simp: liftE_def bindA_def triple_def retA_def failA_def)

lemma triple_bind_guardA:
  "(r = None \<Longrightarrow> triple I P k Q (\<lambda>_ _. True)) \<Longrightarrow> triple I P (bindA (guardA r) (\<lambda>_. k)) Q (\<lambda>_ _. True)"
  by (cases r) (auto simp: guardA_def bindA_def triple_def retA_def failA_def)

lemma triple_bind_enter:
  assumes "triple I P k Q (\<lambda>_ _. True)"
  shows "triple I P (bindA (enter s) (\<lambda>_. k)) Q (\<lambda>_ _. True)"
proof (rule triple_bind [where R = "\<lambda>_. P"])
  show "triple I P (enter s) (\<lambda>_. P) (\<lambda>_ _. True)" by (rule triple_conseq [OF triple_enter [where P = P]]) auto
qed (rule assms)

lemma triple_StoreJob:
  "triple (storeStates s job fs0) (\<lambda>fs. map_of fs (jobFile s (jb_ID job)) = map_of fs0 (jobFile s (jb_ID job)))
     (StoreJob s job)
     (\<lambda>_ fs. validateJobID (jb_ID job) = None \<and>
             map_of fs (jobFile s (jb_ID job)) = Some (FileNode (Some (JobFile job)))) (\<lambda>_ _. True)"
  (is "triple ?I ?P _ ?Q _")
  unfolding StoreJob_def
proof (intro triple_bind_enter triple_bind_liftE)
  fix p data assume "jobPath s (jb_ID job) = Inr p" "marshalJob job = Inr data"
  then have p: "p = jobFile s (jb_ID job)" "validateJobID (jb_ID job) = None" "data = JobFile job"
    unfolding jobPath_def marshalJob_def by (cases "validateJobID (jb_ID job)"; simp split: if_splits)+
  show "triple ?I ?P (storeFile p data) ?Q (\<lambda>_ _. True)"
    unfolding p(1,3) by (rule triple_conseq [OF triple_storeFile]) (simp_all add: p(2) del: firstError_None)
qed

lemma triple_DeleteJob:
  "triple (deleteStates s i fs0) (\<lambda>fs. map_of fs (jobFile s i) = map_of fs0 (jobFile s i)) (DeleteJob s i)
     (\<lambda>_ fs. map_of fs (jobFile s i) = None) (\<lambda>_ _. True)" (is "triple ?I ?P _ ?Q _")
  unfolding DeleteJob_def
proof (intro triple_bind_enter triple_bind_liftE)
  fix p assume "jobPath s i = Inr p"
  then have p: "p = jobFile s i" unfolding jobPath_def by (cases "validateJobID i"; simp)
  show "triple ?I ?P (deleteFile p) ?Q (\<lambda>_ _. True)" unfolding p by (rule triple_deleteFile) simp_all
qed

lemma triple_AppendRunRecord:
  "triple (appendStates s r fs0) (\<lambda>fs. map_of fs (runPath s r) = map_of fs0 (runPath s r)) (AppendRunRecord s r)
     (\<lambda>_ fs. map_of fs (runPath s r) = Some (FileNode (Some (RunFile r)))) (\<lambda>_ _. True)"
  (is "triple ?I ?P _ ?Q _")
  unfolding AppendRunRecord_def
proof (intro triple_bind_enter triple_bind_liftE triple_bind_guardA)
  fix data assume "marshalRun r = Inr data"
  then have d: "data = RunFile r" by (simp add: marshalRun_def split: if_splits)
  show "triple ?I ?P (appendFile (runPath s r) data) ?Q (\<lambda>_ _. True)"
    unfolding d by (rule triple_appendFile) simp_all
qed

lemma StoreJob_states:
  assumes "wfFs (w_fs w)" "StoreJob s job w = (r, w')"
  shows "safeSince (w_past w) (storeStates s job (w_fs w)) w'"
    "r = Inr u \<Longrightarrow> validateJobID (jb_ID job) = None \<and>
       map_of (w_fs w') (jobFile s (jb_ID job)) = Some (FileNode (Some (JobFile job)))"
  using tripleD [OF triple_StoreJob assms(2) safeSince_start, of "w_fs w"] assms(1)
  by (auto simp: evolves_refl)

lemma DeleteJob_states:
  assumes "wfFs (w_fs w)" "DeleteJob s i w = (r, w')"
  shows "safeSince (w_past w) (deleteStates s i (w_fs w)) w'"
    "r = Inr u \<Longrightarrow> map_of (w_fs w') (jobFile s i) = None"
  using tripleD [OF triple_DeleteJob assms(2) safeSince_start, of "w_fs w"] assms(1)
  by (auto simp: evolves_refl)

lemma AppendRunRecord_states:
  assumes "wfFs (w_fs w)" "AppendRunRecord s rec w = (r, w')"
  shows "safeSince (w_past w) (appendStates s rec (w_fs w)) w'"
    "r = Inr u \<Longrightarrow> map_of (w_fs w') (runPath s rec) = Some (FileNode (Some (RunFile rec)))"
  using tripleD [OF triple_AppendRunRecord assms(2) safeSince_start, of "w_fs w"] assms(1)
  by (auto simp: evolves_refl)

lemma storeStates_jobs:
  assumes "storeStates s job fs0 fs"
  shows "jobAt s fs = jobAt s fs0 \<or> jobAt s fs = (jobAt s fs0)(jb_ID job \<mapsto> job)"
proof -
  let ?p = "jobFile s (jb_ID job)"
  have "map_of fs ?p = map_of fs0 ?p \<or> map_of fs ?p = Some (FileNode (Some (JobFile job)))"
    using assms by (auto simp: evolves_def)
  then have "jobAt s fs (jb_ID job) = jobAt s fs0 (jb_ID job) \<or> jobAt s fs (jb_ID job) = Some job"
    by (auto simp: jobAt_def unmarshalJob_def)
  then show ?thesis using jobAt_update [OF assms] by (metis fun_upd_triv)
qed

lemma deleteStates_jobs:
  assumes "deleteStates s i fs0 fs"
  shows "jobAt s fs = jobAt s fs0 \<or> jobAt s fs = (jobAt s fs0)(i := None)"
proof -
  have "map_of fs (jobFile s i) = map_of fs0 (jobFile s i) \<or> map_of fs (jobFile s i) = None"
    using assms by (auto simp: evolves_def)
  then have "jobAt s fs i = jobAt s fs0 i \<or> jobAt s fs i = None"
    by (auto simp: jobAt_def)
  then show ?thesis using jobAt_update [OF assms] by (metis fun_upd_triv)
qed

lemma appendStates_runs:
  assumes "appendStates s r fs0 fs"
  shows "archivedIn s fs = archivedIn s fs0 \<or> archivedIn s fs = insert r (archivedIn s fs0)"
proof (cases "map_of fs (runPath s r) = map_of fs0 (runPath s r)")
  case True
  then show ?thesis using archivedIn_same [OF assms] by blast
next
  case False
  with assms have "map_of fs0 (runPath s r) = None" "map_of fs (runPath s r) = Some (FileNode (Some (RunFile r)))"
    by (auto simp: evolves_def split: if_splits)
  then show ?thesis using archivedIn_append [OF assms] by blast
qed

subsection \<open>Loading\<close>

lemma ext_json: "47 \<notin> set i \<Longrightarrow> isJSONName (i @ jsonExt)"
  by (simp add: isJSONName_def ext_def jsonExt_def lit_def equalFoldASCII_def Let_def)

lemma validateJobID_slash: "validateJobID i = None \<Longrightarrow> 47 \<notin> set i"
  by (auto simp: validateJobID_def badID_def)

definition loadedFrom :: "stored fs \<Rightarrow> path \<Rightarrow> (gostr \<times> bool) list \<Rightarrow> Job list \<Rightarrow> bool" where
  "loadedFrom fs dir es js \<longleftrightarrow>
     map (\<lambda>j. jb_ID j @ jsonExt) js = map fst (filter (\<lambda>(n, d). \<not> d \<and> isJSONName n) es) \<and>
     list_all (\<lambda>j. validateJobID (jb_ID j) = None \<and>
       (\<exists>d. map_of fs (dir @ [jb_ID j @ jsonExt]) = Some (FileNode d) \<and> unmarshalJob d = Inr j)) js"

lemma triple_loadEntries:
  assumes wf: "wfFs fs0"
  shows "triple (\<lambda>fs. fs = fs0) (\<lambda>_. True) (loadEntries dir es jobs)
           (\<lambda>js _. \<exists>js'. js = jobs @ js' \<and> loadedFrom fs0 dir es js') (\<lambda>_ _. True)"
proof (induction es arbitrary: jobs)
  case Nil
  show ?case by (simp, rule triple_retI) (simp add: loadedFrom_def)
next
  case (Cons e es)
  obtain n d where e: "e = (n, d)" by fastforce
  show ?case
  proof (cases "d \<or> \<not> isJSONName n")
    case True
    with Cons.IH [of jobs] show ?thesis by (auto simp: e loadedFrom_def)
  next
    case False
    let ?I = "\<lambda>fs. fs = fs0"
    let ?Q = "\<lambda>js _. \<exists>js'. js = jobs @ js' \<and> loadedFrom fs0 dir (e # es) js'"
    have rd: "triple ?I (\<lambda>_. True) (readFile (dir @ [n]))
        (\<lambda>data _. map_of fs0 (dir @ [n]) = Some (FileNode data)) (\<lambda>_ _. True)"
      by (rule triple_conseq [OF triple_readFile [where P = "\<lambda>_. True"]]) (auto simp: wf)
    have rest: "triple ?I (\<lambda>_. map_of fs0 (dir @ [n]) = Some (FileNode data))
        (case unmarshalJob data of Inl msg \<Rightarrow> failA (DecodeFailed msg)
         | Inr job \<Rightarrow> bindA (guardA (checkLoaded n job)) (\<lambda>_. loadEntries dir es (jobs @ [job])))
        ?Q (\<lambda>_ _. True)" for data
    proof (cases "unmarshalJob data")
      case (Inr job)
      have "triple ?I (\<lambda>_. map_of fs0 (dir @ [n]) = Some (FileNode data))
          (bindA (guardA (checkLoaded n job)) (\<lambda>_. loadEntries dir es (jobs @ [job]))) ?Q (\<lambda>_ _. True)"
      proof (rule triple_bind_guardA)
        assume ok: "checkLoaded n job = None"
        then have n: "n = jb_ID job @ jsonExt" and v: "validateJobID (jb_ID job) = None"
          by (simp_all add: checkLoaded_def)
        show "triple ?I (\<lambda>_. map_of fs0 (dir @ [n]) = Some (FileNode data)) (loadEntries dir es (jobs @ [job])) ?Q (\<lambda>_ _. True)"
        proof (rule triple_pre)
          fix fs assume at: "map_of fs0 (dir @ [n]) = Some (FileNode data)"
          have "\<exists>js'. js = jobs @ js' \<and> loadedFrom fs0 dir (e # es) js'"
            if "js = (jobs @ [job]) @ js'" "loadedFrom fs0 dir es js'" for js js'
            using that False at Inr v by (intro exI [of _ "job # js'"]) (auto simp: loadedFrom_def e n)
          then show "triple ?I (\<lambda>_. map_of fs0 (dir @ [n]) = Some (FileNode data))
              (loadEntries dir es (jobs @ [job])) ?Q (\<lambda>_ _. True)"
            by (intro triple_conseq [OF Cons.IH [of "jobs @ [job]"]]) auto
        qed
      qed
      with Inr show ?thesis by simp
    qed simp
    have "triple ?I (\<lambda>_. True)
       (bindA (mapErr (IOFailed (lit ''read scheduled job'')) (readFile (dir @ [n]))) (\<lambda>data.
           case unmarshalJob data of Inl msg \<Rightarrow> failA (DecodeFailed msg)
           | Inr job \<Rightarrow> bindA (guardA (checkLoaded n job)) (\<lambda>_. loadEntries dir es (jobs @ [job])))) ?Q (\<lambda>_ _. True)"
      by (rule triple_bind, rule triple_mapErr, rule rd, rule rest)
    with False show ?thesis by (simp add: e)
  qed
qed

lemma dirEntries_iff:
  assumes "wfFs fs"
  shows "(n, b) \<in> set (dirEntries fs dir) \<longleftrightarrow> (\<exists>x. map_of fs (dir @ [n]) = Some x \<and> b = isDirNode x)"
proof -
  have "distinct (map fst fs)" using assms by (simp add: wfFs_def)
  then have "(dir @ [n], x) \<in> set fs \<longleftrightarrow> map_of fs (dir @ [n]) = Some x" for x by simp
  then show ?thesis
    by (force simp: dirEntries_def image_iff split: prod.splits)
qed

lemma dirEntries_distinct:
  assumes "wfFs fs"
  shows "distinct (map fst (dirEntries fs dir))"
proof -
  let ?F = "filter (\<lambda>(q, _). q \<noteq> [] \<and> butlast q = dir) fs"
  have "distinct (map fst ?F)" using assms by (simp add: wfFs_def distinct_map_filter)
  moreover have "inj_on last (set (map fst ?F))"
    by (auto simp: inj_on_def) (metis append_butlast_last_id)
  ultimately have "distinct (map last (map fst ?F))"
    by (subst distinct_map) blast
  then have "distinct (map fst (map (\<lambda>(q, n). (last q, isDirNode n)) ?F))"
    by (simp add: case_prod_beta' comp_def)
  then show ?thesis
    unfolding dirEntries_def by (metis (no_types, lifting) distinct_map mset_map mset_sort mset_eq_imp_distinct_iff)
qed


lemma loadedFrom_jobAt:
  assumes wf: "wfFs fs" and js: "loadedFrom fs (rootPath s @ [jobsDir]) (dirEntries fs (rootPath s @ [jobsDir])) js"
  shows "distinct (map jb_ID js) \<and> map_of (map (\<lambda>j. (jb_ID j, j)) js) = jobAt s fs"
proof
  let ?dir = "rootPath s @ [jobsDir]"
  have jf: "?dir @ [i @ jsonExt] = jobFile s i" for i by (simp add: jobFile_def)
  have names: "map (\<lambda>j. jb_ID j @ jsonExt) js = map fst (filter (\<lambda>(n, d). \<not> d \<and> isJSONName n) (dirEntries fs ?dir))"
    and each: "\<And>j. j \<in> set js \<Longrightarrow> validateJobID (jb_ID j) = None \<and>
       (\<exists>d. map_of fs (jobFile s (jb_ID j)) = Some (FileNode d) \<and> unmarshalJob d = Inr j)"
    using js unfolding loadedFrom_def list_all_iff jf by auto
  have "distinct (map (\<lambda>j. jb_ID j @ jsonExt) js)"
    unfolding names using dirEntries_distinct [OF wf] by (rule distinct_map_filter)
  then have "distinct (map (\<lambda>x. x @ jsonExt) (map jb_ID js))" by (simp add: comp_def)
  then show dist: "distinct (map jb_ID js)" by (simp only: distinct_map)
  have bk: "jobAt s fs (jb_ID j) = Some j" if "j \<in> set js" for j
    using each [OF that] by (auto simp: jobAt_def)
  have inn: "j \<in> set js" if at: "jobAt s fs i = Some j" for i j
  proof -
    from at obtain d where v: "validateJobID i = None" and d: "map_of fs (jobFile s i) = Some (FileNode d)"
        "unmarshalJob d = Inr j"
      unfolding jobAt_def by (auto split: if_splits option.splits node.splits sum.splits)
    have "(i @ jsonExt, False) \<in> set (dirEntries fs ?dir)"
      using d(1) by (simp add: dirEntries_iff [OF wf] jobFile_def)
    moreover have "isJSONName (i @ jsonExt)" using validateJobID_slash [OF v] by (rule ext_json)
    ultimately have "i @ jsonExt \<in> set (map (\<lambda>j. jb_ID j @ jsonExt) js)"
      unfolding names by force
    then obtain j' where j': "j' \<in> set js" "jb_ID j' = i" by auto
    with each [OF j'(1)] d show ?thesis by auto
  qed
  have id: "jb_ID j = i" if "jobAt s fs i = Some j" for i j
    using that unfolding jobAt_def by (auto split: if_splits option.splits node.splits sum.splits)
  show "map_of (map (\<lambda>j. (jb_ID j, j)) js) = jobAt s fs"
  proof
    fix i
    show "map_of (map (\<lambda>j. (jb_ID j, j)) js) i = jobAt s fs i"
    proof (cases "jobAt s fs i")
      case None
      then have "i \<notin> jb_ID ` set js" using bk by force
      with None show ?thesis by (simp add: map_of_eq_None_iff image_image)
    next
      case (Some j)
      then have "(i, j) \<in> set (map (\<lambda>j. (jb_ID j, j)) js)" using inn id by force
      moreover have "distinct (map fst (map (\<lambda>j. (jb_ID j, j)) js))" using dist by (simp add: comp_def)
      ultimately show ?thesis using Some by (simp del: set_map)
    qed
  qed
qed

lemma triple_LoadJobs:
  assumes wf: "wfFs fs0"
  shows "triple (\<lambda>fs. fs = fs0) (\<lambda>_. True) (LoadJobs s)
     (\<lambda>js _. distinct (map jb_ID js) \<and> map_of (map (\<lambda>j. (jb_ID j, j)) js) = jobAt s fs0) (\<lambda>_ _. True)"
  (is "triple ?I _ _ ?Q _")
proof -
  let ?dir = "rootPath s @ [jobsDir]"
  have rd: "triple ?I (\<lambda>_. True) (readDir ?dir) (\<lambda>es _. es = dirEntries fs0 ?dir)
      (\<lambda>e _. e = NotExist \<longrightarrow> map_of fs0 ?dir = None)"
    unfolding readDir_def
    by (rule triple_sysCall) (auto dest: statFs_NotExist split: sum.splits if_splits)
  have load: "triple ?I (\<lambda>_. es = dirEntries fs0 ?dir) (loadEntries ?dir es []) ?Q (\<lambda>_ _. True)" for es
  proof (rule triple_pre)
    fix fs assume es: "es = dirEntries fs0 ?dir"
    show "triple ?I (\<lambda>_. es = dirEntries fs0 ?dir) (loadEntries ?dir es []) ?Q (\<lambda>_ _. True)"
      by (rule triple_conseq [OF triple_loadEntries [OF wf]]) (use es loadedFrom_jobAt [OF wf] in auto)
  qed
  have none: "jobAt s fs0 = Map.empty" if "map_of fs0 ?dir = None"
  proof
    fix i
    have "map_of fs0 (jobFile s i) = None"
      using that wfFs_parent [OF wf, of "jobFile s i"] by (cases "map_of fs0 (jobFile s i)") auto
    then show "jobAt s fs0 i = None" by (simp add: jobAt_def)
  qed
  have miss: "triple ?I (\<lambda>_. e = NotExist \<longrightarrow> map_of fs0 ?dir = None)
      (if isNotExist e then retA [] else failA (IOFailed (lit ''read scheduled jobs dir'') e)) ?Q (\<lambda>_ _. True)" for e
    using none by (auto simp: isNotExist_def intro!: triple_retI)
  show ?thesis
    unfolding LoadJobs_def Let_def
    by (intro triple_bind_enter triple_handle [OF rd load miss])
qed

lemma LoadJobs_result:
  assumes "wfFs (w_fs w)" "LoadJobs s w = (r, w')"
  shows "w_fs w' = w_fs w"
    "r = Inr js \<Longrightarrow> distinct (map jb_ID js) \<and> map_of (map (\<lambda>j. (jb_ID j, j)) js) = jobAt s (w_fs w)"
  using tripleD [OF triple_LoadJobs [OF assms(1)] assms(2) safeSince_start]
  by (auto simp: safeSince_def)

lemma StoreJob_laws:
  assumes wf: "wfFs (w_fs w)" and run: "StoreJob s j w = (r, w')"
  shows "wfFs (w_fs w')" "archivedIn s (w_fs w') = archivedIn s (w_fs w)"
    "r = Inr u \<Longrightarrow> jobAt s (w_fs w') = (jobAt s (w_fs w))(jb_ID j \<mapsto> j)"
    "jobAt s (w_fs w') = jobAt s (w_fs w) \<or> jobAt s (w_fs w') = (jobAt s (w_fs w))(jb_ID j \<mapsto> j)"
proof -
  have ev: "storeStates s j (w_fs w) (w_fs w')" using StoreJob_states(1) [OF wf run] by (simp add: safeSince_def)
  show "wfFs (w_fs w')" by (rule evolves_wf [OF ev])
  show "archivedIn s (w_fs w') = archivedIn s (w_fs w)" by (rule archivedIn_job [OF ev])
  show "jobAt s (w_fs w') = jobAt s (w_fs w) \<or> jobAt s (w_fs w') = (jobAt s (w_fs w))(jb_ID j \<mapsto> j)"
    by (rule storeStates_jobs [OF ev])
  assume "r = Inr u"
  from StoreJob_states(2) [OF wf run this] have "jobAt s (w_fs w') (jb_ID j) = Some j" using jobAt_stored by blast
  then show "jobAt s (w_fs w') = (jobAt s (w_fs w))(jb_ID j \<mapsto> j)" by (rule jobAt_update [OF ev])
qed

lemma DeleteJob_laws:
  assumes wf: "wfFs (w_fs w)" and run: "DeleteJob s i w = (r, w')"
  shows "wfFs (w_fs w')" "archivedIn s (w_fs w') = archivedIn s (w_fs w)"
    "r = Inr u \<Longrightarrow> jobAt s (w_fs w') = (jobAt s (w_fs w))(i := None)"
    "jobAt s (w_fs w') = jobAt s (w_fs w) \<or> jobAt s (w_fs w') = (jobAt s (w_fs w))(i := None)"
proof -
  have ev: "deleteStates s i (w_fs w) (w_fs w')" using DeleteJob_states(1) [OF wf run] by (simp add: safeSince_def)
  show "wfFs (w_fs w')" by (rule evolves_wf [OF ev])
  show "archivedIn s (w_fs w') = archivedIn s (w_fs w)" by (rule archivedIn_job [OF ev])
  show "jobAt s (w_fs w') = jobAt s (w_fs w) \<or> jobAt s (w_fs w') = (jobAt s (w_fs w))(i := None)"
    by (rule deleteStates_jobs [OF ev])
  assume "r = Inr u"
  from DeleteJob_states(2) [OF wf run this] have "jobAt s (w_fs w') i = None" by (simp add: jobAt_def)
  then show "jobAt s (w_fs w') = (jobAt s (w_fs w))(i := None)" by (rule jobAt_update [OF ev])
qed

lemma AppendRunRecord_laws:
  assumes wf: "wfFs (w_fs w)" and run: "AppendRunRecord s rec w = (r, w')"
  shows "wfFs (w_fs w')" "jobAt s (w_fs w') = jobAt s (w_fs w)"
    "r = Inr u \<Longrightarrow> archivedIn s (w_fs w') = insert rec (archivedIn s (w_fs w))"
    "archivedIn s (w_fs w') = archivedIn s (w_fs w) \<or> archivedIn s (w_fs w') = insert rec (archivedIn s (w_fs w))"
proof -
  have ev: "appendStates s rec (w_fs w) (w_fs w')"
    using AppendRunRecord_states(1) [OF wf run] by (simp add: safeSince_def)
  show "wfFs (w_fs w')" by (rule evolves_wf [OF ev])
  show "jobAt s (w_fs w') = jobAt s (w_fs w)" by (rule jobAt_run [OF ev])
  show "archivedIn s (w_fs w') = archivedIn s (w_fs w) \<or> archivedIn s (w_fs w') = insert rec (archivedIn s (w_fs w))"
    by (rule appendStates_runs [OF ev])
  assume "r = Inr u"
  note new = AppendRunRecord_states(2) [OF wf run this]
  have "map_of (w_fs w) (runPath s rec) \<in> {None, Some (FileNode (Some (RunFile rec)))}"
    using ev new by (auto simp: evolves_def split: if_splits)
  then show "archivedIn s (w_fs w') = insert rec (archivedIn s (w_fs w))" by (rule archivedIn_append [OF ev new])
qed

interpretation file_store: schedule_store
  "StoreJob s" "DeleteJob s" "AppendRunRecord s" "LoadJobs s"
  "\<lambda>w. jobAt s (w_fs w)" "\<lambda>w. archivedIn s (w_fs w)" "\<lambda>w. wfFs (w_fs w)"
proof (unfold_locales, goal_cases)
  case 1 then show ?case by (rule StoreJob_laws)
next
  case 2 then show ?case by (rule StoreJob_laws)
next
  case 3 then show ?case by (rule StoreJob_laws) (rule refl)
next
  case 4 then show ?case by (rule StoreJob_laws)
next
  case 5 then show ?case by (rule DeleteJob_laws)
next
  case 6 then show ?case by (rule DeleteJob_laws)
next
  case 7 then show ?case by (rule DeleteJob_laws) (rule refl)
next
  case 8 then show ?case by (rule DeleteJob_laws)
next
  case 9 then show ?case by (rule AppendRunRecord_laws)
next
  case 10 then show ?case by (rule AppendRunRecord_laws)
next
  case 11 then show ?case by (rule AppendRunRecord_laws) (rule refl)
next
  case 12 then show ?case by (rule AppendRunRecord_laws)
next
  case 13 then show ?case using LoadJobs_result(1) by metis
next
  case 14 then show ?case by (rule LoadJobs_result) (rule refl)
qed

section \<open>Queries\<close>

lemma olderRun_trans: "olderRun a b \<Longrightarrow> olderRun b c \<Longrightarrow> olderRun a c"
  by (auto simp: olderRun_def split: if_splits)

lemma olderRun_irrefl: "\<not> olderRun a a"
  by (simp add: olderRun_def)

lemma olderRun_mix: "\<not> olderRun a b \<Longrightarrow> olderRun a c \<Longrightarrow> olderRun b c"
  by (auto simp: olderRun_def split: if_splits)

abbreviation newestFirst :: "RunRecord list \<Rightarrow> bool" where
  "newestFirst \<equiv> sorted_wrt (\<lambda>a b. \<not> olderRun a b)"

definition insertRun :: "RunRecord \<Rightarrow> RunRecord list \<Rightarrow> RunRecord list" where
  "insertRun r rs =
     takeWhile (\<lambda>a. \<not> olderRun a r) rs @ r # dropWhile (\<lambda>a. \<not> olderRun a r) rs"

lemma newestFirst_insertRun:
  assumes "newestFirst rs"
  shows "newestFirst (insertRun r rs)"
proof -
  have tail: "olderRun a r" if "a \<in> set (dropWhile (\<lambda>a. \<not> olderRun a r) rs)" for a
    using assms that
  proof (induction rs)
    case (Cons x rs)
    show ?case
    proof (cases "olderRun x r")
      case True
      with Cons.prems have "a = x \<or> \<not> olderRun x a" by auto
      with True show ?thesis using olderRun_mix by blast
    qed (use Cons in simp)
  qed simp
  let ?T = "takeWhile (\<lambda>a. \<not> olderRun a r) rs" and ?D = "dropWhile (\<lambda>a. \<not> olderRun a r) rs"
  have "newestFirst (?T @ ?D)" using assms by simp
  then have TD: "newestFirst ?T" "newestFirst ?D" "\<forall>a \<in> set ?T. \<forall>b \<in> set ?D. \<not> olderRun a b"
    unfolding sorted_wrt_append by blast+
  have D: "\<forall>b \<in> set ?D. \<not> olderRun r b" using tail olderRun_trans olderRun_irrefl by blast
  have T: "\<forall>a \<in> set ?T. \<not> olderRun a r" using set_takeWhileD by fast
  have "newestFirst (r # ?D)" using TD(2) D unfolding sorted_wrt.simps by blast
  moreover have "\<forall>a \<in> set ?T. \<forall>b \<in> set (r # ?D). \<not> olderRun a b" using TD(3) T unfolding list.set by blast
  ultimately show ?thesis using TD(1) unfolding insertRun_def sorted_wrt_append by blast
qed

lemma mset_insertRun [simp]: "mset (insertRun r rs) = add_mset r (mset rs)"
  by (simp add: insertRun_def) (metis mset_append takeWhile_dropWhile_id)

lemma sortSearch_takeWhile:
  assumes "newestFirst rs"
  shows "sortSearch (length rs) (\<lambda>i. olderRun (rs ! i) r) = length (takeWhile (\<lambda>a. \<not> olderRun a r) rs)"
proof -
  let ?f = "\<lambda>i. olderRun (rs ! i) r" and ?n = "length (takeWhile (\<lambda>a. \<not> olderRun a r) rs)"
  have mono: "?f b" if "a \<le> b" "b < length rs" "?f a" for a b
  proof (cases "a = b")
    case False
    with that have "\<not> olderRun (rs ! a) (rs ! b)" using sorted_wrt_nth_less [OF assms, of a b] by simp
    with that(3) show ?thesis using olderRun_mix by blast
  qed (use that in simp)
  have before: "\<not> ?f k" if "k < ?n" for k
    using that nth_mem [of k "takeWhile (\<lambda>a. \<not> olderRun a r) rs"]
    by (auto dest: set_takeWhileD simp: takeWhile_nth)
  have at: "?f ?n" if "?n < length rs" using nth_length_takeWhile [OF that] by simp
  have S1: "sortSearch (length rs) ?f \<le> length rs" by (rule sortSearch_least(1)) (rule mono)
  have S2: "\<not> ?f k" if "k < sortSearch (length rs) ?f" for k
    by (rule sortSearch_least(2) [OF _ that]) (rule mono)
  have S3: "?f k" if "sortSearch (length rs) ?f \<le> k" "k < length rs" for k
    by (rule sortSearch_least(3) [OF _ that]) (rule mono)
  have le: "?n \<le> length rs" by (rule length_takeWhile_le)
  show ?thesis
  proof (rule antisym)
    show "sortSearch (length rs) ?f \<le> ?n"
    proof (rule ccontr)
      assume "\<not> sortSearch (length rs) ?f \<le> ?n"
      with S1 S2 have "?n < length rs" "\<not> ?f ?n" by simp_all
      with at show False by blast
    qed
    show "?n \<le> sortSearch (length rs) ?f"
    proof (rule ccontr)
      assume "\<not> ?n \<le> sortSearch (length rs) ?f"
      with le have "sortSearch (length rs) ?f < ?n" "sortSearch (length rs) ?f < length rs" by simp_all
      with S3 [OF order_refl] before show False by blast
    qed
  qed
qed

text \<open>Keeping only the newest \<open>L\<close> runs while inserting loses nothing of the newest \<open>L\<close> runs.\<close>

lemma insertNewestRun_take:
  assumes "newestFirst rs"
  shows "insertNewestRun (take L rs) r L = take L (insertRun r rs)"
proof -
  let ?P = "\<lambda>a. \<not> olderRun a r"
  have s: "newestFirst (take L rs)" using assms by (rule sorted_wrt_take)
  have idx: "sortSearch (length (take L rs)) (\<lambda>i. olderRun (take L rs ! i) r) = length (takeWhile ?P (take L rs))"
    by (rule sortSearch_takeWhile [OF s])
  have tw: "takeWhile ?P (take L rs) = take L (takeWhile ?P rs)"
    by (induction rs arbitrary: L) (auto simp: take_Cons')
  let ?n = "length (takeWhile ?P rs)"
  have split: "take ?n rs = takeWhile ?P rs" "drop ?n rs = dropWhile ?P rs"
    by (metis takeWhile_eq_take, metis dropWhile_eq_drop)
  show ?thesis
  proof (cases "L \<le> ?n")
    case True
    then have "length (takeWhile ?P (take L rs)) = L" by (simp add: tw)
    moreover have "take L (take ?n rs) = take L rs" using True by (simp add: min_def)
    then have "take L rs = take L (takeWhile ?P rs)" by (simp only: split(1))
    ultimately show ?thesis using True unfolding insertNewestRun_def idx by (simp add: insertRun_def Let_def)
  next
    case False
    then have n: "length (takeWhile ?P (take L rs)) = ?n" by (simp add: tw min_def)
    have "take ?n (take L rs) = takeWhile ?P rs" using False split(1) by (simp add: min_def)
    moreover have "drop ?n (take L rs) = take (L - ?n) (dropWhile ?P rs)" using split(2) by (simp add: drop_take)
    ultimately show ?thesis
      using False unfolding insertNewestRun_def idx n by (auto simp: insertRun_def Let_def take_Cons')
  qed
qed

definition historyOf :: "nat \<Rightarrow> RunRecord list \<Rightarrow> RunHistory \<Rightarrow> bool" where
  "historyOf limit rs h \<longleftrightarrow>
     rh_Matched h = int (length rs) \<and>
     (\<forall>st. map_of (rh_StatusCounts h) st =
        (let n = length (filter (\<lambda>r. rr_Status r = st) rs) in if n = 0 then None else Some (int n))) \<and>
     (\<exists>full. newestFirst full \<and> mset full = mset rs \<and> rh_Runs h = take limit full)"

lemma map_of_bumpCount:
  "map_of (bumpCount st counts) st' =
     (if st' = st then Some ((case map_of counts st of None \<Rightarrow> 0 | Some n \<Rightarrow> n) + 1) else map_of counts st')"
  by (simp add: bumpCount_def)

lemma historyOf_addMatch:
  assumes "historyOf (nat (rf_Limit (rqy_Filter query))) rs h"
  shows "historyOf (nat (rf_Limit (rqy_Filter query)))
           (rs @ (if runMatches r query then [r] else [])) (addMatch query h r)"
proof (cases "runMatches r query")
  case True
  let ?L = "nat (rf_Limit (rqy_Filter query))"
  from assms obtain full where full: "newestFirst full" "mset full = mset rs" "rh_Runs h = take ?L full"
    and m: "rh_Matched h = int (length rs)"
    and c: "\<And>st. map_of (rh_StatusCounts h) st =
        (let n = length (filter (\<lambda>r. rr_Status r = st) rs) in if n = 0 then None else Some (int n))"
    unfolding historyOf_def by blast
  have "map_of (rh_StatusCounts (addMatch query h r)) st =
      (let n = length (filter (\<lambda>r. rr_Status r = st) (rs @ [r])) in if n = 0 then None else Some (int n))" for st
    using True by (auto simp: addMatch_def map_of_bumpCount c Let_def)
  moreover have "rh_Runs (addMatch query h r) = take ?L (insertRun r full)"
    using True by (simp add: addMatch_def full(3) insertNewestRun_take [OF full(1)])
  moreover have "rh_Matched (addMatch query h r) = int (length (rs @ [r]))" using True m by (simp add: addMatch_def)
  moreover have "mset (insertRun r full) = mset (rs @ [r])" using full(2) by simp
  ultimately show ?thesis
    unfolding historyOf_def using True newestFirst_insertRun [OF full(1), of r] by auto
qed (use assms in \<open>simp add: addMatch_def\<close>)

definition recordAt :: "stored fs \<Rightarrow> path \<Rightarrow> RunRecord \<Rightarrow> bool" where
  "recordAt fs p r \<longleftrightarrow> (\<exists>d. map_of fs p = Some (FileNode d) \<and> decodeRun d = Inr r)"

abbreviation runFiles :: "(path \<times> bool) list \<Rightarrow> path list" where
  "runFiles es \<equiv> map fst (filter (\<lambda>(p, d). \<not> d \<and> isJSONName (last p)) es)"

lemma triple_bind_ctxErr:
  assumes "triple I P k Q (\<lambda>_ _. True)"
  shows "triple I P (bindA ctxErr (\<lambda>_. k)) Q (\<lambda>_ _. True)"
proof (rule triple_bind [where R = "\<lambda>_. P"])
  show "triple I P ctxErr (\<lambda>_. P) (\<lambda>_ _. True)" by (rule triple_conseq [OF triple_ctxErr [where P = P]]) auto
qed (rule assms)

lemma triple_readRunRecord:
  assumes wf: "wfFs fs0"
  shows "triple (\<lambda>fs. fs = fs0) (\<lambda>_. True) (readRunRecord p) (\<lambda>r _. recordAt fs0 p r) (\<lambda>_ _. True)"
  unfolding readRunRecord_def
proof (rule triple_bind)
  show "triple (\<lambda>fs. fs = fs0) (\<lambda>_. True) (mapErr (IOFailed (lit ''read scheduled run'')) (readFile p))
      (\<lambda>d _. map_of fs0 p = Some (FileNode d)) (\<lambda>_ _. True)"
    by (rule triple_mapErr, rule triple_conseq [OF triple_readFile [where P = "\<lambda>_. True"]]) (auto simp: wf)
  show "triple (\<lambda>fs. fs = fs0) (\<lambda>_. map_of fs0 p = Some (FileNode d)) (liftE (decodeRun d))
      (\<lambda>r _. recordAt fs0 p r) (\<lambda>_ _. True)" for d
    by (rule triple_conseq [OF triple_liftE [where P = "\<lambda>_. map_of fs0 p = Some (FileNode d)"]])
      (auto simp: recordAt_def)
qed

lemma triple_walkRuns:
  assumes wf: "wfFs fs0" and h: "historyOf (nat (rf_Limit (rqy_Filter query))) rs h"
  shows "triple (\<lambda>fs. fs = fs0) (\<lambda>_. True) (walkRuns query es h)
     (\<lambda>h' _. \<exists>recs. list_all2 (recordAt fs0) (runFiles es) recs \<and>
        historyOf (nat (rf_Limit (rqy_Filter query))) (rs @ filter (\<lambda>r. runMatches r query) recs) h') (\<lambda>_ _. True)"
  using h
proof (induction es arbitrary: rs h)
  case Nil
  then show ?case by (simp, intro triple_retI) auto
next
  case (Cons e es)
  obtain p d where e: "e = (p, d)" by fastforce
  let ?I = "\<lambda>fs. fs = fs0"
  let ?Q = "\<lambda>rs es h' _. \<exists>recs. list_all2 (recordAt fs0) (runFiles es) recs \<and>
        historyOf (nat (rf_Limit (rqy_Filter query))) (rs @ filter (\<lambda>r. runMatches r query) recs) h'"
  show ?case
  proof (cases "d \<or> \<not> isJSONName (last p)")
    case True
    have "triple ?I (\<lambda>_. True) (bindA (mapErr (IOFailed (lit ''read dir'')) noEffect) (\<lambda>_. walkRuns query es h))
        (?Q rs es) (\<lambda>_ _. True)"
      by (rule triple_bind, rule triple_mapErr, rule triple_noEffect, rule Cons.IH [OF Cons.prems])
    with True Cons.IH [OF Cons.prems] show ?thesis
      unfolding e walkRuns.simps by (intro triple_bind_ctxErr) auto
  next
    case False
    have next': "triple ?I (\<lambda>_. recordAt fs0 p r) (walkRuns query es (addMatch query h r)) (?Q rs (e # es)) (\<lambda>_ _. True)" for r
    proof (rule triple_pre)
      fix fs assume r: "recordAt fs0 p r"
      have "?Q rs (e # es) h' x"
        if "?Q (rs @ (if runMatches r query then [r] else [])) es h' x" for h' and x :: "stored fs"
      proof -
        from that obtain recs where recs: "list_all2 (recordAt fs0) (runFiles es) recs"
          "historyOf (nat (rf_Limit (rqy_Filter query)))
             ((rs @ (if runMatches r query then [r] else [])) @ filter (\<lambda>r. runMatches r query) recs) h'" by blast
        then show ?thesis using r False by (intro exI [of _ "r # recs"]) (auto simp: e)
      qed
      then show "triple ?I (\<lambda>_. recordAt fs0 p r) (walkRuns query es (addMatch query h r)) (?Q rs (e # es)) (\<lambda>_ _. True)"
        by (intro triple_conseq [OF Cons.IH [OF historyOf_addMatch [OF Cons.prems]]]) auto
    qed
    have "triple ?I (\<lambda>_. True) (bindA (readRunRecord p) (\<lambda>r. walkRuns query es (addMatch query h r)))
        (?Q rs (e # es)) (\<lambda>_ _. True)"
      by (rule triple_bind [OF triple_readRunRecord [OF wf] next'])
    with False show ?thesis unfolding e walkRuns.simps by (intro triple_bind_ctxErr) auto
  qed
qed

lemma walkPaths_missing:
  assumes wf: "wfFs fs" and none: "map_of fs root = None"
  shows "walkPaths fs root = []"
proof -
  have "False" if q: "(q, n) \<in> set fs" "take (length root) q = root" for q n
  proof (cases "length root < length q")
    case True
    have "map_of fs q = Some n" using wf q(1) by (simp add: wfFs_def)
    from wfFs_ancestor [OF wf this True] q(2) none show False by simp
  next
    case False
    with q(2) have "q = root" by simp
    with q(1) none show False by (force simp: map_of_eq_None_iff)
  qed
  then have "filter (\<lambda>(q, _). take (length root) q = root) fs = []" by (auto simp: filter_empty_conv)
  then show ?thesis by (simp add: walkPaths_def)
qed

lemma historyOf_empty: "historyOf limit [] emptyHistory"
  by (simp add: historyOf_def emptyHistory_def)

lemma triple_QueryRuns:
  assumes wf: "wfFs fs0"
  shows "triple (\<lambda>fs. fs = fs0) (\<lambda>_. True) (QueryRuns s query)
     (\<lambda>h _. \<exists>q recs. normalizeRunQuery query = Inr q \<and>
        list_all2 (recordAt fs0) (runFiles (walkPaths fs0 (rootPath s @ [runsDir]))) recs \<and>
        historyOf (nat (rf_Limit (rqy_Filter q))) (filter (\<lambda>r. runMatches r q) recs) h) (\<lambda>_ _. True)"
  (is "triple ?I _ _ ?Q _")
  unfolding QueryRuns_def
proof (intro triple_bind_guardA triple_bind_ctxErr triple_bind_liftE)
  fix q assume q: "normalizeRunQuery query = Inr q"
  let ?root = "rootPath s @ [runsDir]"
  have start: "triple ?I (\<lambda>_. True) (walkStart ?root) (\<lambda>es _. es = walkPaths fs0 ?root)
      (\<lambda>e _. e = NotExist \<longrightarrow> map_of fs0 ?root = None)"
    unfolding walkStart_def by (rule triple_sysCall) (auto dest: statFs_NotExist split: sum.splits)
  have walk: "triple ?I (\<lambda>_. es = walkPaths fs0 ?root) (mapErr QueryFailed (walkRuns q es emptyHistory)) ?Q (\<lambda>_ _. True)" for es
  proof (rule triple_pre)
    fix fs assume es: "es = walkPaths fs0 ?root"
    show "triple ?I (\<lambda>_. es = walkPaths fs0 ?root) (mapErr QueryFailed (walkRuns q es emptyHistory)) ?Q (\<lambda>_ _. True)"
      by (rule triple_mapErr, rule triple_conseq [OF triple_walkRuns [OF wf historyOf_empty]]) (use q es in auto)
  qed
  have "triple ?I (\<lambda>_. e = NotExist \<longrightarrow> map_of fs0 ?root = None)
      (if isNotExist e then retA emptyHistory else failA (QueryFailed (IOFailed (lit ''walk'') e))) ?Q (\<lambda>_ _. True)" for e
    using q walkPaths_missing [OF wf, of ?root]
    by (auto simp: isNotExist_def historyOf_empty intro!: triple_retI)
  then show "triple ?I (\<lambda>_. True) (handleA (walkStart ?root) (\<lambda>es. mapErr QueryFailed (walkRuns q es emptyHistory))
      (\<lambda>e. if isNotExist e then retA emptyHistory else failA (QueryFailed (IOFailed (lit ''walk'') e)))) ?Q (\<lambda>_ _. True)"
    by (rule triple_handle [OF start walk])
qed

lemma normalizeRunQuery_Inr:
  assumes "normalizeRunQuery query = Inr q"
  shows "rqy_Owner q = normalizeOwner (rqy_Owner query)" "0 < rf_Limit (rqy_Filter q)"
    "rf_Limit (rqy_Filter q) \<le> maxRunQueryLimit"
  using assms unfolding normalizeRunQuery_def Let_def
  by (auto split: option.splits)

text \<open>
  A query that succeeds counts exactly the archived records that match the owner and the
  filter, in total and by status, and returns the newest of them first, at most the limit (and
  never more than 100); every record it returns belongs to the owner who asks.
\<close>

theorem QueryRuns_exact:
  assumes "wfFs (w_fs w)" "QueryRuns s query w = (Inr h, w')"
  shows "\<exists>q recs. normalizeRunQuery query = Inr q \<and>
     list_all2 (recordAt (w_fs w)) (runFiles (walkPaths (w_fs w) (rootPath s @ [runsDir]))) recs \<and>
     historyOf (nat (rf_Limit (rqy_Filter q))) (filter (\<lambda>r. runMatches r q) recs) h \<and>
     length (rh_Runs h) \<le> 100 \<and>
     list_all (\<lambda>r. sameOwner (rr_Owner r) (rqy_Owner query)) (rh_Runs h) \<and> w_fs w' = w_fs w"
proof -
  from tripleD [OF triple_QueryRuns [OF assms(1)] assms(2) safeSince_start]
  obtain q recs where q: "normalizeRunQuery query = Inr q"
    and recs: "list_all2 (recordAt (w_fs w)) (runFiles (walkPaths (w_fs w) (rootPath s @ [runsDir]))) recs"
    and h: "historyOf (nat (rf_Limit (rqy_Filter q))) (filter (\<lambda>r. runMatches r q) recs) h"
    and fs: "w_fs w' = w_fs w"
    by (auto simp: safeSince_def)
  from h obtain full where full: "mset full = mset (filter (\<lambda>r. runMatches r q) recs)"
    and runs: "rh_Runs h = take (nat (rf_Limit (rqy_Filter q))) full"
    unfolding historyOf_def by blast
  have "length (rh_Runs h) \<le> 100"
    using normalizeRunQuery_Inr(3) [OF q] unfolding runs by (simp add: maxRunQueryLimit_def)
  moreover have "set (rh_Runs h) \<subseteq> set (filter (\<lambda>r. runMatches r q) recs)"
    unfolding runs by (metis full mset_eq_setD set_take_subset)
  then have "list_all (\<lambda>r. sameOwner (rr_Owner r) (rqy_Owner query)) (rh_Runs h)"
    using normalizeRunQuery_Inr(1) [OF q]
    by (auto simp: list_all_iff runMatches_def Let_def sameOwner_def split: if_splits)
  ultimately show ?thesis using q recs h fs by blast
qed

section \<open>Crashes, immutability, round trip\<close>

text \<open>
  C38: storing a job is atomic at every moment.  In each state the file system goes through, and
  in the last one, whatever failed, the stored jobs are the old ones or the old ones with the new
  job in place, and no archived run has changed.
\<close>

theorem StoreJob_crash_safe:
  assumes "wfFs (w_fs w)" "StoreJob s job w = (r, w')"
  shows "\<exists>news. w_past w' = news @ w_past w \<and>
     list_all (\<lambda>fs. (jobAt s fs = jobAt s (w_fs w) \<or> jobAt s fs = (jobAt s (w_fs w))(jb_ID job \<mapsto> job)) \<and>
        archivedIn s fs = archivedIn s (w_fs w)) (w_fs w' # news)"
proof -
  have each: "(jobAt s fs = jobAt s (w_fs w) \<or> jobAt s fs = (jobAt s (w_fs w))(jb_ID job \<mapsto> job)) \<and>
        archivedIn s fs = archivedIn s (w_fs w)" if "storeStates s job (w_fs w) fs" for fs
    using storeStates_jobs [OF that] archivedIn_job [OF that] by blast
  from StoreJob_states(1) [OF assms] obtain news where n: "w_past w' = news @ w_past w"
    "list_all (storeStates s job (w_fs w)) (w_fs w' # news)" by (auto simp: safeSince_def)
  from n(2) each have "list_all (\<lambda>fs. (jobAt s fs = jobAt s (w_fs w) \<or>
      jobAt s fs = (jobAt s (w_fs w))(jb_ID job \<mapsto> job)) \<and> archivedIn s fs = archivedIn s (w_fs w)) (w_fs w' # news)"
    by (rule list.pred_mono_strong)
  with n(1) show ?thesis by blast
qed

text \<open>
  C39: appending a run never changes a file that exists, in any state the file system goes
  through and whatever fails; it succeeds only with the record archived, so that a record whose
  file holds something else is refused.
\<close>

theorem AppendRunRecord_never_overwrites:
  assumes "wfFs (w_fs w)" "AppendRunRecord s rec w = (r, w')"
  shows "(\<exists>news. w_past w' = news @ w_past w \<and>
     list_all (\<lambda>fs. \<forall>p d. map_of (w_fs w) p = Some (FileNode d) \<longrightarrow> map_of fs p = Some (FileNode d)) (w_fs w' # news)) \<and>
     (r = Inr () \<longrightarrow> rec \<in> archivedIn s (w_fs w'))"
proof -
  have each: "\<forall>p d. map_of (w_fs w) p = Some (FileNode d) \<longrightarrow> map_of fs p = Some (FileNode d)"
    if ev: "appendStates s rec (w_fs w) fs" for fs
  proof (intro allI impI)
    fix p d assume at: "map_of (w_fs w) p = Some (FileNode d)"
    show "map_of fs p = Some (FileNode d)"
    proof (cases "p = runPath s rec")
      case True
      then have "map_of fs p \<in> {map_of (w_fs w) p}" using ev at by (auto simp: evolves_def)
      with at show ?thesis by simp
    next
      case False
      with ev at show ?thesis unfolding evolves_def by (metis option.distinct(1))
    qed
  qed
  from AppendRunRecord_states(1) [OF assms] obtain news where n: "w_past w' = news @ w_past w"
    "list_all (appendStates s rec (w_fs w)) (w_fs w' # news)" by (auto simp: safeSince_def)
  have "r = Inr () \<longrightarrow> rec \<in> archivedIn s (w_fs w')"
    using AppendRunRecord_states(2) [OF assms] by (auto simp: archivedIn_def)
  moreover from n(2) each have
    "list_all (\<lambda>fs. \<forall>p d. map_of (w_fs w) p = Some (FileNode d) \<longrightarrow> map_of fs p = Some (FileNode d)) (w_fs w' # news)"
    by (rule list.pred_mono_strong)
  ultimately show ?thesis using n(1) by blast
qed

text \<open>
  C40: what was stored is what is loaded: after a store that succeeded, a load that succeeds
  returns the stored job under its id, once, and every other job that was there before.
\<close>

theorem store_load_roundtrip:
  assumes "wfFs (w_fs w)" "StoreJob s job w = (Inr (), w1)" "LoadJobs s w1 = (Inr js, w2)"
  shows "distinct (map jb_ID js) \<and> set js = insert job {j. jb_ID j \<noteq> jb_ID job \<and> jobAt s (w_fs w) (jb_ID j) = Some j}"
proof -
  have wf1: "wfFs (w_fs w1)" by (rule file_store.store_sound [OF assms(1,2)])
  have js: "distinct (map jb_ID js)" "map_of (map (\<lambda>j. (jb_ID j, j)) js) = (jobAt s (w_fs w))(jb_ID job \<mapsto> job)"
    using file_store.load_ok [OF wf1 assms(3)] file_store.store_ok [OF assms(1,2)] by auto
  have "distinct (map fst (map (\<lambda>j. (jb_ID j, j)) js))" using js(1) by (simp add: comp_def)
  then have "map_of (map (\<lambda>j. (jb_ID j, j)) js) (jb_ID j) = Some j \<longleftrightarrow> j \<in> set js" for j
    by (subst map_of_eq_Some_iff) auto
  then have mem: "j \<in> set js \<longleftrightarrow> ((jobAt s (w_fs w))(jb_ID job \<mapsto> job)) (jb_ID j) = Some j" for j
    unfolding js(2) by blast
  have "set js = insert job {j. jb_ID j \<noteq> jb_ID job \<and> jobAt s (w_fs w) (jb_ID j) = Some j}"
    by (rule set_eqI, unfold mem) auto
  with js(1) show ?thesis by blast
qed

section \<open>Concrete runs\<close>

definition sampleJob :: Job where
  "sampleJob =
     (jobOfRun \<lparr>rr_SchemaVersion = 1, rr_ID = lit ''a'', rr_JobID = lit ''a'', rr_JobName = lit ''n'',
        rr_Owner = \<lparr>ow_Channel = lit ''c'', ow_ChatID = lit ''d'', ow_UserID = lit ''u''\<rparr>,
        rr_Status = StatusSucceeded, rr_Model = \<lparr>mt_Provider = lit ''p'', mt_Ref = lit ''m''\<rparr>,
        rr_AllowedTools = Some [], rr_ScheduledFor = 5, rr_StartedAt = 5, rr_FinishedAt = 6,
        rr_Output = [], rr_Error = [], rr_NotifyError = []\<rparr>)
       \<lparr>jb_Name := lit ''n'', jb_Prompt := lit ''p'', jb_ContextProfile := ContextProfileMinimal,
        jb_Kind := KindOneShot, jb_RunAt := 7, jb_NextFire := 7, jb_MaxTurns := 1,
        jb_LastStatus := StatusPending\<rparr>"

definition sampleRun :: RunRecord where
  "sampleRun =
     \<lparr>rr_SchemaVersion = 1, rr_ID = lit ''r'', rr_JobID = lit ''a'', rr_JobName = lit ''n'',
      rr_Owner = jb_Owner sampleJob, rr_Status = StatusSucceeded, rr_Model = jb_Model sampleJob,
      rr_AllowedTools = Some [], rr_ScheduledFor = 5, rr_StartedAt = 5, rr_FinishedAt = 6,
      rr_Output = [], rr_Error = [], rr_NotifyError = []\<rparr>"

definition sampleStore :: Store where
  "sampleStore = NewStore (lit ''/s/'')"

definition emptyDisk :: "gostr option list \<Rightarrow> store_world" where
  "emptyDisk answers = \<lparr>w_fs = [([], DirNode)], w_past = [], w_answers = answers\<rparr>"

definition sampleQuery :: RunQuery where
  "sampleQuery =
     \<lparr>rqy_Owner = jb_Owner sampleJob,
      rqy_Filter = \<lparr>rf_JobID = [], rf_JobName = [], rf_Statuses = [], rf_Since = 0, rf_Before = 0, rf_Limit = 5\<rparr>\<rparr>"

lemma emptyDisk_wf: "wfFs (w_fs (emptyDisk answers))"
  by (simp add: emptyDisk_def wfFs_def)

lemma after_append: "wfFs (w_fs (snd (AppendRunRecord sampleStore sampleRun (emptyDisk []))))"
  using file_store.append_sound [OF emptyDisk_wf [of "[]"]] by (metis prod.collapse)

theorem QueryRuns_exact_witness:
  "let w = snd (AppendRunRecord sampleStore sampleRun (emptyDisk [])) in
   \<exists>q recs h. fst (QueryRuns sampleStore sampleQuery w) = Inr h \<and> normalizeRunQuery sampleQuery = Inr q \<and>
     list_all2 (recordAt (w_fs w)) (runFiles (walkPaths (w_fs w) (rootPath sampleStore @ [runsDir]))) recs \<and>
     historyOf (nat (rf_Limit (rqy_Filter q))) (filter (\<lambda>r. runMatches r q) recs) h \<and> rh_Runs h = [sampleRun]"
proof -
  let ?w = "snd (AppendRunRecord sampleStore sampleRun (emptyDisk []))"
  let ?h = "\<lparr>rh_Matched = 1, rh_StatusCounts = [(StatusSucceeded, 1)], rh_Runs = [sampleRun]\<rparr>"
  have r: "fst (QueryRuns sampleStore sampleQuery ?w) = Inr ?h" by code_simp
  then have "QueryRuns sampleStore sampleQuery ?w = (Inr ?h, snd (QueryRuns sampleStore sampleQuery ?w))"
    by (metis prod.collapse)
  from QueryRuns_exact [OF after_append this] r show ?thesis unfolding Let_def by fastforce
qed

text \<open>The rename succeeds, the sync of the directory after it fails and the restore fails too: the
  operation reports an error and the new job is on disk.\<close>

definition faultyDisk :: store_world where
  "faultyDisk = emptyDisk (replicate 17 None @ [Some [], None, Some []])"

theorem StoreJob_crash_safe_witness:
  "let w' = snd (StoreJob sampleStore sampleJob faultyDisk) in
   isl (fst (StoreJob sampleStore sampleJob faultyDisk)) \<and>
   jobAt sampleStore (w_fs w') (jb_ID sampleJob) = Some sampleJob \<and>
   (\<exists>news. w_past w' = news @ w_past faultyDisk \<and>
     list_all (\<lambda>fs. (jobAt sampleStore fs = jobAt sampleStore (w_fs faultyDisk) \<or>
        jobAt sampleStore fs = (jobAt sampleStore (w_fs faultyDisk))(jb_ID sampleJob \<mapsto> sampleJob)) \<and>
        archivedIn sampleStore fs = archivedIn sampleStore (w_fs faultyDisk)) (w_fs w' # news))"
  unfolding Let_def
proof (intro conjI)
  show "isl (fst (StoreJob sampleStore sampleJob faultyDisk))" by code_simp
  show "jobAt sampleStore (w_fs (snd (StoreJob sampleStore sampleJob faultyDisk))) (jb_ID sampleJob) = Some sampleJob"
    by code_simp
  have "wfFs (w_fs faultyDisk)" unfolding faultyDisk_def by (rule emptyDisk_wf)
  from StoreJob_crash_safe [OF this prod.collapse [symmetric], of sampleStore sampleJob]
  show "\<exists>news. w_past (snd (StoreJob sampleStore sampleJob faultyDisk)) = news @ w_past faultyDisk \<and>
     list_all (\<lambda>fs. (jobAt sampleStore fs = jobAt sampleStore (w_fs faultyDisk) \<or>
        jobAt sampleStore fs = (jobAt sampleStore (w_fs faultyDisk))(jb_ID sampleJob \<mapsto> sampleJob)) \<and>
        archivedIn sampleStore fs = archivedIn sampleStore (w_fs faultyDisk))
       (w_fs (snd (StoreJob sampleStore sampleJob faultyDisk)) # news)" .
qed

theorem AppendRunRecord_never_overwrites_witness:
  "sampleRun \<in> archivedIn sampleStore (w_fs (snd (AppendRunRecord sampleStore sampleRun (emptyDisk []))))"
proof -
  have "fst (AppendRunRecord sampleStore sampleRun (emptyDisk [])) = Inr ()" by code_simp
  then show ?thesis using AppendRunRecord_never_overwrites [OF emptyDisk_wf prod.collapse [symmetric]] by blast
qed

theorem store_load_roundtrip_witness:
  "\<exists>js. fst (LoadJobs sampleStore (snd (StoreJob sampleStore sampleJob (emptyDisk [])))) = Inr js \<and>
     distinct (map jb_ID js) \<and> set js = {sampleJob}"
proof -
  let ?w = "snd (StoreJob sampleStore sampleJob (emptyDisk []))"
  have "fst (StoreJob sampleStore sampleJob (emptyDisk [])) = Inr ()" by code_simp
  then have s: "StoreJob sampleStore sampleJob (emptyDisk []) = (Inr (), ?w)" by (metis prod.collapse)
  have l: "fst (LoadJobs sampleStore ?w) = Inr [sampleJob]" by code_simp
  then have "LoadJobs sampleStore ?w = (Inr [sampleJob], snd (LoadJobs sampleStore ?w))" by (metis prod.collapse)
  from store_load_roundtrip [OF emptyDisk_wf s this] l
  have "distinct (map jb_ID [sampleJob]) \<and> set [sampleJob] = {sampleJob}" by simp
  with l show ?thesis by blast
qed

section \<open>Paths\<close>

text \<open>
  An accepted job id names one file directly in the jobs directory of the store's root: the
  joined path, cleaned, is the root followed by exactly two components, so that no id reaches
  another directory; ids that are empty, padded, dots or contain a separator are refused.
\<close>

theorem jobPath_confined:
  assumes "validateStore s = None" "jobPath s i = Inr p"
  shows "cleanComponents (st_root s @ lit ''/'' @ jobsDir @ lit ''/'' @ i @ jsonExt) = p \<and>
     p = cleanComponents (st_root s) @ [jobsDir, i @ jsonExt] \<and>
     47 \<notin> set i \<and> 92 \<notin> set i \<and> i \<noteq> [] \<and> trimSpace i = i"
proof -
  have p: "p = cleanComponents (st_root s) @ [jobsDir, i @ jsonExt]" and i: "validateJobID i = None"
    using assms(2) unfolding jobPath_def by (cases "validateJobID i"; simp add: jobFile_def rootPath_def)+
  have ok: "47 \<notin> set i" "92 \<notin> set i" "i \<noteq> []" "trimSpace i = i"
    using i by (auto simp: validateJobID_def badID_def)
  have abs: "isAbs (st_root s)" using assms(1) by (simp add: validateStore_def)
  then obtain t where t: "st_root s = lit ''/'' @ t" unfolding isAbs_def by (rule hasPrefixE)
  have abs': "isAbs (st_root s @ x)" for x by (simp add: t isAbs_def hasPrefix_def lit_def)
  have parts: "splitRune 47 (st_root s @ lit ''/'' @ jobsDir @ lit ''/'' @ i @ jsonExt)
      = splitRune 47 (st_root s) @ [jobsDir, i @ jsonExt]"
    using ok(1) by (simp add: lit_def splitRune_append splitRune_none jobsDir_def jsonExt_def)
  have step: "cleanStep True out c = out @ [c]" if "c = jobsDir \<or> c = i @ jsonExt" for out c
    using that by (auto simp: cleanStep_def jobsDir_def jsonExt_def lit_def append_eq_Cons_conv Cons_eq_append_conv)
  show ?thesis
    unfolding p using ok by (simp add: cleanComponents_def abs abs' parts step)
qed

theorem jobPath_confined_witness:
  "cleanComponents (lit ''/s/jobs/a.json'') = [lit ''s'', lit ''jobs'', lit ''a.json'']"
proof -
  have "validateStore sampleStore = None" "jobPath sampleStore (lit ''a'') = Inr (jobFile sampleStore (lit ''a''))"
    by code_simp+
  from jobPath_confined [OF this]
  have "cleanComponents (st_root sampleStore @ lit ''/'' @ jobsDir @ lit ''/'' @ lit ''a'' @ jsonExt)
      = cleanComponents (st_root sampleStore) @ [jobsDir, lit ''a'' @ jsonExt]" by simp
  moreover have "st_root sampleStore = lit ''/s''" by code_simp
  moreover have "cleanComponents (lit ''/s'') = [lit ''s'']" by code_simp
  ultimately show ?thesis by (simp add: jobsDir_def jsonExt_def lit_def)
qed

end
