(* ===== verification/Schedule_Manager.thy ===== *)
theory Schedule_Manager
  imports Schedule_Store
begin

text \<open>
  The scheduler, \<open>systems/agent/internal/schedule/manager.go\<close>: creating, listing, updating and
  deleting jobs, claiming the next due job, completing a run, delivering its notification,
  archiving it, and the recovery of a manager from its store.  The store is any implementation of
  its five operations, given as a record; what the clock, the id generator, the executor, the
  publisher, the delivery recorder and the contexts answer are arguments of the operations.  The
  manager's maps are an association list of jobs and a list of running ids; the calls made to the
  publisher and to the recorder are logged, each with its answer.  Every request is one step, taken under the manager's
  lock; so are a claim, a delivery, and all that follows the executor's answer.  Requests may run
  while the executor works.  A process may stop between any two calls of the store: that is a call
  of the store that fails and leaves the files as they were, followed by a crash.
  Go's \<open>defer\<close>d unlocks and the log lines have no counterpart.
\<close>

section \<open>Interfaces and state\<close>

record 'w StoreOps =
  so_LoadJobs :: "'w \<Rightarrow> (store_error + Job list) \<times> 'w"
  so_StoreJob :: "Job \<Rightarrow> 'w \<Rightarrow> (store_error + unit) \<times> 'w"
  so_DeleteJob :: "gostr \<Rightarrow> 'w \<Rightarrow> (store_error + unit) \<times> 'w"
  so_AppendRunRecord :: "RunRecord \<Rightarrow> 'w \<Rightarrow> (store_error + unit) \<times> 'w"
  so_QueryRuns :: "RunQuery \<Rightarrow> 'w \<Rightarrow> (store_error + RunHistory) \<times> 'w"

definition fileStoreOps :: "Store \<Rightarrow> store_world StoreOps" where
  "fileStoreOps s =
     \<lparr>so_LoadJobs = LoadJobs s, so_StoreJob = StoreJob s, so_DeleteJob = DeleteJob s,
      so_AppendRunRecord = AppendRunRecord s, so_QueryRuns = QueryRuns s\<rparr>"

record Config =
  cf_HasStore :: bool
  cf_HasExecutor :: bool
  cf_HasPublisher :: bool
  cf_HasDeliveryRecorder :: bool
  cf_MaxJobs :: int
  cf_MaxTurns :: int
  cf_RunTimeout :: duration
  cf_UnavailableRetryDelay :: duration
  cf_AuthorizeOwner :: "(Owner \<Rightarrow> gostr option) option"
  cf_DefaultModel :: "ModelTarget option"
  cf_ModelExists :: "(ModelTarget \<Rightarrow> bool) option"
  cf_ToolExists :: "(gostr \<Rightarrow> bool) option"

text \<open>The manager's settings, the functions of the cron and UUID packages it calls, and the quoting
  of a string in an error text.\<close>

record Settings =
  sg_maxJobs :: int
  sg_maxTurns :: int
  sg_runTimeout :: duration
  sg_unavailableRetryDelay :: duration
  sg_authorizeOwner :: "(Owner \<Rightarrow> gostr option) option"
  sg_defaultModel :: ModelTarget
  sg_modelExists :: "ModelTarget \<Rightarrow> bool"
  sg_toolExists :: "gostr \<Rightarrow> bool"
  sg_cron :: cron_parser
  sg_uuid :: "gostr \<Rightarrow> time \<Rightarrow> gostr"
  sg_quote :: "gostr \<Rightarrow> gostr"

record OutboundMessage =
  ob_Channel :: gostr
  ob_ChatID :: gostr
  ob_Text :: gostr

record 'w Manager =
  sm_jobs :: "Job gomap"
  sm_running :: "gostr list"
  sm_wake :: bool
  sm_store :: 'w
  sm_published :: "(OutboundMessage \<times> gostr option) list"
  sm_recorded :: "(DeliveredNotification \<times> gostr option) list"

datatype config_error = NoStore | NoExecutor | NoPublisher | NoRecorder | BadRetryDelay | NoToolCatalog

definition defaultMaxJobs :: int where "defaultMaxJobs = 64"
definition defaultMaxTurns :: int where "defaultMaxTurns = 16"
definition defaultRunTimeout :: duration where "defaultRunTimeout = 5 * 60 * 1000000000"
definition defaultUnavailableRetryDelay :: duration where
  "defaultUnavailableRetryDelay = 5 * 60 * 1000000000"
definition minUnavailableRetryDelay :: duration where "minUnavailableRetryDelay = 30 * 1000000000"
definition maxUnavailableRetryDelay :: duration where "maxUnavailableRetryDelay = 3600 * 1000000000"
definition defaultRunHistoryLimit :: int where "defaultRunHistoryLimit = 20"
definition maxRunHistoryLimit :: int where "maxRunHistoryLimit = 100"

definition configure ::
  "cron_parser \<Rightarrow> (gostr \<Rightarrow> time \<Rightarrow> gostr) \<Rightarrow> (gostr \<Rightarrow> gostr) \<Rightarrow> Config \<Rightarrow> config_error + Settings"
where
  "configure cron uuid quote cfg =
     (let maxJobs = (if cf_MaxJobs cfg \<le> 0 then defaultMaxJobs else cf_MaxJobs cfg);
          maxTurns = (if cf_MaxTurns cfg \<le> 0 then defaultMaxTurns else cf_MaxTurns cfg);
          timeout = (if cf_RunTimeout cfg \<le> 0 then defaultRunTimeout else cf_RunTimeout cfg);
          delay = (if cf_UnavailableRetryDelay cfg = 0 then defaultUnavailableRetryDelay
                   else cf_UnavailableRetryDelay cfg)
      in case firstError
           [errIf (\<not> cf_HasStore cfg) NoStore, errIf (\<not> cf_HasExecutor cfg) NoExecutor,
            errIf (\<not> cf_HasPublisher cfg) NoPublisher, errIf (\<not> cf_HasDeliveryRecorder cfg) NoRecorder,
            errIf (delay < minUnavailableRetryDelay \<or> maxUnavailableRetryDelay < delay) BadRetryDelay,
            errIf (cf_ToolExists cfg = None) NoToolCatalog]
         of Some e \<Rightarrow> Inl e
          | None \<Rightarrow> Inr
              \<lparr>sg_maxJobs = maxJobs, sg_maxTurns = maxTurns, sg_runTimeout = timeout,
               sg_unavailableRetryDelay = delay, sg_authorizeOwner = cf_AuthorizeOwner cfg,
               sg_defaultModel = (case cf_DefaultModel cfg of None \<Rightarrow> emptyModel | Some t \<Rightarrow> t),
               sg_modelExists = (case cf_ModelExists cfg of None \<Rightarrow> (\<lambda>_. True) | Some f \<Rightarrow> f),
               sg_toolExists = (case cf_ToolExists cfg of None \<Rightarrow> (\<lambda>_. False) | Some f \<Rightarrow> f),
               sg_cron = cron, sg_uuid = uuid, sg_quote = quote\<rparr>)"

definition storeError :: "gostr \<Rightarrow> store_error \<Rightarrow> sched_error" where
  "storeError what e = StoreFailed what"

definition notifyWake :: "'w Manager \<Rightarrow> 'w Manager" where
  "notifyWake m = m\<lparr>sm_wake := True\<rparr>"

definition authorize :: "Settings \<Rightarrow> Owner \<Rightarrow> sched_error option" where
  "authorize cfg owner =
     (let owner = normalizeOwner owner in
      case validateOwner owner of
        Some e \<Rightarrow> Some e
      | None \<Rightarrow>
          (case sg_authorizeOwner cfg of
             None \<Rightarrow> None
           | Some f \<Rightarrow> map_option Unauthorized (f owner)))"

text \<open>Clones: the copies have the contents of the originals, and values have no identity here.\<close>

definition cloneToolNames :: "gostr list option \<Rightarrow> gostr list option" where
  "cloneToolNames names = (case names of None \<Rightarrow> None | Some ns \<Rightarrow> Some ([] @ ns))"

definition cloneRunRecord :: "RunRecord \<Rightarrow> RunRecord" where
  "cloneRunRecord r = r\<lparr>rr_AllowedTools := cloneToolNames (rr_AllowedTools r)\<rparr>"

definition cloneJob :: "Job \<Rightarrow> Job" where
  "cloneJob job =
     job\<lparr>jb_AllowedTools := cloneToolNames (jb_AllowedTools job),
         jb_PendingRun := map_option cloneRunRecord (jb_PendingRun job)\<rparr>"

definition cloneRunHistory :: "RunHistory \<Rightarrow> RunHistory" where
  "cloneRunHistory h = h\<lparr>rh_Runs := map cloneRunRecord (rh_Runs h)\<rparr>"

section \<open>Creating, listing, updating, deleting\<close>

definition newJob :: "Settings \<Rightarrow> Owner \<Rightarrow> CreateRequest \<Rightarrow> time \<Rightarrow> Job" where
  "newJob cfg owner req now =
     (let profile = normalizeContextProfile (cq_ContextProfile req);
          model = normalizeModelTarget (cq_Model req)
      in \<lparr>jb_SchemaVersion = JobSchemaVersion, jb_ID = [], jb_Name = trimSpace (cq_Name req),
          jb_Prompt = trimSpace (cq_Prompt req),
          jb_ContextProfile = (if profile = [] then ContextProfileMinimal else profile),
          jb_Kind = cq_Kind req, jb_RunAt = cq_RunAt req, jb_Cron = trimSpace (cq_Cron req),
          jb_Notify = cq_Notify req,
          jb_Model = (if model = emptyModel then normalizeModelTarget (sg_defaultModel cfg) else model),
          jb_MaxTurns = (if cq_MaxTurns req = 0 then sg_maxTurns cfg else cq_MaxTurns req),
          jb_AllowedTools = Some (normalizeToolNames (cq_AllowedTools req)),
          jb_Owner = normalizeOwner owner, jb_CreatedAt = now, jb_UpdatedAt = now, jb_LastRunAt = 0,
          jb_LastSuccessAt = 0, jb_LastFailureAt = 0, jb_LastScheduledFor = 0, jb_NextFire = 0,
          jb_ConsecutiveFailures = 0, jb_LastStatus = StatusPending, jb_LastError = [],
          jb_Done = False, jb_ModelUnavailableNotified = False, jb_PendingRun = None,
          jb_PendingNotification = None\<rparr>)"

text \<open>The job \<open>Create\<close> builds before it takes the lock.\<close>

definition buildJob ::
  "Settings \<Rightarrow> time \<Rightarrow> gostr + gostr \<Rightarrow> Owner \<Rightarrow> CreateRequest \<Rightarrow> sched_error + Job"
where
  "buildJob cfg now newID owner req =
     (case prepareSchedule (sg_cron cfg) (newJob cfg owner req now) now True of
        Inl e \<Rightarrow> Inl e
      | Inr job \<Rightarrow>
          (case firstError
             [validateMutableJob (sg_maxTurns cfg) job, validateAvailableModel (sg_modelExists cfg) (jb_Model job),
              validateAvailableTools (sg_toolExists cfg) (toolList (jb_AllowedTools job))]
           of Some e \<Rightarrow> Inl e
            | None \<Rightarrow>
                (case newID of
                   Inl msg \<Rightarrow> Inl (NewIDFailed msg)
                 | Inr i \<Rightarrow>
                     (if trimSpace i = [] then Inl NewIDEmpty else Inr (job\<lparr>jb_ID := trimSpace i\<rparr>)))))"

definition Create ::
  "Settings \<Rightarrow> 'w StoreOps \<Rightarrow> time \<Rightarrow> gostr + gostr \<Rightarrow> Owner \<Rightarrow> CreateRequest \<Rightarrow> 'w Manager \<Rightarrow>
   (sched_error + Job) \<times> 'w Manager"
where
  "Create cfg S now newID owner req m =
     (case authorize cfg owner of
        Some e \<Rightarrow> (Inl e, m)
      | None \<Rightarrow>
          (case buildJob cfg now newID owner req of
             Inl e \<Rightarrow> (Inl e, m)
           | Inr job \<Rightarrow>
               (if sg_maxJobs cfg \<le> int (length (sm_jobs m)) then (Inl MaxJobsReached, m)
                else if map_of (sm_jobs m) (jb_ID job) \<noteq> None then (Inl (DuplicateID (jb_ID job)), m)
                else case so_StoreJob S job (sm_store m) of
                    (Inl e, w) \<Rightarrow> (Inl (storeError (lit ''store'') e), m\<lparr>sm_store := w\<rparr>)
                  | (Inr _, w) \<Rightarrow>
                      (Inr (cloneJob job),
                       notifyWake (m\<lparr>sm_jobs := AList.update (jb_ID job) job (sm_jobs m), sm_store := w\<rparr>)))))"

definition jobLess :: "Job \<Rightarrow> Job \<Rightarrow> bool" where
  "jobLess a b =
     (if jb_NextFire a = jb_NextFire b then jb_ID a < jb_ID b
      else if jb_NextFire a = 0 then False
      else if jb_NextFire b = 0 then True
      else jb_NextFire a < jb_NextFire b)"

fun insertBy :: "('a \<Rightarrow> 'a \<Rightarrow> bool) \<Rightarrow> 'a \<Rightarrow> 'a list \<Rightarrow> 'a list" where
  "insertBy lt x [] = [x]"
| "insertBy lt x (y # ys) = (if lt y x then y # insertBy lt x ys else x # y # ys)"

definition sortSlice :: "('a \<Rightarrow> 'a \<Rightarrow> bool) \<Rightarrow> 'a list \<Rightarrow> 'a list" where
  "sortSlice lt xs = foldr (insertBy lt) xs []"

definition ListJobs :: "Settings \<Rightarrow> Owner \<Rightarrow> 'w Manager \<Rightarrow> sched_error + Job list" where
  "ListJobs cfg owner m =
     (case authorize cfg owner of
        Some e \<Rightarrow> Inl e
      | None \<Rightarrow>
          (let owner = normalizeOwner owner;
               out = map cloneJob (filter (\<lambda>job. sameOwner (jb_Owner job) owner) (map snd (sm_jobs m)))
           in Inr (sortSlice jobLess out)))"

fun uniqueStatuses :: "Status list \<Rightarrow> Status list \<Rightarrow> sched_error + Status list" where
  "uniqueStatuses [] out = Inr out"
| "uniqueStatuses (st # sts) out =
     (let st = trimSpace st in
      if \<not> isArchivedRunStatus st then Inl (BadRunStatus st)
      else if st \<in> set out then uniqueStatuses sts out
      else uniqueStatuses sts (out @ [st]))"

definition normalizeFilter :: "RunFilter \<Rightarrow> sched_error + RunFilter" where
  "normalizeFilter f =
     (let f = trimFilter f; f = (if rf_Limit f = 0 then f\<lparr>rf_Limit := defaultRunHistoryLimit\<rparr> else f) in
      case firstError
        [errIf (rf_Limit f < 1 \<or> maxRunHistoryLimit < rf_Limit f) BadHistoryLimit,
         errIf (rf_Since f \<noteq> 0 \<and> rf_Before f \<noteq> 0 \<and> \<not> rf_Since f < rf_Before f) SinceNotBefore]
      of Some e \<Rightarrow> Inl e
       | None \<Rightarrow>
           (case uniqueStatuses (rf_Statuses f) [] of
              Inl e \<Rightarrow> Inl e
            | Inr sts \<Rightarrow> Inr (f\<lparr>rf_Statuses := sts\<rparr>)))"

definition RunHistoryOf ::
  "Settings \<Rightarrow> 'w StoreOps \<Rightarrow> Owner \<Rightarrow> RunFilter \<Rightarrow> 'w Manager \<Rightarrow> (sched_error + RunHistory) \<times> 'w Manager"
where
  "RunHistoryOf cfg S owner f m =
     (case authorize cfg owner of
        Some e \<Rightarrow> (Inl e, m)
      | None \<Rightarrow>
          (case normalizeFilter f of
             Inl e \<Rightarrow> (Inl e, m)
           | Inr f \<Rightarrow>
               (case so_QueryRuns S \<lparr>rqy_Owner = normalizeOwner owner, rqy_Filter = f\<rparr> (sm_store m) of
                  (Inl e, w) \<Rightarrow> (Inl (storeError (lit ''query'') e), m\<lparr>sm_store := w\<rparr>)
                | (Inr h, w) \<Rightarrow> (Inr (cloneRunHistory h), m\<lparr>sm_store := w\<rparr>))))"

text \<open>A field of an update request, if it is not nil, and the fields applied to a job before its
  checks.\<close>

definition setOpt :: "'a option \<Rightarrow> ('a \<Rightarrow> Job \<Rightarrow> Job) \<Rightarrow> Job \<Rightarrow> Job" where
  "setOpt field put job = (case field of None \<Rightarrow> job | Some x \<Rightarrow> put x job)"

definition patchModel :: "Settings \<Rightarrow> ModelTarget \<Rightarrow> Job \<Rightarrow> Job" where
  "patchModel cfg t job =
     (let t = normalizeModelTarget t;
          t = (if t = emptyModel then normalizeModelTarget (sg_defaultModel cfg) else t)
      in job\<lparr>jb_Model := t, jb_ModelUnavailableNotified := False\<rparr>)"

definition patchJob :: "Settings \<Rightarrow> UpdateRequest \<Rightarrow> Job \<Rightarrow> Job" where
  "patchJob cfg req job =
     (let job = setOpt (uq_Name req) (\<lambda>s job. job\<lparr>jb_Name := trimSpace s\<rparr>) job;
          job = setOpt (uq_Prompt req) (\<lambda>s job. job\<lparr>jb_Prompt := trimSpace s\<rparr>) job;
          job = setOpt (uq_ContextProfile req)
                  (\<lambda>p job. job\<lparr>jb_ContextProfile := normalizeContextProfile p\<rparr>) job;
          job = setOpt (uq_Kind req) (\<lambda>k job. job\<lparr>jb_Kind := k\<rparr>) job;
          job = setOpt (uq_RunAt req) (\<lambda>t job. job\<lparr>jb_RunAt := t\<rparr>) job;
          job = setOpt (uq_Cron req) (\<lambda>s job. job\<lparr>jb_Cron := trimSpace s\<rparr>) job;
          job = setOpt (uq_Notify req) (\<lambda>b job. job\<lparr>jb_Notify := b\<rparr>) job;
          job = setOpt (uq_Model req) (patchModel cfg) job;
          job = setOpt (uq_MaxTurns req) (\<lambda>n job. job\<lparr>jb_MaxTurns := n\<rparr>) job
      in setOpt (uq_AllowedTools req) (\<lambda>ns job. job\<lparr>jb_AllowedTools := Some (normalizeToolNames ns)\<rparr>) job)"

definition scheduleChanged :: "UpdateRequest \<Rightarrow> bool" where
  "scheduleChanged req \<longleftrightarrow> uq_Kind req \<noteq> None \<or> uq_RunAt req \<noteq> None \<or> uq_Cron req \<noteq> None"

definition reschedule :: "Settings \<Rightarrow> time \<Rightarrow> Job \<Rightarrow> sched_error + Job" where
  "reschedule cfg now job =
     (let job = (if jb_Kind job = KindOneShot then job\<lparr>jb_Cron := []\<rparr>
                 else if jb_Kind job = KindRecurring then job\<lparr>jb_RunAt := 0\<rparr> else job)
      in case prepareSchedule (sg_cron cfg) job now True of
           Inl e \<Rightarrow> Inl e
         | Inr job \<Rightarrow> Inr (job\<lparr>jb_Done := False, jb_LastStatus := StatusPending, jb_LastError := []\<rparr>))"

definition updatedJob :: "Settings \<Rightarrow> time \<Rightarrow> UpdateRequest \<Rightarrow> Job \<Rightarrow> sched_error + Job" where
  "updatedJob cfg now req job =
     (let job = patchJob cfg req (cloneJob job) in
      if uq_RunAt req \<noteq> None \<and> jb_Kind job \<noteq> KindOneShot then Inl RunAtOnlyOneShot
      else if uq_Cron req \<noteq> None \<and> jb_Kind job \<noteq> KindRecurring then Inl CronOnlyRecurring
      else case (if scheduleChanged req then reschedule cfg now job else Inr job) of
          Inl e \<Rightarrow> Inl e
        | Inr job \<Rightarrow>
            (case firstError
               [validateMutableJob (sg_maxTurns cfg) job,
                (if uq_Model req \<noteq> None then validateAvailableModel (sg_modelExists cfg) (jb_Model job) else None),
                (if uq_AllowedTools req \<noteq> None
                 then validateAvailableTools (sg_toolExists cfg) (toolList (jb_AllowedTools job)) else None)]
             of Some e \<Rightarrow> Inl e
              | None \<Rightarrow> Inr (job\<lparr>jb_UpdatedAt := now\<rparr>)))"

definition Update ::
  "Settings \<Rightarrow> 'w StoreOps \<Rightarrow> time \<Rightarrow> Owner \<Rightarrow> gostr \<Rightarrow> UpdateRequest \<Rightarrow> 'w Manager \<Rightarrow>
   (sched_error + Job) \<times> 'w Manager"
where
  "Update cfg S now owner i req m =
     (case authorize cfg owner of
        Some e \<Rightarrow> (Inl e, m)
      | None \<Rightarrow>
          (let i = trimSpace i; owner = normalizeOwner owner in
           case map_of (sm_jobs m) i of
             None \<Rightarrow> (Inl NotFoundErr, m)
           | Some job \<Rightarrow>
               (if \<not> sameOwner (jb_Owner job) owner then (Inl NotFoundErr, m)
                else if i \<in> set (sm_running m) then (Inl (JobRunning i), m)
                else case updatedJob cfg now req job of
                    Inl e \<Rightarrow> (Inl e, m)
                  | Inr updated \<Rightarrow>
                      (case so_StoreJob S updated (sm_store m) of
                         (Inl e, w) \<Rightarrow> (Inl (storeError (lit ''store'') e), m\<lparr>sm_store := w\<rparr>)
                       | (Inr _, w) \<Rightarrow>
                           (Inr (cloneJob updated),
                            notifyWake (m\<lparr>sm_jobs := AList.update i updated (sm_jobs m), sm_store := w\<rparr>))))))"

definition Delete ::
  "Settings \<Rightarrow> 'w StoreOps \<Rightarrow> Owner \<Rightarrow> gostr \<Rightarrow> 'w Manager \<Rightarrow> sched_error option \<times> 'w Manager"
where
  "Delete cfg S owner i m =
     (case authorize cfg owner of
        Some e \<Rightarrow> (Some e, m)
      | None \<Rightarrow>
          (let i = trimSpace i; owner = normalizeOwner owner in
           case map_of (sm_jobs m) i of
             None \<Rightarrow> (None, m)
           | Some job \<Rightarrow>
               (if \<not> sameOwner (jb_Owner job) owner then (Some NotFoundErr, m)
                else if i \<in> set (sm_running m) then (Some (JobRunning i), m)
                else case so_DeleteJob S i (sm_store m) of
                    (Inl e, w) \<Rightarrow> (Some (storeError (lit ''delete'') e), m\<lparr>sm_store := w\<rparr>)
                  | (Inr _, w) \<Rightarrow>
                      (None, notifyWake (m\<lparr>sm_jobs := AList.delete i (sm_jobs m), sm_store := w\<rparr>)))))"

section \<open>Claiming the next due job\<close>

definition due :: "time \<Rightarrow> gostr list \<Rightarrow> Job \<Rightarrow> bool" where
  "due now running job \<longleftrightarrow>
     \<not> (jb_Done job \<or> jb_NextFire job = 0 \<or> now < jb_NextFire job) \<and> jb_ID job \<notin> set running"

text \<open>One iteration of the selection; \<open>None\<close> is the zero job, whose id is empty.\<close>

definition pickDue :: "time \<Rightarrow> gostr list \<Rightarrow> Job option \<Rightarrow> Job \<Rightarrow> Job option" where
  "pickDue now running selected job =
     (if \<not> due now running job then selected
      else case selected of
          None \<Rightarrow> Some job
        | Some s \<Rightarrow>
            (if jb_ID s = [] \<or> jb_NextFire job < jb_NextFire s \<or>
                jb_NextFire job = jb_NextFire s \<and> jb_ID job < jb_ID s
             then Some job else Some s))"

definition selectDue :: "time \<Rightarrow> 'w Manager \<Rightarrow> Job option" where
  "selectDue now m =
     (case foldl (pickDue now (sm_running m)) None (map snd (sm_jobs m)) of
        None \<Rightarrow> None
      | Some job \<Rightarrow> (if jb_ID job = [] then None else Some job))"

text \<open>The next occurrence of a claimed job, with the occurrence the run is for.\<close>

definition advance :: "Settings \<Rightarrow> time \<Rightarrow> Job \<Rightarrow> sched_error + Job \<times> time" where
  "advance cfg now job =
     (if jb_Kind job = KindRecurring
      then case Parse (sg_cron cfg) (jb_Cron job) of
          Inl e \<Rightarrow> Inl (InvalidCron e)
        | Inr expr \<Rightarrow>
            (let scheduledFor =
                   (case Prev expr (now + 1) of
                      Some latest \<Rightarrow> if latest < jb_NextFire job then jb_NextFire job else latest
                    | None \<Rightarrow> jb_NextFire job)
             in case Next expr now of
                  None \<Rightarrow> Inl CronNoFuture
                | Some next \<Rightarrow> Inr (job\<lparr>jb_NextFire := next\<rparr>, scheduledFor))
      else Inr (job\<lparr>jb_NextFire := 0, jb_Done := True\<rparr>, jb_NextFire job))"

definition markClaimed :: "time \<Rightarrow> time \<Rightarrow> Job \<Rightarrow> Job" where
  "markClaimed now scheduledFor job =
     job\<lparr>jb_LastRunAt := now, jb_LastScheduledFor := scheduledFor, jb_LastStatus := StatusRunning,
         jb_LastError := [], jb_UpdatedAt := now\<rparr>"

definition claimNextDue ::
  "Settings \<Rightarrow> 'w StoreOps \<Rightarrow> time \<Rightarrow> 'w Manager \<Rightarrow> (sched_error + (Job \<times> time) option) \<times> 'w Manager"
where
  "claimNextDue cfg S now m =
     (case selectDue now m of
        None \<Rightarrow> (Inr None, m)
      | Some selected \<Rightarrow>
          (case advance cfg now selected of
             Inl e \<Rightarrow> (Inl e, m)
           | Inr (job, scheduledFor) \<Rightarrow>
               (let job = markClaimed now scheduledFor job in
                case so_StoreJob S job (sm_store m) of
                  (Inl e, w) \<Rightarrow> (Inl (storeError (lit ''claim'') e), m\<lparr>sm_store := w\<rparr>)
                | (Inr _, w) \<Rightarrow>
                    (Inr (Some (cloneJob job, scheduledFor)),
                     m\<lparr>sm_jobs := AList.update (jb_ID job) job (sm_jobs m),
                       sm_running := List.insert (jb_ID job) (sm_running m), sm_store := w\<rparr>))))"

section \<open>Finishing and archiving a run\<close>

text \<open>\<open>None\<close> is a nil error, and the job after the call is what the pointer refers to.\<close>

definition finishPendingRun :: "'w StoreOps \<Rightarrow> Job \<Rightarrow> 'w \<Rightarrow> sched_error option \<times> Job \<times> 'w" where
  "finishPendingRun S job w =
     (case jb_PendingRun job of
        None \<Rightarrow> (None, job, w)
      | Some run \<Rightarrow>
          (if jb_PendingNotification job \<noteq> None then (Some NotificationStillPending, job, w)
           else case so_AppendRunRecord S run w of
               (Inl e, w) \<Rightarrow> (Some (storeError (lit ''append'') e), job, w)
             | (Inr _, w) \<Rightarrow>
                 (if jb_Done job
                  then (case so_DeleteJob S (jb_ID job) w of
                          (Inl e, w) \<Rightarrow> (Some (storeError (lit ''delete'') e), job, w)
                        | (Inr _, w) \<Rightarrow> (None, job, w))
                  else let job = job\<lparr>jb_PendingRun := None\<rparr> in
                    case so_StoreJob S job w of
                      (Inl e, w) \<Rightarrow> (Some (storeError (lit ''store'') e), job, w)
                    | (Inr _, w) \<Rightarrow> (None, job, w))))"

definition stopRunning :: "gostr \<Rightarrow> 'w Manager \<Rightarrow> 'w Manager" where
  "stopRunning i m = m\<lparr>sm_running := removeAll i (sm_running m)\<rparr>"

definition markNotificationDelivered ::
  "'w StoreOps \<Rightarrow> gostr \<Rightarrow> time \<Rightarrow> 'w Manager \<Rightarrow> (sched_error + Job) \<times> 'w Manager"
where
  "markNotificationDelivered S i deliveredAt m =
     (case map_of (sm_jobs m) i of
        None \<Rightarrow> (Inl IntentDisappeared, m)
      | Some job \<Rightarrow>
          (case (jb_PendingRun job, jb_PendingNotification job) of
             (Some _, Some n) \<Rightarrow>
               (if nt_DeliveredAt n = 0
                then let current = (cloneJob job)\<lparr>jb_PendingNotification := Some (n\<lparr>nt_DeliveredAt := deliveredAt\<rparr>)\<rparr> in
                  case so_StoreJob S current (sm_store m) of
                    (Inl e, w) \<Rightarrow> (Inl (storeError (lit ''persist delivery'') e), m\<lparr>sm_store := w\<rparr>)
                  | (Inr _, w) \<Rightarrow>
                      (Inr (cloneJob current), m\<lparr>sm_jobs := AList.update i current (sm_jobs m), sm_store := w\<rparr>)
                else (Inr (cloneJob job), m))
           | _ \<Rightarrow> (Inl IntentDisappeared, m)))"

text \<open>The outcome of the notification is stored with the job.\<close>

definition recordOutcome ::
  "'w StoreOps \<Rightarrow> gostr option \<Rightarrow> RunRecord \<Rightarrow> Job \<Rightarrow> 'w \<Rightarrow> sched_error option \<times> Job \<times> 'w"
where
  "recordOutcome S deliveryErr run current w =
     (if jb_PendingNotification current = None then (None, current, w)
      else let current =
             (case deliveryErr of
                Some msg \<Rightarrow> current\<lparr>jb_PendingRun := Some ((cloneRunRecord run)\<lparr>rr_NotifyError := msg\<rparr>)\<rparr>
              | None \<Rightarrow>
                  (if rr_Status run = StatusModelUnavailable
                   then current\<lparr>jb_ModelUnavailableNotified := True\<rparr> else current));
             current = current\<lparr>jb_PendingNotification := None\<rparr>
           in case so_StoreJob S current w of
                (Inl e, w) \<Rightarrow> (Some (storeError (lit ''notification result'') e), current, w)
              | (Inr _, w) \<Rightarrow> (None, current, w))"

text \<open>The last part of \<open>finalizePendingRun\<close>: the notification's outcome is recorded, the run
  archived and the job released.\<close>

definition archivePending ::
  "'w StoreOps \<Rightarrow> gostr \<Rightarrow> gostr option \<Rightarrow> 'w Manager \<Rightarrow> sched_error option \<times> 'w Manager"
where
  "archivePending S i deliveryErr m =
     (case map_of (sm_jobs m) i of
        None \<Rightarrow> (None, stopRunning i m)
      | Some job \<Rightarrow>
          (case jb_PendingRun job of
             None \<Rightarrow> (None, stopRunning i m)
           | Some run \<Rightarrow>
               (case recordOutcome S deliveryErr run (cloneJob job) (sm_store m) of
                  (Some e, _, w) \<Rightarrow> (Some e, m\<lparr>sm_store := w\<rparr>)
                | (None, current, w) \<Rightarrow>
                    (case finishPendingRun S current w of
                       (Some e, _, w) \<Rightarrow> (Some e, m\<lparr>sm_store := w\<rparr>)
                     | (None, current, w) \<Rightarrow>
                         (None,
                          stopRunning i
                            (if jb_Done current then m\<lparr>sm_jobs := AList.delete i (sm_jobs m), sm_store := w\<rparr>
                             else m\<lparr>sm_jobs := AList.update i current (sm_jobs m), sm_store := w\<rparr>))))))"

text \<open>What the publisher, the clock, the recorder and the context answer during one call of
  \<open>finalizePendingRun\<close>.\<close>

record Delivery =
  dl_publishErr :: "gostr option"
  dl_ctxAfterPublish :: bool
  dl_deliveredAt :: time
  dl_recordErr :: "gostr option"
  dl_ctxAfterRecord :: bool

definition outbound :: "Notification \<Rightarrow> OutboundMessage" where
  "outbound n = \<lparr>ob_Channel = nt_Channel n, ob_ChatID = nt_ChatID n, ob_Text = nt_Text n\<rparr>"

definition delivered :: "Job \<Rightarrow> RunRecord \<Rightarrow> Notification \<Rightarrow> DeliveredNotification" where
  "delivered job run n =
     \<lparr>dn_JobID = jb_ID job, dn_RunID = rr_ID run, dn_Channel = nt_Channel n, dn_ChatID = nt_ChatID n,
      dn_Text = nt_Text n, dn_DeliveredAt = nt_DeliveredAt n\<rparr>"

text \<open>Recording an acknowledged notification and archiving.\<close>

definition recordAndArchive ::
  "'w StoreOps \<Rightarrow> gostr \<Rightarrow> Delivery \<Rightarrow> Job \<Rightarrow> 'w Manager \<Rightarrow> sched_error option \<times> 'w Manager"
where
  "recordAndArchive S i d job m =
     (case (jb_PendingRun job, jb_PendingNotification job) of
        (Some run, Some n) \<Rightarrow>
          (if nt_DeliveredAt n = 0 then (Some DeliveryTimestampMissing, m)
           else let m = m\<lparr>sm_recorded := sm_recorded m @ [(delivered job run n, dl_recordErr d)]\<rparr> in
             case dl_recordErr d of
               Some msg \<Rightarrow> (if dl_ctxAfterRecord d then None else Some (RecordDeliveryFailed msg), m)
             | None \<Rightarrow> archivePending S i None m)
      | _ \<Rightarrow> (Some DeliveryTimestampMissing, m))"

definition finalizePendingRun ::
  "'w StoreOps \<Rightarrow> gostr \<Rightarrow> Delivery \<Rightarrow> 'w Manager \<Rightarrow> sched_error option \<times> 'w Manager"
where
  "finalizePendingRun S i d m =
     (case map_of (sm_jobs m) i of
        None \<Rightarrow> (None, stopRunning i m)
      | Some job \<Rightarrow>
          (if jb_PendingRun job = None then (None, stopRunning i m)
           else case jb_PendingNotification job of
               None \<Rightarrow> archivePending S i None m
             | Some n \<Rightarrow>
                 (if nt_DeliveredAt n \<noteq> 0 then recordAndArchive S i d job m
                  else let m = m\<lparr>sm_published := sm_published m @ [(outbound n, dl_publishErr d)]\<rparr> in
                    case dl_publishErr d of
                      Some msg \<Rightarrow> (if dl_ctxAfterPublish d then (None, m) else archivePending S i (Some msg) m)
                    | None \<Rightarrow>
                        (case markNotificationDelivered S i (dl_deliveredAt d) m of
                           (Inl e, m) \<Rightarrow> (Some e, m)
                         | (Inr job, m) \<Rightarrow> recordAndArchive S i d job m))))"

section \<open>Executing a claimed job\<close>

definition runRequest :: "Settings \<Rightarrow> Job \<Rightarrow> time \<Rightarrow> time \<Rightarrow> RunRequest" where
  "runRequest cfg job scheduledFor currentTime =
     \<lparr>rn_Job = cloneJob job, rn_RunID = runID (sg_uuid cfg) (jb_ID job) (jb_LastRunAt job),
      rn_ScheduledFor = scheduledFor, rn_StartedAt = jb_LastRunAt job, rn_CurrentTimeUTC = currentTime\<rparr>"

text \<open>An executor's error: its text and what \<open>errors.Is\<close> finds in it.\<close>

record RunError =
  re_text :: gostr
  re_unavailable :: bool
  re_deadline :: bool

record Execution =
  ex_result :: RunResult
  ex_err :: "RunError option"
  ex_finishedAt :: time
  ex_ctxAfterRun :: bool
  ex_ctxBeforeNotify :: bool

text \<open>\<open>time.Duration.String\<close> of a positive duration.\<close>

definition fracDigits :: "nat \<Rightarrow> int \<Rightarrow> gostr" where
  "fracDigits k f =
     (let ds = rev (dropWhile (\<lambda>r. r = 48) (rev (map (\<lambda>i. 48 + f div 10 ^ i mod 10) (rev [0..<k]))))
      in if ds = [] then [] else lit ''.'' @ ds)"

definition durationString :: "duration \<Rightarrow> gostr" where
  "durationString d =
     (if d < 1000 then itoa (nat d) @ lit ''ns''
      else if d < 1000000 then itoa (nat (d div 1000)) @ fracDigits 3 (d mod 1000) @ [181] @ lit ''s''
      else if d < 1000000000 then itoa (nat (d div 1000000)) @ fracDigits 6 (d mod 1000000) @ lit ''ms''
      else let secs = d div 1000000000; mins = secs div 60; hours = mins div 60 in
        (if 0 < hours then itoa (nat hours) @ lit ''h'' else [])
        @ (if 0 < mins then itoa (nat (mins mod 60)) @ lit ''m'' else [])
        @ itoa (nat (secs mod 60)) @ fracDigits 9 (d mod 1000000000) @ lit ''s'')"

definition executedModel :: "Job \<Rightarrow> RunResult \<Rightarrow> ModelTarget" where
  "executedModel job result =
     (let t = normalizeModelTarget (rs_Model result) in if t = emptyModel then jb_Model job else t)"

definition effectiveError :: "Settings \<Rightarrow> Job \<Rightarrow> Execution \<Rightarrow> RunError option" where
  "effectiveError cfg job ex =
     (let used = executedModel job (ex_result ex) in
      if ex_err ex = None \<and> used \<noteq> jb_Model job
      then Some \<lparr>re_text = lit ''scheduled executor used model '' @ sg_quote cfg (modelString used)
                   @ lit '' instead of exact target '' @ sg_quote cfg (modelString (jb_Model job)),
                 re_unavailable = False, re_deadline = False\<rparr>
      else ex_err ex)"

definition runStatus :: "RunError option \<Rightarrow> bool \<Rightarrow> Status" where
  "runStatus err ctxDone =
     (case err of
        None \<Rightarrow> StatusSucceeded
      | Some e \<Rightarrow>
          (if ctxDone then StatusInterrupted
           else if re_unavailable e then StatusModelUnavailable else StatusFailed))"

definition errorText :: "Settings \<Rightarrow> RunError option \<Rightarrow> bool \<Rightarrow> gostr option" where
  "errorText cfg err ctxDone =
     (case err of
        None \<Rightarrow> None
      | Some e \<Rightarrow>
          (if \<not> ctxDone \<and> \<not> re_unavailable e \<and> re_deadline e
           then Some (lit ''scheduled run timed out after '' @ durationString (sg_runTimeout cfg) @ lit '': '' @ re_text e)
           else Some (re_text e)))"

definition finishedRecord :: "Settings \<Rightarrow> Job \<Rightarrow> time \<Rightarrow> Execution \<Rightarrow> RunRecord" where
  "finishedRecord cfg job scheduledFor ex =
     (let err = effectiveError cfg job ex in
      \<lparr>rr_SchemaVersion = JobSchemaVersion, rr_ID = runID (sg_uuid cfg) (jb_ID job) (jb_LastRunAt job),
       rr_JobID = jb_ID job, rr_JobName = jb_Name job, rr_Owner = jb_Owner job,
       rr_Status = runStatus err (ex_ctxAfterRun ex), rr_Model = executedModel job (ex_result ex),
       rr_AllowedTools = cloneToolNames (jb_AllowedTools job), rr_ScheduledFor = scheduledFor,
       rr_StartedAt = jb_LastRunAt job, rr_FinishedAt = ex_finishedAt ex,
       rr_Output = truncateRunes (trimSpace (rs_Text (ex_result ex))) maxOutputRunes,
       rr_Error = (case errorText cfg err (ex_ctxAfterRun ex) of None \<Rightarrow> [] | Some s \<Rightarrow> s),
       rr_NotifyError = []\<rparr>)"

definition shouldNotify :: "Job \<Rightarrow> Status \<Rightarrow> bool \<Rightarrow> bool" where
  "shouldNotify job status ctxDone \<longleftrightarrow>
     jb_Notify job \<and> \<not> ctxDone \<and>
     (status \<noteq> StatusModelUnavailable \<or> \<not> jb_ModelUnavailableNotified job)"

text \<open>When a finished job fires next: the retry of an unavailable one-shot, and the next occurrence
  of a recurring job whose next one has passed while it ran.\<close>

definition nextAfterRun :: "Settings \<Rightarrow> time \<Rightarrow> Status \<Rightarrow> Job \<Rightarrow> sched_error + Job" where
  "nextAfterRun cfg finishedAt status job =
     (let job = (if status = StatusModelUnavailable \<and> jb_Kind job = KindOneShot
                 then job\<lparr>jb_Done := False, jb_NextFire := finishedAt + sg_unavailableRetryDelay cfg\<rparr> else job)
      in if jb_Kind job = KindRecurring \<and> (jb_NextFire job = 0 \<or> \<not> finishedAt < jb_NextFire job)
         then case Parse (sg_cron cfg) (jb_Cron job) of
             Inl e \<Rightarrow> Inl (InvalidCron e)
           | Inr expr \<Rightarrow>
               (case Next expr finishedAt of
                  None \<Rightarrow> Inl CronNoFuture
                | Some next \<Rightarrow> Inr (job\<lparr>jb_NextFire := next\<rparr>))
         else Inr job)"

definition finishedJob ::
  "Settings \<Rightarrow> Job \<Rightarrow> time \<Rightarrow> Execution \<Rightarrow> Job \<Rightarrow> sched_error + Job"
where
  "finishedJob cfg job scheduledFor ex current =
     (let record = finishedRecord cfg job scheduledFor ex;
          status = rr_Status record;
          err = errorText cfg (effectiveError cfg job ex) (ex_ctxAfterRun ex);
          current = current\<lparr>jb_LastRunAt := jb_LastRunAt job, jb_LastScheduledFor := scheduledFor,
            jb_UpdatedAt := ex_finishedAt ex, jb_LastStatus := status,
            jb_ModelUnavailableNotified :=
              (status = StatusModelUnavailable \<and> jb_ModelUnavailableNotified job)\<rparr>
      in case nextAfterRun cfg (ex_finishedAt ex) status current of
           Inl e \<Rightarrow> Inl e
         | Inr current \<Rightarrow>
             (let current =
                    (case err of
                       Some text \<Rightarrow> current\<lparr>jb_LastFailureAt := ex_finishedAt ex,
                         jb_ConsecutiveFailures := jb_ConsecutiveFailures current + 1, jb_LastError := text\<rparr>
                     | None \<Rightarrow> current\<lparr>jb_LastSuccessAt := ex_finishedAt ex,
                         jb_ConsecutiveFailures := 0, jb_LastError := []\<rparr>);
                  notification =
                    (if shouldNotify job status (ex_ctxBeforeNotify ex)
                     then Some \<lparr>nt_Channel = ow_Channel (jb_Owner job), nt_ChatID = ow_ChatID (jb_Owner job),
                                nt_Text = notificationText current record, nt_DeliveredAt = 0\<rparr>
                     else None)
              in Inr (current\<lparr>jb_PendingRun := Some (cloneRunRecord record),
                              jb_PendingNotification := notification\<rparr>)))"

text \<open>The locked part of \<open>executeClaimed\<close>; the bool tells whether the job still exists.\<close>

definition completeRun ::
  "Settings \<Rightarrow> 'w StoreOps \<Rightarrow> Job \<Rightarrow> time \<Rightarrow> Execution \<Rightarrow> 'w Manager \<Rightarrow> (sched_error + bool) \<times> 'w Manager"
where
  "completeRun cfg S job scheduledFor ex m =
     (case map_of (sm_jobs m) (jb_ID job) of
        None \<Rightarrow> (Inr False, m)
      | Some current \<Rightarrow>
          (case finishedJob cfg job scheduledFor ex current of
             Inl e \<Rightarrow> (Inl e, m)
           | Inr current \<Rightarrow>
               (case so_StoreJob S current (sm_store m) of
                  (Inl e, w) \<Rightarrow> (Inl (storeError (lit ''finish'') e), m\<lparr>sm_store := w\<rparr>)
                | (Inr _, w) \<Rightarrow>
                    (Inr True, m\<lparr>sm_jobs := AList.update (jb_ID job) current (sm_jobs m), sm_store := w\<rparr>))))"

definition executeClaimed ::
  "Settings \<Rightarrow> 'w StoreOps \<Rightarrow> Job \<Rightarrow> time \<Rightarrow> Execution \<Rightarrow> Delivery \<Rightarrow> 'w Manager \<Rightarrow>
   sched_error option \<times> 'w Manager"
where
  "executeClaimed cfg S job scheduledFor ex d m =
     (case completeRun cfg S job scheduledFor ex m of
        (Inl e, m) \<Rightarrow> (Some e, m)
      | (Inr True, m) \<Rightarrow> finalizePendingRun S (jb_ID job) d m
      | (Inr False, m) \<Rightarrow>
          (let m = stopRunning (jb_ID job) m in
           case so_AppendRunRecord S (finishedRecord cfg job scheduledFor ex) (sm_store m) of
             (Inl e, w) \<Rightarrow> (Some (storeError (lit ''record'') e), m\<lparr>sm_store := w\<rparr>)
           | (Inr _, w) \<Rightarrow> (None, m\<lparr>sm_store := w\<rparr>)))"

section \<open>The loop\<close>

definition nextPendingNotification :: "'w Manager \<Rightarrow> gostr option" where
  "nextPendingNotification m =
     (let selected = foldl (\<lambda>sel (i, job).
            if jb_PendingRun job \<noteq> None \<and> jb_PendingNotification job \<noteq> None \<and> (sel = [] \<or> i < sel) then i else sel)
            [] (sm_jobs m)
      in if selected = [] then None else Some selected)"

definition nextFire :: "'w Manager \<Rightarrow> time" where
  "nextFire m =
     foldl (\<lambda>next (i, job).
       if jb_Done job \<or> jb_NextFire job = 0 then next
       else if next = 0 \<or> jb_NextFire job < next then jb_NextFire job else next) 0 (sm_jobs m)"

text \<open>\<open>next.Sub(now)\<close> saturates at the bounds of a 64-bit duration.\<close>

definition timerWait :: "time \<Rightarrow> time \<Rightarrow> duration" where
  "timerWait next now =
     (if next = 0 then 3600 * 1000000000
      else let wait = min (2 ^ 63 - 1) (max (- (2 ^ 63)) (next - now)) in if wait < 0 then 0 else wait)"

datatype run_outcome = Stopped "sched_error option" | Again | Wait duration

text \<open>One iteration of \<open>Run\<close>, given the context, the two readings of the clock, and the answers
  of a run and a delivery should they be asked for.\<close>

definition runOnce ::
  "Settings \<Rightarrow> 'w StoreOps \<Rightarrow> bool \<Rightarrow> time \<Rightarrow> time \<Rightarrow> Execution \<Rightarrow> Delivery \<Rightarrow> 'w Manager \<Rightarrow>
   run_outcome \<times> 'w Manager"
where
  "runOnce cfg S ctxDone now later ex d m =
     (if ctxDone then (Stopped None, m)
      else case nextPendingNotification m of
          Some i \<Rightarrow>
            (case finalizePendingRun S i d m of (Some e, m) \<Rightarrow> (Stopped (Some e), m) | (None, m) \<Rightarrow> (Again, m))
        | None \<Rightarrow>
            (case claimNextDue cfg S now m of
               (Inl e, m) \<Rightarrow> (Stopped (Some e), m)
             | (Inr (Some (job, scheduledFor)), m) \<Rightarrow>
                 (case executeClaimed cfg S job scheduledFor ex d m of
                    (Some e, m) \<Rightarrow> (Stopped (Some e), m) | (None, m) \<Rightarrow> (Again, m))
             | (Inr None, m) \<Rightarrow> (Wait (timerWait (nextFire m) later), m)))"

section \<open>Loading and recovery\<close>

definition emptyManager :: "'w \<Rightarrow> 'w Manager" where
  "emptyManager w =
     \<lparr>sm_jobs = [], sm_running = [], sm_wake = False, sm_store = w, sm_published = [], sm_recorded = []\<rparr>"

definition addJob :: "Job \<Rightarrow> 'w Manager \<Rightarrow> 'w Manager" where
  "addJob job m = m\<lparr>sm_jobs := AList.update (jb_ID job) job (sm_jobs m)\<rparr>"

text \<open>A run the previous process did not finish is made a pending run, stored and archived.\<close>

definition interruptJob ::
  "Settings \<Rightarrow> 'w StoreOps \<Rightarrow> time \<Rightarrow> Job \<Rightarrow> 'w \<Rightarrow> sched_error option \<times> Job \<times> 'w"
where
  "interruptJob cfg S now job w =
     (let job = markInterrupted job now;
          job = job\<lparr>jb_PendingRun := Some (cloneRunRecord (interruptedRecord (sg_uuid cfg) job now))\<rparr>
      in case so_StoreJob S job w of
           (Inl e, w) \<Rightarrow> (Some (storeError (lit ''interrupted'') e), job, w)
         | (Inr _, w) \<Rightarrow> finishPendingRun S job w)"

definition recoverJob :: "Settings \<Rightarrow> 'w StoreOps \<Rightarrow> time \<Rightarrow> Job \<Rightarrow> 'w Manager \<Rightarrow> sched_error option \<times> 'w Manager" where
  "recoverJob cfg S now job m =
     (if jb_PendingRun job \<noteq> None \<and> jb_PendingNotification job \<noteq> None
      then (None, (addJob job m)\<lparr>sm_running := List.insert (jb_ID job) (sm_running m)\<rparr>)
      else if jb_PendingRun job \<noteq> None
      then case finishPendingRun S job (sm_store m) of
          (Some e, _, w) \<Rightarrow> (Some e, m\<lparr>sm_store := w\<rparr>)
        | (None, job, w) \<Rightarrow> (None, if jb_Done job then m\<lparr>sm_store := w\<rparr> else addJob job (m\<lparr>sm_store := w\<rparr>))
      else if jb_Done job
      then (if jb_LastStatus job = StatusRunning
            then case interruptJob cfg S now job (sm_store m) of
                (Some e, _, w) \<Rightarrow> (Some e, m\<lparr>sm_store := w\<rparr>)
              | (None, _, w) \<Rightarrow> (None, m\<lparr>sm_store := w\<rparr>)
            else (Some CompletedWithoutRun, m))
      else if jb_LastStatus job = StatusRunning
      then case interruptJob cfg S now job (sm_store m) of
          (Some e, _, w) \<Rightarrow> (Some e, m\<lparr>sm_store := w\<rparr>)
        | (None, job, w) \<Rightarrow> (None, addJob job (m\<lparr>sm_store := w\<rparr>))
      else (None, addJob job m))"

fun loadJobs :: "Settings \<Rightarrow> 'w StoreOps \<Rightarrow> time \<Rightarrow> Job list \<Rightarrow> 'w Manager \<Rightarrow> sched_error option \<times> 'w Manager" where
  "loadJobs cfg S now [] m = (None, m)"
| "loadJobs cfg S now (stored # js) m =
     (let (normalized, job) = normalizeStoredToolLists stored in
      case validateStoredJob (sg_cron cfg) (sg_uuid cfg) (sg_maxTurns cfg) job of
        Some e \<Rightarrow> (Some e, m)
      | None \<Rightarrow>
          (case (if normalized then so_StoreJob S job (sm_store m) else (Inr (), sm_store m)) of
             (Inl e, w) \<Rightarrow> (Some (storeError (lit ''normalize'') e), m\<lparr>sm_store := w\<rparr>)
           | (Inr _, w) \<Rightarrow>
               (case recoverJob cfg S now job (m\<lparr>sm_store := w\<rparr>) of
                  (Some e, m) \<Rightarrow> (Some e, m)
                | (None, m) \<Rightarrow> loadJobs cfg S now js m)))"

definition NewManager ::
  "Settings \<Rightarrow> 'w StoreOps \<Rightarrow> time \<Rightarrow> 'w \<Rightarrow> (sched_error + 'w Manager) \<times> 'w"
where
  "NewManager cfg S now w =
     (case so_LoadJobs S w of
        (Inl e, w) \<Rightarrow> (Inl (storeError (lit ''load'') e), w)
      | (Inr js, w) \<Rightarrow>
          (case loadJobs cfg S now js (emptyManager w) of
             (Some e, m) \<Rightarrow> (Inl e, sm_store m)
           | (None, m) \<Rightarrow>
               (if sg_maxJobs cfg < int (length (sm_jobs m)) then (Inl TooManyJobs, sm_store m)
                else (Inr m, sm_store m))))"

section \<open>The system\<close>

text \<open>
  A process that runs the manager, with the run in progress if the loop is executing one, or a
  stopped process with its store.  Requests may come at any time, also while a job executes; the
  loop takes its steps one after the other, and the clock it reads is past the zero time.  A loop that stopped with an error is allowed to go on,
  which only adds behaviours.
\<close>

datatype 'w system = Up "'w Manager" "(Job \<times> time) option" | Down 'w

text \<open>
  The owner check, the default model and the catalogs are Go functions that the manager calls anew
  for each request, so each request has answers of its own.  The rest of the configuration, the
  limits above all, is the same for the whole history, restarts included, and the count of
  consecutive failures is an unbounded integer where the code's has 64 bits.
\<close>

definition answering ::
  "Settings \<Rightarrow> (Owner \<Rightarrow> gostr option) option \<Rightarrow> ModelTarget \<Rightarrow> (ModelTarget \<Rightarrow> bool) \<Rightarrow> (gostr \<Rightarrow> bool) \<Rightarrow> Settings"
where
  "answering cfg au dm me te =
     cfg\<lparr>sg_authorizeOwner := au, sg_defaultModel := dm, sg_modelExists := me, sg_toolExists := te\<rparr>"

lemma answering_sel [simp]:
  "sg_cron (answering cfg au dm me te) = sg_cron cfg" "sg_uuid (answering cfg au dm me te) = sg_uuid cfg"
  "sg_maxTurns (answering cfg au dm me te) = sg_maxTurns cfg" "sg_maxJobs (answering cfg au dm me te) = sg_maxJobs cfg"
  by (simp_all add: answering_def)

lemma answering_same:
  "answering cfg (sg_authorizeOwner cfg) (sg_defaultModel cfg) (sg_modelExists cfg) (sg_toolExists cfg) = cfg"
  by (simp add: answering_def)

inductive sched_step :: "Settings \<Rightarrow> 'w StoreOps \<Rightarrow> 'w system \<Rightarrow> 'w system \<Rightarrow> bool"
  for cfg :: Settings and S :: "'w StoreOps"
where
  create: "Create (answering cfg au dm me te) S now newID owner req m = (r, m') \<Longrightarrow> sched_step cfg S (Up m fl) (Up m' fl)"
| update: "Update (answering cfg au dm me te) S now owner i req m = (r, m') \<Longrightarrow> sched_step cfg S (Up m fl) (Up m' fl)"
| delete: "Delete (answering cfg au dm me te) S owner i m = (e, m') \<Longrightarrow> sched_step cfg S (Up m fl) (Up m' fl)"
| history: "RunHistoryOf (answering cfg au dm me te) S owner f m = (h, m') \<Longrightarrow> sched_step cfg S (Up m fl) (Up m' fl)"
| wake: "sched_step cfg S (Up m fl) (Up (m\<lparr>sm_wake := False\<rparr>) fl)"
| deliver: "nextPendingNotification m = Some i \<Longrightarrow> finalizePendingRun S i d m = (e, m') \<Longrightarrow>
            sched_step cfg S (Up m None) (Up m' None)"
| claim: "claimNextDue cfg S now m = (Inr fl, m') \<Longrightarrow> 0 < now \<Longrightarrow> sched_step cfg S (Up m None) (Up m' fl)"
| claim_failed: "claimNextDue cfg S now m = (Inl er, m') \<Longrightarrow> 0 < now \<Longrightarrow>
                 sched_step cfg S (Up m None) (Up m' None)"
| execute: "executeClaimed cfg S job scheduledFor ex d m = (e, m') \<Longrightarrow> 0 < ex_finishedAt ex \<Longrightarrow>
            sched_step cfg S (Up m (Some (job, scheduledFor))) (Up m' None)"
| crash: "sched_step cfg S (Up m fl) (Down (sm_store m))"
| restart: "NewManager cfg S now w = (Inr m, w') \<Longrightarrow> sched_step cfg S (Down w) (Up m None)"
| restart_failed: "NewManager cfg S now w = (Inl er, w') \<Longrightarrow> sched_step cfg S (Down w) (Down w')"

text \<open>The run of job \<open>i\<close> that started at \<open>t\<close>, as a stored job may carry it, and as a store
  accounts for it: in the job, or archived.\<close>

definition carries :: "(gostr \<Rightarrow> time \<Rightarrow> gostr) \<Rightarrow> gostr \<Rightarrow> time \<Rightarrow> Job \<Rightarrow> bool" where
  "carries uuid i t job \<longleftrightarrow>
     (case jb_PendingRun job of
        None \<Rightarrow> jb_LastStatus job = StatusRunning \<and> jb_LastRunAt job = t
      | Some r \<Rightarrow> rr_ID r = runID uuid i t)"

definition archivedRun :: "(gostr \<Rightarrow> time \<Rightarrow> gostr) \<Rightarrow> RunRecord set \<Rightarrow> gostr \<Rightarrow> time \<Rightarrow> bool" where
  "archivedRun uuid runs i t \<longleftrightarrow> (\<exists>r \<in> runs. rr_ID r = runID uuid i t)"

definition accounted ::
  "(gostr \<Rightarrow> time \<Rightarrow> gostr) \<Rightarrow> (gostr \<Rightarrow> Job option) \<Rightarrow> RunRecord set \<Rightarrow> gostr \<Rightarrow> time \<Rightarrow> bool"
where
  "accounted uuid jobs runs i t \<longleftrightarrow>
     (case jobs i of None \<Rightarrow> False | Some job \<Rightarrow> carries uuid i t job) \<or> archivedRun uuid runs i t"

definition systemStore :: "'w system \<Rightarrow> 'w" where
  "systemStore s = (case s of Up m _ \<Rightarrow> sm_store m | Down w \<Rightarrow> w)"

section \<open>Clones and lookups\<close>

lemma clone_same [simp]:
  "cloneToolNames ns = ns" "cloneRunRecord r = r" "cloneJob job = job" "cloneRunHistory h = h"
proof -
  show ns: "cloneToolNames ns = ns" for ns by (simp add: cloneToolNames_def split: option.splits)
  show r: "cloneRunRecord r = r" for r by (simp add: cloneRunRecord_def ns)
  have "map_option cloneRunRecord x = x" for x by (cases x) (simp_all add: r)
  moreover have "map cloneRunRecord rs = rs" for rs by (simp add: r map_idI)
  ultimately show "cloneJob job = job" "cloneRunHistory h = h"
    by (simp_all add: cloneJob_def cloneRunHistory_def ns)
qed

end
