(* ===== verification/Schedule_Safety.thy ===== *)
theory Schedule_Safety
  imports Schedule_Manager
begin

text \<open>
  What the scheduler's operations keep: the manager's invariant, every job but the one an operation
  is about, and every run that was claimed.  The facts are proved for any store that meets the
  contract of \<open>schedule_store\<close>, and instantiated with the store of files.
\<close>

section \<open>The manager's invariant\<close>

text \<open>
  Every job is filed once, under its id; a job with a pending run is running; a running job exists;
  the job in progress is the one in the map, running, with no pending run.
\<close>

definition mgrOK :: "'w Manager \<Rightarrow> (Job \<times> time) option \<Rightarrow> bool" where
  "mgrOK m fl \<longleftrightarrow>
     distinct (map fst (sm_jobs m)) \<and>
     (\<forall>k j. map_of (sm_jobs m) k = Some j \<longrightarrow>
        jb_ID j = k \<and> (jb_PendingRun j \<noteq> None \<longrightarrow> k \<in> set (sm_running m))) \<and>
     (\<forall>k \<in> set (sm_running m). map_of (sm_jobs m) k \<noteq> None) \<and>
     (\<forall>job t. fl = Some (job, t) \<longrightarrow>
        map_of (sm_jobs m) (jb_ID job) = Some job \<and> jb_ID job \<in> set (sm_running m) \<and> jb_PendingRun job = None)"

lemma mgrOK_distinct: "mgrOK m fl \<Longrightarrow> distinct (map fst (sm_jobs m))"
  unfolding mgrOK_def by blast

lemma mgrOK_id: "mgrOK m fl \<Longrightarrow> map_of (sm_jobs m) k = Some j \<Longrightarrow> jb_ID j = k"
  unfolding mgrOK_def by blast

lemma mgrOK_pending:
  "mgrOK m fl \<Longrightarrow> map_of (sm_jobs m) k = Some j \<Longrightarrow> jb_PendingRun j = Some r \<Longrightarrow> k \<in> set (sm_running m)"
  unfolding mgrOK_def by blast

lemma mgrOK_running: "mgrOK m fl \<Longrightarrow> k \<in> set (sm_running m) \<Longrightarrow> map_of (sm_jobs m) k \<noteq> None"
  unfolding mgrOK_def by blast

lemma mgrOK_flight:
  "mgrOK m (Some (job, t)) \<Longrightarrow>
   map_of (sm_jobs m) (jb_ID job) = Some job \<and> jb_ID job \<in> set (sm_running m) \<and> jb_PendingRun job = None"
  unfolding mgrOK_def by blast

lemma mgrOK_weaken: "mgrOK m fl \<Longrightarrow> mgrOK m None"
  unfolding mgrOK_def by blast

text \<open>Changing nothing but the store, the wake flag and the logs.\<close>

lemma mgrOKI:
  assumes "distinct (map fst (sm_jobs m))"
    and "\<And>k j. map_of (sm_jobs m) k = Some j \<Longrightarrow> jb_ID j = k"
    and "\<And>k j r. map_of (sm_jobs m) k = Some j \<Longrightarrow> jb_PendingRun j = Some r \<Longrightarrow> k \<in> set (sm_running m)"
    and "\<And>k. k \<in> set (sm_running m) \<Longrightarrow> map_of (sm_jobs m) k \<noteq> None"
    and "\<And>job t. fl = Some (job, t) \<Longrightarrow> map_of (sm_jobs m) (jb_ID job) = Some job \<and>
           jb_ID job \<in> set (sm_running m) \<and> jb_PendingRun job = None"
  shows "mgrOK m fl"
  using assms unfolding mgrOK_def by blast

lemma mgrOK_cong: "sm_jobs m' = sm_jobs m \<Longrightarrow> sm_running m' = sm_running m \<Longrightarrow> mgrOK m' fl = mgrOK m fl"
  unfolding mgrOK_def by (simp only:)

lemma mgrOK_put:
  assumes ok: "mgrOK m fl" and jobs: "map_of (sm_jobs m') = (map_of (sm_jobs m))(k \<mapsto> j)" and k: "jb_ID j = k"
    and run: "sm_running m' = sm_running m" and pend: "jb_PendingRun j \<noteq> None \<longrightarrow> k \<in> set (sm_running m)"
    and dist: "distinct (map fst (sm_jobs m'))" and fl: "\<And>job t. fl = Some (job, t) \<Longrightarrow> jb_ID job \<noteq> k"
  shows "mgrOK m' fl"
proof (rule mgrOKI [OF dist])
  show "jb_ID j' = k'" if "map_of (sm_jobs m') k' = Some j'" for k' j'
    using that k mgrOK_id [OF ok] unfolding jobs by (cases "k' = k") simp_all
  show "k' \<in> set (sm_running m')" if "map_of (sm_jobs m') k' = Some j'" "jb_PendingRun j' = Some r" for k' j' r
    using that pend mgrOK_pending [OF ok] unfolding jobs run by (cases "k' = k") simp_all
  show "map_of (sm_jobs m') k' \<noteq> None" if "k' \<in> set (sm_running m')" for k'
    using that mgrOK_running [OF ok] unfolding jobs run by (cases "k' = k") simp_all
  show "map_of (sm_jobs m') (jb_ID job) = Some job \<and> jb_ID job \<in> set (sm_running m') \<and> jb_PendingRun job = None"
    if "fl = Some (job, t)" for job t
    using fl [OF that] mgrOK_flight [OF ok [unfolded that]] unfolding jobs run by simp
qed

lemma mgrOK_drop:
  assumes ok: "mgrOK m fl" and jobs: "map_of (sm_jobs m') = (map_of (sm_jobs m))(k := None)"
    and run: "set (sm_running m') = set (sm_running m) - {k}" and dist: "distinct (map fst (sm_jobs m'))"
    and fl: "\<And>job t. fl = Some (job, t) \<Longrightarrow> jb_ID job \<noteq> k"
  shows "mgrOK m' fl"
proof (rule mgrOKI [OF dist])
  show "jb_ID j' = k'" if "map_of (sm_jobs m') k' = Some j'" for k' j'
    using that mgrOK_id [OF ok] unfolding jobs by (cases "k' = k") simp_all
  show "k' \<in> set (sm_running m')" if "map_of (sm_jobs m') k' = Some j'" "jb_PendingRun j' = Some r" for k' j' r
    using that mgrOK_pending [OF ok] unfolding jobs run by (cases "k' = k") simp_all
  show "map_of (sm_jobs m') k' \<noteq> None" if "k' \<in> set (sm_running m')" for k'
    using that mgrOK_running [OF ok] unfolding jobs run by (cases "k' = k") simp_all
  show "map_of (sm_jobs m') (jb_ID job) = Some job \<and> jb_ID job \<in> set (sm_running m') \<and> jb_PendingRun job = None"
    if "fl = Some (job, t)" for job t
    using fl [OF that] mgrOK_flight [OF ok [unfolded that]] unfolding jobs run by simp
qed

lemma map_of_alist_fun [simp]:
  "map_of (AList.update k v al) = (map_of al)(k \<mapsto> v)" "map_of (AList.delete k al) = (map_of al)(k := None)"
  by (simp_all add: update_conv' delete_conv')

lemma sm_simps [simp]:
  "sm_jobs (notifyWake m) = sm_jobs m" "sm_running (notifyWake m) = sm_running m" "sm_store (notifyWake m) = sm_store m"
  "sm_jobs (stopRunning i m) = sm_jobs m" "set (sm_running (stopRunning i m)) = set (sm_running m) - {i}"
  "sm_store (stopRunning i m) = sm_store m"
  "sm_running (addJob j m) = sm_running m" "sm_store (addJob j m) = sm_store m"
  by (auto simp: notifyWake_def stopRunning_def addJob_def)

lemma prepareSchedule_keeps:
  assumes "prepareSchedule p job now f = Inr job'"
  shows "jb_PendingRun job' = jb_PendingRun job \<and> jb_ID job' = jb_ID job \<and> jb_Owner job' = jb_Owner job \<and>
    jb_LastStatus job' = jb_LastStatus job \<and> jb_Done job' = jb_Done job \<and> jb_Kind job' = jb_Kind job \<and>
    jb_PendingNotification job' = jb_PendingNotification job"
  using assms by (auto simp: prepareSchedule_def Let_def split: if_splits sum.splits option.splits)

lemma buildJob_Inr:
  assumes "buildJob cfg now newID owner req = Inr job"
  obtains i job0 where "newID = Inr i" "trimSpace i \<noteq> []" "job = job0\<lparr>jb_ID := trimSpace i\<rparr>"
    "prepareSchedule (sg_cron cfg) (newJob cfg owner req now) now True = Inr job0"
    "validateMutableJob (sg_maxTurns cfg) job0 = None" "sg_modelExists cfg (jb_Model job0)"
    "validateAvailableTools (sg_toolExists cfg) (toolList (jb_AllowedTools job0)) = None"
    "jb_PendingRun job = None"
proof -
  obtain job0 where job0: "prepareSchedule (sg_cron cfg) (newJob cfg owner req now) now True = Inr job0"
    using assms unfolding buildJob_def by (auto split: sum.splits)
  let ?checks = "firstError [validateMutableJob (sg_maxTurns cfg) job0,
    validateAvailableModel (sg_modelExists cfg) (jb_Model job0),
    validateAvailableTools (sg_toolExists cfg) (toolList (jb_AllowedTools job0))]"
  have c: "?checks = None" using assms job0 unfolding buildJob_def by (auto split: option.splits)
  obtain i where i: "newID = Inr i" "trimSpace i \<noteq> []" "job = job0\<lparr>jb_ID := trimSpace i\<rparr>"
    using assms job0 c unfolding buildJob_def by (auto split: sum.splits if_splits)
  have "jb_PendingRun job0 = None" using prepareSchedule_keeps [OF job0] by (simp add: newJob_def Let_def)
  with that i job0 c show thesis by (simp add: validateAvailableModel_def)
qed

locale scheduler = schedule_store "so_StoreJob S" "so_DeleteJob S" "so_AppendRunRecord S" "so_LoadJobs S" jobsIn runsIn sound
  for S :: "'w StoreOps" and jobsIn :: "'w \<Rightarrow> gostr \<Rightarrow> Job option" and runsIn :: "'w \<Rightarrow> RunRecord set"
    and sound :: "'w \<Rightarrow> bool" +
  fixes cfg :: Settings
  assumes query_same: "sound w \<Longrightarrow> so_QueryRuns S q w = (r, w') \<Longrightarrow>
                         sound w' \<and> jobsIn w' = jobsIn w \<and> runsIn w' = runsIn w"
begin

text \<open>A step that touches only job \<open>k\<close>, in the manager and in the store.\<close>

definition touches :: "gostr \<Rightarrow> 'w Manager \<Rightarrow> 'w Manager \<Rightarrow> bool" where
  "touches k m m' \<longleftrightarrow>
     sound (sm_store m') \<and> runsIn (sm_store m) \<subseteq> runsIn (sm_store m') \<and>
     (\<forall>i. i \<noteq> k \<longrightarrow>
        map_of (sm_jobs m') i = map_of (sm_jobs m) i \<and> (i \<in> set (sm_running m') \<longleftrightarrow> i \<in> set (sm_running m)) \<and>
        jobsIn (sm_store m') i = jobsIn (sm_store m) i)"

definition holds :: "gostr \<Rightarrow> time \<Rightarrow> 'w Manager \<Rightarrow> bool" where
  "holds i t m \<longleftrightarrow>
     archivedRun (sg_uuid cfg) (runsIn (sm_store m)) i t \<or>
     i \<in> set (sm_running m) \<and>
       (\<exists>j d. map_of (sm_jobs m) i = Some j \<and> carries (sg_uuid cfg) i t j \<and>
          jobsIn (sm_store m) i = Some d \<and> carries (sg_uuid cfg) i t d)"

lemma archivedRun_mono: "archivedRun u runs i t \<Longrightarrow> runs \<subseteq> runs' \<Longrightarrow> archivedRun u runs' i t"
  unfolding archivedRun_def by blast

lemma touches_refl: "sound (sm_store m) \<Longrightarrow> touches k m m"
  by (simp add: touches_def)

lemma touches_trans: "touches k m m' \<Longrightarrow> touches k m' m'' \<Longrightarrow> touches k m m''"
  unfolding touches_def by (metis order_trans)

lemma touches_holds: "touches k m m' \<Longrightarrow> i \<noteq> k \<Longrightarrow> holds i t m \<Longrightarrow> holds i t m'"
  unfolding touches_def holds_def by (metis archivedRun_mono)

lemma holds_accounted:
  "holds i t m \<Longrightarrow> accounted (sg_uuid cfg) (jobsIn (sm_store m)) (runsIn (sm_store m)) i t"
  unfolding holds_def accounted_def by auto

lemma touches_store:
  assumes "sound (sm_store m)" "so_StoreJob S j (sm_store m) = (r, w)" "jb_ID j = k" "sm_store m' = w"
    "\<And>i. i \<noteq> k \<Longrightarrow> map_of (sm_jobs m') i = map_of (sm_jobs m) i"
    "\<And>i. i \<noteq> k \<Longrightarrow> i \<in> set (sm_running m') \<longleftrightarrow> i \<in> set (sm_running m)"
  shows "touches k m m'"
  using assms store_sound store_runs store_other unfolding touches_def by (metis order_refl)

lemma touches_delete:
  assumes "sound (sm_store m)" "so_DeleteJob S k (sm_store m) = (r, w)" "sm_store m' = w"
    "\<And>i. i \<noteq> k \<Longrightarrow> map_of (sm_jobs m') i = map_of (sm_jobs m) i"
    "\<And>i. i \<noteq> k \<Longrightarrow> i \<in> set (sm_running m') \<longleftrightarrow> i \<in> set (sm_running m)"
  shows "touches k m m'"
  using assms delete_sound delete_runs delete_other unfolding touches_def by (metis order_refl)

lemma store_carries:
  assumes "sound w" "so_StoreJob S j w = (r, w')" "carries u (jb_ID j) t j"
    "jobsIn w (jb_ID j) = Some d" "carries u (jb_ID j) t d"
  shows "\<exists>d'. jobsIn w' (jb_ID j) = Some d' \<and> carries u (jb_ID j) t d'"
  using store_same [OF assms(1,2)] assms(3,4,5) by auto

end

lemma setOpt_keeps: "(\<And>x j. sel (f x j) = sel j) \<Longrightarrow> sel (setOpt fd f job) = sel job"
  by (cases fd) (simp_all add: setOpt_def)

lemma patchJob_keeps:
  "jb_ID (patchJob cfg req job) = jb_ID job" "jb_PendingRun (patchJob cfg req job) = jb_PendingRun job"
  "jb_Owner (patchJob cfg req job) = jb_Owner job"
  by (simp_all add: patchJob_def patchModel_def Let_def setOpt_keeps [of jb_ID] setOpt_keeps [of jb_PendingRun]
      setOpt_keeps [of jb_Owner])

lemma reschedule_keeps:
  assumes "reschedule cfg now job = Inr job'"
  shows "jb_ID job' = jb_ID job \<and> jb_PendingRun job' = jb_PendingRun job \<and> jb_Owner job' = jb_Owner job"
proof -
  let ?job = "if jb_Kind job = KindOneShot then job\<lparr>jb_Cron := []\<rparr>
              else if jb_Kind job = KindRecurring then job\<lparr>jb_RunAt := 0\<rparr> else job"
  obtain j where j: "prepareSchedule (sg_cron cfg) ?job now True = Inr j"
    and job': "job' = j\<lparr>jb_Done := False, jb_LastStatus := StatusPending, jb_LastError := []\<rparr>"
    using assms unfolding reschedule_def Let_def by (auto split: sum.splits)
  show ?thesis using prepareSchedule_keeps [OF j] by (simp add: job')
qed

lemma updatedJob_keeps:
  assumes "updatedJob cfg now req job = Inr job'"
  shows "jb_ID job' = jb_ID job \<and> jb_PendingRun job' = jb_PendingRun job \<and> jb_Owner job' = jb_Owner job \<and>
    validateMutableJob (sg_maxTurns cfg) (job'\<lparr>jb_UpdatedAt := u\<rparr>) = None"
proof -
  let ?p = "patchJob cfg req job"
  obtain j where j: "(if scheduleChanged req then reschedule cfg now ?p else Inr ?p) = Inr j"
    and v: "validateMutableJob (sg_maxTurns cfg) j = None" and job': "job' = j\<lparr>jb_UpdatedAt := now\<rparr>"
    using assms unfolding updatedJob_def Let_def clone_same
    by (auto split: sum.splits option.splits if_splits)
  have "jb_ID j = jb_ID ?p \<and> jb_PendingRun j = jb_PendingRun ?p \<and> jb_Owner j = jb_Owner ?p"
    using j reschedule_keeps [of cfg now ?p j] by (auto split: if_splits)
  then show ?thesis using v by (simp add: job' patchJob_keeps validateMutableJob_def)
qed

context scheduler
begin

lemma fresh_name: "\<exists>k. k \<notin> set (sm_running m)"
  by (metis finite_set ex_new_if_finite infinite_UNIV_listI)

text \<open>An operation that leaves the manager as it is, up to the store's world.\<close>

lemma keeps_same:
  assumes "mgrOK m fl" "sound (sm_store m')" "sm_jobs m' = sm_jobs m" "sm_running m' = sm_running m"
    "jobsIn (sm_store m') = jobsIn (sm_store m)" "runsIn (sm_store m') = runsIn (sm_store m)"
  shows "mgrOK m' fl \<and> (\<exists>k. k \<notin> set (sm_running m) \<and> touches k m m')"
proof -
  have "mgrOK m' fl" using mgrOK_cong [OF assms(3,4)] assms(1) by blast
  moreover have "touches k m m'" for k using assms by (simp add: touches_def)
  ultimately show ?thesis using fresh_name by blast
qed

text \<open>An operation that stores a job that is not running, and on success files it.\<close>

lemma keeps_stored:
  assumes ok: "sound (sm_store m)" "mgrOK m fl" and k: "jb_ID job \<notin> set (sm_running m)" "jb_PendingRun job = None"
    and st: "so_StoreJob S job (sm_store m) = (q, w)"
    and m': "sm_store m' = w" "sm_running m' = sm_running m"
      "sm_jobs m' = sm_jobs m \<or> sm_jobs m' = AList.update (jb_ID job) job (sm_jobs m)"
  shows "mgrOK m' fl \<and> (\<exists>k. k \<notin> set (sm_running m) \<and> touches k m m')"
proof -
  have fl: "jb_ID j \<noteq> jb_ID job" if "fl = Some (j, t)" for j t
    using ok(2) that k(1) mgrOK_flight by metis
  from m'(3) have "mgrOK m' fl"
  proof
    assume "sm_jobs m' = sm_jobs m"
    from mgrOK_cong [OF this m'(2)] ok(2) show ?thesis by blast
  next
    assume "sm_jobs m' = AList.update (jb_ID job) job (sm_jobs m)"
    then show ?thesis using m' k fl mgrOK_distinct [OF ok(2)]
      by (intro mgrOK_put [OF ok(2), of m' "jb_ID job" job]) (simp_all add: distinct_update)
  qed
  moreover have "touches (jb_ID job) m m'" using m' by (intro touches_store [OF ok(1) st]) auto
  ultimately show ?thesis using k by blast
qed

lemma Create_keeps:
  assumes ok: "sound (sm_store m)" "mgrOK m fl" and run: "Create cfg' S now newID owner req m = (r, m')"
  shows "mgrOK m' fl \<and> (\<exists>k. k \<notin> set (sm_running m) \<and> touches k m m')"
proof (cases "\<exists>job. authorize cfg' owner = None \<and> buildJob cfg' now newID owner req = Inr job \<and>
    \<not> sg_maxJobs cfg' \<le> int (length (sm_jobs m)) \<and> map_of (sm_jobs m) (jb_ID job) = None")
  case True
  then obtain job where a: "authorize cfg' owner = None" "buildJob cfg' now newID owner req = Inr job"
    "\<not> sg_maxJobs cfg' \<le> int (length (sm_jobs m))" "map_of (sm_jobs m) (jb_ID job) = None" by blast
  obtain q w where st: "so_StoreJob S job (sm_store m) = (q, w)" by fastforce
  have "jb_PendingRun job = None" by (rule buildJob_Inr [OF a(2)]) simp
  moreover have "jb_ID job \<notin> set (sm_running m)" using a(4) mgrOK_running [OF ok(2)] by blast
  moreover have "sm_store m' = w" "sm_running m' = sm_running m"
    "sm_jobs m' = sm_jobs m \<or> sm_jobs m' = AList.update (jb_ID job) job (sm_jobs m)"
    using run a st by (auto simp: Create_def split: sum.splits)
  ultimately show ?thesis by (intro keeps_stored [OF ok _ _ st])
next
  case False
  then have "m' = m" using run unfolding Create_def by (auto split: option.splits sum.splits if_splits)
  with keeps_same [OF ok(2)] ok(1) show ?thesis by blast
qed

lemma Update_keeps:
  assumes ok: "sound (sm_store m)" "mgrOK m fl" and run: "Update cfg' S now owner i req m = (r, m')"
  shows "mgrOK m' fl \<and> (\<exists>k. k \<notin> set (sm_running m) \<and> touches k m m')"
proof (cases "\<exists>job upd. authorize cfg' owner = None \<and> map_of (sm_jobs m) (trimSpace i) = Some job \<and>
     sameOwner (jb_Owner job) (normalizeOwner owner) \<and> trimSpace i \<notin> set (sm_running m) \<and>
     updatedJob cfg' now req job = Inr upd")
  case True
  then obtain job upd where a: "authorize cfg' owner = None" "map_of (sm_jobs m) (trimSpace i) = Some job"
    "sameOwner (jb_Owner job) (normalizeOwner owner)" "trimSpace i \<notin> set (sm_running m)"
    "updatedJob cfg' now req job = Inr upd" by blast
  obtain q w where st: "so_StoreJob S upd (sm_store m) = (q, w)" by fastforce
  have upd: "jb_ID upd = trimSpace i" "jb_PendingRun upd = jb_PendingRun job"
    using updatedJob_keeps [OF a(5)] mgrOK_id [OF ok(2) a(2)] by auto
  have "jb_PendingRun job = None" using mgrOK_pending [OF ok(2) a(2)] a(4) by (cases "jb_PendingRun job") auto
  moreover have "sm_store m' = w" "sm_running m' = sm_running m"
    "sm_jobs m' = sm_jobs m \<or> sm_jobs m' = AList.update (jb_ID upd) upd (sm_jobs m)"
    using run a st upd(1) by (auto simp: Update_def Let_def split: sum.splits)
  ultimately show ?thesis using a(4) upd by (intro keeps_stored [OF ok _ _ st]) simp_all
next
  case False
  then have "m' = m" using run unfolding Update_def Let_def
    by (auto split: option.splits sum.splits if_splits)
  with keeps_same [OF ok(2)] ok(1) show ?thesis by blast
qed

lemma Delete_keeps:
  assumes ok: "sound (sm_store m)" "mgrOK m fl" and run: "Delete cfg' S owner i m = (e, m')"
  shows "mgrOK m' fl \<and> (\<exists>k. k \<notin> set (sm_running m) \<and> touches k m m')"
proof (cases "\<exists>job. authorize cfg' owner = None \<and> map_of (sm_jobs m) (trimSpace i) = Some job \<and>
     sameOwner (jb_Owner job) (normalizeOwner owner) \<and> trimSpace i \<notin> set (sm_running m)")
  case True
  then obtain job where a: "authorize cfg' owner = None" "map_of (sm_jobs m) (trimSpace i) = Some job"
    "sameOwner (jb_Owner job) (normalizeOwner owner)" "trimSpace i \<notin> set (sm_running m)" by blast
  obtain q w where st: "so_DeleteJob S (trimSpace i) (sm_store m) = (q, w)" by fastforce
  have m': "sm_store m' = w" "sm_running m' = sm_running m"
    "sm_jobs m' = sm_jobs m \<or> sm_jobs m' = AList.delete (trimSpace i) (sm_jobs m)"
    using run a st by (auto simp: Delete_def Let_def split: sum.splits)
  have fl: "jb_ID j \<noteq> trimSpace i" if "fl = Some (j, t)" for j t
    using ok(2) that a(4) mgrOK_flight by metis
  from m'(3) have "mgrOK m' fl"
  proof
    assume "sm_jobs m' = sm_jobs m"
    from mgrOK_cong [OF this m'(2)] ok(2) show ?thesis by blast
  next
    assume "sm_jobs m' = AList.delete (trimSpace i) (sm_jobs m)"
    then show ?thesis using m' a(4) fl mgrOK_distinct [OF ok(2)]
      by (intro mgrOK_drop [OF ok(2), of m' "trimSpace i"]) (auto simp: distinct_delete)
  qed
  moreover have "touches (trimSpace i) m m'" using m' by (intro touches_delete [OF ok(1) st]) auto
  ultimately show ?thesis using a(4) by blast
next
  case False
  then have "m' = m" using run unfolding Delete_def Let_def by (auto split: option.splits if_splits)
  with keeps_same [OF ok(2)] ok(1) show ?thesis by blast
qed

lemma RunHistoryOf_keeps:
  assumes ok: "sound (sm_store m)" "mgrOK m fl" and run: "RunHistoryOf cfg' S owner f m = (h, m')"
  shows "mgrOK m' fl \<and> (\<exists>k. k \<notin> set (sm_running m) \<and> touches k m m')"
proof -
  have "m' = m \<or> (\<exists>q r w. so_QueryRuns S q (sm_store m) = (r, w) \<and> m' = m\<lparr>sm_store := w\<rparr>)"
    using run unfolding RunHistoryOf_def by (auto split: option.splits sum.splits prod.splits)
  then show ?thesis
    using keeps_same [OF ok(2), of m'] ok(1) query_same [OF ok(1)] by fastforce
qed

end

section \<open>Claims\<close>

lemma foldl_pickDue:
  "foldl (pickDue now run) sel js = Some job \<Longrightarrow> sel = Some job \<or> job \<in> set js \<and> due now run job"
proof (induction js arbitrary: sel)
  case (Cons j js)
  then have "pickDue now run sel j = Some job \<or> job \<in> set js \<and> due now run job" by simp
  moreover have "pickDue now run sel j = Some job \<Longrightarrow> sel = Some job \<or> job = j \<and> due now run j"
    by (auto simp: pickDue_def split: if_splits option.splits)
  ultimately show ?case by auto
qed simp

lemma selectDue_Some:
  assumes "mgrOK m fl" "selectDue now m = Some job"
  shows "map_of (sm_jobs m) (jb_ID job) = Some job" "due now (sm_running m) job" "jb_ID job \<noteq> []"
    "jb_PendingRun job = None"
proof -
  have f: "foldl (pickDue now (sm_running m)) None (map snd (sm_jobs m)) = Some job" and i: "jb_ID job \<noteq> []"
    using assms(2) by (auto simp: selectDue_def split: option.splits if_splits)
  from foldl_pickDue [OF f] obtain k where k: "(k, job) \<in> set (sm_jobs m)" and d: "due now (sm_running m) job" by auto
  have at: "map_of (sm_jobs m) k = Some job" using k mgrOK_distinct [OF assms(1)] by simp
  with mgrOK_id [OF assms(1)] show m: "map_of (sm_jobs m) (jb_ID job) = Some job" by metis
  show "due now (sm_running m) job" "jb_ID job \<noteq> []" by (rule d, rule i)
  show "jb_PendingRun job = None"
    using mgrOK_pending [OF assms(1) m] d by (cases "jb_PendingRun job") (auto simp: due_def)
qed

lemma advance_keeps:
  assumes "advance cfg now job = Inr (job', t)"
  shows "jb_ID job' = jb_ID job \<and> jb_PendingRun job' = jb_PendingRun job \<and> jb_Owner job' = jb_Owner job \<and>
    jb_Kind job' = jb_Kind job"
  using assms by (auto simp: advance_def Let_def split: if_splits sum.splits option.splits)

lemma markClaimed_sel [simp]:
  "jb_ID (markClaimed now t job) = jb_ID job" "jb_PendingRun (markClaimed now t job) = jb_PendingRun job"
  "jb_LastRunAt (markClaimed now t job) = now" "jb_LastStatus (markClaimed now t job) = StatusRunning"
  "jb_LastScheduledFor (markClaimed now t job) = t" "jb_NextFire (markClaimed now t job) = jb_NextFire job"
  "jb_Done (markClaimed now t job) = jb_Done job"
  by (simp_all add: markClaimed_def)

lemma mgrOK_claim:
  assumes ok: "mgrOK m None" and jobs: "sm_jobs m' = AList.update (jb_ID job) job (sm_jobs m)"
    and run: "sm_running m' = List.insert (jb_ID job) (sm_running m)" and pend: "jb_PendingRun job = None"
  shows "mgrOK m' (Some (job, t))"
proof (rule mgrOKI)
  show "distinct (map fst (sm_jobs m'))" using mgrOK_distinct [OF ok] by (simp add: jobs distinct_update)
  show "jb_ID j' = k'" if "map_of (sm_jobs m') k' = Some j'" for k' j'
    using that mgrOK_id [OF ok] unfolding jobs by (cases "k' = jb_ID job") simp_all
  show "k' \<in> set (sm_running m')" if "map_of (sm_jobs m') k' = Some j'" "jb_PendingRun j' = Some r" for k' j' r
    using that mgrOK_pending [OF ok] unfolding jobs run by (cases "k' = jb_ID job") simp_all
  show "map_of (sm_jobs m') k' \<noteq> None" if "k' \<in> set (sm_running m')" for k'
    using that mgrOK_running [OF ok] unfolding jobs run by (cases "k' = jb_ID job") simp_all
  show "map_of (sm_jobs m') (jb_ID j) = Some j \<and> jb_ID j \<in> set (sm_running m') \<and> jb_PendingRun j = None"
    if "Some (job, t) = Some (j, t')" for j t'
    using that pend by (simp add: jobs run)
qed

context scheduler
begin

lemma claimNextDue_fails:
  assumes ok: "sound (sm_store m)" "mgrOK m None"
    and run: "claimNextDue cfg S now m = (r, m')" "r = Inr None \<or> isl r"
  shows "mgrOK m' None \<and> (\<exists>k. k \<notin> set (sm_running m) \<and> touches k m m')"
proof (cases "\<exists>sel job t. selectDue now m = Some sel \<and> advance cfg now sel = Inr (job, t)")
  case True
  then obtain sel job t where a: "selectDue now m = Some sel" "advance cfg now sel = Inr (job, t)" by blast
  let ?job = "markClaimed now t job"
  obtain q w where st: "so_StoreJob S ?job (sm_store m) = (q, w)" by fastforce
  have "m' = m\<lparr>sm_store := w\<rparr>" using run a st by (auto simp: claimNextDue_def Let_def split: sum.splits)
  moreover note selectDue_Some [OF ok(2) a(1)] advance_keeps [OF a(2)]
  ultimately show ?thesis by (intro keeps_stored [OF ok _ _ st]) (auto simp: due_def)
next
  case False
  then have "m' = m" using run unfolding claimNextDue_def by (auto split: option.splits sum.splits prod.splits)
  with keeps_same [OF ok(2)] ok(1) show ?thesis by blast
qed

lemma claimNextDue_claims:
  assumes ok: "sound (sm_store m)" "mgrOK m None"
    and run: "claimNextDue cfg S now m = (Inr (Some (job, t)), m')"
  shows "mgrOK m' (Some (job, t)) \<and> jb_ID job \<notin> set (sm_running m) \<and> touches (jb_ID job) m m' \<and>
    jb_LastRunAt job = now \<and> holds (jb_ID job) now m' \<and> jobsIn (sm_store m') (jb_ID job) = Some job \<and>
    (\<exists>sel job0. selectDue now m = Some sel \<and> advance cfg now sel = Inr (job0, t) \<and> job = markClaimed now t job0)"
proof -
  obtain sel where sel: "selectDue now m = Some sel"
    using run by (auto simp: claimNextDue_def split: option.splits)
  obtain job0 t0 where adv: "advance cfg now sel = Inr (job0, t0)"
    using run sel by (auto simp: claimNextDue_def split: sum.splits)
  obtain q w where st: "so_StoreJob S (markClaimed now t0 job0) (sm_store m) = (q, w)" by fastforce
  have res: "q = Inr ()" "t = t0" "job = markClaimed now t0 job0"
    "sm_jobs m' = AList.update (jb_ID job) job (sm_jobs m)" "sm_store m' = w"
    "sm_running m' = List.insert (jb_ID job) (sm_running m)"
    using run sel adv st by (auto simp: claimNextDue_def Let_def split: sum.splits)
  note s = selectDue_Some [OF ok(2) sel] and a = advance_keeps [OF adv]
  have pend: "jb_PendingRun job = None" using s a res(3) by simp
  have i: "jb_ID job \<notin> set (sm_running m)" using s a res(3) by (simp add: due_def)
  have disk: "jobsIn (sm_store m') (jb_ID job) = Some job"
    using store_ok [OF ok(1), of "markClaimed now t0 job0" "()" w] st res by simp
  have "touches (jb_ID job) m m'" using res by (intro touches_store [OF ok(1) st]) auto
  moreover have "holds (jb_ID job) now m'"
    using disk res pend by (auto simp: holds_def carries_def)
  moreover have "jb_LastRunAt job = now" by (simp add: res(3))
  ultimately show ?thesis using mgrOK_claim [OF ok(2) res(4,6) pend] i disk sel adv res(2,3) by blast
qed

lemma finishPendingRun_frame:
  assumes "sound w" "finishPendingRun S job w = (e, job', w')"
  shows "sound w' \<and> runsIn w \<subseteq> runsIn w' \<and> (\<forall>k. k \<noteq> jb_ID job \<longrightarrow> jobsIn w' k = jobsIn w k) \<and>
    jb_ID job' = jb_ID job \<and> jb_Done job' = jb_Done job \<and>
    (jb_PendingRun job = Some run \<longrightarrow>
       (if e = None then run \<in> runsIn w' \<and> (jb_Done job \<or> jb_PendingRun job' = None)
        else run \<in> runsIn w' \<or> jobsIn w' = jobsIn w))"
proof (cases "jb_PendingRun job")
  case (Some run')
  show ?thesis
  proof (cases "jb_PendingNotification job = None")
    case True
    obtain a w1 where ap: "so_AppendRunRecord S run' w = (a, w1)" by fastforce
    have w1: "sound w1" "jobsIn w1 = jobsIn w" "runsIn w \<subseteq> runsIn w1"
      using append_sound [OF assms(1) ap] append_jobs [OF assms(1) ap] runs_grow(3) [OF assms(1) ap] by auto
    show ?thesis
    proof (cases a)
      case (Inl x)
      then have "e \<noteq> None" "job' = job" "w' = w1" using assms(2) Some True ap by (auto simp: finishPendingRun_def)
      then show ?thesis using w1 Some by auto
    next
      case (Inr x)
      have in1: "run' \<in> runsIn w1" using append_ok [OF assms(1) ap [unfolded Inr]] by blast
      let ?job = "job\<lparr>jb_PendingRun := None\<rparr>"
      obtain b w2 where d: "so_DeleteJob S (jb_ID job) w1 = (b, w2)" by fastforce
      obtain c w3 where s: "so_StoreJob S ?job w1 = (c, w3)" by fastforce
      note D = delete_sound [OF w1(1) d] delete_runs [OF w1(1) d] delete_other [OF w1(1) d]
      note T = store_sound [OF w1(1) s] store_runs [OF w1(1) s] store_other [OF w1(1) s]
      show ?thesis
      proof (cases "jb_Done job")
        case dn: True
        then have "w' = w2" "job' = job" using assms(2) Some True ap Inr d
          by (auto simp: finishPendingRun_def split: sum.splits)
        then show ?thesis using D w1 in1 Some dn by auto
      next
        case False
        then have "w' = w3" "job' = ?job" using assms(2) Some True ap Inr s
          by (auto simp: finishPendingRun_def Let_def split: sum.splits)
        then show ?thesis using T w1 in1 Some by auto
      qed
    qed
  qed (use assms Some in \<open>auto simp: finishPendingRun_def\<close>)
qed (use assms in \<open>auto simp: finishPendingRun_def\<close>)

lemma touches_log: "touches k m (m\<lparr>sm_published := p\<rparr>) = touches k m m" "touches k m (m\<lparr>sm_recorded := r\<rparr>) = touches k m m"
  "holds i t (m\<lparr>sm_published := p\<rparr>) = holds i t m" "holds i t (m\<lparr>sm_recorded := r\<rparr>) = holds i t m"
  by (simp_all add: touches_def holds_def)

end

lemma mgrOK_release:
  assumes ok: "mgrOK m None" and jobs: "sm_jobs m' = AList.update i j (sm_jobs m)" and i: "jb_ID j = i"
    and run: "set (sm_running m') = set (sm_running m) - {i}" and pend: "jb_PendingRun j = None"
  shows "mgrOK m' None"
proof (rule mgrOKI)
  show "distinct (map fst (sm_jobs m'))" using mgrOK_distinct [OF ok] by (simp add: jobs distinct_update)
  show "jb_ID j' = k'" if "map_of (sm_jobs m') k' = Some j'" for k' j'
    using that i mgrOK_id [OF ok] unfolding jobs by (cases "k' = i") simp_all
  show "k' \<in> set (sm_running m')" if "map_of (sm_jobs m') k' = Some j'" "jb_PendingRun j' = Some r" for k' j' r
    using that pend mgrOK_pending [OF ok] unfolding jobs run by (cases "k' = i") simp_all
  show "map_of (sm_jobs m') k' \<noteq> None" if "k' \<in> set (sm_running m')" for k'
    using that mgrOK_running [OF ok] unfolding jobs run by (cases "k' = i") simp_all
qed simp

lemma carries_pending: "jb_PendingRun job = Some run \<Longrightarrow> carries u i t job \<longleftrightarrow> rr_ID run = runID u i t"
  by (simp add: carries_def)

context scheduler
begin

text \<open>What a step of the loop on job \<open>i\<close> keeps: the manager's invariant, every other job, and
  every run of job \<open>i\<close> that was accounted for.\<close>

definition safeStep :: "gostr \<Rightarrow> 'w Manager \<Rightarrow> 'w Manager \<Rightarrow> bool" where
  "safeStep i m m' \<longleftrightarrow> mgrOK m' None \<and> touches i m m' \<and> (\<forall>t. holds i t m \<longrightarrow> holds i t m')"

lemma safeStep_trans: "safeStep i m m' \<Longrightarrow> safeStep i m' m'' \<Longrightarrow> safeStep i m m''"
  unfolding safeStep_def using touches_trans by blast

lemma safeStep_log:
  assumes "sound (sm_store m)" "mgrOK m None"
  shows "safeStep i m (m\<lparr>sm_published := p\<rparr>)" "safeStep i m (m\<lparr>sm_recorded := r\<rparr>)"
proof -
  have "mgrOK (m\<lparr>sm_published := p\<rparr>) None" "mgrOK (m\<lparr>sm_recorded := r\<rparr>) None"
    using mgrOK_cong [of "m\<lparr>sm_published := p\<rparr>" m None] mgrOK_cong [of "m\<lparr>sm_recorded := r\<rparr>" m None] assms(2)
    by simp_all
  then show "safeStep i m (m\<lparr>sm_published := p\<rparr>)" "safeStep i m (m\<lparr>sm_recorded := r\<rparr>)"
    using assms(1) by (simp_all add: safeStep_def touches_log touches_refl)
qed

lemma recordOutcome_frame:
  assumes "sound w" "recordOutcome S de run job w = (e, cur, w')" "jb_PendingRun job = Some run"
  shows "sound w' \<and> runsIn w' = runsIn w \<and> (\<forall>k. k \<noteq> jb_ID job \<longrightarrow> jobsIn w' k = jobsIn w k) \<and>
    jb_ID cur = jb_ID job \<and> jb_Done cur = jb_Done job \<and>
    (\<exists>run'. jb_PendingRun cur = Some run' \<and> rr_ID run' = rr_ID run) \<and>
    jobsIn w' (jb_ID job) \<in> {jobsIn w (jb_ID job), Some cur}"
proof (cases "jb_PendingNotification job = None")
  case False
  let ?j = "case de of Some msg \<Rightarrow> job\<lparr>jb_PendingRun := Some (run\<lparr>rr_NotifyError := msg\<rparr>)\<rparr>
     | None \<Rightarrow> if rr_Status run = StatusModelUnavailable then job\<lparr>jb_ModelUnavailableNotified := True\<rparr> else job"
  let ?cur = "?j\<lparr>jb_PendingNotification := None\<rparr>"
  obtain q w1 where st: "so_StoreJob S ?cur w = (q, w1)" by fastforce
  have res: "cur = ?cur" "w' = w1"
    using assms(2) False st unfolding recordOutcome_def Let_def clone_same by (auto split: sum.splits)
  have cur: "jb_ID ?cur = jb_ID job" "jb_Done ?cur = jb_Done job"
    "\<exists>run'. jb_PendingRun ?cur = Some run' \<and> rr_ID run' = rr_ID run"
    using assms(3) by (auto split: option.splits)
  have "jobsIn w1 k = jobsIn w k" if "k \<noteq> jb_ID job" for k
    using store_other [OF assms(1) st] that by (simp only: cur(1))
  moreover have "jobsIn w1 (jb_ID job) \<in> {jobsIn w (jb_ID job), Some ?cur}"
    using store_same [OF assms(1) st] by (simp only: cur(1))
  ultimately show ?thesis
    using store_sound [OF assms(1) st] store_runs [OF assms(1) st] cur unfolding res by blast
qed (use assms in \<open>auto simp: recordOutcome_def\<close>)

lemma archivePending_safe:
  assumes ok: "sound (sm_store m)" "mgrOK m None" and at: "map_of (sm_jobs m) i = Some job"
    and run: "jb_PendingRun job = Some run" and step: "archivePending S i de m = (e, m')"
  shows "safeStep i m m'"
proof -
  let ?u = "sg_uuid cfg"
  have i: "jb_ID job = i" "i \<in> set (sm_running m)" using mgrOK_id [OF ok(2) at] mgrOK_pending [OF ok(2) at run] by auto
  obtain e1 cur w1 where ro: "recordOutcome S de run job (sm_store m) = (e1, cur, w1)" by (metis prod_cases3)
  from recordOutcome_frame [OF ok(1) ro run] obtain run' where R: "sound w1" "runsIn w1 = runsIn (sm_store m)"
    "\<And>k. k \<noteq> i \<Longrightarrow> jobsIn w1 k = jobsIn (sm_store m) k" "jb_ID cur = i" "jb_Done cur = jb_Done job"
    "jb_PendingRun cur = Some run'" "rr_ID run' = rr_ID run" "jobsIn w1 i \<in> {jobsIn (sm_store m) i, Some cur}"
    unfolding i by auto
  obtain e2 cur' w2 where fi: "finishPendingRun S cur w1 = (e2, cur', w2)" by (metis prod_cases3)
  note F = finishPendingRun_frame [OF R(1) fi, of run', unfolded R(4)]
  have disk1: "\<exists>d. jobsIn w1 i = Some d \<and> carries ?u i t d" if "jobsIn (sm_store m) i = Some d" "carries ?u i t d"
      "carries ?u i t job" for t d
    using that R(8) carries_pending [OF R(6)] carries_pending [OF run] R(7) by auto
  show ?thesis
  proof (cases e1)
    case (Some x)
    then have m': "m' = m\<lparr>sm_store := w1\<rparr>" using step at run ro by (auto simp: archivePending_def)
    have "mgrOK m' None" using mgrOK_cong [of m' m None] ok(2) by (simp add: m')
    moreover have "touches i m m'" using R m' by (simp add: touches_def)
    moreover have "holds i t m'" if "holds i t m" for t
      using that disk1 i at R(2) unfolding holds_def m' by auto
    ultimately show ?thesis by (simp add: safeStep_def)
  next
    case None
    show ?thesis
    proof (cases e2)
      case (Some x)
      then have m': "m' = m\<lparr>sm_store := w2\<rparr>" using step at run ro None fi by (auto simp: archivePending_def)
      have "mgrOK m' None" using mgrOK_cong [of m' m None] ok(2) by (simp add: m')
      moreover have "touches i m m'" using R F m' by (simp add: touches_def)
      moreover have "holds i t m'" if h: "holds i t m" for t
      proof (cases "archivedRun ?u (runsIn w2) i t")
        case False
        have "runsIn (sm_store m) \<subseteq> runsIn w2" using F R(2) by simp
        with False have "\<not> archivedRun ?u (runsIn (sm_store m)) i t" using archivedRun_mono by blast
        with h at have c: "carries ?u i t job" "\<exists>d. jobsIn (sm_store m) i = Some d \<and> carries ?u i t d"
          by (auto simp: holds_def)
        have "run' \<notin> runsIn w2" using False c(1) carries_pending [OF run] R(7) by (auto simp: archivedRun_def)
        then have "jobsIn w2 = jobsIn w1" using F Some R(6) by auto
        then show ?thesis using c disk1 at i(2) unfolding holds_def m' by auto
      qed (simp add: holds_def m')
      ultimately show ?thesis by (simp add: safeStep_def)
    next
      case N2: None
      let ?m = "if jb_Done cur' then m\<lparr>sm_jobs := AList.delete i (sm_jobs m), sm_store := w2\<rparr>
                else m\<lparr>sm_jobs := AList.update i cur' (sm_jobs m), sm_store := w2\<rparr>"
      have m': "m' = stopRunning i ?m" using step at run ro None fi N2 by (auto simp: archivePending_def)
      have F': "run' \<in> runsIn w2" "jb_Done cur' \<or> jb_PendingRun cur' = None" "jb_ID cur' = i" "sound w2"
        "runsIn w1 \<subseteq> runsIn w2" "\<And>k. k \<noteq> i \<Longrightarrow> jobsIn w2 k = jobsIn w1 k"
        using F N2 R(6) by auto
      have "mgrOK m' None"
      proof (cases "jb_Done cur'")
        case True
        then show ?thesis using mgrOK_distinct [OF ok(2)]
          by (intro mgrOK_drop [OF ok(2), of m' i]) (simp_all add: m' distinct_delete)
      next
        case False
        then show ?thesis using F' by (intro mgrOK_release [OF ok(2), of m' i cur']) (simp_all add: m')
      qed
      moreover have "touches i m m'" using R F' by (simp add: touches_def m')
      moreover have "holds i t m'" if h: "holds i t m" for t
      proof -
        have "archivedRun ?u (runsIn w2) i t"
        proof (cases "archivedRun ?u (runsIn (sm_store m)) i t")
          case True
          then show ?thesis using F'(5) R(2) archivedRun_mono by blast
        next
          case False
          with h at have "carries ?u i t job" by (auto simp: holds_def)
          then have "rr_ID run' = runID ?u i t" using carries_pending [OF run] R(7) by simp
          then show ?thesis using F'(1) unfolding archivedRun_def by blast
        qed
        then show ?thesis by (simp add: holds_def m')
      qed
      ultimately show ?thesis by (simp add: safeStep_def)
    qed
  qed
qed

end

lemma finishedJob_keeps:
  assumes "finishedJob cfg job t ex current = Inr j"
  shows "jb_ID j = jb_ID current \<and> jb_Kind j = jb_Kind current \<and>
    jb_PendingRun j = Some (finishedRecord cfg job t ex) \<and> jb_LastStatus j = rr_Status (finishedRecord cfg job t ex)"
proof -
  have next_keeps: "jb_ID b = jb_ID a \<and> jb_Kind b = jb_Kind a \<and> jb_LastStatus b = jb_LastStatus a"
    if "nextAfterRun cfg f st a = Inr b" for f st a b
    using that by (auto simp: nextAfterRun_def Let_def split: if_splits sum.splits option.splits)
  show ?thesis
    using assms unfolding finishedJob_def Let_def clone_same
    by (auto dest!: next_keeps split: sum.splits option.splits)
qed

context scheduler
begin

text \<open>Storing a new version of a running job that carries the same runs, and on success filing it.\<close>

lemma rewrite_safe:
  assumes ok: "sound (sm_store m)" "mgrOK m None" and at: "map_of (sm_jobs m) i = Some job"
    and i: "i \<in> set (sm_running m)" "jb_ID new = i"
    and st: "so_StoreJob S new (sm_store m) = (q, w)"
    and m': "sm_store m' = w" "sm_running m' = sm_running m"
      "sm_jobs m' = sm_jobs m \<or> q = Inr () \<and> sm_jobs m' = AList.update i new (sm_jobs m)"
    and same: "\<And>t. holds i t m \<Longrightarrow> carries (sg_uuid cfg) i t job \<Longrightarrow> carries (sg_uuid cfg) i t new"
  shows "safeStep i m m'"
proof -
  have "mgrOK m' None"
  proof (cases "sm_jobs m' = sm_jobs m")
    case True
    then show ?thesis using mgrOK_cong [OF True m'(2)] ok(2) by blast
  next
    case False
    then have "sm_jobs m' = AList.update i new (sm_jobs m)" using m'(3) by blast
    then show ?thesis using m' i mgrOK_distinct [OF ok(2)]
      by (intro mgrOK_put [OF ok(2), of m' i new]) (simp_all add: distinct_update)
  qed
  moreover have "touches i m m'" using m' i by (intro touches_store [OF ok(1) st]) auto
  moreover have "holds i t m'" if h: "holds i t m" for t
  proof (cases "archivedRun (sg_uuid cfg) (runsIn (sm_store m)) i t")
    case True
    then show ?thesis using store_runs [OF ok(1) st] by (simp add: holds_def m')
  next
    case False
    with h at obtain d where c: "carries (sg_uuid cfg) i t job" "jobsIn (sm_store m) i = Some d" "carries (sg_uuid cfg) i t d"
      by (auto simp: holds_def)
    note new = same [OF h c(1)]
    from store_carries [OF ok(1) st, of "sg_uuid cfg" t d] c new i(2)
    have "\<exists>d'. jobsIn w i = Some d' \<and> carries (sg_uuid cfg) i t d'" by simp
    moreover have "\<exists>j. map_of (sm_jobs m') i = Some j \<and> carries (sg_uuid cfg) i t j"
      using m'(3) at c(1) new by auto
    ultimately show ?thesis using i(1) m'(1,2) by (auto simp: holds_def)
  qed
  ultimately show ?thesis by (simp add: safeStep_def)
qed

lemma safeStep_refl: "sound (sm_store m) \<Longrightarrow> mgrOK m None \<Longrightarrow> safeStep i m m"
  by (simp add: safeStep_def touches_refl)

lemma safeStep_sound: "safeStep i m m' \<Longrightarrow> sound (sm_store m') \<and> mgrOK m' None"
  by (simp add: safeStep_def touches_def)

lemma markNotificationDelivered_safe:
  assumes ok: "sound (sm_store m)" "mgrOK m None" and at: "map_of (sm_jobs m) i = Some job"
    and run: "jb_PendingRun job = Some run" and step: "markNotificationDelivered S i u m = (r, m')"
  shows "safeStep i m m' \<and> (\<exists>job'. map_of (sm_jobs m') i = Some job' \<and> jb_PendingRun job' = Some run) \<and>
    (\<forall>j. r = Inr j \<longrightarrow> jb_PendingRun j = Some run)"
proof (cases "\<exists>n. jb_PendingNotification job = Some n \<and> nt_DeliveredAt n = 0")
  case True
  then obtain n where n: "jb_PendingNotification job = Some n" "nt_DeliveredAt n = 0" by blast
  let ?cur = "job\<lparr>jb_PendingNotification := Some (n\<lparr>nt_DeliveredAt := u\<rparr>)\<rparr>"
  obtain q w where st: "so_StoreJob S ?cur (sm_store m) = (q, w)" by fastforce
  have m': "sm_store m' = w" "sm_running m' = sm_running m"
    "sm_jobs m' = sm_jobs m \<or> q = Inr () \<and> sm_jobs m' = AList.update i ?cur (sm_jobs m)"
    and r: "\<forall>j. r = Inr j \<longrightarrow> jb_PendingRun j = Some run"
    using step at run n st by (auto simp: markNotificationDelivered_def Let_def split: sum.splits)
  have "safeStep i m m'"
    using mgrOK_id [OF ok(2) at] mgrOK_pending [OF ok(2) at run] run m'
    by (intro rewrite_safe [OF ok at _ _ st]) (auto simp: carries_def)
  moreover have "\<exists>job'. map_of (sm_jobs m') i = Some job' \<and> jb_PendingRun job' = Some run"
    using m'(3) at run by auto
  ultimately show ?thesis using r by blast
next
  case False
  then have "m' = m" "\<forall>j. r = Inr j \<longrightarrow> j = job"
    using step at run by (auto simp: markNotificationDelivered_def split: option.splits if_splits)
  then show ?thesis using safeStep_refl [OF ok] at run by auto
qed

lemma recordAndArchive_safe:
  assumes ok: "sound (sm_store m)" "mgrOK m None" and at: "map_of (sm_jobs m) i = Some job"
    and run: "jb_PendingRun job = Some run" and step: "recordAndArchive S i d j m = (e, m')"
  shows "safeStep i m m'"
proof (cases "\<exists>r n. jb_PendingRun j = Some r \<and> jb_PendingNotification j = Some n \<and> nt_DeliveredAt n \<noteq> 0")
  case True
  then obtain r n where rn: "jb_PendingRun j = Some r" "jb_PendingNotification j = Some n" "nt_DeliveredAt n \<noteq> 0" by blast
  let ?m = "m\<lparr>sm_recorded := sm_recorded m @ [(delivered j r n, dl_recordErr d)]\<rparr>"
  have log: "safeStep i m ?m" by (rule safeStep_log(2) [OF ok])
  show ?thesis
  proof (cases "dl_recordErr d")
    case None
    then have "archivePending S i None ?m = (e, m')" using step rn by (simp add: recordAndArchive_def Let_def)
    then have "safeStep i ?m m'"
      using safeStep_sound [OF log] at run by (intro archivePending_safe [of ?m i job run]) auto
    then show ?thesis by (rule safeStep_trans [OF log])
  next
    case (Some x)
    then have "m' = ?m" using step rn by (simp add: recordAndArchive_def Let_def)
    with log show ?thesis by simp
  qed
next
  case False
  then have "m' = m" using step by (auto simp: recordAndArchive_def split: option.splits if_splits)
  then show ?thesis using safeStep_refl [OF ok] by simp
qed

lemma finalizePendingRun_safe:
  assumes ok: "sound (sm_store m)" "mgrOK m None" and at: "map_of (sm_jobs m) i = Some job"
    and run: "jb_PendingRun job = Some run" and step: "finalizePendingRun S i d m = (e, m')"
  shows "safeStep i m m'"
proof (cases "jb_PendingNotification job")
  case None
  then have "archivePending S i None m = (e, m')" using step at run by (simp add: finalizePendingRun_def)
  then show ?thesis by (rule archivePending_safe [OF ok at run])
next
  case (Some n)
  show ?thesis
  proof (cases "nt_DeliveredAt n = 0")
    case False
    then have "recordAndArchive S i d job m = (e, m')" using step at run Some by (simp add: finalizePendingRun_def)
    then show ?thesis by (rule recordAndArchive_safe [OF ok at run])
  next
    case True
    let ?m = "m\<lparr>sm_published := sm_published m @ [(outbound n, dl_publishErr d)]\<rparr>"
    have log: "safeStep i m ?m" by (rule safeStep_log(1) [OF ok])
    have okm: "sound (sm_store ?m)" "mgrOK ?m None" and at': "map_of (sm_jobs ?m) i = Some job"
      using safeStep_sound [OF log] at by auto
    show ?thesis
    proof (cases "dl_publishErr d")
      case N: (Some msg)
      show ?thesis
      proof (cases "dl_ctxAfterPublish d")
        case T: True
        then have "m' = ?m" using step at run Some True N by (simp add: finalizePendingRun_def Let_def)
        with log show ?thesis by simp
      next
        case False
        then have "archivePending S i (Some msg) ?m = (e, m')"
          using step at run Some True N by (simp add: finalizePendingRun_def Let_def)
        from archivePending_safe [OF okm at' run this] show ?thesis by (rule safeStep_trans [OF log])
      qed
    next
      case None
      obtain r m1 where mk: "markNotificationDelivered S i (dl_deliveredAt d) ?m = (r, m1)" by fastforce
      from markNotificationDelivered_safe [OF okm at' run mk] obtain job1 where
        s1: "safeStep i ?m m1" and j1: "map_of (sm_jobs m1) i = Some job1" "jb_PendingRun job1 = Some run" by blast
      have "safeStep i m1 m'"
      proof (cases r)
        case (Inl x)
        then have "m' = m1" using step at run Some True None mk by (simp add: finalizePendingRun_def Let_def)
        then show ?thesis using safeStep_refl safeStep_sound [OF s1] by simp
      next
        case (Inr jr)
        then have "recordAndArchive S i d jr m1 = (e, m')"
          using step at run Some True None mk by (simp add: finalizePendingRun_def Let_def)
        then show ?thesis using safeStep_sound [OF s1] j1 by (intro recordAndArchive_safe [of m1 i job1 run]) auto
      qed
      then show ?thesis by (rule safeStep_trans [OF safeStep_trans [OF log s1]])
    qed
  qed
qed

lemma executeClaimed_safe:
  assumes ok: "sound (sm_store m)" "mgrOK m (Some (job, t))" and step: "executeClaimed cfg S job t ex d m = (e, m')"
  shows "safeStep (jb_ID job) m m'"
proof -
  note fl = mgrOK_flight [OF ok(2)] and ok0 = mgrOK_weaken [OF ok(2)]
  show ?thesis
  proof (cases "finishedJob cfg job t ex job")
    case (Inl x)
    then have "m' = m" using step fl by (simp add: executeClaimed_def completeRun_def)
    then show ?thesis using safeStep_refl [OF ok(1) ok0] by simp
  next
    case (Inr cur)
    note cur = finishedJob_keeps [OF Inr]
    obtain q w where st: "so_StoreJob S cur (sm_store m) = (q, w)" by fastforce
    have carry: "carries (sg_uuid cfg) (jb_ID job) t' cur" if "carries (sg_uuid cfg) (jb_ID job) t' job" for t'
      using that fl cur by (simp add: carries_def finishedRecord_def Let_def)
    show ?thesis
    proof (cases q)
      case (Inl y)
      then have m': "m' = m\<lparr>sm_store := w\<rparr>" using step fl Inr st by (simp add: executeClaimed_def completeRun_def)
      show ?thesis using fl cur carry by (intro rewrite_safe [OF ok(1) ok0 _ _ _ st, where job = job]) (auto simp: m')
    next
      case q: (Inr y)
      let ?m = "m\<lparr>sm_jobs := AList.update (jb_ID job) cur (sm_jobs m), sm_store := w\<rparr>"
      have fin: "finalizePendingRun S (jb_ID job) d ?m = (e, m')"
        using step fl Inr st q by (simp add: executeClaimed_def completeRun_def)
      have s: "safeStep (jb_ID job) m ?m"
        using fl cur carry q by (intro rewrite_safe [OF ok(1) ok0 _ _ _ st, where job = job]) auto
      have "map_of (sm_jobs ?m) (jb_ID job) = Some cur" "jb_PendingRun cur = Some (finishedRecord cfg job t ex)"
        using cur by auto
      then have "safeStep (jb_ID job) ?m m'"
        using safeStep_sound [OF s] fin by (intro finalizePendingRun_safe) auto
      then show ?thesis by (rule safeStep_trans [OF s])
    qed
  qed
qed

end

section \<open>Recovery\<close>

lemma normalizeStoredToolLists_keeps:
  assumes "normalizeStoredToolLists stored = (n, job)"
  shows "jb_ID job = jb_ID stored" "carries u i t job \<longleftrightarrow> carries u i t stored" "\<not> n \<Longrightarrow> job = stored"
  using assms by (auto simp: normalizeStoredToolLists_def carries_def Let_def split: option.splits if_splits)

lemma mgrOK_add:
  assumes ok: "mgrOK m None" and k: "jb_ID job = k" and jobs: "sm_jobs m' = AList.update k job (sm_jobs m)"
    and run: "sm_running m' = (if jb_PendingRun job = None then sm_running m else List.insert k (sm_running m))"
  shows "mgrOK m' None"
proof (rule mgrOKI)
  show "distinct (map fst (sm_jobs m'))" using mgrOK_distinct [OF ok] by (simp add: jobs distinct_update)
  show "jb_ID j' = k'" if "map_of (sm_jobs m') k' = Some j'" for k' j'
    using that k mgrOK_id [OF ok] unfolding jobs by (cases "k' = k") simp_all
  show "k' \<in> set (sm_running m')" if "map_of (sm_jobs m') k' = Some j'" "jb_PendingRun j' = Some r" for k' j' r
    using that mgrOK_pending [OF ok] unfolding jobs run by (cases "k' = k") auto
  show "map_of (sm_jobs m') k' \<noteq> None" if "k' \<in> set (sm_running m')" for k'
    using that mgrOK_running [OF ok] unfolding jobs run by (cases "k' = k") (auto split: if_splits)
qed simp

context scheduler
begin

text \<open>What a store still accounts for, of all it accounted for; runs start at a time that is not
  the zero time.\<close>

definition keepsRuns :: "'w \<Rightarrow> 'w \<Rightarrow> bool" where
  "keepsRuns w w' \<longleftrightarrow>
     (\<forall>i t. t \<noteq> 0 \<longrightarrow> accounted (sg_uuid cfg) (jobsIn w) (runsIn w) i t \<longrightarrow>
        accounted (sg_uuid cfg) (jobsIn w') (runsIn w') i t)"

lemma keepsRuns_trans: "keepsRuns w w' \<Longrightarrow> keepsRuns w' w'' \<Longrightarrow> keepsRuns w w''"
  unfolding keepsRuns_def by blast

lemma keepsRuns_refl: "keepsRuns w w"
  by (simp add: keepsRuns_def)

lemma keepsRunsI:
  assumes "runsIn w \<subseteq> runsIn w'" "\<And>i. i \<noteq> k \<Longrightarrow> jobsIn w' i = jobsIn w i"
    and "\<And>t d. t \<noteq> 0 \<Longrightarrow> jobsIn w k = Some d \<Longrightarrow> carries (sg_uuid cfg) k t d \<Longrightarrow>
           archivedRun (sg_uuid cfg) (runsIn w') k t \<or> (\<exists>d'. jobsIn w' k = Some d' \<and> carries (sg_uuid cfg) k t d')"
  shows "keepsRuns w w'"
  unfolding keepsRuns_def
proof (intro allI impI)
  fix i t assume t: "t \<noteq> (0 :: time)" and a: "accounted (sg_uuid cfg) (jobsIn w) (runsIn w) i t"
  show "accounted (sg_uuid cfg) (jobsIn w') (runsIn w') i t"
  proof (cases "archivedRun (sg_uuid cfg) (runsIn w) i t")
    case True
    then show ?thesis using archivedRun_mono [OF _ assms(1)] by (simp add: accounted_def)
  next
    case False
    with a obtain d where d: "jobsIn w i = Some d" "carries (sg_uuid cfg) i t d"
      by (auto simp: accounted_def split: option.splits)
    then show ?thesis using assms(2) [of i] assms(3) [OF t] by (cases "i = k") (auto simp: accounted_def)
  qed
qed

text \<open>Archiving a pending run, as a finished or recovered job has it.\<close>

lemma finishPendingRun_recovers:
  assumes "sound w" "finishPendingRun S job w = (e, job', w')" "jb_PendingRun job = Some run"
    "jobsIn w (jb_ID job) = Some job"
  shows "sound w'" "runsIn w \<subseteq> runsIn w'" "keepsRuns w w'" "\<And>k. k \<noteq> jb_ID job \<Longrightarrow> jobsIn w' k = jobsIn w k"
    "jb_ID job' = jb_ID job" "e = None \<Longrightarrow> jb_Done job' \<or> jb_PendingRun job' = None"
    "e = None \<Longrightarrow> carries (sg_uuid cfg) (jb_ID job) t job \<Longrightarrow> archivedRun (sg_uuid cfg) (runsIn w') (jb_ID job) t"
proof -
  note F = finishPendingRun_frame [OF assms(1,2), of run]
  show "sound w'" "runsIn w \<subseteq> runsIn w'" "jb_ID job' = jb_ID job" "\<And>k. k \<noteq> jb_ID job \<Longrightarrow> jobsIn w' k = jobsIn w k"
    "e = None \<Longrightarrow> jb_Done job' \<or> jb_PendingRun job' = None"
    using F assms(3) by auto
  have arch: "archivedRun (sg_uuid cfg) (runsIn w') (jb_ID job) t" if "run \<in> runsIn w'" "carries (sg_uuid cfg) (jb_ID job) t job" for t
    using that carries_pending [OF assms(3)] by (auto simp: archivedRun_def)
  then show "e = None \<Longrightarrow> carries (sg_uuid cfg) (jb_ID job) t job \<Longrightarrow> archivedRun (sg_uuid cfg) (runsIn w') (jb_ID job) t"
    using F assms(3) by simp
  show "keepsRuns w w'"
  proof (rule keepsRunsI [of _ _ "jb_ID job"])
    fix t d assume d: "jobsIn w (jb_ID job) = Some d" "carries (sg_uuid cfg) (jb_ID job) t d"
    then have c: "carries (sg_uuid cfg) (jb_ID job) t job" using assms(4) by simp
    have "run \<in> runsIn w' \<or> jobsIn w' = jobsIn w" using F assms(3) by (auto split: if_splits)
    then show "archivedRun (sg_uuid cfg) (runsIn w') (jb_ID job) t \<or>
        (\<exists>d'. jobsIn w' (jb_ID job) = Some d' \<and> carries (sg_uuid cfg) (jb_ID job) t d')"
      using arch c assms(4) by auto
  qed (use F in auto)
qed

lemma interruptJob_recovers:
  assumes "sound w" "interruptJob cfg S now job w = (e, job', w')" "jb_PendingRun job = None"
    "jobsIn w (jb_ID job) = Some job"
  shows "sound w' \<and> runsIn w \<subseteq> runsIn w' \<and> keepsRuns w w' \<and> (\<forall>k. k \<noteq> jb_ID job \<longrightarrow> jobsIn w' k = jobsIn w k) \<and>
    (e = None \<longrightarrow> jb_ID job' = jb_ID job \<and> (jb_Done job' \<or> jb_PendingRun job' = None) \<and>
     (\<forall>t. t \<noteq> 0 \<longrightarrow> carries (sg_uuid cfg) (jb_ID job) t job \<longrightarrow> archivedRun (sg_uuid cfg) (runsIn w') (jb_ID job) t))"
proof -
  let ?run = "interruptedRecord (sg_uuid cfg) (markInterrupted job now) now"
  let ?job = "(markInterrupted job now)\<lparr>jb_PendingRun := Some ?run\<rparr>"
  obtain q w1 where st: "so_StoreJob S ?job w = (q, w1)" by fastforce
  have i: "jb_ID ?job = jb_ID job" by (simp add: markInterrupted_def)
  have same: "carries (sg_uuid cfg) (jb_ID job) t ?job" if "t \<noteq> 0" "carries (sg_uuid cfg) (jb_ID job) t job" for t
    using that assms(3) by (simp add: carries_def interruptedRecord_def markInterrupted_def Let_def)
  have w1: "sound w1" "runsIn w1 = runsIn w" "\<forall>k. k \<noteq> jb_ID job \<longrightarrow> jobsIn w1 k = jobsIn w k"
    using store_sound [OF assms(1) st] store_runs [OF assms(1) st] store_other [OF assms(1) st] by (auto simp: i)
  have keep1: "keepsRuns w w1"
  proof (rule keepsRunsI [of _ _ "jb_ID job"])
    fix t d assume t: "t \<noteq> (0 :: time)" and d: "jobsIn w (jb_ID job) = Some d" "carries (sg_uuid cfg) (jb_ID job) t d"
    then have "carries (sg_uuid cfg) (jb_ID job) t ?job" using same assms(4) by simp
    from store_carries [OF assms(1) st, unfolded i, OF this d] show "archivedRun (sg_uuid cfg) (runsIn w1) (jb_ID job) t \<or>
        (\<exists>d'. jobsIn w1 (jb_ID job) = Some d' \<and> carries (sg_uuid cfg) (jb_ID job) t d')"
      by (rule disjI2)
  qed (use w1 in auto)
  show ?thesis
  proof (cases q)
    case (Inl x)
    then have "e \<noteq> None" "w' = w1" using assms(2) st by (auto simp: interruptJob_def Let_def)
    then show ?thesis using w1 keep1 by auto
  next
    case (Inr x)
    then have fin: "finishPendingRun S ?job w1 = (e, job', w')" using assms(2) st by (simp add: interruptJob_def Let_def)
    have at: "jobsIn w1 (jb_ID ?job) = Some ?job" using store_ok [OF assms(1) st [unfolded Inr]] by simp
    note F = finishPendingRun_recovers [OF w1(1) fin _ at, of ?run, unfolded i]
    show ?thesis using F w1 keepsRuns_trans [OF keep1] same by auto
  qed
qed

end

context scheduler
begin

text \<open>What loading one stored job establishes: the manager's invariant, nothing of other jobs, no run
  lost, and on success every run of the job in the archive or held by the manager.\<close>

definition loadsJob :: "gostr \<Rightarrow> 'w Manager \<Rightarrow> sched_error option \<Rightarrow> 'w Manager \<Rightarrow> bool" where
  "loadsJob k m e m' \<longleftrightarrow>
     mgrOK m' None \<and> touches k m m' \<and> keepsRuns (sm_store m) (sm_store m') \<and>
     (\<forall>i. i \<noteq> k \<longrightarrow> jobsIn (sm_store m') i = jobsIn (sm_store m) i) \<and>
     (e = None \<longrightarrow> (\<forall>t. t \<noteq> 0 \<longrightarrow>
        accounted (sg_uuid cfg) (jobsIn (sm_store m)) (runsIn (sm_store m)) k t \<longrightarrow> holds k t m'))"

lemma loadsJobI:
  assumes "mgrOK m' None" "sound (sm_store m')" "runsIn (sm_store m) \<subseteq> runsIn (sm_store m')"
    "keepsRuns (sm_store m) (sm_store m')" "\<And>i. i \<noteq> k \<Longrightarrow> jobsIn (sm_store m') i = jobsIn (sm_store m) i"
    "\<And>i. i \<noteq> k \<Longrightarrow> map_of (sm_jobs m') i = map_of (sm_jobs m) i"
    "\<And>i. i \<noteq> k \<Longrightarrow> i \<in> set (sm_running m') \<longleftrightarrow> i \<in> set (sm_running m)"
    "jobsIn (sm_store m) k = Some job"
    "\<And>t. e = None \<Longrightarrow> t \<noteq> 0 \<Longrightarrow> carries (sg_uuid cfg) k t job \<Longrightarrow> holds k t m'"
  shows "loadsJob k m e m'"
proof -
  have "holds k t m'" if "archivedRun (sg_uuid cfg) (runsIn (sm_store m)) k t" for t
    using archivedRun_mono [OF that assms(3)] by (simp add: holds_def)
  moreover have "touches k m m'" using assms(2,3,5-7) by (simp add: touches_def)
  ultimately show ?thesis using assms by (auto simp: loadsJob_def accounted_def)
qed

lemma archived_holds: "archivedRun (sg_uuid cfg) (runsIn (sm_store m)) i t \<Longrightarrow> holds i t m"
  by (simp add: holds_def)

text \<open>The two shapes of a recovery that talks to the store: it fails, or it leaves a job without a
  pending run that is filed unless it is done.\<close>

lemma recovered_loadsJob:
  assumes ok: "mgrOK m None" and k: "jb_ID job = k" "jobsIn (sm_store m) k = Some job"
    and w: "sound w" "runsIn (sm_store m) \<subseteq> runsIn w" "keepsRuns (sm_store m) w"
      "\<And>i. i \<noteq> k \<Longrightarrow> jobsIn w i = jobsIn (sm_store m) i"
    and m': "sm_store m' = w" "sm_running m' = sm_running m"
      "sm_jobs m' = sm_jobs m \<or> sm_jobs m' = AList.update k job' (sm_jobs m) \<and> jb_ID job' = k \<and> jb_PendingRun job' = None"
    and arch: "\<And>t. e = None \<Longrightarrow> t \<noteq> 0 \<Longrightarrow> carries (sg_uuid cfg) k t job \<Longrightarrow> archivedRun (sg_uuid cfg) (runsIn w) k t"
  shows "loadsJob k m e m'"
proof (rule loadsJobI)
  from m'(3) show "mgrOK m' None"
  proof
    assume "sm_jobs m' = sm_jobs m"
    from mgrOK_cong [OF this m'(2)] ok show ?thesis by blast
  next
    assume a: "sm_jobs m' = AList.update k job' (sm_jobs m) \<and> jb_ID job' = k \<and> jb_PendingRun job' = None"
    then show ?thesis using m'(2) by (intro mgrOK_add [OF ok, of job' k m']) simp_all
  qed
  show "holds k t m'" if "e = None" "t \<noteq> 0" "carries (sg_uuid cfg) k t job" for t
    using arch [OF that] archived_holds m'(1) by simp
qed (use w m' k in auto)

lemma recoverJob_loads:
  assumes ok: "sound (sm_store m)" "mgrOK m None" and k: "jb_ID job = k" "jobsIn (sm_store m) k = Some job"
    and step: "recoverJob cfg S now job m = (e, m')"
  shows "loadsJob k m e m'"
proof (cases "jb_PendingRun job")
  case (Some run)
  show ?thesis
  proof (cases "jb_PendingNotification job")
    case N: (Some n)
    have m': "e = None" "m' = (addJob job m)\<lparr>sm_running := List.insert k (sm_running m)\<rparr>"
      using step Some N k by (auto simp: recoverJob_def)
    have "mgrOK m' None" using k Some by (intro mgrOK_add [OF ok(2) k(1)]) (simp_all add: m' addJob_def)
    then show ?thesis using k ok(1)
      by (intro loadsJobI [OF _ _ _ _ _ _ _ k(2)]) (auto simp: m' addJob_def keepsRuns_refl holds_def)
  next
    case None
    obtain e1 job1 w where fin: "finishPendingRun S job (sm_store m) = (e1, job1, w)" by (metis prod_cases3)
    have m': "e = e1" "sm_store m' = w" "sm_running m' = sm_running m"
      "sm_jobs m' = sm_jobs m \<or> e1 = None \<and> \<not> jb_Done job1 \<and> sm_jobs m' = AList.update (jb_ID job1) job1 (sm_jobs m)"
      using step Some None fin by (auto simp: recoverJob_def addJob_def split: option.splits if_splits)
    note F = finishPendingRun_recovers [OF ok(1) fin Some, unfolded k(1), OF k(2)]
    show ?thesis using F m' by (intro recovered_loadsJob [OF ok(2) k, of w m' job1]) auto
  qed
next
  case None
  obtain e1 job1 w where int: "interruptJob cfg S now job (sm_store m) = (e1, job1, w)" by (metis prod_cases3)
  note F = interruptJob_recovers [OF ok(1) int None, unfolded k(1), OF k(2)]
  show ?thesis
  proof (cases "jb_LastStatus job = StatusRunning")
    case True
    have m': "e = e1" "sm_store m' = w" "sm_running m' = sm_running m"
      "sm_jobs m' = sm_jobs m \<or> e1 = None \<and> \<not> jb_Done job \<and> sm_jobs m' = AList.update (jb_ID job1) job1 (sm_jobs m)"
      using step None True int by (auto simp: recoverJob_def addJob_def split: option.splits if_splits)
    have dn: "jb_Done job1 = jb_Done job" if "e1 = None"
      using that int by (auto simp: interruptJob_def finishPendingRun_def markInterrupted_def Let_def
          split: sum.splits prod.splits option.splits if_splits)
    show ?thesis using F m' dn by (intro recovered_loadsJob [OF ok(2) k, of w m' job1]) auto
  next
    case False
    then have "\<not> carries (sg_uuid cfg) k t job" for t using None by (simp add: carries_def)
    moreover have "m' = m \<or> sm_store m' = sm_store m \<and> sm_running m' = sm_running m \<and> sm_jobs m' = AList.update k job (sm_jobs m)"
      using step None False k by (auto simp: recoverJob_def addJob_def split: if_splits)
    ultimately show ?thesis using ok None k
      by (intro recovered_loadsJob [OF ok(2) k, of "sm_store m" m' job]) (auto simp: keepsRuns_refl)
  qed
qed

end

lemma nextPendingNotification_Some:
  assumes "mgrOK m fl" "nextPendingNotification m = Some i"
  obtains job run n where "map_of (sm_jobs m) i = Some job" "jb_PendingRun job = Some run" "jb_PendingNotification job = Some n"
proof -
  let ?f = "\<lambda>sel (i, job).
    if jb_PendingRun job \<noteq> None \<and> jb_PendingNotification job \<noteq> None \<and> (sel = [] \<or> i < sel) then i else sel"
  have fold: "foldl ?f s js = s \<or> (\<exists>job. (foldl ?f s js, job) \<in> set js \<and> jb_PendingRun job \<noteq> None \<and> jb_PendingNotification job \<noteq> None)" for s :: gostr and js
  proof (induction js arbitrary: s)
    case (Cons p js)
    obtain k job where p: "p = (k, job)" by fastforce
    from Cons [of "?f s p"] show ?case by (auto simp: p split: if_splits)
  qed simp
  have "i = foldl ?f [] (sm_jobs m)" "i \<noteq> []"
    using assms(2) by (auto simp: nextPendingNotification_def Let_def split: if_splits)
  with fold [of "[]" "sm_jobs m"] obtain job where j: "(i, job) \<in> set (sm_jobs m)" "jb_PendingRun job \<noteq> None" "jb_PendingNotification job \<noteq> None" by auto
  with mgrOK_distinct [OF assms(1)] that show ?thesis by (metis map_of_is_SomeI not_None_eq)
qed

context scheduler
begin

lemma loadsJob_trans_touch:
  assumes "touches k m m1" "keepsRuns (sm_store m) (sm_store m1)" "loadsJob k m1 e m'"
    "\<And>t. accounted (sg_uuid cfg) (jobsIn (sm_store m)) (runsIn (sm_store m)) k t \<Longrightarrow>
         accounted (sg_uuid cfg) (jobsIn (sm_store m1)) (runsIn (sm_store m1)) k t"
  shows "loadsJob k m e m'"
  using assms touches_trans keepsRuns_trans unfolding loadsJob_def by (metis touches_def)

text \<open>One iteration of the loading loop.\<close>

lemma loadJobs_step:
  assumes ok: "sound (sm_store m)" "mgrOK m None" and at: "jobsIn (sm_store m) (jb_ID stored) = Some stored"
    and run: "loadJobs cfg S now (stored # js) m = (e, m')"
  obtains e1 m1 where "loadsJob (jb_ID stored) m e1 m1" "if e1 = None then loadJobs cfg S now js m1 = (e, m') else e \<noteq> None \<and> m' = m1"
proof -
  let ?k = "jb_ID stored"
  obtain n job where nm: "normalizeStoredToolLists stored = (n, job)" by fastforce
  note N = normalizeStoredToolLists_keeps [OF nm]
  show ?thesis
  proof (cases "validateStoredJob (sg_cron cfg) (sg_uuid cfg) (sg_maxTurns cfg) job")
    case (Some x)
    have "loadsJob ?k m (Some x) m" using ok by (simp add: loadsJob_def touches_refl keepsRuns_refl)
    moreover have "e = Some x" "m' = m" using run nm Some by simp_all
    ultimately show ?thesis using that [of "Some x" m] by simp
  next
    case None
    obtain q w where st: "(if n then so_StoreJob S job (sm_store m) else (Inr (), sm_store m)) = (q, w)" by fastforce
    let ?m = "m\<lparr>sm_store := w\<rparr>"
    have w: "sound w" "runsIn w = runsIn (sm_store m)" "\<forall>i. i \<noteq> ?k \<longrightarrow> jobsIn w i = jobsIn (sm_store m) i"
      "jobsIn w ?k \<in> {Some stored, Some job}" "q = Inr () \<longrightarrow> jobsIn w ?k = Some job"
      using st ok(1) at N(1) N(3) store_sound store_runs store_other [of "sm_store m" job] store_same [of "sm_store m" job]
        store_ok [of "sm_store m" job "()"]
      by (auto split: if_splits)
    have acc: "accounted (sg_uuid cfg) (jobsIn w) (runsIn w) ?k t"
      if "accounted (sg_uuid cfg) (jobsIn (sm_store m)) (runsIn (sm_store m)) ?k t" for t
      using that w(2,4) at N(2) by (auto simp: accounted_def)
    have keep: "keepsRuns (sm_store m) (sm_store ?m)"
      using w(2,3,4) at N(2) by (intro keepsRunsI [of _ _ ?k]) auto
    have touch: "touches ?k m ?m" using w by (simp add: touches_def)
    have okm: "mgrOK ?m None" using mgrOK_cong [of ?m m None] ok(2) by simp
    show ?thesis
    proof (cases q)
      case (Inl x)
      have "loadsJob ?k m (Some (storeError (lit ''normalize'') x)) ?m"
        using keep touch okm by (simp add: loadsJob_def touches_def)
      moreover have "e = Some (storeError (lit ''normalize'') x)" "m' = ?m"
        using run nm None st Inl by (auto split: if_splits)
      ultimately show ?thesis using that [of e ?m] by simp
    next
      case (Inr x)
      obtain e1 m1 where rec: "recoverJob cfg S now job ?m = (e1, m1)" by fastforce
      have "loadsJob ?k ?m e1 m1"
        using w Inr N(1) by (intro recoverJob_loads [OF _ okm _ _ rec]) auto
      from loadsJob_trans_touch [OF touch keep this] acc have "loadsJob ?k m e1 m1" by simp
      moreover have "(case e1 of None \<Rightarrow> loadJobs cfg S now js m1 | Some y \<Rightarrow> (Some y, m1)) = (e, m')"
        using run nm None st Inr rec by (cases e1) (auto split: if_splits)
      ultimately show ?thesis using that [of e1 m1] by (cases e1) auto
    qed
  qed
qed

lemma loadJobs_recovers:
  assumes "sound (sm_store m)" "mgrOK m None" "distinct (map jb_ID js)"
    "\<And>j. j \<in> set js \<Longrightarrow> jobsIn (sm_store m) (jb_ID j) = Some j"
    "loadJobs cfg S now js m = (e, m')"
  shows "sound (sm_store m') \<and> mgrOK m' None \<and> keepsRuns (sm_store m) (sm_store m') \<and>
    (e = None \<longrightarrow> (\<forall>i t. t \<noteq> 0 \<longrightarrow>
       (holds i t m \<longrightarrow> i \<notin> jb_ID ` set js \<longrightarrow> holds i t m') \<and>
       (i \<in> jb_ID ` set js \<longrightarrow> accounted (sg_uuid cfg) (jobsIn (sm_store m)) (runsIn (sm_store m)) i t \<longrightarrow> holds i t m')))"
  using assms
proof (induction js arbitrary: m)
  case Nil
  then show ?case by (simp add: keepsRuns_refl)
next
  case (Cons stored js)
  let ?k = "jb_ID stored"
  have at: "jobsIn (sm_store m) ?k = Some stored" using Cons.prems(4) by simp
  from loadJobs_step [OF Cons.prems(1,2) at Cons.prems(5)] obtain e1 m1 where
    L: "loadsJob ?k m e1 m1"
    and rest: "if e1 = None then loadJobs cfg S now js m1 = (e, m') else e \<noteq> None \<and> m' = m1" by blast
  have m1: "sound (sm_store m1)" "mgrOK m1 None" "keepsRuns (sm_store m) (sm_store m1)" "touches ?k m m1"
    "\<And>i. i \<noteq> ?k \<Longrightarrow> jobsIn (sm_store m1) i = jobsIn (sm_store m) i"
    using L by (auto simp: loadsJob_def touches_def)
  show ?case
  proof (cases e1)
    case (Some x)
    then show ?thesis using rest m1 by auto
  next
    case None
    have k: "?k \<notin> jb_ID ` set js" using Cons.prems(3) by auto
    have "jobsIn (sm_store m1) (jb_ID j) = Some j" if "j \<in> set js" for j
      using Cons.prems(4) [of j] m1(5) [of "jb_ID j"] k that by (metis imageI list.set_intros(2))
    then have at1: "\<And>j. j \<in> set js \<Longrightarrow> jobsIn (sm_store m1) (jb_ID j) = Some j" .
    have ds: "distinct (map jb_ID js)" and rest1: "loadJobs cfg S now js m1 = (e, m')"
      using Cons.prems(3) rest None by simp_all
    note IH0 = Cons.IH [OF m1(1,2) ds at1 rest1]
    have IH: "sound (sm_store m')" "mgrOK m' None" "keepsRuns (sm_store m1) (sm_store m')"
      "e = None \<Longrightarrow> t \<noteq> 0 \<Longrightarrow> holds i t m1 \<Longrightarrow> i \<notin> jb_ID ` set js \<Longrightarrow> holds i t m'"
      "e = None \<Longrightarrow> t \<noteq> 0 \<Longrightarrow> i \<in> jb_ID ` set js \<Longrightarrow>
         accounted (sg_uuid cfg) (jobsIn (sm_store m1)) (runsIn (sm_store m1)) i t \<Longrightarrow> holds i t m'" for i t
      using IH0 by blast+
    show ?thesis
    proof (intro conjI impI allI)
      show "keepsRuns (sm_store m) (sm_store m')" using m1(3) IH(3) by (rule keepsRuns_trans)
    next
      fix i t assume "e = None" "t \<noteq> (0 :: time)" "holds i t m" "i \<notin> jb_ID ` set (stored # js)"
      then show "holds i t m'" using touches_holds [OF m1(4), of i t] IH(4) by auto
    next
      fix i t assume a: "e = None" "t \<noteq> (0 :: time)" "i \<in> jb_ID ` set (stored # js)"
        "accounted (sg_uuid cfg) (jobsIn (sm_store m)) (runsIn (sm_store m)) i t"
      show "holds i t m'"
      proof (cases "i = ?k")
        case True
        with L None a have "holds i t m1" by (simp add: loadsJob_def)
        from IH(4) [OF a(1,2) this] True k show ?thesis by simp
      next
        case False
        with a(3) have "i \<in> jb_ID ` set js" by simp
        then show ?thesis using a m1(3) by (intro IH(5)) (simp_all add: keepsRuns_def)
      qed
    qed (use IH in auto)
  qed
qed

lemma mgrOK_empty: "mgrOK (emptyManager w) None"
  by (simp add: mgrOK_def emptyManager_def)

lemma NewManager_recovers:
  assumes "sound w" "NewManager cfg S now w = (r, w')"
  shows "sound w' \<and> keepsRuns w w' \<and>
    (\<forall>m. r = Inr m \<longrightarrow> mgrOK m None \<and> sm_store m = w' \<and>
       (\<forall>i t. t \<noteq> 0 \<longrightarrow> accounted (sg_uuid cfg) (jobsIn w) (runsIn w) i t \<longrightarrow> holds i t m))"
proof -
  obtain q w1 where ld: "so_LoadJobs S w = (q, w1)" by fastforce
  note same = load_same [OF assms(1) ld]
  then have keep: "keepsRuns w w1" by (simp add: keepsRuns_def)
  show ?thesis
  proof (cases q)
    case (Inl x)
    then show ?thesis using assms(2) ld same keep by (auto simp: NewManager_def)
  next
    case (Inr js)
    let ?m = "emptyManager w1"
    have st: "sm_store ?m = w1" by (simp add: emptyManager_def)
    obtain e m' where lj: "Schedule_Manager.loadJobs cfg S now js ?m = (e, m')" by fastforce
    from load_ok [OF assms(1) ld [unfolded Inr]]
    have js: "distinct (map jb_ID js)" and jo: "jobsIn w1 = map_of (map (\<lambda>j. (jb_ID j, j)) js)"
      using same by auto
    have "jobsIn (sm_store ?m) (jb_ID j) = Some j" if "j \<in> set js" for j
      unfolding st jo using js that by (intro map_of_is_SomeI) (auto simp: comp_def)
    from loadJobs_recovers [OF _ mgrOK_empty js this lj] same st
    have L: "sound (sm_store m')" "mgrOK m' None" "keepsRuns w1 (sm_store m')"
      "e = None \<Longrightarrow> t \<noteq> 0 \<Longrightarrow> i \<in> jb_ID ` set js \<Longrightarrow> accounted (sg_uuid cfg) (jobsIn w1) (runsIn w1) i t \<Longrightarrow> holds i t m'"
      "e = None \<Longrightarrow> t \<noteq> 0 \<Longrightarrow> i \<notin> jb_ID ` set js \<Longrightarrow> holds i t ?m \<Longrightarrow> holds i t m'" for i t
      by auto
    have "holds i t m'" if "e = None" "t \<noteq> 0" "accounted (sg_uuid cfg) (jobsIn w) (runsIn w) i t" for i t
    proof (cases "i \<in> jb_ID ` set js")
      case True
      with L(4) that same show ?thesis by simp
    next
      case False
      then have "jobsIn w1 i = None" unfolding jo by (auto simp: map_of_eq_None_iff image_image)
      then have "holds i t ?m" using that(3) same by (simp add: accounted_def holds_def emptyManager_def)
      then show ?thesis using L(5) that False by blast
    qed
    then show ?thesis using assms(2) ld Inr lj L keepsRuns_trans [OF keep]
      by (auto simp: NewManager_def split: option.splits if_splits)
  qed
qed

end

section \<open>The system keeps every run\<close>

context scheduler
begin

definition sysOK :: "'w system \<Rightarrow> bool" where
  "sysOK s \<longleftrightarrow> (case s of Up m fl \<Rightarrow> sound (sm_store m) \<and> mgrOK m fl | Down w \<Rightarrow> sound w)"

definition sysHolds :: "gostr \<Rightarrow> time \<Rightarrow> 'w system \<Rightarrow> bool" where
  "sysHolds i t s \<longleftrightarrow>
     (case s of Up m fl \<Rightarrow> holds i t m | Down w \<Rightarrow> accounted (sg_uuid cfg) (jobsIn w) (runsIn w) i t)"

text \<open>A step on a job that is not running cannot lose a run of it: those are archived.\<close>

lemma idle_touch_holds:
  assumes "touches k m m'" "k \<notin> set (sm_running m)" "holds i t m"
  shows "holds i t m'"
proof (cases "i = k")
  case True
  with assms have "archivedRun (sg_uuid cfg) (runsIn (sm_store m)) i t" by (simp add: holds_def)
  then show ?thesis using assms(1) archivedRun_mono by (auto simp: holds_def touches_def)
qed (use assms touches_holds in blast)

definition sysKeeps :: "'w system \<Rightarrow> 'w system \<Rightarrow> bool" where
  "sysKeeps s s' \<longleftrightarrow> sysOK s' \<and> (\<forall>i t. t \<noteq> 0 \<longrightarrow> sysHolds i t s \<longrightarrow> sysHolds i t s')"

lemma idle_step:
  assumes "mgrOK m' fl' \<and> (\<exists>k. k \<notin> set (sm_running m) \<and> touches k m m')"
  shows "sysKeeps (Up m fl) (Up m' fl')"
  using assms idle_touch_holds by (auto simp: sysKeeps_def sysOK_def sysHolds_def touches_def)

lemma busy_step:
  assumes "safeStep i m m'"
  shows "sysKeeps (Up m fl) (Up m' None)"
proof -
  have "holds k t m'" if "holds k t m" for k t
    using assms that touches_holds by (cases "k = i") (auto simp: safeStep_def)
  then show ?thesis using assms by (auto simp: sysKeeps_def sysOK_def sysHolds_def safeStep_def touches_def)
qed

lemma sched_step_keeps: "sched_step cfg S s s' \<Longrightarrow> sysOK s \<Longrightarrow> sysKeeps s s'"
proof (induction rule: sched_step.induct)
  case (create au dm me te now newID owner req m r m' fl)
  then show ?case by (intro idle_step Create_keeps) (auto simp: sysOK_def)
next
  case (update au dm me te now owner i req m r m' fl)
  then show ?case by (intro idle_step Update_keeps) (auto simp: sysOK_def)
next
  case (delete au dm me te owner i m e m' fl)
  then show ?case by (intro idle_step Delete_keeps) (auto simp: sysOK_def)
next
  case (history au dm me te owner f m h m' fl)
  then show ?case by (intro idle_step RunHistoryOf_keeps) (auto simp: sysOK_def)
next
  case (wake m fl)
  then show ?case by (intro idle_step keeps_same) (auto simp: sysOK_def)
next
  case (deliver m i d e m')
  then have ok: "sound (sm_store m)" "mgrOK m None" by (simp_all add: sysOK_def)
  from nextPendingNotification_Some [OF ok(2) deliver(1)] obtain job run where
    "map_of (sm_jobs m) i = Some job" "jb_PendingRun job = Some run" by blast
  from finalizePendingRun_safe [OF ok this deliver(2)] show ?case by (rule busy_step)
next
  case (claim now m fl m')
  then have ok: "sound (sm_store m)" "mgrOK m None" by (simp_all add: sysOK_def)
  show ?case
  proof (cases fl)
    case None
    with claimNextDue_fails [OF ok claim(1)] show ?thesis by (intro idle_step) simp
  next
    case (Some p)
    then obtain job t where p: "fl = Some (job, t)" by (cases p) auto
    with claimNextDue_claims [OF ok claim(1) [unfolded p]] show ?thesis by (intro idle_step) blast
  qed
next
  case (claim_failed now m er m')
  then have ok: "sound (sm_store m)" "mgrOK m None" by (simp_all add: sysOK_def)
  with claimNextDue_fails [OF ok claim_failed(1)] show ?case by (intro idle_step) simp
next
  case (execute job scheduledFor ex d m e m')
  then have "safeStep (jb_ID job) m m'" by (intro executeClaimed_safe) (auto simp: sysOK_def)
  then show ?case by (rule busy_step)
next
  case (crash m fl)
  then show ?case using holds_accounted by (auto simp: sysKeeps_def sysOK_def sysHolds_def)
next
  case (restart now w m w')
  then show ?case using NewManager_recovers [of w now "Inr m" w'] by (auto simp: sysKeeps_def sysOK_def sysHolds_def)
next
  case (restart_failed now w er w')
  then show ?case using NewManager_recovers [of w now "Inl er" w']
    by (auto simp: sysKeeps_def sysOK_def sysHolds_def keepsRuns_def)
qed

lemma sched_steps_keep: "rtranclp (sched_step cfg S) s s' \<Longrightarrow> sysOK s \<Longrightarrow> sysKeeps s s'"
proof (induction rule: rtranclp_induct)
  case base
  then show ?case by (simp add: sysKeeps_def)
next
  case (step s' s'')
  then show ?case using sched_step_keeps [of s' s''] by (auto simp: sysKeeps_def)
qed

lemma reachable_ok: "sound w0 \<Longrightarrow> rtranclp (sched_step cfg S) (Down w0) s \<Longrightarrow> sysOK s"
  using sched_steps_keep [of "Down w0" s] by (simp add: sysKeeps_def sysOK_def)

lemma claimed_held:
  assumes "sound w0" "rtranclp (sched_step cfg S) (Down w0) (Up m None)"
    "claimNextDue cfg S now m = (Inr (Some (job, t)), m')" "now \<noteq> 0"
    "rtranclp (sched_step cfg S) (Up m' (Some (job, t))) s"
  shows "sysHolds (jb_ID job) now s" "sysOK s"
proof -
  have ok: "sound (sm_store m)" "mgrOK m None" using reachable_ok [OF assms(1,2)] by (simp_all add: sysOK_def)
  from claimNextDue_claims [OF ok assms(3)]
  have "sysOK (Up m' (Some (job, t)))" "sysHolds (jb_ID job) now (Up m' (Some (job, t)))"
    by (simp_all add: sysOK_def sysHolds_def touches_def)
  with sched_steps_keep [OF assms(5)] assms(4) show "sysHolds (jb_ID job) now s" "sysOK s"
    by (simp_all add: sysKeeps_def)
qed

lemma sysHolds_accounted:
  "sysHolds i t s \<Longrightarrow> accounted (sg_uuid cfg) (jobsIn (systemStore s)) (runsIn (systemStore s)) i t"
  using holds_accounted by (auto simp: sysHolds_def systemStore_def split: system.splits)

end

lemma QueryRuns_reads_only:
  assumes "wfFs (w_fs w)" "QueryRuns s q w = (r, w')"
  shows "w_fs w' = w_fs w"
  using tripleD [OF triple_QueryRuns [OF assms(1)] _ safeSince_start] assms(2)
  by (cases r) (fastforce simp: safeSince_def)+

lemma fileStoreOps_sel [simp]:
  "so_LoadJobs (fileStoreOps s) = LoadJobs s" "so_StoreJob (fileStoreOps s) = StoreJob s"
  "so_DeleteJob (fileStoreOps s) = DeleteJob s" "so_AppendRunRecord (fileStoreOps s) = AppendRunRecord s"
  "so_QueryRuns (fileStoreOps s) = QueryRuns s"
  by (simp_all add: fileStoreOps_def)

interpretation file_sched: scheduler "fileStoreOps s" "\<lambda>w. jobAt s (w_fs w)" "\<lambda>w. archivedIn s (w_fs w)"
  "\<lambda>w. wfFs (w_fs w)" cfg for s :: Store and cfg :: Settings
proof (intro_locales)
  show "schedule_store (so_StoreJob (fileStoreOps s)) (so_DeleteJob (fileStoreOps s))
    (so_AppendRunRecord (fileStoreOps s)) (so_LoadJobs (fileStoreOps s)) (\<lambda>w. jobAt s (w_fs w))
    (\<lambda>w. archivedIn s (w_fs w)) (\<lambda>w. wfFs (w_fs w))"
    by (simp add: file_store.schedule_store_axioms)
  show "scheduler_axioms (fileStoreOps s) (\<lambda>w. jobAt s (w_fs w)) (\<lambda>w. archivedIn s (w_fs w)) (\<lambda>w. wfFs (w_fs w))"
    by unfold_locales (use QueryRuns_reads_only in auto)
qed

section \<open>A concrete run\<close>

text \<open>A cron package whose every expression means each tenth second.\<close>

definition sampleSchedule :: cronSchedule where
  "sampleSchedule = \<lparr>cs_Next = (\<lambda>t. (t div 10 + 1) * 10), cs_Prev = Some (\<lambda>t. (t - 1) div 10 * 10)\<rparr>"

definition sampleSettings :: Settings where
  "sampleSettings =
     \<lparr>sg_maxJobs = 2, sg_maxTurns = 4, sg_runTimeout = 60, sg_unavailableRetryDelay = 30,
      sg_authorizeOwner = None, sg_defaultModel = jb_Model sampleJob, sg_modelExists = (\<lambda>_. True),
      sg_toolExists = (\<lambda>_. True), sg_cron = (\<lambda>_. Inr sampleSchedule), sg_uuid = (\<lambda>i t. i @ itoa (nat t)),
      sg_quote = (\<lambda>s. s)\<rparr>"

definition sampleRequest :: CreateRequest where
  "sampleRequest =
     \<lparr>cq_Name = lit ''n'', cq_Prompt = lit ''p'', cq_ContextProfile = [], cq_Kind = KindOneShot,
      cq_RunAt = 7, cq_Cron = [], cq_Notify = False, cq_Model = emptyModel, cq_MaxTurns = 0,
      cq_AllowedTools = []\<rparr>"

abbreviation sampleOps :: "store_world StoreOps" where
  "sampleOps \<equiv> fileStoreOps sampleStore"

definition sampleEmpty :: "store_world Manager" where
  "sampleEmpty = (case NewManager sampleSettings sampleOps 1 (emptyDisk []) of
     (Inr m, _) \<Rightarrow> m | (Inl _, w) \<Rightarrow> emptyManager w)"

definition sampleManager :: "store_world Manager" where
  "sampleManager = snd (Create sampleSettings sampleOps 1 (Inr (lit ''a'')) (jb_Owner sampleJob) sampleRequest sampleEmpty)"


definition sampleExecution :: Execution where
  "sampleExecution =
     \<lparr>ex_result = \<lparr>rs_Text = lit ''ok'', rs_Model = jb_Model sampleJob\<rparr>, ex_err = None, ex_finishedAt = 11,
      ex_ctxAfterRun = False, ex_ctxBeforeNotify = False\<rparr>"

definition sampleDelivery :: Delivery where
  "sampleDelivery =
     \<lparr>dl_publishErr = None, dl_ctxAfterPublish = False, dl_deliveredAt = 12, dl_recordErr = None,
      dl_ctxAfterRecord = False\<rparr>"

lemma sample_evaluates:
  "(case NewManager sampleSettings sampleOps 1 (emptyDisk []) of (Inr m, _) \<Rightarrow> True | _ \<Rightarrow> False) \<and>
   (case claimNextDue sampleSettings sampleOps 9 sampleManager of
      (Inr (Some (job, t)), m) \<Rightarrow>
        jb_ID job = lit ''a'' \<and> t = 7 \<and> sm_running m = [lit ''a''] \<and>
        (case executeClaimed sampleSettings sampleOps job t sampleExecution sampleDelivery m of
           (e, m) \<Rightarrow> e = None \<and> sm_running m = [] \<and> sm_jobs m = [])
    | _ \<Rightarrow> False)"
  by code_simp

lemma sample_claim:
  obtains job m' m'' where "claimNextDue sampleSettings sampleOps 9 sampleManager = (Inr (Some (job, 7)), m')"
    "jb_ID job = lit ''a''" "sm_running m' = [lit ''a'']"
    "executeClaimed sampleSettings sampleOps job 7 sampleExecution sampleDelivery m' = (None, m'')"
    "sm_running m'' = []"
proof -
  obtain q m' where q: "claimNextDue sampleSettings sampleOps 9 sampleManager = (q, m')" by fastforce
  with sample_evaluates obtain job t where c: "q = Inr (Some (job, t))" by (auto split: sum.splits option.splits)
  obtain e m'' where e: "executeClaimed sampleSettings sampleOps job t sampleExecution sampleDelivery m' = (e, m'')"
    by fastforce
  from sample_evaluates q c e that show thesis by auto
qed

lemma sampleEmpty_reachable:
  "rtranclp (sched_step sampleSettings sampleOps) (Down (emptyDisk [])) (Up sampleEmpty None)"
proof -
  obtain m w where nm: "NewManager sampleSettings sampleOps 1 (emptyDisk []) = (Inr m, w)"
    using sample_evaluates by (auto split: prod.splits sum.splits)
  then have "sampleEmpty = m" by (simp add: sampleEmpty_def)
  with nm show ?thesis by (blast intro: sched_step.restart)
qed

lemma sample_reachable:
  "rtranclp (sched_step sampleSettings sampleOps) (Down (emptyDisk [])) (Up sampleManager None)"
  unfolding sampleManager_def
  by (metis sampleEmpty_reachable sched_step.create answering_same prod.collapse rtranclp.rtrancl_into_rtrancl)

section \<open>Theorems\<close>

text \<open>
  C1: a claimed run is never lost.  Start from a store of files in any state, let the system take any
  steps (requests, claims, deliveries, executions, failures of any file operation, crashes and
  restarts), claim a job at a time \<open>now\<close>, and let the system go on in any way: the store then
  accounts for the run of that job started at \<open>now\<close>.  Its record is archived, or the stored job
  carries it as running or as its pending run.
\<close>

theorem claimed_run_never_lost:
  assumes "wfFs (w_fs w0)" "rtranclp (sched_step cfg (fileStoreOps st)) (Down w0) (Up m None)"
    "claimNextDue cfg (fileStoreOps st) now m = (Inr (Some (job, t)), m')" "now \<noteq> 0"
    "rtranclp (sched_step cfg (fileStoreOps st)) (Up m' (Some (job, t))) s"
  shows "accounted (sg_uuid cfg) (jobAt st (w_fs (systemStore s))) (archivedIn st (w_fs (systemStore s)))
    (jb_ID job) now"
  using file_sched.sysHolds_accounted [OF file_sched.claimed_held(1) [OF assms]] .

theorem claimed_run_never_lost_witness:
  "\<exists>job m'. claimNextDue sampleSettings sampleOps 9 sampleManager = (Inr (Some (job, 7)), m') \<and>
     accounted (sg_uuid sampleSettings) (jobAt sampleStore (w_fs (sm_store m')))
       (archivedIn sampleStore (w_fs (sm_store m'))) (lit ''a'') 9"
proof -
  obtain job m' where c: "claimNextDue sampleSettings sampleOps 9 sampleManager = (Inr (Some (job, 7)), m')"
    "jb_ID job = lit ''a''" by (rule sample_claim)
  have "rtranclp (sched_step sampleSettings sampleOps) (Up m' (Some (job, 7))) (Down (sm_store m'))"
    by (blast intro: sched_step.crash)
  from claimed_run_never_lost [OF emptyDisk_wf sample_reachable c(1) _ this] c show ?thesis
    by (auto simp: systemStore_def)
qed

text \<open>
  C2: a run is let go only when it is archived.  Whenever, after a claim and any further steps, the
  manager does not list the job as running any more, the record of the run is in the archive.
\<close>

theorem released_run_is_archived:
  assumes "wfFs (w_fs w0)" "rtranclp (sched_step cfg (fileStoreOps st)) (Down w0) (Up m None)"
    "claimNextDue cfg (fileStoreOps st) now m = (Inr (Some (job, t)), m')" "now \<noteq> 0"
    "rtranclp (sched_step cfg (fileStoreOps st)) (Up m' (Some (job, t))) (Up m'' fl)"
    "jb_ID job \<notin> set (sm_running m'')"
  shows "\<exists>r \<in> archivedIn st (w_fs (sm_store m'')). rr_ID r = runID (sg_uuid cfg) (jb_ID job) now"
  using file_sched.claimed_held(1) [OF assms(1-5)] assms(6)
  by (simp add: file_sched.sysHolds_def file_sched.holds_def archivedRun_def)

theorem released_run_is_archived_witness:
  "\<exists>job m' m''. claimNextDue sampleSettings sampleOps 9 sampleManager = (Inr (Some (job, 7)), m') \<and>
     executeClaimed sampleSettings sampleOps job 7 sampleExecution sampleDelivery m' = (None, m'') \<and>
     (\<exists>r \<in> archivedIn sampleStore (w_fs (sm_store m'')). rr_ID r = runID (sg_uuid sampleSettings) (lit ''a'') 9)"
proof -
  obtain job m' m'' where c: "claimNextDue sampleSettings sampleOps 9 sampleManager = (Inr (Some (job, 7)), m')"
    "jb_ID job = lit ''a''" and
    e: "executeClaimed sampleSettings sampleOps job 7 sampleExecution sampleDelivery m' = (None, m'')" "sm_running m'' = []"
    by (rule sample_claim)
  have "rtranclp (sched_step sampleSettings sampleOps) (Up m' (Some (job, 7))) (Up m'' None)"
    using sched_step.execute [OF e(1)] by (auto simp: sampleExecution_def)
  from released_run_is_archived [OF emptyDisk_wf sample_reachable c(1) _ this] c e show ?thesis by auto
qed

text \<open>
  C3: the scheduler's invariant.  In every reachable state of the system each job is filed once, under
  its own id; a job with a pending run is running and a running job exists, so that it cannot be
  updated, deleted or claimed; the job the loop is executing is in the map as it was claimed, running
  and without a pending run; the store is well formed.
\<close>

theorem scheduler_invariant:
  assumes "wfFs (w_fs w0)" "rtranclp (sched_step cfg (fileStoreOps st)) (Down w0) (Up m fl)"
  shows "mgrOK m fl \<and> wfFs (w_fs (sm_store m))"
  using file_sched.reachable_ok [OF assms] by (simp add: file_sched.sysOK_def)

theorem scheduler_invariant_witness: "mgrOK sampleManager None \<and> wfFs (w_fs (sm_store sampleManager))"
  using scheduler_invariant [OF emptyDisk_wf sample_reachable] .

end
