(* ===== verification/Schedule_Validity.thy ===== *)
theory Schedule_Validity
  imports Schedule_Safety
begin

text \<open>
  The type invariant of the scheduler's jobs: every job that the manager holds or that the store keeps
  passes the validation a restart applies to it, whatever operations, failures and crashes came
  before.  So a restart is never refused because of what an earlier process wrote.
\<close>

section \<open>Valid jobs\<close>

definition jobValid :: "Settings \<Rightarrow> Job \<Rightarrow> bool" where
  "jobValid cfg job \<longleftrightarrow>
     validateStoredJob (sg_cron cfg) (sg_uuid cfg) (sg_maxTurns cfg) job = None \<and>
     (jb_Done job \<longrightarrow> jb_PendingRun job \<noteq> None \<or> jb_LastStatus job = StatusRunning) \<and>
     (jb_LastStatus job = StatusRunning \<longrightarrow> 0 < jb_LastRunAt job)"

lemma validateStoredJob_None:
  "validateStoredJob p u mt job = None \<longleftrightarrow>
     jb_SchemaVersion job = JobSchemaVersion \<and> trimSpace (jb_ID job) \<noteq> [] \<and> validateOwner (jb_Owner job) = None \<and>
     jb_Name job \<noteq> [] \<and> jb_Prompt job \<noteq> [] \<and> validateContextProfile (jb_ContextProfile job) = None \<and>
     0 < jb_MaxTurns job \<and> jb_MaxTurns job \<le> mt \<and> validateModelTarget (jb_Model job) = None \<and>
     validateCanonicalToolNames (toolList (jb_AllowedTools job)) = None \<and>
     (\<forall>r. jb_PendingRun job = Some r \<longrightarrow> validatePendingRun u job r = None) \<and>
     (\<forall>n. jb_PendingNotification job = Some n \<longrightarrow> validatePendingNotification job n = None) \<and>
     validateStoredTiming p job = None"
  by (auto simp: validateStoredJob_def split: option.splits)

lemma validateMutableJob_None:
  "validateMutableJob mt job = None \<Longrightarrow>
     jb_Name job \<noteq> [] \<and> jb_Prompt job \<noteq> [] \<and> validateContextProfile (jb_ContextProfile job) = None \<and>
     0 < jb_MaxTurns job \<and> jb_MaxTurns job \<le> mt \<and> validateModelTarget (jb_Model job) = None \<and>
     validateCanonicalToolNames (toolList (jb_AllowedTools job)) = None"
  by (auto simp: validateMutableJob_def)

lemma validateStoredTiming_None:
  "validateStoredTiming p job = None \<longleftrightarrow>
     jb_Kind job = KindOneShot \<and> jb_RunAt job \<noteq> 0 \<and> (jb_Done job \<or> jb_NextFire job \<noteq> 0) \<or>
     jb_Kind job = KindRecurring \<and> (\<exists>e. Parse p (jb_Cron job) = Inr e) \<and> jb_NextFire job \<noteq> 0"
proof -
  have "KindOneShot \<noteq> KindRecurring" by (simp add: KindOneShot_def KindRecurring_def)
  then show ?thesis by (auto simp: validateStoredTiming_def split: sum.splits)
qed

lemma pendingNotification_run:
  "validatePendingNotification job n = None \<Longrightarrow> jb_PendingRun job \<noteq> None"
  by (simp add: validatePendingNotification_def)

lemma jobValid_quiet: "jobValid cfg job \<Longrightarrow> jb_PendingRun job = None \<Longrightarrow> jb_PendingNotification job = None"
  using pendingNotification_run by (cases "jb_PendingNotification job") (fastforce simp: jobValid_def validateStoredJob_None)+

lemma Next_nonzero: "Next e t = Some n \<Longrightarrow> n \<noteq> 0"
  by (auto simp: Next_def Let_def split: if_splits)

lemma prepareSchedule_timing:
  assumes "prepareSchedule p job now f = Inr job'"
  shows "validateStoredTiming p job' = None"
  using assms Next_nonzero
  by (auto simp: prepareSchedule_def validateStoredTiming_def Let_def split: if_splits sum.splits option.splits)

lemma prepareSchedule_rest:
  assumes "prepareSchedule p job now f = Inr job'"
  shows "jb_SchemaVersion job' = jb_SchemaVersion job" "jb_LastRunAt job' = jb_LastRunAt job"
  using assms by (auto simp: prepareSchedule_def Let_def split: if_splits sum.splits option.splits)

lemma normalizeOwner_idem [simp]: "normalizeOwner (normalizeOwner x) = normalizeOwner x"
  by (simp add: normalizeOwner_def)

lemma validateOwner_normal [simp]: "validateOwner (normalizeOwner x) = validateOwner x"
  by (simp add: validateOwner_def)

lemma authorize_owner: "authorize cfg owner = None \<Longrightarrow> validateOwner owner = None"
  by (auto simp: authorize_def Let_def split: option.splits)

lemma buildJob_valid:
  assumes "buildJob cfg now newID owner req = Inr job" "authorize cfg owner = None"
  shows "jobValid cfg job"
proof -
  obtain i job0 where b: "trimSpace i \<noteq> []" "job = job0\<lparr>jb_ID := trimSpace i\<rparr>"
    "prepareSchedule (sg_cron cfg) (newJob cfg owner req now) now True = Inr job0"
    "validateMutableJob (sg_maxTurns cfg) job0 = None" "jb_PendingRun job = None"
    using assms(1) by (rule buildJob_Inr)
  have t: "validateStoredTiming (sg_cron cfg) job = None"
    using prepareSchedule_timing [OF b(3)] by (simp add: b(2) validateStoredTiming_None)
  have n: "jb_Owner (newJob cfg owner req now) = normalizeOwner owner"
    "jb_SchemaVersion (newJob cfg owner req now) = JobSchemaVersion" "\<not> jb_Done (newJob cfg owner req now)"
    "jb_LastStatus (newJob cfg owner req now) = StatusPending" "jb_PendingNotification (newJob cfg owner req now) = None"
    by (simp_all add: newJob_def Let_def)
  show ?thesis
    using validateMutableJob_None [OF b(4)] prepareSchedule_keeps [OF b(3)] prepareSchedule_rest [OF b(3)] b t n
      authorize_owner [OF assms(2)]
    by (auto simp: jobValid_def validateStoredJob_None status_defs)
qed

lemma patchJob_rest:
  "jb_SchemaVersion (patchJob cfg req job) = jb_SchemaVersion job" "jb_PendingNotification (patchJob cfg req job) = jb_PendingNotification job"
  "jb_Done (patchJob cfg req job) = jb_Done job" "jb_LastStatus (patchJob cfg req job) = jb_LastStatus job"
  "jb_LastRunAt (patchJob cfg req job) = jb_LastRunAt job" "jb_NextFire (patchJob cfg req job) = jb_NextFire job"
  by (simp_all add: patchJob_def patchModel_def Let_def setOpt_keeps [of jb_SchemaVersion] setOpt_keeps [of jb_PendingNotification]
      setOpt_keeps [of jb_Done] setOpt_keeps [of jb_LastStatus] setOpt_keeps [of jb_LastRunAt] setOpt_keeps [of jb_NextFire])

lemma patchJob_schedule:
  assumes "\<not> scheduleChanged req"
  shows "jb_Kind (patchJob cfg req job) = jb_Kind job" "jb_RunAt (patchJob cfg req job) = jb_RunAt job"
    "jb_Cron (patchJob cfg req job) = jb_Cron job"
proof -
  have "uq_Kind req = None" "uq_RunAt req = None" "uq_Cron req = None" using assms by (auto simp: scheduleChanged_def)
  then show "jb_Kind (patchJob cfg req job) = jb_Kind job" "jb_RunAt (patchJob cfg req job) = jb_RunAt job"
    "jb_Cron (patchJob cfg req job) = jb_Cron job"
    by (simp_all add: patchJob_def patchModel_def Let_def setOpt_keeps [of jb_Kind] setOpt_keeps [of jb_RunAt]
        setOpt_keeps [of jb_Cron] setOpt_def [of None])
qed

lemma reschedule_rest:
  assumes "reschedule cfg now job = Inr j"
  shows "jb_SchemaVersion j = jb_SchemaVersion job" "\<not> jb_Done j" "jb_LastStatus j = StatusPending"
    "jb_PendingNotification j = jb_PendingNotification job" "validateStoredTiming (sg_cron cfg) j = None"
proof -
  let ?job = "if jb_Kind job = KindOneShot then job\<lparr>jb_Cron := []\<rparr>
              else if jb_Kind job = KindRecurring then job\<lparr>jb_RunAt := 0\<rparr> else job"
  obtain j0 where j0: "prepareSchedule (sg_cron cfg) ?job now True = Inr j0"
    and j: "j = j0\<lparr>jb_Done := False, jb_LastStatus := StatusPending, jb_LastError := []\<rparr>"
    using assms unfolding reschedule_def Let_def by (auto split: sum.splits)
  have "validateStoredTiming (sg_cron cfg) j = None"
  proof -
    have "jb_NextFire j0 \<noteq> 0" using j0 Next_nonzero
      by (auto simp: prepareSchedule_def Let_def split: if_splits sum.splits option.splits)
    then show ?thesis using prepareSchedule_timing [OF j0] unfolding j validateStoredTiming_None by auto
  qed
  then show "jb_SchemaVersion j = jb_SchemaVersion job" "\<not> jb_Done j" "jb_LastStatus j = StatusPending"
    "jb_PendingNotification j = jb_PendingNotification job" "validateStoredTiming (sg_cron cfg) j = None"
    using prepareSchedule_rest [OF j0] prepareSchedule_keeps [OF j0] by (simp_all add: j)
qed

lemma updatedJob_valid:
  assumes "updatedJob cfg now req job = Inr job'" "jobValid cfg job" "jb_PendingRun job = None"
  shows "jobValid cfg job'"
proof -
  let ?p = "patchJob cfg req job"
  obtain j where j: "(if scheduleChanged req then reschedule cfg now ?p else Inr ?p) = Inr j"
    and v: "validateMutableJob (sg_maxTurns cfg) j = None" and job': "job' = j\<lparr>jb_UpdatedAt := now\<rparr>"
    using assms(1) unfolding updatedJob_def Let_def clone_same
    by (auto split: sum.splits option.splits if_splits)
  note pn = jobValid_quiet [OF assms(2,3)]
  have id: "jb_ID j = jb_ID job" "jb_PendingRun j = None" "jb_Owner j = jb_Owner job"
    using updatedJob_keeps [OF assms(1)] assms(3) by (simp_all add: job')
  show ?thesis
  proof (cases "scheduleChanged req")
    case True
    then have "reschedule cfg now ?p = Inr j" using j by simp
    note r = reschedule_rest [OF this]
    have t: "validateStoredTiming (sg_cron cfg) job' = None" using r(5) by (simp add: job' validateStoredTiming_None)
    show ?thesis using validateMutableJob_None [OF v] r t id assms(2) pn patchJob_rest
      by (auto simp: jobValid_def validateStoredJob_None status_defs job')
  next
    case False
    then have jp: "j = ?p" using j by simp
    have t: "validateStoredTiming (sg_cron cfg) job' = None"
      using assms(2) patchJob_schedule [OF False] patchJob_rest unfolding job' jp jobValid_def validateStoredJob_None
      by (simp add: validateStoredTiming_None)
    show ?thesis using validateMutableJob_None [OF v] t id assms(2,3) pn patchJob_rest
      by (auto simp: jobValid_def validateStoredJob_None job' jp)
  qed
qed

lemma claimed_valid:
  assumes "advance cfg now job = Inr (job', t)" "jobValid cfg job" "jb_PendingRun job = None" "0 < now"
  shows "jobValid cfg (markClaimed now t job')"
proof -
  have adv: "jb_SchemaVersion job' = jb_SchemaVersion job" "jb_Name job' = jb_Name job" "jb_Prompt job' = jb_Prompt job"
    "jb_ContextProfile job' = jb_ContextProfile job" "jb_MaxTurns job' = jb_MaxTurns job" "jb_Model job' = jb_Model job"
    "jb_AllowedTools job' = jb_AllowedTools job" "jb_PendingNotification job' = jb_PendingNotification job"
    using assms(1) unfolding advance_def Let_def by (auto split: if_splits sum.splits option.splits)
  have "validateStoredTiming (sg_cron cfg) job = None" using assms(2) by (simp add: jobValid_def validateStoredJob_None)
  then have t: "validateStoredTiming (sg_cron cfg) (markClaimed now t job') = None"
    using assms(1) Next_nonzero unfolding advance_def Let_def validateStoredTiming_None markClaimed_def
    by (auto split: if_splits sum.splits option.splits)
  note pn = jobValid_quiet [OF assms(2,3)]
  show ?thesis
    using adv t assms(2,3,4) advance_keeps [OF assms(1)] pn
    by (auto simp: jobValid_def validateStoredJob_None markClaimed_def)
qed

lemma hd_not_trimmed: "s \<noteq> [] \<Longrightarrow> \<not> isSpace (hd s) \<Longrightarrow> trimSpace s \<noteq> []"
  by (cases s) (simp_all add: trimSpace_empty_iff)

lemma hd_truncateRunes: "s \<noteq> [] \<Longrightarrow> 1 < limit \<Longrightarrow> truncateRunes s limit \<noteq> [] \<and> hd (truncateRunes s limit) = hd s"
  by (cases s) (simp_all add: truncateRunes_def hd_append take_Cons')

lemma hd_notificationWithFooter:
  "header \<noteq> [] \<Longrightarrow> notificationWithFooter header body footer \<noteq> [] \<and> hd (notificationWithFooter header body footer) = hd header"
  using hd_truncateRunes [of "header @ [10, 10] @ footer" maxNotifyRunes]
  by (simp add: notificationWithFooter_def Let_def maxNotifyRunes_def)

lemma notificationText_shows: "trimSpace (notificationText job record) \<noteq> []"
proof -
  have sp: "\<not> isSpace 9888" "\<not> isSpace 9200" by code_simp+
  have "notificationText job record \<noteq> [] \<and> \<not> isSpace (hd (notificationText job record))"
    using sp by (simp add: notificationText_def Let_def hd_notificationWithFooter)
  then show ?thesis using hd_not_trimmed by blast
qed

lemma runID_shows: "trimSpace (runID u i t) \<noteq> []"
proof -
  have "\<not> isSpace (of_char CHR ''r'')" by code_simp
  then show ?thesis using hd_not_trimmed [of "runID u i t"] by (simp add: runID_def lit_eval)
qed

lemma record_valid:
  assumes "rr_SchemaVersion r = JobSchemaVersion" "rr_JobID r = jb_ID job" "rr_ID r = runID u (jb_ID job) (rr_StartedAt r)"
    "rr_StartedAt r \<noteq> 0" "validateCanonicalToolNames (toolList (rr_AllowedTools r)) = None"
  shows "validatePendingRun u job r = None"
  using assms runID_shows by (simp add: validatePendingRun_def)

lemma nextAfterRun_timing:
  assumes "nextAfterRun cfg f st job = Inr job'" "validateStoredTiming (sg_cron cfg) job = None"
    "0 < f" "0 \<le> sg_unavailableRetryDelay cfg"
  shows "validateStoredTiming (sg_cron cfg) job' = None"
  using assms Next_nonzero unfolding nextAfterRun_def Let_def validateStoredTiming_None
  by (auto split: if_splits sum.splits option.splits)

lemma nextAfterRun_rest:
  assumes "nextAfterRun cfg f st job = Inr job'"
  obtains nf dn where "job' = job\<lparr>jb_NextFire := nf, jb_Done := dn\<rparr>"
proof -
  have "job' = job\<lparr>jb_NextFire := jb_NextFire job', jb_Done := jb_Done job'\<rparr>"
    using assms unfolding nextAfterRun_def Let_def by (auto split: if_splits sum.splits option.splits)
  then show ?thesis by (rule that)
qed

lemma jobValid_changed:
  assumes "jobValid cfg job"
    "jb_SchemaVersion j = jb_SchemaVersion job" "jb_ID j = jb_ID job" "jb_Owner j = jb_Owner job" "jb_Name j = jb_Name job"
    "jb_Prompt j = jb_Prompt job" "jb_ContextProfile j = jb_ContextProfile job" "jb_MaxTurns j = jb_MaxTurns job"
    "jb_Model j = jb_Model job" "toolList (jb_AllowedTools j) = toolList (jb_AllowedTools job)" "validateStoredTiming (sg_cron cfg) j = None"
    "\<And>r. jb_PendingRun j = Some r \<Longrightarrow> validatePendingRun (sg_uuid cfg) j r = None"
    "\<And>n. jb_PendingNotification j = Some n \<Longrightarrow> validatePendingNotification j n = None"
    "jb_Done j \<Longrightarrow> jb_PendingRun j \<noteq> None \<or> jb_LastStatus j = StatusRunning"
    "jb_LastStatus j = StatusRunning \<Longrightarrow> 0 < jb_LastRunAt j"
  shows "jobValid cfg j"
  using assms unfolding jobValid_def validateStoredJob_None by simp

lemma jobValid_timing: "jobValid cfg job \<Longrightarrow> validateStoredTiming (sg_cron cfg) job = None"
  by (simp add: jobValid_def validateStoredJob_None)

lemma jobValid_tools: "jobValid cfg job \<Longrightarrow> validateCanonicalToolNames (toolList (jb_AllowedTools job)) = None"
  by (simp add: jobValid_def validateStoredJob_None)

lemma jobValid_run:
  "jobValid cfg job \<Longrightarrow> jb_PendingRun job = Some r \<Longrightarrow> validatePendingRun (sg_uuid cfg) job r = None"
  by (simp add: jobValid_def validateStoredJob_None)

lemma jobValid_notification:
  "jobValid cfg job \<Longrightarrow> jb_PendingNotification job = Some n \<Longrightarrow> validatePendingNotification job n = None"
  by (simp add: jobValid_def validateStoredJob_None)

lemma jobValid_owner: "jobValid cfg job \<Longrightarrow> trimSpace (ow_Channel (jb_Owner job)) \<noteq> [] \<and> trimSpace (ow_ChatID (jb_Owner job)) \<noteq> []"
  by (simp add: jobValid_def validateStoredJob_None validateOwner_def normalizeOwner_def Let_def)

lemma validatePendingRun_cong:
  "jb_ID j = jb_ID job \<Longrightarrow> validatePendingRun u j r = validatePendingRun u job r"
  by (simp add: validatePendingRun_def)

lemma markInterrupted_valid:
  assumes v: "jobValid cfg job" "jb_PendingRun job = None" and st: "jb_LastStatus job = StatusRunning"
  shows "jobValid cfg ((markInterrupted job now)\<lparr>jb_PendingRun :=
    Some (interruptedRecord (sg_uuid cfg) (markInterrupted job now) now)\<rparr>)" (is "jobValid cfg ?j")
proof (rule jobValid_changed [OF v(1)])
  show "validateStoredTiming (sg_cron cfg) ?j = None"
    using jobValid_timing [OF v(1)] by (simp add: markInterrupted_def validateStoredTiming_None)
  fix r assume "jb_PendingRun ?j = Some r"
  then have r: "r = interruptedRecord (sg_uuid cfg) (markInterrupted job now) now" by simp
  have "0 < jb_LastRunAt job" using v(1) st by (simp add: jobValid_def)
  then show "validatePendingRun (sg_uuid cfg) ?j r = None"
    using jobValid_tools [OF v(1)] by (intro record_valid) (simp_all add: r interruptedRecord_def markInterrupted_def Let_def)
next
  show "validatePendingNotification ?j n = None" if "jb_PendingNotification ?j = Some n" for n
    using jobValid_quiet [OF v] that by (simp add: markInterrupted_def)
qed (simp_all add: markInterrupted_def status_defs)

lemma finishedJob_fields:
  assumes "finishedJob cfg job t ex current = Inr j"
  shows "jb_SchemaVersion j = jb_SchemaVersion current" "jb_Owner j = jb_Owner current" "jb_Name j = jb_Name current"
    "jb_Prompt j = jb_Prompt current" "jb_ContextProfile j = jb_ContextProfile current" "jb_MaxTurns j = jb_MaxTurns current"
    "jb_Model j = jb_Model current" "jb_AllowedTools j = jb_AllowedTools current" "jb_LastRunAt j = jb_LastRunAt job"
    "\<exists>c. nextAfterRun cfg (ex_finishedAt ex) (runStatus (effectiveError cfg job ex) (ex_ctxAfterRun ex)) c = Inr
       (c\<lparr>jb_NextFire := jb_NextFire j, jb_Done := jb_Done j\<rparr>) \<and>
       jb_Kind c = jb_Kind current \<and> jb_RunAt c = jb_RunAt current \<and> jb_Cron c = jb_Cron current \<and>
       jb_Done c = jb_Done current \<and> jb_NextFire c = jb_NextFire current \<and> jb_Kind j = jb_Kind c \<and>
       jb_RunAt j = jb_RunAt c \<and> jb_Cron j = jb_Cron c"
    "\<And>n. jb_PendingNotification j = Some n \<Longrightarrow> nt_Channel n = ow_Channel (jb_Owner job) \<and>
       nt_ChatID n = ow_ChatID (jb_Owner job) \<and> trimSpace (nt_Text n) \<noteq> [] \<and> nt_DeliveredAt n = 0"
proof -
  let ?st = "runStatus (effectiveError cfg job ex) (ex_ctxAfterRun ex)"
  let ?c = "current\<lparr>jb_LastRunAt := jb_LastRunAt job, jb_LastScheduledFor := t, jb_UpdatedAt := ex_finishedAt ex,
     jb_LastStatus := ?st, jb_ModelUnavailableNotified := (?st = StatusModelUnavailable \<and> jb_ModelUnavailableNotified job)\<rparr>"
  have st: "rr_Status (finishedRecord cfg job t ex) = ?st" by (simp add: finishedRecord_def Let_def)
  obtain b where n: "nextAfterRun cfg (ex_finishedAt ex) ?st ?c = Inr b"
    using assms unfolding finishedJob_def Let_def clone_same st by (auto split: sum.splits)
  from nextAfterRun_rest [OF n] obtain nf dn where b: "b = ?c\<lparr>jb_NextFire := nf, jb_Done := dn\<rparr>" by blast
  have j: "jb_NextFire j = nf" "jb_Done j = dn" "jb_SchemaVersion j = jb_SchemaVersion current" "jb_Owner j = jb_Owner current"
    "jb_Name j = jb_Name current" "jb_Prompt j = jb_Prompt current" "jb_ContextProfile j = jb_ContextProfile current"
    "jb_MaxTurns j = jb_MaxTurns current" "jb_Model j = jb_Model current" "jb_AllowedTools j = jb_AllowedTools current"
    "jb_LastRunAt j = jb_LastRunAt job" "jb_Kind j = jb_Kind current" "jb_RunAt j = jb_RunAt current" "jb_Cron j = jb_Cron current"
    using assms n unfolding finishedJob_def Let_def clone_same st b by (auto split: option.splits)
  then show "jb_SchemaVersion j = jb_SchemaVersion current" "jb_Owner j = jb_Owner current" "jb_Name j = jb_Name current"
    "jb_Prompt j = jb_Prompt current" "jb_ContextProfile j = jb_ContextProfile current" "jb_MaxTurns j = jb_MaxTurns current"
    "jb_Model j = jb_Model current" "jb_AllowedTools j = jb_AllowedTools current" "jb_LastRunAt j = jb_LastRunAt job" by blast+
  show "\<exists>c. nextAfterRun cfg (ex_finishedAt ex) ?st c = Inr (c\<lparr>jb_NextFire := jb_NextFire j, jb_Done := jb_Done j\<rparr>) \<and>
       jb_Kind c = jb_Kind current \<and> jb_RunAt c = jb_RunAt current \<and> jb_Cron c = jb_Cron current \<and>
       jb_Done c = jb_Done current \<and> jb_NextFire c = jb_NextFire current \<and> jb_Kind j = jb_Kind c \<and>
       jb_RunAt j = jb_RunAt c \<and> jb_Cron j = jb_Cron c"
    by (rule exI [of _ ?c]) (use n j in \<open>simp add: b\<close>)
  show "nt_Channel m = ow_Channel (jb_Owner job) \<and> nt_ChatID m = ow_ChatID (jb_Owner job) \<and> trimSpace (nt_Text m) \<noteq> [] \<and>
      nt_DeliveredAt m = 0" if "jb_PendingNotification j = Some m" for m
    using assms n that notificationText_shows unfolding finishedJob_def Let_def clone_same st by (auto split: if_splits)
qed

lemma finishedJob_valid:
  assumes f: "finishedJob cfg job t ex job = Inr j" and v: "jobValid cfg job" "0 < jb_LastRunAt job"
    and clock: "0 < ex_finishedAt ex" "0 \<le> sg_unavailableRetryDelay cfg"
  shows "jobValid cfg j"
proof (rule jobValid_changed [OF v(1)])
  note F = finishedJob_fields [OF f] and K = finishedJob_keeps [OF f]
  from F(10) obtain c where c: "nextAfterRun cfg (ex_finishedAt ex) (runStatus (effectiveError cfg job ex) (ex_ctxAfterRun ex)) c = Inr
       (c\<lparr>jb_NextFire := jb_NextFire j, jb_Done := jb_Done j\<rparr>)"
    "jb_Kind c = jb_Kind job" "jb_RunAt c = jb_RunAt job" "jb_Cron c = jb_Cron job" "jb_Done c = jb_Done job"
    "jb_NextFire c = jb_NextFire job" "jb_Kind j = jb_Kind c" "jb_RunAt j = jb_RunAt c" "jb_Cron j = jb_Cron c" by blast
  have "validateStoredTiming (sg_cron cfg) c = None" using jobValid_timing [OF v(1)] c by (simp add: validateStoredTiming_None)
  from nextAfterRun_timing [OF c(1) this clock] show "validateStoredTiming (sg_cron cfg) j = None"
    using c by (simp add: validateStoredTiming_None)
  show "validatePendingRun (sg_uuid cfg) j r = None" if "jb_PendingRun j = Some r" for r
    using that K v jobValid_tools [OF v(1)] by (intro record_valid) (auto simp: finishedRecord_def Let_def)
  show "validatePendingNotification j n = None" if "jb_PendingNotification j = Some n" for n
    using F(11) [OF that] K jobValid_owner [OF v(1)] by (simp add: validatePendingNotification_def)
  show "jb_ID j = jb_ID job" "jb_Done j \<Longrightarrow> jb_PendingRun j \<noteq> None \<or> jb_LastStatus j = StatusRunning" using K by simp_all
  show "jb_LastStatus j = StatusRunning \<Longrightarrow> 0 < jb_LastRunAt j" using F(9) v(2) by simp
  show "toolList (jb_AllowedTools j) = toolList (jb_AllowedTools job)" using F(8) by simp
qed (use finishedJob_fields [OF f] in blast)+

section \<open>Every operation keeps jobs valid\<close>

context scheduler
begin

definition storeValid :: "'w \<Rightarrow> bool" where
  "storeValid w \<longleftrightarrow> (\<forall>k j. jobsIn w k = Some j \<longrightarrow> jobValid cfg j)"

definition mgrValid :: "'w Manager \<Rightarrow> bool" where
  "mgrValid m \<longleftrightarrow> storeValid (sm_store m) \<and> (\<forall>k j. map_of (sm_jobs m) k = Some j \<longrightarrow> jobValid cfg j)"

lemma mgrValidD: "mgrValid m \<Longrightarrow> map_of (sm_jobs m) k = Some j \<Longrightarrow> jobValid cfg j"
  unfolding mgrValid_def by blast

lemma mgrValid_store: "mgrValid m \<Longrightarrow> storeValid (sm_store m)"
  unfolding mgrValid_def by blast

lemma mgrValidI:
  assumes "mgrValid m" "storeValid (sm_store m')"
    and "sm_jobs m' = sm_jobs m \<or> (\<exists>k. sm_jobs m' = AList.delete k (sm_jobs m)) \<or>
         (\<exists>k j. sm_jobs m' = AList.update k j (sm_jobs m) \<and> jobValid cfg j)"
  shows "mgrValid m'"
proof -
  have "jobValid cfg j" if "map_of (sm_jobs m') i = Some j" for i j
    using assms(3) that mgrValidD [OF assms(1)] by (auto split: if_splits)
  then show ?thesis using assms(2) by (simp add: mgrValid_def)
qed

lemma valid_store:
  assumes "sound w" "storeValid w" "jobValid cfg j" "so_StoreJob S j w = (r, w')"
  shows "storeValid w'"
  unfolding storeValid_def
proof (intro allI impI)
  fix k j' assume "jobsIn w' k = Some j'"
  then show "jobValid cfg j'"
    using assms store_other [OF assms(1,4), of k] store_same [OF assms(1,4)] unfolding storeValid_def
    by (cases "k = jb_ID j") auto
qed

lemma valid_delete:
  assumes "sound w" "storeValid w" "so_DeleteJob S i w = (r, w')"
  shows "storeValid w'"
proof -
  have "jobsIn w' = jobsIn w \<or> jobsIn w' = (jobsIn w)(i := None)"
    using assms delete_ok delete_err by (cases r) blast+
  then show ?thesis using assms(2) by (auto simp: storeValid_def split: if_splits)
qed

lemma valid_append:
  "sound w \<Longrightarrow> storeValid w \<Longrightarrow> so_AppendRunRecord S rec w = (r, w') \<Longrightarrow> storeValid w'"
  by (simp add: storeValid_def append_jobs)

lemma jobValid_answering [simp]: "jobValid (answering cfg au dm me te) = jobValid cfg"
  by (simp add: jobValid_def fun_eq_iff)

lemma Create_valid:
  assumes ok: "sound (sm_store m)" "mgrValid m" and run: "Create (answering cfg au dm me te) S now newID owner req m = (r, m')"
  shows "mgrValid m'"
proof (cases "\<exists>job. authorize (answering cfg au dm me te) owner = None \<and> buildJob (answering cfg au dm me te) now newID owner req = Inr job")
  case True
  then obtain job where a: "authorize (answering cfg au dm me te) owner = None" "buildJob (answering cfg au dm me te) now newID owner req = Inr job" by blast
  have v: "jobValid cfg job" using buildJob_valid [OF a(2,1)] by simp
  obtain q w where st: "so_StoreJob S job (sm_store m) = (q, w)" by fastforce
  note w = valid_store [OF ok(1) mgrValid_store [OF ok(2)] v st]
  have "m' = m \<or> sm_store m' = w \<and> (sm_jobs m' = sm_jobs m \<or> sm_jobs m' = AList.update (jb_ID job) job (sm_jobs m))"
    using run a st by (auto simp: Create_def split: sum.splits if_splits)
  then show ?thesis using ok(2) w v mgrValidI [OF ok(2), of m'] by blast
next
  case False
  then have "m' = m" using run unfolding Create_def by (auto split: option.splits sum.splits)
  then show ?thesis using ok by simp
qed

lemma Update_valid:
  assumes ok: "sound (sm_store m)" "mgrValid m" "mgrOK m fl" and run: "Update (answering cfg au dm me te) S now owner i req m = (r, m')"
  shows "mgrValid m'"
proof (cases "\<exists>job upd. map_of (sm_jobs m) (trimSpace i) = Some job \<and> trimSpace i \<notin> set (sm_running m) \<and>
     updatedJob (answering cfg au dm me te) now req job = Inr upd")
  case True
  then obtain job upd where a: "map_of (sm_jobs m) (trimSpace i) = Some job" "trimSpace i \<notin> set (sm_running m)"
    "updatedJob (answering cfg au dm me te) now req job = Inr upd" by blast
  have "jb_PendingRun job = None" using mgrOK_pending [OF ok(3) a(1)] a(2) by (cases "jb_PendingRun job") auto
  from updatedJob_valid [OF a(3) _ this] mgrValidD [OF ok(2) a(1)] have v: "jobValid cfg upd" by simp
  obtain q w where st: "so_StoreJob S upd (sm_store m) = (q, w)" by fastforce
  note w = valid_store [OF ok(1) mgrValid_store [OF ok(2)] v st]
  have "m' = m \<or> sm_store m' = w \<and> (sm_jobs m' = sm_jobs m \<or> sm_jobs m' = AList.update (trimSpace i) upd (sm_jobs m))"
    using run a st by (auto simp: Update_def Let_def split: sum.splits if_splits option.splits)
  then show ?thesis using ok(2) w v mgrValidI [OF ok(2), of m'] by blast
next
  case False
  then have "m' = m" using run unfolding Update_def Let_def by (auto split: option.splits sum.splits if_splits)
  then show ?thesis using ok by simp
qed

lemma Delete_valid:
  assumes ok: "sound (sm_store m)" "mgrValid m" and run: "Delete (answering cfg au dm me te) S owner i m = (r, m')"
  shows "mgrValid m'"
proof -
  obtain q w where st: "so_DeleteJob S (trimSpace i) (sm_store m) = (q, w)" by fastforce
  note w = valid_delete [OF ok(1) mgrValid_store [OF ok(2)] st]
  have "m' = m \<or> sm_store m' = w \<and> (sm_jobs m' = sm_jobs m \<or> sm_jobs m' = AList.delete (trimSpace i) (sm_jobs m))"
    using run st by (auto simp: Delete_def Let_def split: sum.splits if_splits option.splits)
  then show ?thesis using ok(2) w mgrValidI [OF ok(2), of m'] by blast
qed

lemma RunHistoryOf_valid:
  assumes ok: "sound (sm_store m)" "mgrValid m" and run: "RunHistoryOf (answering cfg au dm me te) S owner f m = (h, m')"
  shows "mgrValid m'"
proof -
  have "m' = m \<or> (\<exists>q r w. so_QueryRuns S q (sm_store m) = (r, w) \<and> m' = m\<lparr>sm_store := w\<rparr>)"
    using run unfolding RunHistoryOf_def by (auto split: option.splits sum.splits prod.splits)
  then show ?thesis using ok query_same [OF ok(1)] by (auto simp: mgrValid_def storeValid_def)
qed

lemma claimNextDue_valid:
  assumes ok: "sound (sm_store m)" "mgrValid m" "mgrOK m None" and now: "0 < now"
    and run: "claimNextDue cfg S now m = (r, m')"
  shows "mgrValid m'"
proof (cases "\<exists>sel job t. selectDue now m = Some sel \<and> advance cfg now sel = Inr (job, t)")
  case True
  then obtain sel job t where a: "selectDue now m = Some sel" "advance cfg now sel = Inr (job, t)" by blast
  note s = selectDue_Some [OF ok(3) a(1)]
  note v = claimed_valid [OF a(2) mgrValidD [OF ok(2) s(1)] s(4) now]
  let ?job = "markClaimed now t job"
  obtain q w where st: "so_StoreJob S ?job (sm_store m) = (q, w)" by fastforce
  note w = valid_store [OF ok(1) mgrValid_store [OF ok(2)] v st]
  have "sm_store m' = w \<and> (sm_jobs m' = sm_jobs m \<or> sm_jobs m' = AList.update (jb_ID ?job) ?job (sm_jobs m))"
    using run a st by (auto simp: claimNextDue_def Let_def split: sum.splits)
  then show ?thesis using w v mgrValidI [OF ok(2), of m'] by blast
next
  case False
  then have "m' = m" using run unfolding claimNextDue_def by (auto split: option.splits sum.splits prod.splits)
  then show ?thesis using ok by simp
qed

end

lemma archived_valid:
  assumes "jobValid cfg job" "\<not> jb_Done job" "jb_PendingNotification job = None"
  shows "jobValid cfg (job\<lparr>jb_PendingRun := None\<rparr>)"
  using jobValid_timing [OF assms(1)] assms
  by (intro jobValid_changed [OF assms(1)]) (auto simp: jobValid_def validateStoredTiming_None)

lemma outcome_valid:
  assumes "jobValid cfg job" "jb_PendingRun job = Some run"
    "jb_PendingRun j = Some r" "rr_SchemaVersion r = rr_SchemaVersion run" "rr_JobID r = rr_JobID run" "rr_ID r = rr_ID run"
    "rr_StartedAt r = rr_StartedAt run" "rr_AllowedTools r = rr_AllowedTools run"
    "j = job\<lparr>jb_PendingRun := Some r, jb_ModelUnavailableNotified := b, jb_PendingNotification := pn\<rparr>"
    "\<And>n. pn = Some n \<Longrightarrow> trimSpace (nt_Channel n) \<noteq> [] \<and> trimSpace (nt_ChatID n) \<noteq> [] \<and> trimSpace (nt_Text n) \<noteq> []"
  shows "jobValid cfg j"
proof (rule jobValid_changed [OF assms(1)])
  show "validateStoredTiming (sg_cron cfg) j = None"
    using jobValid_timing [OF assms(1)] by (simp add: assms(9) validateStoredTiming_None)
  show "validatePendingRun (sg_uuid cfg) j r' = None" if "jb_PendingRun j = Some r'" for r'
    using jobValid_run [OF assms(1,2)] assms(3-9) that by (simp add: validatePendingRun_def runID_shows)
  show "validatePendingNotification j n = None" if "jb_PendingNotification j = Some n" for n
    using assms(10) [of n] that by (simp add: assms(9) validatePendingNotification_def)
qed (use assms(1,3) in \<open>simp_all add: assms(9) jobValid_def\<close>)

context scheduler
begin

lemma finishPendingRun_valid:
  assumes ok: "sound w" "storeValid w" "jobValid cfg job" and run: "finishPendingRun S job w = (e, job', w')"
  shows "storeValid w' \<and> (e = None \<longrightarrow> \<not> jb_Done job' \<longrightarrow> jobValid cfg job')"
proof (cases "\<exists>r. jb_PendingRun job = Some r \<and> jb_PendingNotification job = None")
  case True
  then obtain r where r: "jb_PendingRun job = Some r" "jb_PendingNotification job = None" by blast
  obtain a w1 where ap: "so_AppendRunRecord S r w = (a, w1)" by fastforce
  have w1: "sound w1" "storeValid w1" using append_sound [OF ok(1) ap] valid_append [OF ok(1,2) ap] by auto
  let ?job = "job\<lparr>jb_PendingRun := None\<rparr>"
  obtain b w2 where d: "so_DeleteJob S (jb_ID job) w1 = (b, w2)" by fastforce
  obtain c w3 where s: "so_StoreJob S ?job w1 = (c, w3)" by fastforce
  have "w' = w1 \<and> e \<noteq> None \<or> jb_Done job \<and> w' = w2 \<and> job' = job \<or> \<not> jb_Done job \<and> w' = w3 \<and> job' = ?job"
    using run r ap d s by (auto simp: finishPendingRun_def Let_def split: sum.splits if_splits)
  moreover have "\<not> jb_Done job \<Longrightarrow> jobValid cfg ?job" using archived_valid [OF ok(3) _ r(2)] .
  ultimately show ?thesis using w1 valid_delete [OF w1 d] valid_store [OF w1 _ s] by auto
next
  case False
  then have "w' = w \<and> (e = None \<longrightarrow> job' = job)" using run
    by (auto simp: finishPendingRun_def split: option.splits if_splits)
  then show ?thesis using ok by simp
qed

lemma recordOutcome_valid:
  assumes ok: "sound w" "storeValid w" "jobValid cfg job" "jb_PendingRun job = Some run"
    and step: "recordOutcome S de run job w = (e, cur, w')"
  shows "storeValid w' \<and> jobValid cfg cur"
proof (cases "jb_PendingNotification job = None")
  case True
  then show ?thesis using step ok by (simp add: recordOutcome_def)
next
  case False
  let ?run = "case de of Some msg \<Rightarrow> run\<lparr>rr_NotifyError := msg\<rparr> | None \<Rightarrow> run"
  let ?b = "de = None \<and> rr_Status run = StatusModelUnavailable \<or> jb_ModelUnavailableNotified job"
  let ?cur = "job\<lparr>jb_PendingRun := Some ?run, jb_ModelUnavailableNotified := ?b, jb_PendingNotification := None\<rparr>"
  have cur: "?cur = (case de of Some msg \<Rightarrow> job\<lparr>jb_PendingRun := Some (run\<lparr>rr_NotifyError := msg\<rparr>)\<rparr>
     | None \<Rightarrow> if rr_Status run = StatusModelUnavailable then job\<lparr>jb_ModelUnavailableNotified := True\<rparr> else job)
     \<lparr>jb_PendingNotification := None\<rparr>"
    using ok(4) by (cases job) (auto split: option.splits)
  obtain q w1 where st: "so_StoreJob S ?cur w = (q, w1)" by fastforce
  have res: "cur = ?cur" "w' = w1"
    using step False st unfolding recordOutcome_def Let_def clone_same cur by (auto split: sum.splits)
  have v: "jobValid cfg ?cur"
    by (rule outcome_valid [OF ok(3,4), where r = ?run and b = ?b and pn = None]) (auto split: option.splits)
  then show ?thesis using valid_store [OF ok(1,2) v st] by (simp add: res)
qed

lemma archivePending_valid:
  assumes ok: "sound (sm_store m)" "mgrValid m" and step: "archivePending S i de m = (e, m')"
  shows "mgrValid m'"
proof (cases "\<exists>job run. map_of (sm_jobs m) i = Some job \<and> jb_PendingRun job = Some run")
  case True
  then obtain job run where a: "map_of (sm_jobs m) i = Some job" "jb_PendingRun job = Some run" by blast
  obtain e1 cur w1 where ro: "recordOutcome S de run job (sm_store m) = (e1, cur, w1)" by (metis prod_cases3)
  note R = recordOutcome_valid [OF ok(1) mgrValid_store [OF ok(2)] mgrValidD [OF ok(2) a(1)] a(2) ro]
  have s1: "sound w1" using recordOutcome_frame [OF ok(1) ro a(2)] by blast
  obtain e2 cur' w2 where fi: "finishPendingRun S cur w1 = (e2, cur', w2)" by (metis prod_cases3)
  note F = finishPendingRun_valid [OF s1 _ _ fi]
  have "sm_jobs m' = sm_jobs m \<and> (sm_store m' = w1 \<or> sm_store m' = w2) \<or>
    sm_store m' = w2 \<and> e2 = None \<and> (if jb_Done cur' then sm_jobs m' = AList.delete i (sm_jobs m) else sm_jobs m' = AList.update i cur' (sm_jobs m))"
    using step a ro fi by (auto simp: archivePending_def split: option.splits)
  then show ?thesis using R F by (intro mgrValidI [OF ok(2), of m']) (auto split: if_splits)
next
  case False
  then have "sm_jobs m' = sm_jobs m" "sm_store m' = sm_store m"
    using step by (auto simp: archivePending_def split: option.splits)
  then show ?thesis using ok mgrValid_store by (intro mgrValidI [OF ok(2), of m']) simp_all
qed

lemma markNotificationDelivered_valid:
  assumes ok: "sound (sm_store m)" "mgrValid m" and step: "markNotificationDelivered S i u m = (r, m')"
  shows "mgrValid m'"
proof (cases "\<exists>job run n. map_of (sm_jobs m) i = Some job \<and> jb_PendingRun job = Some run \<and> jb_PendingNotification job = Some n")
  case True
  then obtain job run n where a: "map_of (sm_jobs m) i = Some job" "jb_PendingRun job = Some run"
    "jb_PendingNotification job = Some n" by blast
  let ?cur = "job\<lparr>jb_PendingNotification := Some (n\<lparr>nt_DeliveredAt := u\<rparr>)\<rparr>"
  obtain q w where st: "so_StoreJob S ?cur (sm_store m) = (q, w)" by fastforce
  have same: "?cur = job\<lparr>jb_PendingRun := Some run, jb_ModelUnavailableNotified := jb_ModelUnavailableNotified job,
      jb_PendingNotification := Some (n\<lparr>nt_DeliveredAt := u\<rparr>)\<rparr>" using a(2) by (cases job) simp
  have n: "trimSpace (nt_Channel n) \<noteq> [] \<and> trimSpace (nt_ChatID n) \<noteq> [] \<and> trimSpace (nt_Text n) \<noteq> []"
    using jobValid_notification [OF mgrValidD [OF ok(2) a(1)] a(3)] by (simp add: validatePendingNotification_def)
  have v: "jobValid cfg ?cur"
    by (rule outcome_valid [OF mgrValidD [OF ok(2) a(1)] a(2) _ _ _ _ _ _ same]) (use a n in auto)
  note w = valid_store [OF ok(1) mgrValid_store [OF ok(2)] v st]
  have "m' = m \<or> sm_store m' = w \<and> (sm_jobs m' = sm_jobs m \<or> sm_jobs m' = AList.update i ?cur (sm_jobs m))"
    using step a st by (auto simp: markNotificationDelivered_def Let_def split: sum.splits if_splits)
  then show ?thesis using ok(2) w v mgrValidI [OF ok(2), of m'] by blast
next
  case False
  then have "m' = m" using step by (auto simp: markNotificationDelivered_def split: option.splits if_splits)
  then show ?thesis using ok by simp
qed

lemma mgrValid_log [simp]: "mgrValid (m\<lparr>sm_published := p\<rparr>) = mgrValid m" "mgrValid (m\<lparr>sm_recorded := r\<rparr>) = mgrValid m"
  by (simp_all add: mgrValid_def)

lemma recordAndArchive_valid:
  assumes ok: "sound (sm_store m)" "mgrValid m" and step: "recordAndArchive S i d job m = (e, m')"
  shows "mgrValid m'"
  using step ok archivePending_valid [of "m\<lparr>sm_recorded := sm_recorded m @ [x]\<rparr>" i None e m' for x]
  by (auto simp: recordAndArchive_def Let_def split: option.splits if_splits)

lemma finalizePendingRun_valid:
  assumes ok: "sound (sm_store m)" "mgrValid m" "mgrOK m None" and step: "finalizePendingRun S i d m = (e, m')"
  shows "mgrValid m'"
proof (cases "\<exists>job run n. map_of (sm_jobs m) i = Some job \<and> jb_PendingRun job = Some run \<and> jb_PendingNotification job = Some n \<and> nt_DeliveredAt n = 0")
  case True
  then obtain job run n where a: "map_of (sm_jobs m) i = Some job" "jb_PendingRun job = Some run"
    "jb_PendingNotification job = Some n" "nt_DeliveredAt n = 0" by blast
  let ?m = "m\<lparr>sm_published := sm_published m @ [(outbound n, dl_publishErr d)]\<rparr>"
  have okm: "sound (sm_store ?m)" "mgrValid ?m" "mgrOK ?m None" "map_of (sm_jobs ?m) i = Some job"
    using ok a mgrOK_cong [of ?m m None] by simp_all
  obtain r m1 where mk: "markNotificationDelivered S i (dl_deliveredAt d) ?m = (r, m1)" by fastforce
  have m1: "sound (sm_store m1)" "mgrValid m1"
    using markNotificationDelivered_safe [OF okm(1,3,4) a(2) mk] safeStep_sound markNotificationDelivered_valid [OF okm(1,2) mk] by blast+
  have "m' = ?m \<or> archivePending S i (dl_publishErr d) ?m = (e, m') \<or> m' = m1 \<or> (\<exists>j. recordAndArchive S i d j m1 = (e, m'))"
    using step a mk by (auto simp: finalizePendingRun_def Let_def split: option.splits if_splits sum.splits)
  then show ?thesis using okm m1 archivePending_valid [OF okm(1,2)] recordAndArchive_valid [OF m1] by blast
next
  case False
  then have "m' = stopRunning i m \<or> archivePending S i None m = (e, m') \<or> (\<exists>j. recordAndArchive S i d j m = (e, m'))"
    using step by (auto simp: finalizePendingRun_def Let_def split: option.splits if_splits)
  then show ?thesis using ok archivePending_valid [OF ok(1,2)] recordAndArchive_valid [OF ok(1,2)]
    by (auto simp: mgrValid_def)
qed

lemma executeClaimed_valid:
  assumes ok: "sound (sm_store m)" "mgrValid m" "mgrOK m (Some (job, t))" and run: "0 < jb_LastRunAt job"
    and clock: "0 < ex_finishedAt ex" "0 \<le> sg_unavailableRetryDelay cfg"
    and step: "executeClaimed cfg S job t ex d m = (e, m')"
  shows "mgrValid m'"
proof (cases "finishedJob cfg job t ex job")
  case (Inl x)
  then have "m' = m" using step mgrOK_flight [OF ok(3)] by (simp add: executeClaimed_def completeRun_def)
  then show ?thesis using ok by simp
next
  case (Inr cur)
  note fl = mgrOK_flight [OF ok(3)] and ok0 = mgrOK_weaken [OF ok(3)]
  have v: "jobValid cfg cur" using finishedJob_valid [OF Inr _ run clock] mgrValidD [OF ok(2)] fl by blast
  obtain q w where st: "so_StoreJob S cur (sm_store m) = (q, w)" by fastforce
  note w = valid_store [OF ok(1) mgrValid_store [OF ok(2)] v st]
  let ?m = "m\<lparr>sm_jobs := AList.update (jb_ID job) cur (sm_jobs m), sm_store := w\<rparr>"
  have vm: "mgrValid ?m" "mgrValid (m\<lparr>sm_store := w\<rparr>)"
    using w v by (auto intro: mgrValidI [OF ok(2)])
  have sm: "sound (sm_store ?m)" using store_sound [OF ok(1) st] by simp
  have okm: "mgrOK ?m None"
    using finishedJob_keeps [OF Inr] fl mgrOK_distinct [OF ok0]
    by (intro mgrOK_put [OF ok0, of ?m "jb_ID job" cur]) (simp_all add: distinct_update)
  have "m' = m\<lparr>sm_store := w\<rparr> \<or> finalizePendingRun S (jb_ID job) d ?m = (e, m')"
    using step fl Inr st by (auto simp: executeClaimed_def completeRun_def split: sum.splits)
  then show ?thesis using vm finalizePendingRun_valid [OF sm vm(1) okm] by blast
qed

end

section \<open>Restarts\<close>

lemma normalizeStoredToolLists_valid:
  assumes "normalizeStoredToolLists stored = (n, job)" "jobValid cfg stored"
  shows "jobValid cfg job"
proof -
  let ?tools = "case jb_AllowedTools stored of None \<Rightarrow> Some [] | Some ns \<Rightarrow> Some ns"
  obtain pr where job: "job = stored\<lparr>jb_AllowedTools := ?tools, jb_PendingRun := pr\<rparr>"
    and pr: "\<And>r. pr = Some r \<Longrightarrow> \<exists>r0. jb_PendingRun stored = Some r0 \<and> (r = r0 \<or> rr_AllowedTools r0 = None \<and> r = r0\<lparr>rr_AllowedTools := Some []\<rparr>)"
    and some: "pr = None \<longleftrightarrow> jb_PendingRun stored = None"
  proof
    show "job = stored\<lparr>jb_AllowedTools := ?tools, jb_PendingRun := jb_PendingRun job\<rparr>"
      using assms(1) by (cases stored) (auto simp: normalizeStoredToolLists_def Let_def split: option.splits if_splits)
  qed (use assms(1) in \<open>auto simp: normalizeStoredToolLists_def Let_def split: option.splits if_splits\<close>)
  show ?thesis
  proof (rule jobValid_changed [OF assms(2)])
  show "validateStoredTiming (sg_cron cfg) job = None"
    using jobValid_timing [OF assms(2)] by (simp add: job validateStoredTiming_None)
  show "validatePendingRun (sg_uuid cfg) job r = None" if "jb_PendingRun job = Some r" for r
  proof -
    from that pr obtain r0 where r0: "jb_PendingRun stored = Some r0"
      "r = r0 \<or> rr_AllowedTools r0 = None \<and> r = r0\<lparr>rr_AllowedTools := Some []\<rparr>" by (auto simp: job)
    with jobValid_run [OF assms(2) r0(1)] show ?thesis by (auto simp: validatePendingRun_def job toolList_def)
  qed
  show "validatePendingNotification job n = None" if "jb_PendingNotification job = Some n" for n
    using jobValid_notification [OF assms(2), of n] that some by (simp add: validatePendingNotification_def job)
  show "toolList (jb_AllowedTools job) = toolList (jb_AllowedTools stored)"
    by (simp add: job toolList_def split: option.splits)
  show "jb_Done job \<Longrightarrow> jb_PendingRun job \<noteq> None \<or> jb_LastStatus job = StatusRunning"
    using assms(2) some by (auto simp: job jobValid_def)
  qed (use assms(2) in \<open>simp_all add: job jobValid_def\<close>)
qed

lemma finishPendingRun_error:
  "finishPendingRun S job w = (Some x, job', w') \<Longrightarrow> jb_PendingNotification job = None \<Longrightarrow> \<exists>s. x = StoreFailed s"
  by (auto simp: finishPendingRun_def storeError_def Let_def split: option.splits if_splits sum.splits prod.splits)

context scheduler
begin

lemma interruptJob_valid:
  assumes ok: "sound w" "storeValid w" "jobValid cfg job" "jb_PendingRun job = None" "jb_LastStatus job = StatusRunning"
    and run: "interruptJob cfg S now job w = (e, job', w')"
  shows "sound w'" "storeValid w'" "e = None \<Longrightarrow> \<not> jb_Done job' \<Longrightarrow> jobValid cfg job'" "e = Some x \<Longrightarrow> \<exists>s. x = StoreFailed s"
    "e = None \<Longrightarrow> jb_Done job' = jb_Done job"
proof -
  let ?job = "(markInterrupted job now)\<lparr>jb_PendingRun := Some (interruptedRecord (sg_uuid cfg) (markInterrupted job now) now)\<rparr>"
  note v = markInterrupted_valid [OF ok(3,4,5), of now]
  have quiet: "jb_PendingNotification ?job = None" using jobValid_quiet [OF ok(3,4)] by (simp add: markInterrupted_def)
  have dn: "jb_Done ?job = jb_Done job" by (simp add: markInterrupted_def)
  obtain q w1 where st: "so_StoreJob S ?job w = (q, w1)" by fastforce
  have w1: "sound w1" "storeValid w1" using store_sound [OF ok(1) st] valid_store [OF ok(1,2) v st] by auto
  have "sound w' \<and> storeValid w' \<and> (e = None \<longrightarrow> \<not> jb_Done job' \<longrightarrow> jobValid cfg job') \<and>
        (e = Some x \<longrightarrow> (\<exists>s. x = StoreFailed s)) \<and> (e = None \<longrightarrow> jb_Done job' = jb_Done job)"
  proof (cases q)
    case (Inl y)
    then show ?thesis
      using run st w1 by (auto simp: interruptJob_def Let_def storeError_def)
  next
    case (Inr y)
    then have fin: "finishPendingRun S ?job w1 = (e, job', w')" using run st by (simp add: interruptJob_def Let_def)
    show ?thesis
      using finishPendingRun_valid [OF w1 v fin] finishPendingRun_frame [OF w1(1) fin] dn
        finishPendingRun_error [OF _ quiet, of S w1 x] fin by auto
  qed
  then show "sound w'" "storeValid w'" "e = None \<Longrightarrow> \<not> jb_Done job' \<Longrightarrow> jobValid cfg job'" "e = Some x \<Longrightarrow> \<exists>s. x = StoreFailed s"
    "e = None \<Longrightarrow> jb_Done job' = jb_Done job" by blast+
qed

text \<open>Loading valid jobs fails only when the store fails.\<close>

lemma recoverJob_valid:
  assumes ok: "sound (sm_store m)" "mgrValid m" "jobValid cfg job" and run: "recoverJob cfg S now job m = (e, m')"
  shows "sound (sm_store m') \<and> mgrValid m' \<and> (\<forall>x. e = Some x \<longrightarrow> (\<exists>s. x = StoreFailed s))"
proof (cases "jb_PendingRun job")
  case (Some run)
  obtain e1 job1 w where fin: "finishPendingRun S job (sm_store m) = (e1, job1, w)" by (metis prod_cases3)
  note V = finishPendingRun_valid [OF ok(1) mgrValid_store [OF ok(2)] ok(3) fin]
  have s: "sound w" using finishPendingRun_frame [OF ok(1) fin] by blast
  show ?thesis
  proof (cases "jb_PendingNotification job")
    case N: (Some n)
    then have "e = None" "sm_store m' = sm_store m" "sm_jobs m' = AList.update (jb_ID job) job (sm_jobs m)"
      using run Some by (auto simp: recoverJob_def addJob_def)
    then show ?thesis using ok mgrValid_store [OF ok(2)] by (auto intro: mgrValidI [OF ok(2)])
  next
    case None
    then have m': "e = e1" "sm_store m' = w" "sm_jobs m' = sm_jobs m \<or>
      e1 = None \<and> \<not> jb_Done job1 \<and> sm_jobs m' = AList.update (jb_ID job1) job1 (sm_jobs m)"
      using run Some fin by (auto simp: recoverJob_def addJob_def split: option.splits if_splits)
    then have "mgrValid m'" using V by (intro mgrValidI [OF ok(2)]) auto
    then show ?thesis using m' s finishPendingRun_error [OF _ None] fin by auto
  qed
next
  case None
  show ?thesis
  proof (cases "jb_LastStatus job = StatusRunning")
    case True
    obtain e1 job1 w where int: "interruptJob cfg S now job (sm_store m) = (e1, job1, w)" by (metis prod_cases3)
    note V = interruptJob_valid [OF ok(1) mgrValid_store [OF ok(2)] ok(3) None True int]
    have m': "e = e1" "sm_store m' = w" "sm_jobs m' = sm_jobs m \<or>
      e1 = None \<and> \<not> jb_Done job \<and> sm_jobs m' = AList.update (jb_ID job1) job1 (sm_jobs m)"
      using run None True int by (auto simp: recoverJob_def addJob_def split: option.splits if_splits)
    then have "mgrValid m'" using V(2,3,5) by (intro mgrValidI [OF ok(2)]) auto
    then show ?thesis using m' V(1,4) by auto
  next
    case False
    then have "\<not> jb_Done job" using ok(3) None by (auto simp: jobValid_def)
    then have "e = None" "sm_store m' = sm_store m" "sm_jobs m' = AList.update (jb_ID job) job (sm_jobs m)"
      using run None False by (auto simp: recoverJob_def addJob_def)
    then show ?thesis using ok mgrValid_store [OF ok(2)] by (auto intro: mgrValidI [OF ok(2)])
  qed
qed

lemma loadJobs_valid:
  assumes "sound (sm_store m)" "mgrValid m" "\<And>j. j \<in> set js \<Longrightarrow> jobValid cfg j" "loadJobs cfg S now js m = (e, m')"
  shows "sound (sm_store m') \<and> mgrValid m' \<and> (\<forall>x. e = Some x \<longrightarrow> (\<exists>s. x = StoreFailed s))"
  using assms
proof (induction js arbitrary: m)
  case (Cons stored js)
  obtain n job where nm: "normalizeStoredToolLists stored = (n, job)" by fastforce
  have v: "jobValid cfg job" using normalizeStoredToolLists_valid [OF nm] Cons.prems(3) by simp
  then have chk: "validateStoredJob (sg_cron cfg) (sg_uuid cfg) (sg_maxTurns cfg) job = None" by (simp add: jobValid_def)
  obtain q w where st: "(if n then so_StoreJob S job (sm_store m) else (Inr (), sm_store m)) = (q, w)" by fastforce
  let ?m = "m\<lparr>sm_store := w\<rparr>"
  have w: "sound w" "storeValid w"
    using st Cons.prems(1) store_sound [OF Cons.prems(1)] valid_store [OF Cons.prems(1) mgrValid_store [OF Cons.prems(2)] v]
      mgrValid_store [OF Cons.prems(2)] by (auto split: if_splits)
  then have mv: "mgrValid ?m" by (intro mgrValidI [OF Cons.prems(2)]) auto
  obtain e1 m1 where rec: "recoverJob cfg S now job ?m = (e1, m1)" by fastforce
  note R = recoverJob_valid [OF _ mv v rec]
  show ?case
  proof (cases q)
    case (Inl x)
    then have "e = Some (storeError (lit ''normalize'') x)" "m' = ?m"
      using Cons.prems(4) nm chk st by (auto split: if_splits)
    then show ?thesis using w mv by (simp add: storeError_def)
  next
    case (Inr x)
    then have "(case e1 of None \<Rightarrow> loadJobs cfg S now js m1 | Some y \<Rightarrow> (Some y, m1)) = (e, m')"
      using Cons.prems(4) nm chk st rec by (cases e1) (auto split: if_splits)
    then show ?thesis using R w Cons.IH [of m1] Cons.prems(3) by (cases e1) auto
  qed
qed simp

lemma NewManager_valid:
  assumes "sound w" "storeValid w" "NewManager cfg S now w = (r, w')"
  shows "storeValid w'" "r = Inr m \<Longrightarrow> mgrValid m" "r = Inl e \<Longrightarrow> e = TooManyJobs \<or> (\<exists>s. e = StoreFailed s)"
proof -
  obtain q w1 where ld: "so_LoadJobs S w = (q, w1)" by fastforce
  note same = load_same [OF assms(1) ld]
  then have v1: "storeValid w1" using assms(2) by (simp add: storeValid_def)
  have "storeValid w' \<and> (r = Inr m \<longrightarrow> mgrValid m) \<and> (r = Inl e \<longrightarrow> e = TooManyJobs \<or> (\<exists>s. e = StoreFailed s))"
  proof (cases q)
    case (Inl x)
    then show ?thesis using assms(3) ld v1 by (auto simp: NewManager_def storeError_def)
  next
    case (Inr js)
    obtain x m' where lj: "Schedule_Manager.loadJobs cfg S now js (emptyManager w1) = (x, m')" by fastforce
    from load_ok [OF assms(1) ld [unfolded Inr]]
    have js: "distinct (map jb_ID js)" and jo: "map_of (map (\<lambda>j. (jb_ID j, j)) js) = jobsIn w" by auto
    have "jobValid cfg j" if "j \<in> set js" for j
    proof -
      have "map_of (map (\<lambda>j. (jb_ID j, j)) js) (jb_ID j) = Some j"
        using js that by (intro map_of_is_SomeI) (auto simp: comp_def)
      then show ?thesis using assms(2) by (simp add: jo storeValid_def)
    qed
    with loadJobs_valid [OF _ _ _ lj] same v1
    have "mgrValid m'" "\<forall>y. x = Some y \<longrightarrow> (\<exists>s. y = StoreFailed s)"
      by (simp_all add: emptyManager_def mgrValid_def)
    then show ?thesis using assms(3) ld Inr lj mgrValid_store
      by (auto simp: NewManager_def split: option.splits if_splits)
  qed
  then show "storeValid w'" "r = Inr m \<Longrightarrow> mgrValid m" "r = Inl e \<Longrightarrow> e = TooManyJobs \<or> (\<exists>s. e = StoreFailed s)" by blast+
qed

end

section \<open>The system\<close>

context scheduler
begin

definition sysValid :: "'w system \<Rightarrow> bool" where
  "sysValid s \<longleftrightarrow>
     (case s of
        Up m fl \<Rightarrow> mgrValid m \<and> (\<forall>job t. fl = Some (job, t) \<longrightarrow> 0 < jb_LastRunAt job)
      | Down w \<Rightarrow> storeValid w)"

lemma sched_step_valid:
  assumes "sched_step cfg S s s'" "sysOK s" "sysValid s" "0 \<le> sg_unavailableRetryDelay cfg"
  shows "sysValid s'"
  using assms
proof (induction rule: sched_step.induct)
  case (create au dm me te now newID owner req m r m' fl)
  then show ?case using Create_valid [of m] by (auto simp: sysOK_def sysValid_def)
next
  case (update au dm me te now owner i req m r m' fl)
  then show ?case using Update_valid [of m fl] by (auto simp: sysOK_def sysValid_def)
next
  case (delete au dm me te owner i m e m' fl)
  then show ?case using Delete_valid [of m] by (auto simp: sysOK_def sysValid_def)
next
  case (history au dm me te owner f m h m' fl)
  then show ?case using RunHistoryOf_valid [of m] by (auto simp: sysOK_def sysValid_def)
next
  case (wake m fl)
  then show ?case by (auto simp: sysValid_def mgrValid_def)
next
  case (deliver m i d e m')
  then show ?case using finalizePendingRun_valid [of m] by (auto simp: sysOK_def sysValid_def)
next
  case (claim now m fl m')
  then have ok: "sound (sm_store m)" "mgrOK m None" "mgrValid m" by (auto simp: sysOK_def sysValid_def)
  have "0 < jb_LastRunAt job" if "fl = Some (job, t)" for job t
    using claimNextDue_claims [OF ok(1,2) claim(1) [unfolded that]] claim(2) by simp
  then show ?case using claimNextDue_valid [OF ok(1,3,2) claim(2,1)] by (auto simp: sysValid_def)
next
  case (claim_failed now m er m')
  then show ?case using claimNextDue_valid [of m now] by (auto simp: sysOK_def sysValid_def)
next
  case (execute job scheduledFor ex d m e m')
  then show ?case using executeClaimed_valid [of m job scheduledFor ex d] by (auto simp: sysOK_def sysValid_def)
next
  case (crash m fl)
  then show ?case using mgrValid_store by (auto simp: sysValid_def)
next
  case (restart now w m w')
  then show ?case using NewManager_valid(2) [of w now "Inr m" w' m] by (auto simp: sysOK_def sysValid_def)
next
  case (restart_failed now w er w')
  then show ?case using NewManager_valid(1) [of w now "Inl er" w'] by (auto simp: sysOK_def sysValid_def)
qed

lemma reachable_valid:
  assumes "sound w0" "\<And>k. jobsIn w0 k = None" "0 \<le> sg_unavailableRetryDelay cfg"
    "rtranclp (sched_step cfg S) (Down w0) s"
  shows "sysValid s \<and> sysOK s"
  using assms(4)
proof (induction rule: rtranclp_induct)
  case base
  then show ?case using assms by (simp add: sysValid_def sysOK_def storeValid_def)
next
  case (step s' s'')
  then show ?case using sched_step_valid [of s' s''] sched_step_keeps [of s' s''] assms(3) by (auto simp: sysKeeps_def)
qed

end

section \<open>Theorems\<close>

lemma sample_ok: "mgrOK sampleManager None" "wfFs (w_fs (sm_store sampleManager))"
  using file_sched.reachable_ok [OF emptyDisk_wf sample_reachable] by (simp_all add: file_sched.sysOK_def)

lemma sample_no_jobs: "jobAt sampleStore (w_fs (emptyDisk answers)) k = None"
  by (simp add: jobAt_def emptyDisk_def)

text \<open>
  C15: every job stays well formed.  From an empty store, in every reachable state of the system each
  job the manager holds passes the validation of stored jobs: schema, id, owner, name, prompt,
  profile, turn budget, model, canonical tools, timing, and for a job with a pending run or
  notification the record's identity and the notification's address and text.
\<close>

theorem jobs_always_valid:
  assumes "wfFs (w_fs w0)" "\<And>k. jobAt st (w_fs w0) k = None" "0 \<le> sg_unavailableRetryDelay cfg"
    "rtranclp (sched_step cfg (fileStoreOps st)) (Down w0) (Up m fl)" "map_of (sm_jobs m) k = Some job"
  shows "validateStoredJob (sg_cron cfg) (sg_uuid cfg) (sg_maxTurns cfg) job = None"
proof -
  have "file_sched.mgrValid st cfg m"
    using file_sched.reachable_valid [OF assms(1-4)] by (simp add: file_sched.sysValid_def)
  from file_sched.mgrValidD [OF this assms(5)] show ?thesis by (simp add: jobValid_def)
qed

theorem jobs_always_valid_witness:
  "\<exists>job. map_of (sm_jobs sampleManager) (lit ''a'') = Some job \<and>
     validateStoredJob (sg_cron sampleSettings) (sg_uuid sampleSettings) (sg_maxTurns sampleSettings) job = None"
proof -
  obtain job m' m'' where c: "claimNextDue sampleSettings sampleOps 9 sampleManager = (Inr (Some (job, 7)), m')" "jb_ID job = lit ''a''"
    by (rule sample_claim)
  from file_sched.claimNextDue_claims [OF sample_ok(2,1) c(1)] obtain sel job0 where
    sel: "selectDue 9 sampleManager = Some sel" "advance sampleSettings 9 sel = Inr (job0, 7)" "job = markClaimed 9 7 job0" by blast
  have "jb_ID sel = lit ''a''" using c(2) sel advance_keeps [OF sel(2)] by simp
  with selectDue_Some(1) [OF sample_ok(1) sel(1)]
  have j: "map_of (sm_jobs sampleManager) (lit ''a'') = Some sel" by simp
  have "0 \<le> sg_unavailableRetryDelay sampleSettings" by (simp add: sampleSettings_def)
  from jobs_always_valid [OF emptyDisk_wf sample_no_jobs this sample_reachable j] j show ?thesis by blast
qed

text \<open>
  C14: a restart is refused only by the store or by the limit on jobs.  From an empty store, whatever
  happened before a process stopped, what it wrote passes the checks of the next start: starting can
  fail only because a file operation fails or because more jobs are stored than are allowed.  The next
  start is taken to have the limits the jobs were accepted under: a lower limit on turns would refuse them.
\<close>

theorem restart_refused_only_by_store:
  assumes "wfFs (w_fs w0)" "\<And>k. jobAt st (w_fs w0) k = None" "0 \<le> sg_unavailableRetryDelay cfg"
    "rtranclp (sched_step cfg (fileStoreOps st)) (Down w0) (Down w)"
    "NewManager cfg (fileStoreOps st) now w = (Inl e, w')"
  shows "e = TooManyJobs \<or> (\<exists>what. e = StoreFailed what)"
  using file_sched.reachable_valid [OF assms(1-4)] file_sched.NewManager_valid(3) [OF _ _ assms(5)]
  by (simp add: file_sched.sysValid_def file_sched.sysOK_def)

lemma sample_refused:
  "case NewManager sampleSettings sampleOps 1 (emptyDisk [Some (lit ''io'')]) of (Inl e, _) \<Rightarrow> e \<noteq> TooManyJobs | _ \<Rightarrow> False"
  by code_simp

theorem restart_refused_only_by_store_witness:
  "\<exists>what w. NewManager sampleSettings sampleOps 1 (emptyDisk [Some (lit ''io'')]) = (Inl (StoreFailed what), w)"
proof -
  obtain e w where nm: "NewManager sampleSettings sampleOps 1 (emptyDisk [Some (lit ''io'')]) = (Inl e, w)" "e \<noteq> TooManyJobs"
    using sample_refused by (auto split: prod.splits sum.splits)
  have "0 \<le> sg_unavailableRetryDelay sampleSettings" by (simp add: sampleSettings_def)
  from restart_refused_only_by_store [OF emptyDisk_wf sample_no_jobs this rtranclp.rtrancl_refl nm(1)] nm
  show ?thesis by auto
qed

end
