(* ===== verification/Schedule_Loop.thy ===== *)
theory Schedule_Loop
  imports Schedule_Validity
begin

text \<open>
  What the scheduler's loop does: which job a claim takes and what it leaves behind, how many
  iterations it needs before it waits, and how long it waits.  The cron package enters with the two
  laws of its search functions.
\<close>

section \<open>Claims\<close>

text \<open>The documented behaviour of the cron package: the next occurrence is after the given time, the
  previous one before it.\<close>

definition cronLaws :: "cron_parser \<Rightarrow> bool" where
  "cronLaws p \<longleftrightarrow>
     (\<forall>s e. p s = Inr e \<longrightarrow>
        (\<forall>t. cs_Next e t \<noteq> 0 \<longrightarrow> t < cs_Next e t) \<and>
        (\<forall>prev t. cs_Prev e = Some prev \<longrightarrow> prev t \<noteq> 0 \<longrightarrow> prev t < t))"

lemma sample_cronLaws: "cronLaws (sg_cron sampleSettings)"
proof -
  have "t < (t div 10 + 1) * 10" "(t - 1) div 10 * 10 < t" for t :: int by presburger+
  then show ?thesis by (simp add: cronLaws_def sampleSettings_def sampleSchedule_def)
qed

lemma Parse_laws:
  assumes "cronLaws p" "Parse p raw = Inr e"
  shows "Next e t = Some n \<Longrightarrow> t < n" "Prev e t = Some n \<Longrightarrow> n < t"
proof -
  obtain s where s: "p s = Inr e" using assms(2) by (auto simp: Parse_def Let_def split: option.splits sum.splits)
  show "Next e t = Some n \<Longrightarrow> t < n" "Prev e t = Some n \<Longrightarrow> n < t"
    using assms(1) s by (auto simp: cronLaws_def Next_def Prev_def Let_def split: if_splits option.splits)
qed

lemma advance_contract:
  assumes "cronLaws (sg_cron cfg)" "advance cfg now sel = Inr (job, t)" "jb_NextFire sel \<le> now"
  shows "jb_NextFire sel \<le> t \<and> t \<le> now \<and>
    (if jb_Kind sel = KindRecurring then now < jb_NextFire job \<and> jb_Done job = jb_Done sel
     else jb_Done job \<and> jb_NextFire job = 0 \<and> t = jb_NextFire sel)"
proof (cases "jb_Kind sel = KindRecurring")
  case False
  then show ?thesis using assms(2,3) by (auto simp: advance_def)
next
  case True
  obtain expr where expr: "Parse (sg_cron cfg) (jb_Cron sel) = Inr expr"
    using assms(2) True by (auto simp: advance_def split: sum.splits)
  obtain next' where nx: "Next expr now = Some next'"
    using assms(2) True expr by (auto simp: advance_def Let_def split: option.splits)
  have "now < next'" by (rule Parse_laws(1) [OF assms(1) expr nx])
  moreover have "latest \<le> now" if "Prev expr (now + 1) = Some latest" for latest
    using Parse_laws(2) [OF assms(1) expr that] by simp
  ultimately show ?thesis using assms(2,3) True expr nx by (auto simp: advance_def Let_def split: option.splits if_splits)
qed

text \<open>The order in which due jobs are claimed, and the selection as a minimum in it.\<close>

definition claimBefore :: "Job \<Rightarrow> Job \<Rightarrow> bool" where
  "claimBefore a b \<longleftrightarrow> jb_NextFire a < jb_NextFire b \<or> jb_NextFire a = jb_NextFire b \<and> jb_ID a \<le> jb_ID b"

lemma claimBefore_refl: "claimBefore a a"
  by (simp add: claimBefore_def)

lemma claimBefore_trans: "claimBefore a b \<Longrightarrow> claimBefore b c \<Longrightarrow> claimBefore a c"
  by (auto simp: claimBefore_def)

lemma pickDue_least:
  assumes "\<forall>x. sel = Some x \<longrightarrow> jb_ID x \<noteq> []"
  shows "(\<forall>x. sel = Some x \<longrightarrow> (\<exists>y. pickDue now run sel job = Some y \<and> claimBefore y x)) \<and>
    (due now run job \<longrightarrow> (\<exists>y. pickDue now run sel job = Some y \<and> claimBefore y job))"
  using assms by (auto simp: pickDue_def claimBefore_def not_less not_le split: option.splits)

lemma foldl_pickDue_least:
  assumes "\<forall>x. sel = Some x \<longrightarrow> jb_ID x \<noteq> []" "\<forall>j \<in> set js. jb_ID j \<noteq> []"
  shows "(\<forall>x. sel = Some x \<longrightarrow> (\<exists>y. foldl (pickDue now run) sel js = Some y \<and> claimBefore y x)) \<and>
    (\<forall>j \<in> set js. due now run j \<longrightarrow> (\<exists>y. foldl (pickDue now run) sel js = Some y \<and> claimBefore y j))"
  using assms
proof (induction js arbitrary: sel)
  case Nil
  then show ?case by (auto simp: claimBefore_refl)
next
  case (Cons j js)
  let ?p = "pickDue now run sel j"
  have "\<forall>x. ?p = Some x \<longrightarrow> jb_ID x \<noteq> []"
    using Cons.prems by (auto simp: pickDue_def split: if_splits option.splits)
  note IH = Cons.IH [OF this] and P = pickDue_least [OF Cons.prems(1), of now run j]
  show ?case using IH P Cons.prems(2) claimBefore_trans by (simp; blast)
qed

lemma selectDue_least:
  assumes "mgrOK m fl" "map_of (sm_jobs m) [] = None"
  shows "selectDue now m = Some sel \<Longrightarrow> map_of (sm_jobs m) k = Some j \<Longrightarrow> due now (sm_running m) j \<Longrightarrow> claimBefore sel j"
    "selectDue now m = None \<Longrightarrow> map_of (sm_jobs m) k = Some j \<Longrightarrow> \<not> due now (sm_running m) j"
proof -
  let ?js = "map snd (sm_jobs m)"
  have ids: "jb_ID j \<noteq> []" if "j \<in> set ?js" for j
  proof -
    from that obtain k where k: "(k, j) \<in> set (sm_jobs m)" by auto
    then have "map_of (sm_jobs m) k = Some j" using mgrOK_distinct [OF assms(1)] by simp
    with mgrOK_id [OF assms(1) this] assms(2) show ?thesis by auto
  qed
  have mem: "j \<in> set ?js" if "map_of (sm_jobs m) k = Some j" for k j
    using map_of_SomeD [OF that] by force
  have sel: "selectDue now m = foldl (pickDue now (sm_running m)) None ?js"
    using ids foldl_pickDue [of now "sm_running m" None ?js] by (auto simp: selectDue_def split: option.splits)
  show "selectDue now m = Some sel \<Longrightarrow> map_of (sm_jobs m) k = Some j \<Longrightarrow> due now (sm_running m) j \<Longrightarrow> claimBefore sel j"
    "selectDue now m = None \<Longrightarrow> map_of (sm_jobs m) k = Some j \<Longrightarrow> \<not> due now (sm_running m) j"
    using foldl_pickDue_least [of None ?js now "sm_running m"] ids mem [of k j] unfolding sel by fastforce+
qed

text \<open>
  C16: the contract of a claim.  If no job is due, nothing changes.  Otherwise the claimed job is the
  due one that comes first by next occurrence, then by id, whatever order the map is ranged in; it is
  on disk as claimed before it is returned; it is running; the run is for the job's next occurrence
  or, for a recurring job that missed some, for a later one that is not after the present; and the
  job is not due again at this time: a recurring job's next occurrence lies in the future, any other
  job is done.
\<close>

theorem claim_contract:
  assumes "mgrOK m None" "wfFs (w_fs (sm_store m))" "map_of (sm_jobs m) [] = None" "cronLaws (sg_cron cfg)"
    "claimNextDue cfg (fileStoreOps st) now m = (Inr claimed, m')"
  shows "case claimed of
      None \<Rightarrow> m' = m \<and> (\<forall>k j. map_of (sm_jobs m) k = Some j \<longrightarrow> \<not> due now (sm_running m) j)
    | Some (job, t) \<Rightarrow>
        (\<exists>sel. map_of (sm_jobs m) (jb_ID job) = Some sel \<and> due now (sm_running m) sel \<and>
           (\<forall>k j. map_of (sm_jobs m) k = Some j \<longrightarrow> due now (sm_running m) j \<longrightarrow> claimBefore sel j) \<and>
           jobAt st (w_fs (sm_store m')) (jb_ID job) = Some job \<and> map_of (sm_jobs m') (jb_ID job) = Some job \<and>
           jb_ID job \<in> set (sm_running m') \<and> jb_LastStatus job = StatusRunning \<and> jb_LastScheduledFor job = t \<and>
           jb_NextFire sel \<le> t \<and> t \<le> now \<and>
           (if jb_Kind sel = KindRecurring then now < jb_NextFire job else jb_Done job \<and> t = jb_NextFire sel))"
proof (cases claimed)
  case None
  then have "m' = m" "selectDue now m = None"
    using assms(5) by (auto simp: claimNextDue_def Let_def split: option.splits sum.splits prod.splits)
  then show ?thesis using None selectDue_least(2) [OF assms(1,3)] by auto
next
  case (Some p)
  then obtain job t where p: "claimed = Some (job, t)" by (cases p) auto
  note C = file_sched.claimNextDue_claims [OF assms(2,1) assms(5) [unfolded p]]
  then obtain sel job0 where sel: "selectDue now m = Some sel" and adv: "advance cfg now sel = Inr (job0, t)"
    and job: "job = markClaimed now t job0" by blast
  note S = selectDue_Some [OF assms(1) sel] and K = advance_keeps [OF adv]
  have "jb_NextFire sel \<le> now" using S(2) by (simp add: due_def)
  note A = advance_contract [OF assms(4) adv this]
  have fl: "map_of (sm_jobs m') (jb_ID job) = Some job" "jb_ID job \<in> set (sm_running m')"
    using C mgrOK_flight [of m' job t] by auto
  show ?thesis
    unfolding p option.case prod.case
    by (rule exI [of _ sel]) (use S K A C fl selectDue_least(1) [OF assms(1,3) sel] in \<open>auto simp: job split: if_splits\<close>)
qed

text \<open>A recurring job, alone and beside the one-shot job.\<close>

definition recurringRequest :: CreateRequest where
  "recurringRequest = sampleRequest\<lparr>cq_Kind := KindRecurring, cq_RunAt := 0, cq_Cron := lit ''*/5 * * * *''\<rparr>"

definition withRecurring :: "store_world Manager \<Rightarrow> store_world Manager" where
  "withRecurring m = snd (Create sampleSettings sampleOps 1 (Inr (lit ''c'')) (jb_Owner sampleJob) recurringRequest m)"

lemma recurring_reachable:
  "rtranclp (sched_step sampleSettings sampleOps) (Down (emptyDisk [])) (Up m None) \<Longrightarrow>
   rtranclp (sched_step sampleSettings sampleOps) (Down (emptyDisk [])) (Up (withRecurring m) None)"
  unfolding withRecurring_def by (metis sched_step.create answering_same prod.collapse rtranclp.rtrancl_into_rtrancl)

lemma reachable_sample:
  assumes "rtranclp (sched_step sampleSettings sampleOps) (Down (emptyDisk [])) (Up m None)"
  shows "mgrOK m None" "wfFs (w_fs (sm_store m))" "map_of (sm_jobs m) [] = None"
proof -
  show ok: "mgrOK m None" "wfFs (w_fs (sm_store m))"
    using file_sched.reachable_ok [OF emptyDisk_wf assms] by (simp_all add: file_sched.sysOK_def)
  show "map_of (sm_jobs m) [] = None"
  proof (rule ccontr)
    assume "map_of (sm_jobs m) [] \<noteq> None"
    then obtain j where j: "map_of (sm_jobs m) [] = Some j" by blast
    have "0 \<le> sg_unavailableRetryDelay sampleSettings" by (simp add: sampleSettings_def)
    from file_sched.reachable_valid [OF emptyDisk_wf sample_no_jobs this assms]
    have "file_sched.mgrValid sampleStore sampleSettings m" by (simp add: file_sched.sysValid_def)
    from file_sched.mgrValidD [OF this j] mgrOK_id [OF ok(1) j] show False
      by (simp add: jobValid_def validateStoredJob_None)
  qed
qed

lemmas sampleEmpty_sample = reachable_sample [OF recurring_reachable [OF sampleEmpty_reachable]]
lemmas samplePair_sample = reachable_sample [OF recurring_reachable [OF sample_reachable]]

lemma recurring_claims:
  "case claimNextDue sampleSettings sampleOps 35 (withRecurring sampleEmpty) of
     (Inr (Some (job, t)), m) \<Rightarrow> t = 30 \<and> jb_ID job = lit ''c'' \<and> \<not> jb_Done job
   | _ \<Rightarrow> False"
  by code_simp

text \<open>A recurring job that missed the occurrences at 10, 20 and 30: one run, for the latest of them.\<close>

theorem claim_contract_witness:
  "\<exists>job m' sel. claimNextDue sampleSettings sampleOps 35 (withRecurring sampleEmpty) = (Inr (Some (job, 30)), m') \<and>
     map_of (sm_jobs (withRecurring sampleEmpty)) (lit ''c'') = Some sel \<and> jb_NextFire sel \<le> 30 \<and>
     jb_Kind sel = KindRecurring \<and> 35 < jb_NextFire job \<and>
     jobAt sampleStore (w_fs (sm_store m')) (lit ''c'') = Some job"
proof -
  obtain q m' where q: "claimNextDue sampleSettings sampleOps 35 (withRecurring sampleEmpty) = (q, m')" by fastforce
  with recurring_claims obtain job where c: "q = Inr (Some (job, 30))" "jb_ID job = lit ''c''" "\<not> jb_Done job"
    by (auto split: sum.splits option.splits)
  from claim_contract [OF sampleEmpty_sample sample_cronLaws q [unfolded c(1)], unfolded option.case prod.case c(2)] c(3)
  obtain sel where "map_of (sm_jobs (withRecurring sampleEmpty)) (lit ''c'') = Some sel" "jb_NextFire sel \<le> 30"
    "jb_Kind sel = KindRecurring" "35 < jb_NextFire job" "jobAt sampleStore (w_fs (sm_store m')) (lit ''c'') = Some job"
    by (auto split: if_splits)
  with q c(1) show ?thesis by blast
qed

section \<open>How long the loop runs\<close>

text \<open>The work that is due at an instant: a pending notification counts once, a due job once.\<close>

definition jobWork :: "time \<Rightarrow> Job \<Rightarrow> nat" where
  "jobWork now job =
     (if jb_PendingRun job \<noteq> None \<and> jb_PendingNotification job \<noteq> None then 1 else 0) +
     (if jb_Done job \<or> jb_NextFire job = 0 \<or> now < jb_NextFire job then 0 else 1)"

definition work :: "time \<Rightarrow> 'w Manager \<Rightarrow> nat" where
  "work now m = sum_list (map (\<lambda>(k, job). jobWork now job) (sm_jobs m))"

lemma sum_update:
  "distinct (map fst al) \<Longrightarrow> map_of al k = Some old \<Longrightarrow>
   sum_list (map (\<lambda>(k, v). f v) (AList.update k new al)) + f old = sum_list (map (\<lambda>(k, v). f v) al) + (f new :: nat)"
  by (induction al) auto

lemma sum_delete:
  "distinct (map fst al) \<Longrightarrow> map_of al k = Some old \<Longrightarrow>
   sum_list (map (\<lambda>(k, v). f v) (AList.delete k al)) + f old = (sum_list (map (\<lambda>(k, v). f v) al) :: nat)"
proof (induction al)
  case (Cons p al)
  obtain k' v where p: "p = (k', v)" by fastforce
  show ?case
  proof (cases "k' = k")
    case True
    then have "AList.delete k al = al" using Cons.prems(1) by (simp add: p AList.delete_eq filter_id_conv) force
    then show ?thesis using Cons.prems(2) True by (simp add: p)
  next
    case False
    then show ?thesis using Cons by (simp add: p)
  qed
qed simp

lemma work_update:
  assumes "distinct (map fst (sm_jobs m))" "map_of (sm_jobs m) k = Some old" "sm_jobs m' = AList.update k new (sm_jobs m)"
  shows "work now m' + jobWork now old = work now m + jobWork now new"
  unfolding work_def assms(3) by (rule sum_update [OF assms(1,2)])

lemma work_delete:
  assumes "distinct (map fst (sm_jobs m))" "map_of (sm_jobs m) k = Some old" "sm_jobs m' = AList.delete k (sm_jobs m)"
  shows "work now m' + jobWork now old = work now m"
  unfolding work_def assms(3) by (rule sum_delete [OF assms(1,2)])

text \<open>What archiving leaves of a job: nothing if it was done, else the job without pending run and
  notification.\<close>

lemma finishPendingRun_job:
  assumes "finishPendingRun S job w = (None, job', w')" "jb_PendingRun job \<noteq> None"
  shows "jb_PendingNotification job = None" "job' = (if jb_Done job then job else job\<lparr>jb_PendingRun := None\<rparr>)"
  using assms by (auto simp: finishPendingRun_def Let_def split: option.splits if_splits sum.splits prod.splits)

lemma recordOutcome_job:
  assumes "recordOutcome S de run job w = (None, cur, w')" "jb_PendingRun job = Some run"
  shows "jb_PendingRun cur \<noteq> None" "jb_PendingNotification cur = None" "jb_Done cur = jb_Done job" "jb_NextFire cur = jb_NextFire job"
  using assms by (auto simp: recordOutcome_def Let_def split: option.splits if_splits sum.splits prod.splits)

lemma archivePending_jobs:
  assumes "archivePending S i de m = (None, m')" "map_of (sm_jobs m) i = Some job" "jb_PendingRun job = Some run"
  shows "if jb_Done job then sm_jobs m' = AList.delete i (sm_jobs m)
    else \<exists>c. sm_jobs m' = AList.update i c (sm_jobs m) \<and> jb_PendingRun c = None \<and> jb_PendingNotification c = None \<and>
      \<not> jb_Done c \<and> jb_NextFire c = jb_NextFire job"
proof -
  obtain e1 cur w1 where ro: "recordOutcome S de run job (sm_store m) = (e1, cur, w1)" by (metis prod_cases3)
  obtain e2 cur' w2 where fi: "finishPendingRun S cur w1 = (e2, cur', w2)" by (metis prod_cases3)
  have e1: "e1 = None" using assms ro by (auto simp: archivePending_def split: option.splits)
  have e2: "e2 = None" using assms ro fi e1 by (auto simp: archivePending_def split: option.splits)
  note R = recordOutcome_job [OF ro [unfolded e1] assms(3)]
  note F = finishPendingRun_job [OF fi [unfolded e2] R(1)]
  have "sm_jobs m' = (if jb_Done cur' then AList.delete i (sm_jobs m) else AList.update i cur' (sm_jobs m))"
    using assms ro fi e1 e2 by (auto simp: archivePending_def)
  then show ?thesis using R F by auto
qed

lemma archivePending_work:
  assumes "archivePending S i de m = (None, m')" "map_of (sm_jobs m) i = Some job" "jb_PendingRun job = Some run"
    "distinct (map fst (sm_jobs m))"
  shows "work now m' + jobWork now job = work now m + jobWork now (job\<lparr>jb_PendingRun := None\<rparr>)"
proof (cases "jb_Done job")
  case True
  then have "sm_jobs m' = AList.delete i (sm_jobs m)" using archivePending_jobs [OF assms(1-3)] by simp
  from work_delete [OF assms(4,2) this, of now] True show ?thesis by (simp add: jobWork_def)
next
  case False
  then obtain c where c: "sm_jobs m' = AList.update i c (sm_jobs m)" "jb_PendingRun c = None" "jb_PendingNotification c = None"
      "\<not> jb_Done c" "jb_NextFire c = jb_NextFire job"
    using archivePending_jobs [OF assms(1-3)] by auto
  from work_update [OF assms(4,2) c(1), of now] c False show ?thesis by (simp add: jobWork_def)
qed

lemma recordAndArchive_work:
  assumes "recordAndArchive S i d j m = (None, m')" "\<not> dl_ctxAfterRecord d"
    "map_of (sm_jobs m) i = Some job" "jb_PendingRun job = Some run" "distinct (map fst (sm_jobs m))"
  shows "work now m' + jobWork now job = work now m + jobWork now (job\<lparr>jb_PendingRun := None\<rparr>)"
proof -
  obtain x where "archivePending S i None (m\<lparr>sm_recorded := sm_recorded m @ [x]\<rparr>) = (None, m')"
    using assms(1,2) by (auto simp: recordAndArchive_def Let_def split: option.splits if_splits)
  from archivePending_work [OF this] assms(3-5) show ?thesis by (simp add: work_def)
qed

lemma markNotificationDelivered_job:
  assumes "markNotificationDelivered S i u m = (Inr j, m')" "map_of (sm_jobs m) i = Some job"
    "jb_PendingRun job = Some run" "distinct (map fst (sm_jobs m))"
  shows "\<exists>job'. map_of (sm_jobs m') i = Some job' \<and> jb_PendingRun job' = Some run \<and> jobWork now job' = jobWork now job \<and>
    jobWork now (job'\<lparr>jb_PendingRun := None\<rparr>) = jobWork now (job\<lparr>jb_PendingRun := None\<rparr>) \<and>
    distinct (map fst (sm_jobs m')) \<and> work now m' = work now m"
proof -
  obtain n where n: "jb_PendingNotification job = Some n"
    using assms(1-3) by (auto simp: markNotificationDelivered_def split: option.splits)
  let ?cur = "job\<lparr>jb_PendingNotification := Some (n\<lparr>nt_DeliveredAt := u\<rparr>)\<rparr>"
  have same: "jobWork now ?cur = jobWork now job" using n by (simp add: jobWork_def)
  have "m' = m \<or> sm_jobs m' = AList.update i ?cur (sm_jobs m)"
    using assms(1-3) n by (auto simp: markNotificationDelivered_def Let_def split: sum.splits if_splits prod.splits)
  then show ?thesis
  proof
    assume u: "sm_jobs m' = AList.update i ?cur (sm_jobs m)"
    then show ?thesis using work_update [OF assms(4,2) u, of now] assms(3,4) same
      by (auto simp: jobWork_def distinct_update)
  qed (use assms in auto)
qed

lemma finalizePendingRun_work:
  assumes "finalizePendingRun S i d m = (None, m')" "\<not> dl_ctxAfterPublish d" "\<not> dl_ctxAfterRecord d"
    "map_of (sm_jobs m) i = Some job" "jb_PendingRun job = Some run" "distinct (map fst (sm_jobs m))"
  shows "work now m' + jobWork now job = work now m + jobWork now (job\<lparr>jb_PendingRun := None\<rparr>)"
proof (cases "\<exists>n. jb_PendingNotification job = Some n \<and> nt_DeliveredAt n = 0")
  case False
  then have "archivePending S i None m = (None, m') \<or> recordAndArchive S i d job m = (None, m')"
    using assms(1,4,5) by (auto simp: finalizePendingRun_def split: option.splits if_splits)
  then show ?thesis using archivePending_work [OF _ assms(4-6)] recordAndArchive_work [OF _ assms(3-6)] by blast
next
  case True
  then obtain n where n: "jb_PendingNotification job = Some n" "nt_DeliveredAt n = 0" by blast
  let ?m = "m\<lparr>sm_published := sm_published m @ [(outbound n, dl_publishErr d)]\<rparr>"
  have m: "map_of (sm_jobs ?m) i = Some job" "distinct (map fst (sm_jobs ?m))" "work now ?m = work now m"
    using assms(4,6) by (simp_all add: work_def)
  show ?thesis
  proof (cases "dl_publishErr d")
    case (Some msg)
    then have "archivePending S i (Some msg) ?m = (None, m')"
      using assms(1,2,4,5) n by (simp add: finalizePendingRun_def Let_def)
    from archivePending_work [OF this m(1) assms(5) m(2)] m(3) show ?thesis by simp
  next
    case None
    obtain r m1 where mk: "markNotificationDelivered S i (dl_deliveredAt d) ?m = (r, m1)" by fastforce
    with assms(1,4,5) n None obtain j where j: "r = Inr j" "recordAndArchive S i d j m1 = (None, m')"
      by (auto simp: finalizePendingRun_def Let_def split: sum.splits)
    from markNotificationDelivered_job [OF mk [unfolded j(1)] m(1) assms(5) m(2), of now]
    obtain job' where job': "map_of (sm_jobs m1) i = Some job'" "jb_PendingRun job' = Some run" "jobWork now job' = jobWork now job"
      "jobWork now (job'\<lparr>jb_PendingRun := None\<rparr>) = jobWork now (job\<lparr>jb_PendingRun := None\<rparr>)"
      "distinct (map fst (sm_jobs m1))" "work now m1 = work now ?m" by blast
    from recordAndArchive_work [OF j(2) assms(3) job'(1,2,5), of now] job' m(3) show ?thesis by simp
  qed
qed

lemma nextAfterRun_not_due:
  assumes "nextAfterRun cfg f st c = Inr c'" and laws: "cronLaws (sg_cron cfg)"
    and clock: "now \<le> f" "0 < sg_unavailableRetryDelay cfg" and "jb_Done c \<or> now < jb_NextFire c"
  shows "jb_Done c' \<or> now < jb_NextFire c'"
proof -
  let ?c = "if st = StatusModelUnavailable \<and> jb_Kind c = KindOneShot
            then c\<lparr>jb_Done := False, jb_NextFire := f + sg_unavailableRetryDelay cfg\<rparr> else c"
  have later: "jb_Done ?c \<or> now < jb_NextFire ?c" using assms(3-5) by simp
  show ?thesis
  proof (cases "jb_Kind ?c = KindRecurring \<and> (jb_NextFire ?c = 0 \<or> \<not> f < jb_NextFire ?c)")
    case False
    then have "c' = ?c" using assms(1) unfolding nextAfterRun_def Let_def by (simp only: if_False sum.inject)
    then show ?thesis using later by simp
  next
    case True
    then obtain expr n where e: "Parse (sg_cron cfg) (jb_Cron ?c) = Inr expr" "Next expr f = Some n" "c' = ?c\<lparr>jb_NextFire := n\<rparr>"
      using assms(1) unfolding nextAfterRun_def Let_def by (auto split: sum.splits option.splits)
    have "now < jb_NextFire c'" using Parse_laws(1) [OF laws e(1,2)] clock(1) e(3) by simp
    then show ?thesis by simp
  qed
qed

lemma finishedJob_not_due:
  assumes f: "finishedJob cfg job t ex job = Inr j" and laws: "cronLaws (sg_cron cfg)"
    and clock: "now \<le> ex_finishedAt ex" "0 < sg_unavailableRetryDelay cfg"
    and claimed: "jb_Done job \<or> now < jb_NextFire job"
  shows "jobWork now (j\<lparr>jb_PendingRun := None\<rparr>) = 0"
proof -
  from finishedJob_fields(10) [OF f] obtain c where
    c: "nextAfterRun cfg (ex_finishedAt ex) (runStatus (effectiveError cfg job ex) (ex_ctxAfterRun ex)) c =
          Inr (c\<lparr>jb_NextFire := jb_NextFire j, jb_Done := jb_Done j\<rparr>)"
    "jb_Cron c = jb_Cron job" "jb_Done c = jb_Done job" "jb_NextFire c = jb_NextFire job" by blast
  have "jb_Done j \<or> now < jb_NextFire j"
    using nextAfterRun_not_due [OF c(1) laws clock] claimed by (simp add: c(3,4))
  then show ?thesis by (auto simp: jobWork_def)
qed

lemma executeClaimed_work:
  assumes ok: "mgrOK m (Some (job, t))" and laws: "cronLaws (sg_cron cfg)"
    and clock: "now \<le> ex_finishedAt ex" "0 < sg_unavailableRetryDelay cfg"
    and d: "\<not> dl_ctxAfterPublish d" "\<not> dl_ctxAfterRecord d"
    and claimed: "jb_Done job \<or> now < jb_NextFire job"
    and step: "executeClaimed cfg S job t ex d m = (None, m')"
  shows "work now m' + jobWork now job = work now m"
proof -
  note fl = mgrOK_flight [OF ok] and dist = mgrOK_distinct [OF ok]
  obtain cur where cur: "finishedJob cfg job t ex job = Inr cur"
    using step fl by (auto simp: executeClaimed_def completeRun_def split: sum.splits)
  obtain q w where st: "so_StoreJob S cur (sm_store m) = (q, w)" by fastforce
  let ?m = "m\<lparr>sm_jobs := AList.update (jb_ID job) cur (sm_jobs m), sm_store := w\<rparr>"
  have fin: "finalizePendingRun S (jb_ID job) d ?m = (None, m')"
    using step fl cur st by (auto simp: executeClaimed_def completeRun_def split: sum.splits)
  have at: "map_of (sm_jobs ?m) (jb_ID job) = Some cur" "distinct (map fst (sm_jobs ?m))"
    using dist by (simp_all add: distinct_update)
  obtain run where run: "jb_PendingRun cur = Some run" using finishedJob_keeps [OF cur] by blast
  have "work now m' + jobWork now cur = work now ?m + jobWork now (cur\<lparr>jb_PendingRun := None\<rparr>)"
    by (rule finalizePendingRun_work [OF fin d at(1) run at(2)])
  moreover have "work now ?m + jobWork now job = work now m + jobWork now cur"
    using fl by (intro work_update [OF dist]) simp_all
  moreover have "jobWork now (cur\<lparr>jb_PendingRun := None\<rparr>) = 0" by (rule finishedJob_not_due [OF cur laws clock claimed])
  ultimately show ?thesis by simp
qed

text \<open>The loop of \<open>Run\<close> while its clock stands at one instant, for at most \<open>n\<close> iterations; the
  answers of each iteration's run and delivery are given by its number.\<close>

fun runLoop ::
  "Settings \<Rightarrow> 'w StoreOps \<Rightarrow> time \<Rightarrow> (nat \<Rightarrow> Execution) \<Rightarrow> (nat \<Rightarrow> Delivery) \<Rightarrow> nat \<Rightarrow> 'w Manager \<Rightarrow>
   run_outcome \<times> 'w Manager"
where
  "runLoop cfg S now exs ds 0 m = (Again, m)"
| "runLoop cfg S now exs ds (Suc n) m =
     (case runOnce cfg S False now now (exs n) (ds n) m of
        (Again, m) \<Rightarrow> runLoop cfg S now exs ds n m
      | r \<Rightarrow> r)"

context scheduler
begin

lemma runOnce_progress:
  assumes ok: "sound (sm_store m)" "mgrOK m None" and laws: "cronLaws (sg_cron cfg)"
    and clock: "now \<le> ex_finishedAt ex" "0 < sg_unavailableRetryDelay cfg"
    and d: "\<not> dl_ctxAfterPublish d" "\<not> dl_ctxAfterRecord d"
    and step: "runOnce cfg S False now later ex d m = (Again, m')"
  shows "sound (sm_store m') \<and> mgrOK m' None \<and> work now m' < work now m \<and>
    (map_of (sm_jobs m) [] = None \<longrightarrow> map_of (sm_jobs m') [] = None)"
proof (cases "nextPendingNotification m")
  case (Some i)
  from nextPendingNotification_Some [OF ok(2) Some] obtain job run n where
    at: "map_of (sm_jobs m) i = Some job" "jb_PendingRun job = Some run" and n: "jb_PendingNotification job = Some n" by blast
  have fin: "finalizePendingRun S i d m = (None, m')"
    using step Some by (auto simp: runOnce_def split: prod.splits option.splits)
  have "jobWork now (job\<lparr>jb_PendingRun := None\<rparr>) < jobWork now job" using at n by (simp add: jobWork_def)
  moreover note finalizePendingRun_work [OF fin d at mgrOK_distinct [OF ok(2)], of now]
  moreover have "safeStep i m m'" by (rule finalizePendingRun_safe [OF ok at fin])
  moreover from this at have "map_of (sm_jobs m) [] = None \<longrightarrow> map_of (sm_jobs m') [] = None"
    by (cases "i = []") (auto simp: safeStep_def touches_def)
  ultimately show ?thesis using safeStep_sound by fastforce
next
  case None
  obtain q m1 where cl: "claimNextDue cfg S now m = (q, m1)" by fastforce
  with step None obtain job t where q: "q = Inr (Some (job, t))" and ex: "executeClaimed cfg S job t ex d m1 = (None, m')"
    by (auto simp: runOnce_def split: prod.splits option.splits sum.splits)
  note C = claimNextDue_claims [OF ok cl [unfolded q]]
  then obtain sel job0 where sel: "selectDue now m = Some sel" and adv: "advance cfg now sel = Inr (job0, t)"
    and job: "job = markClaimed now t job0" by blast
  note S = selectDue_Some [OF ok(2) sel]
  have due: "jb_NextFire sel \<le> now" "jobWork now sel \<noteq> 0" using S(2) by (auto simp: due_def jobWork_def)
  have later: "jb_Done job \<or> now < jb_NextFire job"
    using advance_contract [OF laws adv due(1)] by (auto simp: job split: if_splits)
  have jobs: "sm_jobs m1 = AList.update (jb_ID job) job (sm_jobs m)" "sound (sm_store m1)" "jb_ID sel = jb_ID job"
    using cl sel adv q C advance_keeps [OF adv]
    by (auto simp: claimNextDue_def Let_def job touches_def split: sum.splits prod.splits)
  have "work now m1 + jobWork now sel = work now m + jobWork now job"
    using work_update [OF mgrOK_distinct [OF ok(2)] _ jobs(1)] S(1) jobs(3) by simp
  moreover have "work now m' + jobWork now job = work now m1"
    using executeClaimed_work [OF _ laws clock d later ex] C by blast
  ultimately have "work now m' < work now m" using due(2) by simp
  moreover have "safeStep (jb_ID job) m1 m'" using executeClaimed_safe [OF jobs(2) _ ex] C by blast
  moreover from this C S(3) jobs(3) have "map_of (sm_jobs m) [] = None \<longrightarrow> map_of (sm_jobs m') [] = None"
    by (auto simp: safeStep_def touches_def)
  ultimately show ?thesis using safeStep_sound by blast
qed

text \<open>What the loop has reached when it no longer goes on: an error of the store or the recorder, or a
  state with nothing left to do at this instant.\<close>

lemma runLoop_stops:
  assumes "cronLaws (sg_cron cfg)" "0 < sg_unavailableRetryDelay cfg"
    "\<And>k. now \<le> ex_finishedAt (exs k)" "\<And>k. \<not> dl_ctxAfterPublish (ds k)" "\<And>k. \<not> dl_ctxAfterRecord (ds k)"
    "sound (sm_store m)" "mgrOK m None" "map_of (sm_jobs m) [] = None" "work now m < n"
    "runLoop cfg S now exs ds n m = (outcome, m')"
  shows "(\<exists>e. outcome = Stopped (Some e)) \<or>
    outcome = Wait (timerWait (nextFire m') now) \<and> nextPendingNotification m' = None \<and>
      (\<forall>k j. map_of (sm_jobs m') k = Some j \<longrightarrow> \<not> due now (sm_running m') j)"
  using assms(6-10)
proof (induction n arbitrary: m)
  case (Suc n)
  obtain r m1 where r: "runOnce cfg S False now now (exs n) (ds n) m = (r, m1)" by fastforce
  show ?case
  proof (cases "r = Again")
    case True
    from runOnce_progress [OF Suc.prems(1,2) assms(1) assms(3) assms(2) assms(4,5) r [unfolded True]] Suc.prems r True
    show ?thesis by (intro Suc.IH [of m1]) simp_all
  next
    case False
    then have res: "outcome = r" "m' = m1" using r Suc.prems(5) by (cases r; simp)+
    obtain q mc where cl: "claimNextDue cfg S now m = (q, mc)" by fastforce
    show ?thesis
    proof (cases "\<exists>e. r = Stopped (Some e)")
      case True
      then show ?thesis using res by simp
    next
      case F: False
      then have w: "nextPendingNotification m = None" "q = Inr None" "m1 = mc" "r = Wait (timerWait (nextFire mc) now)"
        using r cl False by (auto simp: runOnce_def split: option.splits prod.splits sum.splits)
      then have "selectDue now m = None" "mc = m"
        using cl by (auto simp: claimNextDue_def Let_def split: option.splits sum.splits prod.splits)
      then show ?thesis using res w selectDue_least(2) [OF Suc.prems(2,3)] by auto
    qed
  qed
qed simp

end

lemma work_bound: "work now m \<le> 2 * length (sm_jobs m)"
proof -
  have "sum_list (map (\<lambda>(k, job). jobWork now job) js) \<le> 2 * length js" for js
    by (induction js) (auto simp: jobWork_def)
  then show ?thesis by (simp add: work_def)
qed

text \<open>The wait until the earliest next occurrence.\<close>

lemma nextFire_least:
  assumes "(k, job) \<in> set (sm_jobs m)" "\<not> jb_Done job" "0 < jb_NextFire job"
  shows "nextFire m \<noteq> 0 \<and> nextFire m \<le> jb_NextFire job"
proof -
  let ?f = "\<lambda>next (i, job). if jb_Done job \<or> jb_NextFire job = 0 then next
       else if next = 0 \<or> jb_NextFire job < next then jb_NextFire job else next"
  have keep: "foldl ?f a js \<noteq> 0 \<and> foldl ?f a js \<le> a" if "a \<noteq> 0" for a :: int and js :: "(gostr \<times> Job) list"
    using that
  proof (induction js arbitrary: a)
    case (Cons p js)
    have "?f a p \<noteq> 0 \<and> ?f a p \<le> a" using Cons.prems by (cases p) auto
    with Cons.IH [of "?f a p"] show ?case by auto
  qed simp
  have "foldl ?f a js \<noteq> 0 \<and> foldl ?f a js \<le> jb_NextFire job" if "(k, job) \<in> set js" for a js
    using that
  proof (induction js arbitrary: a)
    case (Cons p js)
    show ?case
    proof (cases "p = (k, job)")
      case True
      have "?f a p \<noteq> 0" "?f a p \<le> jb_NextFire job" using True assms(2,3) by auto
      with keep [of "?f a p" js] show ?thesis by auto
    next
      case False
      with Cons show ?thesis by simp
    qed
  qed simp
  then show ?thesis using assms(1) by (simp add: nextFire_def)
qed

lemma timerWait_bounds:
  assumes "(k, job) \<in> set (sm_jobs m)" "\<not> jb_Done job" "0 < jb_NextFire job"
  shows "now + timerWait (nextFire m) now \<le> max now (jb_NextFire job)"
proof -
  have "nextFire m \<noteq> 0" "nextFire m \<le> jb_NextFire job" using nextFire_least [OF assms] by auto
  then show ?thesis by (auto simp: timerWait_def Let_def min_def max_def)
qed

lemma timerWait_range: "0 \<le> timerWait next now \<and> timerWait next now < 2 ^ 63"
  by (auto simp: timerWait_def Let_def min_def max_def)

text \<open>
  C13: the loop catches up and then waits.  With the clock at one instant and no cancellation, the loop
  needs at most two iterations for each job, however many occurrences were missed and whatever the
  executor, the publisher and the recorder answer: it ends with an error, or it waits, with no
  notification pending and no job due.
\<close>

theorem loop_catches_up:
  assumes "mgrOK m None" "wfFs (w_fs (sm_store m))" "map_of (sm_jobs m) [] = None"
    "cronLaws (sg_cron cfg)" "0 < sg_unavailableRetryDelay cfg" "\<And>k. now \<le> ex_finishedAt (exs k)"
    "\<And>k. \<not> dl_ctxAfterPublish (ds k) \<and> \<not> dl_ctxAfterRecord (ds k)" "2 * length (sm_jobs m) < n"
  shows "\<exists>outcome m'. runLoop cfg (fileStoreOps st) now exs ds n m = (outcome, m') \<and>
    ((\<exists>e. outcome = Stopped (Some e)) \<or>
     outcome = Wait (timerWait (nextFire m') now) \<and> nextPendingNotification m' = None \<and>
       (\<forall>k j. map_of (sm_jobs m') k = Some j \<longrightarrow> \<not> due now (sm_running m') j))"
proof -
  obtain outcome m' where r: "runLoop cfg (fileStoreOps st) now exs ds n m = (outcome, m')" by fastforce
  have "work now m < n" using work_bound [of now m] assms(8) by simp
  from file_sched.runLoop_stops [OF assms(4,5,6) _ _ assms(2,1,3) this r] assms(7) r show ?thesis by blast
qed

text \<open>A recurring job with three missed occurrences beside a one-shot job that is due.\<close>

theorem loop_catches_up_witness:
  "\<exists>outcome m'. runLoop sampleSettings sampleOps 35 (\<lambda>_. sampleExecution\<lparr>ex_finishedAt := 36\<rparr>) (\<lambda>_. sampleDelivery)
      5 (withRecurring sampleManager) = (outcome, m') \<and>
    ((\<exists>e. outcome = Stopped (Some e)) \<or>
     outcome = Wait (timerWait (nextFire m') 35) \<and> nextPendingNotification m' = None \<and>
       (\<forall>k j. map_of (sm_jobs m') k = Some j \<longrightarrow> \<not> due 35 (sm_running m') j))"
proof -
  have "length (sm_jobs (withRecurring sampleManager)) = 2" by code_simp
  then show ?thesis
    by (intro loop_catches_up [OF samplePair_sample sample_cronLaws])
      (simp_all add: sampleSettings_def sampleExecution_def sampleDelivery_def)
qed

text \<open>
  The loop never oversleeps.  The wait is never negative and fits in 64 bits, although the
  difference of two times may not; and a job that is not done is never due before the timer fires,
  unless it is due already.
\<close>

theorem timer_never_oversleeps:
  assumes "map_of (sm_jobs m) k = Some job" "\<not> jb_Done job" "0 < jb_NextFire job"
  shows "now + timerWait (nextFire m) now \<le> max now (jb_NextFire job) \<and>
    0 \<le> timerWait (nextFire m) now \<and> timerWait (nextFire m) now < 2 ^ 63"
  using timerWait_bounds [OF map_of_SomeD [OF assms(1)] assms(2,3)] timerWait_range by blast

theorem timer_never_oversleeps_witness:
  "let m = addJob sampleJob (emptyManager ()) in
   2 + timerWait (nextFire m) 2 \<le> max 2 7 \<and> timerWait (nextFire m) 2 = 5"
  using timer_never_oversleeps [of "addJob sampleJob (emptyManager ())" "jb_ID sampleJob" sampleJob 2]
  by (simp add: addJob_def emptyManager_def sampleJob_def jobOfRun_def nextFire_def timerWait_def Let_def)

section \<open>Notifications\<close>

text \<open>The notification as it stands after the publisher answered.\<close>

definition afterPublish :: "Delivery \<Rightarrow> Notification \<Rightarrow> Notification" where
  "afterPublish d n =
     (if nt_DeliveredAt n = 0 \<and> dl_publishErr d = None then n\<lparr>nt_DeliveredAt := dl_deliveredAt d\<rparr> else n)"

context scheduler
begin

lemma archivePending_outcome:
  assumes ok: "sound (sm_store m)" and at: "map_of (sm_jobs m) i = Some job" "jb_PendingRun job = Some run"
    "jb_PendingNotification job \<noteq> None" and step: "archivePending S i de m = (e, m')" and i: "i \<in> set (sm_running m)"
  shows "sm_published m' = sm_published m \<and> sm_recorded m' = sm_recorded m \<and>
    (if i \<in> set (sm_running m') then sm_jobs m' = sm_jobs m
     else e = None \<and> (case de of None \<Rightarrow> run | Some msg \<Rightarrow> run\<lparr>rr_NotifyError := msg\<rparr>) \<in> runsIn (sm_store m'))"
proof -
  let ?run = "case de of None \<Rightarrow> run | Some msg \<Rightarrow> run\<lparr>rr_NotifyError := msg\<rparr>"
  obtain e1 cur w1 where ro: "recordOutcome S de run job (sm_store m) = (e1, cur, w1)" by (metis prod_cases3)
  obtain e2 cur' w2 where fi: "finishPendingRun S cur w1 = (e2, cur', w2)" by (metis prod_cases3)
  show ?thesis
  proof (cases "e1 = None \<and> e2 = None")
    case False
    then have "\<exists>w. m' = m\<lparr>sm_store := w\<rparr>"
      using step at ro fi by (auto simp: archivePending_def split: option.splits)
    then show ?thesis using i by auto
  next
    case True
    then have m': "e = None" "sm_store m' = w2" "sm_published m' = sm_published m" "sm_recorded m' = sm_recorded m"
      "i \<notin> set (sm_running m')"
      using step at ro fi by (auto simp: archivePending_def stopRunning_def)
    have cur: "jb_PendingRun cur = Some ?run"
      using ro at(2,3) True by (auto simp: recordOutcome_def Let_def split: option.splits if_splits sum.splits prod.splits)
    have "sound w1" using recordOutcome_frame [OF ok ro at(2)] by blast
    from finishPendingRun_frame [OF this fi, of ?run] cur True m' show ?thesis by simp
  qed
qed

lemma recordAndArchive_outcome:
  assumes ok: "sound (sm_store m)" and at: "map_of (sm_jobs m) i = Some j" "jb_PendingRun j = Some run"
    "jb_PendingNotification j = Some n"
    and step: "recordAndArchive S i d j m = (e, m')" and i: "i \<in> set (sm_running m)"
  shows "sm_published m' = sm_published m \<and>
    (if i \<in> set (sm_running m')
     then sm_jobs m' = sm_jobs m \<and> (dl_recordErr d \<noteq> None \<longrightarrow> sm_store m' = sm_store m) \<and>
       (if nt_DeliveredAt n = 0 then sm_recorded m' = sm_recorded m
        else sm_recorded m' = sm_recorded m @ [(delivered j run n, dl_recordErr d)])
     else e = None \<and> nt_DeliveredAt n \<noteq> 0 \<and> sm_recorded m' = sm_recorded m @ [(delivered j run n, None)] \<and>
       run \<in> runsIn (sm_store m'))"
proof (cases "nt_DeliveredAt n = 0 \<or> dl_recordErr d \<noteq> None")
  case True
  then show ?thesis using step at i by (auto simp: recordAndArchive_def Let_def split: if_splits)
next
  case False
  let ?m = "m\<lparr>sm_recorded := sm_recorded m @ [(delivered j run n, dl_recordErr d)]\<rparr>"
  have "archivePending S i None ?m = (e, m')" using False step at by (simp add: recordAndArchive_def Let_def)
  from archivePending_outcome [of ?m, OF _ _ at(2) _ this] ok at(1,3) i False show ?thesis by auto
qed

lemma keepNotification [simp]:
  "jb_PendingNotification job = Some n \<Longrightarrow> job\<lparr>jb_PendingNotification := Some n\<rparr> = job"
  by (cases job) simp

lemma markNotificationDelivered_outcome:
  assumes ok: "sound (sm_store m)" and at: "map_of (sm_jobs m) i = Some job" "jb_PendingRun job = Some run"
    "jb_PendingNotification job = Some n" "nt_DeliveredAt n = 0" "jb_ID job = i"
    and step: "markNotificationDelivered S i u m = (r, m')"
  shows "sm_running m' = sm_running m \<and> sm_published m' = sm_published m \<and> sm_recorded m' = sm_recorded m \<and>
    (case r of Inl e \<Rightarrow> sm_jobs m' = sm_jobs m
     | Inr j \<Rightarrow> j = job\<lparr>jb_PendingNotification := Some (n\<lparr>nt_DeliveredAt := u\<rparr>)\<rparr> \<and>
         map_of (sm_jobs m') i = Some j \<and> jobsIn (sm_store m') i = Some j)"
proof -
  let ?cur = "job\<lparr>jb_PendingNotification := Some (n\<lparr>nt_DeliveredAt := u\<rparr>)\<rparr>"
  obtain q w where st: "so_StoreJob S ?cur (sm_store m) = (q, w)" by fastforce
  have "jobsIn w i = Some ?cur" if "q = Inr x" for x using store_ok [OF ok st [unfolded that]] at(5) by simp
  then show ?thesis using step at st
    by (cases q) (auto simp: markNotificationDelivered_def Let_def)
qed

lemma finalizePendingRun_notifies:
  assumes ok: "sound (sm_store m)" "mgrOK m None" and at: "map_of (sm_jobs m) i = Some job" "jb_PendingRun job = Some run"
    "jb_PendingNotification job = Some n" and step: "finalizePendingRun S i d m = (e, m')"
  shows "sm_published m' = sm_published m @ (if nt_DeliveredAt n = 0 then [(outbound n, dl_publishErr d)] else []) \<and>
    (if i \<in> set (sm_running m')
     then \<exists>n'. (n' = n \<or> n' = afterPublish d n) \<and>
       map_of (sm_jobs m') i = Some (job\<lparr>jb_PendingNotification := Some n'\<rparr>) \<and>
       sm_recorded m' = sm_recorded m @ (if nt_DeliveredAt n' = 0 then [] else [(delivered job run n', dl_recordErr d)]) \<and>
       (n' \<noteq> n \<and> dl_recordErr d \<noteq> None \<longrightarrow>
          jobsIn (sm_store m') i = Some (job\<lparr>jb_PendingNotification := Some n'\<rparr>))
     else e = None \<and>
       (if nt_DeliveredAt n = 0 \<and> dl_publishErr d \<noteq> None
        then sm_recorded m' = sm_recorded m \<and> run\<lparr>rr_NotifyError := the (dl_publishErr d)\<rparr> \<in> runsIn (sm_store m')
        else nt_DeliveredAt (afterPublish d n) \<noteq> 0 \<and>
          sm_recorded m' = sm_recorded m @ [(delivered job run (afterPublish d n), None)] \<and> run \<in> runsIn (sm_store m')))"
proof -
  have i: "i \<in> set (sm_running m)" "jb_ID job = i" using mgrOK_pending [OF ok(2) at(1,2)] mgrOK_id [OF ok(2) at(1)] by auto
  show ?thesis
  proof (cases "nt_DeliveredAt n = 0")
    case False
    then have "recordAndArchive S i d job m = (e, m')" using step at by (simp add: finalizePendingRun_def)
    from recordAndArchive_outcome [OF ok(1) at this i(1)] False at show ?thesis
      by (cases "i \<in> set (sm_running m')") (simp_all add: afterPublish_def)
  next
    case True
    let ?m = "m\<lparr>sm_published := sm_published m @ [(outbound n, dl_publishErr d)]\<rparr>"
    show ?thesis
    proof (cases "dl_publishErr d")
      case (Some msg)
      have ans: "afterPublish d n = n" by (simp add: afterPublish_def Some)
      have "m' = ?m \<or> archivePending S i (Some msg) ?m = (e, m')"
        using step at True Some by (auto simp: finalizePendingRun_def Let_def split: if_splits)
      then show ?thesis
      proof
        assume "m' = ?m"
        then show ?thesis using at i True ans by simp
      next
        assume "archivePending S i (Some msg) ?m = (e, m')"
        from archivePending_outcome [of ?m, OF _ _ at(2) _ this] ok(1) at i True Some ans show ?thesis
          by (cases "i \<in> set (sm_running m')") simp_all
      qed
    next
      case None
      have ans: "afterPublish d n = n\<lparr>nt_DeliveredAt := dl_deliveredAt d\<rparr>" using True None by (simp add: afterPublish_def)
      obtain r m1 where mk: "markNotificationDelivered S i (dl_deliveredAt d) ?m = (r, m1)" by fastforce
      have okm: "sound (sm_store ?m)" "map_of (sm_jobs ?m) i = Some job" "mgrOK ?m None"
        using ok at(1) mgrOK_cong [of ?m m None] by simp_all
      note M = markNotificationDelivered_outcome [OF okm(1,2) at(2,3) True i(2) mk]
      show ?thesis
      proof (cases r)
        case (Inl x)
        then have "m' = m1" using step at True None mk by (simp add: finalizePendingRun_def Let_def)
        with M Inl at i True None show ?thesis by (simp, intro exI [of _ n]) simp
      next
        case (Inr j)
        then have ra: "recordAndArchive S i d j m1 = (e, m')" using step at True None mk by (simp add: finalizePendingRun_def Let_def)
        have j: "j = job\<lparr>jb_PendingNotification := Some (afterPublish d n)\<rparr>" using M Inr ans by simp
        have m1: "map_of (sm_jobs m1) i = Some j" "jobsIn (sm_store m1) i = Some j" "i \<in> set (sm_running m1)"
          "sm_published m1 = sm_published m @ [(outbound n, dl_publishErr d)]" "sm_recorded m1 = sm_recorded m"
          using M Inr i(1) by simp_all
        have jr: "jb_PendingRun j = Some run" "jb_PendingNotification j = Some (afterPublish d n)" using j at(2) by simp_all
        have del: "delivered j run x = delivered job run x" for x by (simp add: j delivered_def)
        have "sound (sm_store m1)" using markNotificationDelivered_safe [OF okm(1,3,2) at(2) mk] safeStep_sound by blast
        note R = recordAndArchive_outcome [OF this m1(1) jr ra m1(3), unfolded del m1(4,5)]
        show ?thesis
        proof (cases "i \<in> set (sm_running m')")
          case K: True
          have "sm_recorded m' = sm_recorded m @ (if nt_DeliveredAt (afterPublish d n) = 0 then []
              else [(delivered job run (afterPublish d n), dl_recordErr d)])"
            "map_of (sm_jobs m') i = Some j" "dl_recordErr d \<noteq> None \<longrightarrow> jobsIn (sm_store m') i = Some j"
            using R K m1 by (simp_all split: if_splits)
          then show ?thesis using R K True unfolding j by auto
        next
          case False
          then show ?thesis using R True None by simp
        qed
      qed
    qed
  qed
qed

end


definition sampleNotification :: Notification where
  "sampleNotification = \<lparr>nt_Channel = lit ''c'', nt_ChatID = lit ''d'', nt_Text = lit ''t'', nt_DeliveredAt = 0\<rparr>"

abbreviation notifiedJob :: "Notification \<Rightarrow> Job" where
  "notifiedJob n \<equiv> sampleJob\<lparr>jb_PendingRun := Some sampleRun, jb_PendingNotification := Some n\<rparr>"

definition sampleNotified :: "store_world Manager" where
  "sampleNotified =
     (addJob (notifiedJob sampleNotification) (emptyManager (emptyDisk [])))\<lparr>sm_running := [jb_ID sampleJob]\<rparr>"

lemma sampleNotified_ok: "mgrOK sampleNotified None" "wfFs (w_fs (sm_store sampleNotified))"
  using emptyDisk_wf [of "[]"] by (auto simp: sampleNotified_def mgrOK_def addJob_def emptyManager_def sampleJob_def jobOfRun_def)

text \<open>The recorder fails the first time and answers the second: one delivery, two identical recordings.\<close>

definition recorderFails :: Delivery where
  "recorderFails = sampleDelivery\<lparr>dl_recordErr := Some (lit ''busy'')\<rparr>"

lemma sampleNotified_retry:
  "case finalizePendingRun sampleOps (lit ''a'') recorderFails sampleNotified of (e, m) \<Rightarrow>
     sm_running m = [lit ''a''] \<and>
     map (\<lambda>(i, j). map_option nt_DeliveredAt (jb_PendingNotification j)) (sm_jobs m) = [Some 12] \<and>
     (case finalizePendingRun sampleOps (lit ''a'') sampleDelivery m of (e, m) \<Rightarrow> e = None \<and> sm_running m = [])"
  by code_simp


end
