(* ===== verification/Schedule_Requests.thy ===== *)
theory Schedule_Requests
  imports Schedule_Validity
begin

text \<open>
  What the scheduler's requests promise to their callers: what a created job is and where it is kept,
  that owners do not see or change each other's jobs, and the order of a listing.
\<close>

section \<open>Creating\<close>

lemma buildJob_timing:
  assumes "buildJob cfg now newID owner req = Inr job"
  shows "jb_Kind job = KindOneShot \<and> now < jb_NextFire job \<and> jb_NextFire job = cq_RunAt req \<or>
    jb_Kind job = KindRecurring \<and>
      (\<exists>e. Parse (sg_cron cfg) (trimSpace (cq_Cron req)) = Inr e \<and> Next e now = Some (jb_NextFire job))"
proof -
  obtain i job0 where b: "job = job0\<lparr>jb_ID := trimSpace i\<rparr>"
    "prepareSchedule (sg_cron cfg) (newJob cfg owner req now) now True = Inr job0"
    using assms by (rule buildJob_Inr)
  have n: "jb_RunAt (newJob cfg owner req now) = cq_RunAt req" "jb_Cron (newJob cfg owner req now) = trimSpace (cq_Cron req)"
    by (simp_all add: newJob_def Let_def)
  show ?thesis
    using b(2) unfolding b(1) prepareSchedule_def Let_def
    by (auto simp: n split: if_splits sum.splits option.splits)
qed

lemma update_new: "k \<notin> fst ` set al \<Longrightarrow> AList.update k v al = al @ [(k, v)]"
  by (induction al) auto

text \<open>
  C18: what a successful creation means.  The caller is authorized; the new job, under an id no other
  job has, is in the manager and on disk exactly as returned; it belongs to the caller; it passes the
  validation of stored jobs, so that it will load again; it fires in the future, a one-shot job at the
  requested time and a recurring one at the next occurrence of its expression; the limit on jobs is
  kept, every other job is as before, and the loop is woken.
\<close>

theorem Create_contract:
  assumes "wfFs (w_fs (sm_store m))"
    "Create cfg (fileStoreOps st) now newID owner req m = (Inr job, m')"
  shows "authorize cfg owner = None \<and> map_of (sm_jobs m) (jb_ID job) = None \<and>
    map_of (sm_jobs m') = (map_of (sm_jobs m))(jb_ID job \<mapsto> job) \<and>
    jobAt st (w_fs (sm_store m')) = (jobAt st (w_fs (sm_store m)))(jb_ID job \<mapsto> job) \<and>
    sameOwner (jb_Owner job) owner \<and>
    validateStoredJob (sg_cron cfg) (sg_uuid cfg) (sg_maxTurns cfg) job = None \<and>
    (jb_Kind job = KindOneShot \<and> now < jb_NextFire job \<and> jb_NextFire job = cq_RunAt req \<or>
     jb_Kind job = KindRecurring \<and>
       (\<exists>e. Parse (sg_cron cfg) (trimSpace (cq_Cron req)) = Inr e \<and> Next e now = Some (jb_NextFire job))) \<and>
    length (sm_jobs m') \<le> nat (sg_maxJobs cfg) \<and> sm_wake m'"
proof -
  have a: "authorize cfg owner = None" using assms(2) by (auto simp: Create_def split: option.splits)
  obtain job1 where b: "buildJob cfg now newID owner req = Inr job1"
    using assms(2) a by (auto simp: Create_def split: sum.splits)
  have lim: "int (length (sm_jobs m)) < sg_maxJobs cfg" "map_of (sm_jobs m) (jb_ID job1) = None"
    using assms(2) a b by (auto simp: Create_def split: if_splits)
  obtain q w where st: "StoreJob st job1 (sm_store m) = (q, w)" by fastforce
  have res: "q = Inr ()" "job = job1" "sm_store m' = w" "sm_jobs m' = AList.update (jb_ID job) job (sm_jobs m)" "sm_wake m'"
    using assms(2) a b lim st by (auto simp: Create_def notifyWake_def split: sum.splits)
  have disk: "jobAt st (w_fs w) = (jobAt st (w_fs (sm_store m)))(jb_ID job \<mapsto> job)"
    using file_store.store_ok [OF assms(1)] st res by simp
  have own: "sameOwner (jb_Owner job) owner"
  proof -
    obtain i job0 where j: "job1 = job0\<lparr>jb_ID := trimSpace i\<rparr>"
      "prepareSchedule (sg_cron cfg) (newJob cfg owner req now) now True = Inr job0" using b by (rule buildJob_Inr)
    then show ?thesis using prepareSchedule_keeps [OF j(2)] by (simp add: res(2) sameOwner_def newJob_def Let_def)
  qed
  have "jb_ID job \<notin> fst ` set (sm_jobs m)" using lim(2) res(2) by (simp add: map_of_eq_None_iff)
  then have "length (sm_jobs m') = Suc (length (sm_jobs m))"
    by (simp add: res(4) update_new)
  then show ?thesis
    using a lim res disk own buildJob_valid [OF b a] buildJob_timing [OF b] by (auto simp: jobValid_def)
qed

abbreviation sampleStart :: "store_world Manager" where
  "sampleStart \<equiv> emptyManager (emptyDisk [])"

lemma sample_created:
  "case Create sampleSettings sampleOps 1 (Inr (lit ''a'')) (jb_Owner sampleJob) sampleRequest sampleStart of
     (Inr job, _) \<Rightarrow> jb_ID job = lit ''a'' \<and> jb_Kind job = KindOneShot | _ \<Rightarrow> False"
  by code_simp

theorem Create_contract_witness:
  "\<exists>job m'. Create sampleSettings sampleOps 1 (Inr (lit ''a'')) (jb_Owner sampleJob) sampleRequest sampleStart = (Inr job, m') \<and>
     jobAt sampleStore (w_fs (sm_store m')) (lit ''a'') = Some job \<and> map_of (sm_jobs m') (lit ''a'') = Some job \<and>
     jb_NextFire job = 7"
proof -
  obtain job m' where c: "Create sampleSettings sampleOps 1 (Inr (lit ''a'')) (jb_Owner sampleJob) sampleRequest sampleStart =
      (Inr job, m')" "jb_ID job = lit ''a''" "jb_Kind job = KindOneShot"
    using sample_created by (auto split: prod.splits sum.splits)
  have "wfFs (w_fs (sm_store sampleStart))" using emptyDisk_wf by (simp add: emptyManager_def)
  from Create_contract [OF this c(1)] c show ?thesis
    by (auto simp: sampleRequest_def KindOneShot_def KindRecurring_def)
qed

section \<open>Listing\<close>

lemma jobLess_trans: "jobLess a b \<Longrightarrow> jobLess b c \<Longrightarrow> jobLess a c"
  by (auto simp: jobLess_def split: if_splits)

lemma jobLess_total: "jb_ID a \<noteq> jb_ID b \<Longrightarrow> jobLess a b \<or> jobLess b a"
  by (auto simp: jobLess_def)

lemma mset_insertBy: "mset (insertBy lt x xs) = add_mset x (mset xs)"
  by (induction xs) auto

lemma mset_sortSlice: "mset (sortSlice lt xs) = mset xs"
  by (induction xs) (simp_all add: sortSlice_def mset_insertBy)

lemma set_sortSlice: "set (sortSlice lt xs) = set xs"
  by (metis mset_sortSlice set_mset_mset)

lemma sorted_insertBy:
  assumes "sorted_wrt jobLess js" "\<forall>y \<in> set js. jb_ID y \<noteq> jb_ID x"
  shows "sorted_wrt jobLess (insertBy jobLess x js)"
  using assms
proof (induction js)
  case (Cons y ys)
  have set: "set (insertBy jobLess x ys) = insert x (set ys)"
    using arg_cong [OF mset_insertBy [of jobLess x ys], of set_mset] by simp
  show ?case
  proof (cases "jobLess y x")
    case True
    then show ?thesis using Cons set by auto
  next
    case False
    then have "jobLess x y" using jobLess_total [of x y] Cons.prems(2) by auto
    then show ?thesis using Cons.prems(1) False jobLess_trans by auto
  qed
qed simp

lemma sorted_sortSlice: "distinct (map jb_ID js) \<Longrightarrow> sorted_wrt jobLess (sortSlice jobLess js)"
proof (induction js)
  case (Cons x js)
  have "sortSlice jobLess (x # js) = insertBy jobLess x (sortSlice jobLess js)" by (simp add: sortSlice_def)
  moreover have "\<forall>y \<in> set (sortSlice jobLess js). jb_ID y \<noteq> jb_ID x" using Cons.prems by (simp add: set_sortSlice) (metis imageI)
  ultimately show ?case using sorted_insertBy Cons by simp
qed (simp add: sortSlice_def)

lemma sorted_jobLess_unique:
  assumes "sorted_wrt jobLess xs" "sorted_wrt jobLess ys" "set xs = set ys"
  shows "xs = ys"
proof -
  have irrefl: "\<not> jobLess a a" and asym: "jobLess a b \<Longrightarrow> \<not> jobLess b a" for a b
    by (auto simp: jobLess_def split: if_splits)
  show ?thesis using assms
  proof (induction xs arbitrary: ys)
    case (Cons x xs)
    then obtain y ys' where ys: "ys = y # ys'" by (cases ys) auto
    have "x = y" using Cons.prems ys asym by (metis list.set_intros(1) set_ConsD sorted_wrt.simps(2))
    moreover have "x \<notin> set xs" "y \<notin> set ys'" using Cons.prems ys irrefl by auto
    ultimately show ?case using Cons ys by (metis insert_ident list.simps(15) sorted_wrt.simps(2))
  qed simp
qed

lemma mgrOK_ids:
  assumes "mgrOK m fl"
  shows "map jb_ID (map snd (sm_jobs m)) = map fst (sm_jobs m)"
proof -
  have "jb_ID (snd p) = fst p" if "p \<in> set (sm_jobs m)" for p
    using mgrOK_id [OF assms, of "fst p" "snd p"] mgrOK_distinct [OF assms] that by (simp add: map_of_is_SomeI)
  then show ?thesis by simp
qed

lemma ListJobs_Inr:
  assumes "mgrOK m fl" "ListJobs cfg owner m = Inr js"
  shows "sorted_wrt jobLess js" "set js = {j. \<exists>k. map_of (sm_jobs m) k = Some j \<and> sameOwner (jb_Owner j) owner}"
proof -
  let ?own = "filter (\<lambda>job. sameOwner (jb_Owner job) (normalizeOwner owner)) (map snd (sm_jobs m))"
  have js: "js = sortSlice jobLess ?own"
    using assms(2) by (auto simp: ListJobs_def Let_def map_idI split: option.splits)
  have "distinct (map jb_ID (map snd (sm_jobs m)))"
    unfolding mgrOK_ids [OF assms(1)] by (rule mgrOK_distinct [OF assms(1)])
  then have "distinct (map jb_ID ?own)" by (rule distinct_map_filter)
  then show "sorted_wrt jobLess js" unfolding js by (rule sorted_sortSlice)
  show "set js = {j. \<exists>k. map_of (sm_jobs m) k = Some j \<and> sameOwner (jb_Owner j) owner}"
    using mgrOK_distinct [OF assms(1)] unfolding js set_sortSlice
    by (auto simp: sameOwner_def normalizeOwner_def dest: map_of_SomeD) force
qed

text \<open>
  A listing is exact and deterministic.  It shows each job of the caller once and nothing else, by
  next occurrence with finished jobs last and ties broken by id; it is the only list with these
  properties, so the order in which Go ranges over the map cannot be seen.
\<close>

theorem ListJobs_exact:
  assumes "mgrOK m fl" "ListJobs cfg owner m = Inr js"
  shows "sorted_wrt jobLess js \<and> distinct js \<and>
    set js = {j. \<exists>k. map_of (sm_jobs m) k = Some j \<and> sameOwner (jb_Owner j) owner} \<and>
    (\<forall>js'. sorted_wrt jobLess js' \<and> set js' = set js \<longrightarrow> js' = js)"
proof -
  have "distinct js"
    using ListJobs_Inr(1) [OF assms] by (induction js) (auto simp: jobLess_def)
  then show ?thesis using ListJobs_Inr [OF assms] sorted_jobLess_unique by blast
qed

definition samplePair :: "unit Manager" where
  "samplePair = addJob (sampleJob\<lparr>jb_ID := lit ''b'', jb_NextFire := 3\<rparr>) (addJob sampleJob (emptyManager ()))"

lemma samplePair_jobs:
  "sm_jobs samplePair = [(lit ''a'', sampleJob), (lit ''b'', sampleJob\<lparr>jb_ID := lit ''b'', jb_NextFire := 3\<rparr>)]"
  by (simp add: samplePair_def addJob_def emptyManager_def sampleJob_def jobOfRun_def)

lemma samplePair_ok: "mgrOK samplePair None"
  unfolding mgrOK_def samplePair_jobs by (auto simp: samplePair_def addJob_def emptyManager_def sampleJob_def jobOfRun_def)

lemma samplePair_lists:
  "case ListJobs sampleSettings (jb_Owner sampleJob) samplePair of Inr js \<Rightarrow> map jb_ID js = [lit ''b'', lit ''a''] | Inl _ \<Rightarrow> False"
  by code_simp

theorem ListJobs_exact_witness:
  "\<exists>js. ListJobs sampleSettings (jb_Owner sampleJob) samplePair = Inr js \<and> map jb_ID js = [lit ''b'', lit ''a''] \<and>
     sorted_wrt jobLess js \<and> set js = {j. \<exists>k. map_of (sm_jobs samplePair) k = Some j \<and> sameOwner (jb_Owner j) (jb_Owner sampleJob)}"
  using samplePair_lists ListJobs_exact [OF samplePair_ok, of sampleSettings "jb_Owner sampleJob"]
  by (auto split: sum.splits)

section \<open>Owners\<close>

lemma request_frame:
  assumes "wfFs (w_fs (sm_store m))" "k \<noteq> k'" "map_of (sm_jobs m) k = Some j"
  shows "StoreJob st job (sm_store m) = (q, w) \<Longrightarrow> jb_ID job = k' \<Longrightarrow> sm_store m' = w \<Longrightarrow>
      sm_jobs m' = sm_jobs m \<or> sm_jobs m' = AList.update k' job (sm_jobs m) \<Longrightarrow>
      map_of (sm_jobs m') k = Some j \<and> jobAt st (w_fs (sm_store m')) k = jobAt st (w_fs (sm_store m)) k"
    "DeleteJob st k' (sm_store m) = (q, w) \<Longrightarrow> sm_store m' = w \<Longrightarrow>
      sm_jobs m' = sm_jobs m \<or> sm_jobs m' = AList.delete k' (sm_jobs m) \<Longrightarrow>
      map_of (sm_jobs m') k = Some j \<and> jobAt st (w_fs (sm_store m')) k = jobAt st (w_fs (sm_store m)) k"
  using assms file_store.store_other [OF assms(1)] file_store.delete_other [OF assms(1)] by auto

lemma Create_other:
  assumes "wfFs (w_fs (sm_store m))" "map_of (sm_jobs m) k = Some j"
    "Create cfg (fileStoreOps st) now newID owner req m = (r, m')"
  shows "map_of (sm_jobs m') k = Some j \<and> jobAt st (w_fs (sm_store m')) k = jobAt st (w_fs (sm_store m)) k"
proof (cases "m' = m")
  case False
  then obtain job where b: "authorize cfg owner = None" "buildJob cfg now newID owner req = Inr job"
    "map_of (sm_jobs m) (jb_ID job) = None" "\<not> sg_maxJobs cfg \<le> int (length (sm_jobs m))"
    using assms(3) unfolding Create_def by (auto split: option.splits sum.splits if_splits)
  obtain q w where st: "StoreJob st job (sm_store m) = (q, w)" by fastforce
  have "sm_store m' = w" "sm_jobs m' = sm_jobs m \<or> sm_jobs m' = AList.update (jb_ID job) job (sm_jobs m)"
    using assms(3) b st by (auto simp: Create_def split: sum.splits)
  moreover have "k \<noteq> jb_ID job" using b(3) assms(2) by auto
  ultimately show ?thesis by (intro request_frame(1) [OF assms(1) _ assms(2) st refl])
qed (use assms in simp)

lemma Update_other:
  assumes "mgrOK m fl" "wfFs (w_fs (sm_store m))" "map_of (sm_jobs m) k = Some j" "\<not> sameOwner (jb_Owner j) owner"
    "Update cfg (fileStoreOps st) now owner i upd m = (r, m')"
  shows "map_of (sm_jobs m') k = Some j \<and> jobAt st (w_fs (sm_store m')) k = jobAt st (w_fs (sm_store m)) k"
    "trimSpace i = k \<Longrightarrow> isl r \<and> m' = m"
proof -
  have foreign: "\<not> sameOwner (jb_Owner j) (normalizeOwner owner)" using assms(4) by (simp add: sameOwner_def)
  show "trimSpace i = k \<Longrightarrow> isl r \<and> m' = m"
    using assms(3,5) foreign by (auto simp: Update_def Let_def split: option.splits)
  show "map_of (sm_jobs m') k = Some j \<and> jobAt st (w_fs (sm_store m')) k = jobAt st (w_fs (sm_store m)) k"
  proof (cases "m' = m")
    case False
    then obtain job u where b: "authorize cfg owner = None" "map_of (sm_jobs m) (trimSpace i) = Some job"
      "sameOwner (jb_Owner job) (normalizeOwner owner)" "updatedJob cfg now upd job = Inr u" "trimSpace i \<notin> set (sm_running m)"
      using assms(5) unfolding Update_def Let_def by (auto split: option.splits sum.splits if_splits)
    obtain q w where st: "StoreJob st u (sm_store m) = (q, w)" by fastforce
    have "sm_store m' = w" "sm_jobs m' = sm_jobs m \<or> sm_jobs m' = AList.update (trimSpace i) u (sm_jobs m)"
      using assms(5) b st by (auto simp: Update_def Let_def split: sum.splits)
    moreover have "k \<noteq> trimSpace i" using b(2,3) assms(3) foreign by auto
    moreover have "jb_ID u = trimSpace i" using updatedJob_keeps [OF b(4)] mgrOK_id [OF assms(1) b(2)] by simp
    ultimately show ?thesis by (intro request_frame(1) [OF assms(2) _ assms(3) st])
  qed (use assms in simp)
qed

lemma Delete_other:
  assumes "wfFs (w_fs (sm_store m))" "map_of (sm_jobs m) k = Some j" "\<not> sameOwner (jb_Owner j) owner"
    "Delete cfg (fileStoreOps st) owner i m = (e, m')"
  shows "map_of (sm_jobs m') k = Some j \<and> jobAt st (w_fs (sm_store m')) k = jobAt st (w_fs (sm_store m)) k"
    "trimSpace i = k \<Longrightarrow> e \<noteq> None \<and> m' = m"
proof -
  have foreign: "\<not> sameOwner (jb_Owner j) (normalizeOwner owner)" using assms(3) by (simp add: sameOwner_def)
  show "trimSpace i = k \<Longrightarrow> e \<noteq> None \<and> m' = m"
    using assms(2,4) foreign by (auto simp: Delete_def Let_def split: option.splits dest: sym [of "Some _"])
  show "map_of (sm_jobs m') k = Some j \<and> jobAt st (w_fs (sm_store m')) k = jobAt st (w_fs (sm_store m)) k"
  proof (cases "m' = m")
    case False
    then have b: "authorize cfg owner = None" "k \<noteq> trimSpace i"
      using assms(2,4) foreign unfolding Delete_def Let_def by (auto split: option.splits if_splits)
    obtain q w where st: "DeleteJob st (trimSpace i) (sm_store m) = (q, w)" by fastforce
    have "sm_store m' = w" "sm_jobs m' = sm_jobs m \<or> sm_jobs m' = AList.delete (trimSpace i) (sm_jobs m)"
      using assms(4) False st by (auto simp: Delete_def Let_def split: sum.splits option.splits if_splits)
    then show ?thesis by (intro request_frame(2) [OF assms(1) b(2) assms(2) st])
  qed (use assms in simp)
qed

text \<open>
  C19: owners are isolated.  A job of another owner is, after any creation, update or deletion by this
  owner and whether it succeeds or not, in the manager and on disk as it was; naming it in an update
  or a deletion is refused and changes nothing; and a listing never shows it.
\<close>

theorem owners_isolated:
  assumes "mgrOK m fl" "wfFs (w_fs (sm_store m))" "map_of (sm_jobs m) k = Some j" "\<not> sameOwner (jb_Owner j) owner"
  shows "(Create cfg (fileStoreOps st) now newID owner req m = (r, m') \<longrightarrow>
      map_of (sm_jobs m') k = Some j \<and> jobAt st (w_fs (sm_store m')) k = jobAt st (w_fs (sm_store m)) k) \<and>
    (Update cfg (fileStoreOps st) now owner i upd m = (r, m') \<longrightarrow>
      map_of (sm_jobs m') k = Some j \<and> jobAt st (w_fs (sm_store m')) k = jobAt st (w_fs (sm_store m)) k \<and>
      (trimSpace i = k \<longrightarrow> isl r \<and> m' = m)) \<and>
    (Delete cfg (fileStoreOps st) owner i m = (e, m') \<longrightarrow>
      map_of (sm_jobs m') k = Some j \<and> jobAt st (w_fs (sm_store m')) k = jobAt st (w_fs (sm_store m)) k \<and>
      (trimSpace i = k \<longrightarrow> e \<noteq> None \<and> m' = m)) \<and>
    (ListJobs cfg owner m = Inr js \<longrightarrow> j \<notin> set js)"
proof (intro conjI impI, goal_cases)
  case 11
  then show ?case using ListJobs_Inr(2) [OF assms(1)] assms(4) by blast
qed (use Create_other [OF assms(2,3)] Update_other [OF assms] Delete_other [OF assms(2-4)] in metis)+

text \<open>Deleting an absent job succeeds and deleting another owner's job does not, so the answer of a
  deletion tells the caller whether another owner has a job of that id.\<close>

lemma Delete_reveals:
  assumes "authorize cfg owner = None"
  shows "map_of (sm_jobs m) (trimSpace i) = None \<Longrightarrow> Delete cfg S owner i m = (None, m)"
    "map_of (sm_jobs m) (trimSpace i) = Some j \<Longrightarrow> \<not> sameOwner (jb_Owner j) owner \<Longrightarrow>
     Delete cfg S owner i m = (Some NotFoundErr, m)"
  using assms by (simp_all add: Delete_def Let_def sameOwner_def)

definition otherOwner :: Owner where
  "otherOwner = \<lparr>ow_Channel = lit ''c'', ow_ChatID = lit ''e'', ow_UserID = lit ''u''\<rparr>"

lemma otherOwner_differs: "\<not> sameOwner (jb_Owner sampleJob) otherOwner"
  by code_simp

theorem owners_isolated_witness:
  "\<exists>m j. map_of (sm_jobs m) (lit ''a'') = Some j \<and> \<not> sameOwner (jb_Owner j) otherOwner \<and>
     (\<forall>e m'. Delete sampleSettings sampleOps otherOwner (lit ''a'') m = (e, m') \<longrightarrow> e \<noteq> None \<and> m' = m)"
proof -
  let ?m = "addJob sampleJob (emptyManager (emptyDisk []))"
  have at: "map_of (sm_jobs ?m) (lit ''a'') = Some sampleJob"
    by (simp add: addJob_def emptyManager_def sampleJob_def jobOfRun_def)
  have ok: "mgrOK ?m None" "wfFs (w_fs (sm_store ?m))"
    using emptyDisk_wf by (auto simp: mgrOK_def addJob_def emptyManager_def sampleJob_def jobOfRun_def)
  have "trimSpace (lit ''a'') = lit ''a''" by code_simp
  then show ?thesis
    using owners_isolated [OF ok at otherOwner_differs, where i = "lit ''a''" and st = sampleStore and cfg = sampleSettings]
      at otherOwner_differs by blast
qed

end
