(* ===== verification/Conversation.thy ===== *)
theory Conversation
  imports Go_Format
begin

text \<open>
  The canonical transcript (\<open>systems/agent/internal/conversation\<close>): messages and their parts, normalization,
  cloning, and what the rest of the agent reads off a transcript.  Roles, part types, media kinds
  and dispositions are strings, as in the source, because values outside the declared constants
  occur and are handled.  A time with a location is its instant and the offset the location has
  there; raw JSON is its text.  JSON encoding and the text of the trusted delivery record are not
  modelled.
\<close>

section \<open>Data\<close>

definition SystemRole :: gostr where "SystemRole = lit ''system''"
definition UserRole :: gostr where "UserRole = lit ''user''"
definition AssistantRole :: gostr where "AssistantRole = lit ''assistant''"
definition ToolRole :: gostr where "ToolRole = lit ''tool''"

definition TextPartType :: gostr where "TextPartType = lit ''text''"
definition MediaPartType :: gostr where "MediaPartType = lit ''media''"
definition ReasoningPartType :: gostr where "ReasoningPartType = lit ''reasoning''"
definition ToolCallPartType :: gostr where "ToolCallPartType = lit ''tool_call''"
definition ToolResultPartType :: gostr where "ToolResultPartType = lit ''tool_result''"

definition MediaKindImage :: gostr where "MediaKindImage = lit ''image''"
definition MediaKindAudio :: gostr where "MediaKindAudio = lit ''audio''"

definition mediaKinds :: "gostr list" where
  "mediaKinds = [MediaKindImage, MediaKindAudio, lit ''video'', lit ''document'', lit ''sticker'',
     lit ''animation'', lit ''video_note'']"

definition TextDispositionCommentary :: gostr where "TextDispositionCommentary = lit ''commentary''"
definition TextDispositionFinal :: gostr where "TextDispositionFinal = lit ''final''"

record localTime =
  lt_instant :: time
  lt_offset :: int

record UserTemporalMetadata =
  ut_TimeLocal :: localTime
  ut_SincePrevUserMessage :: "duration option"

record ExternalEventMetadata =
  ee_Source :: gostr
  ee_JobID :: gostr
  ee_RunID :: gostr
  ee_Channel :: gostr
  ee_ChatID :: gostr
  ee_DeliveredAt :: time

record Part =
  pt_Type :: gostr
  pt_Text :: gostr
  pt_Disposition :: gostr
  pt_MediaKind :: gostr
  pt_MediaRef :: gostr
  pt_DataURL :: gostr
  pt_Replay :: "gostr gomap"
  pt_ID :: gostr
  pt_Name :: gostr
  pt_Arguments :: gostr
  pt_ToolCallID :: gostr
  pt_Content :: gostr
  pt_IsError :: bool

record Message =
  mg_Role :: gostr
  mg_Parts :: "Part list"
  mg_UserTemporal :: "UserTemporalMetadata option"
  mg_ExternalEvent :: "ExternalEventMetadata option"

definition emptyPart :: Part where
  "emptyPart = \<lparr>pt_Type = [], pt_Text = [], pt_Disposition = [], pt_MediaKind = [], pt_MediaRef = [],
     pt_DataURL = [], pt_Replay = [], pt_ID = [], pt_Name = [], pt_Arguments = [], pt_ToolCallID = [],
     pt_Content = [], pt_IsError = False\<rparr>"

definition plainMessage :: "gostr \<Rightarrow> Part list \<Rightarrow> Message" where
  "plainMessage role parts = \<lparr>mg_Role = role, mg_Parts = parts, mg_UserTemporal = None, mg_ExternalEvent = None\<rparr>"

section \<open>Normalization\<close>

definition normalizeDisposition :: "gostr \<Rightarrow> gostr" where
  "normalizeDisposition d = (if d = TextDispositionCommentary \<or> d = TextDispositionFinal then d else [])"

definition normalizeArguments :: "gostr \<Rightarrow> gostr" where
  "normalizeArguments arguments = (let trimmed = trimSpace arguments in if trimmed = [] then lit ''{}'' else trimmed)"

definition normalizeMediaKind :: "gostr \<Rightarrow> gostr" where
  "normalizeMediaKind kind = (if trimSpace kind \<in> set mediaKinds then trimSpace kind else [])"

text \<open>
  A Go map is the list of its entries.  Of two keys that trim to one the later entry stays; in Go it is
  the one the iteration comes to last, in an order the language leaves open.
\<close>

definition cloneReplayMap :: "gostr gomap \<Rightarrow> gostr gomap" where
  "cloneReplayMap m =
     foldl (\<lambda>out (k, raw). let key = trimSpace k in if key = [] then out else AList.update key raw out) [] m"

definition NormalizePart :: "Part \<Rightarrow> Part" where
  "NormalizePart part0 =
     (let part = part0\<lparr>pt_Replay := cloneReplayMap (pt_Replay part0)\<rparr>
      in if pt_Type part = TextPartType then part\<lparr>pt_Disposition := normalizeDisposition (pt_Disposition part)\<rparr>
         else if pt_Type part = MediaPartType
         then let kind = normalizeMediaKind (pt_MediaKind part)
              in part\<lparr>pt_MediaKind := kind, pt_MediaRef := trimSpace (pt_MediaRef part),
                      pt_DataURL := (if kind \<noteq> MediaKindImage then [] else trimSpace (pt_DataURL part))\<rparr>
         else if pt_Type part = ReasoningPartType then part
         else if pt_Type part = ToolCallPartType
         then part\<lparr>pt_ID := trimSpace (pt_ID part), pt_Name := trimSpace (pt_Name part),
                   pt_Arguments := normalizeArguments (pt_Arguments part)\<rparr>
         else if pt_Type part = ToolResultPartType then part\<lparr>pt_ToolCallID := trimSpace (pt_ToolCallID part)\<rparr>
         else part)"

definition shouldKeepPart :: "Part \<Rightarrow> bool" where
  "shouldKeepPart part =
     (if pt_Type part = TextPartType then trimSpace (pt_Text part) \<noteq> []
      else if pt_Type part = MediaPartType
      then (if pt_MediaKind part = [] then False
            else if pt_MediaKind part = MediaKindImage
            then trimSpace (pt_MediaRef part) \<noteq> [] \<or> trimSpace (pt_DataURL part) \<noteq> []
            else trimSpace (pt_MediaRef part) \<noteq> [])
      else if pt_Type part = ReasoningPartType then trimSpace (pt_Text part) \<noteq> [] \<or> pt_Replay part \<noteq> []
      else if pt_Type part = ToolCallPartType then trimSpace (pt_Name part) \<noteq> []
      else if pt_Type part = ToolResultPartType then trimSpace (pt_ToolCallID part) \<noteq> []
      else False)"

definition NormalizeParts :: "Part list \<Rightarrow> Part list" where
  "NormalizeParts parts = filter shouldKeepPart (map NormalizePart parts)"

definition normalizeExternalEventSource :: "gostr \<Rightarrow> gostr" where
  "normalizeExternalEventSource source =
     (if trimSpace source = lit ''scheduled_job'' then lit ''scheduled_job'' else [])"

definition NormalizeExternalEventMetadata :: "ExternalEventMetadata \<Rightarrow> ExternalEventMetadata" where
  "NormalizeExternalEventMetadata m =
     \<lparr>ee_Source = normalizeExternalEventSource (ee_Source m), ee_JobID = trimSpace (ee_JobID m),
      ee_RunID = trimSpace (ee_RunID m), ee_Channel = trimSpace (ee_Channel m), ee_ChatID = trimSpace (ee_ChatID m),
      ee_DeliveredAt = ee_DeliveredAt m\<rparr>"

definition validEvent :: "ExternalEventMetadata \<Rightarrow> bool" where
  "validEvent m0 =
     (let m = NormalizeExternalEventMetadata m0
      in ee_Source m \<noteq> [] \<and> ee_JobID m \<noteq> [] \<and> ee_RunID m \<noteq> [] \<and> ee_Channel m \<noteq> [] \<and> ee_ChatID m \<noteq> [] \<and>
         ee_DeliveredAt m \<noteq> 0)"

definition normalizeMessageExternalEventMetadata :: "gostr \<Rightarrow> ExternalEventMetadata option \<Rightarrow> ExternalEventMetadata option" where
  "normalizeMessageExternalEventMetadata role m =
     (case m of
        None \<Rightarrow> None
      | Some e \<Rightarrow>
          (let out = NormalizeExternalEventMetadata e
           in if role \<noteq> AssistantRole then None else if \<not> validEvent out then None else Some out))"

definition normalizeMessageTimeLocal :: "localTime \<Rightarrow> localTime" where
  "normalizeMessageTimeLocal t =
     (if lt_instant t = 0 then \<lparr>lt_instant = 0, lt_offset = 0\<rparr>
      else t\<lparr>lt_instant := lt_instant t div 1000000000 * 1000000000\<rparr>)"

definition cloneUserTemporalMetadata :: "UserTemporalMetadata option \<Rightarrow> UserTemporalMetadata option" where
  "cloneUserTemporalMetadata m =
     (case m of
        None \<Rightarrow> None
      | Some u \<Rightarrow>
          (let t = normalizeMessageTimeLocal (ut_TimeLocal u)
           in if lt_instant t = 0 then None
              else Some \<lparr>ut_TimeLocal = t, ut_SincePrevUserMessage = map_option (max 0) (ut_SincePrevUserMessage u)\<rparr>))"

definition cloneExternalEventMetadata :: "ExternalEventMetadata option \<Rightarrow> ExternalEventMetadata option" where
  "cloneExternalEventMetadata m = map_option NormalizeExternalEventMetadata m"

definition normalizeUserTemporalMetadata :: "gostr \<Rightarrow> UserTemporalMetadata option \<Rightarrow> UserTemporalMetadata option" where
  "normalizeUserTemporalMetadata role m = (if role \<noteq> UserRole then None else cloneUserTemporalMetadata m)"

definition NormalizeMessage :: "Message \<Rightarrow> Message" where
  "NormalizeMessage msg =
     msg\<lparr>mg_Parts := NormalizeParts (mg_Parts msg),
         mg_UserTemporal := normalizeUserTemporalMetadata (mg_Role msg) (mg_UserTemporal msg),
         mg_ExternalEvent := normalizeMessageExternalEventMetadata (mg_Role msg) (mg_ExternalEvent msg)\<rparr>"

definition NormalizeMessages :: "Message list \<Rightarrow> Message list" where
  "NormalizeMessages ms = map NormalizeMessage ms"

definition CloneParts :: "Part list \<Rightarrow> Part list" where
  "CloneParts parts = map (\<lambda>p. p\<lparr>pt_Replay := cloneReplayMap (pt_Replay p)\<rparr>) parts"

definition CloneMessage :: "Message \<Rightarrow> Message" where
  "CloneMessage msg =
     \<lparr>mg_Role = mg_Role msg, mg_Parts = CloneParts (mg_Parts msg),
      mg_UserTemporal = cloneUserTemporalMetadata (mg_UserTemporal msg),
      mg_ExternalEvent = cloneExternalEventMetadata (mg_ExternalEvent msg)\<rparr>"

definition CloneMessages :: "Message list \<Rightarrow> Message list" where
  "CloneMessages ms = map CloneMessage ms"

section \<open>Construction\<close>

definition TextPart :: "gostr \<Rightarrow> gostr \<Rightarrow> Part" where
  "TextPart s disposition =
     emptyPart\<lparr>pt_Type := TextPartType, pt_Text := s, pt_Disposition := normalizeDisposition disposition\<rparr>"

definition ImagePart :: "gostr \<Rightarrow> gostr \<Rightarrow> Part" where
  "ImagePart mediaRef dataURL =
     emptyPart\<lparr>pt_Type := MediaPartType, pt_MediaKind := MediaKindImage, pt_MediaRef := trimSpace mediaRef,
               pt_DataURL := trimSpace dataURL\<rparr>"

definition AudioPart :: "gostr \<Rightarrow> Part" where
  "AudioPart mediaRef =
     emptyPart\<lparr>pt_Type := MediaPartType, pt_MediaKind := MediaKindAudio, pt_MediaRef := trimSpace mediaRef\<rparr>"

definition MediaPart :: "gostr \<Rightarrow> gostr \<Rightarrow> Part" where
  "MediaPart kind mediaRef =
     emptyPart\<lparr>pt_Type := MediaPartType, pt_MediaKind := normalizeMediaKind kind, pt_MediaRef := trimSpace mediaRef\<rparr>"

definition ReasoningPart :: "gostr \<Rightarrow> gostr gomap \<Rightarrow> Part" where
  "ReasoningPart s replay = emptyPart\<lparr>pt_Type := ReasoningPartType, pt_Text := s, pt_Replay := cloneReplayMap replay\<rparr>"

definition ToolCallPart :: "gostr \<Rightarrow> gostr \<Rightarrow> gostr \<Rightarrow> Part" where
  "ToolCallPart callID name arguments =
     emptyPart\<lparr>pt_Type := ToolCallPartType, pt_ID := trimSpace callID, pt_Name := trimSpace name,
               pt_Arguments := normalizeArguments arguments\<rparr>"

definition ToolResultPart :: "gostr \<Rightarrow> gostr \<Rightarrow> bool \<Rightarrow> Part" where
  "ToolResultPart toolCallID content isError =
     emptyPart\<lparr>pt_Type := ToolResultPartType, pt_ToolCallID := trimSpace toolCallID, pt_Content := content,
               pt_IsError := isError\<rparr>"

definition SystemMessage :: "gostr \<Rightarrow> Message" where
  "SystemMessage s = plainMessage SystemRole [TextPart s []]"

definition UserMessage :: "gostr \<Rightarrow> Message" where
  "UserMessage s = plainMessage UserRole [TextPart s []]"

definition UserMessageParts :: "Part list \<Rightarrow> Message" where
  "UserMessageParts parts = plainMessage UserRole (CloneParts parts)"

definition AssistantMessage :: "Part list \<Rightarrow> Message" where
  "AssistantMessage parts = plainMessage AssistantRole (CloneParts parts)"

definition DeliveredAssistantEventMessage :: "gostr \<Rightarrow> ExternalEventMetadata \<Rightarrow> Message" where
  "DeliveredAssistantEventMessage s metadata =
     (plainMessage AssistantRole [TextPart s TextDispositionFinal])
       \<lparr>mg_ExternalEvent := Some (NormalizeExternalEventMetadata metadata)\<rparr>"

definition ToolResultMessage :: "gostr \<Rightarrow> gostr \<Rightarrow> bool \<Rightarrow> Message" where
  "ToolResultMessage toolCallID content isError = plainMessage ToolRole [ToolResultPart toolCallID content isError]"

section \<open>Reading a transcript\<close>

definition IsMedia :: "Part \<Rightarrow> gostr \<Rightarrow> bool" where
  "IsMedia p kind = (let p = NormalizePart p in pt_Type p = MediaPartType \<and> pt_MediaKind p = kind)"

definition UserMessageTimeLocal :: "Message \<Rightarrow> localTime option" where
  "UserMessageTimeLocal msg =
     (case mg_UserTemporal msg of
        None \<Rightarrow> None
      | Some u \<Rightarrow>
          if mg_Role msg \<noteq> UserRole \<or> lt_instant (ut_TimeLocal u) = 0 then None else Some (ut_TimeLocal u))"

definition SincePrevUserMessage :: "Message \<Rightarrow> duration option" where
  "SincePrevUserMessage msg =
     (case mg_UserTemporal msg of
        None \<Rightarrow> None
      | Some u \<Rightarrow> if mg_Role msg \<noteq> UserRole then None else ut_SincePrevUserMessage u)"

definition TextValue :: "Message \<Rightarrow> gostr" where
  "TextValue msg = (case find (\<lambda>p. pt_Type p = TextPartType) (mg_Parts msg) of None \<Rightarrow> [] | Some p \<Rightarrow> pt_Text p)"

definition ToolCalls :: "Message list \<Rightarrow> Part list" where
  "ToolCalls ms =
     concat (map (\<lambda>msg. map NormalizePart (filter (\<lambda>p. pt_Type p = ToolCallPartType) (mg_Parts msg))) ms)"

text \<open>The two variables of \<open>FinalAnswer\<close>, the last final and the last plain text, after one part.\<close>

definition answerPart :: "gostr \<times> gostr \<Rightarrow> Part \<Rightarrow> gostr \<times> gostr" where
  "answerPart acc part =
     (let (finalText, plainText) = acc; s = trimSpace (pt_Text part); d = normalizeDisposition (pt_Disposition part)
      in if pt_Type part \<noteq> TextPartType then acc
         else if s = [] then acc
         else if d = TextDispositionFinal then (s, plainText)
         else if d = [] then (finalText, s)
         else acc)"

definition FinalAnswer :: "Message list \<Rightarrow> gostr" where
  "FinalAnswer ms =
     (let (finalText, plainText) =
            foldl (\<lambda>acc msg. if mg_Role msg \<noteq> AssistantRole then acc else foldl answerPart acc (mg_Parts msg)) ([], []) ms
      in if finalText \<noteq> [] then finalText else plainText)"

definition HasImageParts :: "Message list \<Rightarrow> bool" where
  "HasImageParts ms = list_ex (\<lambda>msg. list_ex (\<lambda>p. IsMedia (NormalizePart p) MediaKindImage) (mg_Parts msg)) ms"

definition messageHasTextPart :: "Message \<Rightarrow> bool" where
  "messageHasTextPart msg = list_ex (\<lambda>p. pt_Type (NormalizePart p) = TextPartType) (mg_Parts msg)"

definition durationUnits :: "(gostr \<times> nat) list" where
  "durationUnits = [(lit ''w'', 604800), (lit ''d'', 86400), (lit ''h'', 3600), (lit ''m'', 60), (lit ''s'', 1)]"

fun durationParts :: "(gostr \<times> nat) list \<Rightarrow> nat \<Rightarrow> gostr list \<Rightarrow> gostr list" where
  "durationParts [] remaining parts = parts"
| "durationParts ((suffix, seconds) # units) remaining parts =
     (if remaining < seconds then durationParts units remaining parts
      else let parts = parts @ [itoa (remaining div seconds) @ suffix]
           in if length parts = 2 then parts else durationParts units (remaining mod seconds) parts)"

definition formatCompactDuration :: "duration \<Rightarrow> gostr" where
  "formatCompactDuration v =
     (let totalSeconds = max 0 v div 1000000000; parts = durationParts durationUnits (nat totalSeconds) []
      in if totalSeconds \<le> 0 then lit ''0s'' else if parts = [] then lit ''0s'' else concat parts)"

definition htmlEscape :: "gostr \<Rightarrow> gostr" where
  "htmlEscape s = concat (map (\<lambda>r.
     if r = 38 then lit ''&amp;'' else if r = 39 then lit ''&#39;'' else if r = 60 then lit ''&lt;''
     else if r = 62 then lit ''&gt;'' else if r = 34 then lit ''&#34;'' else [r]) s)"

definition weekdayName :: "localTime \<Rightarrow> gostr" where
  "weekdayName t =
     map lit [''Monday'', ''Tuesday'', ''Wednesday'', ''Thursday'', ''Friday'', ''Saturday'', ''Sunday''] !
       nat ((lt_instant t div 1000000000 + lt_offset t) div 86400 mod 7)"

text \<open>\<open>t.Format("20060102T150405-0700")\<close>.\<close>

definition formatLocal :: "localTime \<Rightarrow> gostr" where
  "formatLocal t =
     (let secs = lt_instant t div 1000000000 + lt_offset t; s = secs mod 86400; (y, m, d) = civilDate (secs div 86400);
          zone = \<bar>lt_offset t\<bar> div 60
      in pad4 y @ pad2 m @ pad2 d @ lit ''T'' @ pad2 (s div 3600) @ pad2 (s mod 3600 div 60) @ pad2 (s mod 60) @
         (if lt_offset t < 0 \<and> 0 < zone then lit ''-'' else lit ''+'') @ pad2 (zone div 60) @ pad2 (zone mod 60))"

definition RenderUserMessageMetadataTag :: "Message \<Rightarrow> gostr" where
  "RenderUserMessageMetadataTag msg0 =
     (let msg = NormalizeMessage msg0
      in case UserMessageTimeLocal msg of
           None \<Rightarrow> []
         | Some timeLocal \<Rightarrow>
             lit ''<message_meta day_of_week_local=\"'' @ htmlEscape (weekdayName timeLocal) @
             lit ''\" timestamp_local=\"'' @ htmlEscape (formatLocal timeLocal) @
             lit ''\" since_prev_user_message=\"'' @
             (case SincePrevUserMessage msg of
                Some gap \<Rightarrow> htmlEscape (formatCompactDuration gap)
              | None \<Rightarrow> lit ''none'') @
             lit ''\"/>'')"

definition PromptVisibleUserMessage :: "Message \<Rightarrow> Message" where
  "PromptVisibleUserMessage msg0 =
     (let msg = NormalizeMessage msg0; tag = RenderUserMessageMetadataTag msg;
          prefix = (if messageHasTextPart msg then tag @ [10, 10] else tag)
      in if mg_Role msg \<noteq> UserRole \<or> tag = [] then msg
         else msg\<lparr>mg_Parts := TextPart prefix [] # CloneParts (mg_Parts msg)\<rparr>)"

section \<open>Normal forms\<close>

definition replayOK :: "gostr gomap \<Rightarrow> bool" where
  "replayOK m \<longleftrightarrow> distinct (map fst m) \<and> (\<forall>k \<in> fst ` set m. k \<noteq> [] \<and> trimSpace k = k)"

lemma replayOK_update: "replayOK m \<Longrightarrow> trimSpace k \<noteq> [] \<Longrightarrow> replayOK (AList.update (trimSpace k) v m)"
  by (auto simp: replayOK_def distinct_update dom_update)

lemma cloneReplayMap_ok [simp]: "replayOK (cloneReplayMap m)"
proof -
  have "replayOK (foldl (\<lambda>out (k, raw). let key = trimSpace k in if key = [] then out else AList.update key raw out) out m)"
    if "replayOK out" for out
    using that by (induction m arbitrary: out) (auto simp: Let_def replayOK_update split: prod.splits)
  from this [of "[]"] show ?thesis by (simp add: cloneReplayMap_def replayOK_def)
qed

lemma update_snoc: "k \<notin> fst ` set m \<Longrightarrow> AList.update k v m = m @ [(k, v)]"
  by (induction m) auto

lemma cloneReplayMap_fixed: "replayOK m \<Longrightarrow> cloneReplayMap m = m"
proof -
  have "foldl (\<lambda>out (k, raw). let key = trimSpace k in if key = [] then out else AList.update key raw out) out m = out @ m"
    if "replayOK (out @ m)" for out
    using that
  proof (induction m arbitrary: out)
    case (Cons kv m)
    obtain k v where kv: "kv = (k, v)" by fastforce
    with Cons.prems have k: "trimSpace k = k" "k \<noteq> []" "k \<notin> fst ` set out" by (auto simp: replayOK_def)
    have "replayOK ((out @ [(k, v)]) @ m)" using Cons.prems kv by simp
    from Cons.IH [OF this] k kv show ?case by (simp add: update_snoc)
  qed simp
  from this [of "[]"] show "replayOK m \<Longrightarrow> cloneReplayMap m = m" by (simp add: cloneReplayMap_def)
qed

lemma cloneReplayMap_idem [simp]: "cloneReplayMap (cloneReplayMap m) = cloneReplayMap m"
  by (simp add: cloneReplayMap_fixed)

lemma normalizeDisposition_idem [simp]: "normalizeDisposition (normalizeDisposition d) = normalizeDisposition d"
  by (simp add: normalizeDisposition_def)

lemma normalizeArguments_idem [simp]: "normalizeArguments (normalizeArguments a) = normalizeArguments a"
proof -
  have "trimSpace (lit ''{}'') = lit ''{}''" by code_simp
  then show ?thesis by (simp add: normalizeArguments_def Let_def)
qed

lemma normalizeMediaKind_idem [simp]: "normalizeMediaKind (normalizeMediaKind k) = normalizeMediaKind k"
proof -
  have "[] \<notin> set mediaKinds" by code_simp
  then show ?thesis by (simp add: normalizeMediaKind_def)
qed

lemma NormalizePart_type [simp]: "pt_Type (NormalizePart p) = pt_Type p"
  by (simp add: NormalizePart_def Let_def)

lemma NormalizePart_text [simp]: "pt_Text (NormalizePart p) = pt_Text p"
  by (simp add: NormalizePart_def Let_def)

lemma NormalizePart_idem [simp]: "NormalizePart (NormalizePart p) = NormalizePart p"
  by (simp add: NormalizePart_def Let_def)

lemma NormalizePart_clone [simp]: "NormalizePart (p\<lparr>pt_Replay := cloneReplayMap (pt_Replay p)\<rparr>) = NormalizePart p"
  by (simp add: NormalizePart_def Let_def)

lemma clone_NormalizePart [simp]:
  "(NormalizePart p)\<lparr>pt_Replay := cloneReplayMap (pt_Replay (NormalizePart p))\<rparr> = NormalizePart p"
  by (simp add: NormalizePart_def Let_def)

text \<open>A part of a normal message.\<close>

definition normalPart :: "Part \<Rightarrow> bool" where
  "normalPart p \<longleftrightarrow> NormalizePart p = p \<and> shouldKeepPart p"

lemma NormalizeParts_normal: "list_all normalPart (NormalizeParts ps)"
  by (auto simp: NormalizeParts_def normalPart_def list_all_iff)

lemma NormalizeParts_fixed: "list_all normalPart ps \<Longrightarrow> NormalizeParts ps = ps"
  by (induction ps) (auto simp: NormalizeParts_def normalPart_def)

lemma NormalizeParts_idem [simp]: "NormalizeParts (NormalizeParts ps) = NormalizeParts ps"
  by (rule NormalizeParts_fixed [OF NormalizeParts_normal])

lemma NormalizeParts_append [simp]: "NormalizeParts (ps @ qs) = NormalizeParts ps @ NormalizeParts qs"
  by (simp add: NormalizeParts_def)

lemma NormalizeParts_clone [simp]: "NormalizeParts (CloneParts ps) = NormalizeParts ps"
  by (simp add: NormalizeParts_def CloneParts_def comp_def)

lemma CloneParts_normal: "list_all normalPart ps \<Longrightarrow> CloneParts ps = ps"
proof (induction ps)
  case (Cons p ps)
  then have "NormalizePart p = p" by (simp add: normalPart_def)
  then have "p\<lparr>pt_Replay := cloneReplayMap (pt_Replay p)\<rparr> = p" by (metis clone_NormalizePart)
  with Cons show ?case by (simp add: CloneParts_def)
qed (simp add: CloneParts_def)

lemma NormalizeExternal_idem [simp]:
  "NormalizeExternalEventMetadata (NormalizeExternalEventMetadata m) = NormalizeExternalEventMetadata m"
proof -
  have "trimSpace (lit ''scheduled_job'') = lit ''scheduled_job''" by code_simp
  then show ?thesis by (simp add: NormalizeExternalEventMetadata_def normalizeExternalEventSource_def)
qed

lemma validEvent_normal [simp]: "validEvent (NormalizeExternalEventMetadata m) = validEvent m"
  by (simp add: validEvent_def)

lemma timeLocal_idem [simp]:
  "lt_instant (normalizeMessageTimeLocal t) \<noteq> 0 \<Longrightarrow>
   normalizeMessageTimeLocal (normalizeMessageTimeLocal t) = normalizeMessageTimeLocal t"
  by (simp add: normalizeMessageTimeLocal_def split: if_splits)

lemma cloneUserTemporal_idem [simp]: "cloneUserTemporalMetadata (cloneUserTemporalMetadata m) = cloneUserTemporalMetadata m"
proof (cases m)
  case (Some u)
  have "map_option (max 0) (map_option (max 0) d) = map_option (max 0) d" for d :: "duration option" by (cases d) auto
  then show ?thesis by (simp add: cloneUserTemporalMetadata_def Some Let_def)
qed (simp add: cloneUserTemporalMetadata_def)

lemma normalMeta_idem [simp]:
  "normalizeUserTemporalMetadata r (normalizeUserTemporalMetadata r m) = normalizeUserTemporalMetadata r m"
  "normalizeUserTemporalMetadata r (cloneUserTemporalMetadata m) = normalizeUserTemporalMetadata r m"
  "cloneUserTemporalMetadata (normalizeUserTemporalMetadata r m) = normalizeUserTemporalMetadata r m"
  by (simp_all add: normalizeUserTemporalMetadata_def) (simp add: cloneUserTemporalMetadata_def)

lemma normalEvent_idem [simp]:
  "normalizeMessageExternalEventMetadata r (normalizeMessageExternalEventMetadata r e) = normalizeMessageExternalEventMetadata r e"
  "normalizeMessageExternalEventMetadata r (cloneExternalEventMetadata e) = normalizeMessageExternalEventMetadata r e"
  "cloneExternalEventMetadata (normalizeMessageExternalEventMetadata r e) = normalizeMessageExternalEventMetadata r e"
  by (auto simp: normalizeMessageExternalEventMetadata_def cloneExternalEventMetadata_def Let_def split: option.splits)

lemma NormalizeMessage_sel [simp]:
  "mg_Role (NormalizeMessage m) = mg_Role m" "mg_Parts (NormalizeMessage m) = NormalizeParts (mg_Parts m)"
  by (simp_all add: NormalizeMessage_def)

lemma NormalizeMessage_idem [simp]: "NormalizeMessage (NormalizeMessage m) = NormalizeMessage m"
  by (simp add: NormalizeMessage_def)

lemma NormalizeMessage_clone [simp]: "NormalizeMessage (CloneMessage m) = NormalizeMessage m"
  by (simp add: NormalizeMessage_def CloneMessage_def)

lemma clone_NormalizeMessage [simp]: "CloneMessage (NormalizeMessage m) = NormalizeMessage m"
  by (simp add: NormalizeMessage_def CloneMessage_def CloneParts_normal [OF NormalizeParts_normal])

lemma NormalizeMessages_clone [simp]: "NormalizeMessages (CloneMessages ms) = NormalizeMessages ms"
  by (simp add: NormalizeMessages_def CloneMessages_def)

text \<open>Messages that normalization leaves alone.\<close>

definition normalMsg :: "Message \<Rightarrow> bool" where
  "normalMsg m \<longleftrightarrow> NormalizeMessage m = m"

lemma normalMsg_NormalizeMessage [simp]: "normalMsg (NormalizeMessage m)"
  by (simp add: normalMsg_def)

lemma normalMsg_parts: "normalMsg m \<Longrightarrow> list_all normalPart (mg_Parts m)"
  by (metis NormalizeMessage_sel(2) NormalizeParts_normal normalMsg_def)

lemma normalMsg_setParts: "normalMsg m \<Longrightarrow> list_all normalPart ps \<Longrightarrow> normalMsg (m\<lparr>mg_Parts := ps\<rparr>)"
proof -
  assume m: "normalMsg m" and ps: "list_all normalPart ps"
  have "mg_UserTemporal m = normalizeUserTemporalMetadata (mg_Role m) (mg_UserTemporal m)"
    "mg_ExternalEvent m = normalizeMessageExternalEventMetadata (mg_Role m) (mg_ExternalEvent m)"
    using arg_cong [OF m [unfolded normalMsg_def], of mg_UserTemporal] arg_cong [OF m [unfolded normalMsg_def], of mg_ExternalEvent]
    by (simp_all add: NormalizeMessage_def)
  then show ?thesis by (simp add: normalMsg_def NormalizeMessage_def NormalizeParts_fixed [OF ps])
qed

lemma NormalizeMessages_normal [simp]: "list_all normalMsg (NormalizeMessages ms)"
  by (simp add: NormalizeMessages_def list_all_iff)

lemma NormalizeMessages_fixed: "list_all normalMsg ms \<Longrightarrow> NormalizeMessages ms = ms"
  by (induction ms) (auto simp: NormalizeMessages_def normalMsg_def)

lemma CloneMessages_fixed: "list_all normalMsg ms \<Longrightarrow> CloneMessages ms = ms"
  by (induction ms) (auto simp: CloneMessages_def normalMsg_def, metis clone_NormalizeMessage)

lemma normal_plain: "list_all normalPart ps \<Longrightarrow> normalMsg (plainMessage r ps)"
  by (simp add: normalMsg_def NormalizeMessage_def plainMessage_def NormalizeParts_fixed normalizeUserTemporalMetadata_def
      cloneUserTemporalMetadata_def normalizeMessageExternalEventMetadata_def)

end
