(* ===== verification/Agent_Model.thy ===== *)
theory Agent_Model
  imports Conversation
begin

text \<open>
  The contracts of the agent (\<open>systems/agent/internal/agent\<close>: \<open>model.go\<close>, \<open>errors.go\<close>, \<open>run_events.go\<close>,
  \<open>prompt_sections.go\<close>, \<open>tool_registry.go\<close>) and model selection (\<open>systems/agent/internal/modelselection\<close>).
  Whatever tools, models and the rest of the process share is a world \<open>'w\<close> that calls read and change;
  an error of the outside is its text.  The time stamps of events are not modelled.
\<close>

section \<open>Tools, models and results\<close>

text \<open>A Go \<open>any\<close> that holds decoded JSON.\<close>

datatype json =
    JNull | JBool bool | JNumber gostr | JString gostr | JArray "json list" | JObject "(gostr \<times> json) list"

record ToolCall =
  tc_ID :: gostr
  tc_Name :: gostr
  tc_Arguments :: gostr

record ToolDefinition =
  td_Name :: gostr
  td_Description :: gostr
  td_PromptGuidance :: "gostr list"
  td_Parameters :: "json gomap"
  td_DeliversAttachments :: bool

record ToolResult =
  tr_Output :: gostr
  tr_Attachments :: "Part list"
  tr_MediaRefs :: "gostr list"

record ModelUsage =
  mu_InputTokens :: int
  mu_OutputTokens :: int
  mu_TotalTokens :: int

record ModelContext =
  mc_Ref :: gostr
  mc_MaxContextTokens :: int
  mc_MaxOutputTokens :: int

record ModelClientResult =
  cr_Messages :: "Message list"
  cr_FinishReason :: gostr
  cr_Usage :: ModelUsage

record ModelAttemptFailure =
  af_ModelRef :: gostr
  af_Err :: "gostr option"

datatype StopReason = StopReasonToolTurnLimit | StopReasonToolLoopDetected | StopReasonTurnBudgetExhausted

record StopError =
  se_Reason :: StopReason
  se_Detail :: gostr

definition stopReasonText :: "StopReason \<Rightarrow> gostr" where
  "stopReasonText r =
     (case r of
        StopReasonToolTurnLimit \<Rightarrow> lit ''tool_turn_limit''
      | StopReasonToolLoopDetected \<Rightarrow> lit ''tool_loop_detected''
      | StopReasonTurnBudgetExhausted \<Rightarrow> lit ''turn_budget_exhausted'')"

definition stopErrorText :: "StopError \<Rightarrow> gostr" where
  "stopErrorText e =
     (if se_Detail e = [] then lit ''agent stopped ('' @ stopReasonText (se_Reason e) @ lit '')'' else se_Detail e)"

definition formatModelAttemptFailures :: "ModelAttemptFailure list \<Rightarrow> gostr" where
  "formatModelAttemptFailures failures =
     joinStr (lit ''; '')
       (concat (map (\<lambda>f.
          let modelRef = trimSpace (af_ModelRef f)
          in case af_Err f of
               Some e \<Rightarrow> (if modelRef \<noteq> [] then [modelRef @ lit '': '' @ e] else [e])
             | None \<Rightarrow> (if modelRef \<noteq> [] then [modelRef] else [])) failures))"

definition modelFallbackText :: "gostr list \<Rightarrow> ModelAttemptFailure list \<Rightarrow> gostr" where
  "modelFallbackText eligibleRefs failures =
     (let parts = formatModelAttemptFailures failures;
          all = lit ''all models failed (['' @ joinStr (lit '' '') eligibleRefs @ lit ''])''
      in if parts = [] then all else all @ lit '': '' @ parts)"

definition modelAttemptLimitText :: "int \<Rightarrow> ModelAttemptFailure list \<Rightarrow> gostr" where
  "modelAttemptLimitText limit failures =
     lit ''failed model attempt limit reached ('' @ itoa (nat limit) @ lit ''): '' @ formatModelAttemptFailures failures"

definition lastModelAttemptError :: "ModelAttemptFailure list \<Rightarrow> gostr option" where
  "lastModelAttemptError failures =
     (case find (\<lambda>f. af_Err f \<noteq> None) (rev failures) of None \<Rightarrow> None | Some f \<Rightarrow> af_Err f)"

section \<open>Run events\<close>

datatype RunEventType =
    RunEventRunStarted | RunEventModelTurnStarted | RunEventModelTurnDelta | RunEventModelReasoningDelta
  | RunEventToolStarted | RunEventToolFinished | RunEventRunFinished | RunEventRunFailed

record RunEvent =
  ev_Type :: RunEventType
  ev_Turn :: nat
  ev_ModelRef :: gostr
  ev_ToolCall :: "ToolCall option"
  ev_ToolOutput :: gostr
  ev_FinalText :: gostr
  ev_Delta :: gostr
  ev_Err :: "gostr option"

definition eventOf :: "RunEventType \<Rightarrow> RunEvent" where
  "eventOf t = \<lparr>ev_Type = t, ev_Turn = 0, ev_ModelRef = [], ev_ToolCall = None, ev_ToolOutput = [],
     ev_FinalText = [], ev_Delta = [], ev_Err = None\<rparr>"

section \<open>Prompt elements\<close>

definition RenderPromptElement :: "gostr \<Rightarrow> gostr gomap \<Rightarrow> gostr \<Rightarrow> gostr" where
  "RenderPromptElement name0 attributes body0 =
     (let name = trimSpace name0; body = trimSpace body0;
          keys = sort (filter (\<lambda>k. k \<noteq> []) (map (\<lambda>(k, _). trimSpace k) attributes));
          attr = (\<lambda>key. let v = trimSpace (case map_of attributes key of Some v \<Rightarrow> v | None \<Rightarrow> [])
                         in if v = [] then [] else lit '' '' @ key @ lit ''=\"'' @ htmlEscape v @ lit ''\"'')
      in if name = [] \<or> body = [] then []
         else lit ''<'' @ name @ concat (map attr keys) @ lit ''>'' @ [10] @ body @ [10] @ lit ''</'' @ name @ lit ''>'')"

definition ComposePromptSections :: "(gostr \<times> gostr gomap \<times> gostr) list \<Rightarrow> gostr" where
  "ComposePromptSections sections =
     joinStr [10, 10]
       (filter (\<lambda>r. r \<noteq> []) (map (\<lambda>(name, attributes, body). RenderPromptElement name attributes body) sections))"

section \<open>Model selection\<close>

record Requirements =
  rq_Text :: bool
  rq_ToolCalling :: bool
  rq_InputBytes :: int

record Capabilities =
  cp_Text :: bool
  cp_ToolCalling :: bool

record Skip =
  sk_Ref :: gostr
  sk_Reason :: gostr

record Plan =
  pl_EligibleRefs :: "gostr list"
  pl_Skipped :: "Skip list"

definition requirementsText :: "Requirements \<Rightarrow> gostr" where
  "requirementsText r =
     (let names = (if rq_Text r then [lit ''text''] else []) @ (if rq_ToolCalling r then [lit ''tool_calling''] else [])
      in if names = [] then lit ''none'' else joinStr (lit '', '') names)"

definition PassthroughPlan :: "gostr list \<Rightarrow> Plan" where
  "PassthroughPlan modelRefs =
     \<lparr>pl_EligibleRefs = filter (\<lambda>r. r \<noteq> []) (map trimSpace modelRefs), pl_Skipped = []\<rparr>"

definition Missing :: "Capabilities \<Rightarrow> Requirements \<Rightarrow> gostr list" where
  "Missing c r =
     (if rq_Text r \<and> \<not> cp_Text c then [lit ''text''] else []) @
     (if rq_ToolCalling r \<and> \<not> cp_ToolCalling c then [lit ''tool_calling''] else [])"

definition MissingReason :: "Capabilities \<Rightarrow> Requirements \<Rightarrow> gostr" where
  "MissingReason c r =
     (let missing = Missing c r
      in if missing = [] then [] else lit ''missing capabilities ['' @ joinStr (lit '', '') missing @ lit '']'')"

definition formatSkips :: "Skip list \<Rightarrow> gostr" where
  "formatSkips skipped =
     (let parts = concat (map (\<lambda>s.
            let modelRef = trimSpace (sk_Ref s); reason = trimSpace (sk_Reason s)
            in if modelRef = [] \<and> reason = [] then []
               else if modelRef = [] then [reason] else if reason = [] then [modelRef]
               else [modelRef @ lit '': '' @ reason]) skipped)
      in if parts = [] then lit ''none'' else joinStr (lit ''; '') parts)"

definition noEligibleText :: "Requirements \<Rightarrow> Skip list \<Rightarrow> gostr" where
  "noEligibleText r skipped =
     lit ''no eligible models for requirements ['' @ requirementsText r @ lit '']'' @
     (let s = formatSkips skipped in if s \<noteq> lit ''none'' then lit '' (skipped: '' @ s @ lit '')'' else [])"

definition InferRequirements :: Requirements where
  "InferRequirements = \<lparr>rq_Text = True, rq_ToolCalling = False, rq_InputBytes = 0\<rparr>"

section \<open>The tool registry\<close>

datatype 'w toolRun =
    PlainTool "gostr \<Rightarrow> 'w \<Rightarrow> (gostr + gostr) \<times> 'w"
  | StructuredTool "gostr \<Rightarrow> 'w \<Rightarrow> (gostr + ToolResult) \<times> 'w"

record 'w Tool =
  tl_Definition :: ToolDefinition
  tl_Run :: "'w toolRun"

record 'w Registry =
  rg_definitions :: "ToolDefinition list"
  rg_toolsByName :: "'w Tool gomap"

datatype registry_error = EmptyToolName nat | DuplicateToolName gostr

fun registerTools :: "nat \<Rightarrow> 'w Tool option list \<Rightarrow> 'w Registry \<Rightarrow> registry_error + 'w Registry" where
  "registerTools i [] reg = Inr reg"
| "registerTools i (None # tools) reg = registerTools (Suc i) tools reg"
| "registerTools i (Some tool # tools) reg =
     (let def = tl_Definition tool; name = trimSpace (td_Name def)
      in if name = [] then Inl (EmptyToolName i)
         else if map_of (rg_toolsByName reg) name \<noteq> None then Inl (DuplicateToolName name)
         else registerTools (Suc i) tools
                \<lparr>rg_definitions = rg_definitions reg @ [def\<lparr>td_Name := name\<rparr>],
                 rg_toolsByName = rg_toolsByName reg @ [(name, tool)]\<rparr>)"

definition NewToolRegistry :: "'w Tool option list \<Rightarrow> registry_error + 'w Registry" where
  "NewToolRegistry tools = registerTools 0 tools \<lparr>rg_definitions = [], rg_toolsByName = []\<rparr>"

text \<open>The interface has two implementations: a registry, and a registry filtered by an allowlist.\<close>

datatype 'w ToolRegistry = BaseRegistry "'w Registry" | FilteredRegistry "'w ToolRegistry" "ToolDefinition list" "gostr list"

fun Definitions :: "'w ToolRegistry \<Rightarrow> ToolDefinition list" where
  "Definitions (BaseRegistry r) = rg_definitions r"
| "Definitions (FilteredRegistry base definitions allowed) = definitions"

fun RunTool :: "'w ToolRegistry \<Rightarrow> ToolCall \<Rightarrow> 'w \<Rightarrow> (gostr + ToolResult) \<times> 'w" where
  "RunTool (BaseRegistry r) call w =
     (let name = trimSpace (tc_Name call)
      in if name = [] then (Inl (lit ''tool call is missing name''), w)
         else case map_of (rg_toolsByName r) name of
                None \<Rightarrow> (Inl (lit ''unsupported tool: '' @ name), w)
              | Some tool \<Rightarrow>
                  (case tl_Run tool of
                     StructuredTool f \<Rightarrow> f (tc_Arguments call) w
                   | PlainTool f \<Rightarrow>
                       (case f (tc_Arguments call) w of
                          (Inl e, w') \<Rightarrow> (Inl e, w')
                        | (Inr output, w') \<Rightarrow> (Inr \<lparr>tr_Output = output, tr_Attachments = [], tr_MediaRefs = []\<rparr>, w'))))"
| "RunTool (FilteredRegistry base definitions allowed) call w =
     (let name = trimSpace (tc_Name call)
      in if name = [] then (Inl (lit ''tool call is missing name''), w)
         else if name \<notin> set allowed then (Inl (lit ''unsupported tool: '' @ name), w)
         else RunTool base call w)"

definition normalizeAllowedTools :: "gostr list \<Rightarrow> gostr list" where
  "normalizeAllowedTools names = foldl (\<lambda>out name. addFresh out (trimSpace name)) [] names"

definition FilterToolRegistry :: "'w ToolRegistry \<Rightarrow> gostr list \<Rightarrow> 'w ToolRegistry" where
  "FilterToolRegistry base allowed =
     (let allowedSet = normalizeAllowedTools allowed
      in if allowedSet = [] then FilteredRegistry base [] []
         else FilteredRegistry base
                (filter (\<lambda>def. trimSpace (td_Name def) \<noteq> [] \<and> trimSpace (td_Name def) \<in> set allowedSet) (Definitions base))
                allowedSet)"

definition filterRegistry :: "'w ToolRegistry \<Rightarrow> gostr list \<Rightarrow> 'w ToolRegistry" where
  "filterRegistry base allowed =
     (if normalizeAllowedTools allowed = [] then base else FilterToolRegistry base allowed)"

end
