(* ===== verification/Turn_Reply.thy ===== *)
theory Turn_Reply
  imports Conversation
begin

text \<open>
  The reply of one completed turn (\<open>systems/agent/internal/turnreply\<close>): which text and attachments reach the
  user, and the canonical transcript of the turn, in which the terminal assistant message owns the
  delivered attachments.  A set of names is the list of the Go map's keys.
\<close>

section \<open>Attachments\<close>

record Selection =
  sl_Text :: gostr
  sl_Attachments :: "Part list"

record Extractor =
  ex_deliverTools :: "gostr list"

record replyAttachment =
  ra_key :: gostr
  ra_part :: Part

definition NewExtractor :: "gostr list \<Rightarrow> Extractor" where
  "NewExtractor deliverTools = \<lparr>ex_deliverTools = foldl (\<lambda>out name. addFresh out (trimSpace name)) [] deliverTools\<rparr>"

definition normalizeReplyAttachment :: "Part \<Rightarrow> replyAttachment option" where
  "normalizeReplyAttachment part0 =
     (let part = NormalizePart part0; image = ImagePart (pt_MediaRef part) (pt_DataURL part);
          media = MediaPart (pt_MediaKind part) (pt_MediaRef part)
      in if pt_Type part \<noteq> MediaPartType \<or> pt_MediaKind part = [] then None
         else if pt_MediaKind part = MediaKindImage
         then (if trimSpace (pt_MediaRef part) = [] \<and> trimSpace (pt_DataURL part) = [] then None
               else Some \<lparr>ra_key = pt_MediaKind image @ [0] @ pt_MediaRef image @ [0] @ pt_DataURL image, ra_part = image\<rparr>)
         else (if trimSpace (pt_MediaRef part) = [] then None
               else Some \<lparr>ra_key = pt_MediaKind media @ [0] @ pt_MediaRef media, ra_part = media\<rparr>))"

text \<open>The loop body that collects an attachment unless its key was seen.\<close>

definition addAttachment :: "replyAttachment list \<Rightarrow> Part \<Rightarrow> replyAttachment list" where
  "addAttachment out part =
     (case normalizeReplyAttachment part of
        None \<Rightarrow> out
      | Some a \<Rightarrow> if ra_key a \<in> ra_key ` set out then out else out @ [a])"

definition collectReplyAttachments :: "Message list \<Rightarrow> nat \<Rightarrow> nat \<Rightarrow> replyAttachment list" where
  "collectReplyAttachments ms start stop =
     foldl (\<lambda>out msg. foldl addAttachment out (NormalizeParts (mg_Parts msg))) []
       (drop start (take (min stop (length ms)) ms))"

fun blockLoop :: "Message list \<Rightarrow> gostr \<Rightarrow> nat \<Rightarrow> nat" where
  "blockLoop ms role 0 = 0"
| "blockLoop ms role (Suc start) = (if mg_Role (ms ! start) = role then blockLoop ms role start else Suc start)"

definition trailingRoleBlockStart :: "Message list \<Rightarrow> gostr \<Rightarrow> nat" where
  "trailingRoleBlockStart ms role =
     (if ms = [] \<or> mg_Role (last ms) \<noteq> role then length ms else blockLoop ms role (length ms - 1))"

definition nameCall :: "gostr gomap \<Rightarrow> Part \<Rightarrow> gostr gomap" where
  "nameCall names part =
     (let callID = trimSpace (pt_ID part); name = trimSpace (pt_Name part)
      in if pt_Type part \<noteq> ToolCallPartType then names
         else if callID = [] \<or> name = [] then names
         else if map_of names callID = None then names @ [(callID, name)] else names)"

definition resolveToolCallNames :: "Message list \<Rightarrow> gostr gomap" where
  "resolveToolCallNames ms =
     foldl (\<lambda>names msg. if mg_Role msg \<noteq> AssistantRole then names
                         else foldl nameCall names (NormalizeParts (mg_Parts msg))) [] ms"

definition messageDelivers :: "Part list \<Rightarrow> gostr gomap \<Rightarrow> gostr list \<Rightarrow> bool" where
  "messageDelivers parts names deliverTools =
     list_ex (\<lambda>part. pt_Type part = ToolResultPartType \<and>
       (case map_of names (trimSpace (pt_ToolCallID part)) of None \<Rightarrow> False | Some name \<Rightarrow> name \<in> set deliverTools)) parts"

definition collectDeliveredAttachments :: "Extractor \<Rightarrow> Message list \<Rightarrow> replyAttachment list" where
  "collectDeliveredAttachments e ms =
     (if ex_deliverTools e = [] then []
      else let names = resolveToolCallNames ms
           in foldl (\<lambda>out msg.
                 if mg_Role msg \<noteq> ToolRole then out
                 else let parts = NormalizeParts (mg_Parts msg)
                      in if \<not> messageDelivers parts names (ex_deliverTools e) then out else foldl addAttachment out parts)
                [] ms)"

definition partsFromAttachments :: "replyAttachment list \<Rightarrow> Part list" where
  "partsFromAttachments attachments = map ra_part attachments"

definition selectAttachments :: "Extractor \<Rightarrow> Message list \<Rightarrow> Part list" where
  "selectAttachments e ms =
     (let attachments = collectReplyAttachments ms (trailingRoleBlockStart ms AssistantRole) (length ms)
      in if ms = [] then []
         else if attachments \<noteq> [] then partsFromAttachments attachments
         else partsFromAttachments (collectDeliveredAttachments e ms))"

section \<open>The reply and the canonical turn\<close>

definition Extract :: "Extractor \<Rightarrow> Message list \<Rightarrow> Selection" where
  "Extract e ms =
     (let normalized = NormalizeMessages (CloneMessages ms)
      in \<lparr>sl_Text = FinalAnswer normalized, sl_Attachments = selectAttachments e normalized\<rparr>)"

definition stripReplyAttachments :: "Part list \<Rightarrow> gostr list \<Rightarrow> Part list" where
  "stripReplyAttachments parts keys =
     filter (\<lambda>part. case normalizeReplyAttachment part of None \<Rightarrow> True | Some a \<Rightarrow> ra_key a \<notin> set keys)
       (NormalizeParts parts)"

definition messageSurvivesCompaction :: "Part list \<Rightarrow> bool" where
  "messageSurvivesCompaction parts \<longleftrightarrow>
     list_ex (\<lambda>part. pt_Type (NormalizePart part) \<in> {ToolResultPartType, ToolCallPartType}) parts \<or> NormalizeParts parts \<noteq> []"

definition compactMessages :: "Message list \<Rightarrow> Message list" where
  "compactMessages ms = filter (\<lambda>msg. messageSurvivesCompaction (mg_Parts msg)) ms"

definition stripToolMessage :: "gostr list \<Rightarrow> Message \<Rightarrow> Message" where
  "stripToolMessage keys msg =
     (if mg_Role msg \<noteq> ToolRole then msg
      else NormalizeMessage (msg\<lparr>mg_Parts := stripReplyAttachments (mg_Parts msg) keys\<rparr>))"

definition attachToLast :: "replyAttachment list \<Rightarrow> Message list \<Rightarrow> Message list" where
  "attachToLast attachments ms =
     butlast ms @ [(last ms)\<lparr>mg_Parts := NormalizeParts (CloneParts (mg_Parts (last ms)) @ map ra_part attachments)\<rparr>]"

definition Canonicalize :: "Extractor \<Rightarrow> Message list \<Rightarrow> Message list" where
  "Canonicalize e ms =
     (let normalized = NormalizeMessages (CloneMessages ms);
          assistantStart = trailingRoleBlockStart normalized AssistantRole;
          assistantAttachments = collectReplyAttachments normalized assistantStart (length normalized);
          toolAttachments = collectDeliveredAttachments e normalized
      in if normalized = [] then []
         else if assistantAttachments \<noteq> [] then compactMessages normalized
         else if toolAttachments = [] then compactMessages normalized
         else let owned = (if assistantStart = length normalized then normalized @ [AssistantMessage []] else normalized);
                  stripped = map (stripToolMessage (map ra_key toolAttachments)) owned
              in compactMessages (attachToLast toolAttachments stripped))"

section \<open>Collecting attachments\<close>

lemma foldl_concat: "foldl (\<lambda>out m. foldl f out (g m)) a ms = foldl f a (concat (map g ms))"
  by (induction ms arbitrary: a) auto

lemma type_consts [simp]:
  "TextPartType \<noteq> MediaPartType" "MediaPartType \<noteq> TextPartType"
  "ToolCallPartType \<noteq> MediaPartType" "MediaPartType \<noteq> ToolCallPartType"
  "ToolResultPartType \<noteq> MediaPartType" "MediaPartType \<noteq> ToolResultPartType"
  "ToolRole \<noteq> AssistantRole" "AssistantRole \<noteq> ToolRole" "MediaKindImage \<noteq> []"
  by (simp_all add: TextPartType_def MediaPartType_def ToolCallPartType_def ToolResultPartType_def
      ToolRole_def AssistantRole_def MediaKindImage_def)

lemma kind_image: "normalizeMediaKind MediaKindImage = MediaKindImage"
  by code_simp

lemma image_attachment:
  assumes "trimSpace r = r" "trimSpace u = u" "r \<noteq> [] \<or> u \<noteq> []"
  shows "normalPart (ImagePart r u)"
    "normalizeReplyAttachment (ImagePart r u) = Some \<lparr>ra_key = MediaKindImage @ [0] @ r @ [0] @ u, ra_part = ImagePart r u\<rparr>"
proof -
  have n: "NormalizePart (ImagePart r u) = ImagePart r u"
    using assms by (simp add: NormalizePart_def ImagePart_def emptyPart_def kind_image cloneReplayMap_def)
  with assms show "normalPart (ImagePart r u)"
    by (auto simp: normalPart_def shouldKeepPart_def ImagePart_def emptyPart_def)
  show "normalizeReplyAttachment (ImagePart r u) = Some \<lparr>ra_key = MediaKindImage @ [0] @ r @ [0] @ u, ra_part = ImagePart r u\<rparr>"
    unfolding normalizeReplyAttachment_def n Let_def using assms by (auto simp: ImagePart_def emptyPart_def)
qed

lemma media_attachment:
  assumes "normalizeMediaKind k = k" "k \<noteq> []" "k \<noteq> MediaKindImage" "trimSpace r = r" "r \<noteq> []"
  shows "normalPart (MediaPart k r)"
    "normalizeReplyAttachment (MediaPart k r) = Some \<lparr>ra_key = k @ [0] @ r, ra_part = MediaPart k r\<rparr>"
proof -
  have n: "NormalizePart (MediaPart k r) = MediaPart k r"
    using assms by (simp add: NormalizePart_def MediaPart_def emptyPart_def cloneReplayMap_def)
  with assms show "normalPart (MediaPart k r)"
    by (auto simp: normalPart_def shouldKeepPart_def MediaPart_def emptyPart_def)
  show "normalizeReplyAttachment (MediaPart k r) = Some \<lparr>ra_key = k @ [0] @ r, ra_part = MediaPart k r\<rparr>"
    unfolding normalizeReplyAttachment_def n Let_def using assms by (auto simp: MediaPart_def emptyPart_def)
qed

lemma normalized_media:
  assumes "pt_Type p = MediaPartType"
  shows "normalizeMediaKind (pt_MediaKind (NormalizePart p)) = pt_MediaKind (NormalizePart p)"
    "trimSpace (pt_MediaRef (NormalizePart p)) = pt_MediaRef (NormalizePart p)"
    "trimSpace (pt_DataURL (NormalizePart p)) = pt_DataURL (NormalizePart p)"
  using assms by (simp_all add: NormalizePart_def Let_def)

lemma attachment_cases:
  assumes "normalizeReplyAttachment p = Some a" "q = NormalizePart p"
  shows "pt_Type q = MediaPartType"
    "if pt_MediaKind q = MediaKindImage
     then (pt_MediaRef q \<noteq> [] \<or> pt_DataURL q \<noteq> []) \<and>
       a = \<lparr>ra_key = MediaKindImage @ [0] @ pt_MediaRef q @ [0] @ pt_DataURL q, ra_part = ImagePart (pt_MediaRef q) (pt_DataURL q)\<rparr>
     else pt_MediaRef q \<noteq> [] \<and> pt_MediaKind q \<noteq> [] \<and>
       a = \<lparr>ra_key = pt_MediaKind q @ [0] @ pt_MediaRef q, ra_part = MediaPart (pt_MediaKind q) (pt_MediaRef q)\<rparr>"
proof -
  have t: "pt_Type p = MediaPartType"
    using assms(1) unfolding normalizeReplyAttachment_def Let_def NormalizePart_type by (metis option.distinct(1))
  then show "pt_Type q = MediaPartType" using assms(2) by simp
  note n = normalized_media [OF t, folded assms(2)]
  have sel: "pt_MediaKind (ImagePart r u) = MediaKindImage" "pt_MediaRef (ImagePart r u) = trimSpace r"
    "pt_DataURL (ImagePart r u) = trimSpace u" "pt_MediaKind (MediaPart k r) = normalizeMediaKind k"
    "pt_MediaRef (MediaPart k r) = trimSpace r" for r u k
    by (simp_all add: ImagePart_def MediaPart_def)
  show "if pt_MediaKind q = MediaKindImage
     then (pt_MediaRef q \<noteq> [] \<or> pt_DataURL q \<noteq> []) \<and>
       a = \<lparr>ra_key = MediaKindImage @ [0] @ pt_MediaRef q @ [0] @ pt_DataURL q, ra_part = ImagePart (pt_MediaRef q) (pt_DataURL q)\<rparr>
     else pt_MediaRef q \<noteq> [] \<and> pt_MediaKind q \<noteq> [] \<and>
       a = \<lparr>ra_key = pt_MediaKind q @ [0] @ pt_MediaRef q, ra_part = MediaPart (pt_MediaKind q) (pt_MediaRef q)\<rparr>"
    using assms(1) unfolding normalizeReplyAttachment_def Let_def assms(2) [symmetric] sel n
    by (cases "pt_MediaKind q = MediaKindImage") (simp_all split: if_splits)
qed

lemma attachment_normal:
  assumes "normalizeReplyAttachment p = Some a"
  shows "normalizeReplyAttachment (ra_part a) = Some a" "normalPart (ra_part a)" "pt_Type (ra_part a) = MediaPartType"
proof -
  define q where "q = NormalizePart p"
  note c = attachment_cases [OF assms q_def]
  have n: "normalizeMediaKind (pt_MediaKind q) = pt_MediaKind q"
    "trimSpace (pt_MediaRef q) = pt_MediaRef q" "trimSpace (pt_DataURL q) = pt_DataURL q"
    using normalized_media [of p] c(1) by (simp_all add: q_def)
  have "pt_Type (ImagePart r u) = MediaPartType" "pt_Type (MediaPart k r) = MediaPartType" for r u k
    by (simp_all add: ImagePart_def MediaPart_def)
  then have "normalizeReplyAttachment (ra_part a) = Some a \<and> normalPart (ra_part a) \<and> pt_Type (ra_part a) = MediaPartType"
    using image_attachment [OF n(2,3)] media_attachment [OF n(1) _ _ n(2)] c(2)
    by (cases "pt_MediaKind q = MediaKindImage") simp_all
  then show "normalizeReplyAttachment (ra_part a) = Some a" "normalPart (ra_part a)" "pt_Type (ra_part a) = MediaPartType"
    by auto
qed

lemma attachment_type: "pt_Type p \<noteq> MediaPartType \<Longrightarrow> normalizeReplyAttachment p = None"
  by (simp add: normalizeReplyAttachment_def Let_def)

definition collected :: "replyAttachment list \<Rightarrow> bool" where
  "collected as \<longleftrightarrow> distinct (map ra_key as) \<and> (\<forall>a \<in> set as. normalizeReplyAttachment (ra_part a) = Some a)"

lemma collected_add: "collected as \<Longrightarrow> collected (addAttachment as p)"
  using attachment_normal(1) by (auto simp: collected_def addAttachment_def split: option.splits)

lemma collected_foldl: "collected as \<Longrightarrow> collected (foldl addAttachment as ps)"
  by (induction ps arbitrary: as) (auto intro: collected_add)

lemma addAttachment_set: "a \<in> set (addAttachment as p) \<Longrightarrow> a \<in> set as \<or> normalizeReplyAttachment p = Some a"
  by (auto simp: addAttachment_def split: option.splits if_splits)

lemma foldl_add_set:
  "a \<in> set (foldl addAttachment as ps) \<Longrightarrow> a \<in> set as \<or> (\<exists>p \<in> set ps. normalizeReplyAttachment p = Some a)"
proof (induction ps arbitrary: as)
  case (Cons p ps)
  from Cons.IH [of "addAttachment as p"] Cons.prems addAttachment_set [of a as p] show ?case by auto
qed simp

lemma foldl_add_none: "\<forall>p \<in> set ps. normalizeReplyAttachment p = None \<Longrightarrow> foldl addAttachment as ps = as"
  by (induction ps arbitrary: as) (auto simp: addAttachment_def)

lemma foldl_add_ne: "as \<noteq> [] \<Longrightarrow> foldl addAttachment as ps \<noteq> []"
  by (induction ps arbitrary: as) (auto simp: addAttachment_def split: option.splits)

lemma foldl_add_Nil: "foldl addAttachment [] ps = [] \<longleftrightarrow> (\<forall>p \<in> set ps. normalizeReplyAttachment p = None)"
proof (induction ps)
  case (Cons p ps)
  show ?case
  proof (cases "normalizeReplyAttachment p")
    case None
    with Cons show ?thesis by (simp add: addAttachment_def)
  next
    case (Some a)
    then have "addAttachment [] p \<noteq> []" by (simp add: addAttachment_def)
    from foldl_add_ne [OF this] Some show ?thesis by simp
  qed
qed simp

lemma foldl_add_parts: "collected (out @ as) \<Longrightarrow> foldl addAttachment out (map ra_part as) = out @ as"
proof (induction as arbitrary: out)
  case (Cons a as)
  then have "addAttachment out (ra_part a) = out @ [a]" by (auto simp: collected_def addAttachment_def)
  with Cons.IH [of "out @ [a]"] Cons.prems show ?case by simp
qed simp

definition partsIn :: "Message list \<Rightarrow> Part list" where
  "partsIn ms = concat (map (\<lambda>m. NormalizeParts (mg_Parts m)) ms)"

lemma collect_from: "collectReplyAttachments ms start (length ms) = foldl addAttachment [] (partsIn (drop start ms))"
  by (simp add: collectReplyAttachments_def foldl_concat partsIn_def)

definition delivering :: "Extractor \<Rightarrow> Message list \<Rightarrow> Message \<Rightarrow> bool" where
  "delivering e ms m \<longleftrightarrow> mg_Role m = ToolRole \<and>
     messageDelivers (NormalizeParts (mg_Parts m)) (resolveToolCallNames ms) (ex_deliverTools e)"

lemma foldl_filter: "foldl (\<lambda>a x. if P x then a else f a x) a xs = foldl f a (filter (\<lambda>x. \<not> P x) xs)"
  by (induction xs arbitrary: a) auto

lemma collectDelivered_eq:
  "collectDeliveredAttachments e ms = foldl addAttachment [] (partsIn (filter (delivering e ms) ms))"
proof (cases "ex_deliverTools e = []")
  case True
  have "\<not> delivering e ms m" for m
    unfolding delivering_def messageDelivers_def True by (auto simp: list_ex_iff split: option.splits)
  then have "filter (delivering e ms) ms = []" by simp
  with True show ?thesis by (simp add: collectDeliveredAttachments_def partsIn_def)
next
  case False
  have "foldl (\<lambda>out msg. if mg_Role msg \<noteq> ToolRole then out
          else let parts = NormalizeParts (mg_Parts msg)
               in if \<not> messageDelivers parts (resolveToolCallNames ms) (ex_deliverTools e) then out
                  else foldl addAttachment out parts) [] ms
      = foldl (\<lambda>out msg. foldl addAttachment out (NormalizeParts (mg_Parts msg))) [] (filter (delivering e ms) ms)"
    unfolding foldl_filter [of "\<lambda>m. \<not> delivering e ms m", simplified, symmetric]
    by (rule arg_cong [of _ _ "\<lambda>f. foldl f [] ms"]) (auto simp: fun_eq_iff delivering_def Let_def)
  with False show ?thesis by (simp add: collectDeliveredAttachments_def foldl_concat partsIn_def)
qed

lemma collected_delivered: "collected (collectDeliveredAttachments e ms)"
  unfolding collectDelivered_eq by (rule collected_foldl) (simp add: collected_def)

section \<open>The trailing block\<close>

definition isBlock :: "Message list \<Rightarrow> gostr \<Rightarrow> nat \<Rightarrow> bool" where
  "isBlock ms role start \<longleftrightarrow> start \<le> length ms \<and> (\<forall>i. start \<le> i \<longrightarrow> i < length ms \<longrightarrow> mg_Role (ms ! i) = role) \<and>
     (0 < start \<longrightarrow> mg_Role (ms ! (start - 1)) \<noteq> role)"

lemma isBlock_unique: "isBlock ms role s \<Longrightarrow> isBlock ms role t \<Longrightarrow> s = t"
proof -
  have "False" if "isBlock ms role s" "isBlock ms role t" "s < t" for s t
  proof -
    have "s \<le> t - 1" "t - 1 < length ms" "0 < t" using that by (auto simp: isBlock_def)
    with that(1,2) show False unfolding isBlock_def by blast
  qed
  then show "isBlock ms role s \<Longrightarrow> isBlock ms role t \<Longrightarrow> s = t" by (metis linorder_neqE_nat)
qed

lemma blockLoop_block:
  "n \<le> length ms \<Longrightarrow> (\<forall>i. n \<le> i \<longrightarrow> i < length ms \<longrightarrow> mg_Role (ms ! i) = role) \<Longrightarrow> isBlock ms role (blockLoop ms role n)"
proof (induction n)
  case (Suc n)
  show ?case
  proof (cases "mg_Role (ms ! n) = role")
    case True
    have "\<forall>i. n \<le> i \<longrightarrow> i < length ms \<longrightarrow> mg_Role (ms ! i) = role"
      using Suc.prems(2) True by (metis le_antisym not_less_eq_eq)
    with Suc True show ?thesis by simp
  next
    case False
    with Suc.prems show ?thesis by (simp add: isBlock_def)
  qed
qed (simp add: isBlock_def)

lemma trailing_block: "isBlock ms role (trailingRoleBlockStart ms role)"
proof (cases "ms = [] \<or> mg_Role (last ms) \<noteq> role")
  case True
  then show ?thesis by (auto simp: trailingRoleBlockStart_def isBlock_def last_conv_nth)
next
  case False
  then have "\<forall>i. length ms - 1 \<le> i \<longrightarrow> i < length ms \<longrightarrow> mg_Role (ms ! i) = role"
    by (auto simp: last_conv_nth) (metis One_nat_def Suc_pred le_antisym length_greater_0_conv less_Suc_eq_le)
  from blockLoop_block [OF _ this] False show ?thesis by (simp add: trailingRoleBlockStart_def)
qed

lemma trailing_eqI: "isBlock ms role s \<Longrightarrow> trailingRoleBlockStart ms role = s"
  using isBlock_unique trailing_block by blast

section \<open>What the canonical turn keeps\<close>

text \<open>Everything a transcript says other than media, with the role that says it.\<close>

definition said :: "Message list \<Rightarrow> (gostr \<times> Part) list" where
  "said ms = concat (map (\<lambda>m. map (\<lambda>p. (mg_Role m, p)) (filter (\<lambda>p. pt_Type p \<noteq> MediaPartType) (mg_Parts m))) ms)"

lemma said_simps [simp]:
  "said [] = []" "said (ms @ ns) = said ms @ said ns"
  by (simp_all add: said_def)

lemma said_Cons: "said (m # ms) = said [m] @ said ms"
  by (simp add: said_def)

lemma normal_survives: "normalMsg m \<Longrightarrow> messageSurvivesCompaction (mg_Parts m) \<longleftrightarrow> mg_Parts m \<noteq> []"
  using normalMsg_parts [of m] NormalizeParts_fixed [of "mg_Parts m"]
  by (auto simp: messageSurvivesCompaction_def)

lemma compact_normal:
  assumes "list_all normalMsg ms"
  shows "compactMessages ms = filter (\<lambda>m. mg_Parts m \<noteq> []) ms"
  unfolding compactMessages_def by (rule filter_cong) (use assms in \<open>auto simp: list_all_iff normal_survives\<close>)

lemma said_compact:
  assumes "list_all normalMsg ms"
  shows "said (compactMessages ms) = said ms"
proof -
  have "said (filter (\<lambda>m. mg_Parts m \<noteq> []) ms) = said ms"
    by (induction ms) (auto simp: said_def)
  with assms show ?thesis by (simp add: compact_normal)
qed

lemma strip_normal: "list_all normalPart (stripReplyAttachments ps keys)"
  using NormalizeParts_normal by (auto simp: stripReplyAttachments_def list_all_iff)

lemma filter_said_strip:
  "filter (\<lambda>p. pt_Type p \<noteq> MediaPartType) (stripReplyAttachments ps keys) =
   filter (\<lambda>p. pt_Type p \<noteq> MediaPartType) (NormalizeParts ps)"
  unfolding stripReplyAttachments_def filter_filter
  by (rule filter_cong) (auto simp: attachment_type)

lemma stripToolMessage_sel:
  assumes "normalMsg m"
  shows "normalMsg (stripToolMessage keys m)" "mg_Role (stripToolMessage keys m) = mg_Role m"
    "said [stripToolMessage keys m] = said [m]"
    "mg_Parts (stripToolMessage keys m) = (if mg_Role m = ToolRole then stripReplyAttachments (mg_Parts m) keys else mg_Parts m)"
proof -
  have f: "NormalizeParts (mg_Parts m) = mg_Parts m" using assms normalMsg_parts NormalizeParts_fixed by blast
  show "normalMsg (stripToolMessage keys m)" using assms by (simp add: stripToolMessage_def)
  show "mg_Role (stripToolMessage keys m) = mg_Role m" by (simp add: stripToolMessage_def)
  show p: "mg_Parts (stripToolMessage keys m) = (if mg_Role m = ToolRole then stripReplyAttachments (mg_Parts m) keys else mg_Parts m)"
    by (simp add: stripToolMessage_def NormalizeParts_fixed [OF strip_normal])
  show "said [stripToolMessage keys m] = said [m]"
    using filter_said_strip [of "mg_Parts m" keys] f p by (simp add: said_def stripToolMessage_def)
qed

lemma strip_messages:
  assumes "list_all normalMsg ms"
  shows "list_all normalMsg (map (stripToolMessage keys) ms)" "said (map (stripToolMessage keys) ms) = said ms"
    "map mg_Role (map (stripToolMessage keys) ms) = map mg_Role ms"
proof -
  show "said (map (stripToolMessage keys) ms) = said ms" using assms
    by (induction ms) (simp_all, metis said_Cons stripToolMessage_sel(3))
qed (use assms in \<open>auto simp: list_all_iff stripToolMessage_sel\<close>)

lemma attach_parts:
  assumes "list_all normalMsg ms" "ms \<noteq> []" "collected as"
  shows "attachToLast as ms = butlast ms @ [(last ms)\<lparr>mg_Parts := mg_Parts (last ms) @ map ra_part as\<rparr>]"
    "list_all normalMsg (attachToLast as ms)" "said (attachToLast as ms) = said ms"
proof -
  have l: "normalMsg (last ms)" using assms(1,2) by (simp add: list_all_iff)
  have as: "list_all normalPart (map ra_part as)" "\<forall>a \<in> set as. pt_Type (ra_part a) = MediaPartType"
    using assms(3) attachment_normal by (auto simp: collected_def list_all_iff)
  have ps: "list_all normalPart (mg_Parts (last ms) @ map ra_part as)" using normalMsg_parts [OF l] as by simp
  show e: "attachToLast as ms = butlast ms @ [(last ms)\<lparr>mg_Parts := mg_Parts (last ms) @ map ra_part as\<rparr>]"
    using NormalizeParts_fixed [OF ps] by (simp add: attachToLast_def CloneParts_normal [OF normalMsg_parts [OF l]])
  have "list_all normalMsg (butlast ms)" using assms(1) in_set_butlastD by (fastforce simp: list_all_iff)
  with normalMsg_setParts [OF l ps] show "list_all normalMsg (attachToLast as ms)" by (simp add: e)
  have "filter (\<lambda>p. pt_Type p \<noteq> MediaPartType) (map ra_part as) = []" using as(2) by (auto simp: filter_empty_conv)
  then have "said (attachToLast as ms) = said (butlast ms) @ said [last ms]" by (simp add: e said_def)
  also have "\<dots> = said ms" using assms(2) by (metis append_butlast_last_id said_simps(2))
  finally show "said (attachToLast as ms) = said ms" .
qed

lemma AssistantMessage_Nil: "AssistantMessage [] = plainMessage AssistantRole []"
  by (simp add: AssistantMessage_def CloneParts_def)

text \<open>The messages the last branch of \<open>Canonicalize\<close> works on.\<close>

lemma owned_normal:
  assumes "list_all normalMsg ms" "ms \<noteq> []" "owned = (if b then ms @ [AssistantMessage []] else ms)"
  shows "list_all normalMsg owned" "owned \<noteq> []" "said owned = said ms"
  using assms normal_plain [of "[]" AssistantRole] by (auto simp: AssistantMessage_Nil said_def plainMessage_def)

text \<open>
  The canonical transcript of a turn keeps, in order and under the same roles, every text,
  reasoning, tool call and tool result of the turn: moving attachments to the final message never
  separates a tool call from its result.
\<close>

theorem canonical_turn_keeps_calls:
  "said (Canonicalize e ms) = said (NormalizeMessages ms)"
proof -
  let ?N = "NormalizeMessages ms" and ?tas = "collectDeliveredAttachments e (NormalizeMessages ms)"
  let ?start = "trailingRoleBlockStart ?N AssistantRole"
  define owned where "owned = (if ?start = length ?N then ?N @ [AssistantMessage []] else ?N)"
  have N: "list_all normalMsg ?N" by simp
  show ?thesis
  proof (cases "?N = [] \<or> collectReplyAttachments ?N ?start (length ?N) \<noteq> [] \<or> ?tas = []")
    case True
    then show ?thesis using said_compact [OF N] by (auto simp: Canonicalize_def Let_def)
  next
    case False
    have o: "list_all normalMsg owned" "owned \<noteq> []" "said owned = said ?N"
      using owned_normal [OF N _ owned_def] False by auto
    let ?st = "map (stripToolMessage (map ra_key ?tas)) owned"
    have "list_all normalMsg ?st" "?st \<noteq> []" using strip_messages [OF o(1)] o(2) by auto
    with said_compact attach_parts [OF _ _ collected_delivered] strip_messages(2) [OF o(1)] o(3)
    have "said (compactMessages (attachToLast ?tas ?st)) = said ?N" by metis
    with False show ?thesis by (auto simp: Canonicalize_def Let_def owned_def)
  qed
qed

section \<open>The reply survives\<close>

definition texts :: "Message list \<Rightarrow> Part list" where
  "texts ms = map snd (filter (\<lambda>(r, p). r = AssistantRole \<and> pt_Type p = TextPartType) (said ms))"

lemma answerPart_skip: "pt_Type p \<noteq> TextPartType \<Longrightarrow> answerPart acc p = acc"
  by (simp add: answerPart_def Let_def split: prod.splits)

lemma answer_filter: "foldl answerPart acc ps = foldl answerPart acc (filter (\<lambda>p. pt_Type p = TextPartType) ps)"
  by (induction ps arbitrary: acc) (auto simp: answerPart_skip)

lemma texts_Cons:
  "texts (m # ms) = (if mg_Role m \<noteq> AssistantRole then [] else filter (\<lambda>p. pt_Type p = TextPartType) (mg_Parts m)) @ texts ms"
proof -
  have "map snd (filter (\<lambda>(r, p). r = AssistantRole \<and> pt_Type p = TextPartType) (said [m])) =
      (if mg_Role m \<noteq> AssistantRole then [] else filter (\<lambda>p. pt_Type p = TextPartType) (mg_Parts m))"
    by (auto simp: said_def filter_map comp_def intro!: filter_cong)
  then show ?thesis by (simp add: texts_def said_Cons [of m ms])
qed

lemma FinalAnswer_texts:
  "FinalAnswer ms = (let (finalText, plainText) = foldl answerPart ([], []) (texts ms) in if finalText \<noteq> [] then finalText else plainText)"
proof -
  have "foldl (\<lambda>acc msg. if mg_Role msg \<noteq> AssistantRole then acc else foldl answerPart acc (mg_Parts msg)) acc ms =
      foldl answerPart acc (texts ms)" for acc
  proof (induction ms arbitrary: acc)
    case (Cons m ms)
    then show ?case using answer_filter [of acc "mg_Parts m"] by (simp add: texts_Cons)
  qed (simp add: texts_def)
  then show ?thesis by (simp add: FinalAnswer_def)
qed

text \<open>
  A turn whose closing assistant messages stay apart from the earlier ones: the last message before
  them, if there is one, keeps a part, and a tool result if it is a tool's.  In a turn of the engine
  that message answers the last tool call; the result of a call without an id normalizes to an empty
  message, so such a turn need not be closed.
\<close>

definition closedTurn :: "Message list \<Rightarrow> bool" where
  "closedTurn ms \<longleftrightarrow>
     (let N = NormalizeMessages ms; before = take (trailingRoleBlockStart N AssistantRole) N; m = last before
      in before = [] \<or> mg_Parts m \<noteq> [] \<and>
           (mg_Role m = ToolRole \<longrightarrow> list_ex (\<lambda>p. pt_Type p = ToolResultPartType) (mg_Parts m)))"

lemma partsIn_append [simp]: "partsIn (ms @ ns) = partsIn ms @ partsIn ns"
  by (simp add: partsIn_def)

lemma partsIn_kept: "partsIn (filter P (filter (\<lambda>m. mg_Parts m \<noteq> []) ms)) = partsIn (filter P ms)"
  by (induction ms) (auto simp: partsIn_def NormalizeParts_def)

lemma trailing_split:
  assumes "list_all (\<lambda>m. mg_Role m = r) rest" "before = [] \<or> mg_Role (last before) \<noteq> r"
  shows "trailingRoleBlockStart (before @ rest) r = length before"
  by (rule trailing_eqI)
    (use assms in \<open>auto simp: isBlock_def nth_append list_all_length last_conv_nth\<close>)

lemma trailing_parts:
  fixes ms r
  defines "s \<equiv> trailingRoleBlockStart ms r"
  shows "list_all (\<lambda>m. mg_Role m = r) (drop s ms)" "take s ms = [] \<or> mg_Role (last (take s ms)) \<noteq> r"
proof -
  have b: "isBlock ms r s" unfolding s_def by (rule trailing_block)
  show "list_all (\<lambda>m. mg_Role m = r) (drop s ms)" using b by (auto simp: isBlock_def list_all_length)
  show "take s ms = [] \<or> mg_Role (last (take s ms)) \<noteq> r"
    using b by (cases "s = 0") (auto simp: isBlock_def last_conv_nth)
qed

text \<open>Dropping empty messages keeps the attachments of the closing block if it stays apart.\<close>

lemma collect_compact:
  assumes n: "list_all normalMsg ms" and s: "s = trailingRoleBlockStart ms AssistantRole"
    and keep: "take s ms = [] \<or> mg_Parts (last (take s ms)) \<noteq> []"
  shows "collectReplyAttachments (compactMessages ms) (trailingRoleBlockStart (compactMessages ms) AssistantRole)
      (length (compactMessages ms)) = collectReplyAttachments ms s (length ms)"
proof -
  let ?f = "filter (\<lambda>m. mg_Parts m \<noteq> [])" and ?a = "take s ms" and ?b = "drop s ms"
  have c: "compactMessages ms = ?f ?a @ ?f ?b" by (simp add: compact_normal [OF n] flip: filter_append)
  have "?f ?a = [] \<or> mg_Role (last (?f ?a)) \<noteq> AssistantRole"
  proof (cases "?a = []")
    case False
    then obtain xs x where x: "?a = xs @ [x]" by (metis append_butlast_last_id)
    with keep trailing_parts(2) [where ms = ms and r = AssistantRole, folded s] False have "mg_Parts x \<noteq> []" "mg_Role x \<noteq> AssistantRole"
      by (simp_all del: take_eq_Nil take_eq_Nil2)
    with x show ?thesis by simp
  qed (simp del: take_eq_Nil take_eq_Nil2)
  moreover have "list_all (\<lambda>m. mg_Role m = AssistantRole) (?f ?b)"
    using trailing_parts(1) [where ms = ms and r = AssistantRole] by (auto simp: s list_all_iff)
  ultimately have "trailingRoleBlockStart (compactMessages ms) AssistantRole = length (?f ?a)"
    unfolding c by (intro trailing_split)
  then show ?thesis unfolding collect_from using partsIn_kept [of "\<lambda>_. True" ?b] by (simp add: c)
qed

lemma partsIn_normal: "list_all normalMsg ms \<Longrightarrow> partsIn ms = concat (map mg_Parts ms)"
  by (induction ms) (auto simp: partsIn_def dest!: normalMsg_parts NormalizeParts_fixed)

lemma isBlock_roles:
  assumes "map mg_Role ms = map mg_Role ns" "isBlock ms r s"
  shows "isBlock ns r s"
proof -
  have len: "length ms = length ns" using assms(1) by (metis length_map)
  have "mg_Role (ms ! i) = mg_Role (ns ! i)" if "i < length ns" for i
    using arg_cong [OF assms(1), of "\<lambda>l. l ! i"] that len by simp
  moreover have "s - 1 < length ns" if "0 < s" using assms(2) len that by (auto simp: isBlock_def)
  ultimately show ?thesis using assms(2) len by (simp add: isBlock_def)
qed

lemma strip_keeps_result:
  assumes "normalMsg m" "list_ex (\<lambda>p. pt_Type p = ToolResultPartType) (mg_Parts m)"
  shows "mg_Parts (stripToolMessage keys m) \<noteq> []"
proof -
  from assms(2) obtain p where p: "p \<in> set (mg_Parts m)" "pt_Type p = ToolResultPartType" by (auto simp: list_ex_iff)
  have "NormalizeParts (mg_Parts m) = mg_Parts m" using assms(1) normalMsg_parts NormalizeParts_fixed by blast
  with p have "p \<in> set (stripReplyAttachments (mg_Parts m) keys)"
    by (simp add: stripReplyAttachments_def attachment_type)
  with assms(1) p(1) show ?thesis by (auto simp: stripToolMessage_sel)
qed

text \<open>The branch that moves attachments: the result is normal, and its last block owns them.\<close>

lemma moved_turn:
  assumes closed: "closedTurn ms" and N: "N = NormalizeMessages ms" "N \<noteq> []"
    and none: "collectReplyAttachments N (trailingRoleBlockStart N AssistantRole) (length N) = []"
    and tas: "tas = collectDeliveredAttachments e N" "tas \<noteq> []"
  shows "\<exists>C. Canonicalize e ms = C \<and> list_all normalMsg C \<and> compactMessages C = C \<and>
     collectReplyAttachments C (trailingRoleBlockStart C AssistantRole) (length C) = tas"
proof -
  let ?s = "trailingRoleBlockStart N AssistantRole"
  define owned where "owned = (if ?s = length N then N @ [AssistantMessage []] else N)"
  define st where "st = map (stripToolMessage (map ra_key tas)) owned"
  define C where "C = attachToLast tas st"
  have nN: "list_all normalMsg N" by (simp add: N)
  note o = owned_normal [OF nN N(2) owned_def]
  have st: "list_all normalMsg st" "st \<noteq> []" "map mg_Role st = map mg_Role owned"
    using strip_messages [OF o(1)] o(2) by (simp_all add: st_def)
  note C = attach_parts [OF st(1,2), of tas, folded C_def]
  have col: "collected tas" by (simp add: tas collected_delivered)
  have bs: "isBlock N AssistantRole ?s" by (rule trailing_block)
  have bo: "isBlock owned AssistantRole ?s"
  proof (cases "?s = length N")
    case True
    then show ?thesis using bs by (simp add: owned_def isBlock_def nth_append AssistantMessage_Nil plainMessage_def)
  qed (use bs in \<open>simp add: owned_def\<close>)
  have roles: "map mg_Role C = map mg_Role owned"
  proof -
    have "map mg_Role C = map mg_Role (butlast st) @ [mg_Role (last st)]" using C(1) [OF col] by simp
    also have "\<dots> = map mg_Role (butlast st @ [last st])" by simp
    also have "\<dots> = map mg_Role st" by (simp only: append_butlast_last_id [OF st(2)])
    finally show ?thesis using st(3) by simp
  qed
  then have bC: "trailingRoleBlockStart C AssistantRole = ?s" using isBlock_roles [OF _ bo] by (intro trailing_eqI) simp
  have lt: "?s < length owned" using bs by (auto simp: owned_def isBlock_def)
  have len: "length C = length owned" "length st = length owned" using roles st(3) by (metis length_map)+
  have noTool: "mg_Role (owned ! i) = AssistantRole" if "?s \<le> i" "i < length owned" for i
    using bo that by (simp add: isBlock_def)
  have same: "drop ?s st = drop ?s owned"
    using noTool len by (intro nth_equalityI) (auto simp: st_def stripToolMessage_def)
  have block: "partsIn (drop ?s C) = partsIn (drop ?s owned) @ map ra_part tas"
  proof -
    have "drop ?s (butlast st @ [last st]) = drop ?s (butlast st) @ [last st]" using lt len by simp
    then have d: "drop ?s st = drop ?s (butlast st) @ [last st]" by (simp only: append_butlast_last_id [OF st(2)])
    have "drop ?s C = drop ?s (butlast st) @ [(last st)\<lparr>mg_Parts := mg_Parts (last st) @ map ra_part tas\<rparr>]"
      using lt len C(1) [OF col] st(2) by simp
    moreover have "list_all normalMsg (drop ?s C)" "list_all normalMsg (drop ?s st)"
      using C(2) [OF col] st(1) by (auto simp: list_all_iff dest: in_set_dropD)
    ultimately have "partsIn (drop ?s C) = partsIn (drop ?s st) @ map ra_part tas"
      by (simp add: partsIn_normal d)
    then show ?thesis by (simp add: same)
  qed
  have "partsIn (drop ?s owned) = partsIn (drop ?s N)"
    by (auto simp: owned_def partsIn_def AssistantMessage_Nil plainMessage_def NormalizeParts_def)
  with none have "\<forall>p \<in> set (partsIn (drop ?s owned)). normalizeReplyAttachment p = None"
    by (simp add: collect_from foldl_add_Nil)
  then have got: "collectReplyAttachments C (trailingRoleBlockStart C AssistantRole) (length C) = tas"
    using foldl_add_parts [of "[]" tas] col by (simp add: collect_from bC block foldl_add_none)
  have "take ?s C = [] \<or> mg_Parts (last (take ?s C)) \<noteq> []"
  proof (cases "take ?s N = []")
    case False
    let ?m = "last (take ?s N)"
    have m: "normalMsg ?m" "mg_Parts ?m \<noteq> []"
      "mg_Role ?m = ToolRole \<Longrightarrow> list_ex (\<lambda>p. pt_Type p = ToolResultPartType) (mg_Parts ?m)"
      using closed False nN in_set_takeD [OF last_in_set [OF False]]
      by (auto simp: closedTurn_def Let_def N(1) [symmetric] list_all_iff)
    have "take ?s C = take ?s st" using lt len C(1) [OF col] by (simp add: take_butlast)
    also have "\<dots> = map (stripToolMessage (map ra_key tas)) (take ?s N)"
      using bs by (simp add: st_def owned_def take_map isBlock_def)
    finally have "last (take ?s C) = stripToolMessage (map ra_key tas) ?m" using False by (simp add: last_map)
    moreover have "mg_Parts (stripToolMessage (map ra_key tas) ?m) \<noteq> []"
      using m strip_keeps_result [of ?m] by (cases "mg_Role ?m = ToolRole") (auto simp: stripToolMessage_def)
    ultimately show ?thesis by simp
  qed (use N(2) in simp)
  then have "collectReplyAttachments (compactMessages C) (trailingRoleBlockStart (compactMessages C) AssistantRole)
      (length (compactMessages C)) = tas"
    using collect_compact [OF C(2) [OF col] bC [symmetric]] got by (simp add: bC)
  moreover have "Canonicalize e ms = compactMessages C"
    using none tas N(2) by (simp add: Canonicalize_def Let_def N(1) [symmetric] C_def st_def owned_def)
  moreover have "list_all normalMsg (compactMessages C)" using C(2) [OF col] by (auto simp: compactMessages_def list_all_iff)
  ultimately show ?thesis by (simp add: compactMessages_def)
qed

text \<open>The other branches drop the empty messages, which leaves what is collected from the rest.\<close>

lemma delivered_compact:
  assumes "list_all normalMsg ms"
  shows "collectDeliveredAttachments e (compactMessages ms) = collectDeliveredAttachments e ms"
proof -
  have names: "resolveToolCallNames ms = foldl nameCall [] (partsIn (filter (\<lambda>m. mg_Role m = AssistantRole) ms))" for ms
    unfolding resolveToolCallNames_def foldl_filter partsIn_def by (simp add: foldl_concat)
  have "resolveToolCallNames (compactMessages ms) = resolveToolCallNames ms"
    unfolding names compact_normal [OF assms] by (simp only: partsIn_kept)
  then have "delivering e (compactMessages ms) = delivering e ms" by (simp add: fun_eq_iff delivering_def)
  then show ?thesis unfolding collectDelivered_eq by (simp only: compact_normal [OF assms] partsIn_kept)
qed

lemma unmoved_turn:
  assumes closed: "closedTurn ms" and N: "N = NormalizeMessages ms"
  shows "let C = compactMessages N in
     collectReplyAttachments C (trailingRoleBlockStart C AssistantRole) (length C) =
       collectReplyAttachments N (trailingRoleBlockStart N AssistantRole) (length N) \<and>
     collectDeliveredAttachments e C = collectDeliveredAttachments e N \<and> list_all normalMsg C \<and> compactMessages C = C"
proof -
  have "list_all normalMsg N" by (simp add: N)
  moreover have "take (trailingRoleBlockStart N AssistantRole) N = [] \<or>
      mg_Parts (last (take (trailingRoleBlockStart N AssistantRole) N)) \<noteq> []"
    using closed unfolding closedTurn_def Let_def N by blast
  ultimately show ?thesis
    using collect_compact [OF _ refl] delivered_compact by (auto simp: Let_def compactMessages_def list_all_iff)
qed

lemma selectAttachments_eq:
  "selectAttachments e ms =
     (let a = collectReplyAttachments ms (trailingRoleBlockStart ms AssistantRole) (length ms)
      in map ra_part (if a \<noteq> [] then a else collectDeliveredAttachments e ms))"
  by (auto simp: selectAttachments_def partsFromAttachments_def Let_def collectReplyAttachments_def collectDelivered_eq partsIn_def)

lemma Extract_text: "sl_Text (Extract e ms) = FinalAnswer (NormalizeMessages ms)"
  by (simp add: Extract_def Let_def NormalizeMessages_clone)

lemma canonical_normal: "list_all normalMsg (Canonicalize e ms)"
proof -
  let ?N = "NormalizeMessages ms" and ?tas = "collectDeliveredAttachments e (NormalizeMessages ms)"
  define owned where
    "owned = (if trailingRoleBlockStart ?N AssistantRole = length ?N then ?N @ [AssistantMessage []] else ?N)"
  have compact: "list_all normalMsg ns \<Longrightarrow> list_all normalMsg (compactMessages ns)" for ns
    by (auto simp: compactMessages_def list_all_iff)
  have "list_all normalMsg (attachToLast ?tas (map (stripToolMessage (map ra_key ?tas)) owned))" if "?N \<noteq> []"
    using owned_normal [OF _ that owned_def] strip_messages attach_parts(2) [OF _ _ collected_delivered] by simp
  then show ?thesis using compact by (auto simp: Canonicalize_def Let_def owned_def)
qed

lemma canonical_text: "sl_Text (Extract e (Canonicalize e ms)) = sl_Text (Extract e ms)"
  unfolding Extract_text NormalizeMessages_fixed [OF canonical_normal] FinalAnswer_texts texts_def canonical_turn_keeps_calls ..

text \<open>
  C22: canonicalizing a turn does not change the text of its reply, for any turn.  If the turn's
  closing assistant messages stay apart from the earlier ones, the attachments do not change either,
  and canonicalizing once more changes nothing: whenever the canonical transcript is stored and
  read again, the reply extracted from it is that of the turn itself.  Closing messages stay apart
  when the message before them keeps a part, and its tool result if it is a tool's; in a turn of the
  engine that message answers its last tool call, and keeps its result when the call has an id.
\<close>

theorem canonical_turn_keeps_reply:
  "sl_Text (Extract e (Canonicalize e ms)) = sl_Text (Extract e ms) \<and>
   (closedTurn ms \<longrightarrow>
      Extract e (Canonicalize e ms) = Extract e ms \<and> Canonicalize e (Canonicalize e ms) = Canonicalize e ms)"
proof (intro conjI impI)
  show same_text: "sl_Text (Extract e (Canonicalize e ms)) = sl_Text (Extract e ms)" by (rule canonical_text)
  assume closed: "closedTurn ms"
  define N where "N = NormalizeMessages ms"
  let ?reply = "\<lambda>ms. collectReplyAttachments ms (trailingRoleBlockStart ms AssistantRole) (length ms)"
  have "\<exists>C. Canonicalize e ms = C \<and> list_all normalMsg C \<and> compactMessages C = C \<and>
      (?reply C = ?reply N \<and> collectDeliveredAttachments e C = collectDeliveredAttachments e N \<and>
         (N = [] \<or> ?reply N \<noteq> [] \<or> collectDeliveredAttachments e N = []) \<or>
       ?reply N = [] \<and> ?reply C = collectDeliveredAttachments e N \<and> ?reply C \<noteq> [])"
  proof (cases "N = [] \<or> ?reply N \<noteq> [] \<or> collectDeliveredAttachments e N = []")
    case True
    then have "Canonicalize e ms = compactMessages N"
      by (auto simp: Canonicalize_def Let_def N_def [symmetric] compactMessages_def)
    with unmoved_turn [OF closed N_def, of e] True show ?thesis by (auto simp: Let_def)
  next
    case False
    with moved_turn [OF closed N_def _ _ refl, of e] show ?thesis by auto
  qed
  then obtain C where C: "Canonicalize e ms = C" "list_all normalMsg C" "compactMessages C = C"
    and same: "?reply C = ?reply N \<and> collectDeliveredAttachments e C = collectDeliveredAttachments e N \<and>
         (N = [] \<or> ?reply N \<noteq> [] \<or> collectDeliveredAttachments e N = []) \<or>
       ?reply N = [] \<and> ?reply C = collectDeliveredAttachments e N \<and> ?reply C \<noteq> []" by blast
  note CC = NormalizeMessages_fixed [OF C(2)]
  have "selectAttachments e C = selectAttachments e N" unfolding selectAttachments_eq Let_def
    using same by (elim disjE conjE) simp_all
  then have "sl_Attachments (Extract e C) = sl_Attachments (Extract e ms)"
    by (simp add: Extract_def Let_def NormalizeMessages_clone CC N_def)
  with same_text show "Extract e (Canonicalize e ms) = Extract e ms" by (simp add: C(1))
  have "Canonicalize e C = C"
    using same C(3) unfolding Canonicalize_def NormalizeMessages_clone CC Let_def N_def by (auto simp: collectDelivered_eq partsIn_def)
  then show "Canonicalize e (Canonicalize e ms) = Canonicalize e ms" by (simp add: C(1))
qed

text \<open>
  The condition is needed: here the call has no id, its result is dropped with it, the image of the
  first assistant message joins the closing block, and a reply without attachments gains one.
\<close>

definition unansweredTurn :: "Message list" where
  "unansweredTurn =
     [AssistantMessage [ImagePart (lit ''media://seen'') [], ToolCallPart [] (lit ''load_image'') []],
      plainMessage ToolRole [ToolResultPart [] (lit ''tool call is missing id'') True],
      AssistantMessage [TextPart (lit ''done'') []]]"

lemma call_without_id_changes_reply:
  "\<not> closedTurn unansweredTurn" "sl_Attachments (Extract (NewExtractor []) unansweredTurn) = []"
  "sl_Attachments (Extract (NewExtractor []) (Canonicalize (NewExtractor []) unansweredTurn)) = [ImagePart (lit ''media://seen'') []]"
  by code_simp+

section \<open>Delivery is opt-in\<close>

lemma nameCall_sound:
  "map_of (nameCall names p) k = Some n \<Longrightarrow> map_of names k = Some n \<or>
     pt_Type p = ToolCallPartType \<and> trimSpace (pt_ID p) = k \<and> trimSpace (pt_Name p) = n"
  by (auto simp: nameCall_def Let_def map_add_def split: if_splits option.splits)

lemma nameCalls_sound:
  "map_of (foldl nameCall names ps) k = Some n \<Longrightarrow> map_of names k = Some n \<or>
     (\<exists>p \<in> set ps. pt_Type p = ToolCallPartType \<and> trimSpace (pt_ID p) = k \<and> trimSpace (pt_Name p) = n)"
proof (induction ps arbitrary: names)
  case (Cons p ps)
  from Cons.IH [of "nameCall names p"] Cons.prems nameCall_sound [of names p k n] show ?case by auto
qed simp

text \<open>A call of the turn that a result answers, to a tool of the deliver set.\<close>

definition deliveredBy :: "Extractor \<Rightarrow> Message list \<Rightarrow> Part \<Rightarrow> bool" where
  "deliveredBy e ms result \<longleftrightarrow>
     (\<exists>m \<in> set ms. mg_Role m = AssistantRole \<and> (\<exists>call \<in> set (NormalizeParts (mg_Parts m)).
        pt_Type call = ToolCallPartType \<and> trimSpace (pt_ID call) = trimSpace (pt_ToolCallID result) \<and>
        trimSpace (pt_Name call) \<in> set (ex_deliverTools e)))"

lemma resolve_sound:
  assumes "map_of (resolveToolCallNames ms) k = Some n"
  shows "\<exists>m \<in> set ms. mg_Role m = AssistantRole \<and> (\<exists>call \<in> set (NormalizeParts (mg_Parts m)).
     pt_Type call = ToolCallPartType \<and> trimSpace (pt_ID call) = k \<and> trimSpace (pt_Name call) = n)"
proof -
  have "resolveToolCallNames ms =
      foldl nameCall [] (concat (map (\<lambda>m. NormalizeParts (mg_Parts m)) (filter (\<lambda>m. mg_Role m = AssistantRole) ms)))"
    unfolding resolveToolCallNames_def foldl_filter by (simp add: foldl_concat)
  with assms nameCalls_sound [of "[]"] show ?thesis by fastforce
qed


section \<open>A turn that loads one image and attaches another\<close>

definition sampleTurn :: "Message list" where
  "sampleTurn =
     [AssistantMessage [ToolCallPart (lit ''c1'') (lit ''load_image'') [], ToolCallPart (lit ''c2'') (lit ''attach_media'') []],
      plainMessage ToolRole [ToolResultPart (lit ''c1'') (lit ''ok'') False, ImagePart (lit ''media://seen'') []],
      plainMessage ToolRole [ToolResultPart (lit ''c2'') (lit ''ok'') False, ImagePart (lit ''media://sent'') []],
      AssistantMessage [TextPart (lit ''done'') []]]"

definition sampleExtractor :: Extractor where
  "sampleExtractor = NewExtractor [lit ''attach_media'']"

theorem canonical_turn_keeps_reply_witness:
  "sl_Attachments (Extract sampleExtractor (Canonicalize sampleExtractor sampleTurn)) = [ImagePart (lit ''media://sent'') []] \<and>
   Canonicalize sampleExtractor sampleTurn \<noteq> sampleTurn"
proof -
  have "closedTurn sampleTurn" by code_simp
  with canonical_turn_keeps_reply [of sampleExtractor sampleTurn]
  have "Extract sampleExtractor (Canonicalize sampleExtractor sampleTurn) = Extract sampleExtractor sampleTurn" by simp
  moreover have "sl_Attachments (Extract sampleExtractor sampleTurn) = [ImagePart (lit ''media://sent'') []]" by code_simp
  moreover have "Canonicalize sampleExtractor sampleTurn \<noteq> sampleTurn" by code_simp
  ultimately show ?thesis by simp
qed


end
