(* ===== verification/Agent_Engine.thy ===== *)
theory Agent_Engine
  imports Agent_Model Turn_Reply
begin

text \<open>
  The engine (\<open>systems/agent/internal/agent\<close>: \<open>engine.go\<close>, \<open>loop_safety.go\<close>, \<open>turn_budget.go\<close>, part of
  \<open>loop_conversation.go\<close>): one run of model turns and tool calls.  The model client, the planner, the
  context fitter, the tools and the state of the context are arguments that act on a world \<open>'w\<close>;
  hashing, JSON and quoting are functions of the library record \<open>codecs\<close>.  A run keeps the trace of what it asked
  of the outside, in order; the events of the trace are those the observer receives.  Log lines
  are not modelled.
\<close>

section \<open>Loop safety\<close>

record codecs =
  co_sha256 :: "gostr \<Rightarrow> gostr"
  co_canonicalJSON :: "gostr \<Rightarrow> gostr option"
  co_encodedBytes :: "Message list \<Rightarrow> ToolDefinition list \<Rightarrow> gostr + int"
  co_quote :: "gostr \<Rightarrow> gostr"

definition defaultToolLoopHistorySize :: nat where "defaultToolLoopHistorySize = 30"
definition defaultToolLoopWarningThreshold :: nat where "defaultToolLoopWarningThreshold = 10"
definition defaultToolLoopCriticalThreshold :: nat where "defaultToolLoopCriticalThreshold = 20"

record toolLoopRecord =
  lr_signature :: gostr
  lr_outputHash :: gostr

record toolLoopAssessment =
  la_RepeatCount :: nat
  la_NoProgressCount :: nat
  la_Critical :: bool

record toolLoopDetector =
  ld_history :: "toolLoopRecord list"
  ld_historySize :: nat
  ld_criticalThreshold :: nat
  ld_maxRepeatCount :: nat
  ld_maxNoProgressCount :: nat

definition newToolLoopDetector :: toolLoopDetector where
  "newToolLoopDetector =
     \<lparr>ld_history = [], ld_historySize = defaultToolLoopHistorySize,
      ld_criticalThreshold =
        (if defaultToolLoopCriticalThreshold \<le> defaultToolLoopWarningThreshold
         then defaultToolLoopWarningThreshold + 1 else defaultToolLoopCriticalThreshold),
      ld_maxRepeatCount = 0, ld_maxNoProgressCount = 0\<rparr>"

definition normalizeToolArguments :: "codecs \<Rightarrow> gostr \<Rightarrow> gostr" where
  "normalizeToolArguments co arguments =
     (let trimmed = trimSpace arguments
      in if trimmed = [] then []
         else case co_canonicalJSON co trimmed of None \<Rightarrow> trimmed | Some canonical \<Rightarrow> canonical)"

definition callSignature :: "codecs \<Rightarrow> ToolCall \<Rightarrow> gostr" where
  "callSignature co call = co_sha256 co (tc_Name call @ [10] @ normalizeToolArguments co (tc_Arguments call))"

definition RecordCall :: "codecs \<Rightarrow> toolLoopDetector \<Rightarrow> ToolCall \<Rightarrow> gostr \<Rightarrow> toolLoopAssessment \<times> toolLoopDetector" where
  "RecordCall co d call output =
     (let signature = callSignature co call; outputHash = co_sha256 co (trimSpace output);
          appended = ld_history d @ [\<lparr>lr_signature = signature, lr_outputHash = outputHash\<rparr>];
          history = drop (length appended - ld_historySize d) appended;
          repeatCount = length (filter (\<lambda>r. lr_signature r = signature) history);
          noProgressCount =
            length (takeWhile (\<lambda>r. lr_signature r = signature \<and> lr_outputHash r = outputHash) (rev history))
      in (\<lparr>la_RepeatCount = repeatCount, la_NoProgressCount = noProgressCount,
            la_Critical = (ld_criticalThreshold d \<le> repeatCount \<or> ld_criticalThreshold d \<le> noProgressCount)\<rparr>,
          d\<lparr>ld_history := history, ld_maxRepeatCount := max (ld_maxRepeatCount d) repeatCount,
            ld_maxNoProgressCount := max (ld_maxNoProgressCount d) noProgressCount\<rparr>))"

definition formatStopSummary :: "StopReason \<Rightarrow> nat \<Rightarrow> nat \<Rightarrow> nat \<Rightarrow> gostr" where
  "formatStopSummary reason maxTurns repeatCount noProgressCount =
     (case reason of
        StopReasonTurnBudgetExhausted \<Rightarrow>
          lit ''Run stopped: turn budget exhausted (limit='' @ itoa maxTurns @
          lit ''). Progress up to this point has been saved.''
      | StopReasonToolLoopDetected \<Rightarrow>
          lit ''Run stopped by internal safety guard: detected repeated tool-call loop (repeat='' @ itoa repeatCount @
          lit '', no_progress='' @ itoa noProgressCount @ lit ''). Progress up to this point has been saved.''
      | StopReasonToolTurnLimit \<Rightarrow>
          lit ''Run stopped by internal safety guard: reached maximum tool-call turns ('' @ itoa maxTurns @
          lit ''). Observed loop indicators (max_repeat='' @ itoa repeatCount @ lit '', max_no_progress='' @
          itoa noProgressCount @ lit ''). Progress up to this point has been saved.'')"

section \<open>The turn budget\<close>

definition defaultMaxTurns :: nat where "defaultMaxTurns = 96"
definition maxEmptyAssistantRetries :: nat where "maxEmptyAssistantRetries = 3"

definition emptyResponseRetrySteeringPrompt :: gostr where
  "emptyResponseRetrySteeringPrompt = lit ''Your previous response was empty. Return a non-empty result now: either call the required tool(s) immediately or provide a concise direct answer. Do not return an empty response.''"

record TurnBudget =
  tb_limit :: nat
  tb_used :: nat

definition NewTurnBudget :: "int \<Rightarrow> TurnBudget" where
  "NewTurnBudget limit = \<lparr>tb_limit = (if limit \<le> 0 then defaultMaxTurns else nat limit), tb_used = 0\<rparr>"

definition Remaining :: "TurnBudget \<Rightarrow> nat" where
  "Remaining b = tb_limit b - tb_used b"

definition budgetNote :: "TurnBudget \<Rightarrow> Message" where
  "budgetNote b =
     (let remaining = Remaining b; final = (remaining = 1);
          guidance = lit ''You are on turn '' @ itoa (tb_used b + 1) @ lit '' of '' @ itoa (tb_limit b) @
            lit ''. One turn is one model response and any tools it requests. Remaining turns include this response. Further turns available after this response: '' @
            itoa (remaining - 1) @ lit ''.'' @
            (if final then lit '' This is your last turn. Do not request any tool calls. Tools are disabled. Give your final answer now, then stop. If work is unfinished, say what remains and identify any uncertainty. There will be no further turn after this answer.''
             else if remaining \<le> 3 then lit '' The turn limit is close. Finish essential work and leave the last turn for your final answer; tools will be disabled then.''
             else [])
      in UserMessage (RenderPromptElement (lit ''turn_budget'')
           [(lit ''max_turns'', itoa (tb_limit b)), (lit ''current_turn'', itoa (tb_used b + 1)),
            (lit ''remaining_turns'', itoa remaining), (lit ''final_answer_only'', if final then lit ''true'' else lit ''false'')]
           guidance))"

definition nextTurn :: "TurnBudget \<Rightarrow> Message \<times> bool \<times> TurnBudget" where
  "nextTurn b = (budgetNote b, Remaining b = 1, b\<lparr>tb_used := tb_used b + 1\<rparr>)"

section \<open>The engine's configuration and state\<close>

datatype clientKind = PlainClient | StreamingClient | ReasoningClient

text \<open>A callback of a streaming client, and whether the context was cancelled when it came.\<close>

record delta =
  dl_reasoning :: bool
  dl_text :: gostr
  dl_cancelled :: bool

record 'w Engine =
  eg_complete :: "gostr \<Rightarrow> Message list \<Rightarrow> ToolDefinition list \<Rightarrow> 'w \<Rightarrow> (delta list \<times> (gostr + ModelClientResult)) \<times> 'w"
  eg_kind :: clientKind
  eg_contextForModel :: "gostr \<Rightarrow> ModelContext"
  eg_plan :: "gostr list \<Rightarrow> Requirements \<Rightarrow> 'w \<Rightarrow> (gostr + Plan) \<times> 'w"
  eg_tools :: "'w ToolRegistry option"
  eg_modelRefSource :: "'w \<Rightarrow> gostr list"
  eg_ctxErr :: "'w \<Rightarrow> gostr option"
  eg_maxTurns :: nat

type_synonym 'w fitter =
  "ModelContext \<Rightarrow> Message list \<Rightarrow> ToolDefinition list \<Rightarrow> nat \<Rightarrow> Message list \<Rightarrow> 'w \<Rightarrow> (gostr + Message list) \<times> 'w"

record 'w EngineRequest =
  er_Messages :: "Message list"
  er_UseTools :: bool
  er_AllowedTools :: "gostr list"
  er_ToolCallPolicy :: "(ToolCall \<Rightarrow> gostr option) option"
  er_RequireToolCalling :: bool
  er_SystemTextSource :: "('w \<Rightarrow> gostr) option"
  er_Observer :: bool
  er_MaxFailedModelAttempts :: int
  er_ContextFitter :: "'w fitter option"

record EngineResult =
  rs_Messages :: "Message list"
  rs_FinalText :: gostr
  rs_Attachments :: "Part list"
  rs_MediaRefs :: "gostr list"
  rs_ModelRef :: gostr
  rs_Turn :: nat

datatype model_error =
    NoModels | EncodingFailed gostr | PlanningFailed gostr | NoEligible Requirements "Skip list" | ModelCancelled gostr
  | ModelAttemptLimit int "ModelAttemptFailure list" | ModelFallback "gostr list" "ModelAttemptFailure list"

datatype engine_error = ModelComplete model_error | RunCancelled gostr | RunStopped StopError | FinalIncomplete gostr

text \<open>What a run does to the outside.\<close>

datatype action = Observed RunEvent | AskedModel nat gostr "Message list" "ToolDefinition list" | UsedTool ToolCall

record 'w run =
  rn_world :: 'w
  rn_trace :: "action list"
  rn_budget :: "TurnBudget option"
  rn_failures :: "ModelAttemptFailure list"

definition act :: "action \<Rightarrow> 'w run \<Rightarrow> 'w run" where
  "act a rn = rn\<lparr>rn_trace := rn_trace rn @ [a]\<rparr>"

definition emitRunEvent :: "bool \<Rightarrow> RunEvent \<Rightarrow> 'w run \<Rightarrow> 'w run" where
  "emitRunEvent observer event rn = (if observer then act (Observed event) rn else rn)"

section \<open>Small steps\<close>

definition applySystemTextSource :: "'w \<Rightarrow> Message list \<Rightarrow> ('w \<Rightarrow> gostr) option \<Rightarrow> Message list" where
  "applySystemTextSource w ms source =
     (case source of
        None \<Rightarrow> ms
      | Some f \<Rightarrow>
          (let s = trimSpace (f w); updated = SystemMessage s;
               before = takeWhile (\<lambda>m. mg_Role m \<noteq> SystemRole) ms
           in if s = [] then ms
              else if length before < length ms then before @ updated # drop (Suc (length before)) ms
              else updated # ms))"

definition normalizeModelRefs :: "gostr list \<Rightarrow> gostr list" where
  "normalizeModelRefs refs = foldl (\<lambda>out r. addFresh out (trimSpace r)) [] refs"

definition deliverToolNames :: "'w ToolRegistry option \<Rightarrow> gostr list" where
  "deliverToolNames reg =
     (case reg of
        None \<Rightarrow> []
      | Some r \<Rightarrow> foldl (\<lambda>out def. addFresh out (trimSpace (td_Name def))) [] (filter td_DeliversAttachments (Definitions r)))"

definition assistantTextMessage :: "gostr \<Rightarrow> gostr \<Rightarrow> Message" where
  "assistantTextMessage s disposition =
     (if trimSpace s = [] then AssistantMessage [] else AssistantMessage [TextPart s disposition])"

definition toolResultAttachments :: "ToolResult \<Rightarrow> Part list" where
  "toolResultAttachments r = (if tr_Attachments r \<noteq> [] then CloneParts (NormalizeParts (tr_Attachments r)) else [])"

definition toolResultMessage :: "gostr \<Rightarrow> ToolResult \<Rightarrow> bool \<Rightarrow> Message" where
  "toolResultMessage toolCallID r isError =
     plainMessage ToolRole (NormalizeParts (ToolResultPart toolCallID (tr_Output r) isError # toolResultAttachments r))"

definition outputOnly :: "gostr \<Rightarrow> ToolResult" where
  "outputOnly s = \<lparr>tr_Output = s, tr_Attachments = [], tr_MediaRefs = []\<rparr>"

definition resultToolCalls :: "Message list \<Rightarrow> ToolCall list" where
  "resultToolCalls ms =
     map (\<lambda>p. \<lparr>tc_ID = pt_ID p, tc_Name = pt_Name p, tc_Arguments = pt_Arguments p\<rparr>) (ToolCalls ms)"

definition mediaRefsFromAttachments :: "Part list \<Rightarrow> gostr list" where
  "mediaRefsFromAttachments parts =
     foldl (\<lambda>out p. if IsMedia p MediaKindImage then addFresh out (trimSpace (pt_MediaRef p)) else out) []
       (NormalizeParts parts)"

record Reply =
  rp_Text :: gostr
  rp_Attachments :: "Part list"
  rp_MediaRefs :: "gostr list"

definition finalReply :: "Message list \<Rightarrow> Extractor \<Rightarrow> Reply" where
  "finalReply ms extractor =
     (let selection = Extract extractor ms
      in \<lparr>rp_Text = sl_Text selection, rp_Attachments = CloneParts (sl_Attachments selection),
          rp_MediaRefs = mediaRefsFromAttachments (sl_Attachments selection)\<rparr>)"

definition noAnswer :: "Reply \<Rightarrow> bool" where
  "noAnswer reply \<longleftrightarrow> trimSpace (rp_Text reply) = [] \<and> rp_MediaRefs reply = []"

section \<open>Asking a model\<close>

definition reports :: "clientKind \<Rightarrow> delta \<Rightarrow> bool" where
  "reports kind d \<longleftrightarrow>
     (case kind of PlainClient \<Rightarrow> False | StreamingClient \<Rightarrow> \<not> dl_reasoning d | ReasoningClient \<Rightarrow> True) \<and>
     dl_text d \<noteq> [] \<and> \<not> dl_cancelled d"

definition deltaEvent :: "nat \<Rightarrow> gostr \<Rightarrow> delta \<Rightarrow> RunEvent" where
  "deltaEvent turn modelRef d =
     (eventOf (if dl_reasoning d then RunEventModelReasoningDelta else RunEventModelTurnDelta))
       \<lparr>ev_Turn := turn, ev_ModelRef := modelRef, ev_Delta := dl_text d\<rparr>"

definition completeModel ::
  "'w Engine \<Rightarrow> bool \<Rightarrow> nat \<Rightarrow> gostr \<Rightarrow> Message list \<Rightarrow> ToolDefinition list \<Rightarrow> 'w run \<Rightarrow>
   (gostr + ModelClientResult) \<times> 'w run"
where
  "completeModel eg observer turn modelRef ms tools rn =
     (let asked = act (AskedModel turn modelRef ms tools) rn;
          ((deltas, result), w) = eg_complete eg modelRef ms tools (rn_world asked);
          told = foldl (\<lambda>s d. emitRunEvent observer (deltaEvent turn modelRef d) s) asked (filter (reports (eg_kind eg)) deltas)
      in (result, told\<lparr>rn_world := w\<rparr>))"

definition fitContext ::
  "'w Engine \<Rightarrow> 'w EngineRequest \<Rightarrow> gostr \<Rightarrow> Message list \<Rightarrow> ToolDefinition list \<Rightarrow> nat \<Rightarrow> Message list \<Rightarrow> 'w run \<Rightarrow>
   (gostr + Message list) \<times> 'w run"
where
  "fitContext eg req modelRef ms tools generatedStart requestTail rn =
     (case er_ContextFitter req of
        None \<Rightarrow> (Inr ms, rn)
      | Some fit \<Rightarrow>
          (let (r, w) = fit (eg_contextForModel eg modelRef) ms tools generatedStart requestTail (rn_world rn)
           in (r, rn\<lparr>rn_world := w\<rparr>)))"

text \<open>The attempts of one turn, model by model.\<close>

fun tryModels ::
  "'w Engine \<Rightarrow> 'w EngineRequest \<Rightarrow> nat \<Rightarrow> ToolDefinition list \<Rightarrow> Message list \<Rightarrow> nat \<Rightarrow> Message list \<Rightarrow> gostr list \<Rightarrow>
   gostr list \<Rightarrow> gostr \<Rightarrow> ModelAttemptFailure list \<Rightarrow> 'w run \<Rightarrow> (gostr \<times> (model_error + ModelClientResult)) \<times> 'w run"
where
  "tryModels eg req turn tools ms generatedStart requestTail eligible [] lastModelRef failures rn =
     (if failures = [] then (([], Inl NoModels), rn) else ((lastModelRef, Inl (ModelFallback eligible failures)), rn))"
| "tryModels eg req turn tools ms generatedStart requestTail eligible (modelRef # refs) lastModelRef failures rn =
     (case eg_ctxErr eg (rn_world rn) of
        Some e \<Rightarrow> ((lastModelRef, Inl (ModelCancelled e)), rn)
      | None \<Rightarrow>
          (let started = emitRunEvent (er_Observer req)
                 ((eventOf RunEventModelTurnStarted)\<lparr>ev_Turn := turn, ev_ModelRef := modelRef\<rparr>) rn;
               (fitted, rn1) = fitContext eg req modelRef ms tools generatedStart requestTail started
           in case fitted of
                Inl e \<Rightarrow>
                  tryModels eg req turn tools ms generatedStart requestTail eligible refs modelRef
                    (failures @ [\<lparr>af_ModelRef = modelRef, af_Err = Some e\<rparr>]) rn1
              | Inr attemptMessages \<Rightarrow>
                  (let (result, rn2) = completeModel eg (er_Observer req) turn modelRef attemptMessages tools rn1
                   in case eg_ctxErr eg (rn_world rn2) of
                        Some e \<Rightarrow> ((modelRef, Inl (ModelCancelled e)), rn2)
                      | None \<Rightarrow>
                          (case result of
                             Inr r \<Rightarrow> ((modelRef, Inr r), rn2)
                           | Inl e \<Rightarrow>
                               (let failure = \<lparr>af_ModelRef = modelRef, af_Err = Some e\<rparr>;
                                    limit = er_MaxFailedModelAttempts req;
                                    rn3 = (if 0 < limit then rn2\<lparr>rn_failures := rn_failures rn2 @ [failure]\<rparr> else rn2)
                                in if 0 < limit \<and> limit \<le> int (length (rn_failures rn3))
                                   then ((modelRef, Inl (ModelAttemptLimit limit (rn_failures rn3))), rn3)
                                   else tryModels eg req turn tools ms generatedStart requestTail eligible refs modelRef
                                          (failures @ [failure]) rn3)))))"

definition completeWithObserver ::
  "codecs \<Rightarrow> 'w Engine \<Rightarrow> 'w EngineRequest \<Rightarrow> Message list \<Rightarrow> ToolDefinition list \<Rightarrow> bool \<Rightarrow> nat \<Rightarrow> nat \<Rightarrow> Message list \<Rightarrow>
   'w run \<Rightarrow> (gostr \<times> (model_error + ModelClientResult)) \<times> 'w run"
where
  "completeWithObserver co eg req ms0 tools requireToolCalling turn generatedStart requestTail rn =
     (let modelRefs = normalizeModelRefs (eg_modelRefSource eg (rn_world rn));
          fitted = (er_ContextFitter req \<noteq> None);
          ms = (if fitted then ms0 else CloneMessages ms0 @ CloneMessages requestTail);
          encoded = (if fitted then Inr 0 else co_encodedBytes co ms tools)
      in if modelRefs = [] then (([], Inl NoModels), rn)
         else case encoded of
                Inl e \<Rightarrow> (([], Inl (EncodingFailed e)), rn)
              | Inr inputBytes \<Rightarrow>
                  (let requirements = InferRequirements
                         \<lparr>rq_ToolCalling := rq_ToolCalling InferRequirements \<or> requireToolCalling, rq_InputBytes := inputBytes\<rparr>;
                       (planned, w) = eg_plan eg modelRefs requirements (rn_world rn);
                       rn1 = rn\<lparr>rn_world := w\<rparr>
                   in case planned of
                        Inl e \<Rightarrow> (([], Inl (PlanningFailed e)), rn1)
                      | Inr plan \<Rightarrow>
                          (if pl_EligibleRefs plan = []
                           then (([], Inl (NoEligible requirements (pl_Skipped plan))), rn1)
                           else tryModels eg req turn tools ms generatedStart requestTail (pl_EligibleRefs plan)
                                  (pl_EligibleRefs plan) [] [] rn1)))"

section \<open>Running tools\<close>

record 'w loopState =
  lp_run :: "'w run"
  lp_messages :: "Message list"
  lp_detector :: toolLoopDetector
  lp_emptyRetries :: nat
  lp_lastModelRef :: gostr
  lp_lastTurn :: nat

definition runTool ::
  "codecs \<Rightarrow> 'w Engine \<Rightarrow> 'w ToolRegistry option \<Rightarrow> (ToolCall \<Rightarrow> gostr option) option \<Rightarrow> ToolCall \<Rightarrow> 'w run \<Rightarrow>
   (gostr + ToolResult) \<times> 'w run"
where
  "runTool co eg tools policy call rn =
     (case eg_ctxErr eg (rn_world rn) of
        Some e \<Rightarrow> (Inl e, rn)
      | None \<Rightarrow>
          (case tools of
             None \<Rightarrow> (Inl (lit ''no tool registry configured for call '' @ co_quote co (tc_Name call)), rn)
           | Some reg \<Rightarrow>
               (if trimSpace (tc_ID call) = [] then (Inl (lit ''tool call is missing id''), rn)
                else case (case policy of None \<Rightarrow> None | Some check \<Rightarrow> check call) of
                       Some e \<Rightarrow> (Inl e, rn)
                     | None \<Rightarrow>
                         (let (r, w) = RunTool reg call (rn_world rn)
                          in (r, (act (UsedTool call) rn)\<lparr>rn_world := w\<rparr>)))))"

definition partial :: "nat \<Rightarrow> gostr \<Rightarrow> nat \<Rightarrow> Message list \<Rightarrow> EngineResult" where
  "partial start modelRef turn ms =
     \<lparr>rs_Messages = CloneMessages (drop start ms), rs_FinalText = [], rs_Attachments = [], rs_MediaRefs = [],
      rs_ModelRef = modelRef, rs_Turn = turn\<rparr>"

definition stoppedResult :: "Extractor \<Rightarrow> nat \<Rightarrow> gostr \<Rightarrow> gostr \<Rightarrow> nat \<Rightarrow> Message list \<Rightarrow> EngineResult" where
  "stoppedResult extractor start stopSummary modelRef turn ms =
     (let finalMessages = Canonicalize extractor (drop start ms); reply = finalReply finalMessages extractor
      in \<lparr>rs_Messages = CloneMessages finalMessages, rs_FinalText = stopSummary,
          rs_Attachments = CloneParts (rp_Attachments reply), rs_MediaRefs = rp_MediaRefs reply,
          rs_ModelRef = modelRef, rs_Turn = turn\<rparr>)"

text \<open>One tool call: what it adds to the transcript, and the end of the run if it ends it.\<close>

definition runCall ::
  "codecs \<Rightarrow> 'w Engine \<Rightarrow> 'w EngineRequest \<Rightarrow> 'w ToolRegistry option \<Rightarrow> Extractor \<Rightarrow> nat \<Rightarrow> nat \<Rightarrow> gostr \<Rightarrow> ToolCall \<Rightarrow>
   'w loopState \<Rightarrow> (EngineResult \<times> engine_error) option \<times> 'w loopState"
where
  "runCall co eg req tools extractor start turn modelRef call lp =
     (case eg_ctxErr eg (rn_world (lp_run lp)) of
        Some e \<Rightarrow> (Some (partial start modelRef turn (lp_messages lp), RunCancelled e), lp)
      | None \<Rightarrow>
          (let toolEvent = (\<lambda>t. (eventOf t)\<lparr>ev_Turn := turn, ev_ModelRef := modelRef, ev_ToolCall := Some call\<rparr>);
               (r, rn1) = runTool co eg tools (er_ToolCallPolicy req) call
                            (emitRunEvent (er_Observer req) (toolEvent RunEventToolStarted) (lp_run lp));
               toolResult = (case r of Inl e \<Rightarrow> outputOnly (lit ''tool error: '' @ e) | Inr x \<Rightarrow> x);
               failed = (case r of Inl e \<Rightarrow> Some e | Inr x \<Rightarrow> None);
               output = tr_Output toolResult;
               rn2 = emitRunEvent (er_Observer req)
                       ((toolEvent RunEventToolFinished)\<lparr>ev_ToolOutput := output, ev_Err := failed\<rparr>) rn1;
               ms = lp_messages lp @ [toolResultMessage (tc_ID call) toolResult (failed \<noteq> None)];
               lp1 = lp\<lparr>lp_run := rn2, lp_messages := ms\<rparr>
           in case eg_ctxErr eg (rn_world rn2) of
                Some e \<Rightarrow> (Some (partial start modelRef turn ms, RunCancelled e), lp1)
              | None \<Rightarrow>
                  (let (assessment, d) = RecordCall co (lp_detector lp) call output;
                       lp2 = lp1\<lparr>lp_detector := d\<rparr>;
                       repeats = la_RepeatCount assessment; stuck = la_NoProgressCount assessment;
                       stopSummary = formatStopSummary StopReasonToolLoopDetected (eg_maxTurns eg) repeats stuck;
                       ms' = ms @ [assistantTextMessage stopSummary []]
                   in if \<not> la_Critical assessment then (None, lp2)
                      else (Some (stoppedResult extractor start stopSummary modelRef turn ms',
                                  RunStopped \<lparr>se_Reason = StopReasonToolLoopDetected,
                                    se_Detail = lit ''tool loop detected (repeat='' @ itoa repeats @ lit '', no_progress='' @
                                      itoa stuck @ lit '')''\<rparr>),
                            lp2\<lparr>lp_messages := ms'\<rparr>))))"

fun runCalls ::
  "codecs \<Rightarrow> 'w Engine \<Rightarrow> 'w EngineRequest \<Rightarrow> 'w ToolRegistry option \<Rightarrow> Extractor \<Rightarrow> nat \<Rightarrow> nat \<Rightarrow> gostr \<Rightarrow> ToolCall list \<Rightarrow>
   'w loopState \<Rightarrow> (EngineResult \<times> engine_error) option \<times> 'w loopState"
where
  "runCalls co eg req tools extractor start turn modelRef [] lp = (None, lp)"
| "runCalls co eg req tools extractor start turn modelRef (call # calls) lp =
     (case runCall co eg req tools extractor start turn modelRef call lp of
        (Some end, lp1) \<Rightarrow> (Some end, lp1)
      | (None, lp1) \<Rightarrow> runCalls co eg req tools extractor start turn modelRef calls lp1)"

section \<open>Turns\<close>

datatype turn_end = NextTurn | LeaveLoop | Return EngineResult "engine_error option"

definition answered :: "Extractor \<Rightarrow> nat \<Rightarrow> bool \<Rightarrow> gostr \<Rightarrow> gostr \<Rightarrow> nat \<Rightarrow> Message list \<Rightarrow> EngineResult \<times> engine_error option" where
  "answered extractor start finalTurn finishReason modelRef turn ms =
     (let finalMessages = Canonicalize extractor (drop start ms); reply = finalReply finalMessages extractor
      in (\<lparr>rs_Messages = CloneMessages finalMessages,
           rs_FinalText = (if noAnswer reply then lit ''(assistant returned no text)'' else rp_Text reply),
           rs_Attachments = CloneParts (rp_Attachments reply), rs_MediaRefs = rp_MediaRefs reply,
           rs_ModelRef = modelRef, rs_Turn = turn\<rparr>,
          if finalTurn \<and> finishReason \<noteq> [] \<and> finishReason \<noteq> lit ''stop'' then Some (FinalIncomplete finishReason) else None))"

text \<open>What the model is asked in a turn, and the budget it costs.\<close>

definition turnRequest ::
  "'w EngineRequest \<Rightarrow> ToolDefinition list \<Rightarrow> 'w loopState \<Rightarrow>
   Message list \<times> ToolDefinition list \<times> bool \<times> Message list \<times> TurnBudget option"
where
  "turnRequest req toolDefs lp =
     (let base = applySystemTextSource (rn_world (lp_run lp)) (CloneMessages (lp_messages lp)) (er_SystemTextSource req);
          ms = (if 0 < lp_emptyRetries lp then base @ [SystemMessage emptyResponseRetrySteeringPrompt] else base)
      in case rn_budget (lp_run lp) of
           None \<Rightarrow> (ms, toolDefs, False, [], None)
         | Some b \<Rightarrow>
             (let (note, finalTurn, b') = nextTurn b
              in (ms, if finalTurn then [] else toolDefs, finalTurn, [note], Some b')))"

definition requestStart :: "'w EngineRequest \<Rightarrow> nat \<Rightarrow> 'w loopState \<Rightarrow> nat" where
  "requestStart req start lp =
     start + length (applySystemTextSource (rn_world (lp_run lp)) (CloneMessages (lp_messages lp)) (er_SystemTextSource req)) -
     length (lp_messages lp)"

definition engineTurn ::
  "codecs \<Rightarrow> 'w Engine \<Rightarrow> 'w EngineRequest \<Rightarrow> 'w ToolRegistry option \<Rightarrow> ToolDefinition list \<Rightarrow> Extractor \<Rightarrow> nat \<Rightarrow> nat \<Rightarrow>
   'w loopState \<Rightarrow> turn_end \<times> 'w loopState"
where
  "engineTurn co eg req tools toolDefs extractor start turn lp =
     (let (requestMessages, requestTools, finalTurn, requestTail, budget) = turnRequest req toolDefs lp;
          ((modelRef, completed), rn1) =
            completeWithObserver co eg req requestMessages requestTools
              (er_RequireToolCalling req \<and> requestTools \<noteq> []) turn (requestStart req start lp) requestTail
              ((lp_run lp)\<lparr>rn_budget := budget\<rparr>);
          lp1 = lp\<lparr>lp_run := rn1, lp_lastModelRef := modelRef, lp_lastTurn := turn\<rparr>
      in case completed of
           Inl e \<Rightarrow> (Return (partial start modelRef turn (lp_messages lp)) (Some (ModelComplete e)), lp1)
         | Inr result \<Rightarrow>
             (let resultMessages = NormalizeMessages (CloneMessages (cr_Messages result));
                  toolCalls = resultToolCalls resultMessages;
                  reply = finalReply resultMessages extractor;
                  ms = lp_messages lp @ resultMessages
              in if finalTurn \<and> (toolCalls \<noteq> [] \<or> noAnswer reply)
                 then (LeaveLoop, lp1\<lparr>lp_messages := ms @ map (\<lambda>call. toolResultMessage (tc_ID call)
                         (outputOnly (lit ''Tool call not executed: tools are disabled on the final turn.'')) True) toolCalls\<rparr>)
                 else if toolCalls = [] \<and> noAnswer reply \<and> lp_emptyRetries lp < maxEmptyAssistantRetries
                 then (NextTurn, lp1\<lparr>lp_emptyRetries := lp_emptyRetries lp + 1\<rparr>)
                 else (let lp2 = lp1\<lparr>lp_emptyRetries := 0, lp_messages := ms\<rparr>
                       in if toolCalls = []
                          then (case answered extractor start finalTurn (cr_FinishReason result) modelRef turn ms of
                                  (r, e) \<Rightarrow> (Return r e, lp2))
                          else case runCalls co eg req tools extractor start turn modelRef toolCalls lp2 of
                                 (Some (r, e), lp3) \<Rightarrow> (Return r (Some e), lp3)
                               | (None, lp3) \<Rightarrow> (NextTurn, lp3))))"

definition leaveLoop :: "'w Engine \<Rightarrow> Extractor \<Rightarrow> nat \<Rightarrow> 'w loopState \<Rightarrow> (EngineResult \<times> engine_error option) \<times> 'w loopState" where
  "leaveLoop eg extractor start lp =
     (let (reason, limit, detail) =
            (case rn_budget (lp_run lp) of
               Some b \<Rightarrow>
                 (if Remaining b = 0
                  then (StopReasonTurnBudgetExhausted, tb_limit b, lit ''turn budget exhausted (limit='' @ itoa (tb_limit b) @ lit '')'')
                  else (StopReasonToolTurnLimit, eg_maxTurns eg, lit ''max tool-call turns reached ('' @ itoa (eg_maxTurns eg) @ lit '')''))
             | None \<Rightarrow> (StopReasonToolTurnLimit, eg_maxTurns eg, lit ''max tool-call turns reached ('' @ itoa (eg_maxTurns eg) @ lit '')''));
          stopSummary = formatStopSummary reason limit (ld_maxRepeatCount (lp_detector lp)) (ld_maxNoProgressCount (lp_detector lp));
          ms = lp_messages lp @ [assistantTextMessage stopSummary []]
      in ((stoppedResult extractor start stopSummary (lp_lastModelRef lp) (lp_lastTurn lp) ms,
           Some (RunStopped \<lparr>se_Reason = reason, se_Detail = detail\<rparr>)), lp\<lparr>lp_messages := ms\<rparr>))"

text \<open>The loop, with the turns that are left.\<close>

fun runTurns ::
  "codecs \<Rightarrow> 'w Engine \<Rightarrow> 'w EngineRequest \<Rightarrow> 'w ToolRegistry option \<Rightarrow> ToolDefinition list \<Rightarrow> Extractor \<Rightarrow> nat \<Rightarrow> nat \<Rightarrow>
   nat \<Rightarrow> 'w loopState \<Rightarrow> (EngineResult \<times> engine_error option) \<times> 'w loopState"
where
  "runTurns co eg req tools toolDefs extractor start 0 turn lp = leaveLoop eg extractor start lp"
| "runTurns co eg req tools toolDefs extractor start (Suc left) turn lp =
     (if (case rn_budget (lp_run lp) of None \<Rightarrow> False | Some b \<Rightarrow> Remaining b = 0)
      then leaveLoop eg extractor start lp
      else case engineTurn co eg req tools toolDefs extractor start turn lp of
             (NextTurn, lp1) \<Rightarrow> runTurns co eg req tools toolDefs extractor start left (turn + 1) lp1
           | (LeaveLoop, lp1) \<Rightarrow> leaveLoop eg extractor start lp1
           | (Return r e, lp1) \<Rightarrow> ((r, e), lp1))"

definition requestTools :: "'w Engine \<Rightarrow> 'w EngineRequest \<Rightarrow> 'w ToolRegistry option" where
  "requestTools eg req =
     (case eg_tools eg of
        None \<Rightarrow> None
      | Some base \<Rightarrow> if er_UseTools req then Some (filterRegistry base (er_AllowedTools req)) else None)"

definition startState :: "'w EngineRequest \<Rightarrow> TurnBudget option \<Rightarrow> 'w \<Rightarrow> 'w loopState" where
  "startState req budget w =
     \<lparr>lp_run = \<lparr>rn_world = w, rn_trace = [], rn_budget = budget, rn_failures = []\<rparr>,
      lp_messages = NormalizeMessages (CloneMessages (er_Messages req)), lp_detector = newToolLoopDetector,
      lp_emptyRetries = 0, lp_lastModelRef = [], lp_lastTurn = 0\<rparr>"

definition EngineRun ::
  "codecs \<Rightarrow> 'w Engine \<Rightarrow> 'w EngineRequest \<Rightarrow> TurnBudget option \<Rightarrow> 'w \<Rightarrow> (EngineResult \<times> engine_error option) \<times> 'w run"
where
  "EngineRun co eg req budget w =
     (let tools = requestTools eg req;
          toolDefs = (case tools of None \<Rightarrow> [] | Some r \<Rightarrow> Definitions r);
          start = length (er_Messages req);
          (out, lp) = runTurns co eg req tools toolDefs (NewExtractor (deliverToolNames tools)) start (eg_maxTurns eg) 0
                        (startState req budget w)
      in (out, lp_run lp))"

definition SetMaxTurns :: "int \<Rightarrow> 'w Engine \<Rightarrow> 'w Engine" where
  "SetMaxTurns maxTurns eg = (if maxTurns \<le> 0 then eg else eg\<lparr>eg_maxTurns := nat maxTurns\<rparr>)"

end
