(* ===== verification/Agent_Trace.thy ===== *)
theory Agent_Trace
  imports Agent_Engine
begin

text \<open>
  What a run of the engine does to the outside: the calculus of the trace, the bound on turns, model
  attempts and the turn budget, and the locale of a world that models and tools keep.
\<close>


section \<open>What a run adds to its trace\<close>

definition asksOf :: "action list \<Rightarrow> (nat \<times> ToolDefinition list) list" where
  "asksOf trace = concat (map (\<lambda>a. case a of AskedModel k ref ms tools \<Rightarrow> [(k, tools)] | _ \<Rightarrow> []) trace)"

definition usesOf :: "action list \<Rightarrow> ToolCall list" where
  "usesOf trace = concat (map (\<lambda>a. case a of UsedTool call \<Rightarrow> [call] | _ \<Rightarrow> []) trace)"

lemma asksOf_simps [simp]:
  "asksOf [] = []" "asksOf (s @ t) = asksOf s @ asksOf t" "asksOf [Observed e] = []" "asksOf [UsedTool c] = []"
  "asksOf [AskedModel k ref ms tools] = [(k, tools)]"
  by (simp_all add: asksOf_def)

lemma usesOf_simps [simp]:
  "usesOf [] = []" "usesOf (s @ t) = usesOf s @ usesOf t" "usesOf [Observed e] = []" "usesOf [UsedTool c] = [c]"
  "usesOf [AskedModel k ref ms tools] = []"
  by (simp_all add: usesOf_def)

lemma act_sel [simp]:
  "rn_world (act a rn) = rn_world rn" "rn_budget (act a rn) = rn_budget rn" "rn_failures (act a rn) = rn_failures rn"
  "rn_trace (act a rn) = rn_trace rn @ [a]"
  by (simp_all add: act_def)

text \<open>Events change nothing but the trace, and nothing of what was asked and used.\<close>

lemma emit_sel [simp]:
  "rn_world (emitRunEvent ob e rn) = rn_world rn" "rn_budget (emitRunEvent ob e rn) = rn_budget rn"
  "rn_failures (emitRunEvent ob e rn) = rn_failures rn"
  "asksOf (rn_trace (emitRunEvent ob e rn)) = asksOf (rn_trace rn)"
  "usesOf (rn_trace (emitRunEvent ob e rn)) = usesOf (rn_trace rn)"
  by (simp_all add: emitRunEvent_def)

lemma emits_sel [simp]:
  "rn_world (foldl (\<lambda>s d. emitRunEvent ob (f d) s) rn ds) = rn_world rn"
  "rn_budget (foldl (\<lambda>s d. emitRunEvent ob (f d) s) rn ds) = rn_budget rn"
  "rn_failures (foldl (\<lambda>s d. emitRunEvent ob (f d) s) rn ds) = rn_failures rn"
  "asksOf (rn_trace (foldl (\<lambda>s d. emitRunEvent ob (f d) s) rn ds)) = asksOf (rn_trace rn)"
  "usesOf (rn_trace (foldl (\<lambda>s d. emitRunEvent ob (f d) s) rn ds)) = usesOf (rn_trace rn)"
  by (induction ds arbitrary: rn) simp_all

lemma completeModel_run:
  assumes "completeModel eg ob turn ref ms tools rn = (r, rn')"
  shows "rn_budget rn' = rn_budget rn" "rn_failures rn' = rn_failures rn"
    "asksOf (rn_trace rn') = asksOf (rn_trace rn) @ [(turn, tools)]" "usesOf (rn_trace rn') = usesOf (rn_trace rn)"
    "\<exists>ds. eg_complete eg ref ms tools (rn_world rn) = ((ds, r), rn_world rn')"
  using assms by (auto simp: completeModel_def Let_def split: prod.splits)

lemma fitContext_run:
  assumes "fitContext eg req ref ms tools gs tail rn = (r, rn')"
  shows "rn_budget rn' = rn_budget rn" "rn_failures rn' = rn_failures rn" "rn_trace rn' = rn_trace rn"
    "case er_ContextFitter req of None \<Rightarrow> r = Inr ms \<and> rn_world rn' = rn_world rn
     | Some fit \<Rightarrow> fit (eg_contextForModel eg ref) ms tools gs tail (rn_world rn) = (r, rn_world rn')"
  using assms by (auto simp: fitContext_def split: prod.splits option.splits)

text \<open>What a predicate on worlds has to keep.\<close>

definition modelsKeep :: "'w Engine \<Rightarrow> 'w EngineRequest \<Rightarrow> ('w \<Rightarrow> bool) \<Rightarrow> bool" where
  "modelsKeep eg req I \<longleftrightarrow>
     (\<forall>ref ms tools w x w'. I w \<longrightarrow> eg_complete eg ref ms tools w = (x, w') \<longrightarrow> I w') \<and>
     (\<forall>refs rq w x w'. I w \<longrightarrow> eg_plan eg refs rq w = (x, w') \<longrightarrow> I w') \<and>
     (\<forall>fit mc ms tools gs tail w x w'. er_ContextFitter req = Some fit \<longrightarrow> I w \<longrightarrow> fit mc ms tools gs tail w = (x, w') \<longrightarrow> I w')"

lemma modelsKeepD:
  assumes "modelsKeep eg req I" "I w"
  shows "eg_complete eg ref ms tools w = (x, w') \<Longrightarrow> I w'" "eg_plan eg refs rq w = (y, w') \<Longrightarrow> I w'"
    "er_ContextFitter req = Some fit \<Longrightarrow> fit mc ms tools gs tail w = (z, w') \<Longrightarrow> I w'"
  using assms unfolding modelsKeep_def by blast+

lemma modelsKeep_True: "modelsKeep eg req (\<lambda>_. True)"
  by (simp add: modelsKeep_def)

definition clientResults :: "'w Engine \<Rightarrow> (ModelClientResult \<Rightarrow> bool) \<Rightarrow> bool" where
  "clientResults eg R \<longleftrightarrow> (\<forall>ref ms tools w ds r w'. eg_complete eg ref ms tools w = ((ds, Inr r), w') \<longrightarrow> R r)"

definition failuresOK :: "'w EngineRequest \<Rightarrow> 'w run \<Rightarrow> bool" where
  "failuresOK req rn \<longleftrightarrow>
     (0 < er_MaxFailedModelAttempts req \<longrightarrow> int (length (rn_failures rn)) \<le> er_MaxFailedModelAttempts req)"

definition failuresLeft :: "'w EngineRequest \<Rightarrow> 'w run \<Rightarrow> bool" where
  "failuresLeft req rn \<longleftrightarrow>
     (0 < er_MaxFailedModelAttempts req \<longrightarrow> int (length (rn_failures rn)) < er_MaxFailedModelAttempts req)"

text \<open>The outcome of asking: the trace grows by attempts of this turn, and the rest is bounded.\<close>

definition askedRun ::
  "'w Engine \<Rightarrow> 'w EngineRequest \<Rightarrow> ('w \<Rightarrow> bool) \<Rightarrow> nat \<Rightarrow> ToolDefinition list \<Rightarrow> 'w run \<Rightarrow> (model_error + ModelClientResult) \<Rightarrow>
   'w run \<Rightarrow> bool"
where
  "askedRun eg req I turn tools rn out rn' \<longleftrightarrow>
     rn_budget rn' = rn_budget rn \<and> usesOf (rn_trace rn') = usesOf (rn_trace rn) \<and>
     (\<exists>n. asksOf (rn_trace rn') = asksOf (rn_trace rn) @ replicate n (turn, tools)) \<and>
     (I (rn_world rn) \<longrightarrow> I (rn_world rn')) \<and> (failuresLeft req rn \<longrightarrow> failuresOK req rn') \<and>
     (case out of
        Inl e \<Rightarrow> True
      | Inr r \<Rightarrow> (failuresLeft req rn \<longrightarrow> failuresLeft req rn') \<and>
          (\<exists>ref ms ds w w'. eg_complete eg ref ms tools w = ((ds, Inr r), w')))"

lemma askedRun_same:
  "rn_budget rn' = rn_budget rn \<Longrightarrow> rn_trace rn' = rn_trace rn \<Longrightarrow> rn_failures rn' = rn_failures rn \<Longrightarrow>
   (I (rn_world rn) \<Longrightarrow> I (rn_world rn')) \<Longrightarrow> askedRun eg req I turn tools rn (Inl e) rn'"
  by (auto simp: askedRun_def failuresOK_def failuresLeft_def intro: exI [of _ 0])

lemma askedRun_trans:
  assumes a: "rn_budget rn1 = rn_budget rn" "usesOf (rn_trace rn1) = usesOf (rn_trace rn)"
    "asksOf (rn_trace rn1) = asksOf (rn_trace rn) @ replicate m (turn, tools)"
    "I (rn_world rn) \<Longrightarrow> I (rn_world rn1)" "failuresLeft req rn \<Longrightarrow> failuresLeft req rn1"
    and b: "askedRun eg req I turn tools rn1 out rn2"
  shows "askedRun eg req I turn tools rn out rn2"
proof -
  from b obtain n where n: "asksOf (rn_trace rn2) = asksOf (rn_trace rn1) @ replicate n (turn, tools)"
    by (auto simp: askedRun_def)
  have "asksOf (rn_trace rn2) = asksOf (rn_trace rn) @ replicate (m + n) (turn, tools)"
    by (simp add: n a(3) replicate_add)
  with a b show ?thesis by (auto simp: askedRun_def split: sum.splits)
qed

lemma tryModels_run:
  assumes "modelsKeep eg req I" "tryModels eg req turn tools ms gs tail eligible refs lastRef failures rn = ((ref, out), rn')"
  shows "askedRun eg req I turn tools rn out rn'"
  using assms(2)
proof (induction refs arbitrary: lastRef failures rn)
  case Nil
  then show ?case by (auto intro!: askedRun_same split: if_splits)
next
  case (Cons r refs)
  show ?case
  proof (cases "eg_ctxErr eg (rn_world rn)")
    case (Some e)
    with Cons.prems show ?thesis by (auto intro!: askedRun_same)
  next
    case None
    let ?st = "emitRunEvent (er_Observer req) ((eventOf RunEventModelTurnStarted)\<lparr>ev_Turn := turn, ev_ModelRef := r\<rparr>) rn"
    obtain fitted rn1 where f: "fitContext eg req r ms tools gs tail ?st = (fitted, rn1)" by fastforce
    note fr = fitContext_run [OF f]
    have I1: "I (rn_world rn) \<Longrightarrow> I (rn_world rn1)"
      using fr(4) modelsKeepD(3) [OF assms(1)] by (cases "er_ContextFitter req") auto
    have f1: "failuresLeft req rn1 = failuresLeft req rn" "failuresOK req rn1 = failuresOK req rn"
      by (simp_all add: failuresLeft_def failuresOK_def fr(2))
    have step1: "askedRun eg req I turn tools rn out rn'" if "askedRun eg req I turn tools rn1 out rn'"
      by (rule askedRun_trans [OF _ _ _ _ _ that, of rn 0]) (use fr I1 f1 in auto)
    show ?thesis
    proof (cases fitted)
      case (Inl e)
      with Cons.prems None f have "tryModels eg req turn tools ms gs tail eligible refs r
          (failures @ [\<lparr>af_ModelRef = r, af_Err = Some e\<rparr>]) rn1 = ((ref, out), rn')" by simp
      from Cons.IH [OF this] show ?thesis by (rule step1)
    next
      case (Inr ams)
      obtain result rn2 where c: "completeModel eg (er_Observer req) turn r ams tools rn1 = (result, rn2)" by fastforce
      note cr = completeModel_run [OF c]
      have I2: "I (rn_world rn1) \<Longrightarrow> I (rn_world rn2)" using cr(5) modelsKeepD(1) [OF assms(1)] by blast
      have f2: "failuresLeft req rn2 = failuresLeft req rn1" "failuresOK req rn2 = failuresOK req rn1"
        by (simp_all add: failuresLeft_def failuresOK_def cr(2))
      have step2: "askedRun eg req I turn tools rn1 out rn'" if "askedRun eg req I turn tools rn2 out rn'"
        by (rule askedRun_trans [OF _ _ _ _ _ that, of rn1 1]) (use cr I2 f2 in auto)
      note eqs = Cons.prems None f Inr c
      consider (cancelled) e where "eg_ctxErr eg (rn_world rn2) = Some e"
        | (ok) x where "eg_ctxErr eg (rn_world rn2) = None" "result = Inr x"
        | (failed) e where "eg_ctxErr eg (rn_world rn2) = None" "result = Inl e"
        by (cases "eg_ctxErr eg (rn_world rn2)"; cases result) auto
      then show ?thesis
      proof cases
        case cancelled
        with eqs have "rn' = rn2" "out = Inl (ModelCancelled e)" by auto
        then show ?thesis by (intro step1 step2) (auto intro!: askedRun_same)
      next
        case ok
        with eqs have e: "rn' = rn2" "out = Inr x" by auto
        have ex: "\<exists>ref ms ds w w'. eg_complete eg ref ms tools w = ((ds, Inr x), w')" using cr(5) ok(2) by blast
        have n: "\<exists>n. asksOf (rn_trace rn2) = asksOf (rn_trace rn1) @ replicate n (turn, tools)"
          by (rule exI [of _ 1]) (simp add: cr(3))
        have "askedRun eg req I turn tools rn1 out rn'"
          using cr(1,2,4) I2 e n ex by (auto simp: askedRun_def failuresLeft_def failuresOK_def)
        then show ?thesis by (rule step1)
      next
        case failed
        let ?limit = "er_MaxFailedModelAttempts req" and ?fl = "\<lparr>af_ModelRef = r, af_Err = Some e\<rparr>"
        let ?rn3 = "if 0 < ?limit then rn2\<lparr>rn_failures := rn_failures rn2 @ [?fl]\<rparr> else rn2"
        have e: "(if 0 < ?limit \<and> ?limit \<le> int (length (rn_failures ?rn3))
             then ((r, Inl (ModelAttemptLimit ?limit (rn_failures ?rn3))), ?rn3)
             else tryModels eg req turn tools ms gs tail eligible refs r (failures @ [?fl]) ?rn3) = ((ref, out), rn')"
          using eqs failed by (simp add: Let_def)
        show ?thesis
        proof (cases "0 < ?limit \<and> ?limit \<le> int (length (rn_failures ?rn3))")
          case True
          with e have "rn' = ?rn3" "out = Inl (ModelAttemptLimit ?limit (rn_failures ?rn3))" by auto
          with True have "askedRun eg req I turn tools rn2 out rn'"
            by (auto simp: askedRun_def failuresLeft_def failuresOK_def intro!: exI [of _ 0])
          then show ?thesis by (intro step1 step2)
        next
          case False
          with e have "tryModels eg req turn tools ms gs tail eligible refs r (failures @ [?fl]) ?rn3 = ((ref, out), rn')"
            by (simp only: if_False)
          from Cons.IH [OF this] have "askedRun eg req I turn tools ?rn3 out rn'" .
          then have "askedRun eg req I turn tools rn2 out rn'"
            by (rule askedRun_trans [of _ _ 0, rotated -1]) (use False in \<open>auto simp: failuresLeft_def\<close>)
          then show ?thesis by (intro step1 step2)
        qed
      qed
    qed
  qed
qed

lemma completeWithObserver_run:
  assumes keep: "modelsKeep eg req I"
    and run: "completeWithObserver co eg req ms0 tools rtc turn gs tail rn = ((ref, out), rn')"
  shows "askedRun eg req I turn tools rn out rn'"
proof -
  let ?refs = "normalizeModelRefs (eg_modelRefSource eg (rn_world rn))"
  define ms where "ms = (if er_ContextFitter req \<noteq> None then ms0 else CloneMessages ms0 @ CloneMessages tail)"
  define encoded where "encoded = (if er_ContextFitter req \<noteq> None then Inr 0 else co_encodedBytes co ms tools)"
  note run' = run [unfolded completeWithObserver_def Let_def, folded ms_def, folded encoded_def]
  show ?thesis
  proof (cases "?refs = []")
    case True
    with run' show ?thesis by (auto intro!: askedRun_same)
  next
    case refs: False
    show ?thesis
    proof (cases encoded)
      case (Inl e)
      with run' refs show ?thesis by (auto intro!: askedRun_same)
    next
      case (Inr n)
      let ?rq = "InferRequirements\<lparr>rq_ToolCalling := rq_ToolCalling InferRequirements \<or> rtc, rq_InputBytes := n\<rparr>"
      obtain planned w where p: "eg_plan eg ?refs ?rq (rn_world rn) = (planned, w)" by fastforce
      have Iw: "I (rn_world rn) \<Longrightarrow> I w" using modelsKeepD(2) [OF keep _ p] by blast
      have here: "askedRun eg req I turn tools rn (Inl e) (rn\<lparr>rn_world := w\<rparr>)" for e
        by (rule askedRun_same) (use Iw in auto)
      have go: "askedRun eg req I turn tools rn out rn'"
        if "askedRun eg req I turn tools (rn\<lparr>rn_world := w\<rparr>) out rn'"
        by (rule askedRun_trans [OF _ _ _ _ _ that, of rn 0]) (use Iw in \<open>auto simp: failuresLeft_def\<close>)
      note eq = run' [simplified refs Inr sum.case p prod.case if_False]
      show ?thesis
      proof (cases planned)
        case (Inl e)
        with eq here show ?thesis by auto
      next
        case (Inr plan)
        show ?thesis
        proof (cases "pl_EligibleRefs plan = []")
          case True
          with eq Inr here show ?thesis by auto
        next
          case False
          with eq Inr have "tryModels eg req turn tools ms gs tail (pl_EligibleRefs plan) (pl_EligibleRefs plan) [] []
              (rn\<lparr>rn_world := w\<rparr>) = ((ref, out), rn')" by simp
          from tryModels_run [OF keep this] show ?thesis by (rule go)
        qed
      qed
    qed
  qed
qed

section \<open>Tool calls\<close>

text \<open>A call that may reach a tool: it has an id, and passes the policy of the request.\<close>

definition callOK :: "'w EngineRequest \<Rightarrow> ToolCall \<Rightarrow> bool" where
  "callOK req call \<longleftrightarrow> trimSpace (tc_ID call) \<noteq> [] \<and>
     (case er_ToolCallPolicy req of None \<Rightarrow> True | Some check \<Rightarrow> check call = None)"

definition toolsKeep :: "'w Engine \<Rightarrow> 'w EngineRequest \<Rightarrow> ('w \<Rightarrow> bool) \<Rightarrow> bool" where
  "toolsKeep eg req I \<longleftrightarrow>
     (\<forall>reg call w r w'. requestTools eg req = Some reg \<longrightarrow> callOK req call \<longrightarrow> I w \<longrightarrow> RunTool reg call w = (r, w') \<longrightarrow> I w')"

definition toolStep :: "'w Engine \<Rightarrow> 'w EngineRequest \<Rightarrow> ('w \<Rightarrow> bool) \<Rightarrow> 'w run \<Rightarrow> 'w run \<Rightarrow> bool" where
  "toolStep eg req I rn rn' \<longleftrightarrow>
     rn_budget rn' = rn_budget rn \<and> rn_failures rn' = rn_failures rn \<and> asksOf (rn_trace rn') = asksOf (rn_trace rn) \<and>
     (\<exists>calls. usesOf (rn_trace rn') = usesOf (rn_trace rn) @ calls \<and> list_all (callOK req) calls) \<and>
     (I (rn_world rn) \<longrightarrow> I (rn_world rn'))"

lemma toolStep_refl [simp]: "toolStep eg req I rn rn"
  by (auto simp: toolStep_def intro: exI [of _ "[]"])

lemma toolStep_trans: "toolStep eg req I rn rn1 \<Longrightarrow> toolStep eg req I rn1 rn2 \<Longrightarrow> toolStep eg req I rn rn2"
  by (fastforce simp: toolStep_def)

lemma toolStep_emit [simp]: "toolStep eg req I rn (emitRunEvent ob e rn)"
  by (auto simp: toolStep_def intro: exI [of _ "[]"])

lemma runTool_step:
  assumes "toolsKeep eg req I" "runTool co eg (requestTools eg req) (er_ToolCallPolicy req) call rn = (r, rn')"
  shows "toolStep eg req I rn rn'"
proof (cases "rn' = rn")
  case False
  with assms(2) obtain reg where reg: "requestTools eg req = Some reg" "trimSpace (tc_ID call) \<noteq> []"
    "(case er_ToolCallPolicy req of None \<Rightarrow> None | Some check \<Rightarrow> check call) = None"
    "(r, rn') = (let (r, w) = RunTool reg call (rn_world rn) in (r, (act (UsedTool call) rn)\<lparr>rn_world := w\<rparr>))"
    by (auto simp: runTool_def split: option.splits if_splits)
  obtain w where w: "RunTool reg call (rn_world rn) = (r, w)" "rn' = (act (UsedTool call) rn)\<lparr>rn_world := w\<rparr>"
    using reg(4) by (auto split: prod.splits)
  have ok: "callOK req call" using reg(2,3) by (auto simp: callOK_def split: option.splits)
  then have "I (rn_world rn) \<Longrightarrow> I w" using assms(1) reg(1) w(1) unfolding toolsKeep_def by blast
  with w(2) ok show ?thesis by (auto simp: toolStep_def)
qed simp

lemma runCall_step:
  assumes "toolsKeep eg req I" "runCall co eg req (requestTools eg req) extractor start turn ref call lp = (out, lp')"
  shows "toolStep eg req I (lp_run lp) (lp_run lp')"
proof -
  let ?ev = "\<lambda>t. (eventOf t)\<lparr>ev_Turn := turn, ev_ModelRef := ref, ev_ToolCall := Some call\<rparr>"
  obtain r rn1 where r: "runTool co eg (requestTools eg req) (er_ToolCallPolicy req) call
      (emitRunEvent (er_Observer req) (?ev RunEventToolStarted) (lp_run lp)) = (r, rn1)" by fastforce
  have s1: "toolStep eg req I (lp_run lp) rn1" using toolStep_trans [OF toolStep_emit runTool_step [OF assms(1) r]] .
  have "lp_run lp' = lp_run lp \<or> (\<exists>e. lp_run lp' = emitRunEvent (er_Observer req) e rn1)"
    using assms(2) r unfolding runCall_def Let_def by (auto split: option.splits prod.splits if_splits)
  with s1 toolStep_trans [OF s1 toolStep_emit] show ?thesis by auto
qed

lemma runCalls_step:
  assumes "toolsKeep eg req I" "runCalls co eg req (requestTools eg req) extractor start turn ref calls lp = (out, lp')"
  shows "toolStep eg req I (lp_run lp) (lp_run lp')"
  using assms(2)
proof (induction calls arbitrary: lp)
  case (Cons c cs)
  obtain o1 lp1 where c: "runCall co eg req (requestTools eg req) extractor start turn ref c lp = (o1, lp1)" by fastforce
  note s = runCall_step [OF assms(1) c]
  show ?case
  proof (cases o1)
    case None
    with Cons.prems c have "runCalls co eg req (requestTools eg req) extractor start turn ref cs lp1 = (out, lp')" by simp
    from toolStep_trans [OF s Cons.IH [OF this]] show ?thesis .
  next
    case (Some x)
    with Cons.prems c s show ?thesis by auto
  qed
qed simp

section \<open>Turns\<close>

definition budgetAllows :: "TurnBudget option \<Rightarrow> nat \<Rightarrow> ToolDefinition list \<Rightarrow> bool" where
  "budgetAllows budget j tools \<longleftrightarrow>
     (case budget of None \<Rightarrow> True | Some b \<Rightarrow> tb_used b + j < tb_limit b \<and> (tb_used b + j + 1 = tb_limit b \<longrightarrow> tools = []))"

definition exhausted :: "TurnBudget option \<Rightarrow> bool" where
  "exhausted budget \<longleftrightarrow> (case budget of None \<Rightarrow> False | Some b \<Rightarrow> Remaining b = 0)"

definition spend :: "nat \<Rightarrow> TurnBudget option \<Rightarrow> TurnBudget option" where
  "spend n budget = map_option (\<lambda>b. b\<lparr>tb_used := tb_used b + n\<rparr>) budget"

lemma spend_simps [simp]: "spend 0 budget = budget" "spend m (spend n budget) = spend (n + m) budget"
  by (cases budget; simp add: spend_def)+

lemma turnRequest_budget:
  assumes "turnRequest req toolDefs lp = (ms, tools, final, tail, budget)" "\<not> exhausted (rn_budget (lp_run lp))"
  shows "budget = spend 1 (rn_budget (lp_run lp))" "budgetAllows (rn_budget (lp_run lp)) 0 tools"
  using assms by (auto simp: turnRequest_def nextTurn_def exhausted_def budgetAllows_def spend_def Remaining_def Let_def
      split: option.splits)

text \<open>What one turn, and what a number of turns may do.\<close>

definition turnsRun ::
  "'w Engine \<Rightarrow> 'w EngineRequest \<Rightarrow> ('w \<Rightarrow> bool) \<Rightarrow> nat \<Rightarrow> nat \<Rightarrow> 'w run \<Rightarrow> 'w run \<Rightarrow> bool"
where
  "turnsRun eg req I turn n rn rn' \<longleftrightarrow>
     (\<exists>m \<le> n. rn_budget rn' = spend m (rn_budget rn) \<and>
        (\<forall>b. rn_budget rn = Some b \<longrightarrow> 0 < m \<longrightarrow> tb_used b + m \<le> tb_limit b) \<and>
        (\<exists>asks. asksOf (rn_trace rn') = asksOf (rn_trace rn) @ asks \<and>
           (\<forall>(k, tools) \<in> set asks. turn \<le> k \<and> k < turn + m \<and> budgetAllows (rn_budget rn) (k - turn) tools))) \<and>
     (\<exists>calls. usesOf (rn_trace rn') = usesOf (rn_trace rn) @ calls \<and> list_all (callOK req) calls) \<and>
     (I (rn_world rn) \<longrightarrow> I (rn_world rn')) \<and> (failuresLeft req rn \<longrightarrow> failuresOK req rn')"

lemma turnsRun_refl: "turnsRun eg req I turn n rn rn"
  by (auto simp: turnsRun_def failuresLeft_def failuresOK_def intro!: exI [of _ 0] exI [of _ "[]"])

lemma budgetAllows_spend: "budgetAllows (spend m budget) j tools = budgetAllows budget (m + j) tools"
  by (cases budget) (auto simp: budgetAllows_def spend_def algebra_simps)

lemma turnsRun_step:
  assumes a: "turnsRun eg req I turn 1 rn rn1" "rn_budget rn1 = spend 1 (rn_budget rn)"
      "failuresLeft req rn \<Longrightarrow> failuresLeft req rn1" "\<not> exhausted (rn_budget rn)"
    and b: "turnsRun eg req I (turn + 1) n rn1 rn2"
  shows "turnsRun eg req I turn (Suc n) rn rn2"
proof -
  from a(1) obtain asks1 m1 where 1: "m1 \<le> 1" "asksOf (rn_trace rn1) = asksOf (rn_trace rn) @ asks1"
    "\<forall>(k, tools) \<in> set asks1. turn \<le> k \<and> k < turn + m1 \<and> budgetAllows (rn_budget rn) (k - turn) tools"
    unfolding turnsRun_def by blast
  from b obtain m asks2 where 2: "m \<le> n" "rn_budget rn2 = spend m (rn_budget rn1)"
    "\<forall>b. rn_budget rn1 = Some b \<longrightarrow> 0 < m \<longrightarrow> tb_used b + m \<le> tb_limit b"
    "asksOf (rn_trace rn2) = asksOf (rn_trace rn1) @ asks2"
    "\<forall>(k, tools) \<in> set asks2. turn + 1 \<le> k \<and> k < turn + 1 + m \<and> budgetAllows (rn_budget rn1) (k - (turn + 1)) tools"
    unfolding turnsRun_def by blast
  from a(1) b obtain c1 c2 where c: "usesOf (rn_trace rn2) = usesOf (rn_trace rn) @ c1 @ c2" "list_all (callOK req) (c1 @ c2)"
    unfolding turnsRun_def by fastforce
  have "rn_budget rn2 = spend (Suc m) (rn_budget rn)" using 2(2) a(2) by simp
  moreover have "tb_used b + Suc m \<le> tb_limit b" if "rn_budget rn = Some b" for b
    using 2(3) a(2,4) that by (cases "m = 0") (auto simp: spend_def exhausted_def Remaining_def)
  moreover have "\<forall>(k, tools) \<in> set (asks1 @ asks2). turn \<le> k \<and> k < turn + Suc m \<and> budgetAllows (rn_budget rn) (k - turn) tools"
  proof -
    have "budgetAllows (rn_budget rn) (k - turn) tools" if "turn + 1 \<le> k" "budgetAllows (rn_budget rn1) (k - (turn + 1)) tools" for k tools
    proof -
      have "1 + (k - (turn + 1)) = k - turn" using that(1) by simp
      with that(2) show ?thesis unfolding a(2) budgetAllows_spend by simp
    qed
    with 1(1,3) 2(5) show ?thesis by fastforce
  qed
  moreover have "asksOf (rn_trace rn2) = asksOf (rn_trace rn) @ (asks1 @ asks2)" using 1 2 by simp
  ultimately have "\<exists>m \<le> Suc n. rn_budget rn2 = spend m (rn_budget rn) \<and>
        (\<forall>b. rn_budget rn = Some b \<longrightarrow> 0 < m \<longrightarrow> tb_used b + m \<le> tb_limit b) \<and>
        (\<exists>asks. asksOf (rn_trace rn2) = asksOf (rn_trace rn) @ asks \<and>
           (\<forall>(k, tools) \<in> set asks. turn \<le> k \<and> k < turn + m \<and> budgetAllows (rn_budget rn) (k - turn) tools))"
    using 2(1) by (intro exI [of _ "Suc m"] conjI) blast+
  moreover have "I (rn_world rn) \<longrightarrow> I (rn_world rn2)" "failuresLeft req rn \<longrightarrow> failuresOK req rn2"
    using a(1,3) b by (auto simp: turnsRun_def)
  ultimately show ?thesis unfolding turnsRun_def using c by blast
qed

text \<open>A turn asks within the budget, spends one turn of it, and then runs tools.\<close>

lemma engineTurn_run:
  assumes keep: "modelsKeep eg req I" "toolsKeep eg req I" and left: "\<not> exhausted (rn_budget (lp_run lp))"
    and run: "engineTurn co eg req (requestTools eg req) toolDefs extractor start turn lp = (te, lp')"
  shows "turnsRun eg req I turn 1 (lp_run lp) (lp_run lp')" "rn_budget (lp_run lp') = spend 1 (rn_budget (lp_run lp))"
    "failuresLeft req (lp_run lp) \<Longrightarrow> te = NextTurn \<or> te = LeaveLoop \<Longrightarrow> failuresLeft req (lp_run lp')"
proof -
  obtain ms tools final tail budget where t: "turnRequest req toolDefs lp = (ms, tools, final, tail, budget)"
    by (metis prod.exhaust)
  note tb = turnRequest_budget [OF t left]
  let ?rn0 = "(lp_run lp)\<lparr>rn_budget := budget\<rparr>"
  obtain ref out rn1 where c: "completeWithObserver co eg req ms tools (er_RequireToolCalling req \<and> tools \<noteq> []) turn
      (requestStart req start lp) tail ?rn0 = ((ref, out), rn1)" by (metis prod.exhaust)
  note asked = completeWithObserver_run [OF keep(1) c]
  have step: "toolStep eg req I rn1 (lp_run lp')" and inr: "te = NextTurn \<or> te = LeaveLoop \<Longrightarrow> \<exists>x. out = Inr x"
  proof -
    have "toolStep eg req I rn1 (lp_run lp') \<and> (te = NextTurn \<or> te = LeaveLoop \<longrightarrow> (\<exists>x. out = Inr x))"
    proof (cases out)
      case (Inl e)
      with run t c show ?thesis by (auto simp: engineTurn_def Let_def)
    next
      case (Inr result)
      let ?ms = "NormalizeMessages (CloneMessages (cr_Messages result))"
      let ?lp2 = "lp\<lparr>lp_run := rn1, lp_lastModelRef := ref, lp_lastTurn := turn, lp_emptyRetries := 0,
          lp_messages := lp_messages lp @ ?ms\<rparr>"
      obtain o3 lp3 where r: "runCalls co eg req (requestTools eg req) extractor start turn ref (resultToolCalls ?ms) ?lp2 = (o3, lp3)"
        by fastforce
      have "toolStep eg req I rn1 (lp_run lp3)" using runCalls_step [OF keep(2) r] by simp
      moreover have "lp_run lp' = rn1 \<or> lp_run lp' = lp_run lp3"
        using run t c Inr r unfolding engineTurn_def Let_def by (auto split: if_splits option.splits prod.splits)
      ultimately show ?thesis using Inr by auto
    qed
    then show "toolStep eg req I rn1 (lp_run lp')" "te = NextTurn \<or> te = LeaveLoop \<Longrightarrow> \<exists>x. out = Inr x" by auto
  qed
  obtain n where n: "asksOf (rn_trace (lp_run lp')) = asksOf (rn_trace (lp_run lp)) @ replicate n (turn, tools)"
    using asked step by (auto simp: askedRun_def toolStep_def)
  show b: "rn_budget (lp_run lp') = spend 1 (rn_budget (lp_run lp))"
    using asked step tb(1) by (simp add: askedRun_def toolStep_def)
  have f: "failuresLeft req ?rn0 = failuresLeft req (lp_run lp)" by (simp add: failuresLeft_def)
  have f': "failuresLeft req (lp_run lp') = failuresLeft req rn1" "failuresOK req (lp_run lp') = failuresOK req rn1"
    using step by (simp_all add: failuresLeft_def failuresOK_def toolStep_def)
  show "failuresLeft req (lp_run lp) \<Longrightarrow> te = NextTurn \<or> te = LeaveLoop \<Longrightarrow> failuresLeft req (lp_run lp')"
    using asked inr f f' by (auto simp: askedRun_def)
  have "tb_used b + 1 \<le> tb_limit b" if "rn_budget (lp_run lp) = Some b" for b
    using left that by (simp add: exhausted_def Remaining_def)
  moreover have "\<forall>(k, ts) \<in> set (replicate n (turn, tools)). turn \<le> k \<and> k < turn + 1 \<and>
      budgetAllows (rn_budget (lp_run lp)) (k - turn) ts" using tb(2) by auto
  moreover have "\<exists>calls. usesOf (rn_trace (lp_run lp')) = usesOf (rn_trace (lp_run lp)) @ calls \<and> list_all (callOK req) calls"
    "I (rn_world (lp_run lp)) \<longrightarrow> I (rn_world (lp_run lp'))" "failuresLeft req (lp_run lp) \<longrightarrow> failuresOK req (lp_run lp')"
    using asked step f f' by (auto simp: askedRun_def toolStep_def)
  ultimately show "turnsRun eg req I turn 1 (lp_run lp) (lp_run lp')"
    unfolding turnsRun_def using b n by (intro conjI exI [of _ 1]) blast+
qed

lemma leaveLoop_run: "leaveLoop eg extractor start lp = (out, lp') \<Longrightarrow> lp_run lp' = lp_run lp"
  by (auto simp: leaveLoop_def Let_def split: option.splits if_splits)

lemma turnsRun_more:
  assumes "turnsRun eg req I turn 1 rn rn'"
  shows "turnsRun eg req I turn (Suc n) rn rn'"
proof -
  have le: "m \<le> 1 \<Longrightarrow> m \<le> Suc n" for m :: nat by simp
  show ?thesis using assms le unfolding turnsRun_def by blast
qed

lemma runTurns_run:
  assumes keep: "modelsKeep eg req I" "toolsKeep eg req I"
    and run: "runTurns co eg req (requestTools eg req) toolDefs extractor start left turn lp = (out, lp')"
  shows "turnsRun eg req I turn left (lp_run lp) (lp_run lp')"
  using run
proof (induction left arbitrary: turn lp)
  case 0
  then have "lp_run lp' = lp_run lp" by (auto dest: leaveLoop_run)
  then show ?case by (simp add: turnsRun_refl)
next
  case (Suc left)
  show ?case
  proof (cases "exhausted (rn_budget (lp_run lp))")
    case True
    with Suc.prems have "leaveLoop eg extractor start lp = (out, lp')" by (simp add: exhausted_def)
    from leaveLoop_run [OF this] show ?thesis by (simp add: turnsRun_refl)
  next
    case False
    obtain te lp1 where t: "engineTurn co eg req (requestTools eg req) toolDefs extractor start turn lp = (te, lp1)" by fastforce
    note r = engineTurn_run [OF keep False t]
    have eq: "(case te of NextTurn \<Rightarrow> runTurns co eg req (requestTools eg req) toolDefs extractor start left (turn + 1) lp1
        | LeaveLoop \<Rightarrow> leaveLoop eg extractor start lp1 | Return r e \<Rightarrow> ((r, e), lp1)) = (out, lp')"
      using Suc.prems False t by (simp add: exhausted_def split: turn_end.splits)
    show ?thesis
    proof (cases te)
      case NextTurn
      with eq have "runTurns co eg req (requestTools eg req) toolDefs extractor start left (turn + 1) lp1 = (out, lp')" by simp
      from turnsRun_step [OF r(1,2) _ False Suc.IH [OF this]] r(3) NextTurn show ?thesis by simp
    next
      case LeaveLoop
      with eq have "lp_run lp' = lp_run lp1" by (auto dest: leaveLoop_run)
      with turnsRun_more [OF r(1)] show ?thesis by simp
    next
      case (Return x e)
      with eq turnsRun_more [OF r(1)] show ?thesis by simp
    qed
  qed
qed

section \<open>A run\<close>

lemma EngineRun_run:
  assumes "modelsKeep eg req I" "toolsKeep eg req I" "EngineRun co eg req budget w = (out, rn)"
  shows "turnsRun eg req I 0 (eg_maxTurns eg) \<lparr>rn_world = w, rn_trace = [], rn_budget = budget, rn_failures = []\<rparr> rn"
proof -
  define d where "d = (case requestTools eg req of None \<Rightarrow> [] | Some r \<Rightarrow> Definitions r)"
  define x where "x = NewExtractor (deliverToolNames (requestTools eg req))"
  obtain lp where r: "runTurns co eg req (requestTools eg req) d x (length (er_Messages req)) (eg_maxTurns eg) 0
      (startState req budget w) = (out, lp)" and "rn = lp_run lp"
    using assms(3) by (auto simp: EngineRun_def Let_def d_def x_def split: prod.splits)
  with runTurns_run [OF assms(1,2) r] show ?thesis by (simp add: startState_def)
qed

lemma EngineRun_keeps:
  "modelsKeep eg req I \<Longrightarrow> toolsKeep eg req I \<Longrightarrow> EngineRun co eg req budget w = (out, rn) \<Longrightarrow> I w \<Longrightarrow> I (rn_world rn)"
  by (drule (2) EngineRun_run) (auto simp: turnsRun_def)

text \<open>What a run may ask: turns of the engine and of the budget, tools only before the last turn.\<close>

definition withinBudget :: "nat \<Rightarrow> TurnBudget option \<Rightarrow> (nat \<times> ToolDefinition list) list \<Rightarrow> bool" where
  "withinBudget maxTurns budget asks \<longleftrightarrow> list_all (\<lambda>(k, tools). k < maxTurns \<and> budgetAllows budget k tools) asks"

text \<open>What a run has spent of a budget: no more turns than it had left.\<close>

definition budgetSpent :: "TurnBudget option \<Rightarrow> nat \<Rightarrow> TurnBudget option \<Rightarrow> bool" where
  "budgetSpent budget maxTurns budget' \<longleftrightarrow>
     (case budget of
        None \<Rightarrow> budget' = None
      | Some b \<Rightarrow>
          (case budget' of
             None \<Rightarrow> False
           | Some b' \<Rightarrow>
               tb_limit b' = tb_limit b \<and> tb_used b \<le> tb_used b' \<and>
               tb_used b' - tb_used b \<le> min maxTurns (Remaining b)))"


text \<open>An engine with one tool, whose model calls it whenever tools are offered; the world counts the calls.\<close>

definition sampleDefinition :: ToolDefinition where
  "sampleDefinition = \<lparr>td_Name = lit ''probe'', td_Description = [], td_PromptGuidance = [], td_Parameters = [],
     td_DeliversAttachments = False\<rparr>"

definition sampleRegistry :: "nat ToolRegistry" where
  "sampleRegistry = BaseRegistry \<lparr>rg_definitions = [sampleDefinition],
     rg_toolsByName = [(lit ''probe'', \<lparr>tl_Definition = sampleDefinition,
        tl_Run = PlainTool (\<lambda>a w. (Inr (lit ''ok''), Suc w))\<rparr>)]\<rparr>"

definition sampleAnswer :: "gostr \<Rightarrow> Message list \<Rightarrow> ModelClientResult" where
  "sampleAnswer reason ms = \<lparr>cr_Messages = ms, cr_FinishReason = reason,
     cr_Usage = \<lparr>mu_InputTokens = 0, mu_OutputTokens = 0, mu_TotalTokens = 0\<rparr>\<rparr>"

definition probeCall :: Part where
  "probeCall = ToolCallPart (lit ''c'') (lit ''probe'') (lit ''{}'')"

definition sampleModel :: "gostr \<Rightarrow> Message list \<Rightarrow> ToolDefinition list \<Rightarrow> nat \<Rightarrow> (delta list \<times> (gostr + ModelClientResult)) \<times> nat" where
  "sampleModel ref ms tools w =
     (([], Inr (if tools = [] then sampleAnswer (lit ''stop'') [AssistantMessage [TextPart (lit ''done'') []]]
                else sampleAnswer (lit ''tool_calls'') [AssistantMessage [probeCall]])), w)"

definition sampleEngine :: "nat Engine" where
  "sampleEngine = \<lparr>eg_complete = sampleModel, eg_kind = PlainClient,
     eg_contextForModel = (\<lambda>ref. \<lparr>mc_Ref = ref, mc_MaxContextTokens = 0, mc_MaxOutputTokens = 0\<rparr>),
     eg_plan = (\<lambda>refs rq w. (Inr (PassthroughPlan refs), w)), eg_tools = Some sampleRegistry,
     eg_modelRefSource = (\<lambda>w. [lit ''m'']), eg_ctxErr = (\<lambda>w. None), eg_maxTurns = defaultMaxTurns\<rparr>"

definition sampleRequest :: "nat EngineRequest" where
  "sampleRequest = \<lparr>er_Messages = [UserMessage (lit ''hello'')], er_UseTools = True, er_AllowedTools = [],
     er_ToolCallPolicy = None, er_RequireToolCalling = False, er_SystemTextSource = None, er_Observer = False,
     er_MaxFailedModelAttempts = 0, er_ContextFitter = None\<rparr>"

definition sampleCodecs :: codecs where
  "sampleCodecs = \<lparr>co_sha256 = (\<lambda>s. s), co_canonicalJSON = Some, co_encodedBytes = (\<lambda>ms tools. Inr 0), co_quote = (\<lambda>s. s)\<rparr>"

text \<open>What the sample run asks, uses and returns.\<close>

lemma sampleRun:
  "(case EngineRun sampleCodecs sampleEngine sampleRequest (Some (NewTurnBudget 3)) 0 of
      ((r, e), rn) \<Rightarrow> (asksOf (rn_trace rn), map tc_ID (usesOf (rn_trace rn)), e)) =
   ([(0, [sampleDefinition]), (1, [sampleDefinition]), (2, [])], [lit ''c'', lit ''c''], None)"
  by code_simp


end
