(* ===== verification/Agent_Calls.thy ===== *)
theory Agent_Calls
  imports Agent_Trace "HOL-Library.Sublist"
begin

text \<open>
  Tool calls over a run of the engine: every call of a run is answered in its transcript, and the loop
  detector stops a run exactly when a call came back often enough.
\<close>

section \<open>Calls and their results\<close>

text \<open>The tool calls of a transcript that have an id, and the calls its tool results answer, in order.\<close>

definition callIDs :: "Message list \<Rightarrow> gostr list" where
  "callIDs ms = filter (\<lambda>i. i \<noteq> []) (map pt_ID (ToolCalls ms))"

definition resultIDs :: "Message list \<Rightarrow> gostr list" where
  "resultIDs ms =
     concat (map (\<lambda>m. map pt_ToolCallID (filter (\<lambda>p. pt_Type p = ToolResultPartType) (mg_Parts m))) ms)"

lemma ids_simps [simp]:
  "callIDs [] = []" "callIDs (ms @ ns) = callIDs ms @ callIDs ns" "resultIDs [] = []"
  "resultIDs (ms @ ns) = resultIDs ms @ resultIDs ns"
  by (simp_all add: callIDs_def resultIDs_def ToolCalls_def)

lemma ids_said:
  "callIDs ms = filter (\<lambda>i. i \<noteq> []) (map (\<lambda>(r, p). pt_ID (NormalizePart p)) (filter (\<lambda>(r, p). pt_Type p = ToolCallPartType) (said ms)))"
    (is "_ = ?c (said ms)")
  and ids_said': "resultIDs ms = map (\<lambda>(r, p). pt_ToolCallID p) (filter (\<lambda>(r, p). pt_Type p = ToolResultPartType) (said ms))"
    (is "_ = ?r (said ms)")
proof -
  have t: "(pt_Type p = ToolCallPartType \<and> pt_Type p \<noteq> MediaPartType) = (pt_Type p = ToolCallPartType)"
    "(pt_Type p = ToolResultPartType \<and> pt_Type p \<noteq> MediaPartType) = (pt_Type p = ToolResultPartType)" for p
    by auto
  have 1: "callIDs [m] = ?c (said [m])" "resultIDs [m] = ?r (said [m])" for m
    by (simp_all add: callIDs_def resultIDs_def ToolCalls_def said_def filter_map comp_def t conj_commute cong: conj_cong)
  have c: "?c (xs @ ys) = ?c xs @ ?c ys" and r: "?r (xs @ ys) = ?r xs @ ?r ys" for xs ys by simp_all
  show "callIDs ms = ?c (said ms)"
    by (induction ms rule: rev_induct) (simp, simp only: said_simps(2) ids_simps(2) c 1(1))
  show "resultIDs ms = ?r (said ms)"
    by (induction ms rule: rev_induct) (simp, simp only: said_simps(2) ids_simps(4) r 1(2))
qed

lemma ids_Canonicalize:
  assumes "list_all normalMsg ms"
  shows "callIDs (Canonicalize e ms) = callIDs ms" "resultIDs (Canonicalize e ms) = resultIDs ms"
  by (simp_all only: ids_said ids_said' canonical_turn_keeps_calls NormalizeMessages_fixed [OF assms])

lemma ids_Clone [simp]: "callIDs (CloneMessages ms) = callIDs ms" "resultIDs (CloneMessages ms) = resultIDs ms"
  by (induction ms)
    (auto simp: callIDs_def resultIDs_def ToolCalls_def CloneMessages_def CloneMessage_def CloneParts_def filter_map comp_def)


lemma noResults_Normalize: "resultIDs ms = [] \<Longrightarrow> resultIDs (NormalizeMessages ms) = []"
  by (induction ms) (auto simp: resultIDs_def NormalizeMessages_def NormalizeParts_def filter_empty_conv)

definition pendingIDs :: "ToolCall list \<Rightarrow> gostr list" where
  "pendingIDs calls = filter (\<lambda>i. i \<noteq> []) (map tc_ID calls)"

lemma callIDs_calls: "callIDs ms = pendingIDs (resultToolCalls ms)"
  by (simp add: callIDs_def pendingIDs_def resultToolCalls_def comp_def)

lemma part_types [simp]:
  "TextPartType \<noteq> ReasoningPartType" "ToolCallPartType \<noteq> TextPartType" "ToolCallPartType \<noteq> ReasoningPartType"
  "ToolResultPartType \<noteq> TextPartType" "ToolResultPartType \<noteq> ReasoningPartType"
  "ToolResultPartType \<noteq> ToolCallPartType" "ToolCallPartType \<noteq> ToolResultPartType" "TextPartType \<noteq> ToolCallPartType"
  "TextPartType \<noteq> ToolResultPartType"
  by code_simp+

lemma resultToolCalls_trimmed: "list_all (\<lambda>c. trimSpace (tc_ID c) = tc_ID c) (resultToolCalls ms)"
  by (auto simp: resultToolCalls_def ToolCalls_def list_all_iff NormalizePart_def Let_def part_types)

lemma mediaOnly_Normalize:
  "list_all (\<lambda>p. pt_Type p = MediaPartType) ps \<Longrightarrow> list_all (\<lambda>p. pt_Type p = MediaPartType) (NormalizeParts ps)"
  by (auto simp: NormalizeParts_def list_all_iff)

lemma mediaOnly_attachments:
  assumes "list_all (\<lambda>p. pt_Type p = MediaPartType) (tr_Attachments r)"
  shows "list_all (\<lambda>p. pt_Type p = MediaPartType) (toolResultAttachments r)"
  using mediaOnly_Normalize [OF assms] CloneParts_normal [OF NormalizeParts_normal]
  by (simp add: toolResultAttachments_def)

lemma toolResultMessage_ids:
  assumes "list_all (\<lambda>p. pt_Type p = MediaPartType) (tr_Attachments r)"
  shows "normalMsg (toolResultMessage i r e)" "callIDs [toolResultMessage i r e] = []"
    "trimSpace i = i \<Longrightarrow> resultIDs [toolResultMessage i r e] = filter (\<lambda>i. i \<noteq> []) [i]"
proof -
  let ?as = "NormalizeParts (toolResultAttachments r)"
  have as: "filter (\<lambda>p. pt_Type p = ToolCallPartType) ?as = []" "filter (\<lambda>p. pt_Type p = ToolResultPartType) ?as = []"
    using mediaOnly_Normalize [OF mediaOnly_attachments [OF assms]] by (auto simp: filter_empty_conv list_all_iff)
  have ps: "mg_Parts (toolResultMessage i r e) = NormalizeParts [ToolResultPart i (tr_Output r) e] @ ?as"
    using NormalizeParts_append [of "[ToolResultPart i (tr_Output r) e]" "toolResultAttachments r"]
    by (simp add: toolResultMessage_def plainMessage_def)
  show "normalMsg (toolResultMessage i r e)" by (simp add: toolResultMessage_def normal_plain [OF NormalizeParts_normal])
  show "callIDs [toolResultMessage i r e] = []"
    using as(1) by (auto simp: callIDs_def ToolCalls_def ps NormalizeParts_def ToolResultPart_def filter_empty_conv)
  show "trimSpace i = i \<Longrightarrow> resultIDs [toolResultMessage i r e] = filter (\<lambda>i. i \<noteq> []) [i]"
    using as(2) by (simp add: resultIDs_def ps) (simp add: NormalizeParts_def ToolResultPart_def NormalizePart_def shouldKeepPart_def Let_def)
qed

lemma assistantText_ids [simp]:
  "normalMsg (assistantTextMessage s d)" "callIDs [assistantTextMessage s d] = []" "resultIDs [assistantTextMessage s d] = []"
proof -
  have "NormalizePart (TextPart s d) = TextPart s d" by (simp add: TextPart_def emptyPart_def NormalizePart_def Let_def cloneReplayMap_def)
  then have "trimSpace s \<noteq> [] \<Longrightarrow> normalPart (TextPart s d)"
    by (simp add: normalPart_def shouldKeepPart_def) (simp add: TextPart_def)
  then show "normalMsg (assistantTextMessage s d)"
    by (simp add: assistantTextMessage_def AssistantMessage_def CloneParts_normal normal_plain AssistantMessage_Nil [unfolded AssistantMessage_def])
  show "callIDs [assistantTextMessage s d] = []" "resultIDs [assistantTextMessage s d] = []"
    by (simp_all add: assistantTextMessage_def AssistantMessage_def CloneParts_def callIDs_def resultIDs_def ToolCalls_def
        plainMessage_def TextPart_def)
qed

text \<open>The turn so far: every call answered, but for the listed ones.\<close>

definition openCalls :: "nat \<Rightarrow> gostr list \<Rightarrow> Message list \<Rightarrow> bool" where
  "openCalls start pending ms \<longleftrightarrow>
     start \<le> length ms \<and> list_all normalMsg (drop start ms) \<and>
     callIDs (drop start ms) = resultIDs (drop start ms) @ pending"

lemma openCalls_append:
  assumes "openCalls start pending ms" "list_all normalMsg ns" "callIDs ns = calls" "pending @ calls = resultIDs ns @ pending'"
  shows "openCalls start pending' (ms @ ns)"
  using assms by (auto simp: openCalls_def)

lemma openCalls_text: "openCalls start pending ms \<Longrightarrow> openCalls start pending (ms @ [assistantTextMessage s d])"
  by (erule openCalls_append) simp_all

definition interrupted :: "engine_error option \<Rightarrow> bool" where
  "interrupted e \<longleftrightarrow>
     (case e of
        Some (RunCancelled x) \<Rightarrow> True
      | Some (RunStopped s) \<Rightarrow> se_Reason s = StopReasonToolLoopDetected
      | _ \<Rightarrow> False)"

definition answeredCalls :: "EngineResult \<Rightarrow> engine_error option \<Rightarrow> bool" where
  "answeredCalls r e \<longleftrightarrow>
     (if interrupted e then prefix (resultIDs (rs_Messages r)) (callIDs (rs_Messages r))
      else resultIDs (rs_Messages r) = callIDs (rs_Messages r))"

lemma answered_partial:
  "openCalls start pending ms \<Longrightarrow> pending = [] \<or> interrupted e \<Longrightarrow> answeredCalls (partial start ref turn ms) e"
  by (auto simp: answeredCalls_def partial_def openCalls_def)

lemma answered_stopped:
  "openCalls start pending ms \<Longrightarrow> pending = [] \<or> interrupted e \<Longrightarrow> answeredCalls (stoppedResult x start s ref turn ms) e"
  by (auto simp: answeredCalls_def stoppedResult_def Let_def openCalls_def ids_Canonicalize)

lemma answered_answered:
  "openCalls start [] ms \<Longrightarrow> answered x start final reason ref turn ms = (r, e) \<Longrightarrow> answeredCalls r e"
  by (auto simp: answeredCalls_def answered_def Let_def openCalls_def ids_Canonicalize interrupted_def split: if_splits)

definition toolsAttachMedia :: "'w Engine \<Rightarrow> 'w EngineRequest \<Rightarrow> bool" where
  "toolsAttachMedia eg req \<longleftrightarrow>
     (\<forall>reg call w r w'. requestTools eg req = Some reg \<longrightarrow> RunTool reg call w = (Inr r, w') \<longrightarrow>
        list_all (\<lambda>p. pt_Type p = MediaPartType) (tr_Attachments r))"

lemma runTool_media:
  assumes "toolsAttachMedia eg req" "runTool co eg (requestTools eg req) policy call rn = (Inr r, rn')"
  shows "list_all (\<lambda>p. pt_Type p = MediaPartType) (tr_Attachments r)"
  using assms by (auto simp: runTool_def toolsAttachMedia_def split: option.splits if_splits prod.splits)

lemma runCall_open:
  assumes tools: "toolsAttachMedia eg req" and trimmed: "trimSpace (tc_ID call) = tc_ID call"
    and op: "openCalls start (pendingIDs (call # calls)) (lp_messages lp)"
    and run: "runCall co eg req (requestTools eg req) x start turn ref call lp = (out, lp')"
  shows "case out of None \<Rightarrow> openCalls start (pendingIDs calls) (lp_messages lp') | Some (r, e) \<Rightarrow> answeredCalls r (Some e)"
proof (cases "eg_ctxErr eg (rn_world (lp_run lp))")
  case (Some e)
  with run answered_partial [OF op, of "Some (RunCancelled e)"] show ?thesis by (auto simp: runCall_def interrupted_def)
next
  case None
  let ?ev = "\<lambda>t. (eventOf t)\<lparr>ev_Turn := turn, ev_ModelRef := ref, ev_ToolCall := Some call\<rparr>"
  obtain res rn1 where r: "runTool co eg (requestTools eg req) (er_ToolCallPolicy req) call
      (emitRunEvent (er_Observer req) (?ev RunEventToolStarted) (lp_run lp)) = (res, rn1)" by fastforce
  define tr where "tr = (case res of Inl e \<Rightarrow> outputOnly (lit ''tool error: '' @ e) | Inr x \<Rightarrow> x)"
  define ms where "ms = lp_messages lp @ [toolResultMessage (tc_ID call) tr ((case res of Inl e \<Rightarrow> Some e | Inr x \<Rightarrow> None) \<noteq> None)]"
  have media: "list_all (\<lambda>p. pt_Type p = MediaPartType) (tr_Attachments tr)"
    using runTool_media [OF tools] r by (cases res) (simp_all add: tr_def outputOnly_def)
  have op1: "openCalls start (pendingIDs calls) ms"
    unfolding ms_def by (rule openCalls_append [OF op _ refl])
      (use toolResultMessage_ids [OF media] trimmed in \<open>auto simp: pendingIDs_def\<close>)
  have "(\<exists>e. out = Some (partial start ref turn ms, RunCancelled e)) \<or> out = None \<and> lp_messages lp' = ms \<or>
    (\<exists>s d. out = Some (stoppedResult x start s ref turn (ms @ [assistantTextMessage s []]),
       RunStopped \<lparr>se_Reason = StopReasonToolLoopDetected, se_Detail = d\<rparr>))"
    using run None r unfolding runCall_def Let_def
    by (auto simp: tr_def ms_def simp del: not_None_eq split: option.splits prod.splits if_splits)
  then show ?thesis
    using answered_partial [OF op1] answered_stopped [OF openCalls_text [OF op1]] op1 by (auto simp: interrupted_def)
qed

lemma runCalls_open:
  assumes tools: "toolsAttachMedia eg req" and trimmed: "list_all (\<lambda>c. trimSpace (tc_ID c) = tc_ID c) calls"
    and op: "openCalls start (pendingIDs calls) (lp_messages lp)"
    and run: "runCalls co eg req (requestTools eg req) x start turn ref calls lp = (out, lp')"
  shows "case out of None \<Rightarrow> openCalls start [] (lp_messages lp') | Some (r, e) \<Rightarrow> answeredCalls r (Some e)"
  using trimmed op run
proof (induction calls arbitrary: lp)
  case Nil
  then show ?case by (auto simp: pendingIDs_def)
next
  case (Cons c cs)
  obtain o1 lp1 where c: "runCall co eg req (requestTools eg req) x start turn ref c lp = (o1, lp1)" by fastforce
  from Cons.prems(1) have t: "trimSpace (tc_ID c) = tc_ID c" "list_all (\<lambda>c. trimSpace (tc_ID c) = tc_ID c) cs" by simp_all
  note one = runCall_open [OF tools t(1) Cons.prems(2) c]
  show ?case
  proof (cases o1)
    case None
    with Cons.prems(3) c one Cons.IH [OF t(2)] show ?thesis by simp
  next
    case (Some stop)
    with Cons.prems(3) c one show ?thesis by auto
  qed
qed

text \<open>A model's answer holds calls, never results.\<close>

lemma results_open:
  assumes "openCalls start [] ms" "resultIDs rm = []" "list_all normalMsg rm"
  shows "openCalls start (pendingIDs (resultToolCalls rm)) (ms @ rm)"
  by (rule openCalls_append [OF assms(1,3) refl]) (simp add: assms(2) callIDs_calls)

lemma refusals_open:
  assumes "openCalls start (pendingIDs calls) ms" "list_all (\<lambda>c. trimSpace (tc_ID c) = tc_ID c) calls"
  shows "openCalls start [] (ms @ map (\<lambda>call. toolResultMessage (tc_ID call) (outputOnly s) True) calls)"
  using assms
proof (induction calls arbitrary: ms)
  case (Cons c cs)
  have media: "list_all (\<lambda>p. pt_Type p = MediaPartType) (tr_Attachments (outputOnly s))" by (simp add: outputOnly_def)
  have "openCalls start (pendingIDs cs) (ms @ [toolResultMessage (tc_ID c) (outputOnly s) True])"
    by (rule openCalls_append [OF Cons.prems(1) _ refl])
      (use toolResultMessage_ids [OF media] Cons.prems(2) in \<open>auto simp: pendingIDs_def\<close>)
  from Cons.IH [OF this] Cons.prems(2) show ?case by simp
qed (simp add: pendingIDs_def)

lemma clientResultsD: "clientResults eg R \<Longrightarrow> eg_complete eg ref ms tools w = ((ds, Inr r), w') \<Longrightarrow> R r"
  unfolding clientResults_def by blast

lemma engineTurn_open:
  assumes tools: "toolsAttachMedia eg req" and client: "clientResults eg (\<lambda>r. resultIDs (cr_Messages r) = [])"
    and op: "openCalls start [] (lp_messages lp)"
    and run: "engineTurn co eg req (requestTools eg req) toolDefs x start turn lp = (te, lp')"
  shows "case te of Return r e \<Rightarrow> answeredCalls r e | _ \<Rightarrow> openCalls start [] (lp_messages lp')"
proof -
  obtain ms rts final tail budget where t: "turnRequest req toolDefs lp = (ms, rts, final, tail, budget)" by (metis prod.exhaust)
  obtain ref out rn1 where c: "completeWithObserver co eg req ms rts (er_RequireToolCalling req \<and> rts \<noteq> []) turn
      (requestStart req start lp) tail ((lp_run lp)\<lparr>rn_budget := budget\<rparr>) = ((ref, out), rn1)" by (metis prod.exhaust)
  define lp1 where "lp1 = lp\<lparr>lp_run := rn1, lp_lastModelRef := ref, lp_lastTurn := turn\<rparr>"
  have m1: "lp_messages lp1 = lp_messages lp" by (simp add: lp1_def)
  note eq = run [unfolded engineTurn_def Let_def t prod.case c, folded lp1_def]
  show ?thesis
  proof (cases out)
    case (Inl e)
    with eq answered_partial [OF op, of "Some (ModelComplete e)"] show ?thesis by auto
  next
    case (Inr r)
    define rm where "rm = NormalizeMessages (CloneMessages (cr_Messages r))"
    define calls where "calls = resultToolCalls rm"
    from completeWithObserver_run [OF modelsKeep_True c] Inr
    obtain ref' ms' ds w w' where "eg_complete eg ref' ms' rts w = ((ds, Inr r), w')"
      by (auto simp: askedRun_def)
    from clientResultsD [OF client this] have "resultIDs rm = []" by (simp add: rm_def noResults_Normalize del: NormalizeMessages_clone)
    from results_open [OF op this] have op1: "openCalls start (pendingIDs calls) (lp_messages lp @ rm)"
      by (simp add: rm_def calls_def)
    have trimmed: "list_all (\<lambda>c. trimSpace (tc_ID c) = tc_ID c) calls" unfolding calls_def by (rule resultToolCalls_trimmed)
    note eq' = eq [unfolded Inr sum.case, folded rm_def, folded calls_def]
    let ?reply = "finalReply rm x"
    consider (final) "final \<and> (calls \<noteq> [] \<or> noAnswer ?reply)"
      | (retry) "\<not> (final \<and> (calls \<noteq> [] \<or> noAnswer ?reply))" "calls = [] \<and> noAnswer ?reply \<and> lp_emptyRetries lp < maxEmptyAssistantRetries"
      | (answer) "\<not> (final \<and> (calls \<noteq> [] \<or> noAnswer ?reply))" "calls = []" "\<not> (noAnswer ?reply \<and> lp_emptyRetries lp < maxEmptyAssistantRetries)"
      | (calls) "\<not> (final \<and> (calls \<noteq> [] \<or> noAnswer ?reply))" "calls \<noteq> []"
      by blast
    then show ?thesis
    proof cases
      case final
      with eq' have "te = LeaveLoop" "lp_messages lp' = (lp_messages lp @ rm) @ map (\<lambda>call. toolResultMessage (tc_ID call)
          (outputOnly (lit ''Tool call not executed: tools are disabled on the final turn.'')) True) calls" by auto
      with refusals_open [OF op1 trimmed] show ?thesis by simp
    next
      case retry
      with eq' m1 op show ?thesis by auto
    next
      case answer
      with eq' op1 answered_answered show ?thesis by (auto simp: pendingIDs_def split: prod.splits)
    next
      case calls
      define lp2 where "lp2 = lp1\<lparr>lp_emptyRetries := 0, lp_messages := lp_messages lp @ rm\<rparr>"
      obtain o2 lp3 where rc: "runCalls co eg req (requestTools eg req) x start turn ref calls lp2 = (o2, lp3)" by fastforce
      have "openCalls start (pendingIDs calls) (lp_messages lp2)" using op1 by (simp add: lp2_def)
      note runs = runCalls_open [OF tools trimmed this rc]
      have "(case o2 of Some (r, e) \<Rightarrow> (Return r (Some e), lp3) | None \<Rightarrow> (NextTurn, lp3)) = (te, lp')"
        using eq' calls rc by (auto simp: lp2_def split: option.splits)
      with runs show ?thesis by (auto split: option.splits)
    qed
  qed
qed

lemma leaveLoop_open:
  assumes "openCalls start [] (lp_messages lp)" "leaveLoop eg x start lp = ((r, e), lp')"
  shows "answeredCalls r e"
proof -
  have "\<exists>s. r = stoppedResult x start s (lp_lastModelRef lp) (lp_lastTurn lp) (lp_messages lp @ [assistantTextMessage s []])"
    using assms(2) unfolding leaveLoop_def Let_def by (auto split: prod.splits)
  with answered_stopped [OF openCalls_text [OF assms(1)]] show ?thesis by blast
qed

lemma runTurns_open:
  assumes tools: "toolsAttachMedia eg req" and client: "clientResults eg (\<lambda>r. resultIDs (cr_Messages r) = [])"
    and op: "openCalls start [] (lp_messages lp)"
    and run: "runTurns co eg req (requestTools eg req) toolDefs x start left turn lp = ((r, e), lp')"
  shows "answeredCalls r e"
  using op run
proof (induction left arbitrary: turn lp)
  case 0
  then show ?case using leaveLoop_open by auto
next
  case (Suc left)
  show ?case
  proof (cases "case rn_budget (lp_run lp) of None \<Rightarrow> False | Some b \<Rightarrow> Remaining b = 0")
    case True
    with Suc.prems leaveLoop_open show ?thesis by auto
  next
    case False
    obtain te lp1 where t: "engineTurn co eg req (requestTools eg req) toolDefs x start turn lp = (te, lp1)" by fastforce
    note o = engineTurn_open [OF tools client Suc.prems(1) t]
    from Suc.prems(2) False t have eq: "(case te of
         NextTurn \<Rightarrow> runTurns co eg req (requestTools eg req) toolDefs x start left (turn + 1) lp1
       | LeaveLoop \<Rightarrow> leaveLoop eg x start lp1 | Return r e \<Rightarrow> ((r, e), lp1)) = ((r, e), lp')"
      by (simp split: turn_end.splits)
    show ?thesis
    proof (cases te)
      case NextTurn
      with o eq Suc.IH show ?thesis by auto
    next
      case LeaveLoop
      with o eq leaveLoop_open show ?thesis by auto
    next
      case (Return r1 e1)
      with o eq show ?thesis by auto
    qed
  qed
qed

text \<open>
  C7: in the messages a run returns, every tool call that has an id is answered, in order, by
  exactly one tool result, on every way out of the engine: an answer, the turn limit, an exhausted
  budget, the refusals of the final turn, a failed model. Only a run that was cancelled or stopped
  for looping can leave calls open, and then it is the last ones. The model client must not return
  tool results, and tools must attach media only.
\<close>

theorem calls_are_answered:
  assumes "clientResults eg (\<lambda>r. resultIDs (cr_Messages r) = [])" "toolsAttachMedia eg req"
    and "EngineRun co eg req budget w = ((r, e), rn)"
  shows "if interrupted e then prefix (resultIDs (rs_Messages r)) (callIDs (rs_Messages r))
     else resultIDs (rs_Messages r) = callIDs (rs_Messages r)"
proof -
  define d where "d = (case requestTools eg req of None \<Rightarrow> [] | Some r \<Rightarrow> Definitions r)"
  define x where "x = NewExtractor (deliverToolNames (requestTools eg req))"
  from assms(3) obtain lp where run: "runTurns co eg req (requestTools eg req) d x (length (er_Messages req)) (eg_maxTurns eg) 0
      (startState req budget w) = ((r, e), lp)"
    by (auto simp: EngineRun_def Let_def d_def x_def split: prod.splits)
  have "openCalls (length (er_Messages req)) [] (lp_messages (startState req budget w))"
    by (simp add: openCalls_def startState_def NormalizeMessages_def CloneMessages_def)
  from runTurns_open [OF assms(2,1) this run] show ?thesis by (simp add: answeredCalls_def)
qed

lemma sampleEngine_client: "clientResults sampleEngine (\<lambda>r. resultIDs (cr_Messages r) = [])"
  by (simp add: clientResults_def sampleEngine_def sampleModel_def sampleAnswer_def)
    (simp add: resultIDs_def AssistantMessage_def plainMessage_def CloneParts_def TextPart_def probeCall_def ToolCallPart_def)

lemma sampleEngine_tools: "toolsAttachMedia sampleEngine sampleRequest"
proof -
  have "requestTools sampleEngine sampleRequest = Some sampleRegistry"
    by (simp add: requestTools_def sampleEngine_def sampleRequest_def filterRegistry_def normalizeAllowedTools_def)
  moreover have "tr_Attachments r = []" if "RunTool sampleRegistry call w = (Inr r, w')" for call w r w'
    using that by (auto simp: sampleRegistry_def Let_def split: if_splits)
  ultimately show ?thesis by (simp add: toolsAttachMedia_def)
qed

lemma sampleRun_calls:
  "(case EngineRun sampleCodecs sampleEngine sampleRequest (Some (NewTurnBudget 2)) 0 of
      ((r, e), rn) \<Rightarrow> (callIDs (rs_Messages r), e)) = ([lit ''c''], None)"
  by code_simp

theorem calls_are_answered_witness:
  "\<exists>r rn. EngineRun sampleCodecs sampleEngine sampleRequest (Some (NewTurnBudget 2)) 0 = ((r, None), rn) \<and>
     callIDs (rs_Messages r) = [lit ''c''] \<and> resultIDs (rs_Messages r) = [lit ''c'']"
proof -
  obtain r e rn where run: "EngineRun sampleCodecs sampleEngine sampleRequest (Some (NewTurnBudget 2)) 0 = ((r, e), rn)"
    by (metis prod.exhaust)
  with sampleRun_calls have c: "callIDs (rs_Messages r) = [lit ''c'']" "e = None" by simp_all
  from calls_are_answered [OF sampleEngine_client sampleEngine_tools run] c have "resultIDs (rs_Messages r) = [lit ''c'']"
    by (simp add: interrupted_def)
  with run c show ?thesis by simp
qed

section \<open>The loop guard\<close>

definition recordAll :: "codecs \<Rightarrow> (ToolCall \<times> gostr) list \<Rightarrow> toolLoopDetector" where
  "recordAll co xs = foldl (\<lambda>d (call, output). snd (RecordCall co d call output)) newToolLoopDetector xs"

definition recordOf :: "codecs \<Rightarrow> ToolCall \<times> gostr \<Rightarrow> toolLoopRecord" where
  "recordOf co x = \<lparr>lr_signature = callSignature co (fst x), lr_outputHash = co_sha256 co (trimSpace (snd x))\<rparr>"

lemma RecordCall_fields:
  "ld_historySize (snd (RecordCall co d call output)) = ld_historySize d"
  "ld_criticalThreshold (snd (RecordCall co d call output)) = ld_criticalThreshold d"
  "ld_history (snd (RecordCall co d call output)) =
     drop (Suc (length (ld_history d)) - ld_historySize d) (ld_history d @ [recordOf co (call, output)])"
  by (simp_all add: RecordCall_def Let_def recordOf_def)

lemma recordAll_snoc: "recordAll co (xs @ [x]) = snd (RecordCall co (recordAll co xs) (fst x) (snd x))"
  by (simp add: recordAll_def split_beta)

text \<open>The detector remembers the last thirty calls.\<close>

lemma recordAll_history:
  "ld_historySize (recordAll co xs) = 30 \<and> ld_criticalThreshold (recordAll co xs) = 20 \<and>
   ld_history (recordAll co xs) = drop (length xs - 30) (map (recordOf co) xs)"
proof (induction xs rule: rev_induct)
  case Nil
  then show ?case
    by (simp add: recordAll_def newToolLoopDetector_def defaultToolLoopHistorySize_def defaultToolLoopCriticalThreshold_def
        defaultToolLoopWarningThreshold_def)
next
  case (snoc x xs)
  moreover have "\<not> length xs \<le> 29 \<Longrightarrow> Suc (length xs - 30) = length xs - 29" by simp
  ultimately show ?case
    by (cases "length xs \<le> 29") (auto simp: recordAll_snoc RecordCall_fields simp del: diff_Suc_eq_diff_pred)
qed

lemma takeWhile_le_filter: "length (takeWhile (\<lambda>x. P x \<and> Q x) (rev xs)) \<le> length (filter P xs)"
proof -
  have "length (takeWhile (\<lambda>x. P x \<and> Q x) ys) \<le> length (filter P ys)" for ys
    by (induction ys) auto
  from this [of "rev xs"] show ?thesis by (simp add: rev_filter [symmetric])
qed

text \<open>
  C11: the loop guard stops a run exactly when the call just made, by name and normalized arguments,
  occurs at least twenty times among the last thirty calls, itself included; what the calls
  returned plays no role, since a call that made no progress twenty times was repeated twenty times.
\<close>

theorem loop_guard_exact:
  "la_Critical (fst (RecordCall co (recordAll co xs) call output)) =
   (20 \<le> length (filter (\<lambda>x. callSignature co (fst x) = callSignature co call)
           (drop (length xs - 29) (xs @ [(call, output)]))))"
proof -
  let ?d = "recordAll co xs" and ?sig = "\<lambda>r. lr_signature r = callSignature co call"
  let ?hash = "\<lambda>r. lr_outputHash r = co_sha256 co (trimSpace output)"
  let ?h = "ld_history (snd (RecordCall co ?d call output))"
  have snoc: "recordAll co (xs @ [(call, output)]) = snd (RecordCall co ?d call output)" by (simp add: recordAll_snoc)
  have h: "?h = map (recordOf co) (drop (length xs - 29) (xs @ [(call, output)]))"
    using recordAll_history [of co "xs @ [(call, output)]"] unfolding snoc
    by (simp add: drop_map [symmetric] del: drop_append)
  have "la_Critical (fst (RecordCall co ?d call output)) =
      (20 \<le> length (filter ?sig ?h) \<or> 20 \<le> length (takeWhile (\<lambda>r. ?sig r \<and> ?hash r) (rev ?h)))"
    using recordAll_history [of co xs] by (simp add: RecordCall_def Let_def)
  also have "\<dots> = (20 \<le> length (filter ?sig ?h))"
    using takeWhile_le_filter [of ?sig ?hash ?h] by linarith
  also have "\<dots> = (20 \<le> length (filter (\<lambda>x. callSignature co (fst x) = callSignature co call)
           (drop (length xs - 29) (xs @ [(call, output)]))))"
    unfolding h by (simp add: filter_map comp_def recordOf_def del: drop_append)
  finally show ?thesis .
qed

end
