(* ===== verification/Text_Lines.thy ===== *)
theory Text_Lines
  imports Go_Prelude
begin

text \<open>
  Text files of \<open>systems/agent/internal/fileops\<close>: decoding, line endings, logical lines, the paging
  of \<open>ReadFile\<close>, the search and replacement of \<open>EditFile\<close> and the compact diff both edits
  report.  A file's bytes are the text they encode when they are valid UTF-8 and the raw bytes
  otherwise; \<open>len\<close> of a string is the number of bytes of its encoding.  Go's \<open>int\<close> is \<open>int\<close>: every
  number here is bounded by the size of a file.
\<close>

section \<open>Results and errors\<close>

datatype rawData = Utf8 gostr | OtherBytes "int list"

datatype text_error =
    ContainsNUL | NotUTF8 | OffsetTooSmall | LimitTooSmall | BeyondEnd int | LineTooLong
  | OldTextNotFound | OldTextRepeated nat | NoChange

record ReadResult =
  rr_Content :: gostr
  rr_Truncated :: bool
  rr_NextOffsetLines :: int
  rr_TotalLines :: int

record textFile =
  tf_raw :: rawData
  tf_bom :: gostr
  tf_text :: gostr
  tf_lineEnding :: gostr
  tf_wasReadable :: bool

definition utf8Len :: "rune \<Rightarrow> nat" where
  "utf8Len r = (if r < 128 then 1 else if r < 2048 then 2 else if r < 65536 then 3 else 4)"

definition byteLen :: "gostr \<Rightarrow> nat" where
  "byteLen s = sum_list (map utf8Len s)"

definition maxReadBytes :: nat where
  "maxReadBytes = 16 * 1024"

definition maxReadLimitLines :: int where
  "maxReadLimitLines = 400"

definition diffContextLines :: nat where
  "diffContextLines = 3"

section \<open>Line endings\<close>

definition LF :: gostr where
  "LF = [10]"

definition CR :: gostr where
  "CR = [13]"

definition CRLF :: gostr where
  "CRLF = [13, 10]"

definition detectLineEnding :: "gostr \<Rightarrow> gostr" where
  "detectLineEnding text = (if containsStr text CRLF then CRLF else LF)"

definition normalizeLineEndings :: "gostr \<Rightarrow> gostr" where
  "normalizeLineEndings text = replaceAll (replaceAll text CRLF LF) CR LF"

definition restoreLineEndings :: "gostr \<Rightarrow> gostr \<Rightarrow> gostr" where
  "restoreLineEndings text lineEnding =
     (if lineEnding = CRLF then replaceAll text LF CRLF else text)"

definition splitLogicalLines :: "gostr \<Rightarrow> gostr list" where
  "splitLogicalLines text =
     (if text = [] then []
      else let lines = splitRune 10 text
           in if lines \<noteq> [] \<and> last lines = [] then butlast lines else lines)"

definition utf8BOM :: gostr where
  "utf8BOM = [65279]"

definition decodeTextFile :: "rawData \<Rightarrow> text_error + textFile" where
  "decodeTextFile raw =
     (case raw of
        OtherBytes bs \<Rightarrow> Inl (if 0 \<in> set bs then ContainsNUL else NotUTF8)
      | Utf8 s \<Rightarrow>
          (if 0 \<in> set s then Inl ContainsNUL
           else Inr (if hasPrefix s utf8BOM
                     then \<lparr>tf_raw = raw, tf_bom = utf8BOM, tf_text = drop (length utf8BOM) s,
                           tf_lineEnding = detectLineEnding s, tf_wasReadable = True\<rparr>
                     else \<lparr>tf_raw = raw, tf_bom = [], tf_text = s,
                           tf_lineEnding = detectLineEnding s, tf_wasReadable = True\<rparr>)))"

section \<open>Paging\<close>

text \<open>
  The loop of \<open>paginateText\<close> over the lines from index \<open>i\<close> on: the lines of the page, and the
  next offset when the page was cut by its size.
\<close>

fun pageLoop ::
  "int \<Rightarrow> nat \<Rightarrow> gostr list \<Rightarrow> gostr list \<Rightarrow> nat \<Rightarrow> text_error + gostr list \<times> int \<times> bool"
where
  "pageLoop limit i [] out used = Inr (out, 0, False)"
| "pageLoop limit i (line # rest) out used =
     (if \<not> int (length out) < limit then Inr (out, 0, False)
      else let lineBytes = byteLen line + (if out \<noteq> [] then 1 else 0)
           in if maxReadBytes < used + lineBytes
              then (if out = [] then Inl LineTooLong else Inr (out, int i + 1, True))
              else pageLoop limit (Suc i) rest (out @ [line]) (used + lineBytes))"

definition paginateText :: "gostr \<Rightarrow> int \<Rightarrow> int \<Rightarrow> text_error + ReadResult" where
  "paginateText text offsetLines limitLines =
     (let lines = splitLogicalLines (normalizeLineEndings text);
          totalLines = int (length lines);
          start = offsetLines - 1
      in if totalLines = 0
         then (if offsetLines \<noteq> 1 then Inl (BeyondEnd offsetLines)
               else Inr \<lparr>rr_Content = [], rr_Truncated = False, rr_NextOffsetLines = 0, rr_TotalLines = 0\<rparr>)
         else if totalLines \<le> start then Inl (BeyondEnd offsetLines)
         else case pageLoop limitLines (nat start) (drop (nat start) lines) [] 0 of
                Inl e \<Rightarrow> Inl e
              | Inr (out, nextOffset, full) \<Rightarrow>
                  (let more = \<not> full \<and> start + int (length out) < totalLines;
                       truncated = full \<or> more
                   in Inr \<lparr>rr_Content = joinStr LF out, rr_Truncated = truncated,
                           rr_NextOffsetLines =
                             (if \<not> truncated then 0
                              else if more then start + int (length out) + 1 else nextOffset),
                           rr_TotalLines = totalLines\<rparr>))"

text \<open>The defaults and bounds \<open>ReadFile\<close> applies to the caller's offset and limit.\<close>

definition readPage :: "gostr \<Rightarrow> int \<Rightarrow> int \<Rightarrow> text_error + ReadResult" where
  "readPage text offsetLines limitLines =
     (let offset = (if offsetLines = 0 then 1 else offsetLines);
          limit = (if limitLines = 0 then maxReadLimitLines else limitLines)
      in if offset < 1 then Inl OffsetTooSmall
         else if limit < 1 then Inl LimitTooSmall
         else paginateText text offset (min limit maxReadLimitLines))"

section \<open>Search and replacement\<close>

function countNonEmpty :: "gostr \<Rightarrow> gostr \<Rightarrow> nat" where
  "countNonEmpty [] sub = 0"
| "countNonEmpty (r # s) sub =
     (if sub \<noteq> [] \<and> hasPrefix (r # s) sub then Suc (countNonEmpty (drop (length sub) (r # s)) sub)
      else countNonEmpty s sub)"
  by pat_completeness auto
termination
  by (relation "measure (\<lambda>(s, sub). length s)") auto

declare countNonEmpty.simps [simp del]

definition countStr :: "gostr \<Rightarrow> gostr \<Rightarrow> nat" where
  "countStr s sub = (if sub = [] then Suc (length s) else countNonEmpty s sub)"

fun replaceFirst :: "gostr \<Rightarrow> gostr \<Rightarrow> gostr \<Rightarrow> gostr" where
  "replaceFirst [] old new = (if old = [] then new else [])"
| "replaceFirst (r # s) old new =
     (if hasPrefix (r # s) old then new @ drop (length old) (r # s) else r # replaceFirst s old new)"

text \<open>The part of \<open>EditFile\<close> between reading and writing: the file before and after, normalized.\<close>

definition editText :: "textFile \<Rightarrow> gostr \<Rightarrow> gostr \<Rightarrow> text_error + gostr \<times> gostr" where
  "editText tf oldText newText =
     (let normalizedOld = normalizeLineEndings oldText;
          normalizedNew = normalizeLineEndings newText;
          normalizedContent = normalizeLineEndings (tf_text tf);
          occurrences = countStr normalizedContent normalizedOld;
          updatedNormalized = replaceFirst normalizedContent normalizedOld normalizedNew
      in if occurrences = 0 then Inl OldTextNotFound
         else if 1 < occurrences then Inl (OldTextRepeated occurrences)
         else if updatedNormalized = normalizedContent then Inl NoChange
         else Inr (normalizedContent, updatedNormalized))"

definition finalRaw :: "textFile \<Rightarrow> gostr \<Rightarrow> rawData" where
  "finalRaw tf updatedNormalized =
     Utf8 (tf_bom tf @ restoreLineEndings updatedNormalized (tf_lineEnding tf))"

section \<open>The compact diff\<close>

fun commonPrefix :: "gostr list \<Rightarrow> gostr list \<Rightarrow> nat" where
  "commonPrefix (x # xs) (y # ys) = (if x = y then Suc (commonPrefix xs ys) else 0)"
| "commonPrefix _ _ = 0"

fun suffixLoop :: "gostr list \<Rightarrow> gostr list \<Rightarrow> nat \<Rightarrow> nat \<Rightarrow> nat \<Rightarrow> nat \<times> nat" where
  "suffixLoop oldLines newLines prefix (Suc i) (Suc j) =
     (if prefix < Suc i \<and> prefix < Suc j \<and> oldLines ! i = newLines ! j
      then suffixLoop oldLines newLines prefix i j else (Suc i, Suc j))"
| "suffixLoop oldLines newLines prefix i j = (i, j)"

abbreviation slice :: "'a list \<Rightarrow> nat \<Rightarrow> nat \<Rightarrow> 'a list" where
  "slice xs a b \<equiv> take (b - a) (drop a xs)"

definition compactDiff :: "gostr \<Rightarrow> gostr \<Rightarrow> gostr \<times> nat" where
  "compactDiff oldText newText =
     (let oldLines = splitLogicalLines oldText;
          newLines = splitLogicalLines newText;
          prefix = commonPrefix oldLines newLines;
          (oldSuffix, newSuffix) = suffixLoop oldLines newLines prefix (length oldLines) (length newLines);
          firstChangedLine = (if length oldLines = length newLines \<and> prefix = length oldLines then 0
                              else prefix + 1);
          contextStart = prefix - diffContextLines;
          contextEndOld = min (length oldLines) (oldSuffix + diffContextLines);
          contextEndNew = min (length newLines) (newSuffix + diffContextLines);
          out = map (\<lambda>l. lit '' '' @ l) (slice oldLines contextStart prefix) @
                map (\<lambda>l. lit ''-'' @ l) (slice oldLines prefix oldSuffix) @
                map (\<lambda>l. lit ''+'' @ l) (slice newLines prefix newSuffix) @
                map (\<lambda>l. lit '' '' @ l) (slice newLines newSuffix contextEndNew)
      in (joinStr LF (if out = [] \<and> contextStart < contextEndOld
                      then map (\<lambda>l. lit '' '' @ l) (slice oldLines contextStart contextEndOld)
                      else out), firstChangedLine))"

section \<open>Line endings are one rewriting\<close>

fun normal :: "gostr \<Rightarrow> gostr" where
  "normal [] = []"
| "normal (r # s) =
     (if r \<noteq> 13 then r # normal s
      else case s of c # t \<Rightarrow> if c = 10 then 10 # normal t else 10 # normal s | [] \<Rightarrow> [10])"

fun crlfOnly :: "gostr \<Rightarrow> bool" where
  "crlfOnly [] \<longleftrightarrow> True"
| "crlfOnly (r # s) \<longleftrightarrow>
     (if r = 13 then (case s of c # t \<Rightarrow> c = 10 \<and> crlfOnly t | [] \<Rightarrow> False) else r \<noteq> 10 \<and> crlfOnly s)"

definition uniformEndings :: "gostr \<Rightarrow> bool" where
  "uniformEndings s \<longleftrightarrow> 13 \<notin> set s \<or> crlfOnly s"

lemmas replace_eval = replaceNonEmpty.simps hasPrefix_def LF_def CR_def CRLF_def

lemma replaceNonEmpty_single:
  "replaceNonEmpty s [c] new = concat (map (\<lambda>r. if r = c then new else [r]) s)"
  by (induction s) (auto simp: replaceNonEmpty.simps hasPrefix_def)

lemma normalize_normal: "normalizeLineEndings s = normal s"
proof -
  have "concat (map (\<lambda>r. if r = 13 then LF else [r]) (replaceNonEmpty s CRLF LF)) = normal s"
  proof (induction s rule: normal.induct)
    case (2 r s)
    then show ?case by (cases s) (auto simp: replace_eval)
  qed (simp add: replace_eval)
  then show ?thesis
    by (simp add: normalizeLineEndings_def replaceAll_def CR_def replaceNonEmpty_single) (simp add: CRLF_def)
qed

lemma normal_no_CR: "13 \<notin> set (normal s)"
  by (induction s rule: normal.induct) (auto split: list.splits)

lemma normal_id: "13 \<notin> set s \<Longrightarrow> normal s = s"
  by (induction s) auto

lemma normalize_idem [simp]: "normalizeLineEndings (normalizeLineEndings s) = normalizeLineEndings s"
  by (simp add: normalize_normal normal_id normal_no_CR)

lemma normal_Nil_iff: "normal s = [] \<longleftrightarrow> s = []"
  by (cases s) (auto split: list.splits)

lemma restore_CRLF: "restoreLineEndings s CRLF = concat (map (\<lambda>r. if r = 10 then CRLF else [r]) s)"
  by (simp add: restoreLineEndings_def replaceAll_def LF_def replaceNonEmpty_single)

lemma restore_LF [simp]: "restoreLineEndings s LF = s"
  by (simp add: restoreLineEndings_def LF_def CRLF_def)

lemma restore_crlfOnly: "13 \<notin> set s \<Longrightarrow> crlfOnly (restoreLineEndings s CRLF)"
  unfolding restore_CRLF by (induction s) (auto simp: CRLF_def)

lemma restore_normal_crlf: "crlfOnly s \<Longrightarrow> restoreLineEndings (normal s) CRLF = s"
  unfolding restore_CRLF
proof (induction s rule: crlfOnly.induct)
  case (2 r s)
  then show ?case by (cases s) (auto simp: CRLF_def split: if_splits)
qed simp

lemma crlfOnly_contains: "crlfOnly s \<Longrightarrow> 13 \<in> set s \<Longrightarrow> containsStr s CRLF"
proof (induction s rule: crlfOnly.induct)
  case (2 r s)
  then show ?case by (cases s) (auto simp: CRLF_def hasPrefix_def split: if_splits)
qed simp

lemma restored_normal: "restoreLineEndings (normal s) CRLF = s \<longleftrightarrow> crlfOnly s"
  by (metis restore_crlfOnly normal_no_CR restore_normal_crlf)

text \<open>Restoring works rune by rune, and gives a text with uniform endings back.\<close>

lemma restore_append:
  "restoreLineEndings (s @ t) e = restoreLineEndings s e @ restoreLineEndings t e"
  by (simp add: restoreLineEndings_def replaceAll_def LF_def replaceNonEmpty_single)

lemma contains_CRLF: "containsStr s CRLF \<Longrightarrow> 13 \<in> set s"
  by (induction s) (auto simp: CRLF_def hasPrefix_def)

lemma restore_uniform:
  assumes "uniformEndings s"
  shows "restoreLineEndings (normalizeLineEndings s) (detectLineEnding s) = s"
proof (cases "13 \<in> set s")
  case True
  with assms have "crlfOnly s" by (simp add: uniformEndings_def)
  with True show ?thesis by (simp add: detectLineEnding_def crlfOnly_contains normalize_normal restore_normal_crlf)
next
  case False
  then show ?thesis using contains_CRLF by (auto simp: detectLineEnding_def normalize_normal normal_id)
qed

text \<open>A decoded file is its byte order mark and its text; the mark does not count for the line ending.\<close>

lemma decodeTextFile_parts:
  assumes "decodeTextFile raw = Inr tf"
  shows "raw = Utf8 (tf_bom tf @ tf_text tf) \<and> tf_lineEnding tf = detectLineEnding (tf_text tf)"
proof -
  have "detectLineEnding (utf8BOM @ s) = detectLineEnding s" for s
    by (simp add: detectLineEnding_def utf8BOM_def CRLF_def hasPrefix_def)
  then show ?thesis
    using assms by (auto simp: decodeTextFile_def split: rawData.splits if_splits elim!: hasPrefixE)
qed

text \<open>
  C33: writing back an unedited text keeps every byte exactly when the file has only bare line
  feeds or only carriage return line feed pairs: line endings are preserved by an edit for such
  files and rewritten, all of them, for every other.
\<close>

theorem line_endings_preserved_iff:
  "restoreLineEndings (normalizeLineEndings s) (detectLineEnding s) = s \<longleftrightarrow> uniformEndings s"
proof (cases "containsStr s CRLF")
  case True
  then have "13 \<in> set s"
    by (induction s) (auto simp: CRLF_def hasPrefix_def)
  with True show ?thesis
    by (simp add: detectLineEnding_def normalize_normal restored_normal uniformEndings_def)
next
  case False
  then have "\<not> (crlfOnly s \<and> 13 \<in> set s)" using crlfOnly_contains by blast
  with False show ?thesis
    by (simp add: detectLineEnding_def normalize_normal uniformEndings_def) (metis normal_id normal_no_CR)
qed

section \<open>Logical lines\<close>

lemma joinStr_Cons: "joinStr sep (w # ws) = w @ (if ws = [] then [] else sep @ joinStr sep ws)"
  by (cases ws) auto

lemma joinStr_append:
  "xs \<noteq> [] \<Longrightarrow> ys \<noteq> [] \<Longrightarrow> joinStr sep (xs @ ys) = joinStr sep xs @ sep @ joinStr sep ys"
  by (induction xs) (auto simp: joinStr_Cons)

lemma joinStr_snoc: "joinStr sep (xs @ [y]) = joinStr sep xs @ (if xs = [] then [] else sep) @ y"
  by (cases "xs = []") (auto simp: joinStr_append)

lemma splitRune_joinStr:
  "ws \<noteq> [] \<Longrightarrow> \<forall>w \<in> set ws. c \<notin> set w \<Longrightarrow> splitRune c (joinStr [c] ws) = ws"
proof (induction ws)
  case (Cons w ws)
  then show ?case
    by (cases "ws = []") (auto simp: joinStr_Cons splitRune_none splitRune_append [of c w, simplified])
qed simp

text \<open>A text is its logical lines joined, and its trailing newline.\<close>

definition trailing :: "gostr \<Rightarrow> gostr" where
  "trailing text = (if text \<noteq> [] \<and> last text = 10 then LF else [])"

lemma splitRune_single_Nil: "splitRune c s = [[]] \<longleftrightarrow> s = []"
  using splitRune_join [of c s] by auto

lemma splitRune_last: "last (splitRune c s) = [] \<longleftrightarrow> s = [] \<or> last s = c"
proof (induction s)
  case (Cons r s)
  obtain w ws where w: "splitRune c s = w # ws" by (cases "splitRune c s") auto
  show ?case
  proof (cases "s = []")
    case False
    with w have "ws = [] \<Longrightarrow> w \<noteq> []" using splitRune_single_Nil [of c s] by auto
    with Cons w False show ?thesis by (cases ws) auto
  qed simp
qed simp

lemma splitLogicalLines_join: "joinStr LF (splitLogicalLines text) @ trailing text = text"
proof (cases "text = []")
  case False
  let ?l = "splitRune 10 text"
  have j: "joinStr LF ?l = text" using splitRune_join [of 10 "text"] by (simp add: LF_def)
  show ?thesis
  proof (cases "last ?l = []")
    case True
    then have "joinStr LF ?l = joinStr LF (butlast ?l) @ (if butlast ?l = [] then [] else LF)"
      using joinStr_snoc [of LF "butlast ?l" "[]"] by (metis append_Nil2 append_butlast_last_id splitRune_ne)
    with True False j show ?thesis
      by (auto simp: splitLogicalLines_def trailing_def splitRune_last Let_def split: if_splits)
  next
    case l: False
    with j False show ?thesis by (simp add: splitLogicalLines_def trailing_def splitRune_last)
  qed
qed (simp add: splitLogicalLines_def trailing_def)

lemma splitLogicalLines_noLF: "w \<in> set (splitLogicalLines text) \<Longrightarrow> 10 \<notin> set w"
  using splitRune_join [of 10 "text"]
  by (auto simp: splitLogicalLines_def Let_def split: if_splits dest: in_set_butlastD)

section \<open>Pages\<close>

lemma byteLen_append [simp]: "byteLen (s @ t) = byteLen s + byteLen t"
  by (simp add: byteLen_def)

lemma byteLen_Nil [simp]: "byteLen [] = 0"
  by (simp add: byteLen_def)

lemma byteLen_LF [simp]: "byteLen LF = 1"
  by (simp add: byteLen_def LF_def utf8Len_def)

lemma byteLen_snoc:
  "byteLen (joinStr LF (xs @ [y])) = byteLen (joinStr LF xs) + byteLen y + (if xs \<noteq> [] then 1 else 0)"
  by (simp add: joinStr_snoc)

text \<open>What the loop adds to the lines it already has.\<close>

lemma pageLoop_page:
  assumes "pageLoop limit i rest out used = Inr (out', next', full)" "used = byteLen (joinStr LF out)"
    "used \<le> maxReadBytes" "int (length out) \<le> limit"
  shows "\<exists>k \<le> length rest. out' = out @ take k rest \<and> byteLen (joinStr LF out') \<le> maxReadBytes \<and>
     int (length out') \<le> limit \<and> (out = [] \<and> rest \<noteq> [] \<and> 0 < limit \<longrightarrow> 0 < k) \<and>
     (if full then next' = int (i + k) + 1 \<and> k < length rest \<and> maxReadBytes < byteLen (joinStr LF (out' @ [rest ! k]))
      else k = length rest \<or> int (length out') = limit)"
  using assms
proof (induction rest arbitrary: i out used)
  case (Cons line rest)
  show ?case
  proof (cases "int (length out) < limit \<and> \<not> maxReadBytes < used + (byteLen line + (if out \<noteq> [] then 1 else 0))")
    case True
    then have run: "pageLoop limit (Suc i) rest (out @ [line]) (used + (byteLen line + (if out \<noteq> [] then 1 else 0))) =
        Inr (out', next', full)"
      using Cons.prems(1) by (auto simp: Let_def)
    have "\<exists>k \<le> length rest. out' = (out @ [line]) @ take k rest \<and> byteLen (joinStr LF out') \<le> maxReadBytes \<and>
       int (length out') \<le> limit \<and> ((out @ [line]) = [] \<and> rest \<noteq> [] \<and> 0 < limit \<longrightarrow> 0 < k) \<and>
       (if full then next' = int (Suc i + k) + 1 \<and> k < length rest \<and> maxReadBytes < byteLen (joinStr LF (out' @ [rest ! k]))
        else k = length rest \<or> int (length out') = limit)"
      by (rule Cons.IH [OF run]) (use True Cons.prems(2) in \<open>auto simp: byteLen_snoc\<close>)
    then obtain k where "k \<le> length rest" "out' = (out @ [line]) @ take k rest"
      "byteLen (joinStr LF out') \<le> maxReadBytes" "int (length out') \<le> limit"
      "if full then next' = int (Suc i + k) + 1 \<and> k < length rest \<and> maxReadBytes < byteLen (joinStr LF (out' @ [rest ! k]))
        else k = length rest \<or> int (length out') = limit"
      by blast
    then show ?thesis by (intro exI [of _ "Suc k"]) (auto split: if_splits)
  next
    case False
    with Cons.prems show ?thesis
      by (intro exI [of _ 0]) (auto simp: Let_def byteLen_snoc split: if_splits)
  qed
qed simp

lemma pageLoop_too_long:
  assumes "pageLoop limit i rest [] 0 = Inl e" "0 < limit"
  shows "e = LineTooLong \<and> rest \<noteq> [] \<and> maxReadBytes < byteLen (hd rest)"
proof -
  have ne: "pageLoop limit i rest out used = Inl e \<Longrightarrow> out = []" for i rest out used
    by (induction rest arbitrary: i out used) (auto simp: Let_def split: if_splits)
  from assms show ?thesis by (cases rest) (auto simp: Let_def split: if_splits dest: ne)
qed

definition pageLines :: "gostr \<Rightarrow> gostr list" where
  "pageLines text = splitLogicalLines (normalizeLineEndings text)"

lemma paginateText_page:
  assumes run: "paginateText t offset limit = Inr r" and "1 \<le> offset" "1 \<le> limit" "pageLines t \<noteq> []"
  shows "\<exists>k. 0 < k \<and> int k \<le> limit \<and> nat offset - 1 + k \<le> length (pageLines t) \<and>
     rr_Content r = joinStr LF (take k (drop (nat offset - 1) (pageLines t))) \<and>
     byteLen (rr_Content r) \<le> maxReadBytes \<and> rr_TotalLines r = int (length (pageLines t)) \<and>
     rr_Truncated r = (nat offset - 1 + k < length (pageLines t)) \<and>
     rr_NextOffsetLines r = (if rr_Truncated r then offset + int k else 0) \<and>
     (rr_Truncated r \<longrightarrow> int k = limit \<or>
        maxReadBytes < byteLen (joinStr LF (take (Suc k) (drop (nat offset - 1) (pageLines t)))))"
proof -
  let ?L = "pageLines t" and ?s = "nat offset - 1"
  let ?rest = "drop ?s ?L"
  have s: "nat (offset - 1) = ?s" "int ?s = offset - 1" using assms by auto
  from run s assms obtain out nx full where
    len: "?s < length ?L" and loop: "pageLoop limit ?s ?rest [] 0 = Inr (out, nx, full)"
    and r: "r = \<lparr>rr_Content = joinStr LF out,
       rr_Truncated = (full \<or> \<not> full \<and> offset - 1 + int (length out) < int (length ?L)),
       rr_NextOffsetLines = (if \<not> (full \<or> \<not> full \<and> offset - 1 + int (length out) < int (length ?L)) then 0
          else if \<not> full \<and> offset - 1 + int (length out) < int (length ?L) then offset - 1 + int (length out) + 1 else nx),
       rr_TotalLines = int (length ?L)\<rparr>"
    by (auto simp: paginateText_def Let_def pageLines_def split: if_splits sum.splits)
  from pageLoop_page [OF loop] assms len obtain k where k: "k \<le> length ?rest" "out = take k ?rest"
    "byteLen (joinStr LF out) \<le> maxReadBytes" "int (length out) \<le> limit" "0 < k"
    and f: "if full then nx = int (?s + k) + 1 \<and> k < length ?rest \<and> maxReadBytes < byteLen (joinStr LF (out @ [?rest ! k]))
      else k = length ?rest \<or> int (length out) = limit"
    by auto
  have lk: "length out = k" using k by simp
  have "take (Suc k) ?rest = out @ [?rest ! k]" if "k < length ?rest" using that k(2) by (metis take_Suc_conv_app_nth)
  then have cut: "full \<Longrightarrow> maxReadBytes < byteLen (joinStr LF (take (Suc k) ?rest))" using f by presburger
  have nx: "full \<Longrightarrow> nx = offset + int k" "full \<Longrightarrow> ?s + k < length ?L" using f s(2) by auto
  have more: "(offset - 1 + int (length out) < int (length ?L)) = (?s + k < length ?L)"
    unfolding lk using s(2) by linarith
  have tr: "rr_Truncated r = (?s + k < length ?L)"
    unfolding r ReadResult.simps more using nx(2) by blast
  have next': "rr_NextOffsetLines r = (if rr_Truncated r then offset + int k else 0)"
    unfolding tr unfolding r ReadResult.simps more using nx by (simp add: lk)
  have "int k = limit \<or> maxReadBytes < byteLen (joinStr LF (take (Suc k) ?rest))" if "rr_Truncated r"
  proof (cases full)
    case False
    moreover have "k \<noteq> length ?rest" using that len unfolding tr by auto
    ultimately show ?thesis using f lk by presburger
  qed (use cut in blast)
  moreover have "int k \<le> limit" "?s + k \<le> length ?L" using k lk len by auto
  moreover have "rr_Content r = joinStr LF (take k ?rest)" "rr_TotalLines r = int (length ?L)" by (simp_all add: r k(2))
  moreover have "byteLen (rr_Content r) \<le> maxReadBytes" using k(3) by (simp add: r)
  ultimately show ?thesis using k(5) tr next' by blast
qed

lemma paginateText_from:
  assumes "paginateText t (int s + 1) limit = Inr r" "1 \<le> limit" "pageLines t \<noteq> []"
  obtains k where "0 < k" "s + k \<le> length (pageLines t)"
    "rr_Content r = joinStr LF (take k (drop s (pageLines t)))" "byteLen (rr_Content r) \<le> maxReadBytes"
    "rr_Truncated r = (s + k < length (pageLines t))"
    "rr_NextOffsetLines r = (if rr_Truncated r then int s + 1 + int k else 0)"
    "drop s (pageLines t) = take k (drop s (pageLines t)) @ drop (s + k) (pageLines t)"
proof -
  have e: "nat (int s + 1) - 1 = s" "1 \<le> int s + 1" by simp_all
  have "drop s xs = take k (drop s xs) @ drop (s + k) xs" for k and xs :: "gostr list"
    by (metis append_take_drop_id drop_drop add.commute)
  with paginateText_page [OF assms(1) e(2) assms(2,3)] that show thesis unfolding e(1) by blast
qed

text \<open>A reader that asks for page after page, following \<open>NextOffsetLines\<close>.\<close>

fun readAll :: "nat \<Rightarrow> gostr \<Rightarrow> int \<Rightarrow> int \<Rightarrow> gostr list option" where
  "readAll 0 t limit offset = None"
| "readAll (Suc n) t limit offset =
     (case readPage t offset limit of
        Inl _ \<Rightarrow> None
      | Inr r \<Rightarrow>
          (if rr_Truncated r then map_option ((#) (rr_Content r)) (readAll n t limit (rr_NextOffsetLines r))
           else Some [rr_Content r]))"

lemma readPage_paginate:
  assumes "1 \<le> offset" "0 \<le> limit"
  shows "readPage t offset limit =
     paginateText t offset (min (if limit = 0 then maxReadLimitLines else limit) maxReadLimitLines)"
  using assms by (cases "limit = 0") (simp_all add: readPage_def maxReadLimitLines_def)

lemma readAll_from:
  assumes "\<forall>l \<in> set (pageLines t). byteLen l \<le> maxReadBytes" "0 \<le> limit"
    "s < length (pageLines t)" "length (pageLines t) - s \<le> n"
  shows "\<exists>pages. readAll n t limit (int s + 1) = Some pages \<and> pages \<noteq> [] \<and>
     joinStr LF pages = joinStr LF (drop s (pageLines t)) \<and> (\<forall>p \<in> set pages. byteLen p \<le> maxReadBytes)"
  using assms(3,4)
proof (induction n arbitrary: s)
  case (Suc n)
  let ?L = "pageLines t" and ?lim = "min (if limit = 0 then maxReadLimitLines else limit) maxReadLimitLines"
  have lim: "1 \<le> ?lim" using assms(2) by (auto simp: maxReadLimitLines_def)
  have page: "readPage t (int s + 1) limit = paginateText t (int s + 1) ?lim"
    using assms(2) by (intro readPage_paginate) auto
  have "\<nexists>e. paginateText t (int s + 1) ?lim = Inl e"
  proof
    assume "\<exists>e. paginateText t (int s + 1) ?lim = Inl e"
    then obtain e where "pageLoop ?lim s (drop s ?L) [] 0 = Inl e"
      using Suc.prems by (auto simp: paginateText_def Let_def pageLines_def split: if_splits sum.splits)
    from pageLoop_too_long [OF this] lim have "maxReadBytes < byteLen (?L ! s)"
      using Suc.prems by (simp add: hd_drop_conv_nth)
    with assms(1) Suc.prems show False by (meson not_less nth_mem)
  qed
  then obtain r where run: "paginateText t (int s + 1) ?lim = Inr r" by (cases "paginateText t (int s + 1) ?lim") auto
  have ne: "?L \<noteq> []" using Suc.prems by auto
  obtain k where k: "0 < k" "s + k \<le> length ?L"
    "rr_Content r = joinStr LF (take k (drop s ?L))" "byteLen (rr_Content r) \<le> maxReadBytes"
    "rr_Truncated r = (s + k < length ?L)"
    "rr_NextOffsetLines r = (if rr_Truncated r then int s + 1 + int k else 0)"
    and dropk: "drop s ?L = take k (drop s ?L) @ drop (s + k) ?L"
    by (rule paginateText_from [OF run lim ne])
  show ?case
  proof (cases "s + k < length ?L")
    case True
    moreover have "length ?L - (s + k) \<le> n" using Suc.prems k(1) by linarith
    ultimately obtain pages where p: "readAll n t limit (int (s + k) + 1) = Some pages"
      "pages \<noteq> []" "joinStr LF pages = joinStr LF (drop (s + k) ?L)" "\<forall>p \<in> set pages. byteLen p \<le> maxReadBytes"
      using Suc.IH by blast
    have "joinStr LF (drop s ?L) = rr_Content r @ LF @ joinStr LF (drop (s + k) ?L)"
      unfolding k(3) using True k(1) by (subst dropk, subst joinStr_append) auto
    moreover have "readAll n t limit (int s + 1 + int k) = Some pages" using p(1) by (simp add: ac_simps)
    ultimately show ?thesis using p k True
      by (intro exI [of _ "rr_Content r # pages"]) (simp add: page run joinStr_Cons)
  next
    case False
    with k dropk have "rr_Content r = joinStr LF (drop s ?L)" by simp
    with k False show ?thesis by (intro exI [of _ "[rr_Content r]"]) (auto simp: page run)
  qed
qed simp

lemma byteLen_join_ge: "w \<in> set ws \<Longrightarrow> byteLen w \<le> byteLen (joinStr LF ws)"
  by (induction ws) (auto simp: joinStr_Cons)

lemma readAll_short:
  assumes "readAll n t limit (int s + 1) = Some pages" "0 \<le> limit" "l \<in> set (drop s (pageLines t))"
  shows "byteLen l \<le> maxReadBytes"
  using assms(1,3)
proof (induction n arbitrary: s pages)
  case (Suc n)
  let ?L = "pageLines t" and ?lim = "min (if limit = 0 then maxReadLimitLines else limit) maxReadLimitLines"
  have lim: "1 \<le> ?lim" using assms(2) by (auto simp: maxReadLimitLines_def)
  have page: "readPage t (int s + 1) limit = paginateText t (int s + 1) ?lim"
    using assms(2) by (intro readPage_paginate) auto
  with Suc.prems obtain r where run: "paginateText t (int s + 1) ?lim = Inr r"
    by (cases "paginateText t (int s + 1) ?lim") auto
  have ne: "?L \<noteq> []" using Suc.prems by auto
  obtain k where k: "0 < k" "s + k \<le> length ?L"
    "rr_Content r = joinStr LF (take k (drop s ?L))" "byteLen (rr_Content r) \<le> maxReadBytes"
    "rr_Truncated r = (s + k < length ?L)"
    "rr_NextOffsetLines r = (if rr_Truncated r then int s + 1 + int k else 0)"
    and dropk: "drop s ?L = take k (drop s ?L) @ drop (s + k) ?L"
    by (rule paginateText_from [OF run lim ne])
  from dropk Suc.prems(2) consider "l \<in> set (take k (drop s ?L))" | "l \<in> set (drop (s + k) ?L)"
    by (metis Un_iff set_append)
  then show ?case
  proof cases
    case 1
    with k show ?thesis by (metis byteLen_join_ge le_trans)
  next
    case 2
    then have lt: "s + k < length ?L" by (metis drop_all empty_iff empty_set not_less)
    with Suc.prems(1) page run k obtain pages' where "readAll n t limit (int (s + k) + 1) = Some pages'"
      by (auto simp: algebra_simps)
    with 2 show ?thesis by (intro Suc.IH)
  qed
qed simp



text \<open>Six lines read two lines a page.\<close>

definition sixLines :: gostr where
  "sixLines = concat (replicate 6 [97, 98, 10])"


section \<open>Edits\<close>

lemma countNonEmpty_zero: "sub \<noteq> [] \<Longrightarrow> countNonEmpty s sub = 0 \<longleftrightarrow> \<not> containsStr s sub"
  by (induction s) (auto simp: countNonEmpty.simps)

lemma containsStr_iff: "containsStr s sub \<longleftrightarrow> (\<exists>a b. s = a @ sub @ b)"
proof (induction s)
  case (Cons r s)
  have "(\<exists>a b. r # s = a @ sub @ b) \<longleftrightarrow> (\<exists>b. r # s = sub @ b) \<or> (\<exists>a b. s = a @ sub @ b)"
    by (metis append_Cons append_Nil neq_Nil_conv list.inject)
  moreover have "hasPrefix (r # s) sub \<longleftrightarrow> (\<exists>b. r # s = sub @ b)"
    by (metis hasPrefixE hasPrefix_append)
  ultimately show ?case using Cons by simp
qed simp

text \<open>The first occurrence: nothing of \<open>old\<close> starts before it.\<close>

lemma replaceFirst_split:
  assumes "containsStr s old" "old \<noteq> []"
  obtains a b where "s = a @ old @ b" "replaceFirst s old new = a @ new @ b"
    "countNonEmpty s old = Suc (countNonEmpty b old)"
    "\<And>a' b'. s = a' @ old @ b' \<Longrightarrow> length a \<le> length a'"
proof -
  have "\<exists>a b. s = a @ old @ b \<and> replaceFirst s old new = a @ new @ b \<and>
     countNonEmpty s old = Suc (countNonEmpty b old) \<and> (\<forall>a' b'. s = a' @ old @ b' \<longrightarrow> length a \<le> length a')"
    using assms(1)
  proof (induction s)
    case (Cons r s)
    show ?case
    proof (cases "hasPrefix (r # s) old")
      case True
      then obtain b where b: "r # s = old @ b" by (rule hasPrefixE)
      have "replaceFirst (r # s) old new = [] @ new @ b" "countNonEmpty (r # s) old = Suc (countNonEmpty b old)"
        using True assms(2) by (simp_all add: countNonEmpty.simps) (simp_all add: b flip: append_Cons)
      with b show ?thesis by (metis append_Nil le0 list.size(3))
    next
      case False
      with Cons obtain a b where ab: "s = a @ old @ b" "replaceFirst s old new = a @ new @ b"
        "countNonEmpty s old = Suc (countNonEmpty b old)" "\<forall>a' b'. s = a' @ old @ b' \<longrightarrow> length a \<le> length a'"
        by auto
      have "length (r # a) \<le> length a'" if "r # s = a' @ old @ b'" for a' b'
        using that False ab(4) by (cases a') (auto simp: hasPrefix_def)
      with ab False show ?thesis
        by (intro exI [of _ "r # a"] exI [of _ b]) (simp add: countNonEmpty.simps)
    qed
  qed (use assms(2) in simp)
  then show thesis using that by blast
qed

lemma editText_splits:
  assumes "oldText \<noteq> []" "editText tf oldText newText = Inr (before, after)"
  obtains a b where "before = normalizeLineEndings (tf_text tf)"
    "before = a @ normalizeLineEndings oldText @ b" "after = a @ normalizeLineEndings newText @ b"
    "\<not> containsStr b (normalizeLineEndings oldText)" "after \<noteq> before"
    "\<And>a' b'. before = a' @ normalizeLineEndings oldText @ b' \<Longrightarrow> length a \<le> length a'"
proof -
  let ?old = "normalizeLineEndings oldText"
  have ne: "?old \<noteq> []" using assms(1) by (simp add: normalize_normal normal_Nil_iff)
  from assms(2) have e: "before = normalizeLineEndings (tf_text tf)" "countNonEmpty before ?old = 1"
    "after = replaceFirst before ?old (normalizeLineEndings newText)" "after \<noteq> before"
    using ne by (auto simp: editText_def Let_def countStr_def split: if_splits)
  have "containsStr before ?old" using e(2) countNonEmpty_zero [OF ne, of before] by simp
  from replaceFirst_split [OF this ne, of "normalizeLineEndings newText"] that e ne show thesis
    by (metis One_nat_def countNonEmpty_zero nat.inject)
qed

end
