(* ===== verification/Patch_Text.thy ===== *)
theory Patch_Text
  imports Text_Lines
begin

text \<open>
  The patch language of \<open>systems/agent/internal/fileops/patch.go\<close>: its parser, and the application of
  hunks to a text.  The parser's functions take the lines from their index on and return the lines
  they leave; the index -1 of a search that found nothing is \<open>None\<close>.
\<close>

section \<open>Patches\<close>

definition patchBeginMarker :: gostr where
  "patchBeginMarker = lit ''*** Begin Patch''"

definition patchEndMarker :: gostr where
  "patchEndMarker = lit ''*** End Patch''"

definition patchAddFileMarker :: gostr where
  "patchAddFileMarker = lit ''*** Add File: ''"

definition patchDeleteFileMarker :: gostr where
  "patchDeleteFileMarker = lit ''*** Delete File: ''"

definition patchUpdateFileMarker :: gostr where
  "patchUpdateFileMarker = lit ''*** Update File: ''"

definition patchMoveToMarker :: gostr where
  "patchMoveToMarker = lit ''*** Move to: ''"

definition patchEndOfFileMarker :: gostr where
  "patchEndOfFileMarker = lit ''*** End of File''"

record patchLine =
  pl_kind :: rune
  pl_text :: gostr

record patchHunk =
  ph_header :: gostr
  ph_lines :: "patchLine list"
  ph_endOfFile :: bool

record patchFileOp =
  po_kind :: gostr
  po_path :: gostr
  po_moveTo :: gostr
  po_addLines :: "gostr list"
  po_hunks :: "patchHunk list"

datatype patch_error =
    PatchRequired | PatchNoBegin | TrailingContent | NoOperations | UnexpectedLine gostr | NoEnd
  | AddPathRequired | AddLineNoPlus | AddNoLines | DeletePathRequired
  | UpdatePathRequired | MoveRequired | UpdateNoHunk | UnexpectedUpdateLine gostr
  | HunkNoLines | InvalidHunkLine gostr

datatype hunk_error = HunkNoContext | HunkNoMatch | HunkManyMatches

section \<open>Parsing\<close>

definition headerText :: "gostr \<Rightarrow> gostr \<Rightarrow> gostr" where
  "headerText marker line = trimSpace (trimPrefix line marker)"

fun addLoop :: "gostr list \<Rightarrow> gostr list \<Rightarrow> patch_error + gostr list \<times> gostr list" where
  "addLoop [] acc = Inr (acc, [])"
| "addLoop (line # rest) acc =
     (if line = patchEndMarker \<or> hasPrefix line (lit ''*** '') then Inr (acc, line # rest)
      else if line = [] \<or> hd line \<noteq> 43 then Inl AddLineNoPlus
      else addLoop rest (acc @ [tl line]))"

definition parseAddFile :: "gostr \<Rightarrow> gostr list \<Rightarrow> patch_error + patchFileOp \<times> gostr list" where
  "parseAddFile line rest =
     (let path = headerText patchAddFileMarker line
      in if path = [] then Inl AddPathRequired
         else case addLoop rest [] of
                Inl e \<Rightarrow> Inl e
              | Inr (addLines, rest') \<Rightarrow>
                  (if addLines = [] then Inl AddNoLines
                   else Inr (\<lparr>po_kind = lit ''add'', po_path = path, po_moveTo = [],
                              po_addLines = addLines, po_hunks = []\<rparr>, rest')))"

definition startsOp :: "gostr \<Rightarrow> bool" where
  "startsOp line \<longleftrightarrow>
     line = patchEndMarker \<or> hasPrefix line patchAddFileMarker \<or>
     hasPrefix line patchDeleteFileMarker \<or> hasPrefix line patchUpdateFileMarker"

definition isHunkLine :: "gostr \<Rightarrow> bool" where
  "isHunkLine line \<longleftrightarrow> line \<noteq> [] \<and> (hd line = 32 \<or> hd line = 43 \<or> hd line = 45)"

fun hunkLoop ::
  "gostr list \<Rightarrow> patchLine list \<Rightarrow> bool \<Rightarrow> patch_error + patchLine list \<times> bool \<times> gostr list"
where
  "hunkLoop [] acc eof = (if acc = [] then Inl HunkNoLines else Inr (acc, eof, []))"
| "hunkLoop (line # rest) acc eof =
     (if line = patchEndOfFileMarker then hunkLoop rest acc True
      else if startsOp line \<or> hasPrefix line (lit ''@@'')
      then (if acc = [] then Inl HunkNoLines else Inr (acc, eof, line # rest))
      else if isHunkLine line
      then hunkLoop rest (acc @ [\<lparr>pl_kind = hd line, pl_text = tl line\<rparr>]) eof
      else Inl (InvalidHunkLine line))"

definition parseHunk :: "gostr \<Rightarrow> gostr list \<Rightarrow> patch_error + patchHunk \<times> gostr list" where
  "parseHunk line rest =
     (case hunkLoop rest [] False of
        Inl e \<Rightarrow> Inl e
      | Inr (lines, eof, rest') \<Rightarrow>
          Inr (\<lparr>ph_header = headerText (lit ''@@'') line, ph_lines = lines, ph_endOfFile = eof\<rparr>, rest'))"

lemma hunkLoop_rest: "hunkLoop rest acc eof = Inr (ls, e, rest') \<Longrightarrow> length rest' \<le> length rest"
  by (induction rest acc eof rule: hunkLoop.induct) (auto split: if_splits)

lemma parseHunk_rest: "parseHunk line rest = Inr (h, rest') \<Longrightarrow> length rest' \<le> length rest"
  by (auto simp: parseHunk_def split: sum.splits dest: hunkLoop_rest)

function updateLoop ::
  "gostr \<Rightarrow> gostr list \<Rightarrow> patchHunk list \<Rightarrow> patch_error + patchHunk list \<times> gostr list"
where
  "updateLoop moveTo [] hunks =
     (if hunks = [] \<and> moveTo = [] then Inl UpdateNoHunk else Inr (hunks, []))"
| "updateLoop moveTo (line # rest) hunks =
     (if startsOp line
      then (if hunks = [] \<and> moveTo = [] then Inl UpdateNoHunk else Inr (hunks, line # rest))
      else if hasPrefix line (lit ''@@'')
      then (case parseHunk line rest of
              Inl e \<Rightarrow> Inl e
            | Inr (hunk, rest') \<Rightarrow> updateLoop moveTo rest' (hunks @ [hunk]))
      else if line = [] then updateLoop moveTo rest hunks
      else Inl (UnexpectedUpdateLine line))"
  by pat_completeness auto
termination
  by (relation "measure (\<lambda>(_, lines, _). length lines)") (auto dest: parseHunk_rest)

text \<open>The optional move line after the header of an update.\<close>

definition parseMove :: "gostr list \<Rightarrow> patch_error + gostr \<times> gostr list" where
  "parseMove lines =
     (case lines of
        [] \<Rightarrow> Inr ([], [])
      | line # rest \<Rightarrow>
          (if hasPrefix line patchMoveToMarker
           then (let moveTo = headerText patchMoveToMarker line
                 in if moveTo = [] then Inl MoveRequired else Inr (moveTo, rest))
           else Inr ([], line # rest)))"

definition parseUpdateFile :: "gostr \<Rightarrow> gostr list \<Rightarrow> patch_error + patchFileOp \<times> gostr list" where
  "parseUpdateFile line rest =
     (let path = headerText patchUpdateFileMarker line
      in if path = [] then Inl UpdatePathRequired
         else case parseMove rest of
                Inl e \<Rightarrow> Inl e
              | Inr (moveTo, rest1) \<Rightarrow>
                  (case updateLoop moveTo rest1 [] of
                     Inl e \<Rightarrow> Inl e
                   | Inr (hunks, rest2) \<Rightarrow>
                       Inr (\<lparr>po_kind = lit ''update'', po_path = path, po_moveTo = moveTo,
                             po_addLines = [], po_hunks = hunks\<rparr>, rest2)))"

definition parseDeleteFile :: "gostr \<Rightarrow> patch_error + patchFileOp" where
  "parseDeleteFile line =
     (let path = headerText patchDeleteFileMarker line
      in if path = [] then Inl DeletePathRequired
         else Inr \<lparr>po_kind = lit ''delete'', po_path = path, po_moveTo = [], po_addLines = [], po_hunks = []\<rparr>)"

lemma addLoop_rest: "addLoop rest acc = Inr (ls, rest') \<Longrightarrow> length rest' \<le> length rest"
  by (induction rest acc rule: addLoop.induct) (auto split: if_splits)

lemma parseAddFile_rest: "parseAddFile line rest = Inr (op, rest') \<Longrightarrow> length rest' \<le> length rest"
  by (auto simp: parseAddFile_def Let_def split: sum.splits if_splits dest: addLoop_rest)

lemma updateLoop_rest: "updateLoop m rest hs = Inr (hs', rest') \<Longrightarrow> length rest' \<le> length rest"
proof (induction m rest hs rule: updateLoop.induct)
  case (2 m line rest hs)
  then show ?case by (fastforce split: if_splits sum.splits dest: parseHunk_rest)
qed (auto split: if_splits)

lemma parseMove_rest: "parseMove rest = Inr (m, rest') \<Longrightarrow> length rest' \<le> length rest"
  by (auto simp: parseMove_def Let_def split: if_splits list.splits)

lemma parseUpdateFile_rest: "parseUpdateFile line rest = Inr (op, rest') \<Longrightarrow> length rest' \<le> length rest"
  by (auto simp: parseUpdateFile_def Let_def
      split: sum.splits if_splits dest!: updateLoop_rest parseMove_rest)

function opsLoop :: "gostr list \<Rightarrow> patchFileOp list \<Rightarrow> patch_error + patchFileOp list" where
  "opsLoop [] ops = Inl NoEnd"
| "opsLoop (line # rest) ops =
     (if line = [] then opsLoop rest ops
      else if line = patchEndMarker
      then (if list_ex (\<lambda>l. l \<noteq> []) rest then Inl TrailingContent
            else if ops = [] then Inl NoOperations else Inr ops)
      else if hasPrefix line patchAddFileMarker
      then (case parseAddFile line rest of Inl e \<Rightarrow> Inl e | Inr (op, rest') \<Rightarrow> opsLoop rest' (ops @ [op]))
      else if hasPrefix line patchDeleteFileMarker
      then (case parseDeleteFile line of Inl e \<Rightarrow> Inl e | Inr op \<Rightarrow> opsLoop rest (ops @ [op]))
      else if hasPrefix line patchUpdateFileMarker
      then (case parseUpdateFile line rest of Inl e \<Rightarrow> Inl e | Inr (op, rest') \<Rightarrow> opsLoop rest' (ops @ [op]))
      else Inl (UnexpectedLine line))"
  by pat_completeness auto
termination
  by (relation "measure (\<lambda>(lines, _). length lines)") (auto dest: parseAddFile_rest parseUpdateFile_rest)

definition parsePatch :: "gostr \<Rightarrow> patch_error + patchFileOp list" where
  "parsePatch input =
     (let input' = normalizeLineEndings input
      in if trimSpace input' = [] then Inl PatchRequired
         else case dropWhile (\<lambda>l. l = []) (splitRune 10 input') of
                [] \<Rightarrow> Inl PatchNoBegin
              | line # rest \<Rightarrow> if line \<noteq> patchBeginMarker then Inl PatchNoBegin else opsLoop rest [])"

declare updateLoop.simps [simp del] opsLoop.simps [simp del]

section \<open>Applying hunks\<close>

definition materializeHunk :: "patchHunk \<Rightarrow> gostr list \<times> gostr list" where
  "materializeHunk hunk =
     foldl (\<lambda>(oldChunk, newChunk) line.
              if pl_kind line = 32 then (oldChunk @ [pl_text line], newChunk @ [pl_text line])
              else if pl_kind line = 45 then (oldChunk @ [pl_text line], newChunk)
              else if pl_kind line = 43 then (oldChunk, newChunk @ [pl_text line])
              else (oldChunk, newChunk))
       ([], []) (ph_lines hunk)"

definition equalChunk :: "gostr list \<Rightarrow> gostr list \<Rightarrow> bool" where
  "equalChunk a b \<longleftrightarrow> length a = length b \<and> list_all (\<lambda>i. a ! i = b ! i) [0..<length a]"

definition matchFrom :: "gostr list \<Rightarrow> gostr list \<Rightarrow> nat \<Rightarrow> nat option \<times> nat" where
  "matchFrom lines chunk begin' =
     foldl (\<lambda>(matchIdx, matches) i.
              if equalChunk (slice lines i (i + length chunk)) chunk then (Some i, Suc matches)
              else (matchIdx, matches))
       (None, 0) [begin'..<Suc (length lines) - length chunk]"

definition findUniqueChunk :: "gostr list \<Rightarrow> gostr list \<Rightarrow> nat \<Rightarrow> nat option \<times> nat" where
  "findUniqueChunk lines chunk start =
     (if chunk = [] then (None, 0)
      else let (matchIdx, matches) = matchFrom lines chunk start
           in if matches = 0 \<and> 0 < start then matchFrom lines chunk 0 else (matchIdx, matches))"

definition replaceChunk :: "gostr list \<Rightarrow> nat \<Rightarrow> nat \<Rightarrow> gostr list \<Rightarrow> gostr list" where
  "replaceChunk lines start finish replacement = take start lines @ replacement @ drop finish lines"

fun hunksLoop ::
  "patchHunk list \<Rightarrow> gostr list \<Rightarrow> nat \<Rightarrow> bool \<Rightarrow> hunk_error + gostr list \<times> bool"
where
  "hunksLoop [] lines searchStart force = Inr (lines, force)"
| "hunksLoop (hunk # hunks) lines searchStart force =
     (let (oldChunk, newChunk) = materializeHunk hunk
      in if oldChunk = [] then Inl HunkNoContext
         else case findUniqueChunk lines oldChunk searchStart of
                (None, _) \<Rightarrow> Inl HunkNoMatch
              | (Some idx, matches) \<Rightarrow>
                  (if 1 < matches then Inl HunkManyMatches
                   else hunksLoop hunks (replaceChunk lines idx (idx + length oldChunk) newChunk)
                          (idx + length newChunk) (force \<or> ph_endOfFile hunk)))"

definition applyHunks :: "gostr \<Rightarrow> patchHunk list \<Rightarrow> hunk_error + gostr" where
  "applyHunks t hunks =
     (if hunks = [] then Inr t
      else let hadTrailingNewline = (t \<noteq> [] \<and> last t = 10)
           in case hunksLoop hunks (splitLogicalLines t) 0 False of
                Inl e \<Rightarrow> Inl e
              | Inr (lines, forceNoTrailingNewline) \<Rightarrow>
                  Inr (joinStr LF lines @
                       (if \<not> forceNoTrailingNewline \<and> hadTrailingNewline then LF else [])))"

section \<open>What a patched text is\<close>

text \<open>
  A chunk occurs at an index of the lines; the occurrence a hunk means is the only one at or after
  the end of the hunk before it or, when there is none, the only one of the file.
\<close>

definition occurs :: "gostr list \<Rightarrow> gostr list \<Rightarrow> nat \<Rightarrow> bool" where
  "occurs lines chunk i \<longleftrightarrow> (\<exists>a b. lines = a @ chunk @ b \<and> length a = i)"

definition chosen :: "nat \<Rightarrow> gostr list \<Rightarrow> gostr list \<Rightarrow> nat \<Rightarrow> bool" where
  "chosen start lines chunk i \<longleftrightarrow>
     (if \<exists>j \<ge> start. occurs lines chunk j then \<forall>j. start \<le> j \<and> occurs lines chunk j \<longleftrightarrow> j = i
      else \<forall>j. occurs lines chunk j \<longleftrightarrow> j = i)"

lemma chosen_occurs:
  assumes "chosen start lines chunk i"
  shows "occurs lines chunk i"
proof (cases "\<exists>j \<ge> start. occurs lines chunk j")
  case True
  with assms have "\<forall>j. start \<le> j \<and> occurs lines chunk j \<longleftrightarrow> j = i" unfolding chosen_def by argo
  then show ?thesis by blast
next
  case False
  with assms have "\<forall>j. occurs lines chunk j \<longleftrightarrow> j = i" unfolding chosen_def by argo
  then show ?thesis by blast
qed

inductive patched :: "nat \<Rightarrow> gostr list \<Rightarrow> (gostr list \<times> gostr list) list \<Rightarrow> gostr list \<Rightarrow> bool" where
  patched_Nil: "patched start lines [] lines"
| patched_Cons: "oldC \<noteq> [] \<Longrightarrow> chosen start (a @ oldC @ b) oldC (length a) \<Longrightarrow>
     patched (length a + length newC) (a @ newC @ b) hs out \<Longrightarrow>
     patched start (a @ oldC @ b) ((oldC, newC) # hs) out"

inductive_cases patched_NilE: "patched start lines [] out"
inductive_cases patched_ConsE: "patched start lines ((oldC, newC) # hs) out"

lemma equalChunk_eq: "equalChunk a b \<longleftrightarrow> a = b"
  by (auto simp: equalChunk_def list_all_iff intro: nth_equalityI)

lemma occurs_slice:
  "occurs lines chunk i \<longleftrightarrow> i + length chunk \<le> length lines \<and> take (length chunk) (drop i lines) = chunk"
proof
  assume "i + length chunk \<le> length lines \<and> take (length chunk) (drop i lines) = chunk"
  then have "lines = take i lines @ chunk @ drop (length chunk) (drop i lines)" "length (take i lines) = i"
    by (metis append_take_drop_id, simp)
  then show "occurs lines chunk i" unfolding occurs_def by blast
qed (auto simp: occurs_def)

definition positions :: "gostr list \<Rightarrow> gostr list \<Rightarrow> nat \<Rightarrow> nat list" where
  "positions lines chunk start = filter (\<lambda>i. occurs lines chunk i) [start..<Suc (length lines) - length chunk]"

lemma set_positions: "chunk \<noteq> [] \<Longrightarrow> set (positions lines chunk start) = {i. start \<le> i \<and> occurs lines chunk i}"
  by (auto simp: positions_def occurs_slice less_diff_conv)

lemma matchFrom_positions:
  assumes "chunk \<noteq> []"
  shows "matchFrom lines chunk start =
     (let ps = positions lines chunk start in (if ps = [] then None else Some (last ps), length ps))"
proof -
  let ?f = "\<lambda>(idx, n) i. if equalChunk (slice lines i (i + length chunk)) chunk then (Some i, Suc n) else (idx, n)"
  have *: "foldl ?f (None, 0) xs = (let ps = filter (occurs lines chunk) xs in (if ps = [] then None else Some (last ps), length ps))"
    if "set xs \<subseteq> {..<Suc (length lines) - length chunk}" for xs
    using that
  proof (induction xs rule: rev_induct)
    case (snoc x xs)
    then have "x + length chunk \<le> length lines" by auto
    then have "equalChunk (slice lines x (x + length chunk)) chunk = occurs lines chunk x"
      by (simp add: equalChunk_eq occurs_slice)
    with snoc show ?case by (simp add: Let_def)
  qed simp
  show ?thesis unfolding matchFrom_def positions_def by (rule *) auto
qed

lemma distinct_positions: "distinct (positions lines chunk start)"
  by (simp add: positions_def)

lemma positions_single:
  assumes "chunk \<noteq> []"
  shows "(\<exists>ps. ps = positions lines chunk start \<and> ps \<noteq> [] \<and> last ps = i \<and> length ps \<le> 1) \<longleftrightarrow>
     (\<forall>j. start \<le> j \<and> occurs lines chunk j \<longleftrightarrow> j = i)"
proof -
  have "(\<exists>ps. ps = positions lines chunk start \<and> ps \<noteq> [] \<and> last ps = i \<and> length ps \<le> 1) \<longleftrightarrow>
      positions lines chunk start = [i]"
    by (cases "positions lines chunk start") (auto simp: Suc_le_eq)
  also have "\<dots> \<longleftrightarrow> set (positions lines chunk start) = {i}"
    using distinct_positions [of lines chunk start]
    by (metis distinct_singleton empty_set list.simps(15) set_empty2 distinct_card card.empty
        length_Suc_conv length_0_conv One_nat_def card_insert_if finite.emptyI list.set_intros(1)
        singletonD empty_iff)
  finally show ?thesis using set_positions [OF assms] by auto
qed

lemma findUniqueChunk_chosen:
  assumes "chunk \<noteq> []"
  shows "(\<exists>n \<le> 1. findUniqueChunk lines chunk start = (Some i, n)) \<longleftrightarrow> chosen start lines chunk i"
proof -
  let ?P = "\<lambda>s. positions lines chunk s"
  have none: "?P start = [] \<longleftrightarrow> \<not> (\<exists>j \<ge> start. occurs lines chunk j)"
    using set_positions [OF assms, of lines start] by (metis (mono_tags, lifting) empty_set mem_Collect_eq set_empty empty_iff empty_Collect_eq)
  have one: "(\<exists>n \<le> 1. (if ?P s = [] then None else Some (last (?P s)), length (?P s)) = (Some i, n)) \<longleftrightarrow>
      (\<forall>j. s \<le> j \<and> occurs lines chunk j \<longleftrightarrow> j = i)" for s
    using positions_single [OF assms, of lines s i] by auto
  show ?thesis
  proof (cases "?P start = [] \<and> 0 < start")
    case True
    with none have "chosen start lines chunk i \<longleftrightarrow> (\<forall>j. occurs lines chunk j \<longleftrightarrow> j = i)" by (auto simp: chosen_def)
    with True one [of 0] show ?thesis
      by (simp add: findUniqueChunk_def assms matchFrom_positions Let_def)
  next
    case False
    have "chosen start lines chunk i \<longleftrightarrow> (\<forall>j. start \<le> j \<and> occurs lines chunk j \<longleftrightarrow> j = i)"
      using False none by (auto simp: chosen_def)
    with False one [of start] show ?thesis
      by (auto simp: findUniqueChunk_def assms matchFrom_positions Let_def)
  qed
qed

lemma hunksLoop_patched:
  "hunksLoop hunks lines start force = Inr (out, force') \<longleftrightarrow>
     patched start lines (map materializeHunk hunks) out \<and> force' = (force \<or> list_ex ph_endOfFile hunks)"
proof (induction hunks arbitrary: lines start force)
  case Nil
  show ?case by (auto intro: patched.intros elim: patched_NilE)
next
  case (Cons hunk hunks)
  obtain oldC newC where m: "materializeHunk hunk = (oldC, newC)" by fastforce
  show ?case
  proof (cases "oldC = []")
    case True
    then show ?thesis by (auto simp: m elim: patched_ConsE)
  next
    case ne: False
    let ?go = "\<lambda>i. hunksLoop hunks (replaceChunk lines i (i + length oldC) newC) (i + length newC) (force \<or> ph_endOfFile hunk)"
    have "hunksLoop (hunk # hunks) lines start force = Inr (out, force') \<longleftrightarrow>
        (\<exists>i. (\<exists>n \<le> 1. findUniqueChunk lines oldC start = (Some i, n)) \<and> ?go i = Inr (out, force'))"
      by (auto simp: m ne split: prod.splits option.splits if_splits)
    also have "\<dots> \<longleftrightarrow> (\<exists>i. chosen start lines oldC i \<and>
        patched (i + length newC) (replaceChunk lines i (i + length oldC) newC) (map materializeHunk hunks) out) \<and>
        force' = (force \<or> list_ex ph_endOfFile (hunk # hunks))"
      unfolding findUniqueChunk_chosen [OF ne] Cons.IH by auto
    also have "(\<exists>i. chosen start lines oldC i \<and>
        patched (i + length newC) (replaceChunk lines i (i + length oldC) newC) (map materializeHunk hunks) out) \<longleftrightarrow>
        patched start lines (map materializeHunk (hunk # hunks)) out"
    proof
      assume "\<exists>i. chosen start lines oldC i \<and>
        patched (i + length newC) (replaceChunk lines i (i + length oldC) newC) (map materializeHunk hunks) out"
      then obtain i where i: "chosen start lines oldC i"
        "patched (i + length newC) (replaceChunk lines i (i + length oldC) newC) (map materializeHunk hunks) out"
        by blast
      then have "occurs lines oldC i" by (blast intro: chosen_occurs)
      then obtain a b where "lines = a @ oldC @ b" "length a = i" unfolding occurs_def by blast
      with i ne m show "patched start lines (map materializeHunk (hunk # hunks)) out"
        by (auto simp: replaceChunk_def intro: patched_Cons)
    next
      assume "patched start lines (map materializeHunk (hunk # hunks)) out"
      then have "patched start lines ((oldC, newC) # map materializeHunk hunks) out" by (simp add: m)
      then show "\<exists>i. chosen start lines oldC i \<and>
        patched (i + length newC) (replaceChunk lines i (i + length oldC) newC) (map materializeHunk hunks) out"
        by (rule patched_ConsE) (auto simp: replaceChunk_def)
    qed
    finally show ?thesis by blast
  qed
qed

text \<open>
  C30: the hunks of an update are applied exactly as specified: the result is the file's lines with
  each hunk's old lines, found at the one place the hunk can mean, replaced by its new lines and
  nothing else changed; the trailing newline stays unless a hunk ends the file; and the update is
  refused exactly when some hunk has no old lines, no place or several places.
\<close>

theorem applyHunks_refines:
  "applyHunks t hunks = Inr out \<longleftrightarrow>
     (if hunks = [] then out = t
      else \<exists>lines. patched 0 (splitLogicalLines t) (map materializeHunk hunks) lines \<and>
             out = joinStr LF lines @ (if list_ex ph_endOfFile hunks then [] else trailing t))"
proof (cases "hunks = []")
  case False
  have "applyHunks t hunks = Inr out \<longleftrightarrow> (\<exists>lines f. hunksLoop hunks (splitLogicalLines t) 0 False = Inr (lines, f) \<and>
      out = joinStr LF lines @ (if f then [] else trailing t))"
    using False by (auto simp: applyHunks_def trailing_def split: sum.splits)
  with False show ?thesis by (auto simp: hunksLoop_patched)
qed (auto simp: applyHunks_def)

section \<open>Printing patches\<close>

definition printLine :: "patchLine \<Rightarrow> gostr" where
  "printLine l = pl_kind l # pl_text l"

definition printHunk :: "patchHunk \<Rightarrow> gostr list" where
  "printHunk h =
     (lit ''@@'' @ (if ph_header h = [] then [] else 32 # ph_header h)) #
     map printLine (ph_lines h) @ (if ph_endOfFile h then [patchEndOfFileMarker] else [])"

definition printOp :: "patchFileOp \<Rightarrow> gostr list" where
  "printOp op =
     (if po_kind op = lit ''add''
      then (patchAddFileMarker @ po_path op) # map ((#) 43) (po_addLines op)
      else if po_kind op = lit ''delete'' then [patchDeleteFileMarker @ po_path op]
      else (patchUpdateFileMarker @ po_path op) #
           (if po_moveTo op = [] then [] else [patchMoveToMarker @ po_moveTo op]) @
           concat (map printHunk (po_hunks op)))"

definition printPatch :: "patchFileOp list \<Rightarrow> gostr" where
  "printPatch ops = joinStr LF (patchBeginMarker # concat (map printOp ops) @ [patchEndMarker])"

text \<open>The operations that can be written as a patch.\<close>

definition oneLine :: "gostr \<Rightarrow> bool" where
  "oneLine s \<longleftrightarrow> 10 \<notin> set s \<and> 13 \<notin> set s"

definition pathText :: "gostr \<Rightarrow> bool" where
  "pathText s \<longleftrightarrow> s \<noteq> [] \<and> trimSpace s = s \<and> oneLine s"

definition wfHunk :: "patchHunk \<Rightarrow> bool" where
  "wfHunk h \<longleftrightarrow> trimSpace (ph_header h) = ph_header h \<and> oneLine (ph_header h) \<and> ph_lines h \<noteq> [] \<and>
     list_all (\<lambda>l. pl_kind l \<in> {32, 43, 45} \<and> oneLine (pl_text l)) (ph_lines h)"

definition wfOp :: "patchFileOp \<Rightarrow> bool" where
  "wfOp op \<longleftrightarrow> pathText (po_path op) \<and>
     (if po_kind op = lit ''add''
      then po_moveTo op = [] \<and> po_hunks op = [] \<and> po_addLines op \<noteq> [] \<and> list_all oneLine (po_addLines op)
      else if po_kind op = lit ''delete''
      then po_moveTo op = [] \<and> po_hunks op = [] \<and> po_addLines op = []
      else po_kind op = lit ''update'' \<and> po_addLines op = [] \<and> (po_moveTo op = [] \<or> pathText (po_moveTo op)) \<and>
           list_all wfHunk (po_hunks op) \<and> (po_hunks op \<noteq> [] \<or> po_moveTo op \<noteq> []))"

definition wfPatch :: "patchFileOp list \<Rightarrow> bool" where
  "wfPatch ops \<longleftrightarrow> ops \<noteq> [] \<and> list_all wfOp ops"

lemmas marker_defs = patchBeginMarker_def patchEndMarker_def patchAddFileMarker_def
  patchDeleteFileMarker_def patchUpdateFileMarker_def patchMoveToMarker_def patchEndOfFileMarker_def

lemma hasPrefix_hd: "hasPrefix s (c # p) \<Longrightarrow> s \<noteq> [] \<and> hd s = c"
  by (cases s) (auto simp: hasPrefix_def)

lemma startsOp_hd: "startsOp l \<Longrightarrow> l \<noteq> [] \<and> hd l = 42"
  by (auto simp: startsOp_def marker_defs lit_def dest: hasPrefix_hd)

lemma hunkStart_hd: "hasPrefix l (lit ''@@'') \<Longrightarrow> l \<noteq> [] \<and> hd l = 64"
  by (auto simp: lit_def dest: hasPrefix_hd)

lemma marker_startsOp [simp]:
  "startsOp patchEndMarker" "startsOp (patchAddFileMarker @ p)"
  "startsOp (patchDeleteFileMarker @ p)" "startsOp (patchUpdateFileMarker @ p)"
  by (simp_all add: startsOp_def)

lemma headerText_append [simp]: "trimSpace p = p \<Longrightarrow> headerText m (m @ p) = p"
  by (simp add: headerText_def trimPrefix_def)

lemma trimSpace_Cons_space: "isSpace c \<Longrightarrow> trimSpace (c # s) = trimSpace s"
  by (simp add: trimSpace_def)

lemma headerText_hunk:
  "trimSpace h = h \<Longrightarrow> headerText (lit ''@@'') (lit ''@@'' @ (if h = [] then [] else 32 # h)) = h"
proof -
  have "isSpace 32" by code_simp
  then show "trimSpace h = h \<Longrightarrow> ?thesis"
    by (simp add: headerText_def trimPrefix_def trimSpace_Cons_space)
qed

subsection \<open>Reading what was printed\<close>

definition boundary :: "gostr list \<Rightarrow> bool" where
  "boundary rest \<longleftrightarrow> rest \<noteq> [] \<and> startsOp (hd rest)"

lemma hunkLoop_eof:
  assumes "rest \<noteq> []" "startsOp (hd rest) \<or> hasPrefix (hd rest) (lit ''@@'')" "acc \<noteq> []"
  shows "hunkLoop rest acc e = Inr (acc, e, rest)"
proof -
  obtain l r where rest: "rest = l # r" using assms(1) by (cases rest) auto
  have "\<not> startsOp patchEndOfFileMarker" "\<not> hasPrefix patchEndOfFileMarker (lit ''@@'')" by code_simp+
  with assms rest have "l \<noteq> patchEndOfFileMarker" by auto
  with assms rest show ?thesis by simp
qed

lemma printLine_hunkLine:
  assumes "pl_kind l \<in> {32, 43, 45}"
  shows "isHunkLine (printLine l)" "\<not> startsOp (printLine l)" "\<not> hasPrefix (printLine l) (lit ''@@'')"
    "printLine l \<noteq> patchEndOfFileMarker" "\<lparr>pl_kind = hd (printLine l), pl_text = tl (printLine l)\<rparr> = l"
  using assms startsOp_hd [of "printLine l"] hunkStart_hd [of "printLine l"]
  by (auto simp: printLine_def isHunkLine_def marker_defs lit_def)

lemma hunkLoop_print:
  assumes "list_all (\<lambda>l. pl_kind l \<in> {32, 43, 45}) ls" "acc @ ls \<noteq> []"
    "rest \<noteq> []" "startsOp (hd rest) \<or> hasPrefix (hd rest) (lit ''@@'')"
  shows "hunkLoop (map printLine ls @ (if e then [patchEndOfFileMarker] else []) @ rest) acc False =
     Inr (acc @ ls, e, rest)"
  using assms(1,2)
proof (induction ls arbitrary: acc)
  case Nil
  then show ?case using hunkLoop_eof [OF assms(3,4)] by auto
next
  case (Cons l ls)
  from Cons.prems have "pl_kind l \<in> {32, 43, 45}" by simp
  note printLine_hunkLine [OF this]
  with Cons show ?case by simp
qed

lemma updateLoop_print:
  assumes "boundary rest" "list_all wfHunk hs" "acc @ hs \<noteq> [] \<or> m \<noteq> []"
  shows "updateLoop m (concat (map printHunk hs) @ rest) acc = Inr (acc @ hs, rest)"
  using assms(2,3)
proof (induction hs arbitrary: acc)
  case Nil
  with assms(1) show ?case by (cases rest) (auto simp: boundary_def updateLoop.simps)
next
  case (Cons h hs)
  let ?line = "lit ''@@'' @ (if ph_header h = [] then [] else 32 # ph_header h)"
  let ?rest = "concat (map printHunk hs) @ rest"
  have hd: "?rest \<noteq> []" "startsOp (hd ?rest) \<or> hasPrefix (hd ?rest) (lit ''@@'')"
    using assms(1) by (cases hs; simp add: boundary_def printHunk_def)+
  have wf: "wfHunk h" using Cons.prems by simp
  have "hunkLoop (map printLine (ph_lines h) @ (if ph_endOfFile h then [patchEndOfFileMarker] else []) @ ?rest) [] False =
      Inr ([] @ ph_lines h, ph_endOfFile h, ?rest)"
    using wf hd by (intro hunkLoop_print) (auto simp: wfHunk_def list_all_iff)
  then have p: "parseHunk ?line (map printLine (ph_lines h) @ (if ph_endOfFile h then [patchEndOfFileMarker] else []) @ ?rest) =
      Inr (h, ?rest)"
    using wf by (simp add: parseHunk_def headerText_hunk wfHunk_def)
  have at: "hasPrefix ?line (lit ''@@'')" by simp
  then have no: "\<not> startsOp ?line" using startsOp_hd [of ?line] hunkStart_hd [of ?line] by auto
  have "printHunk h @ ?rest =
      ?line # (map printLine (ph_lines h) @ (if ph_endOfFile h then [patchEndOfFileMarker] else []) @ ?rest)"
    unfolding printHunk_def by simp
  then have "updateLoop m (printHunk h @ ?rest) acc = updateLoop m ?rest (acc @ [h])"
    using no at p by (simp only: updateLoop.simps if_True if_False sum.case prod.case)
  with Cons show ?case by simp
qed

lemma hasPrefix_trans: "hasPrefix s (p @ q) \<Longrightarrow> hasPrefix s p"
  by (metis append.assoc hasPrefixE hasPrefix_append)

lemma startsOp_stars: "startsOp l \<Longrightarrow> l = patchEndMarker \<or> hasPrefix l (lit ''*** '')"
proof -
  have "patchAddFileMarker = lit ''*** '' @ lit ''Add File: ''"
    "patchDeleteFileMarker = lit ''*** '' @ lit ''Delete File: ''"
    "patchUpdateFileMarker = lit ''*** '' @ lit ''Update File: ''"
    by (simp_all add: marker_defs lit_def)
  then show "startsOp l \<Longrightarrow> ?thesis" unfolding startsOp_def by (metis hasPrefix_trans)
qed

lemma addLoop_print:
  assumes "boundary rest"
  shows "addLoop (map ((#) 43) ls @ rest) acc = Inr (acc @ ls, rest)"
proof (induction ls arbitrary: acc)
  case Nil
  obtain l r where rest: "rest = l # r" "startsOp l" using assms by (cases rest) (auto simp: boundary_def)
  then have "l = patchEndMarker \<or> hasPrefix l (lit ''*** '')"
    using startsOp_stars by blast
  with rest show ?case by auto
next
  case (Cons l ls)
  have "\<not> hasPrefix (43 # l) (lit ''*** '')" "43 # l \<noteq> patchEndMarker"
    by (auto simp: lit_def hasPrefix_def marker_defs)
  with Cons show ?case by simp
qed

lemma opsLoop_markers:
  "patchAddFileMarker @ p \<noteq> []" "patchAddFileMarker @ p \<noteq> patchEndMarker"
  "patchDeleteFileMarker @ p \<noteq> []" "patchDeleteFileMarker @ p \<noteq> patchEndMarker"
  "\<not> hasPrefix (patchDeleteFileMarker @ p) patchAddFileMarker"
  "patchUpdateFileMarker @ p \<noteq> []" "patchUpdateFileMarker @ p \<noteq> patchEndMarker"
  "\<not> hasPrefix (patchUpdateFileMarker @ p) patchAddFileMarker"
  "\<not> hasPrefix (patchUpdateFileMarker @ p) patchDeleteFileMarker" "patchEndMarker \<noteq> []"
  by (simp_all add: marker_defs lit_def hasPrefix_def)

lemma opsLoop_op:
  assumes "wfOp op" "boundary rest"
  shows "opsLoop (printOp op @ rest) acc = opsLoop rest (acc @ [op])"
proof -
  have path: "po_path op \<noteq> []" "trimSpace (po_path op) = po_path op" using assms by (auto simp: wfOp_def pathText_def)
  consider "po_kind op = lit ''add''" | "po_kind op = lit ''delete''" | "po_kind op = lit ''update''"
    using assms(1) unfolding wfOp_def by metis
  then show ?thesis
  proof cases
    case 1
    have e: "\<lparr>po_kind = lit ''add'', po_path = po_path op, po_moveTo = [], po_addLines = po_addLines op, po_hunks = []\<rparr> = op"
      and ne: "po_addLines op \<noteq> []" using assms(1) 1 by (cases op; simp add: wfOp_def)+
    with 1 path addLoop_print [OF assms(2), of "po_addLines op" "[]"] show ?thesis
      by (simp add: printOp_def opsLoop.simps opsLoop_markers parseAddFile_def)
  next
    case 2
    have "\<lparr>po_kind = lit ''delete'', po_path = po_path op, po_moveTo = [], po_addLines = [], po_hunks = []\<rparr> = op"
      using assms(1) 2 by (cases op) (simp add: wfOp_def)
    with 2 path show ?thesis
      by (simp add: printOp_def opsLoop.simps opsLoop_markers parseDeleteFile_def)
  next
    case 3
    let ?m = "po_moveTo op" and ?h = "concat (map printHunk (po_hunks op)) @ rest"
    have wf: "po_addLines op = []" "?m = [] \<or> pathText ?m" "list_all wfHunk (po_hunks op)"
      "[] @ po_hunks op \<noteq> [] \<or> ?m \<noteq> []" using assms(1) 3 by (auto simp: wfOp_def)
    have "parseMove ((if ?m = [] then [] else [patchMoveToMarker @ ?m]) @ ?h) = Inr (?m, ?h)"
    proof (cases "?m = []")
      case True
      then obtain h hs where "po_hunks op = h # hs" using wf by (cases "po_hunks op") auto
      moreover have "\<not> hasPrefix (lit ''@@'' @ x) patchMoveToMarker" for x
        by (simp add: marker_defs lit_def hasPrefix_def)
      ultimately show ?thesis using True by (simp add: parseMove_def printHunk_def)
    next
      case False
      with wf show ?thesis by (simp add: parseMove_def pathText_def)
    qed
    moreover note updateLoop_print [OF assms(2) wf(3,4)]
    moreover have e: "\<lparr>po_kind = lit ''update'', po_path = po_path op, po_moveTo = ?m, po_addLines = [], po_hunks = po_hunks op\<rparr> = op"
      using wf(1) 3 by (cases op) simp
    ultimately show ?thesis using 3 path
      by (simp add: printOp_def opsLoop.simps opsLoop_markers parseUpdateFile_def e)
  qed
qed

lemma printOp_boundary: "wfOp op \<Longrightarrow> boundary (printOp op @ rest)"
  by (auto simp: printOp_def boundary_def)

lemma opsLoop_print:
  assumes "list_all wfOp ops" "acc @ ops \<noteq> []"
  shows "opsLoop (concat (map printOp ops) @ [patchEndMarker]) acc = Inr (acc @ ops)"
  using assms
proof (induction ops arbitrary: acc)
  case Nil
  then show ?case by (simp add: opsLoop.simps opsLoop_markers)
next
  case (Cons op ops)
  have "boundary (concat (map printOp ops) @ [patchEndMarker])"
    using Cons.prems by (cases ops) (auto simp: boundary_def [of "[patchEndMarker]"] intro: printOp_boundary)
  with Cons show ?case by (simp add: opsLoop_op)
qed

subsection \<open>Printed lines\<close>

lemma markers_oneLine [simp]:
  "oneLine patchBeginMarker" "oneLine patchEndMarker" "oneLine (patchAddFileMarker @ p) = oneLine p"
  "oneLine (patchDeleteFileMarker @ p) = oneLine p" "oneLine (patchUpdateFileMarker @ p) = oneLine p"
  "oneLine (patchMoveToMarker @ p) = oneLine p" "oneLine patchEndOfFileMarker"
  by (auto simp: oneLine_def marker_defs lit_def)

lemma printHunk_oneLine: "wfHunk h \<Longrightarrow> list_all oneLine (printHunk h)"
  by (auto simp: wfHunk_def printHunk_def printLine_def list_all_iff) (auto simp: oneLine_def lit_def)

lemma printOp_oneLine: "wfOp op \<Longrightarrow> list_all oneLine (printOp op)"
proof -
  have "oneLine (43 # l) = oneLine l" for l by (auto simp: oneLine_def)
  moreover have "list_all oneLine (concat (map printHunk hs))" if "list_all wfHunk hs" for hs
    using that printHunk_oneLine by (induction hs) auto
  ultimately show "wfOp op \<Longrightarrow> ?thesis"
    by (auto simp: wfOp_def printOp_def pathText_def list_all_iff split: if_splits)
qed

lemma oneLine_normal: "oneLine s \<Longrightarrow> normal s = s"
  by (simp add: oneLine_def normal_id)

lemma parsePatch_print:
  assumes "wfPatch ops"
  shows "parsePatch (printPatch ops) = Inr ops"
proof -
  let ?ls = "patchBeginMarker # concat (map printOp ops) @ [patchEndMarker]"
  have all: "\<forall>l \<in> set ?ls. oneLine l"
    using assms printOp_oneLine by (auto simp: wfPatch_def list_all_iff)
  have "13 \<notin> set (joinStr LF ls)" if "\<forall>l \<in> set ls. oneLine l" for ls
    using that by (induction ls) (auto simp: joinStr_Cons oneLine_def LF_def)
  with all have n: "normalizeLineEndings (printPatch ops) = printPatch ops"
    unfolding printPatch_def normalize_normal by (metis normal_id)
  have s: "splitRune 10 (printPatch ops) = ?ls"
    unfolding printPatch_def LF_def by (rule splitRune_joinStr) (use all in \<open>auto simp: oneLine_def\<close>)
  have "\<not> list_all isSpace (printPatch ops)"
    by (auto simp: printPatch_def joinStr_Cons patchBeginMarker_def lit_def isSpace_def space_ranges_def)
  then have t: "trimSpace (printPatch ops) \<noteq> []" by (simp add: trimSpace_empty_iff)
  have b: "patchBeginMarker \<noteq> []" by (simp add: marker_defs)
  from assms have "opsLoop (concat (map printOp ops) @ [patchEndMarker]) [] = Inr ops"
    using opsLoop_print [of ops "[]"] by (simp add: wfPatch_def)
  then show ?thesis by (simp add: parsePatch_def n t s b)
qed

subsection \<open>What the parser returns\<close>

lemma headerText_trimmed [simp]: "trimSpace (headerText m line) = headerText m line"
  by (simp add: headerText_def)

lemma headerText_oneLine: "oneLine line \<Longrightarrow> oneLine (headerText m line)"
  using trimSpace_subset [of "trimPrefix line m"]
  by (auto simp: headerText_def oneLine_def trimPrefix_def split: if_splits dest: in_set_dropD)

lemma tl_oneLine: "oneLine line \<Longrightarrow> oneLine (tl line)"
  by (cases line) (auto simp: oneLine_def)

lemma addLoop_wf:
  assumes "addLoop lines acc = Inr (ls, rest)" "list_all oneLine lines" "list_all oneLine acc"
  shows "list_all oneLine ls \<and> list_all oneLine rest"
  using assms by (induction lines acc rule: addLoop.induct) (auto simp: tl_oneLine split: if_splits)

lemma hunkLoop_wf:
  assumes "hunkLoop lines acc e = Inr (ls, e', rest)" "list_all oneLine lines"
    "list_all (\<lambda>l. pl_kind l \<in> {32, 43, 45} \<and> oneLine (pl_text l)) acc"
  shows "list_all (\<lambda>l. pl_kind l \<in> {32, 43, 45} \<and> oneLine (pl_text l)) ls \<and> ls \<noteq> [] \<and> list_all oneLine rest"
  using assms
  by (induction lines acc e rule: hunkLoop.induct) (auto simp: tl_oneLine isHunkLine_def split: if_splits)

lemma parseHunk_wf:
  assumes "parseHunk line rest = Inr (h, rest')" "list_all oneLine (line # rest)"
  shows "wfHunk h \<and> list_all oneLine rest'"
  using assms hunkLoop_wf [of rest "[]" False]
  by (auto simp: parseHunk_def wfHunk_def headerText_oneLine split: sum.splits)

lemma updateLoop_wf:
  assumes "updateLoop m lines acc = Inr (hs, rest)" "list_all oneLine lines" "list_all wfHunk acc"
  shows "list_all wfHunk hs \<and> (hs \<noteq> [] \<or> m \<noteq> []) \<and> list_all oneLine rest"
  using assms
proof (induction m lines acc rule: updateLoop.induct)
  case (1 m acc)
  then show ?case by (simp add: updateLoop.simps split: if_splits)
next
  case (2 m line rest' acc)
  consider "startsOp line" | "\<not> startsOp line" "hasPrefix line (lit ''@@'')" | "\<not> startsOp line" "\<not> hasPrefix line (lit ''@@'')"
    by blast
  then show ?case
  proof cases
    case 1
    with "2.prems" show ?thesis by (auto simp: updateLoop.simps split: if_splits)
  next
    case at: 2
    with "2.prems"(1) obtain h rest'' where h: "parseHunk line rest' = Inr (h, rest'')"
      "updateLoop m rest'' (acc @ [h]) = Inr (hs, rest)"
      by (auto simp: updateLoop.simps split: sum.splits)
    from parseHunk_wf [OF h(1) "2.prems"(2)] "2.prems"(3) have "list_all oneLine rest''" "list_all wfHunk (acc @ [h])"
      by simp_all
    with "2.IH"(1) [OF at h(1) refl h(2)] show ?thesis by blast
  next
    case 3
    with "2.prems" have "line = []" by (auto simp: updateLoop.simps split: if_splits)
    moreover from this 3 "2.prems" have "updateLoop m rest' acc = Inr (hs, rest)" by (simp add: updateLoop.simps)
    ultimately show ?thesis using "2.IH"(2) [OF 3] "2.prems" by simp
  qed
qed

lemma parseAddFile_wf:
  assumes "parseAddFile line rest = Inr (op, rest')" "list_all oneLine (line # rest)"
  shows "wfOp op \<and> list_all oneLine rest'"
  using assms addLoop_wf [of rest "[]"]
  by (auto simp: parseAddFile_def Let_def wfOp_def pathText_def headerText_oneLine split: sum.splits if_splits)

lemma parseDeleteFile_wf: "parseDeleteFile line = Inr op \<Longrightarrow> oneLine line \<Longrightarrow> wfOp op"
  by (auto simp: parseDeleteFile_def Let_def wfOp_def pathText_def headerText_oneLine split: if_splits)

lemma parseMove_wf:
  assumes "parseMove lines = Inr (m, rest)" "list_all oneLine lines"
  shows "(m = [] \<or> pathText m) \<and> list_all oneLine rest"
  using assms by (auto simp: parseMove_def Let_def pathText_def headerText_oneLine split: list.splits if_splits)

lemma parseUpdateFile_wf:
  assumes "parseUpdateFile line rest = Inr (op, rest')" "list_all oneLine (line # rest)"
  shows "wfOp op \<and> list_all oneLine rest'"
proof -
  from assms(1) obtain m rest1 hs where p: "headerText patchUpdateFileMarker line \<noteq> []"
    "parseMove rest = Inr (m, rest1)" "updateLoop m rest1 [] = Inr (hs, rest')"
    and op: "op = \<lparr>po_kind = lit ''update'', po_path = headerText patchUpdateFileMarker line, po_moveTo = m,
                    po_addLines = [], po_hunks = hs\<rparr>"
    by (auto simp: parseUpdateFile_def Let_def split: sum.splits if_splits)
  from parseMove_wf [OF p(2)] assms(2) have m: "m = [] \<or> pathText m" "list_all oneLine rest1" by auto
  from updateLoop_wf [OF p(3) m(2)] have "list_all wfHunk hs" "hs \<noteq> [] \<or> m \<noteq> []" "list_all oneLine rest'" by auto
  with m p assms(2) show ?thesis by (simp add: op wfOp_def pathText_def headerText_oneLine)
qed

lemma opsLoop_add:
  "opsLoop ((patchAddFileMarker @ p) # rest) acc =
     (case parseAddFile (patchAddFileMarker @ p) rest of Inl e \<Rightarrow> Inl e | Inr (op, rest') \<Rightarrow> opsLoop rest' (acc @ [op]))"
  unfolding opsLoop.simps using opsLoop_markers by (simp only: if_False if_True hasPrefix_append)

lemma opsLoop_delete:
  "opsLoop ((patchDeleteFileMarker @ p) # rest) acc =
     (case parseDeleteFile (patchDeleteFileMarker @ p) of Inl e \<Rightarrow> Inl e | Inr op \<Rightarrow> opsLoop rest (acc @ [op]))"
  unfolding opsLoop.simps using opsLoop_markers by (simp only: if_False if_True hasPrefix_append)

lemma opsLoop_update:
  "opsLoop ((patchUpdateFileMarker @ p) # rest) acc =
     (case parseUpdateFile (patchUpdateFileMarker @ p) rest of Inl e \<Rightarrow> Inl e | Inr (op, rest') \<Rightarrow> opsLoop rest' (acc @ [op]))"
  unfolding opsLoop.simps using opsLoop_markers by (simp only: if_False if_True hasPrefix_append)

lemma opsLoop_wf:
  assumes "opsLoop lines acc = Inr ops" "list_all oneLine lines" "list_all wfOp acc"
  shows "wfPatch ops"
  using assms
proof (induction lines acc rule: opsLoop.induct)
  case (1 acc)
  then show ?case by (simp add: opsLoop.simps)
next
  case (2 line rest acc)
  have tail: "list_all oneLine rest" "oneLine line" using "2.prems" by simp_all
  consider "line = []" | "line = patchEndMarker" | "hasPrefix line patchAddFileMarker" | "hasPrefix line patchDeleteFileMarker"
    | "hasPrefix line patchUpdateFileMarker"
    using "2.prems"(1) by (auto simp: opsLoop.simps split: if_splits)
  then show ?case
  proof cases
    case 1
    with 2 show ?thesis by (simp add: opsLoop.simps)
  next
    case 2
    with "2.prems" show ?thesis by (auto simp: opsLoop.simps opsLoop_markers wfPatch_def split: if_splits)
  next
    case 3
    then obtain p where l: "line = patchAddFileMarker @ p" by (rule hasPrefixE)
    with "2.prems"(1) obtain op rest' where h: "parseAddFile line rest = Inr (op, rest')" "opsLoop rest' (acc @ [op]) = Inr ops"
      by (auto simp: opsLoop_add split: sum.splits)
    from parseAddFile_wf [OF h(1) "2.prems"(2)] "2.prems"(3) have "list_all oneLine rest'" "list_all wfOp (acc @ [op])" by auto
    with "2.IH"(2) [OF _ _ 3 h(1) refl h(2)] show ?thesis unfolding l using opsLoop_markers by blast
  next
    case 4
    then obtain p where l: "line = patchDeleteFileMarker @ p" by (rule hasPrefixE)
    with "2.prems"(1) obtain op where h: "parseDeleteFile line = Inr op" "opsLoop rest (acc @ [op]) = Inr ops"
      by (auto simp: opsLoop_delete split: sum.splits)
    from parseDeleteFile_wf [OF h(1) tail(2)] "2.prems"(3) have "list_all wfOp (acc @ [op])" by simp
    with "2.IH"(3) [OF _ _ _ 4 h(1) h(2) tail(1)] show ?thesis unfolding l using opsLoop_markers by blast
  next
    case 5
    then obtain p where l: "line = patchUpdateFileMarker @ p" by (rule hasPrefixE)
    with "2.prems"(1) obtain op rest' where h: "parseUpdateFile line rest = Inr (op, rest')" "opsLoop rest' (acc @ [op]) = Inr ops"
      by (auto simp: opsLoop_update split: sum.splits)
    from parseUpdateFile_wf [OF h(1) "2.prems"(2)] "2.prems"(3) have "list_all oneLine rest'" "list_all wfOp (acc @ [op])" by auto
    with "2.IH"(4) [OF _ _ _ _ 5 h(1) refl h(2)] show ?thesis unfolding l using opsLoop_markers by blast
  qed
qed

text \<open>
  C29: the patch parser returns exactly the well-formed lists of operations, and printing such a
  list and parsing the text gives the list back: no operation, path, move, line or end-of-file
  mark is lost, merged or read as another; every accepted operation has a trimmed, non-empty
  path, every added file a line, every update a hunk or a move, and every hunk a line.
\<close>

theorem patch_roundtrip:
  "((\<exists>s. parsePatch s = Inr ops) \<longleftrightarrow> wfPatch ops) \<and>
   (parsePatch (printPatch ops) = Inr ops \<longleftrightarrow> wfPatch ops)"
proof -
  have "wfPatch ops" if "parsePatch s = Inr ops" for s
  proof -
    let ?ls = "splitRune 10 (normalizeLineEndings s)"
    have "list_all oneLine ?ls"
      using splitRune_join [of 10 "normalizeLineEndings s"] splitRune_subset [of _ 10 "normalizeLineEndings s"]
        normal_no_CR [of s] by (auto simp: list_all_iff oneLine_def normalize_normal)
    then have d: "list_all oneLine (dropWhile (\<lambda>l. l = []) ?ls)"
      by (auto simp: list_all_iff dest: set_dropWhileD)
    from that obtain rest where "dropWhile (\<lambda>l. l = []) ?ls = patchBeginMarker # rest" "opsLoop rest [] = Inr ops"
      by (auto simp: parsePatch_def Let_def split: list.splits if_splits)
    with d opsLoop_wf [of rest "[]" ops] show ?thesis by simp
  qed
  with parsePatch_print show ?thesis by blast
qed

end
