(* ===== verification/File_Paths.thy ===== *)
theory File_Paths
  imports Text_Lines Go_Path "HOL-Library.Product_Lexorder"
begin

text \<open>
  How \<open>systems/agent/internal/fileops\<close> resolves a path the model names to a file under one of its three
  configured roots, and the lexical half of its confinement: what of \<open>path.Clean\<close>,
  \<open>fs.ValidPath\<close> and \<open>filepath.IsLocal\<close> it uses on Unix, where \<open>filepath.FromSlash\<close> is the
  identity.
\<close>

record Settings =
  WorkspaceLocalDir :: gostr
  WorkspaceRuntimeDir :: gostr
  MemoryLocalDir :: gostr
  MemoryRuntimeDir :: gostr
  SkillsLocalDir :: gostr
  SkillsRuntimeDir :: gostr

record resolvedPath =
  rootLocalDir :: gostr
  rootRuntime :: gostr
  rel :: gostr
  runtimePath :: gostr

record runtimeRootMapping =
  localDir :: gostr
  runtimeDir :: gostr

datatype path_error =
    PathRequired | PathIsRoot | OutsideRoots "gostr list" | PathNotFile | PathBackslash
  | PathInvalid gostr | PathEscapes gostr

definition joinPath :: "gostr \<Rightarrow> gostr \<Rightarrow> gostr" where
  "joinPath a b =
     (if a = [] \<and> b = [] then []
      else if a = [] then cleanPath b
      else if b = [] then cleanPath a
      else cleanPath (a @ lit ''/'' @ b))"

text \<open>\<open>fs.ValidPath\<close>, \<open>filepath.IsLocal\<close> on Unix.\<close>

definition validPath :: "gostr \<Rightarrow> bool" where
  "validPath name \<longleftrightarrow>
     name = lit ''.'' \<or>
     list_all (\<lambda>elem. elem \<noteq> [] \<and> elem \<noteq> lit ''.'' \<and> elem \<noteq> lit ''..'') (splitRune 47 name)"

definition isLocal :: "gostr \<Rightarrow> bool" where
  "isLocal p \<longleftrightarrow>
     \<not> isAbs p \<and> p \<noteq> [] \<and>
     (let q = (if list_ex (\<lambda>elem. elem = lit ''.'' \<or> elem = lit ''..'') (splitRune 47 p) then cleanPath p else p)
      in q \<noteq> lit ''..'' \<and> \<not> hasPrefix q (lit ''../''))"

definition validateRelativePath :: "gostr \<Rightarrow> path_error option" where
  "validateRelativePath r =
     firstError
       [errIf (r = [] \<or> r = lit ''.'') PathNotFile,
        errIf (92 \<in> set r) PathBackslash,
        errIf (\<not> validPath r) (PathInvalid r),
        errIf (\<not> isLocal r) (PathEscapes r)]"

definition normalizeRuntimeRoot :: "gostr \<Rightarrow> gostr" where
  "normalizeRuntimeRoot root =
     (let root' = trimSpace root; cleaned = cleanPath root'
      in if root' = [] then [] else if \<not> isAbs cleaned then [] else cleaned)"

definition rootMappings :: "Settings \<Rightarrow> runtimeRootMapping list" where
  "rootMappings cfg =
     [\<lparr>localDir = trimSpace (WorkspaceLocalDir cfg), runtimeDir = normalizeRuntimeRoot (WorkspaceRuntimeDir cfg)\<rparr>,
      \<lparr>localDir = trimSpace (MemoryLocalDir cfg), runtimeDir = normalizeRuntimeRoot (MemoryRuntimeDir cfg)\<rparr>,
      \<lparr>localDir = trimSpace (SkillsLocalDir cfg), runtimeDir = normalizeRuntimeRoot (SkillsRuntimeDir cfg)\<rparr>]"

text \<open>The stable sort by descending length, then by name.\<close>

definition configuredAbsoluteRoots :: "Settings \<Rightarrow> runtimeRootMapping list" where
  "configuredAbsoluteRoots cfg =
     sort_key (\<lambda>root. (- int (byteLen (runtimeDir root)), runtimeDir root))
       (filter (\<lambda>root. runtimeDir root \<noteq> []) (rootMappings cfg))"

fun matchRoot :: "gostr \<Rightarrow> gostr list \<Rightarrow> runtimeRootMapping list \<Rightarrow> path_error + resolvedPath" where
  "matchRoot cleaned names [] = Inl (OutsideRoots names)"
| "matchRoot cleaned names (root # roots) =
     (if hasPrefix cleaned (runtimeDir root @ lit ''/'')
      then (let r = trimPrefix cleaned (runtimeDir root @ lit ''/'')
            in case validateRelativePath r of
                 Some e \<Rightarrow> Inl e
               | None \<Rightarrow> Inr \<lparr>rootLocalDir = localDir root, rootRuntime = runtimeDir root, rel = r,
                              runtimePath = cleaned\<rparr>)
      else matchRoot cleaned names roots)"

definition resolveAbsolutePath :: "Settings \<Rightarrow> gostr \<Rightarrow> path_error + resolvedPath" where
  "resolveAbsolutePath cfg cleaned =
     (let roots = configuredAbsoluteRoots cfg
      in if list_ex (\<lambda>root. cleaned = runtimeDir root) roots then Inl PathIsRoot
         else matchRoot cleaned (map runtimeDir roots) roots)"

definition resolvePath :: "Settings \<Rightarrow> gostr \<Rightarrow> path_error + resolvedPath" where
  "resolvePath cfg raw =
     (let raw' = trimSpace raw; cleaned = cleanPath raw'; dir = normalizeRuntimeRoot (WorkspaceRuntimeDir cfg)
      in if raw' = [] then Inl PathRequired
         else if isAbs raw' then resolveAbsolutePath cfg cleaned
         else case validateRelativePath cleaned of
                Some e \<Rightarrow> Inl e
              | None \<Rightarrow> Inr \<lparr>rootLocalDir = trimSpace (WorkspaceLocalDir cfg), rootRuntime = dir, rel = cleaned,
                             runtimePath = joinPath dir cleaned\<rparr>)"

definition ResolveLocalPath :: "Settings \<Rightarrow> gostr \<Rightarrow> path_error + gostr \<times> gostr" where
  "ResolveLocalPath cfg rawPath =
     (case resolvePath cfg rawPath of
        Inl e \<Rightarrow> Inl e
      | Inr r \<Rightarrow> Inr (joinPath (rootLocalDir r) (rel r), runtimePath r))"

section \<open>Confinement\<close>

definition inside :: "gostr \<Rightarrow> bool" where
  "inside r \<longleftrightarrow>
     r \<noteq> [] \<and> 92 \<notin> set r \<and>
     list_all (\<lambda>c. c \<noteq> [] \<and> c \<noteq> lit ''.'' \<and> c \<noteq> lit ''..'') (splitRune 47 r)"

lemma validateRelativePath_inside: "validateRelativePath r = None \<Longrightarrow> inside r"
  by (auto simp: validateRelativePath_def validPath_def inside_def)

lemma trimPrefix_split: "hasPrefix s p \<Longrightarrow> s = p @ trimPrefix s p"
  by (auto simp: trimPrefix_def elim: hasPrefixE)

lemma matchRoot_first:
  assumes "matchRoot cleaned names roots = Inr r"
  shows "\<exists>pre root post. roots = pre @ root # post \<and> r = \<lparr>rootLocalDir = localDir root, rootRuntime = runtimeDir root,
       rel = rel r, runtimePath = cleaned\<rparr> \<and> cleaned = runtimeDir root @ lit ''/'' @ rel r \<and> inside (rel r) \<and>
     (\<forall>q \<in> set pre. \<not> hasPrefix cleaned (runtimeDir q @ lit ''/''))"
  using assms
proof (induction roots)
  case (Cons root roots)
  show ?case
  proof (cases "hasPrefix cleaned (runtimeDir root @ lit ''/'')")
    case True
    let ?r = "trimPrefix cleaned (runtimeDir root @ lit ''/'')"
    have c: "cleaned = runtimeDir root @ lit ''/'' @ ?r" using trimPrefix_split [OF True] by simp
    from Cons.prems True have "validateRelativePath ?r = None"
      and r: "r = \<lparr>rootLocalDir = localDir root, rootRuntime = runtimeDir root, rel = ?r, runtimePath = cleaned\<rparr>"
      by (auto simp: Let_def split: option.splits)
    then have "inside ?r" "rel r = ?r" by (simp_all add: validateRelativePath_inside)
    with r c show ?thesis by (metis append_Nil empty_iff list.set(1))
  next
    case False
    with Cons obtain pre root' post where "roots = pre @ root' # post"
      "r = \<lparr>rootLocalDir = localDir root', rootRuntime = runtimeDir root', rel = rel r, runtimePath = cleaned\<rparr>"
      "cleaned = runtimeDir root' @ lit ''/'' @ rel r" "inside (rel r)"
      "\<forall>q \<in> set pre. \<not> hasPrefix cleaned (runtimeDir q @ lit ''/'')" by auto
    with False show ?thesis
      by (intro exI [of _ "root # pre"] exI [of _ root'] exI [of _ post]) auto
  qed
qed simp

lemma roots_longest_first:
  assumes "configuredAbsoluteRoots cfg = pre @ root # post" "q \<in> set post"
  shows "byteLen (runtimeDir q) \<le> byteLen (runtimeDir root)"
proof -
  let ?k = "\<lambda>root. (- int (byteLen (runtimeDir root)), runtimeDir root)"
  have "sorted (map ?k (configuredAbsoluteRoots cfg))" by (simp add: configuredAbsoluteRoots_def)
  with assms have "?k root \<le> ?k q" by (auto simp: sorted_append)
  then show ?thesis by auto
qed

lemma joinPath_clean: "b \<noteq> [] \<Longrightarrow> joinPath a b = cleanPath (if a = [] then b else a @ lit ''/'' @ b)"
  by (simp add: joinPath_def)

text \<open>
  C31: a path the model names is resolved to a file strictly inside one of the configured roots:
  the relative path has no empty, dot or dot-dot component and no backslash, its local and
  runtime root are a configured pair, a relative path belongs to the workspace, and an absolute
  one is its runtime root, a slash and the relative path, where the root is the longest of the
  configured roots the path is under.
\<close>

theorem resolved_path_confined:
  assumes "resolvePath cfg raw = Inr r"
  shows "inside (rel r) \<and> \<lparr>localDir = rootLocalDir r, runtimeDir = rootRuntime r\<rparr> \<in> set (rootMappings cfg) \<and>
     (if isAbs (trimSpace raw)
      then runtimePath r = cleanPath (trimSpace raw) \<and> runtimePath r = rootRuntime r @ lit ''/'' @ rel r \<and>
           (\<forall>root \<in> set (rootMappings cfg). runtimeDir root \<noteq> [] \<and> hasPrefix (runtimePath r) (runtimeDir root @ lit ''/'') \<longrightarrow>
              byteLen (runtimeDir root) \<le> byteLen (rootRuntime r))
      else \<lparr>localDir = rootLocalDir r, runtimeDir = rootRuntime r\<rparr> = hd (rootMappings cfg) \<and>
           runtimePath r = cleanPath (if rootRuntime r = [] then rel r else rootRuntime r @ lit ''/'' @ rel r))"
proof (cases "isAbs (trimSpace raw)")
  case True
  let ?c = "cleanPath (trimSpace raw)"
  have "matchRoot ?c (map runtimeDir (configuredAbsoluteRoots cfg)) (configuredAbsoluteRoots cfg) = Inr r"
    using assms True by (auto simp: resolvePath_def resolveAbsolutePath_def Let_def split: if_splits)
  from matchRoot_first [OF this] obtain pre root post where
    roots: "configuredAbsoluteRoots cfg = pre @ root # post"
    and r: "r = \<lparr>rootLocalDir = localDir root, rootRuntime = runtimeDir root, rel = rel r, runtimePath = ?c\<rparr>"
    and c: "?c = runtimeDir root @ lit ''/'' @ rel r" "inside (rel r)"
    and first: "\<forall>q \<in> set pre. \<not> hasPrefix ?c (runtimeDir q @ lit ''/'')" by blast
  have set: "set (configuredAbsoluteRoots cfg) = {q \<in> set (rootMappings cfg). runtimeDir q \<noteq> []}"
    by (simp add: configuredAbsoluteRoots_def)
  have f: "rootLocalDir r = localDir root" "rootRuntime r = runtimeDir root" "runtimePath r = ?c"
    by (subst r, simp)+
  have "byteLen (runtimeDir q) \<le> byteLen (runtimeDir root)"
    if "q \<in> set (rootMappings cfg)" "runtimeDir q \<noteq> []" "hasPrefix ?c (runtimeDir q @ lit ''/'')" for q
  proof -
    have "q \<in> set pre \<union> {root} \<union> set post" using that set unfolding roots by auto
    with that first roots_longest_first [OF roots] show ?thesis by auto
  qed
  then have long: "\<forall>q \<in> set (rootMappings cfg). runtimeDir q \<noteq> [] \<and> hasPrefix (runtimePath r) (runtimeDir q @ lit ''/'') \<longrightarrow>
      byteLen (runtimeDir q) \<le> byteLen (rootRuntime r)" unfolding f by blast
  have pair: "\<lparr>localDir = rootLocalDir r, runtimeDir = rootRuntime r\<rparr> = root" unfolding f by simp
  have "\<lparr>localDir = rootLocalDir r, runtimeDir = rootRuntime r\<rparr> \<in> set (rootMappings cfg)"
    unfolding pair using set unfolding roots by auto
  with long True c(2) f(3) c(1) show ?thesis unfolding f(2) by (simp only: if_P)
next
  case False
  from assms False obtain "validateRelativePath (cleanPath (trimSpace raw)) = None"
    and r: "r = \<lparr>rootLocalDir = trimSpace (WorkspaceLocalDir cfg), rootRuntime = normalizeRuntimeRoot (WorkspaceRuntimeDir cfg),
      rel = cleanPath (trimSpace raw), runtimePath = joinPath (normalizeRuntimeRoot (WorkspaceRuntimeDir cfg)) (cleanPath (trimSpace raw))\<rparr>"
    by (auto simp: resolvePath_def Let_def split: if_splits option.splits)
  then have "inside (rel r)" by (simp add: validateRelativePath_inside)
  with False show ?thesis by (simp add: r rootMappings_def joinPath_clean inside_def)
qed

text \<open>The roots of the sandbox, and a path that climbs within one.\<close>

definition sampleRoots :: Settings where
  "sampleRoots = \<lparr>WorkspaceLocalDir = lit ''/w'', WorkspaceRuntimeDir = lit ''/workspace'', MemoryLocalDir = lit ''/m'',
     MemoryRuntimeDir = lit ''/workspace/memory'', SkillsLocalDir = lit ''/s'', SkillsRuntimeDir = []\<rparr>"

theorem resolved_path_confined_witness:
  "resolvePath sampleRoots (lit ''/workspace/x/../memory//notes'') = Inr \<lparr>rootLocalDir = lit ''/m'',
     rootRuntime = lit ''/workspace/memory'', rel = lit ''notes'', runtimePath = lit ''/workspace/memory/notes''\<rparr> \<and>
   inside (lit ''notes'')"
proof -
  have "resolvePath sampleRoots (lit ''/workspace/x/../memory//notes'') = Inr \<lparr>rootLocalDir = lit ''/m'',
     rootRuntime = lit ''/workspace/memory'', rel = lit ''notes'', runtimePath = lit ''/workspace/memory/notes''\<rparr>" by code_simp
  from resolved_path_confined [OF this] this show ?thesis by simp
qed

end
