(* ===== verification/File_Ops.thy ===== *)
theory File_Ops
  imports Patch_Text File_Paths Atomic_File
begin

text \<open>
  The operations of \<open>systems/agent/internal/fileops\<close> on the file system of \<open>Atomic_File\<close>: reading, writing
  and editing one file, planning a patch, committing its plan and rolling it back, and the
  guarded executor in front of them.  A file in the model holds its bytes (\<open>rawData\<close>); one that
  was created and not yet written is empty.  Two things of the operating system are parameters
  (\<open>osEnv\<close>): the directory a local root's name stands for, and the bytes the random source
  delivers in a given world.  An \<open>os.Root\<close> is the directory it was opened on; the file system has
  no symbolic links.  The errors the code discards while rolling back are part of the error
  value, so that a statement can say whether there were any.
\<close>

section \<open>State and errors\<close>

datatype plan_error =
    ReferencedTwice gostr gostr gostr | AddExisting gostr | DeleteMissing gostr
  | UpdateMissing gostr | MoveOutsideRoot | MoveConflict gostr gostr | MoveExists gostr
  | UnsupportedOp gostr | HunkFailed gostr hunk_error

datatype file_error =
    PathFailed path_error | TextFailed text_error | TextFailedAt gostr text_error
  | PatchFailed patch_error | PlanFailed plan_error
  | FileNotFound | NotRegularFile | NotRegularFileAt gostr | WritesRoot | ContentNotUTF8
  | OldTextRequired | IOFailed gostr io_error | RolledBack file_error "file_error list"
  | GuardRefused gostr

type_synonym 'a fileAct = "(file_error, rawData, 'a) act"

record WriteResult =
  wr_Path :: gostr
  wr_BytesWritten :: nat

record EditResult =
  er_Path :: gostr
  er_Diff :: gostr
  er_FirstChangedLine :: nat

record ApplyPatchResult =
  ap_ChangedFiles :: "gostr list"
  ap_Diff :: gostr
  ap_Summary :: gostr

record fileSnapshot =
  sn_resolved :: resolvedPath
  sn_exists :: bool
  sn_raw :: rawData

record desiredFileState =
  ds_resolved :: resolvedPath
  ds_shouldExist :: bool
  ds_raw :: rawData

record textSnapshot =
  ts_snapshot :: fileSnapshot
  ts_text :: textFile

record osEnv =
  env_dir :: "gostr \<Rightarrow> path"
  env_random :: "rawData world \<Rightarrow> nat \<Rightarrow> int list option"

definition rawOf :: "rawData option \<Rightarrow> rawData" where
  "rawOf d = (case d of None \<Rightarrow> Utf8 [] | Some raw \<Rightarrow> raw)"

definition ignoreA :: "('e, 'c, 'a) act \<Rightarrow> ('f, 'c, unit) act" where
  "ignoreA m = handleA m (\<lambda>_. retA ()) (\<lambda>_. retA ())"

definition liftSum :: "('e \<Rightarrow> 'f) \<Rightarrow> 'e + 'a \<Rightarrow> ('f, 'c, 'a) act" where
  "liftSum f r = (case r of Inl e \<Rightarrow> failA (f e) | Inr x \<Rightarrow> retA x)"

section \<open>A rooted file\<close>

definition relPath :: "gostr \<Rightarrow> path" where
  "relPath r = splitRune 47 r"

definition localPath :: "osEnv \<Rightarrow> resolvedPath \<Rightarrow> path" where
  "localPath env r = env_dir env (rootLocalDir r) @ relPath (rel r)"

definition openRoot :: "osEnv \<Rightarrow> gostr \<Rightarrow> path fileAct" where
  "openRoot env dir =
     mapErr (IOFailed (lit ''open root''))
       (bindA (stat (env_dir env dir)) (\<lambda>n. if isDirNode n then retA (env_dir env dir) else failA NotDir))"

definition readTextFile :: "path \<Rightarrow> gostr \<Rightarrow> textFile fileAct" where
  "readTextFile root r =
     handleA (stat (root @ relPath r))
       (\<lambda>n. if isDirNode n then failA NotRegularFile
            else bindA (mapErr (IOFailed (lit ''read file'')) (readFile (root @ relPath r)))
                   (\<lambda>d. liftSum TextFailed (decodeTextFile (rawOf d))))
       (\<lambda>e. if isNotExist e then failA FileNotFound else failA (IOFailed (lit ''stat file'') e))"

fun mkdirAll :: "path \<Rightarrow> path \<Rightarrow> (io_error, rawData, unit) act" where
  "mkdirAll base [] = retA ()"
| "mkdirAll base (c # cs) = bindA (mkdirUnlessThere (base @ [c])) (\<lambda>_. mkdirAll (base @ [c]) cs)"

definition hexDigit :: "int \<Rightarrow> rune" where
  "hexDigit n = (if n < 10 then 48 + n else 87 + n)"

definition hexEncode :: "int list \<Rightarrow> gostr" where
  "hexEncode bs = concat (map (\<lambda>b. [hexDigit (b div 16), hexDigit (b mod 16)]) bs)"

definition randomHex :: "osEnv \<Rightarrow> nat \<Rightarrow> rawData world \<Rightarrow> gostr" where
  "randomHex env n w = (case env_random env w n of None \<Rightarrow> lit ''fallback'' | Some bs \<Rightarrow> hexEncode bs)"

definition siblingPrefix :: gostr where
  "siblingPrefix = lit ''.q15-tmp-''"

definition tempSiblingPath :: "osEnv \<Rightarrow> path \<Rightarrow> rawData world \<Rightarrow> path" where
  "tempSiblingPath env p w = butlast p @ [siblingPrefix @ last p @ lit ''-'' @ randomHex env 8 w]"

text \<open>\<open>OpenFile\<close> with \<open>O_CREATE\<close> and \<open>O_EXCL\<close>.\<close>

definition createExcl :: "path \<Rightarrow> (io_error, rawData, unit) act" where
  "createExcl p = sysCall (\<lambda>fs. case statFs fs p of
       Inr _ \<Rightarrow> Inl AlreadyExist
     | Inl _ \<Rightarrow>
         (case parentError fs p of
            Some e \<Rightarrow> Inl e
          | None \<Rightarrow> Inr ((), AList.update p (FileNode None) fs)))"

definition createSibling :: "osEnv \<Rightarrow> path \<Rightarrow> (io_error, rawData, path) act" where
  "createSibling env p w =
     (let tmp = tempSiblingPath env p w in bindA (createExcl tmp) (\<lambda>_. retA tmp) w)"

definition checkTarget :: "path \<Rightarrow> unit fileAct" where
  "checkTarget p =
     handleA (stat p)
       (\<lambda>n. if isDirNode n then failA NotRegularFile else retA ())
       (\<lambda>e. if isNotExist e then retA () else failA (IOFailed (lit ''stat file'') e))"

definition commitErr :: "path \<Rightarrow> 'a fileAct \<Rightarrow> 'a fileAct" where
  "commitErr tmp m = onErrorA m (handleA noEffect (\<lambda>_. removePath tmp) (\<lambda>_. removePath tmp))"

definition fillSibling :: "path \<Rightarrow> rawData \<Rightarrow> unit fileAct" where
  "fillSibling tmp data =
     bindA (commitErr tmp (mapErr (IOFailed (lit ''write temp file'')) (writeOpen tmp (Some data)))) (\<lambda>_.
     bindA (commitErr tmp (mapErr (IOFailed (lit ''sync temp file'')) noEffect)) (\<lambda>_.
     onErrorA (mapErr (IOFailed (lit ''close temp file'')) noEffect) (removePath tmp)))"

definition syncParent :: "path \<Rightarrow> unit fileAct" where
  "syncParent dir =
     handleA (stat dir) (\<lambda>_. bindA (ignoreA noEffect) (\<lambda>_. ignoreA noEffect)) (\<lambda>_. retA ())"

definition writeAtomic :: "osEnv \<Rightarrow> path \<Rightarrow> gostr \<Rightarrow> rawData \<Rightarrow> unit fileAct" where
  "writeAtomic env root r data =
     (let p = root @ relPath r
      in if r = lit ''.'' then failA WritesRoot
         else bindA (checkTarget p) (\<lambda>_.
              bindA (mapErr (IOFailed (lit ''create parent directories'')) (mkdirAll root (butlast (relPath r)))) (\<lambda>_.
              bindA (mapErr (IOFailed (lit ''create temp file'')) (createSibling env p)) (\<lambda>tmp.
              bindA (fillSibling tmp data) (\<lambda>_.
              bindA (onErrorA (mapErr (IOFailed (lit ''rename temp file'')) (rename tmp p)) (removePath tmp)) (\<lambda>_.
              syncParent (butlast p)))))))"

definition removeRegularFile :: "path \<Rightarrow> gostr \<Rightarrow> unit fileAct" where
  "removeRegularFile root r =
     handleA (stat (root @ relPath r))
       (\<lambda>n. if isDirNode n then failA NotRegularFile
            else mapErr (IOFailed (lit ''remove file'')) (removePath (root @ relPath r)))
       (\<lambda>e. if isNotExist e then retA () else failA (IOFailed (lit ''stat file'') e))"

definition removeIfExists :: "path \<Rightarrow> gostr \<Rightarrow> unit fileAct" where
  "removeIfExists root r =
     handleA (removePath (root @ relPath r)) retA
       (\<lambda>e. if \<not> isNotExist e then failA (IOFailed [] e) else retA ())"

section \<open>Single files\<close>

definition ReadFile :: "osEnv \<Rightarrow> Settings \<Rightarrow> gostr \<Rightarrow> int \<Rightarrow> int \<Rightarrow> ReadResult fileAct" where
  "ReadFile env cfg rawPath offsetLines limitLines =
     bindA (liftSum PathFailed (resolvePath cfg rawPath)) (\<lambda>resolved.
     bindA (openRoot env (rootLocalDir resolved)) (\<lambda>root.
     bindA (readTextFile root (rel resolved)) (\<lambda>tf.
     liftSum TextFailed (readPage (tf_text tf) offsetLines limitLines))))"

definition WriteFile :: "osEnv \<Rightarrow> Settings \<Rightarrow> gostr \<Rightarrow> rawData \<Rightarrow> WriteResult fileAct" where
  "WriteFile env cfg rawPath content =
     bindA (liftSum PathFailed (resolvePath cfg rawPath)) (\<lambda>resolved.
     case content of
       OtherBytes _ \<Rightarrow> failA ContentNotUTF8
     | Utf8 s \<Rightarrow>
         bindA (openRoot env (rootLocalDir resolved)) (\<lambda>root.
         bindA (writeAtomic env root (rel resolved) content) (\<lambda>_.
         retA \<lparr>wr_Path = runtimePath resolved, wr_BytesWritten = byteLen s\<rparr>)))"

definition EditFile :: "osEnv \<Rightarrow> Settings \<Rightarrow> gostr \<Rightarrow> gostr \<Rightarrow> gostr \<Rightarrow> EditResult fileAct" where
  "EditFile env cfg rawPath oldText newText =
     bindA (liftSum PathFailed (resolvePath cfg rawPath)) (\<lambda>resolved.
     if oldText = [] then failA OldTextRequired
     else bindA (openRoot env (rootLocalDir resolved)) (\<lambda>root.
          bindA (readTextFile root (rel resolved)) (\<lambda>tf.
          bindA (liftSum TextFailed (editText tf oldText newText)) (\<lambda>(before, after).
          bindA (writeAtomic env root (rel resolved) (finalRaw tf after)) (\<lambda>_.
          retA \<lparr>er_Path = runtimePath resolved, er_Diff = fst (compactDiff before after),
                er_FirstChangedLine = snd (compactDiff before after)\<rparr>)))))"

section \<open>Planning a patch\<close>

definition stateKey :: "resolvedPath \<Rightarrow> gostr" where
  "stateKey resolved = rootLocalDir resolved @ [0] @ rel resolved"

definition diffHeader :: "gostr \<Rightarrow> gostr \<Rightarrow> gostr" where
  "diffHeader path source =
     (if source = [] then lit ''=== '' @ path @ lit '' ===''
      else lit ''=== '' @ path @ lit '' (from '' @ source @ lit '') ==='')"

definition uniqueStrings :: "gostr list \<Rightarrow> gostr list" where
  "uniqueStrings values = sort (foldl (\<lambda>out v. if v \<in> set out then out else out @ [v]) [] values)"

record planState =
  pn_desired :: "desiredFileState gomap"
  pn_snapshots :: "fileSnapshot gomap"
  pn_reserved :: "gostr gomap"
  pn_changedFiles :: "gostr list"
  pn_diffSections :: "gostr list"

definition emptyPlan :: planState where
  "emptyPlan = \<lparr>pn_desired = [], pn_snapshots = [], pn_reserved = [], pn_changedFiles = [], pn_diffSections = []\<rparr>"

definition wantState :: "desiredFileState \<Rightarrow> planState \<Rightarrow> planState" where
  "wantState d st = st\<lparr>pn_desired := AList.update (stateKey (ds_resolved d)) d (pn_desired st)\<rparr>"

definition keepSnapshot :: "resolvedPath \<Rightarrow> fileSnapshot \<Rightarrow> planState \<Rightarrow> planState" where
  "keepSnapshot r s st = st\<lparr>pn_snapshots := AList.update (stateKey r) s (pn_snapshots st)\<rparr>"

definition reserveKey :: "gostr \<Rightarrow> gostr \<Rightarrow> planState \<Rightarrow> planState" where
  "reserveKey key kind st = st\<lparr>pn_reserved := AList.update key kind (pn_reserved st)\<rparr>"

definition reportChange :: "gostr list \<Rightarrow> gostr \<Rightarrow> planState \<Rightarrow> planState" where
  "reportChange paths section st =
     st\<lparr>pn_changedFiles := pn_changedFiles st @ paths, pn_diffSections := pn_diffSections st @ [section]\<rparr>"

definition emptyText :: textFile where
  "emptyText = \<lparr>tf_raw = Utf8 [], tf_bom = [], tf_text = [], tf_lineEnding = [], tf_wasReadable = False\<rparr>"

definition snapshotPath :: "osEnv \<Rightarrow> resolvedPath \<Rightarrow> fileSnapshot fileAct" where
  "snapshotPath env resolved =
     bindA (openRoot env (rootLocalDir resolved)) (\<lambda>root.
     let p = root @ relPath (rel resolved)
     in handleA (stat p)
          (\<lambda>n. if isDirNode n then failA (NotRegularFileAt (runtimePath resolved))
               else bindA (mapErr (IOFailed (lit ''read file'')) (readFile p)) (\<lambda>d.
                    retA \<lparr>sn_resolved = resolved, sn_exists = True, sn_raw = rawOf d\<rparr>))
          (\<lambda>e. if isNotExist e then retA \<lparr>sn_resolved = resolved, sn_exists = False, sn_raw = Utf8 []\<rparr>
               else failA (IOFailed (lit ''stat file'') e)))"

definition snapshotTextPath :: "osEnv \<Rightarrow> resolvedPath \<Rightarrow> textSnapshot fileAct" where
  "snapshotTextPath env resolved =
     bindA (snapshotPath env resolved) (\<lambda>snapshot.
     if \<not> sn_exists snapshot then retA \<lparr>ts_snapshot = snapshot, ts_text = emptyText\<rparr>
     else bindA (liftSum (TextFailedAt (runtimePath resolved)) (decodeTextFile (sn_raw snapshot))) (\<lambda>tf.
          retA \<lparr>ts_snapshot = snapshot, ts_text = tf\<rparr>))"

definition planAdd :: "osEnv \<Rightarrow> patchFileOp \<Rightarrow> resolvedPath \<Rightarrow> planState \<Rightarrow> planState fileAct" where
  "planAdd env op source st =
     bindA (snapshotPath env source) (\<lambda>existing.
     if sn_exists existing then failA (PlanFailed (AddExisting (runtimePath source)))
     else let newText = joinStr LF (po_addLines op);
              diff = fst (compactDiff [] (normalizeLineEndings newText))
          in retA (reportChange [runtimePath source] (diffHeader (runtimePath source) [] @ LF @ diff)
               (wantState \<lparr>ds_resolved = source, ds_shouldExist = True, ds_raw = Utf8 newText\<rparr>
                  (keepSnapshot source existing st))))"

definition planDelete :: "osEnv \<Rightarrow> resolvedPath \<Rightarrow> planState \<Rightarrow> planState fileAct" where
  "planDelete env source st =
     bindA (snapshotTextPath env source) (\<lambda>ts.
     if \<not> sn_exists (ts_snapshot ts) then failA (PlanFailed (DeleteMissing (runtimePath source)))
     else let diff = fst (compactDiff (normalizeLineEndings (tf_text (ts_text ts))) [])
          in retA (reportChange [runtimePath source] (diffHeader (runtimePath source) [] @ LF @ diff)
               (wantState \<lparr>ds_resolved = source, ds_shouldExist = False, ds_raw = Utf8 []\<rparr>
                  (keepSnapshot source (ts_snapshot ts) st))))"

text \<open>The destination of an update, its summary, and the plan with the destination reserved.\<close>

definition planMove ::
  "osEnv \<Rightarrow> Settings \<Rightarrow> patchFileOp \<Rightarrow> resolvedPath \<Rightarrow> planState \<Rightarrow> (resolvedPath \<times> gostr \<times> planState) fileAct"
where
  "planMove env cfg op source st =
     (if po_moveTo op = [] then retA (source, [], st)
      else bindA (liftSum PathFailed (resolvePath cfg (po_moveTo op))) (\<lambda>dest.
           if rootRuntime dest \<noteq> rootRuntime source then failA (PlanFailed MoveOutsideRoot)
           else if stateKey dest = stateKey source then retA (dest, [], st)
           else case map_of (pn_reserved st) (stateKey dest) of
                  Some prior \<Rightarrow> failA (PlanFailed (MoveConflict (runtimePath dest) prior))
                | None \<Rightarrow>
                    bindA (snapshotPath env dest) (\<lambda>destSnapshot.
                    if sn_exists destSnapshot then failA (PlanFailed (MoveExists (runtimePath dest)))
                    else retA (dest, lit ''rename '' @ runtimePath source @ lit '' -> '' @ runtimePath dest,
                               keepSnapshot dest destSnapshot
                                 (reserveKey (stateKey dest) (lit ''move-destination'') st)))))"

definition updatedPlan ::
  "resolvedPath \<Rightarrow> resolvedPath \<Rightarrow> gostr \<Rightarrow> gostr \<Rightarrow> rawData \<Rightarrow> planState \<Rightarrow> planState"
where
  "updatedPlan source dest moveSummary diff raw st =
     (if stateKey dest = stateKey source
      then reportChange [runtimePath source]
             (if moveSummary \<noteq> []
              then diffHeader (runtimePath dest) (runtimePath source) @ LF @ moveSummary @ LF @ diff
              else diffHeader (runtimePath source) [] @ LF @ diff)
             (wantState \<lparr>ds_resolved = source, ds_shouldExist = True, ds_raw = raw\<rparr> st)
      else reportChange [runtimePath source, runtimePath dest]
             (diffHeader (runtimePath dest) (runtimePath source) @ LF @ moveSummary @ LF @ diff)
             (wantState \<lparr>ds_resolved = dest, ds_shouldExist = True, ds_raw = raw\<rparr>
                (wantState \<lparr>ds_resolved = source, ds_shouldExist = False, ds_raw = Utf8 []\<rparr> st)))"

definition planUpdate ::
  "osEnv \<Rightarrow> Settings \<Rightarrow> patchFileOp \<Rightarrow> resolvedPath \<Rightarrow> planState \<Rightarrow> planState fileAct"
where
  "planUpdate env cfg op source st =
     bindA (snapshotTextPath env source) (\<lambda>ts.
     if \<not> sn_exists (ts_snapshot ts) then failA (PlanFailed (UpdateMissing (runtimePath source)))
     else bindA (planMove env cfg op source st) (\<lambda>(dest, moveSummary, st1).
          let before = normalizeLineEndings (tf_text (ts_text ts))
          in bindA (liftSum (\<lambda>e. PlanFailed (HunkFailed (runtimePath source) e)) (applyHunks before (po_hunks op)))
               (\<lambda>updatedNormalized.
                  retA (updatedPlan source dest moveSummary (fst (compactDiff before updatedNormalized))
                          (finalRaw (ts_text ts) updatedNormalized)
                          (keepSnapshot source (ts_snapshot ts) st1)))))"

definition planOp :: "osEnv \<Rightarrow> Settings \<Rightarrow> patchFileOp \<Rightarrow> planState \<Rightarrow> planState fileAct" where
  "planOp env cfg op st =
     bindA (liftSum PathFailed (resolvePath cfg (po_path op))) (\<lambda>source.
     case map_of (pn_reserved st) (stateKey source) of
       Some prior \<Rightarrow> failA (PlanFailed (ReferencedTwice (runtimePath source) prior (po_kind op)))
     | None \<Rightarrow>
         (let st1 = reserveKey (stateKey source) (po_kind op) st
          in if po_kind op = lit ''add'' then planAdd env op source st1
             else if po_kind op = lit ''delete'' then planDelete env source st1
             else if po_kind op = lit ''update'' then planUpdate env cfg op source st1
             else failA (PlanFailed (UnsupportedOp (po_kind op)))))"

fun planOps :: "osEnv \<Rightarrow> Settings \<Rightarrow> patchFileOp list \<Rightarrow> planState \<Rightarrow> planState fileAct" where
  "planOps env cfg [] st = retA st"
| "planOps env cfg (op # ops) st = bindA (planOp env cfg op st) (planOps env cfg ops)"

definition patchResult :: "planState \<Rightarrow> ApplyPatchResult" where
  "patchResult st =
     (let changed = uniqueStrings (pn_changedFiles st)
      in \<lparr>ap_ChangedFiles = changed, ap_Diff = joinStr (LF @ LF) (pn_diffSections st),
          ap_Summary = lit ''applied patch to '' @ itoa (length changed) @ lit '' file(s)''\<rparr>)"

definition buildPatchPlan ::
  "osEnv \<Rightarrow> Settings \<Rightarrow> patchFileOp list \<Rightarrow>
   (desiredFileState gomap \<times> fileSnapshot gomap \<times> ApplyPatchResult) fileAct"
where
  "buildPatchPlan env cfg ops =
     bindA (planOps env cfg ops emptyPlan) (\<lambda>st.
     retA (pn_desired st, pn_snapshots st, patchResult st))"

section \<open>Committing a plan\<close>

text \<open>A missing key of a Go map reads as the zero value.\<close>

definition zeroResolved :: resolvedPath where
  "zeroResolved = \<lparr>rootLocalDir = [], rootRuntime = [], rel = [], runtimePath = []\<rparr>"

definition stateAt :: "desiredFileState gomap \<Rightarrow> gostr \<Rightarrow> desiredFileState" where
  "stateAt desired key =
     (case map_of desired key of
        Some s \<Rightarrow> s
      | None \<Rightarrow> \<lparr>ds_resolved = zeroResolved, ds_shouldExist = False, ds_raw = Utf8 []\<rparr>)"

definition snapshotAt :: "fileSnapshot gomap \<Rightarrow> gostr \<Rightarrow> fileSnapshot" where
  "snapshotAt snapshots key =
     (case map_of snapshots key of
        Some s \<Rightarrow> s
      | None \<Rightarrow> \<lparr>sn_resolved = zeroResolved, sn_exists = False, sn_raw = Utf8 []\<rparr>)"

definition applyState :: "osEnv \<Rightarrow> path \<Rightarrow> desiredFileState \<Rightarrow> unit fileAct" where
  "applyState env root s =
     (if ds_shouldExist s then writeAtomic env root (rel (ds_resolved s)) (ds_raw s)
      else removeRegularFile root (rel (ds_resolved s)))"

definition restoreState :: "osEnv \<Rightarrow> path \<Rightarrow> gostr \<Rightarrow> fileSnapshot \<Rightarrow> unit fileAct" where
  "restoreState env root r snapshot =
     (if sn_exists snapshot then writeAtomic env root r (sn_raw snapshot)
      else removeIfExists root r)"

fun rollbackLoop ::
  "osEnv \<Rightarrow> desiredFileState gomap \<Rightarrow> fileSnapshot gomap \<Rightarrow> gostr list \<Rightarrow> file_error list fileAct"
where
  "rollbackLoop env desired snapshots [] = retA []"
| "rollbackLoop env desired snapshots (key # keys) =
     (let resolved = ds_resolved (stateAt desired key)
      in handleA (bindA (openRoot env (rootLocalDir resolved)) (\<lambda>root.
                    restoreState env root (rel resolved) (snapshotAt snapshots key)))
           (\<lambda>_. rollbackLoop env desired snapshots keys)
           (\<lambda>e. bindA (rollbackLoop env desired snapshots keys) (\<lambda>es. retA (e # es))))"

definition rollbackDesiredStates ::
  "osEnv \<Rightarrow> gostr list \<Rightarrow> desiredFileState gomap \<Rightarrow> fileSnapshot gomap \<Rightarrow> file_error list fileAct"
where
  "rollbackDesiredStates env applied desired snapshots = rollbackLoop env desired snapshots (rev applied)"

fun commitLoop ::
  "osEnv \<Rightarrow> desiredFileState gomap \<Rightarrow> fileSnapshot gomap \<Rightarrow> gostr list \<Rightarrow> gostr list \<Rightarrow> unit fileAct"
where
  "commitLoop env desired snapshots [] applied = retA ()"
| "commitLoop env desired snapshots (key # keys) applied =
     (let state = stateAt desired key
      in bindA (openRoot env (rootLocalDir (ds_resolved state))) (\<lambda>root.
         handleA (applyState env root state)
           (\<lambda>_. commitLoop env desired snapshots keys (applied @ [key]))
           (\<lambda>e. bindA (rollbackDesiredStates env applied desired snapshots) (\<lambda>es. failA (RolledBack e es)))))"

definition commitDesiredStates ::
  "osEnv \<Rightarrow> desiredFileState gomap \<Rightarrow> fileSnapshot gomap \<Rightarrow> unit fileAct"
where
  "commitDesiredStates env desired snapshots =
     commitLoop env desired snapshots (sort (map fst desired)) []"

definition ApplyPatch :: "osEnv \<Rightarrow> Settings \<Rightarrow> gostr \<Rightarrow> ApplyPatchResult fileAct" where
  "ApplyPatch env cfg patch =
     bindA (liftSum PatchFailed (parsePatch patch)) (\<lambda>parsed.
     bindA (buildPatchPlan env cfg parsed) (\<lambda>(desired, snapshots, result).
     bindA (commitDesiredStates env desired snapshots) (\<lambda>_. retA result)))"

section \<open>The guarded executor\<close>

text \<open>
  The guard is an interface: \<open>None\<close> is the nil guard, and a guard answers a request for a lease on
  local paths with an error or grants it.
\<close>

record Executor =
  ex_cfg :: Settings
  ex_guard :: "(gostr list \<Rightarrow> gostr option) option"

definition NewExecutor :: "Settings \<Rightarrow> Executor" where
  "NewExecutor cfg = \<lparr>ex_cfg = cfg, ex_guard = None\<rparr>"

definition NewGuardedExecutor :: "Settings \<Rightarrow> (gostr list \<Rightarrow> gostr option) option \<Rightarrow> Executor" where
  "NewGuardedExecutor cfg guard = \<lparr>ex_cfg = cfg, ex_guard = guard\<rparr>"

fun resolveAll :: "Settings \<Rightarrow> gostr list \<Rightarrow> path_error + gostr list" where
  "resolveAll cfg [] = Inr []"
| "resolveAll cfg (raw # raws) =
     (case resolvePath cfg raw of
        Inl e \<Rightarrow> Inl e
      | Inr r \<Rightarrow>
          (case resolveAll cfg raws of
             Inl e \<Rightarrow> Inl e
           | Inr ls \<Rightarrow> Inr (joinPath (rootLocalDir r) (rel r) # ls)))"

definition acquireMutation :: "Executor \<Rightarrow> gostr list \<Rightarrow> unit fileAct" where
  "acquireMutation ex paths =
     (case ex_guard ex of
        None \<Rightarrow> retA ()
      | Some acquire \<Rightarrow>
          bindA (liftSum PathFailed (resolveAll (ex_cfg ex) paths)) (\<lambda>localPaths.
          guardA (map_option GuardRefused (acquire localPaths))))"

definition executorReadFile :: "osEnv \<Rightarrow> Executor \<Rightarrow> gostr \<Rightarrow> int \<Rightarrow> int \<Rightarrow> ReadResult fileAct" where
  "executorReadFile env ex path offsetLines limitLines = ReadFile env (ex_cfg ex) path offsetLines limitLines"

definition executorWriteFile :: "osEnv \<Rightarrow> Executor \<Rightarrow> gostr \<Rightarrow> rawData \<Rightarrow> WriteResult fileAct" where
  "executorWriteFile env ex path content =
     bindA (acquireMutation ex [path]) (\<lambda>_. WriteFile env (ex_cfg ex) path content)"

definition executorEditFile :: "osEnv \<Rightarrow> Executor \<Rightarrow> gostr \<Rightarrow> gostr \<Rightarrow> gostr \<Rightarrow> EditResult fileAct" where
  "executorEditFile env ex path oldText newText =
     bindA (acquireMutation ex [path]) (\<lambda>_. EditFile env (ex_cfg ex) path oldText newText)"

definition executorApplyPatch :: "osEnv \<Rightarrow> Executor \<Rightarrow> gostr \<Rightarrow> ApplyPatchResult fileAct" where
  "executorApplyPatch env ex patch =
     bindA (liftSum PatchFailed (parsePatch patch)) (\<lambda>ops.
     bindA (acquireMutation ex
              (concat (map (\<lambda>op. po_path op # (if po_moveTo op \<noteq> [] then [po_moveTo op] else [])) ops))) (\<lambda>_.
     ApplyPatch env (ex_cfg ex) patch))"

section \<open>An atomic write changes one file\<close>

definition isSibling :: "path \<Rightarrow> bool" where
  "isSibling q \<longleftrightarrow> q \<noteq> [] \<and> hasPrefix (last q) siblingPrefix"

lemma triple_strengthen:
  assumes m: "triple I' P m Q E" and I: "\<And>fs. I' fs \<Longrightarrow> I fs" and P: "\<And>fs. I fs \<Longrightarrow> P fs \<Longrightarrow> I' fs"
  shows "triple I P m (\<lambda>x fs. I' fs \<and> Q x fs) (\<lambda>e fs. I' fs \<and> E e fs)"
proof (rule tripleI)
  fix base w r w' assume w: "safeSince base I w" "P (w_fs w)" and run: "m w = (r, w')"
  have "safeSince (w_past w) I' w" using w P by (auto simp: safeSince_def)
  from tripleD [OF m run this w(2)]
  have s: "safeSince (w_past w) I' w'" and r: "case r of Inl e \<Rightarrow> E e (w_fs w') | Inr x \<Rightarrow> Q x (w_fs w')" by auto
  from s obtain news where "w_past w' = news @ w_past w" "list_all I' news" "I' (w_fs w')" by (auto simp: safeSince_def)
  moreover from this I have "list_all I news" by (simp add: list_all_iff)
  moreover from w obtain olds where "w_past w = olds @ base" "list_all I olds" by (auto simp: safeSince_def)
  ultimately have "safeSince base I w'" using I by (auto simp: safeSince_def)
  with r \<open>I' (w_fs w')\<close> show "safeSince base I w' \<and>
      (case r of Inl e \<Rightarrow> I' (w_fs w') \<and> E e (w_fs w') | Inr x \<Rightarrow> I' (w_fs w') \<and> Q x (w_fs w'))"
    by (cases r) auto
qed

lemma triple_world: "(\<And>w. triple I P (m w) Q E) \<Longrightarrow> triple I P (\<lambda>w. m w w) Q E"
  unfolding triple_def by blast

lemma sysCall_error_same: "sysCall f w = (Inl e, w') \<Longrightarrow> w_fs w' = w_fs w"
  by (auto simp: sysCall_def answer_def split: list.splits option.splits sum.splits)

lemma triple_sysCall_frame:
  assumes "triple I P (sysCall f) Q E"
  shows "triple I (\<lambda>fs. P fs \<and> R fs) (sysCall f) Q (\<lambda>e fs. E e fs \<and> R fs)"
proof (rule tripleI)
  fix base w r w' assume w: "safeSince base I w" "P (w_fs w) \<and> R (w_fs w)" and run: "sysCall f w = (r, w')"
  have d: "safeSince base I w'" "case r of Inl e \<Rightarrow> E e (w_fs w') | Inr x \<Rightarrow> Q x (w_fs w')"
    using tripleD [OF assms run w(1)] w(2) by auto
  have "R (w_fs w')" if "r = Inl e" for e
    using sysCall_error_same [OF run [unfolded that]] w(2) by simp
  with d show "safeSince base I w' \<and> (case r of Inl e \<Rightarrow> E e (w_fs w') \<and> R (w_fs w') | Inr x \<Rightarrow> Q x (w_fs w'))"
    by (cases r) simp_all
qed

lemma triple_ignore: "triple I P m (\<lambda>_. R) (\<lambda>_. R) \<Longrightarrow> triple I P (ignoreA m) (\<lambda>_. R) E"
  unfolding ignoreA_def by (rule triple_handle) (auto intro: triple_ret)

lemma relPath_ne [simp]: "relPath r \<noteq> []"
  by (simp add: relPath_def)

lemma tempSibling_facts:
  "isSibling (tempSiblingPath env p w)" "butlast (tempSiblingPath env p w) = butlast p"
  "p \<noteq> [] \<Longrightarrow> tempSiblingPath env p w \<noteq> p"
proof -
  show "p \<noteq> [] \<Longrightarrow> tempSiblingPath env p w \<noteq> p"
  proof
    assume "p \<noteq> []" "tempSiblingPath env p w = p"
    then have "last p = siblingPrefix @ last p @ lit ''-'' @ randomHex env 8 w" by (metis last_snoc tempSiblingPath_def)
    then have "length (last p) = length (siblingPrefix @ last p @ lit ''-'' @ randomHex env 8 w)" by (rule arg_cong)
    then show False by (simp add: siblingPrefix_def lit_def)
  qed
qed (simp_all add: isSibling_def tempSiblingPath_def)

abbreviation held :: "rawData fs \<Rightarrow> path \<Rightarrow> rawData fs \<Rightarrow> bool" where
  "held fs0 p \<equiv> evolvesT isSibling fs0 p {map_of fs0 p}"

lemma held_evolves: "held fs0 p fs \<Longrightarrow> map_of fs0 p \<in> V \<Longrightarrow> evolvesT isSibling fs0 p V fs"
  by (auto simp: evolvesT_def)

lemma triple_mkdirAll:
  "triple (held fs0 (base @ cs @ [c])) (\<lambda>fs. map_of fs base = Some DirNode) (mkdirAll base cs)
     (\<lambda>_ fs. map_of fs (base @ cs) = Some DirNode) (\<lambda>_ _. True)"
proof (induction cs arbitrary: base)
  case Nil
  show ?case by (auto intro: triple_conseq [OF triple_ret [where Q = "\<lambda>_ fs. map_of fs base = Some DirNode"]])
next
  case (Cons d cs)
  let ?I = "held fs0 (base @ (d # cs) @ [c])"
  have mk: "triple ?I (\<lambda>_. True) (mkdirUnlessThere (base @ [d])) (\<lambda>_ fs. map_of fs (base @ [d]) = Some DirNode) (\<lambda>_ _. True)"
    by (rule triple_mkdir) (auto intro: evolves_wf evolves_mkdir)
  have "triple ?I (\<lambda>fs. map_of fs base = Some DirNode)
      (bindA (mkdirUnlessThere (base @ [d])) (\<lambda>_. mkdirAll (base @ [d]) cs))
      (\<lambda>_ fs. map_of fs (base @ d # cs) = Some DirNode) (\<lambda>_ _. True)"
    by (rule triple_bind [where R = "\<lambda>_ fs. map_of fs (base @ [d]) = Some DirNode"])
      (rule triple_conseq [OF mk], use Cons.IH [of "base @ [d]"] in auto)
  then show ?case by simp
qed

lemma triple_createExcl:
  assumes "tmp \<noteq> p" "isSibling tmp" "butlast tmp = butlast p"
  shows "triple (held fs0 p) (\<lambda>fs. map_of fs (butlast p) = Some DirNode) (createExcl tmp)
     (\<lambda>_ fs. tempOf isSibling fs0 p tmp \<and> tempHolds p tmp None fs) (\<lambda>_ _. True)"
  unfolding createExcl_def
proof (rule triple_sysCall)
  fix fs and x :: unit and fs'
  assume I: "held fs0 p fs" and dir: "map_of fs (butlast p) = Some DirNode"
    and run: "(case statFs fs tmp of Inr _ \<Rightarrow> Inl AlreadyExist
       | Inl _ \<Rightarrow> (case parentError fs tmp of Some e \<Rightarrow> Inl e | None \<Rightarrow> Inr ((), AList.update tmp (FileNode None) fs))) = Inr (x, fs')"
  from run obtain e where st: "statFs fs tmp = Inl e" and fs': "fs' = AList.update tmp (FileNode None) fs"
    by (auto split: sum.splits option.splits)
  have none: "map_of fs tmp = None" using statFs_Inl_absent [OF evolves_wf [OF I] st] .
  with I assms have fs0: "map_of fs0 tmp = None" by (metis evolvesT_def)
  then have t: "tempOf isSibling fs0 p tmp" using assms by (simp add: tempOf_def)
  have "held fs0 p fs'"
    unfolding fs' using I assms fs0 none dir by (intro evolves_temp) auto
  moreover have "butlast p \<noteq> tmp" using dir none by auto
  then have "tempHolds p tmp None fs'" using dir by (auto simp: fs' tempHolds_def)
  ultimately show "held fs0 p fs' \<and> tempOf isSibling fs0 p tmp \<and> tempHolds p tmp None fs'" using t by blast
qed auto

lemma triple_createSibling:
  assumes "p \<noteq> []"
  shows "triple (held fs0 p) (\<lambda>fs. map_of fs (butlast p) = Some DirNode) (createSibling env p)
     (\<lambda>tmp fs. tempOf isSibling fs0 p tmp \<and> tempHolds p tmp None fs) (\<lambda>_ _. True)"
proof -
  have "createSibling env p = (\<lambda>w. (bindA (createExcl (tempSiblingPath env p w)) (\<lambda>_. retA (tempSiblingPath env p w))) w)"
    by (rule ext) (simp add: createSibling_def Let_def)
  moreover have "triple (held fs0 p) (\<lambda>fs. map_of fs (butlast p) = Some DirNode)
     (\<lambda>w. (bindA (createExcl (tempSiblingPath env p w)) (\<lambda>_. retA (tempSiblingPath env p w))) w)
     (\<lambda>tmp fs. tempOf isSibling fs0 p tmp \<and> tempHolds p tmp None fs) (\<lambda>_ _. True)"
    by (rule triple_world, rule triple_bind, rule triple_createExcl)
      (auto simp: tempSibling_facts assms intro: triple_ret [of _ "\<lambda>tmp fs. tempOf isSibling fs0 p tmp \<and> tempHolds p tmp None fs"])
  ultimately show ?thesis by simp
qed

lemma triple_dropSibling:
  assumes "tempOf isSibling fs0 p tmp"
  shows "triple (held fs0 p) (\<lambda>fs. map_of fs tmp \<noteq> Some DirNode)
     (handleA noEffect (\<lambda>_. removePath tmp) (\<lambda>_. removePath tmp)) (\<lambda>_ _. True) (\<lambda>_ _. True)"
  by (rule triple_handle [OF triple_noEffect]) (rule triple_dropTemp [OF assms])+

lemma triple_commitErr:
  assumes "tempOf isSibling fs0 p tmp" "triple (held fs0 p) P m Q (\<lambda>_ fs. map_of fs tmp \<noteq> Some DirNode)"
  shows "triple (held fs0 p) P (commitErr tmp m) Q (\<lambda>_ _. True)"
  unfolding commitErr_def
  by (rule triple_conseq [OF triple_onError [OF assms(2), where E = "\<lambda>_ _. True"]])
    (rule triple_conseq [OF triple_dropSibling [OF assms(1)]], auto)

lemma triple_fillSibling:
  assumes t: "tempOf isSibling fs0 p tmp"
  shows "triple (held fs0 p) (tempHolds p tmp None) (fillSibling tmp data) (\<lambda>_. tempHolds p tmp (Some data)) (\<lambda>_ _. True)"
proof -
  let ?I = "held fs0 p" and ?T = "tempHolds p tmp (Some data)"
  have wr: "triple ?I (tempHolds p tmp None) (mapErr (IOFailed (lit ''write temp file'')) (writeOpen tmp (Some data)))
      (\<lambda>_. ?T) (\<lambda>_ fs. map_of fs tmp \<noteq> Some DirNode)"
    by (rule triple_mapErr, rule triple_conseq [OF triple_writeOpen [OF t]]) (auto simp: tempHolds_def)
  have sy: "triple ?I ?T (mapErr f noEffect) (\<lambda>_. ?T) (\<lambda>_ fs. map_of fs tmp \<noteq> Some DirNode)" for f :: "io_error \<Rightarrow> file_error"
    by (rule triple_mapErr, rule triple_conseq [OF triple_noEffect [where P = ?T]]) (auto simp: tempHolds_def)
  have cl: "triple ?I ?T (onErrorA (mapErr (IOFailed (lit ''close temp file'')) noEffect) (removePath tmp)) (\<lambda>_. ?T) (\<lambda>_ _. True)"
    by (rule triple_onError [OF sy]) (rule triple_conseq [OF triple_dropTemp [OF t]], auto)
  show ?thesis
    unfolding fillSibling_def
    by (rule triple_bind [OF triple_commitErr [OF t wr]], rule triple_bind [OF triple_commitErr [OF t sy]], rule cl)
qed


lemma triple_checkTarget:
  "(\<And>fs. I fs \<Longrightarrow> wfFs fs) \<Longrightarrow> triple I P (checkTarget p) (\<lambda>_. P) (\<lambda>_. P)"
proof -
  assume "\<And>fs. I fs \<Longrightarrow> wfFs fs"
  have "triple I P (stat p) (\<lambda>_. P) (\<lambda>_. P)" by (rule triple_conseq [OF triple_stat [where P = P]]) auto
  then show ?thesis
    unfolding checkTarget_def
    by (rule triple_handle) (auto intro: triple_ret triple_fail)
qed

lemma triple_syncParent: "triple I P (syncParent dir) (\<lambda>_. P) E"
proof -
  have "triple I P (stat dir) (\<lambda>_. P) (\<lambda>_. P)" by (rule triple_conseq [OF triple_stat [where P = P]]) auto
  then show ?thesis
    unfolding syncParent_def
    by (rule triple_handle) (auto intro: triple_ret triple_bind [OF triple_ignore] triple_ignore triple_noEffect)
qed

lemma triple_prepareSibling:
  assumes "relPath r = cs @ [c]"
  shows "triple (held fs0 (root @ relPath r)) (\<lambda>fs. map_of fs root = Some DirNode)
     (bindA (checkTarget (root @ relPath r)) (\<lambda>_.
      bindA (mapErr (IOFailed (lit ''create parent directories'')) (mkdirAll root (butlast (relPath r)))) (\<lambda>_.
      bindA (mapErr (IOFailed (lit ''create temp file'')) (createSibling env (root @ relPath r))) (\<lambda>tmp.
      bindA (fillSibling tmp data) (\<lambda>_. retA tmp)))))
     (\<lambda>tmp fs. tempOf isSibling fs0 (root @ relPath r) tmp \<and> tempHolds (root @ relPath r) tmp (Some data) fs) (\<lambda>_ _. True)"
proof -
  let ?p = "root @ relPath r"
  let ?I = "held fs0 ?p"
  have p: "?p = root @ cs @ [c]" "butlast ?p = root @ cs" "?p \<noteq> []" using assms by (simp_all add: butlast_append)
  have a: "triple ?I (\<lambda>fs. map_of fs root = Some DirNode) (checkTarget ?p) (\<lambda>_ fs. map_of fs root = Some DirNode) (\<lambda>_ _. True)"
    by (rule triple_conseq [OF triple_checkTarget [where P = "\<lambda>fs. map_of fs root = Some DirNode"]]) (auto intro: evolves_wf)
  have b: "triple ?I (\<lambda>fs. map_of fs root = Some DirNode) (mkdirAll root (butlast (relPath r)))
      (\<lambda>_ fs. map_of fs (butlast ?p) = Some DirNode) (\<lambda>_ _. True)"
    using triple_mkdirAll [of fs0 root cs c] assms unfolding p(2) by simp
  have f: "triple ?I (\<lambda>fs. tempOf isSibling fs0 ?p tmp \<and> tempHolds ?p tmp None fs) (bindA (fillSibling tmp data) (\<lambda>_. retA tmp))
      (\<lambda>tmp fs. tempOf isSibling fs0 ?p tmp \<and> tempHolds ?p tmp (Some data) fs) (\<lambda>_ _. True)" for tmp
  proof (rule triple_pre)
    fix fs assume "tempOf isSibling fs0 ?p tmp \<and> tempHolds ?p tmp None fs"
    then have t: "tempOf isSibling fs0 ?p tmp" by simp
    show "triple ?I (\<lambda>fs. tempOf isSibling fs0 ?p tmp \<and> tempHolds ?p tmp None fs) (bindA (fillSibling tmp data) (\<lambda>_. retA tmp))
      (\<lambda>tmp fs. tempOf isSibling fs0 ?p tmp \<and> tempHolds ?p tmp (Some data) fs) (\<lambda>_ _. True)"
    proof (rule triple_bind [where R = "\<lambda>_. tempHolds ?p tmp (Some data)"])
      show "triple ?I (\<lambda>fs. tempOf isSibling fs0 ?p tmp \<and> tempHolds ?p tmp None fs) (fillSibling tmp data)
        (\<lambda>_. tempHolds ?p tmp (Some data)) (\<lambda>_ _. True)"
        by (rule triple_conseq [OF triple_fillSibling [OF t]]) auto
    next
      show "triple ?I (tempHolds ?p tmp (Some data)) (retA tmp)
        (\<lambda>tmp fs. tempOf isSibling fs0 ?p tmp \<and> tempHolds ?p tmp (Some data) fs) (\<lambda>_ _. True)"
        using t by (intro triple_conseq [OF triple_ret [where Q = "\<lambda>tmp fs. tempOf isSibling fs0 ?p tmp \<and> tempHolds ?p tmp (Some data) fs"]]) auto
    qed
  qed
  show ?thesis
    by (rule triple_bind [OF a], rule triple_bind, rule triple_mapErr, rule b, rule triple_bind, rule triple_mapErr,
        rule triple_createSibling [OF p(3)], rule f)
qed


lemma bindA_assoc: "bindA (bindA m k) h = bindA m (\<lambda>x. bindA (k x) h)"
  by (rule ext) (simp add: bindA_def split: prod.splits sum.splits)

lemma bindA_ret [simp]: "bindA (retA x) k = k x"
  by (rule ext) (simp add: bindA_def retA_def)

text \<open>
  In every state the target holds what it held or the new data, it holds the new data when the
  write succeeds and what it held when the write fails.
\<close>

lemma triple_writeAtomic:
  fixes root r fs0 and data :: rawData
  defines "p \<equiv> root @ relPath r"
  defines "I \<equiv> evolvesT isSibling fs0 p {map_of fs0 p, Some (FileNode (Some data))}"
  shows "triple I (\<lambda>fs. held fs0 p fs \<and> map_of fs root = Some DirNode) (writeAtomic env root r data)
     (\<lambda>_ fs. map_of fs p = Some (FileNode (Some data))) (\<lambda>_ fs. map_of fs p = map_of fs0 p)"
proof (cases "r = lit ''.''")
  case True
  then show ?thesis
    by (auto simp: writeAtomic_def evolvesT_def intro: triple_conseq [OF triple_fail [where E = "\<lambda>_ fs. map_of fs p = map_of fs0 p"]])
next
  case False
  obtain cs c where r: "relPath r = cs @ [c]" using relPath_ne by (metis rev_exhaust)
  let ?prep = "bindA (checkTarget p) (\<lambda>_.
      bindA (mapErr (IOFailed (lit ''create parent directories'')) (mkdirAll root (butlast (relPath r)))) (\<lambda>_.
      bindA (mapErr (IOFailed (lit ''create temp file'')) (createSibling env p)) (\<lambda>tmp.
      bindA (fillSibling tmp data) (\<lambda>_. retA tmp))))"
  let ?H = "\<lambda>tmp fs. held fs0 p fs \<and> tempOf isSibling fs0 p tmp \<and> tempHolds p tmp (Some data) fs"
  have w: "writeAtomic env root r data =
      bindA ?prep (\<lambda>tmp. bindA (onErrorA (mapErr (IOFailed (lit ''rename temp file'')) (rename tmp p)) (removePath tmp))
        (\<lambda>_. syncParent (butlast p)))"
    using False by (simp add: writeAtomic_def Let_def bindA_assoc p_def)
  have prep: "triple I (\<lambda>fs. held fs0 p fs \<and> map_of fs root = Some DirNode) ?prep ?H (\<lambda>_ fs. map_of fs p = map_of fs0 p)"
  proof -
    have "triple (held fs0 p) (\<lambda>fs. held fs0 p fs \<and> map_of fs root = Some DirNode) ?prep
        (\<lambda>tmp fs. tempOf isSibling fs0 p tmp \<and> tempHolds p tmp (Some data) fs) (\<lambda>_ _. True)"
      unfolding p_def by (rule triple_conseq [OF triple_prepareSibling [OF r]]) auto
    then have "triple I (\<lambda>fs. held fs0 p fs \<and> map_of fs root = Some DirNode) ?prep ?H (\<lambda>_ fs. held fs0 p fs \<and> True)"
      unfolding I_def by (rule triple_strengthen) (auto intro: held_evolves)
    then show ?thesis by (rule triple_conseq) (auto simp: evolvesT_def)
  qed
  have ren: "triple I (?H tmp) (onErrorA (mapErr (IOFailed (lit ''rename temp file'')) (rename tmp p)) (removePath tmp))
      (\<lambda>_ fs. map_of fs p = Some (FileNode (Some data))) (\<lambda>_ fs. map_of fs p = map_of fs0 p)" for tmp
  proof (rule triple_pre)
    fix fs assume "?H tmp fs"
    then have t: "tempOf isSibling fs0 p tmp" by simp
    have 1: "triple I (\<lambda>fs. tempHolds p tmp (Some data) fs \<and> held fs0 p fs) (rename tmp p)
        (\<lambda>_ fs. map_of fs p = Some (FileNode (Some data)) \<and> map_of fs tmp = None)
        (\<lambda>_ fs. tempHolds p tmp (Some data) fs \<and> held fs0 p fs)"
      using triple_rename [OF t, of "Some data" "{map_of fs0 p, Some (FileNode (Some data))}"]
      unfolding rename_def I_def by (intro triple_sysCall_frame) simp
    have 2: "triple I (\<lambda>fs. held fs0 p fs \<and> map_of fs tmp \<noteq> Some DirNode) (removePath tmp)
        (\<lambda>_ fs. map_of fs p = map_of fs0 p) (\<lambda>_ fs. map_of fs p = map_of fs0 p)"
    proof -
      have "triple (held fs0 p) (\<lambda>fs. held fs0 p fs \<and> map_of fs tmp \<noteq> Some DirNode) (removePath tmp) (\<lambda>_ _. True) (\<lambda>_ _. True)"
        by (rule triple_conseq [OF triple_dropTemp [OF t]]) auto
      then have "triple I (\<lambda>fs. held fs0 p fs \<and> map_of fs tmp \<noteq> Some DirNode) (removePath tmp)
          (\<lambda>_ fs. held fs0 p fs \<and> True) (\<lambda>_ fs. held fs0 p fs \<and> True)"
        unfolding I_def by (rule triple_strengthen) (auto intro: held_evolves)
      then show ?thesis by (rule triple_conseq) (auto simp: evolvesT_def)
    qed
    show "triple I (?H tmp) (onErrorA (mapErr (IOFailed (lit ''rename temp file'')) (rename tmp p)) (removePath tmp))
      (\<lambda>_ fs. map_of fs p = Some (FileNode (Some data))) (\<lambda>_ fs. map_of fs p = map_of fs0 p)"
    proof (rule triple_onError [where F = "\<lambda>_ fs. tempHolds p tmp (Some data) fs \<and> held fs0 p fs"])
      show "triple I (?H tmp) (mapErr (IOFailed (lit ''rename temp file'')) (rename tmp p))
          (\<lambda>_ fs. map_of fs p = Some (FileNode (Some data))) (\<lambda>_ fs. tempHolds p tmp (Some data) fs \<and> held fs0 p fs)"
        by (rule triple_mapErr, rule triple_conseq [OF 1]) auto
    next
      show "triple I (\<lambda>fs. tempHolds p tmp (Some data) fs \<and> held fs0 p fs) (removePath tmp)
          (\<lambda>_ fs. map_of fs p = map_of fs0 p) (\<lambda>_ fs. map_of fs p = map_of fs0 p)"
        by (rule triple_conseq [OF 2]) (auto simp: tempHolds_def)
    qed
  qed
  show ?thesis
    unfolding w by (rule triple_bind [OF prep], rule triple_bind [OF ren], rule triple_syncParent)
qed

section \<open>What a file holds\<close>

definition content :: "rawData fs \<Rightarrow> path \<Rightarrow> rawData option" where
  "content fs q = (case map_of fs q of Some (FileNode d) \<Rightarrow> Some (rawOf d) | _ \<Rightarrow> None)"

text \<open>
  \<open>sameButTemp goal fs q\<close>: the file at \<open>q\<close> holds what \<open>goal\<close> says, unless \<open>goal\<close> has no file there and \<open>q\<close>
  is the name of a temporary sibling (which a failed cleanup may leave behind).
\<close>

definition sameButTemp :: "(path \<Rightarrow> rawData option) \<Rightarrow> rawData fs \<Rightarrow> path \<Rightarrow> bool" where
  "sameButTemp goal fs q \<longleftrightarrow> content fs q = goal q \<or> goal q = None \<and> isSibling q"

lemma sameButTemp_refl [simp]: "sameButTemp (content fs) fs q"
  by (simp add: sameButTemp_def)

lemma sameButTemp_trans:
  "sameButTemp goal fs q \<Longrightarrow> sameButTemp (content fs) fs' q \<Longrightarrow> sameButTemp goal fs' q"
  by (auto simp: sameButTemp_def)

lemma content_file [simp]: "map_of fs p = Some (FileNode d) \<Longrightarrow> content fs p = Some (rawOf d)"
  by (simp add: content_def)

lemma rawOf_Some [simp]: "rawOf (Some d) = d"
  by (simp add: rawOf_def)

lemma content_cong: "map_of fs p = map_of fs' p \<Longrightarrow> content fs p = content fs' p"
  by (simp add: content_def)

lemma evolves_others: "evolvesT isSibling fs0 p V fs \<Longrightarrow> q \<noteq> p \<Longrightarrow> sameButTemp (content fs0) fs q"
  by (auto simp: evolvesT_def sameButTemp_def content_def split: option.splits node.splits)

lemma triple_run:
  assumes "triple I P m Q E" "m w = (r, w')" "I (w_fs w)" "P (w_fs w)"
  shows "I (w_fs w') \<and> (case r of Inl e \<Rightarrow> E e (w_fs w') | Inr x \<Rightarrow> Q x (w_fs w'))"
  using tripleD [OF assms(1,2) safeSince_start assms(4)] assms(3) by (auto simp: safeSince_def)

lemma triple_readOnly_stat: "triple I P (stat p) (\<lambda>_. P) (\<lambda>_. P)"
  by (rule triple_conseq [OF triple_stat [where P = P]]) auto

lemma triple_liftSum:
  "(\<And>x. r = Inr x \<Longrightarrow> triple I P (retA x) Q E) \<Longrightarrow> (\<And>e. r = Inl e \<Longrightarrow> triple I P (failA (f e)) Q E) \<Longrightarrow>
   triple I P (liftSum f r) Q E"
  by (cases r) (auto simp: liftSum_def)

lemma triple_openRoot:
  assumes I: "\<And>fs. I fs \<Longrightarrow> wfFs fs"
  shows "triple I P (openRoot env d) (\<lambda>root fs. P fs \<and> root = env_dir env d \<and> map_of fs root = Some DirNode) (\<lambda>_. P)"
proof -
  have "triple I P (stat (env_dir env d)) (\<lambda>n fs. P fs \<and> map_of fs (env_dir env d) = Some n) (\<lambda>_. P)"
    by (rule triple_conseq [OF triple_stat [where P = P]]) (auto simp: I)
  then show ?thesis
    unfolding openRoot_def
    by (intro triple_mapErr, elim triple_bind)
      (auto simp: isDirNode_iff intro: triple_conseq [OF triple_fail [where E = "\<lambda>_. P"]]
        triple_conseq [OF triple_ret [where Q = "\<lambda>root fs. P fs \<and> root = env_dir env d \<and> map_of fs root = Some DirNode"]])
qed

section \<open>Writing a file\<close>

abbreviation writeStates :: "rawData fs \<Rightarrow> path \<Rightarrow> rawData \<Rightarrow> rawData fs \<Rightarrow> bool" where
  "writeStates fs0 p data \<equiv> evolvesT isSibling fs0 p {map_of fs0 p, Some (FileNode (Some data))}"

lemma writeStates_start: "wfFs fs0 \<Longrightarrow> writeStates fs0 p data fs0" "wfFs fs0 \<Longrightarrow> held fs0 p fs0"
  by (simp_all add: evolves_refl)

lemma writeStates_content: "writeStates fs0 p data fs \<Longrightarrow> content fs p \<in> {content fs0 p, Some data}"
  by (auto simp: evolvesT_def content_def)

lemma triple_writeRooted:
  assumes "root = env_dir env d" "p = root @ relPath r"
  shows "triple (writeStates fs0 p data) (\<lambda>fs. held fs0 p fs \<and> map_of fs root = Some DirNode)
     (writeAtomic env root r data) (\<lambda>_ fs. content fs p = Some data) (\<lambda>_ fs. content fs p = content fs0 p)"
  unfolding assms(2)
  by (rule triple_conseq [OF triple_writeAtomic]) (auto intro: content_cong)

lemma triple_WriteFile:
  assumes res: "resolvePath cfg raw = Inr r" and p: "p = localPath env r"
  shows "triple (writeStates fs0 p (Utf8 s)) (held fs0 p) (WriteFile env cfg raw (Utf8 s))
     (\<lambda>x fs. content fs p = Some (Utf8 s) \<and> x = \<lparr>wr_Path = runtimePath r, wr_BytesWritten = byteLen s\<rparr>)
     (\<lambda>_ fs. content fs p = content fs0 p)"
proof -
  let ?I = "writeStates fs0 p (Utf8 s)" and ?x = "\<lparr>wr_Path = runtimePath r, wr_BytesWritten = byteLen s\<rparr>"
  have keep: "content fs p = content fs0 p" if "held fs0 p fs" for fs
    using that by (auto simp: evolvesT_def intro: content_cong)
  have open': "triple ?I (held fs0 p) (openRoot env (rootLocalDir r))
      (\<lambda>root fs. held fs0 p fs \<and> root = env_dir env (rootLocalDir r) \<and> map_of fs root = Some DirNode)
      (\<lambda>_ fs. content fs p = content fs0 p)"
    by (rule triple_conseq [OF triple_openRoot [where P = "held fs0 p"]]) (auto intro: evolves_wf keep)
  have wr: "triple ?I (\<lambda>fs. held fs0 p fs \<and> root = env_dir env (rootLocalDir r) \<and> map_of fs root = Some DirNode)
      (writeAtomic env root (rel r) (Utf8 s)) (\<lambda>_ fs. content fs p = Some (Utf8 s)) (\<lambda>_ fs. content fs p = content fs0 p)" for root
  proof (rule triple_pre)
    fix fs assume "held fs0 p fs \<and> root = env_dir env (rootLocalDir r) \<and> map_of fs root = Some DirNode"
    then have root: "root = env_dir env (rootLocalDir r)" by simp
    then have "p = root @ relPath (rel r)" using p by (simp add: localPath_def)
    from triple_writeRooted [OF root this]
    show "triple ?I (\<lambda>fs. held fs0 p fs \<and> root = env_dir env (rootLocalDir r) \<and> map_of fs root = Some DirNode)
      (writeAtomic env root (rel r) (Utf8 s)) (\<lambda>_ fs. content fs p = Some (Utf8 s)) (\<lambda>_ fs. content fs p = content fs0 p)"
      by (rule triple_conseq) auto
  qed
  have ret: "triple ?I (\<lambda>fs. content fs p = Some (Utf8 s)) (retA ?x)
      (\<lambda>x fs. content fs p = Some (Utf8 s) \<and> x = ?x) (\<lambda>_ fs. content fs p = content fs0 p)"
    by (rule triple_conseq [OF triple_ret [where Q = "\<lambda>x fs. content fs p = Some (Utf8 s) \<and> x = ?x"]]) auto
  show ?thesis
    unfolding WriteFile_def using res
    by (simp add: liftSum_def) (rule triple_bind [OF open'], rule triple_bind [OF wr], rule ret)
qed

text \<open>
  C21: writing a file is atomic. In every state the file system goes through, so after a crash at
  any moment, the file holds its old text or the whole new one and every other file what it
  held, apart from temporary siblings that did not exist; when the write reports success the
  file holds the new text and the reported size is its size in bytes, and when it reports an
  error the file is as it was.
\<close>

theorem write_file_atomic:
  assumes "wfFs (w_fs w)" "resolvePath cfg raw = Inr r" "WriteFile env cfg raw (Utf8 s) w = (res, w')"
  shows "(\<exists>news. w_past w' = news @ w_past w \<and>
      (\<forall>fs \<in> set (w_fs w' # news). content fs (localPath env r) \<in> {content (w_fs w) (localPath env r), Some (Utf8 s)} \<and>
         (\<forall>q. q \<noteq> localPath env r \<longrightarrow> sameButTemp (content (w_fs w)) fs q))) \<and>
    (case res of
       Inr x \<Rightarrow> content (w_fs w') (localPath env r) = Some (Utf8 s) \<and> wr_Path x = runtimePath r \<and> wr_BytesWritten x = byteLen s
     | Inl e \<Rightarrow> content (w_fs w') (localPath env r) = content (w_fs w) (localPath env r))"
proof -
  let ?p = "localPath env r" and ?I = "writeStates (w_fs w) (localPath env r) (Utf8 s)"
  have start: "safeSince (w_past w) ?I w" "held (w_fs w) ?p (w_fs w)"
    using assms(1) by (auto intro: safeSince_start writeStates_start)
  from tripleD [OF triple_WriteFile [OF assms(2) refl] assms(3) start]
  have s: "safeSince (w_past w) ?I w'" and r: "case res of Inl e \<Rightarrow> content (w_fs w') ?p = content (w_fs w) ?p
      | Inr x \<Rightarrow> content (w_fs w') ?p = Some (Utf8 s) \<and> x = \<lparr>wr_Path = runtimePath r, wr_BytesWritten = byteLen s\<rparr>" by auto
  from s obtain news where n: "w_past w' = news @ w_past w" "\<forall>fs \<in> set (w_fs w' # news). ?I fs"
    by (auto simp: safeSince_def list_all_iff)
  have "content fs ?p \<in> {content (w_fs w) ?p, Some (Utf8 s)} \<and> (\<forall>q. q \<noteq> ?p \<longrightarrow> sameButTemp (content (w_fs w)) fs q)"
    if "?I fs" for fs using writeStates_content [OF that] evolves_others [OF that] by blast
  with n have "\<exists>news. w_past w' = news @ w_past w \<and>
      (\<forall>fs \<in> set (w_fs w' # news). content fs ?p \<in> {content (w_fs w) ?p, Some (Utf8 s)} \<and>
         (\<forall>q. q \<noteq> ?p \<longrightarrow> sameButTemp (content (w_fs w)) fs q))" by blast
  moreover have "case res of Inr x \<Rightarrow> content (w_fs w') ?p = Some (Utf8 s) \<and> wr_Path x = runtimePath r \<and> wr_BytesWritten x = byteLen s
     | Inl e \<Rightarrow> content (w_fs w') ?p = content (w_fs w) ?p"
    using r by (cases res) auto
  ultimately show ?thesis by blast
qed

text \<open>A sandbox with one file, and a write whose rename fails.\<close>

definition sampleEnv :: osEnv where
  "sampleEnv = \<lparr>env_dir = cleanComponents, env_random = (\<lambda>w n. Some (replicate n (int (length (w_past w)))))\<rparr>"

definition sampleDisk :: "gostr option list \<Rightarrow> rawData world" where
  "sampleDisk answers =
     \<lparr>w_fs = [([], DirNode), ([lit ''w''], DirNode), ([lit ''w'', lit ''a''], FileNode (Some (Utf8 [120, 10, 121, 10]))),
              ([lit ''m''], DirNode)],
      w_past = [], w_answers = answers\<rparr>"

lemma sampleDisk_wf: "wfFs (w_fs (sampleDisk answers))"
proof -
  have "wfFs (w_fs (sampleDisk []))" by code_simp
  then show ?thesis by (simp add: sampleDisk_def)
qed

theorem write_file_atomic_witness:
  "fst (WriteFile sampleEnv sampleRoots (lit ''a'') (Utf8 [122]) (sampleDisk (replicate 6 None @ [Some (lit ''I/O error'')]))) =
     Inl (IOFailed (lit ''rename temp file'') (Sys (lit ''I/O error''))) \<and>
   content (w_fs (snd (WriteFile sampleEnv sampleRoots (lit ''a'') (Utf8 [122])
     (sampleDisk (replicate 6 None @ [Some (lit ''I/O error'')]))))) [lit ''w'', lit ''a''] = Some (Utf8 [120, 10, 121, 10])"
proof -
  let ?w = "sampleDisk (replicate 6 None @ [Some (lit ''I/O error'')])"
  let ?r = "\<lparr>rootLocalDir = lit ''/w'', rootRuntime = lit ''/workspace'', rel = lit ''a'', runtimePath = lit ''/workspace/a''\<rparr>"
  let ?run = "WriteFile sampleEnv sampleRoots (lit ''a'') (Utf8 [122]) ?w"
  have res: "resolvePath sampleRoots (lit ''a'') = Inr ?r" by code_simp
  have f: "fst ?run = Inl (IOFailed (lit ''rename temp file'') (Sys (lit ''I/O error'')))" by code_simp
  have p: "localPath sampleEnv ?r = [lit ''w'', lit ''a'']" by code_simp
  have "?run = (Inl (IOFailed (lit ''rename temp file'') (Sys (lit ''I/O error''))), snd ?run)" using f by (metis prod.collapse)
  from write_file_atomic [OF sampleDisk_wf res this] p
  have "content (w_fs (snd ?run)) [lit ''w'', lit ''a''] = content (w_fs ?w) [lit ''w'', lit ''a'']" by simp
  moreover have "content (w_fs ?w) [lit ''w'', lit ''a''] = Some (Utf8 [120, 10, 121, 10])" by code_simp
  ultimately show ?thesis using f by simp
qed

section \<open>Runs of the parts\<close>

lemma bindA_run:
  "bindA m k w = (r, w') \<longleftrightarrow>
     (\<exists>e. m w = (Inl e, w') \<and> r = Inl e) \<or> (\<exists>x w1. m w = (Inr x, w1) \<and> k x w1 = (r, w'))"
  by (auto simp: bindA_def split: prod.splits sum.splits)

lemma handleA_run:
  "handleA m k h w = (r, w') \<longleftrightarrow>
     (\<exists>e w1. m w = (Inl e, w1) \<and> h e w1 = (r, w')) \<or> (\<exists>x w1. m w = (Inr x, w1) \<and> k x w1 = (r, w'))"
  by (auto simp: handleA_def split: prod.splits sum.splits)

lemma retA_run: "retA x w = (r, w') \<longleftrightarrow> r = Inr x \<and> w' = w"
  by (auto simp: retA_def)

lemma failA_run: "failA e w = (r, w') \<longleftrightarrow> r = Inl e \<and> w' = w"
  by (auto simp: failA_def)

lemma liftSum_run:
  "liftSum f s w = (r, w') \<longleftrightarrow> w' = w \<and> ((\<exists>e. s = Inl e \<and> r = Inl (f e)) \<or> (\<exists>x. s = Inr x \<and> r = Inr x))"
  by (cases s) (auto simp: liftSum_def retA_def failA_def)

lemmas act_run = bindA_run handleA_run retA_run failA_run liftSum_run

lemma openRoot_run:
  assumes "wfFs (w_fs w)" "openRoot env d w = (r, w1)"
  shows "w_fs w1 = w_fs w \<and> (\<forall>root. r = Inr root \<longrightarrow> root = env_dir env d \<and> map_of (w_fs w) root = Some DirNode)"
proof -
  have "triple (\<lambda>fs. fs = w_fs w) (\<lambda>_. True) (openRoot env d)
      (\<lambda>root fs. True \<and> root = env_dir env d \<and> map_of fs root = Some DirNode) (\<lambda>_ _. True)"
    by (rule triple_openRoot) (use assms(1) in simp)
  from triple_run [OF this assms(2)] show ?thesis by (cases r) auto
qed

lemma triple_readTextFile:
  assumes I: "\<And>fs. I fs \<Longrightarrow> wfFs fs"
  shows "triple I (\<lambda>_. True) (readTextFile root r)
     (\<lambda>tf fs. \<exists>raw. content fs (root @ relPath r) = Some raw \<and> decodeTextFile raw = Inr tf) (\<lambda>_ _. True)"
proof -
  let ?p = "root @ relPath r"
  have rd: "triple I (\<lambda>_. True) (mapErr (IOFailed (lit ''read file'')) (readFile ?p)) (\<lambda>d fs. content fs ?p = Some (rawOf d)) (\<lambda>_ _. True)"
    by (rule triple_mapErr, rule triple_conseq [OF triple_readFile [OF I, where P = "\<lambda>_. True"]]) auto
  have "triple I (\<lambda>fs. content fs ?p = Some (rawOf d)) (liftSum TextFailed (decodeTextFile (rawOf d)))
      (\<lambda>tf fs. \<exists>raw. content fs ?p = Some raw \<and> decodeTextFile raw = Inr tf) (\<lambda>_ _. True)" for d
    by (rule triple_liftSum)
      (auto intro: triple_conseq [OF triple_ret [where Q = "\<lambda>tf fs. \<exists>raw. content fs ?p = Some raw \<and> decodeTextFile raw = Inr tf"]])
  from triple_bind [OF rd this]
  show ?thesis
    unfolding readTextFile_def by (intro triple_handle [OF triple_readOnly_stat]) auto
qed

lemma readTextFile_run:
  assumes "wfFs (w_fs w)" "readTextFile root r w = (res, w1)"
  shows "w_fs w1 = w_fs w \<and>
     (\<forall>tf. res = Inr tf \<longrightarrow> (\<exists>raw. content (w_fs w) (root @ relPath r) = Some raw \<and> decodeTextFile raw = Inr tf))"
proof -
  have "triple (\<lambda>fs. fs = w_fs w) (\<lambda>_. True) (readTextFile root r)
     (\<lambda>tf fs. \<exists>raw. content fs (root @ relPath r) = Some raw \<and> decodeTextFile raw = Inr tf) (\<lambda>_ _. True)"
    by (rule triple_readTextFile) (use assms(1) in simp)
  from triple_run [OF this assms(2)] show ?thesis by (cases res) auto
qed

lemma writeAtomic_run:
  assumes "wfFs (w_fs w)" "map_of (w_fs w) root = Some DirNode" "writeAtomic env root r data w = (res, w1)"
    "p = root @ relPath r"
  shows "wfFs (w_fs w1) \<and> (\<forall>q. q \<noteq> p \<longrightarrow> sameButTemp (content (w_fs w)) (w_fs w1) q) \<and>
     content (w_fs w1) p = (case res of Inl _ \<Rightarrow> content (w_fs w) p | Inr _ \<Rightarrow> Some data)"
proof -
  have "writeStates (w_fs w) p data (w_fs w1) \<and>
      (case res of Inl e \<Rightarrow> map_of (w_fs w1) p = map_of (w_fs w) p | Inr x \<Rightarrow> map_of (w_fs w1) p = Some (FileNode (Some data)))"
    unfolding assms(4) by (rule triple_run [OF triple_writeAtomic assms(3)])
      (use assms(1,2) in \<open>auto intro: writeStates_start\<close>)
  then show ?thesis
    using evolves_others [of "w_fs w" p] by (auto intro: evolves_wf content_cong split: sum.splits)
qed

section \<open>Editing a file\<close>

lemma EditFile_cases:
  assumes wf: "wfFs (w_fs w)" and res: "resolvePath cfg raw = Inr r"
    and run: "EditFile env cfg raw oldText newText w = (out, w')"
  obtains "w_fs w' = w_fs w" "\<exists>e. out = Inl e"
  | root tf before after w1 w2 res' where "oldText \<noteq> []" "openRoot env (rootLocalDir r) w = (Inr root, w1)"
    "readTextFile root (rel r) w1 = (Inr tf, w2)" "editText tf oldText newText = Inr (before, after)"
    "writeAtomic env root (rel r) (finalRaw tf after) w2 = (res', w')"
    "case res' of Inl e \<Rightarrow> out = Inl e | Inr _ \<Rightarrow> \<exists>x. out = Inr x \<and> er_Path x = runtimePath r"
proof (cases "oldText = []")
  case True
  with run res that(1) show thesis by (simp add: EditFile_def liftSum_def failA_run)
next
  case False
  note ef = EditFile_def liftSum_def [of PathFailed] res False
  obtain ro w1 where o: "openRoot env (rootLocalDir r) w = (ro, w1)" by fastforce
  show thesis
  proof (cases ro)
    case (Inl e)
    with run o openRoot_run [OF wf o] that(1) show thesis by (auto simp: ef bindA_def)
  next
    case root: (Inr root)
    obtain rt w2 where t: "readTextFile root (rel r) w1 = (rt, w2)" by fastforce
    have same: "w_fs w1 = w_fs w" "w_fs w2 = w_fs w"
      using openRoot_run [OF wf o] readTextFile_run [OF _ t] wf by auto
    show thesis
    proof (cases rt)
      case (Inl e)
      with run o root t same that(1) show thesis by (auto simp: ef bindA_def)
    next
      case tf: (Inr tf)
      show thesis
      proof (cases "editText tf oldText newText")
        case (Inl e)
        with run o root t tf same that(1) show thesis by (auto simp: ef bindA_def liftSum_def failA_def)
      next
        case (Inr ba)
        obtain before after where ba: "ba = (before, after)" by fastforce
        obtain res' w3 where wr: "writeAtomic env root (rel r) (finalRaw tf after) w2 = (res', w3)" by fastforce
        with run o root t tf Inr ba
        have "w3 = w'" "case res' of Inl e \<Rightarrow> out = Inl e | Inr _ \<Rightarrow> \<exists>x. out = Inr x \<and> er_Path x = runtimePath r"
          by (auto simp: ef bindA_def liftSum_def retA_def split: sum.splits)
        with that(2) False o root t tf Inr ba wr show thesis by blast
      qed
    qed
  qed
qed

text \<open>
  C20: an edit that succeeds replaced exactly one occurrence.  With line endings normalized, the file
  was \<open>a\<close>, the old text, \<open>b\<close>, where the old text occurs neither before its place nor again in \<open>b\<close>;
  it now is its byte order mark followed by \<open>a\<close>, the new text, \<open>b\<close>, with every line ending written as
  the one detected in the file, and no other file changed.  In a file whose line endings are uniform
  every byte outside the replaced text is kept; in a file that mixes them, all of them are
  rewritten to the detected one.  An edit that fails changed no file.
\<close>

theorem edit_file_exact:
  assumes wf: "wfFs (w_fs w)" and res: "resolvePath cfg raw = Inr r"
    and run: "EditFile env cfg raw oldText newText w = (out, w')"
  shows "(\<forall>q. q \<noteq> localPath env r \<longrightarrow> sameButTemp (content (w_fs w)) (w_fs w') q) \<and>
    (case out of
       Inl e \<Rightarrow> content (w_fs w') (localPath env r) = content (w_fs w) (localPath env r)
     | Inr x \<Rightarrow>
         \<exists>bytes tf a b. content (w_fs w) (localPath env r) = Some bytes \<and> decodeTextFile bytes = Inr tf \<and>
           normalizeLineEndings (tf_text tf) = a @ normalizeLineEndings oldText @ b \<and>
           \<not> containsStr b (normalizeLineEndings oldText) \<and>
           (\<forall>a' b'. normalizeLineEndings (tf_text tf) = a' @ normalizeLineEndings oldText @ b' \<longrightarrow> length a \<le> length a') \<and>
           content (w_fs w') (localPath env r) =
             Some (Utf8 (tf_bom tf @ restoreLineEndings (a @ normalizeLineEndings newText @ b) (tf_lineEnding tf))) \<and>
           (uniformEndings (tf_text tf) \<longrightarrow>
             (\<exists>before after.
                bytes = Utf8 (before @ restoreLineEndings (normalizeLineEndings oldText) (tf_lineEnding tf) @ after) \<and>
                content (w_fs w') (localPath env r) =
                  Some (Utf8 (before @ restoreLineEndings (normalizeLineEndings newText) (tf_lineEnding tf) @ after)))) \<and>
           er_Path x = runtimePath r)"
proof (rule EditFile_cases [OF wf res run])
  assume "w_fs w' = w_fs w" "\<exists>e. out = Inl e"
  then show ?thesis by auto
next
  fix root tf before after w1 w2 res'
  assume o: "oldText \<noteq> []" "openRoot env (rootLocalDir r) w = (Inr root, w1)"
    "readTextFile root (rel r) w1 = (Inr tf, w2)" "editText tf oldText newText = Inr (before, after)"
    and wr: "writeAtomic env root (rel r) (finalRaw tf after) w2 = (res', w')"
    and out: "case res' of Inl e \<Rightarrow> out = Inl e | Inr _ \<Rightarrow> \<exists>x. out = Inr x \<and> er_Path x = runtimePath r"
  let ?p = "localPath env r"
  from openRoot_run [OF wf o(2)] have root: "w_fs w1 = w_fs w" "root = env_dir env (rootLocalDir r)" "map_of (w_fs w) root = Some DirNode"
    by auto
  then have p: "?p = root @ relPath (rel r)" by (simp add: localPath_def)
  from readTextFile_run [OF _ o(3)] wf root p obtain bytes where b: "w_fs w2 = w_fs w"
    and bytes: "content (w_fs w) ?p = Some bytes" "decodeTextFile bytes = Inr tf" by auto
  have run': "wfFs (w_fs w') \<and> (\<forall>q. q \<noteq> ?p \<longrightarrow> sameButTemp (content (w_fs w)) (w_fs w') q) \<and>
     content (w_fs w') ?p = (case res' of Inl _ \<Rightarrow> content (w_fs w) ?p | Inr _ \<Rightarrow> Some (finalRaw tf after))"
    using writeAtomic_run [OF _ _ wr p, unfolded b] wf root by blast
  obtain a b where ab: "before = normalizeLineEndings (tf_text tf)" "before = a @ normalizeLineEndings oldText @ b"
    "after = a @ normalizeLineEndings newText @ b" "\<not> containsStr b (normalizeLineEndings oldText)"
    "\<And>a' b'. before = a' @ normalizeLineEndings oldText @ b' \<Longrightarrow> length a \<le> length a'"
    using editText_splits [OF o(1,4)] by blast
  show ?thesis
  proof (cases res')
    case (Inl e)
    with out run' show ?thesis by simp
  next
    case (Inr u)
    with out obtain x where x: "out = Inr x" "er_Path x = runtimePath r" by auto
    have new: "content (w_fs w') ?p =
        Some (Utf8 (tf_bom tf @ restoreLineEndings (a @ normalizeLineEndings newText @ b) (tf_lineEnding tf)))"
      using run' Inr by (simp add: finalRaw_def ab(3))
    have first: "\<forall>a' b'. normalizeLineEndings (tf_text tf) = a' @ normalizeLineEndings oldText @ b' \<longrightarrow> length a \<le> length a'"
      using ab(1,5) by blast
    let ?R = "\<lambda>s. restoreLineEndings s (tf_lineEnding tf)"
    have uniform: "bytes = Utf8 ((tf_bom tf @ ?R a) @ ?R (normalizeLineEndings oldText) @ ?R b) \<and>
        content (w_fs w') ?p = Some (Utf8 ((tf_bom tf @ ?R a) @ ?R (normalizeLineEndings newText) @ ?R b))"
      if "uniformEndings (tf_text tf)"
    proof -
      note parts = decodeTextFile_parts [OF bytes(2)]
      have "tf_text tf = ?R (a @ normalizeLineEndings oldText @ b)"
        using parts restore_uniform [OF that] ab(1,2) by metis
      then have "tf_text tf = ?R a @ ?R (normalizeLineEndings oldText) @ ?R b" by (simp only: restore_append)
      then show ?thesis using parts new by (simp add: restore_append)
    qed
    show ?thesis
      unfolding x(1) sum.case using run' x(2) new first ab(4) bytes ab(2) [unfolded ab(1)] uniform by blast
  qed
qed


text \<open>One line of a two-line file.\<close>

theorem edit_file_exact_witness:
  "fst (EditFile sampleEnv sampleRoots (lit ''a'') [120, 13, 10] [122, 10] (sampleDisk [])) =
     Inr \<lparr>er_Path = lit ''/workspace/a'', er_Diff = [45, 120, 10, 43, 122, 10, 32, 121], er_FirstChangedLine = 1\<rparr> \<and>
   content (w_fs (snd (EditFile sampleEnv sampleRoots (lit ''a'') [120, 13, 10] [122, 10] (sampleDisk [])))) [lit ''m'', lit ''n''] = None \<and>
   content (w_fs (snd (EditFile sampleEnv sampleRoots (lit ''a'') [120, 13, 10] [122, 10] (sampleDisk [])))) [lit ''w'', lit ''a''] =
     Some (Utf8 [122, 10, 121, 10])"
proof -
  let ?r = "\<lparr>rootLocalDir = lit ''/w'', rootRuntime = lit ''/workspace'', rel = lit ''a'', runtimePath = lit ''/workspace/a''\<rparr>"
  let ?run = "EditFile sampleEnv sampleRoots (lit ''a'') [120, 13, 10] [122, 10] (sampleDisk [])"
  have res: "resolvePath sampleRoots (lit ''a'') = Inr ?r" by code_simp
  have f: "fst ?run = Inr \<lparr>er_Path = lit ''/workspace/a'', er_Diff = [45, 120, 10, 43, 122, 10, 32, 121], er_FirstChangedLine = 1\<rparr>"
    by code_simp
  have c: "content (w_fs (snd ?run)) [lit ''w'', lit ''a''] = Some (Utf8 [122, 10, 121, 10])" by code_simp
  have p: "localPath sampleEnv ?r \<noteq> [lit ''m'', lit ''n'']" "\<not> isSibling [lit ''m'', lit ''n'']"
    "content (w_fs (sampleDisk [])) [lit ''m'', lit ''n''] = None" by code_simp+
  have "?run = (fst ?run, snd ?run)" by simp
  from edit_file_exact [OF sampleDisk_wf res this, THEN conjunct1, THEN spec [of _ "[lit ''m'', lit ''n'']"]] p
  have "content (w_fs (snd ?run)) [lit ''m'', lit ''n''] = None" by (simp add: sameButTemp_def)
  with f c show ?thesis by simp
qed

end
