(* ===== verification/Patch_Commit.thy ===== *)
theory Patch_Commit
  imports File_Ops
begin

text \<open>
  Applying a patch is all or nothing: planning only reads and records what every file it touches
  holds; committing takes the files one by one to their planned state; and when a step fails the
  rollback takes every file already changed back to what was recorded.
\<close>

section \<open>Steps that change one file\<close>

lemma wfFs_delete_empty:
  assumes "wfFs fs" "p \<noteq> []" "\<not> list_ex (\<lambda>(q, _). q \<noteq> [] \<and> butlast q = p) fs"
  shows "wfFs (AList.delete p fs)"
proof -
  have "butlast k \<noteq> p" if "k \<noteq> []" "map_of fs k \<noteq> None" for k
    using that assms(3) by (auto simp: list_ex_iff dest: map_of_SomeD)
  then show ?thesis using assms(1,2)
    unfolding wfFs_alt map_of_alist by (metis distinct_delete)
qed

lemma removePath_run:
  assumes "wfFs (w_fs w)" "p \<noteq> []" "removePath p w = (res, w1)"
  shows "wfFs (w_fs w1) \<and> (\<forall>q. q \<noteq> p \<longrightarrow> map_of (w_fs w1) q = map_of (w_fs w) q) \<and>
     (case res of
        Inr _ \<Rightarrow> map_of (w_fs w1) p = None
      | Inl e \<Rightarrow> w_fs w1 = w_fs w \<and> (e = NotExist \<longrightarrow> map_of (w_fs w) p = None))"
proof -
  let ?f = "\<lambda>fs. case statFs fs p of Inl e \<Rightarrow> Inl e | Inr n \<Rightarrow>
      (if isDirNode n \<and> list_ex (\<lambda>(q, _). q \<noteq> [] \<and> butlast q = p) fs then Inl DirNotEmpty else Inr ((), AList.delete p fs))"
  have f: "sysCall ?f w = (res, w1)" using assms(3) by (simp add: removePath_def)
  let ?I = "\<lambda>fs. wfFs fs \<and> (\<forall>q. q \<noteq> p \<longrightarrow> map_of fs q = map_of (w_fs w) q)"
  have "triple ?I (\<lambda>fs. fs = w_fs w) (sysCall ?f) (\<lambda>_ fs. map_of fs p = None)
      (\<lambda>e fs. fs = w_fs w \<and> (e = NotExist \<longrightarrow> map_of (w_fs w) p = None))"
  proof (rule triple_sysCall)
    fix fs and x :: unit and fs' assume I: "?I fs" "fs = w_fs w" and run: "?f fs = Inr (x, fs')"
    from run obtain n where n: "statFs fs p = Inr n" "fs' = AList.delete p fs"
      and c: "\<not> (isDirNode n \<and> list_ex (\<lambda>(q, _). q \<noteq> [] \<and> butlast q = p) fs)"
      by (auto split: sum.splits if_splits)
    have "wfFs fs'"
    proof (cases "isDirNode n")
      case True
      with c n I assms(2) show ?thesis by (auto intro: wfFs_delete_empty)
    next
      case False
      with n I show ?thesis by (auto simp: isDirNode_iff intro: wfFs_delete)
    qed
    with n I show "?I fs' \<and> map_of fs' p = None" by simp
  qed (auto dest: statFs_NotExist split: sum.splits if_splits)
  from triple_run [OF this f] assms(1) show ?thesis by (cases res) auto
qed

lemma removeRegularFile_run:
  assumes "wfFs (w_fs w)" "removeRegularFile root r w = (res, w1)" "p = root @ relPath r"
  shows "wfFs (w_fs w1) \<and> (\<forall>q. q \<noteq> p \<longrightarrow> sameButTemp (content (w_fs w)) (w_fs w1) q) \<and>
     content (w_fs w1) p = (case res of Inl _ \<Rightarrow> content (w_fs w) p | Inr _ \<Rightarrow> None)"
proof -
  obtain s w2 where s: "stat p w = (s, w2)" by fastforce
  have "triple (\<lambda>fs. fs = w_fs w) (\<lambda>_. True) (stat p) (\<lambda>n fs. map_of fs p = Some n) (\<lambda>e fs. e = NotExist \<longrightarrow> map_of fs p = None)"
    by (rule triple_conseq [OF triple_stat [where P = "\<lambda>_. True"]]) (use assms(1) in \<open>auto dest: statFs_NotExist\<close>)
  from triple_run [OF this s] have st: "w_fs w2 = w_fs w"
    "case s of Inl e \<Rightarrow> e = NotExist \<longrightarrow> map_of (w_fs w) p = None | Inr n \<Rightarrow> map_of (w_fs w) p = Some n" by (cases s; auto)+
  have run: "(case s of Inl e \<Rightarrow> (if isNotExist e then retA () else failA (IOFailed (lit ''stat file'') e)) w2
      | Inr n \<Rightarrow> (if isDirNode n then failA NotRegularFile else mapErr (IOFailed (lit ''remove file'')) (removePath p)) w2) = (res, w1)"
    using assms(2) s by (cases s) (auto simp: removeRegularFile_def handleA_def assms(3))
  show ?thesis
  proof (cases "\<exists>n. s = Inr n \<and> \<not> isDirNode n")
    case True
    then obtain n where n: "s = Inr n" "\<not> isDirNode n" by blast
    obtain d w3 where d: "removePath p w2 = (d, w3)" by fastforce
    have p: "p \<noteq> []" by (simp add: assms(3))
    from removePath_run [OF _ p d] st assms(1) n run d show ?thesis
      by (auto simp: mapErr_def handleA_def retA_def failA_def sameButTemp_def content_def split: sum.splits)
  next
    case False
    with run st assms(1) have "w_fs w1 = w_fs w" "(\<exists>u. res = Inr u) \<longrightarrow> map_of (w_fs w) p = None"
      by (auto simp: retA_def failA_def isNotExist_def split: sum.splits if_splits)
    with assms(1) show ?thesis by (cases res) (auto simp: content_def)
  qed
qed

lemma removeIfExists_run:
  assumes "wfFs (w_fs w)" "removeIfExists root r w = (res, w1)" "p = root @ relPath r"
  shows "wfFs (w_fs w1) \<and> (\<forall>q. q \<noteq> p \<longrightarrow> sameButTemp (content (w_fs w)) (w_fs w1) q) \<and>
     (res = Inr () \<longrightarrow> content (w_fs w1) p = None)"
proof -
  obtain d w3 where d: "removePath p w = (d, w3)" by fastforce
  have p: "p \<noteq> []" by (simp add: assms(3))
  from removePath_run [OF assms(1) p d] assms(2) d show ?thesis
    by (auto simp: removeIfExists_def assms(3) handleA_def retA_def failA_def isNotExist_def sameButTemp_def content_def
        split: sum.splits if_splits)
qed

definition wanted :: "desiredFileState \<Rightarrow> rawData option" where
  "wanted d = (if ds_shouldExist d then Some (ds_raw d) else None)"

definition recorded :: "fileSnapshot \<Rightarrow> rawData option" where
  "recorded s = (if sn_exists s then Some (sn_raw s) else None)"

lemma applyState_run:
  assumes "wfFs (w_fs w)" "map_of (w_fs w) root = Some DirNode" "applyState env root d w = (res, w1)"
    "p = root @ relPath (rel (ds_resolved d))"
  shows "wfFs (w_fs w1) \<and> (\<forall>q. q \<noteq> p \<longrightarrow> sameButTemp (content (w_fs w)) (w_fs w1) q) \<and>
     content (w_fs w1) p = (case res of Inl _ \<Rightarrow> content (w_fs w) p | Inr _ \<Rightarrow> wanted d)"
proof (cases "ds_shouldExist d")
  case True
  then have "wanted d = Some (ds_raw d)" "writeAtomic env root (rel (ds_resolved d)) (ds_raw d) w = (res, w1)"
    using assms(3) by (simp_all add: applyState_def wanted_def)
  with writeAtomic_run [OF assms(1,2) _ assms(4)] show ?thesis by metis
next
  case False
  then have "wanted d = None" "removeRegularFile root (rel (ds_resolved d)) w = (res, w1)"
    using assms(3) by (simp_all add: applyState_def wanted_def)
  with removeRegularFile_run [OF assms(1) _ assms(4)] show ?thesis by metis
qed

lemma restoreState_run:
  assumes "wfFs (w_fs w)" "map_of (w_fs w) root = Some DirNode" "restoreState env root r s w = (res, w1)"
    "p = root @ relPath r"
  shows "wfFs (w_fs w1) \<and> (\<forall>q. q \<noteq> p \<longrightarrow> sameButTemp (content (w_fs w)) (w_fs w1) q) \<and>
     (res = Inr () \<longrightarrow> content (w_fs w1) p = recorded s)"
  using writeAtomic_run [OF assms(1,2) _ assms(4)] removeIfExists_run [OF assms(1) _ assms(4)] assms(3)
  by (cases "sn_exists s") (auto simp: restoreState_def recorded_def)

section \<open>Rolling back\<close>

definition pathAt :: "osEnv \<Rightarrow> desiredFileState gomap \<Rightarrow> gostr \<Rightarrow> path" where
  "pathAt env desired key = localPath env (ds_resolved (stateAt desired key))"

lemma rollback_step:
  assumes "wfFs (w_fs w)" "rs = ds_resolved (stateAt desired key)"
    "bindA (openRoot env (rootLocalDir rs)) (\<lambda>root. restoreState env root (rel rs) s) w = (res, w1)"
  shows "wfFs (w_fs w1) \<and> (\<forall>q. q \<noteq> pathAt env desired key \<longrightarrow> sameButTemp (content (w_fs w)) (w_fs w1) q) \<and>
     (res = Inr () \<longrightarrow> content (w_fs w1) (pathAt env desired key) = recorded s)"
proof -
  obtain ro w2 where o: "openRoot env (rootLocalDir rs) w = (ro, w2)" by fastforce
  note oo = openRoot_run [OF assms(1) o]
  show ?thesis
  proof (cases ro)
    case (Inl e)
    with oo o assms show ?thesis by (auto simp: bindA_def)
  next
    case (Inr root)
    with oo have root: "root = env_dir env (rootLocalDir rs)" "map_of (w_fs w2) root = Some DirNode" "wfFs (w_fs w2)" "w_fs w2 = w_fs w"
      using assms(1) by auto
    have p: "pathAt env desired key = root @ relPath (rel rs)" by (simp add: pathAt_def localPath_def assms(2) root(1))
    have "restoreState env root (rel rs) s w2 = (res, w1)" using assms(3) o Inr by (simp add: bindA_def)
    from restoreState_run [OF root(3,2) this p] root(4) show ?thesis by simp
  qed
qed

lemma rollbackLoop_total: "\<exists>es w'. rollbackLoop env desired snapshots keys w = (Inr es, w')"
proof (induction keys arbitrary: w)
  case (Cons key keys)
  show ?case
  proof (cases "bindA (openRoot env (rootLocalDir (ds_resolved (stateAt desired key)))) (\<lambda>root.
      restoreState env root (rel (ds_resolved (stateAt desired key))) (snapshotAt snapshots key)) w")
    case (Pair res w1)
    with Cons.IH [of w1] show ?thesis
      by (cases res) (auto simp: Let_def handleA_def bindA_def retA_def)
  qed
qed (simp add: retA_def)

lemma rollbackLoop_restores:
  assumes "wfFs (w_fs w)" "\<forall>q. q \<notin> pathAt env desired ` set keys \<longrightarrow> sameButTemp g (w_fs w) q"
    "\<forall>key \<in> set keys. recorded (snapshotAt snapshots key) = g (pathAt env desired key)"
    "rollbackLoop env desired snapshots keys w = (Inr [], w')"
  shows "\<forall>q. sameButTemp g (w_fs w') q"
  using assms
proof (induction keys arbitrary: w)
  case (Cons key keys)
  let ?rs = "ds_resolved (stateAt desired key)" and ?p = "pathAt env desired key"
  obtain res w1 where step: "bindA (openRoot env (rootLocalDir ?rs)) (\<lambda>root. restoreState env root (rel ?rs) (snapshotAt snapshots key)) w = (res, w1)"
    by fastforce
  have rest: "res = Inr ()" "rollbackLoop env desired snapshots keys w1 = (Inr [], w')"
    using Cons.prems(4) step rollbackLoop_total [of env desired snapshots keys w1]
    by (cases res; auto simp: Let_def handleA_def bindA_def [of "rollbackLoop env desired snapshots keys"] retA_def split: sum.splits prod.splits)+
  from rollback_step [OF Cons.prems(1) refl step] rest(1) have w1: "wfFs (w_fs w1)"
    "\<forall>q. q \<noteq> ?p \<longrightarrow> sameButTemp (content (w_fs w)) (w_fs w1) q" "content (w_fs w1) ?p = g ?p"
    using Cons.prems(3) by auto
  have "sameButTemp g (w_fs w1) q" if "q \<notin> pathAt env desired ` set keys" for q
  proof (cases "q = ?p")
    case True
    with w1(3) show ?thesis by (simp add: sameButTemp_def)
  next
    case False
    with that Cons.prems(2) have "sameButTemp g (w_fs w) q" by simp
    with w1(2) False show ?thesis by (metis sameButTemp_trans)
  qed
  with Cons.IH [OF w1(1) _ _ rest(2)] Cons.prems(3) show ?case by auto
qed (simp add: retA_def)

section \<open>Committing\<close>

definition planned :: "osEnv \<Rightarrow> desiredFileState gomap \<Rightarrow> gostr list \<Rightarrow> (path \<Rightarrow> rawData option) \<Rightarrow> path \<Rightarrow> rawData option" where
  "planned env desired keys g = foldl (\<lambda>g key. g(pathAt env desired key := wanted (stateAt desired key))) g keys"

lemma commit_step:
  assumes wf: "wfFs (w_fs w)" and run: "commitLoop env desired snapshots (key # keys) applied w = (out, w')"
  obtains (no_root) e where "w_fs w' = w_fs w" "out = Inl (IOFailed (lit ''open root'') e)"
  | (failed) w1 w2 e es where "wfFs (w_fs w1)" "\<forall>q. sameButTemp (content (w_fs w)) (w_fs w1) q"
      "rollbackDesiredStates env applied desired snapshots w1 = (Inr es, w')" "out = Inl (RolledBack e es)"
  | (applied) w1 where "wfFs (w_fs w1)"
      "\<forall>q. q \<noteq> pathAt env desired key \<longrightarrow> sameButTemp (content (w_fs w)) (w_fs w1) q"
      "content (w_fs w1) (pathAt env desired key) = wanted (stateAt desired key)"
      "commitLoop env desired snapshots keys (applied @ [key]) w1 = (out, w')"
proof -
  let ?d = "stateAt desired key"
  let ?rs = "ds_resolved ?d"
  obtain ro w1 where o: "openRoot env (rootLocalDir ?rs) w = (ro, w1)" by fastforce
  note oo = openRoot_run [OF wf o]
  show thesis
  proof (cases ro)
    case (Inl e)
    then obtain e' where "e = IOFailed (lit ''open root'') e'"
      using o by (auto simp: openRoot_def mapErr_def handleA_def retA_def failA_def split: prod.splits sum.splits)
    with Inl oo o run no_root show thesis by (auto simp: Let_def bindA_def)
  next
    case (Inr root)
    with oo wf have root: "root = env_dir env (rootLocalDir ?rs)" "map_of (w_fs w1) root = Some DirNode" "wfFs (w_fs w1)" "w_fs w1 = w_fs w"
      by auto
    have p: "pathAt env desired key = root @ relPath (rel ?rs)" by (simp add: pathAt_def localPath_def root(1))
    obtain res w2 where a: "applyState env root ?d w1 = (res, w2)" by fastforce
    note st = applyState_run [OF root(3,2) a p]
    show thesis
    proof (cases res)
      case (Inl e)
      obtain es w3 where rb: "rollbackDesiredStates env applied desired snapshots w2 = (Inr es, w3)"
        using rollbackLoop_total unfolding rollbackDesiredStates_def by blast
      have "\<forall>q. sameButTemp (content (w_fs w)) (w_fs w2) q"
        using st Inl root(4) by (metis sameButTemp_def sum.simps(5))
      moreover have "out = Inl (RolledBack e es)" "w' = w3"
        using run o Inr a Inl rb by (auto simp: Let_def bindA_def handleA_def failA_def)
      ultimately show thesis using failed st rb by blast
    next
      case (Inr u)
      have "commitLoop env desired snapshots keys (applied @ [key]) w2 = (out, w')"
        using run o \<open>ro = Inr root\<close> a Inr by (simp add: Let_def bindA_def handleA_def)
      moreover have "content (w_fs w2) (pathAt env desired key) = wanted ?d" using st Inr by simp
      ultimately show thesis using applied st unfolding root(4) by blast
    qed
  qed
qed

lemma commitLoop_restores:
  assumes "wfFs (w_fs w)" "\<forall>q. q \<notin> pathAt env desired ` set applied \<longrightarrow> sameButTemp g (w_fs w) q"
    "\<forall>key \<in> set (applied @ keys). recorded (snapshotAt snapshots key) = g (pathAt env desired key)"
    "commitLoop env desired snapshots keys applied w = (Inl (RolledBack e []), w')"
  shows "\<forall>q. sameButTemp g (w_fs w') q"
  using assms
proof (induction keys arbitrary: w applied)
  case (Cons key keys)
  from Cons.prems(1,4) show ?case
  proof (rule commit_step)
    fix e' assume "Inl (RolledBack e []) = (Inl (IOFailed (lit ''open root'') e') :: file_error + unit)"
    then show ?case by simp
  next
    fix w1 w2 :: "rawData world" and e' es
    assume w1: "wfFs (w_fs w1)" "\<forall>q. sameButTemp (content (w_fs w)) (w_fs w1) q"
      and rb: "rollbackDesiredStates env applied desired snapshots w1 = (Inr es, w')"
      and out: "Inl (RolledBack e []) = (Inl (RolledBack e' es) :: file_error + unit)"
    have "\<forall>q. q \<notin> pathAt env desired ` set (rev applied) \<longrightarrow> sameButTemp g (w_fs w1) q"
      using w1(2) Cons.prems(2) by (metis sameButTemp_trans set_rev)
    moreover have "\<forall>key \<in> set (rev applied). recorded (snapshotAt snapshots key) = g (pathAt env desired key)"
      using Cons.prems(3) by simp
    moreover have "rollbackLoop env desired snapshots (rev applied) w1 = (Inr [], w')"
      using rb out by (simp add: rollbackDesiredStates_def)
    ultimately show ?case by (rule rollbackLoop_restores [OF w1(1)])
  next
    fix w1
    assume w1: "wfFs (w_fs w1)" "\<forall>q. q \<noteq> pathAt env desired key \<longrightarrow> sameButTemp (content (w_fs w)) (w_fs w1) q"
      and go: "commitLoop env desired snapshots keys (applied @ [key]) w1 = (Inl (RolledBack e []), w')"
    have "\<forall>q. q \<notin> pathAt env desired ` set (applied @ [key]) \<longrightarrow> sameButTemp g (w_fs w1) q"
      using w1(2) Cons.prems(2) by (auto intro: sameButTemp_trans)
    from Cons.IH [OF w1(1) this _ go] Cons.prems(3) show ?case by simp
  qed
qed (simp add: retA_def)

lemma commitLoop_applies:
  assumes "wfFs (w_fs w)" "\<forall>q. sameButTemp g (w_fs w) q"
    "commitLoop env desired snapshots keys applied w = (Inr u, w')"
  shows "\<forall>q. sameButTemp (planned env desired keys g) (w_fs w') q"
  using assms
proof (induction keys arbitrary: w applied g)
  case (Cons key keys)
  let ?g = "g(pathAt env desired key := wanted (stateAt desired key))"
  from Cons.prems(1,3) show ?case
  proof (rule commit_step)
    fix w1
    assume w1: "wfFs (w_fs w1)" "\<forall>q. q \<noteq> pathAt env desired key \<longrightarrow> sameButTemp (content (w_fs w)) (w_fs w1) q"
      "content (w_fs w1) (pathAt env desired key) = wanted (stateAt desired key)"
      and go: "commitLoop env desired snapshots keys (applied @ [key]) w1 = (Inr u, w')"
    have "\<forall>q. sameButTemp ?g (w_fs w1) q"
      using w1(2,3) Cons.prems(2) sameButTemp_trans [of g "w_fs w" _ "w_fs w1"] by (auto simp: sameButTemp_def)
    from Cons.IH [OF w1(1) this go] show ?case unfolding planned_def foldl_Cons .
  qed simp_all
qed (simp add: retA_def planned_def)


section \<open>Planning only reads\<close>

text \<open>\<open>yields fs m Q\<close>: run on \<open>fs\<close>, \<open>m\<close> leaves it as it is, and a result satisfies \<open>Q\<close>.\<close>

definition yields :: "'c fs \<Rightarrow> ('e, 'c, 'a) act \<Rightarrow> ('a \<Rightarrow> bool) \<Rightarrow> ('e \<Rightarrow> bool) \<Rightarrow> bool" where
  "yields fs m Q E \<longleftrightarrow>
     (\<forall>w r w'. w_fs w = fs \<longrightarrow> m w = (r, w') \<longrightarrow> w_fs w' = fs \<and> (case r of Inl e \<Rightarrow> E e | Inr x \<Rightarrow> Q x))"

abbreviation reads :: "'c fs \<Rightarrow> ('e, 'c, 'a) act \<Rightarrow> ('a \<Rightarrow> bool) \<Rightarrow> bool" where
  "reads fs m Q \<equiv> yields fs m Q (\<lambda>_. True)"

lemma yieldsI:
  "(\<And>w r w'. w_fs w = fs \<Longrightarrow> m w = (r, w') \<Longrightarrow> w_fs w' = fs \<and> (case r of Inl e \<Rightarrow> E e | Inr x \<Rightarrow> Q x)) \<Longrightarrow> yields fs m Q E"
  unfolding yields_def by blast

lemma yieldsD:
  "yields fs m Q E \<Longrightarrow> m w = (r, w') \<Longrightarrow> w_fs w = fs \<Longrightarrow> w_fs w' = fs \<and> (case r of Inl e \<Rightarrow> E e | Inr x \<Rightarrow> Q x)"
  unfolding yields_def by blast

lemma yields_ret: "Q x \<Longrightarrow> yields fs (retA x) Q E"
  by (auto simp: yields_def retA_def)

lemma yields_fail: "E e \<Longrightarrow> yields fs (failA e) Q E"
  by (auto simp: yields_def failA_def)

lemma yields_handle:
  assumes "yields fs m R F" "\<And>x. R x \<Longrightarrow> yields fs (k x) Q E" "\<And>e. F e \<Longrightarrow> yields fs (h e) Q E"
  shows "yields fs (handleA m k h) Q E"
proof (rule yieldsI)
  fix w r w' assume w: "w_fs w = fs" "handleA m k h w = (r, w')"
  obtain r1 w1 where m: "m w = (r1, w1)" by fastforce
  from yieldsD [OF assms(1) m w(1)] have w1: "w_fs w1 = fs" "case r1 of Inl e \<Rightarrow> F e | Inr x \<Rightarrow> R x" by auto
  show "w_fs w' = fs \<and> (case r of Inl e \<Rightarrow> E e | Inr x \<Rightarrow> Q x)"
  proof (cases r1)
    case (Inl e)
    with w m have "h e w1 = (r, w')" by (simp add: handleA_def)
    from yieldsD [OF assms(3) this w1(1)] w1(2) Inl show ?thesis by simp
  next
    case (Inr x)
    with w m have "k x w1 = (r, w')" by (simp add: handleA_def)
    from yieldsD [OF assms(2) this w1(1)] w1(2) Inr show ?thesis by simp
  qed
qed

lemma yields_bind:
  assumes "yields fs m R E" "\<And>x. R x \<Longrightarrow> yields fs (k x) Q E"
  shows "yields fs (bindA m k) Q E"
  unfolding bindA_handle using assms yields_fail by (rule yields_handle)

lemma yields_mapErr:
  assumes "reads fs m Q"
  shows "reads fs (mapErr f m) Q"
  unfolding mapErr_def using assms by (rule yields_handle) (auto intro: yields_ret yields_fail)

lemma yields_liftSum: "(\<And>x. s = Inr x \<Longrightarrow> Q x) \<Longrightarrow> reads fs (liftSum f s) Q"
  by (cases s) (auto simp: liftSum_def intro: yields_ret yields_fail)

lemma yields_triple:
  "triple (\<lambda>fs. fs = fs0) (\<lambda>_. True) m (\<lambda>x _. Q x) (\<lambda>e _. E e) \<Longrightarrow> yields fs0 m Q E"
  using triple_run by (intro yieldsI) fastforce

lemma yields_stat:
  assumes "wfFs fs"
  shows "yields fs (stat p) (\<lambda>n. map_of fs p = Some n) (\<lambda>e. e = NotExist \<longrightarrow> map_of fs p = None)"
  by (rule yields_triple, rule triple_conseq [OF triple_stat [where P = "\<lambda>_. True"]])
    (use assms in \<open>auto dest: statFs_NotExist\<close>)

lemma yields_readFile: "wfFs fs \<Longrightarrow> reads fs (readFile p) (\<lambda>d. map_of fs p = Some (FileNode d))"
  by (rule yields_triple, rule triple_conseq [OF triple_readFile [where P = "\<lambda>_. True"]]) auto

lemma yields_openRoot: "wfFs fs \<Longrightarrow> reads fs (openRoot env d) (\<lambda>root. root = env_dir env d)"
  using openRoot_run by (intro yieldsI) (fastforce split: sum.splits)

definition faithful :: "osEnv \<Rightarrow> rawData fs \<Rightarrow> resolvedPath \<Rightarrow> fileSnapshot \<Rightarrow> bool" where
  "faithful env fs r s \<longleftrightarrow> recorded s = content fs (localPath env r)"

lemma yields_snapshotPath:
  assumes wf: "wfFs fs"
  shows "reads fs (snapshotPath env r) (faithful env fs r)"
proof -
  have "reads fs (let p = root @ relPath (rel r) in handleA (stat p)
          (\<lambda>n. if isDirNode n then failA (NotRegularFileAt (runtimePath r))
               else bindA (mapErr (IOFailed (lit ''read file'')) (readFile p)) (\<lambda>d.
                    retA \<lparr>sn_resolved = r, sn_exists = True, sn_raw = rawOf d\<rparr>))
          (\<lambda>e. if isNotExist e then retA \<lparr>sn_resolved = r, sn_exists = False, sn_raw = Utf8 []\<rparr>
               else failA (IOFailed (lit ''stat file'') e))) (faithful env fs r)"
    if root: "root = env_dir env (rootLocalDir r)" for root
    unfolding Let_def
    by (rule yields_handle [OF yields_stat [OF wf]])
      (auto simp: faithful_def recorded_def localPath_def root isNotExist_def content_def
        intro!: yields_ret yields_fail yields_bind [OF yields_mapErr [OF yields_readFile [OF wf]]])
  then show ?thesis
    unfolding snapshotPath_def by (rule yields_bind [OF yields_openRoot [OF wf]])
qed

lemma yields_snapshotTextPath:
  assumes wf: "wfFs fs"
  shows "reads fs (snapshotTextPath env r) (\<lambda>ts. faithful env fs r (ts_snapshot ts))"
  unfolding snapshotTextPath_def
  by (rule yields_bind [OF yields_snapshotPath [OF wf]]) (auto intro!: yields_ret yields_bind [OF yields_liftSum])

text \<open>
  What holds of a plan: each planned file was resolved (\<open>N\<close> says from where) and recorded.
\<close>

definition underRoot :: "Settings \<Rightarrow> resolvedPath \<Rightarrow> bool" where
  "underRoot cfg r \<longleftrightarrow> rootLocalDir r \<in> localDir ` set (rootMappings cfg)"

definition planOK :: "osEnv \<Rightarrow> (resolvedPath \<Rightarrow> bool) \<Rightarrow> rawData fs \<Rightarrow> planState \<Rightarrow> bool" where
  "planOK env N fs st \<longleftrightarrow>
     distinct (map fst (pn_desired st)) \<and>
     (\<forall>key d. map_of (pn_desired st) key = Some d \<longrightarrow>
        stateKey (ds_resolved d) = key \<and> N (ds_resolved d) \<and>
        (\<exists>s. map_of (pn_snapshots st) key = Some s \<and> faithful env fs (ds_resolved d) s))"

lemma resolvePath_underRoot:
  assumes "resolvePath cfg raw = Inr r"
  shows "underRoot cfg r"
proof (cases "isAbs (trimSpace raw)")
  case True
  let ?roots = "configuredAbsoluteRoots cfg"
  have "matchRoot (cleanPath (trimSpace raw)) (map runtimeDir ?roots) ?roots = Inr r"
    using assms True by (auto simp: resolvePath_def resolveAbsolutePath_def Let_def split: if_splits)
  from matchRoot_first [OF this] obtain root where "root \<in> set ?roots" "rootLocalDir r = localDir root"
    by (metis in_set_conv_decomp resolvedPath.select_convs(1))
  then show ?thesis by (auto simp: underRoot_def configuredAbsoluteRoots_def)
next
  case False
  with assms show ?thesis
    by (auto simp: underRoot_def resolvePath_def rootMappings_def Let_def split: if_splits option.splits)
qed

lemma yields_if:
  "(b \<Longrightarrow> yields fs m Q E) \<Longrightarrow> (\<not> b \<Longrightarrow> yields fs m' Q E) \<Longrightarrow> yields fs (if b then m else m') Q E"
  by simp

lemma yields_liftBind:
  "(\<And>x. s = Inr x \<Longrightarrow> reads fs (k x) Q) \<Longrightarrow> reads fs (bindA (liftSum f s) k) Q"
  by (rule yields_bind [OF yields_liftSum, of _ "\<lambda>x. s = Inr x"])

lemma plan_field_simps [simp]:
  "pn_desired (reserveKey k v st) = pn_desired st" "pn_snapshots (reserveKey k v st) = pn_snapshots st"
  "map_of (pn_reserved (reserveKey k v st)) = (map_of (pn_reserved st))(k \<mapsto> v)"
  "pn_desired (keepSnapshot r s st) = pn_desired st" "pn_reserved (keepSnapshot r s st) = pn_reserved st"
  "map_of (pn_snapshots (keepSnapshot r s st)) = (map_of (pn_snapshots st))(stateKey r \<mapsto> s)"
  "pn_snapshots (wantState d st) = pn_snapshots st" "pn_reserved (wantState d st) = pn_reserved st"
  "map_of (pn_desired (wantState d st)) = (map_of (pn_desired st))(stateKey (ds_resolved d) \<mapsto> d)"
  "pn_desired (reportChange ps x st) = pn_desired st" "pn_snapshots (reportChange ps x st) = pn_snapshots st"
  "pn_reserved (reportChange ps x st) = pn_reserved st"
  by (simp_all add: reserveKey_def keepSnapshot_def wantState_def reportChange_def update_conv')

definition planInv :: "osEnv \<Rightarrow> (resolvedPath \<Rightarrow> bool) \<Rightarrow> rawData fs \<Rightarrow> planState \<Rightarrow> bool" where
  "planInv env N fs st \<longleftrightarrow> planOK env N fs st \<and> dom (map_of (pn_desired st)) \<subseteq> dom (map_of (pn_reserved st))"

lemma planInv_reserve: "planInv env N fs st \<Longrightarrow> planInv env N fs (reserveKey k v st)"
  by (auto simp: planInv_def planOK_def)

lemma planInv_report: "planInv env N fs st \<Longrightarrow> planInv env N fs (reportChange ps x st)"
  by (auto simp: planInv_def planOK_def)

lemma planInv_snapshot:
  "planInv env N fs st \<Longrightarrow> map_of (pn_desired st) (stateKey r) = None \<Longrightarrow> planInv env N fs (keepSnapshot r s st)"
  unfolding planInv_def planOK_def by (fastforce simp del: map_of_eq_None_iff)

lemma planInv_want:
  assumes "planInv env N fs st" "stateKey (ds_resolved d) \<in> dom (map_of (pn_reserved st))" "N (ds_resolved d)"
    "map_of (pn_snapshots st) (stateKey (ds_resolved d)) = Some s" "faithful env fs (ds_resolved d) s"
  shows "planInv env N fs (wantState d st)"
  using assms unfolding planInv_def planOK_def
  by (auto simp: wantState_def update_conv' distinct_update split: if_splits)

lemmas planInv_intros = planInv_reserve planInv_report planInv_snapshot

text \<open>A source about to be planned: resolved, reserved and not planned yet.\<close>

definition pending :: "osEnv \<Rightarrow> (resolvedPath \<Rightarrow> bool) \<Rightarrow> rawData fs \<Rightarrow> resolvedPath \<Rightarrow> planState \<Rightarrow> bool" where
  "pending env N fs r st \<longleftrightarrow> planInv env N fs st \<and> N r \<and>
     stateKey r \<in> dom (map_of (pn_reserved st)) \<and> map_of (pn_desired st) (stateKey r) = None"

lemma pending_put:
  assumes "pending env N fs r st" "faithful env fs r s" "ds_resolved d = r"
  shows "planInv env N fs (wantState d (keepSnapshot r s st))"
  using assms by (intro planInv_want [where s = s]) (auto simp: pending_def intro: planInv_snapshot)

lemma planAdd_yields:
  assumes "wfFs fs" "pending env N fs source st"
  shows "reads fs (planAdd env op source st) (planInv env N fs)"
  unfolding planAdd_def
  by (rule yields_bind [OF yields_snapshotPath [OF assms(1)]])
    (auto simp: Let_def intro!: yields_fail yields_ret planInv_report pending_put [OF assms(2)])

lemma planDelete_yields:
  assumes "wfFs fs" "pending env N fs source st"
  shows "reads fs (planDelete env source st) (planInv env N fs)"
  unfolding planDelete_def
  by (rule yields_bind [OF yields_snapshotTextPath [OF assms(1)]])
    (auto simp: Let_def intro!: yields_fail yields_ret planInv_report pending_put [OF assms(2)])

definition moved :: "osEnv \<Rightarrow> (resolvedPath \<Rightarrow> bool) \<Rightarrow> rawData fs \<Rightarrow> resolvedPath \<Rightarrow> resolvedPath \<Rightarrow> planState \<Rightarrow> bool" where
  "moved env N fs source dest st \<longleftrightarrow> pending env N fs source st \<and> N dest \<and>
     (stateKey dest \<noteq> stateKey source \<longrightarrow> pending env N fs dest st \<and>
        (\<exists>s. map_of (pn_snapshots st) (stateKey dest) = Some s \<and> faithful env fs dest s))"

lemma moved_same: "pending env N fs source st \<Longrightarrow> N dest \<Longrightarrow> stateKey dest = stateKey source \<Longrightarrow> moved env N fs source dest st"
  by (simp add: moved_def)

lemma moved_new:
  assumes "pending env N fs source st" "N dest" "map_of (pn_reserved st) (stateKey dest) = None" "faithful env fs dest s"
  shows "moved env N fs source dest (keepSnapshot dest s (reserveKey (stateKey dest) v st))"
proof -
  have none: "map_of (pn_desired st) (stateKey dest) = None"
    using assms(1,3) by (auto simp: pending_def planInv_def)
  then have "planInv env N fs (keepSnapshot dest s (reserveKey (stateKey dest) v st))"
    using assms(1) by (intro planInv_snapshot planInv_reserve) (auto simp: pending_def)
  with assms none show ?thesis by (auto simp: moved_def pending_def)
qed

lemma planMove_yields:
  assumes "wfFs fs" "pending env N fs source st" "\<And>r. po_moveTo op \<noteq> [] \<Longrightarrow> resolvePath cfg (po_moveTo op) = Inr r \<Longrightarrow> N r"
  shows "reads fs (planMove env cfg op source st) (\<lambda>(dest, _, st1). moved env N fs source dest st1)"
proof (cases "po_moveTo op = []")
  case True
  with assms(2) show ?thesis by (auto simp: planMove_def pending_def intro!: yields_ret moved_same)
next
  case False
  have new: "reads fs (bindA (snapshotPath env dest) (\<lambda>destSnapshot.
        if sn_exists destSnapshot then failA (PlanFailed (MoveExists (runtimePath dest)))
        else retA (dest, lit ''rename '' @ runtimePath source @ lit '' -> '' @ runtimePath dest,
             keepSnapshot dest destSnapshot (reserveKey (stateKey dest) (lit ''move-destination'') st))))
      (\<lambda>(dest, _, st1). moved env N fs source dest st1)"
    if "N dest" "map_of (pn_reserved st) (stateKey dest) = None" for dest
    by (rule yields_bind [OF yields_snapshotPath [OF assms(1)]], rule yields_if)
      (auto intro!: yields_fail yields_ret moved_new [OF assms(2) that])
  have "reads fs (if rootRuntime dest \<noteq> rootRuntime source then failA (PlanFailed MoveOutsideRoot)
       else if stateKey dest = stateKey source then retA (dest, [], st)
       else case map_of (pn_reserved st) (stateKey dest) of
              Some prior \<Rightarrow> failA (PlanFailed (MoveConflict (runtimePath dest) prior))
            | None \<Rightarrow> bindA (snapshotPath env dest) (\<lambda>destSnapshot.
                if sn_exists destSnapshot then failA (PlanFailed (MoveExists (runtimePath dest)))
                else retA (dest, lit ''rename '' @ runtimePath source @ lit '' -> '' @ runtimePath dest,
                     keepSnapshot dest destSnapshot (reserveKey (stateKey dest) (lit ''move-destination'') st))))
      (\<lambda>(dest, _, st1). moved env N fs source dest st1)" if "N dest" for dest
    using moved_same [OF assms(2) that] new [OF that]
    by (intro yields_if) (auto intro!: yields_fail yields_ret split: option.split)
  with assms(3) [OF False] False show ?thesis
    unfolding planMove_def by (simp only: if_False) (rule yields_liftBind, blast)
qed

lemma updatedPlan_inv:
  assumes "moved env N fs source dest st" "faithful env fs source s"
  shows "planInv env N fs (updatedPlan source dest ms diff raw (keepSnapshot source s st))"
proof -
  have src: "pending env N fs source st" using assms(1) by (simp add: moved_def)
  show ?thesis
  proof (cases "stateKey dest = stateKey source")
    case True
    then show ?thesis
      using pending_put [OF src assms(2)] by (auto simp: updatedPlan_def intro!: planInv_report)
  next
    case False
    with assms(1) obtain s' where d: "map_of (pn_snapshots st) (stateKey dest) = Some s'" "faithful env fs dest s'"
      "pending env N fs dest st" by (auto simp: moved_def)
    have "planInv env N fs (wantState \<lparr>ds_resolved = dest, ds_shouldExist = True, ds_raw = raw\<rparr>
        (wantState \<lparr>ds_resolved = source, ds_shouldExist = False, ds_raw = Utf8 []\<rparr> (keepSnapshot source s st)))"
      by (rule planInv_want [where s = s']) (use d False pending_put [OF src assms(2)] in \<open>auto simp: pending_def\<close>)
    with False show ?thesis by (auto simp: updatedPlan_def intro!: planInv_report)
  qed
qed

lemma planUpdate_yields:
  assumes "wfFs fs" "pending env N fs source st" "\<And>r. po_moveTo op \<noteq> [] \<Longrightarrow> resolvePath cfg (po_moveTo op) = Inr r \<Longrightarrow> N r"
  shows "reads fs (planUpdate env cfg op source st) (planInv env N fs)"
  unfolding planUpdate_def
proof (rule yields_bind [OF yields_snapshotTextPath [OF assms(1)]])
  fix ts assume f: "faithful env fs source (ts_snapshot ts)"
  show "reads fs (if \<not> sn_exists (ts_snapshot ts) then failA (PlanFailed (UpdateMissing (runtimePath source)))
     else bindA (planMove env cfg op source st) (\<lambda>(dest, moveSummary, st1).
          let before = normalizeLineEndings (tf_text (ts_text ts))
          in bindA (liftSum (\<lambda>e. PlanFailed (HunkFailed (runtimePath source) e)) (applyHunks before (po_hunks op)))
               (\<lambda>updatedNormalized.
                  retA (updatedPlan source dest moveSummary (fst (compactDiff before updatedNormalized))
                          (finalRaw (ts_text ts) updatedNormalized)
                          (keepSnapshot source (ts_snapshot ts) st1))))) (planInv env N fs)"
    by (auto simp: Let_def intro!: yields_fail yields_bind [OF planMove_yields [OF assms]]
        yields_liftBind yields_ret updatedPlan_inv f)
qed

definition touches :: "Settings \<Rightarrow> patchFileOp \<Rightarrow> resolvedPath \<Rightarrow> bool" where
  "touches cfg op r \<longleftrightarrow>
     resolvePath cfg (po_path op) = Inr r \<or> po_moveTo op \<noteq> [] \<and> resolvePath cfg (po_moveTo op) = Inr r"

lemma planOp_yields:
  assumes wf: "wfFs fs" and inv: "planInv env N fs st" and N: "\<And>r. touches cfg op r \<Longrightarrow> N r"
  shows "reads fs (planOp env cfg op st) (planInv env N fs)"
proof -
  have "reads fs (case map_of (pn_reserved st) (stateKey source) of
       Some prior \<Rightarrow> failA (PlanFailed (ReferencedTwice (runtimePath source) prior (po_kind op)))
     | None \<Rightarrow>
         (let st1 = reserveKey (stateKey source) (po_kind op) st
          in if po_kind op = lit ''add'' then planAdd env op source st1
             else if po_kind op = lit ''delete'' then planDelete env source st1
             else if po_kind op = lit ''update'' then planUpdate env cfg op source st1
             else failA (PlanFailed (UnsupportedOp (po_kind op))))) (planInv env N fs)"
    if u: "N source" for source
  proof (cases "map_of (pn_reserved st) (stateKey source)")
    case None
    then have "map_of (pn_desired st) (stateKey source) = None" using inv by (auto simp: planInv_def)
    with u have "pending env N fs source (reserveKey (stateKey source) (po_kind op) st)"
      using inv by (auto simp: pending_def intro: planInv_reserve)
    then show ?thesis
      unfolding None option.case Let_def
      by (intro yields_if planAdd_yields [OF wf] planDelete_yields [OF wf] planUpdate_yields [OF wf] yields_fail)
        (simp_all add: N touches_def)
  qed (simp add: yields_fail)
  with N show ?thesis
    unfolding planOp_def touches_def by (intro yields_liftBind) blast
qed

lemma planOps_yields:
  assumes "wfFs fs" "planInv env N fs st" "\<And>op r. op \<in> set ops \<Longrightarrow> touches cfg op r \<Longrightarrow> N r"
  shows "reads fs (planOps env cfg ops st) (planInv env N fs)"
  using assms(2,3)
proof (induction ops arbitrary: st)
  case Nil
  then show ?case by (simp add: yields_ret)
next
  case (Cons op ops)
  have "reads fs (planOp env cfg op st) (planInv env N fs)"
    by (rule planOp_yields [OF assms(1) Cons.prems(1)]) (simp add: Cons.prems(2) [of op])
  then show ?case
    unfolding planOps.simps
  proof (rule yields_bind)
    fix x assume "planInv env N fs x"
    then show "reads fs (planOps env cfg ops x) (planInv env N fs)"
      by (rule Cons.IH) (meson Cons.prems(2) list.set_intros(2))
  qed
qed

lemma buildPatchPlan_yields:
  assumes "wfFs fs"
  shows "reads fs (buildPatchPlan env cfg ops) (\<lambda>(desired, snapshots, _). \<exists>st. planOK env (\<lambda>r. \<exists>op \<in> set ops. touches cfg op r) fs st \<and>
     desired = pn_desired st \<and> snapshots = pn_snapshots st)"
proof -
  let ?N = "\<lambda>r. \<exists>op \<in> set ops. touches cfg op r"
  have "planInv env ?N fs emptyPlan" by (simp add: planInv_def planOK_def emptyPlan_def)
  then have "reads fs (planOps env cfg ops emptyPlan) (planInv env ?N fs)"
    by (rule planOps_yields [OF assms]) blast
  then show ?thesis
    unfolding buildPatchPlan_def by (rule yields_bind) (auto simp: planInv_def intro!: yields_ret)
qed

section \<open>All or nothing\<close>

lemma touches_underRoot: "\<exists>op \<in> set ops. touches cfg op r \<Longrightarrow> underRoot cfg r"
  by (auto simp: touches_def intro: resolvePath_underRoot)

text \<open>What the files hold after a plan: the wanted state where one is planned, else what they held.\<close>

definition outcome :: "osEnv \<Rightarrow> desiredFileState gomap \<Rightarrow> (path \<Rightarrow> rawData option) \<Rightarrow> path \<Rightarrow> rawData option" where
  "outcome env desired g q =
     (case filter (\<lambda>(_, d). localPath env (ds_resolved d) = q) desired of
        [] \<Rightarrow> g q
      | (_, d) # _ \<Rightarrow> wanted d)"

text \<open>No configured root lies in another: the local directories of two different names are separate.\<close>

definition separateRoots :: "osEnv \<Rightarrow> Settings \<Rightarrow> bool" where
  "separateRoots env cfg \<longleftrightarrow>
     list_all (\<lambda>a. list_all (\<lambda>b. localDir a = localDir b \<or>
        take (length (env_dir env (localDir a))) (env_dir env (localDir b)) \<noteq> env_dir env (localDir a))
       (rootMappings cfg)) (rootMappings cfg)"

lemma relPath_inj: "relPath r = relPath r' \<Longrightarrow> r = r'"
  unfolding relPath_def using splitRune_join [of 47 r] splitRune_join [of 47 r'] by metis

lemma separate_paths:
  assumes "separateRoots env cfg" "underRoot cfg r" "underRoot cfg r'" "localPath env r = localPath env r'"
  shows "stateKey r = stateKey r'"
proof -
  let ?a = "env_dir env (rootLocalDir r)" and ?b = "env_dir env (rootLocalDir r')"
  have e: "?a @ relPath (rel r) = ?b @ relPath (rel r')" using assms(4) by (simp add: localPath_def)
  then have "take (length ?a) ?b = ?a \<or> take (length ?b) ?a = ?b"
    by (metis append_eq_append_conv_if)
  with assms(1-3) have "rootLocalDir r = rootLocalDir r'"
    by (fastforce simp: separateRoots_def underRoot_def list_all_iff)
  moreover from this e have "rel r = rel r'" by (auto intro: relPath_inj)
  ultimately show ?thesis by (simp add: stateKey_def)
qed

lemma planned_other: "q \<notin> pathAt env desired ` set keys \<Longrightarrow> planned env desired keys g q = g q"
  unfolding planned_def by (induction keys arbitrary: g) auto

lemma planned_at:
  assumes "key \<in> set keys" "inj_on (pathAt env desired) (set keys)"
  shows "planned env desired keys g (pathAt env desired key) = wanted (stateAt desired key)"
  using assms
proof (induction keys arbitrary: g)
  case (Cons k keys)
  show ?case
  proof (cases "key \<in> set keys")
    case True
    with Cons show ?thesis by (simp add: planned_def)
  next
    case False
    with Cons.prems have "key = k" "pathAt env desired k \<notin> pathAt env desired ` set keys" by auto
    with planned_other [of "pathAt env desired k" env desired keys] show ?thesis
      by (simp add: planned_def)
  qed
qed simp

lemma planned_outcome:
  assumes ok: "planOK env N fs st" and N: "\<And>r. N r \<Longrightarrow> underRoot cfg r" and sep: "separateRoots env cfg"
  shows "planned env (pn_desired st) (sort (map fst (pn_desired st))) g = outcome env (pn_desired st) g"
proof
  fix q
  let ?D = "pn_desired st"
  let ?P = "pathAt env ?D"
  have at: "map_of ?D k = Some d \<longleftrightarrow> (k, d) \<in> set ?D" for k d
    using ok by (simp add: planOK_def)
  have path: "?P k = localPath env (ds_resolved d)" "stateAt ?D k = d" if "(k, d) \<in> set ?D" for k d
    using that [folded at] by (simp_all add: pathAt_def stateAt_def del: map_of_eq_Some_iff)
  have same: "k = k'" if "(k, d) \<in> set ?D" "(k', d') \<in> set ?D" "localPath env (ds_resolved d) = localPath env (ds_resolved d')" for k d k' d'
    using that at ok separate_paths [OF sep N N that(3)] unfolding planOK_def by metis
  have inj: "inj_on ?P (set (sort (map fst ?D)))"
  proof (rule inj_onI)
    fix k k' assume "k \<in> set (sort (map fst ?D))" "k' \<in> set (sort (map fst ?D))" "?P k = ?P k'"
    then obtain d d' where "(k, d) \<in> set ?D" "(k', d') \<in> set ?D" "?P k = ?P k'" by auto
    with path show "k = k'" by (metis same)
  qed
  show "planned env ?D (sort (map fst ?D)) g q = outcome env ?D g q"
  proof (cases "filter (\<lambda>(_, d). localPath env (ds_resolved d) = q) ?D")
    case Nil
    then have "q \<notin> ?P ` set (sort (map fst ?D))" using path by (fastforce simp: filter_empty_conv)
    with Nil show ?thesis by (simp add: planned_other outcome_def)
  next
    case (Cons x xs)
    obtain k d where x: "x = (k, d)" by fastforce
    from Cons have "x \<in> set (filter (\<lambda>(_, d). localPath env (ds_resolved d) = q) ?D)" by simp
    with x have kd: "(k, d) \<in> set ?D" "localPath env (ds_resolved d) = q" by auto
    then have "k \<in> set (sort (map fst ?D))" by force
    from planned_at [OF this inj, of g] path [OF kd(1)] kd(2) Cons x show ?thesis by (simp add: outcome_def)
  qed
qed

lemma planOK_recorded:
  assumes "planOK env N fs st" "key \<in> set (map fst (pn_desired st))"
  shows "recorded (snapshotAt (pn_snapshots st) key) = content fs (pathAt env (pn_desired st) key)"
proof -
  from assms(2) obtain d where "map_of (pn_desired st) key = Some d" by (metis map_of_eq_None_iff option.exhaust set_map)
  with assms(1) show ?thesis
    unfolding planOK_def snapshotAt_def pathAt_def stateAt_def faithful_def by (metis option.simps(5))
qed

lemma commitLoop_errors:
  "commitLoop env desired snapshots keys applied w = (Inl e, w') \<Longrightarrow>
   (\<exists>e' es. e = RolledBack e' es) \<or> (\<exists>e'. e = IOFailed (lit ''open root'') e')"
proof (induction keys arbitrary: applied w)
  case (Cons key keys)
  obtain ro w1 where o: "openRoot env (rootLocalDir (ds_resolved (stateAt desired key))) w = (ro, w1)" by fastforce
  show ?case
  proof (cases ro)
    case (Inl e')
    with o have "\<exists>e''. e' = IOFailed (lit ''open root'') e''"
      by (auto simp: openRoot_def mapErr_def handleA_def retA_def failA_def split: prod.splits sum.splits)
    with Cons.prems o Inl show ?thesis by (auto simp: Let_def bindA_def)
  next
    case (Inr root)
    obtain res w2 where a: "applyState env root (stateAt desired key) w1 = (res, w2)" by fastforce
    obtain es w3 where "rollbackDesiredStates env applied desired snapshots w2 = (Inr es, w3)"
      using rollbackLoop_total unfolding rollbackDesiredStates_def by blast
    with Cons o Inr a show ?thesis
      by (cases res) (auto simp: Let_def bindA_def handleA_def failA_def)
  qed
qed (simp add: retA_def)

text \<open>Whatever happens, no file changes that the plan does not name.\<close>

lemma sameButTemp_step:
  assumes "\<forall>q. q \<notin> P \<longrightarrow> sameButTemp g fs q" "\<forall>q. q \<noteq> p \<longrightarrow> sameButTemp (content fs) fs' q" "p \<in> P"
  shows "\<forall>q. q \<notin> P \<longrightarrow> sameButTemp g fs' q"
  using assms by (metis sameButTemp_trans)

lemma rollbackLoop_others:
  assumes "wfFs (w_fs w)" "\<forall>q. q \<notin> pathAt env desired ` K \<longrightarrow> sameButTemp g (w_fs w) q" "set keys \<subseteq> K"
    "rollbackLoop env desired snapshots keys w = (r, w')"
  shows "wfFs (w_fs w') \<and> (\<forall>q. q \<notin> pathAt env desired ` K \<longrightarrow> sameButTemp g (w_fs w') q)"
  using assms
proof (induction keys arbitrary: w r)
  case (Cons key keys)
  let ?rs = "ds_resolved (stateAt desired key)" and ?p = "pathAt env desired key"
  obtain res w1 where step: "bindA (openRoot env (rootLocalDir ?rs)) (\<lambda>root. restoreState env root (rel ?rs) (snapshotAt snapshots key)) w = (res, w1)"
    by fastforce
  obtain r' where rest: "rollbackLoop env desired snapshots keys w1 = (r', w')"
    using Cons.prems(4) step rollbackLoop_total [of env desired snapshots keys w1]
    by (cases res; auto simp: Let_def handleA_def bindA_def [of "rollbackLoop env desired snapshots keys"] retA_def split: sum.splits prod.splits)
  from rollback_step [OF Cons.prems(1) refl step] have w1: "wfFs (w_fs w1)"
    "\<forall>q. q \<noteq> ?p \<longrightarrow> sameButTemp (content (w_fs w)) (w_fs w1) q" by auto
  have "\<forall>q. q \<notin> pathAt env desired ` K \<longrightarrow> sameButTemp g (w_fs w1) q"
    by (rule sameButTemp_step [OF Cons.prems(2) w1(2)]) (use Cons.prems(3) in simp)
  from Cons.IH [OF w1(1) this _ rest] Cons.prems(3) show ?case by simp
qed (simp add: retA_def)

lemma commitLoop_others:
  assumes "wfFs (w_fs w)" "\<forall>q. q \<notin> pathAt env desired ` K \<longrightarrow> sameButTemp g (w_fs w) q" "set applied \<union> set keys \<subseteq> K"
    "commitLoop env desired snapshots keys applied w = (out, w')"
  shows "wfFs (w_fs w') \<and> (\<forall>q. q \<notin> pathAt env desired ` K \<longrightarrow> sameButTemp g (w_fs w') q)"
  using assms
proof (induction keys arbitrary: w applied)
  case (Cons key keys)
  from Cons.prems(1,4) show ?case
  proof (rule commit_step)
    assume "w_fs w' = w_fs w"
    with Cons.prems(1,2) show ?case by simp
  next
    fix w1 w2 :: "rawData world" and e es
    assume w1: "wfFs (w_fs w1)" "\<forall>q. sameButTemp (content (w_fs w)) (w_fs w1) q"
      and rb: "rollbackDesiredStates env applied desired snapshots w1 = (Inr es, w')"
    have "\<forall>q. q \<notin> pathAt env desired ` K \<longrightarrow> sameButTemp g (w_fs w1) q"
      using w1(2) Cons.prems(2) by (metis sameButTemp_trans)
    from rollbackLoop_others [OF w1(1) this _ rb [unfolded rollbackDesiredStates_def]] Cons.prems(3)
    show ?case by simp
  next
    fix w1
    assume w1: "wfFs (w_fs w1)" "\<forall>q. q \<noteq> pathAt env desired key \<longrightarrow> sameButTemp (content (w_fs w)) (w_fs w1) q"
      and go: "commitLoop env desired snapshots keys (applied @ [key]) w1 = (out, w')"
    have "\<forall>q. q \<notin> pathAt env desired ` K \<longrightarrow> sameButTemp g (w_fs w1) q"
      by (rule sameButTemp_step [OF Cons.prems(2) w1(2)]) (use Cons.prems(3) in simp)
    from Cons.IH [OF w1(1) this _ go] Cons.prems(3) show ?case by simp
  qed
qed (simp add: retA_def)

lemma ApplyPatch_others:
  assumes wf: "wfFs (w_fs w)" and run: "ApplyPatch env cfg patch w = (out, w')"
  shows "wfFs (w_fs w') \<and>
    (\<forall>q. (\<forall>ops op r. parsePatch patch = Inr ops \<longrightarrow> op \<in> set ops \<longrightarrow> touches cfg op r \<longrightarrow> q \<noteq> localPath env r) \<longrightarrow>
       sameButTemp (content (w_fs w)) (w_fs w') q)"
proof (cases "parsePatch patch")
  case (Inl e)
  with run have "w' = w" by (auto simp: ApplyPatch_def liftSum_def bindA_def failA_def)
  with wf show ?thesis by simp
next
  case ops: (Inr ops)
  obtain pl w1 where p: "buildPatchPlan env cfg ops w = (pl, w1)" by fastforce
  from yieldsD [OF buildPatchPlan_yields [OF wf] p refl] have w1: "w_fs w1 = w_fs w" by simp
  show ?thesis
  proof (cases pl)
    case (Inl e)
    with run ops p have "w' = w1" by (auto simp: ApplyPatch_def liftSum_def bindA_def retA_def)
    with w1 wf show ?thesis by simp
  next
    case (Inr plan)
    obtain desired snapshots result where plan: "plan = (desired, snapshots, result)" by (metis prod_cases3)
    from yieldsD [OF buildPatchPlan_yields [OF wf] p refl] Inr plan obtain st where
      st: "planOK env (\<lambda>r. \<exists>op \<in> set ops. touches cfg op r) (w_fs w) st" "desired = pn_desired st" by auto
    let ?keys = "sort (map fst desired)"
    obtain c where c: "commitLoop env desired snapshots ?keys [] w1 = (c, w')"
      using run ops p Inr plan
      by (auto simp: ApplyPatch_def liftSum_def bindA_def retA_def commitDesiredStates_def split: sum.splits prod.splits)
    have "q \<notin> pathAt env desired ` set ?keys"
      if q: "\<forall>ops op r. parsePatch patch = Inr ops \<longrightarrow> op \<in> set ops \<longrightarrow> touches cfg op r \<longrightarrow> q \<noteq> localPath env r" for q
    proof
      assume "q \<in> pathAt env desired ` set ?keys"
      then obtain key where key: "key \<in> set (map fst desired)" "q = pathAt env desired key" by auto
      then obtain d where "map_of desired key = Some d" by (metis map_of_eq_None_iff option.exhaust set_map)
      with st key(2) ops q show False unfolding planOK_def pathAt_def stateAt_def by (metis option.simps(5))
    qed
    moreover have "wfFs (w_fs w1)" using w1 wf by simp
    ultimately show ?thesis using commitLoop_others [OF _ _ _ c, of "set ?keys" "content (w_fs w)"] w1 by simp
  qed
qed

text \<open>
  C4: applying a patch is all or nothing. On success every file the plan names holds its planned
  content (or is gone) and every other file is unchanged; when a step of the commit fails and the
  rollback meets no further failure, every file holds what it held before; and every other
  refusal (a malformed patch, a path outside the roots, a hunk without a place, a missing or
  existing file, an unreadable one) happens before anything was written. Only a root directory
  that cannot be opened is excepted.
\<close>

theorem patch_all_or_nothing:
  assumes wf: "wfFs (w_fs w)" and sep: "separateRoots env cfg" and run: "ApplyPatch env cfg patch w = (out, w')"
  shows "case out of
      Inr result \<Rightarrow>
        \<exists>ops desired snapshots w1. parsePatch patch = Inr ops \<and>
          buildPatchPlan env cfg ops w = (Inr (desired, snapshots, result), w1) \<and>
          (\<forall>q. sameButTemp (outcome env desired (content (w_fs w))) (w_fs w') q)
    | Inl (RolledBack e []) \<Rightarrow> \<forall>q. sameButTemp (content (w_fs w)) (w_fs w') q
    | Inl (RolledBack e (x # xs)) \<Rightarrow> True
    | Inl (IOFailed m e) \<Rightarrow> m = lit ''open root'' \<or> w_fs w' = w_fs w
    | Inl e \<Rightarrow> w_fs w' = w_fs w"
proof (cases "parsePatch patch")
  case (Inl e)
  with run have "out = Inl (PatchFailed e)" "w' = w" by (auto simp: ApplyPatch_def liftSum_def bindA_def failA_def)
  then show ?thesis by simp
next
  case ops: (Inr ops)
  obtain pl w1 where p: "buildPatchPlan env cfg ops w = (pl, w1)" by fastforce
  from yieldsD [OF buildPatchPlan_yields [OF wf] p refl] have w1: "w_fs w1 = w_fs w" by simp
  show ?thesis
  proof (cases pl)
    case (Inl e)
    with run ops p have "out = Inl e" "w' = w1" by (auto simp: ApplyPatch_def liftSum_def bindA_def retA_def)
    with w1 show ?thesis by (auto split: file_error.splits list.splits)
  next
    case (Inr plan)
    obtain desired snapshots result where plan: "plan = (desired, snapshots, result)" by (metis prod_cases3)
    from yieldsD [OF buildPatchPlan_yields [OF wf] p refl] Inr plan obtain st where
      st: "planOK env (\<lambda>r. \<exists>op \<in> set ops. touches cfg op r) (w_fs w) st" "desired = pn_desired st" "snapshots = pn_snapshots st" by auto
    let ?keys = "sort (map fst desired)"
    obtain c w2 where c: "commitLoop env desired snapshots ?keys [] w1 = (c, w2)" by fastforce
    have wf1: "wfFs (w_fs w1)" and g1: "\<forall>q. sameButTemp (content (w_fs w)) (w_fs w1) q" using w1 wf by simp_all
    have out: "out = (case c of Inl e \<Rightarrow> Inl e | Inr _ \<Rightarrow> Inr result)" "w' = w2"
      using run ops p Inr plan c
      by (auto simp: ApplyPatch_def liftSum_def bindA_def retA_def commitDesiredStates_def split: sum.splits)
    show ?thesis
    proof (cases c)
      case (Inr u)
      with commitLoop_applies [OF wf1 g1] c have "\<forall>q. sameButTemp (planned env desired ?keys (content (w_fs w))) (w_fs w2) q" by blast
      with planned_outcome [OF st(1) touches_underRoot sep] st(2) out Inr ops p \<open>pl = Inr plan\<close> plan show ?thesis by auto
    next
      case (Inl e)
      have "\<forall>q. sameButTemp (content (w_fs w)) (w_fs w2) q" if "e = RolledBack e' []" for e'
        by (rule commitLoop_restores [OF wf1 _ _ c [unfolded Inl that]])
          (use w1 planOK_recorded [OF st(1)] st(2,3) in auto)
      with commitLoop_errors [OF c [unfolded Inl]] Inl out show ?thesis
        by (auto split: file_error.splits list.splits)
    qed
  qed
qed


text \<open>A patch of two files whose second write fails at its rename: the first is taken back.\<close>

definition samplePatch :: gostr where
  "samplePatch = joinStr LF
     [patchBeginMarker, patchUpdateFileMarker @ lit ''a'', lit ''@@'', lit ''-x'', lit ''+z'',
      patchAddFileMarker @ lit ''b'', lit ''+n'', patchEndMarker]"

theorem patch_all_or_nothing_witness:
  "fst (ApplyPatch sampleEnv sampleRoots samplePatch (sampleDisk (replicate 21 None @ [Some (lit ''EIO'')]))) =
     Inl (RolledBack (IOFailed (lit ''rename temp file'') (Sys (lit ''EIO''))) []) \<and>
   content (w_fs (snd (ApplyPatch sampleEnv sampleRoots samplePatch (sampleDisk (replicate 21 None @ [Some (lit ''EIO'')])))))
     [lit ''w'', lit ''a''] = Some (Utf8 [120, 10, 121, 10])"
proof -
  let ?w = "sampleDisk (replicate 21 None @ [Some (lit ''EIO'')])"
  let ?run = "ApplyPatch sampleEnv sampleRoots samplePatch ?w"
  have f: "fst ?run = Inl (RolledBack (IOFailed (lit ''rename temp file'') (Sys (lit ''EIO''))) [])" by code_simp
  have sep: "separateRoots sampleEnv sampleRoots" by code_simp
  have "?run = (Inl (RolledBack (IOFailed (lit ''rename temp file'') (Sys (lit ''EIO''))) []), snd ?run)"
    using f by (metis prod.collapse)
  from patch_all_or_nothing [OF sampleDisk_wf sep this]
  have "sameButTemp (content (w_fs ?w)) (w_fs (snd ?run)) [lit ''w'', lit ''a'']" by simp
  moreover have "content (w_fs ?w) [lit ''w'', lit ''a''] = Some (Utf8 [120, 10, 121, 10])" by code_simp
  ultimately show ?thesis using f by (simp add: sameButTemp_def)
qed

text \<open>
  The exception is real: a root that cannot be opened in the middle of a commit ends it without a
  rollback, and the files already written keep their new content.
\<close>

lemma open_root_failure_keeps_changes:
  "let run = ApplyPatch sampleEnv sampleRoots samplePatch (sampleDisk (replicate 15 None @ [Some (lit ''EIO'')])) in
   fst run = Inl (IOFailed (lit ''open root'') (Sys (lit ''EIO''))) \<and>
   content (w_fs (snd run)) [lit ''w'', lit ''a''] = Some (Utf8 [122, 10, 121, 10]) \<and>
   content (w_fs (snd run)) [lit ''w'', lit ''b''] = None"
  by code_simp

end
