(* ===== verification/Path_Clean.thy ===== *)
theory Path_Clean
  imports Text_Lines Go_Path
begin

text \<open>
  What the components rely on of \<open>path.Clean\<close>: it is idempotent, and a clean absolute path other
  than the root is a clean directory, a slash and one name.
\<close>

section \<open>Normal component lists\<close>

definition plainName :: "gostr \<Rightarrow> bool" where
  "plainName c \<longleftrightarrow> c \<noteq> [] \<and> c \<noteq> lit ''.'' \<and> 47 \<notin> set c"

lemma cleanStep_length: "length (cleanStep rooted out c) \<le> Suc (length out)"
  by (auto simp: cleanStep_def)

lemma cleanStep_grows: "cleanStep rooted out c = xs \<Longrightarrow> length xs = Suc (length out) \<Longrightarrow> xs = out @ [c]"
  by (auto simp: cleanStep_def split: if_splits)

lemma foldl_clean_length: "length (foldl (cleanStep rooted) [] cs) \<le> length cs"
proof (induction cs rule: rev_induct)
  case (snoc c cs)
  then show ?case using cleanStep_length [of rooted "foldl (cleanStep rooted) [] cs" c] by simp
qed simp

text \<open>A component list that cleaning keeps; so are its prefixes.\<close>

abbreviation settled :: "bool \<Rightarrow> gostr list \<Rightarrow> bool" where
  "settled rooted cs \<equiv> foldl (cleanStep rooted) [] cs = cs"

lemma settled_snoc: "settled rooted (cs @ [c]) \<Longrightarrow> settled rooted cs"
proof -
  let ?X = "foldl (cleanStep rooted) [] cs"
  assume "settled rooted (cs @ [c])"
  then have s: "cleanStep rooted ?X c = cs @ [c]" by simp
  moreover have "length cs \<le> length ?X" using cleanStep_length [of rooted ?X c] s by simp
  ultimately have "length (cs @ [c]) = Suc (length ?X)" using foldl_clean_length [of rooted cs] by simp
  from cleanStep_grows [OF s this] show "?X = cs" by simp
qed

lemma settled_butlast: "settled rooted cs \<Longrightarrow> settled rooted (butlast cs)"
  using settled_snoc [of rooted "butlast cs" "last cs"] by (cases "cs = []") simp_all

lemma settled_step: "settled rooted cs \<Longrightarrow> settled rooted (cleanStep rooted cs c)"
proof -
  assume s: "settled rooted cs"
  consider "cleanStep rooted cs c = cs" | "cleanStep rooted cs c = butlast cs" | "cleanStep rooted cs c = cs @ [c]"
    unfolding cleanStep_def by presburger
  then show ?thesis
  proof cases
    case 3
    then show ?thesis using s by simp
  next
    case 2
    then show ?thesis using settled_butlast [OF s] by simp
  qed (use s in simp)
qed

lemma settled_components: "settled (isAbs p) (cleanComponents p)"
proof -
  have "settled rooted out \<Longrightarrow> settled rooted (foldl (cleanStep rooted) out cs)" for rooted out cs
    by (induction cs arbitrary: out) (auto dest: settled_step)
  then show ?thesis by (simp add: cleanComponents_def)
qed

lemma components_plain: "list_all plainName (cleanComponents p)"
proof -
  have "list_all plainName (foldl (cleanStep rooted) out cs)"
    if "list_all plainName out" "\<forall>c \<in> set cs. 47 \<notin> set c" for rooted out cs
    using that
  proof (induction cs arbitrary: out)
    case (Cons c cs)
    have "list_all plainName (cleanStep rooted out c)"
      using Cons.prems by (auto simp: cleanStep_def plainName_def list_all_iff dest: in_set_butlastD)
    with Cons show ?case by simp
  qed simp
  then show ?thesis using splitRune_join [of 47 p] by (simp add: cleanComponents_def)
qed

section \<open>Clean paths\<close>

text \<open>The path of a list of components, as \<open>cleanPath\<close> writes it.\<close>

definition pathOf :: "bool \<Rightarrow> gostr list \<Rightarrow> gostr" where
  "pathOf rooted cs =
     (if rooted then lit ''/'' @ joinStr (lit ''/'') cs else if cs = [] then lit ''.'' else joinStr (lit ''/'') cs)"

lemma slash: "lit ''/'' = [47]"
  by (simp add: go_eval)

lemma joinStr_Nil_iff: "list_all plainName cs \<Longrightarrow> joinStr (lit ''/'') cs = [] \<longleftrightarrow> cs = []"
  by (cases cs) (auto simp: joinStr_Cons plainName_def)

lemma cleanPath_pathOf: "cleanPath p = pathOf (isAbs p) (cleanComponents p)"
  using joinStr_Nil_iff [OF components_plain] by (simp add: cleanPath_def pathOf_def slash)

lemma isAbs_pathOf: "list_all plainName cs \<Longrightarrow> isAbs (pathOf rooted cs) = rooted"
proof (cases cs)
  case (Cons c cs')
  moreover assume "list_all plainName cs"
  ultimately have "c \<noteq> []" "47 \<notin> set c" by (simp_all add: plainName_def)
  then show ?thesis using Cons by (cases c) (auto simp: pathOf_def isAbs_def hasPrefix_def slash joinStr_Cons)
qed (simp add: pathOf_def isAbs_def hasPrefix_def go_eval)

lemma split_pathOf:
  "list_all plainName cs \<Longrightarrow> cs \<noteq> [] \<Longrightarrow> splitRune 47 (pathOf rooted cs) = (if rooted then [] # cs else cs)"
  using splitRune_joinStr [of cs 47] splitRune_pair [of 47 "[]"]
  by (auto simp: pathOf_def slash plainName_def list_all_iff)

lemma cleanComponents_pathOf:
  assumes "settled rooted cs" "list_all plainName cs"
  shows "cleanComponents (pathOf rooted cs) = cs"
proof (cases "cs = []")
  case True
  then show ?thesis by (cases rooted) (simp_all add: cleanComponents_def pathOf_def cleanStep_def go_eval)
next
  case False
  have "cleanStep rooted [] [] = []" for rooted by (simp add: cleanStep_def)
  then show ?thesis using assms False by (cases rooted) (simp_all add: cleanComponents_def isAbs_pathOf split_pathOf)
qed

lemma isAbs_cleanPath [simp]: "isAbs (cleanPath p) = isAbs p"
  by (simp add: cleanPath_pathOf isAbs_pathOf components_plain)

lemma cleanPath_idem [simp]: "cleanPath (cleanPath p) = cleanPath p"
proof -
  have "cleanComponents (cleanPath p) = cleanComponents p"
    unfolding cleanPath_pathOf [of p] by (rule cleanComponents_pathOf [OF settled_components components_plain])
  then show ?thesis unfolding cleanPath_pathOf [of "cleanPath p"] cleanPath_pathOf [of p, symmetric] isAbs_cleanPath
    by (simp add: cleanPath_pathOf [of p])
qed

text \<open>A clean absolute path below the root, up to and including its last slash.\<close>

lemma clean_parent:
  assumes c: "c = cleanPath p" and abs: "isAbs c" and root: "c \<noteq> lit ''/''"
  obtains dir name where "c = (if dir = lit ''/'' then dir else dir @ lit ''/'') @ name" "plainName name"
    "cleanPath (rev (dropWhile (\<lambda>r. r \<noteq> 47) (rev c))) = dir" "isAbs dir"
proof -
  let ?cs = "cleanComponents p"
  have abs_p: "isAbs p" using abs c by simp
  then have c': "c = lit ''/'' @ joinStr (lit ''/'') ?cs" by (simp add: c cleanPath_pathOf pathOf_def)
  with root have ne: "?cs \<noteq> []" by auto
  define name where "name = last ?cs"
  define bs where "bs = butlast ?cs"
  define dir where "dir = pathOf True bs"
  have cs: "?cs = bs @ [name]" using ne by (simp add: name_def bs_def)
  have plain: "list_all plainName bs" "plainName name" using components_plain [of p] unfolding cs by simp_all
  have settled: "settled True bs" using settled_components [of p] settled_snoc [of True bs name] abs_p unfolding cs by simp
  let ?pre = "if dir = lit ''/'' then dir else dir @ lit ''/''"
  have pre: "?pre = lit ''/'' @ (if bs = [] then [] else joinStr (lit ''/'') bs @ lit ''/'')"
    using joinStr_Nil_iff [OF plain(1)] by (auto simp: dir_def pathOf_def slash)
  have c_eq: "c = ?pre @ name" unfolding c' cs pre by (simp add: joinStr_snoc)
  have "dropWhile (\<lambda>r. r \<noteq> 47) (rev name @ xs) = dropWhile (\<lambda>r. r \<noteq> 47) xs" for xs
    using plain(2) by (intro dropWhile_append2) (auto simp: plainName_def)
  then have parent: "rev (dropWhile (\<lambda>r. r \<noteq> 47) (rev c)) = ?pre" unfolding c_eq by (simp add: slash)
  have "cleanPath ?pre = dir"
  proof (cases "bs = []")
    case True
    then have "?pre = pathOf True []" "dir = pathOf True []" by (simp_all add: dir_def pathOf_def slash)
    then show ?thesis using cleanComponents_pathOf [of True "[]"] by (simp add: cleanPath_pathOf isAbs_pathOf)
  next
    case False
    then have "?pre = dir @ [47]" using pre by (simp add: dir_def pathOf_def slash)
    moreover have "splitRune 47 (dir @ [47]) = splitRune 47 dir @ [[]]" using splitRune_append [of 47 dir "[]"] by simp
    moreover have "splitRune 47 dir = [] # bs" using split_pathOf [OF plain(1) False, of True] by (simp add: dir_def)
    moreover have rooted: "isAbs ?pre" using pre by (simp add: isAbs_def hasPrefix_def slash)
    moreover have "cleanStep True cs [] = cs" for cs by (simp add: cleanStep_def)
    ultimately have "cleanComponents ?pre = bs" using settled by (simp only: cleanComponents_def) simp
    note this rooted
    then show ?thesis by (simp add: cleanPath_pathOf dir_def)
  qed
  then show thesis using that [of dir name] c_eq plain(2) parent isAbs_pathOf [OF plain(1), of True] by (simp add: dir_def)
qed

end
