(* ===== verification/File_Tools.thy ===== *)
theory File_Tools
  imports Patch_Commit Path_Clean Agent_Model
begin

text \<open>
  The file tools the model calls (\<open>systems/agent/internal/tools/files\<close>) and the policy that restricts them
  to listed paths.  Decoding the JSON arguments of a call is a parameter (\<open>decoders\<close>): one function
  per argument struct the code unmarshals into, returning the decoder's message or the fields,
  with Go's zero values for absent ones.  An executor that is not configured is \<open>None\<close>.
\<close>

record PathAccessPolicy =
  pp_ReadPaths :: "gostr list"
  pp_WritePaths :: "gostr list"
  pp_ReadDirs :: "gostr list"
  pp_WriteDirs :: "gostr list"

record FileToolAccess =
  fa_ReadPaths :: "gostr list"
  fa_WritePaths :: "gostr list"

record decoders =
  de_path :: "gostr \<Rightarrow> gostr + gostr"
  de_patch :: "gostr \<Rightarrow> gostr + gostr"
  de_read :: "gostr \<Rightarrow> gostr + gostr \<times> int \<times> int"
  de_write :: "gostr \<Rightarrow> gostr + gostr \<times> rawData"
  de_edit :: "gostr \<Rightarrow> gostr + gostr \<times> gostr \<times> gostr"

datatype tool_error =
    InvalidJSON gostr | MissingPath | MissingPatch | MissingOldText | NoPatchPaths
  | NegativeOffset | NegativeLimit | NoExecutor | ToolFailed file_error
  | OutsideRead gostr gostr | OutsideWrite gostr gostr | UnknownTool gostr

type_synonym toolAct = "(tool_error, rawData, gostr) act"

section \<open>The policy\<close>

definition cleanToolPath :: "gostr \<Rightarrow> gostr" where
  "cleanToolPath pathValue =
     (let p = trimSpace pathValue; cleaned = cleanPath p
      in if p = [] then [] else if cleaned = lit ''.'' then [] else cleaned)"

definition uniqueCleanPaths :: "gostr list \<Rightarrow> gostr list" where
  "uniqueCleanPaths paths = foldl (\<lambda>out p. addFresh out (cleanToolPath p)) [] paths"

text \<open>The set is the keys of the Go map.\<close>

definition normalizedPathSet :: "gostr list \<Rightarrow> gostr list" where
  "normalizedPathSet paths = foldl (\<lambda>out p. addFresh out (cleanToolPath p)) [] paths"

definition pathPrefixes :: "gostr list" where
  "pathPrefixes = [lit ''*** Add File: '', lit ''*** Delete File: '', lit ''*** Update File: '', lit ''*** Move to: '']"

definition linePaths :: "gostr \<Rightarrow> gostr list" where
  "linePaths line =
     concat (map (\<lambda>prefix.
       if \<not> hasPrefix line prefix then []
       else let pathValue = trimSpace (drop (length prefix) line)
            in if pathValue \<noteq> [] then [pathValue] else []) pathPrefixes)"

definition pathsFromPatchEnvelope :: "gostr \<Rightarrow> gostr list" where
  "pathsFromPatchEnvelope patch =
     (let normalized = replaceAll (replaceAll patch [13, 10] [10]) [13] [10]
      in uniqueCleanPaths (concat (map linePaths (splitRune 10 normalized))))"

definition toolPathArgument :: "decoders \<Rightarrow> gostr \<Rightarrow> tool_error + gostr" where
  "toolPathArgument de arguments =
     (case de_path de arguments of
        Inl e \<Rightarrow> Inl (InvalidJSON e)
      | Inr p \<Rightarrow> let pathValue = trimSpace p in if pathValue = [] then Inl MissingPath else Inr pathValue)"

definition applyPatchArgumentPaths :: "decoders \<Rightarrow> gostr \<Rightarrow> tool_error + gostr list" where
  "applyPatchArgumentPaths de arguments =
     (case de_patch de arguments of
        Inl e \<Rightarrow> Inl (InvalidJSON e)
      | Inr patch \<Rightarrow>
          (if trimSpace patch = [] then Inl MissingPatch
           else let paths = pathsFromPatchEnvelope patch in if paths = [] then Inl NoPatchPaths else Inr paths))"

definition InspectToolCallAccess :: "decoders \<Rightarrow> ToolCall \<Rightarrow> tool_error + FileToolAccess option" where
  "InspectToolCallAccess de call =
     (let name = trimSpace (tc_Name call)
      in if name = lit ''read_file''
         then (case toolPathArgument de (tc_Arguments call) of
                 Inl e \<Rightarrow> Inl e
               | Inr p \<Rightarrow> Inr (Some \<lparr>fa_ReadPaths = [cleanToolPath p], fa_WritePaths = []\<rparr>))
         else if name = lit ''write_file'' \<or> name = lit ''edit_file''
         then (case toolPathArgument de (tc_Arguments call) of
                 Inl e \<Rightarrow> Inl e
               | Inr p \<Rightarrow> Inr (Some \<lparr>fa_ReadPaths = [], fa_WritePaths = [cleanToolPath p]\<rparr>))
         else if name = lit ''apply_patch''
         then (case applyPatchArgumentPaths de (tc_Arguments call) of
                 Inl e \<Rightarrow> Inl e
               | Inr ps \<Rightarrow> Inr (Some \<lparr>fa_ReadPaths = [], fa_WritePaths = ps\<rparr>))
         else Inr None)"

definition dirPath :: "gostr \<Rightarrow> gostr" where
  "dirPath p = cleanPath (rev (dropWhile (\<lambda>r. r \<noteq> 47) (rev p)))"

definition pathAllowed :: "gostr \<Rightarrow> gostr list \<Rightarrow> gostr list \<Rightarrow> bool" where
  "pathAllowed candidate exact dirs =
     (let cleaned = cleanToolPath candidate
      in if cleaned = [] then False
         else if cleaned \<in> set exact then True
         else if \<not> isAbs cleaned \<or> cleaned = lit ''/'' then False
         else dirPath cleaned \<in> set dirs)"

definition CheckToolCall :: "decoders \<Rightarrow> PathAccessPolicy \<Rightarrow> ToolCall \<Rightarrow> tool_error option" where
  "CheckToolCall de p call =
     (case InspectToolCallAccess de call of
        Inl e \<Rightarrow> Some e
      | Inr None \<Rightarrow> None
      | Inr (Some access) \<Rightarrow>
          (let name = trimSpace (tc_Name call);
               readAllowed = normalizedPathSet (pp_ReadPaths p); writeAllowed = normalizedPathSet (pp_WritePaths p);
               readDirs = normalizedPathSet (pp_ReadDirs p); writeDirs = normalizedPathSet (pp_WriteDirs p)
           in firstError
                (map (\<lambda>c. errIf (\<not> pathAllowed c readAllowed readDirs) (OutsideRead name c)) (fa_ReadPaths access) @
                 map (\<lambda>c. errIf (\<not> pathAllowed c writeAllowed writeDirs) (OutsideWrite name c)) (fa_WritePaths access))))"

section \<open>The tools\<close>

definition normalizeToolPath :: "gostr \<Rightarrow> tool_error + gostr" where
  "normalizeToolPath path = (let p = trimSpace path in if p = [] then Inl MissingPath else Inr p)"

definition withExecutor :: "Executor option \<Rightarrow> (Executor \<Rightarrow> 'a fileAct) \<Rightarrow> (tool_error, rawData, 'a) act" where
  "withExecutor ex f = (case ex of None \<Rightarrow> failA NoExecutor | Some e \<Rightarrow> mapErr ToolFailed (f e))"

definition showBool :: "bool \<Rightarrow> gostr" where
  "showBool b = (if b then lit ''true'' else lit ''false'')"

definition readReport :: "gostr \<Rightarrow> ReadResult \<Rightarrow> gostr" where
  "readReport path result =
     joinStr LF
       ([lit ''Path: '' @ path, lit ''Total-Lines: '' @ itoa (nat (rr_TotalLines result)),
         lit ''Truncated: '' @ showBool (rr_Truncated result)] @
        (if rr_Truncated result \<and> 0 < rr_NextOffsetLines result
         then [lit ''Next-Offset-Lines: '' @ itoa (nat (rr_NextOffsetLines result))] else []) @
        [lit ''--- CONTENT ---'', rr_Content result])"

definition runReadFile :: "osEnv \<Rightarrow> decoders \<Rightarrow> Executor option \<Rightarrow> gostr \<Rightarrow> toolAct" where
  "runReadFile env de ex arguments =
     bindA (liftSum InvalidJSON (de_read de arguments)) (\<lambda>(p, offsetLines, limitLines).
     bindA (liftSum id (normalizeToolPath p)) (\<lambda>path.
     bindA (guardA (firstError [errIf (offsetLines < 0) NegativeOffset, errIf (limitLines < 0) NegativeLimit])) (\<lambda>_.
     bindA (withExecutor ex (\<lambda>e. executorReadFile env e path offsetLines limitLines)) (\<lambda>result.
     retA (readReport path result)))))"

definition runWriteFile :: "osEnv \<Rightarrow> decoders \<Rightarrow> Executor option \<Rightarrow> gostr \<Rightarrow> toolAct" where
  "runWriteFile env de ex arguments =
     bindA (liftSum InvalidJSON (de_write de arguments)) (\<lambda>(p, content).
     bindA (liftSum id (normalizeToolPath p)) (\<lambda>path.
     bindA (withExecutor ex (\<lambda>e. executorWriteFile env e path content)) (\<lambda>result.
     retA (lit ''Path: '' @ wr_Path result @ LF @ lit ''Bytes-Written: '' @ itoa (wr_BytesWritten result)))))"

definition runEditFile :: "osEnv \<Rightarrow> decoders \<Rightarrow> Executor option \<Rightarrow> gostr \<Rightarrow> toolAct" where
  "runEditFile env de ex arguments =
     bindA (liftSum InvalidJSON (de_edit de arguments)) (\<lambda>(p, oldText, newText).
     bindA (liftSum id (normalizeToolPath p)) (\<lambda>path.
     bindA (guardA (errIf (oldText = []) MissingOldText)) (\<lambda>_.
     bindA (withExecutor ex (\<lambda>e. executorEditFile env e path oldText newText)) (\<lambda>result.
     retA (lit ''Path: '' @ er_Path result @ LF @ lit ''First-Changed-Line: '' @ itoa (er_FirstChangedLine result) @ LF @
           lit ''--- DIFF ---'' @ LF @ er_Diff result)))))"

definition patchReport :: "ApplyPatchResult \<Rightarrow> gostr" where
  "patchReport result =
     joinStr LF
       ([lit ''Summary: '' @ ap_Summary result] @
        (if ap_ChangedFiles result \<noteq> []
         then lit ''Changed-Files:'' # map (\<lambda>p. lit ''- '' @ p) (ap_ChangedFiles result) else []) @
        [lit ''--- DIFF ---'', ap_Diff result])"

definition runApplyPatch :: "osEnv \<Rightarrow> decoders \<Rightarrow> Executor option \<Rightarrow> gostr \<Rightarrow> toolAct" where
  "runApplyPatch env de ex arguments =
     bindA (liftSum InvalidJSON (de_patch de arguments)) (\<lambda>patch.
     bindA (guardA (errIf (trimSpace patch = []) MissingPatch)) (\<lambda>_.
     bindA (withExecutor ex (\<lambda>e. executorApplyPatch env e patch)) (\<lambda>result.
     retA (patchReport result))))"

text \<open>The tool a call names: a registered file tool, run on the call's arguments.\<close>

definition runFileTool :: "osEnv \<Rightarrow> decoders \<Rightarrow> Executor option \<Rightarrow> ToolCall \<Rightarrow> toolAct" where
  "runFileTool env de ex call =
     (let name = trimSpace (tc_Name call)
      in if name = lit ''read_file'' then runReadFile env de ex (tc_Arguments call)
         else if name = lit ''write_file'' then runWriteFile env de ex (tc_Arguments call)
         else if name = lit ''edit_file'' then runEditFile env de ex (tc_Arguments call)
         else if name = lit ''apply_patch'' then runApplyPatch env de ex (tc_Arguments call)
         else failA (UnknownTool name))"

text \<open>What the tools tell the model about themselves.\<close>

definition jsonType :: "gostr \<Rightarrow> json" where
  "jsonType t = JObject [(lit ''type'', JString t)]"

definition objectSchema :: "(gostr \<times> json) list \<Rightarrow> gostr list \<Rightarrow> json gomap" where
  "objectSchema properties required =
     [(lit ''type'', JString (lit ''object'')), (lit ''properties'', JObject properties),
      (lit ''required'', JArray (map JString required))]"

definition lineCountSchema :: json where
  "lineCountSchema = JObject [(lit ''type'', JString (lit ''integer'')), (lit ''minimum'', JNumber (lit ''0''))]"

definition ReadFileDefinition :: ToolDefinition where
  "ReadFileDefinition = \<lparr>td_Name = lit ''read_file'',
     td_Description = lit ''Read a UTF-8 text file from the sandbox workspace, memory, or skills roots with optional line-based pagination'',
     td_PromptGuidance =
       [lit ''Use for routine UTF-8 text reads instead of shelling out.'',
        lit ''Use offset_lines and limit_lines when the file is large and continue from Next-Offset-Lines when needed.''],
     td_Parameters = objectSchema
       [(lit ''path'', jsonType (lit ''string'')), (lit ''offset_lines'', lineCountSchema),
        (lit ''limit_lines'', lineCountSchema)] [lit ''path''],
     td_DeliversAttachments = False\<rparr>"

definition WriteFileDefinition :: ToolDefinition where
  "WriteFileDefinition = \<lparr>td_Name = lit ''write_file'',
     td_Description = lit ''Create or replace a UTF-8 text file in the sandbox workspace, memory, or shared skills roots'',
     td_PromptGuidance =
       [lit ''Use to create a new UTF-8 text file or fully replace an existing one.'',
        lit ''Do not use when you need a small targeted edit in an existing file.''],
     td_Parameters = objectSchema
       [(lit ''path'', jsonType (lit ''string'')), (lit ''content'', jsonType (lit ''string''))]
       [lit ''path'', lit ''content''],
     td_DeliversAttachments = False\<rparr>"

definition EditFileDefinition :: ToolDefinition where
  "EditFileDefinition = \<lparr>td_Name = lit ''edit_file'',
     td_Description = lit ''Perform one exact text replacement in an existing UTF-8 text file in the sandbox workspace, memory, or shared skills roots'',
     td_PromptGuidance =
       [lit ''Use for one exact replacement when you know the current text to match.'',
        lit ''Prefer apply_patch when the edit spans multiple hunks, multiple files, or uncertain context.''],
     td_Parameters = objectSchema
       [(lit ''path'', jsonType (lit ''string'')), (lit ''old_text'', jsonType (lit ''string'')),
        (lit ''new_text'', jsonType (lit ''string''))] [lit ''path'', lit ''old_text'', lit ''new_text''],
     td_DeliversAttachments = False\<rparr>"

definition ApplyPatchDefinition :: ToolDefinition where
  "ApplyPatchDefinition = \<lparr>td_Name = lit ''apply_patch'',
     td_Description = lit ''Apply a multi-file high-level patch inside the sandbox workspace, memory, or shared skills roots using the Codex patch envelope, not unified diff or git diff syntax'',
     td_PromptGuidance =
       [lit ''Use for multi-file edits, diff-style updates, renames, or precise patch application.'',
        lit ''Patches must start with *** Begin Patch and end with *** End Patch.'',
        lit ''Do not send unified diff, git diff, context diff, or diff --git headers.''],
     td_Parameters = objectSchema
       [(lit ''patch'', JObject [(lit ''type'', JString (lit ''string'')),
          (lit ''description'', JString (lit ''Patch text using the Codex envelope: *** Begin Patch, then *** Add File:/*** Delete File:/*** Update File:, optional *** Move to:, @@ hunks with space/-/+, and *** End Patch. Do not use diff --git, ---, or +++ headers.''))])]
       [lit ''patch''],
     td_DeliversAttachments = False\<rparr>"

section \<open>The policy sees every path a patch names\<close>

definition mentioned :: "gostr list \<Rightarrow> gostr set" where
  "mentioned lines = \<Union> (set ` linePaths ` set lines)"

definition opMentioned :: "gostr list \<Rightarrow> patchFileOp \<Rightarrow> bool" where
  "opMentioned lines op \<longleftrightarrow>
     po_path op \<in> mentioned lines \<and> (po_moveTo op \<noteq> [] \<longrightarrow> po_moveTo op \<in> mentioned lines)"

lemma mentioned_mono: "set ls \<subseteq> set ls' \<Longrightarrow> mentioned ls \<subseteq> mentioned ls'"
  by (auto simp: mentioned_def)

lemma opMentioned_mono: "set ls \<subseteq> set ls' \<Longrightarrow> opMentioned ls op \<Longrightarrow> opMentioned ls' op"
  using mentioned_mono by (auto simp: opMentioned_def)

lemma headerText_mentioned:
  assumes "m \<in> {patchAddFileMarker, patchDeleteFileMarker, patchUpdateFileMarker, patchMoveToMarker}"
    "hasPrefix line m" "headerText m line \<noteq> []" "line \<in> set lines"
  shows "headerText m line \<in> mentioned lines"
proof -
  have "m \<in> set pathPrefixes" using assms(1) by (auto simp: pathPrefixes_def marker_defs)
  moreover have h: "headerText m line = trimSpace (drop (length m) line)"
    using assms(2) by (simp add: headerText_def trimPrefix_def)
  ultimately have "headerText m line \<in> set (linePaths line)"
    using assms(2,3) unfolding linePaths_def by (force simp: Let_def)
  with assms(4) show ?thesis by (auto simp: mentioned_def)
qed

lemma header_mentioned [simp]:
  "hasPrefix line patchAddFileMarker \<Longrightarrow> headerText patchAddFileMarker line \<noteq> [] \<Longrightarrow>
   headerText patchAddFileMarker line \<in> mentioned (line # lines)"
  "hasPrefix line patchDeleteFileMarker \<Longrightarrow> headerText patchDeleteFileMarker line \<noteq> [] \<Longrightarrow>
   headerText patchDeleteFileMarker line \<in> mentioned (line # lines)"
  "hasPrefix line patchUpdateFileMarker \<Longrightarrow> headerText patchUpdateFileMarker line \<noteq> [] \<Longrightarrow>
   headerText patchUpdateFileMarker line \<in> mentioned (line # lines)"
  "hasPrefix line patchMoveToMarker \<Longrightarrow> headerText patchMoveToMarker line \<noteq> [] \<Longrightarrow>
   headerText patchMoveToMarker line \<in> mentioned (line # lines)"
  by (rule headerText_mentioned; simp)+

lemma addLoop_sub: "addLoop lines acc = Inr (ls, rest) \<Longrightarrow> set rest \<subseteq> set lines"
  by (induction lines acc rule: addLoop.induct) (auto split: if_splits)

lemma hunkLoop_sub: "hunkLoop lines acc e = Inr (ls, e', rest) \<Longrightarrow> set rest \<subseteq> set lines"
  by (induction lines acc e rule: hunkLoop.induct) (auto split: if_splits)

lemma parseHunk_sub: "parseHunk line lines = Inr (h, rest) \<Longrightarrow> set rest \<subseteq> set lines"
  using hunkLoop_sub by (fastforce simp: parseHunk_def split: sum.splits)

lemma updateLoop_sub: "updateLoop m lines acc = Inr (hs, rest) \<Longrightarrow> set rest \<subseteq> set lines"
proof (induction m lines acc rule: updateLoop.induct)
  case (1 m acc)
  then show ?case by (simp add: updateLoop.simps split: if_splits)
next
  case (2 m line lines acc)
  show ?case
  proof (cases "startsOp line")
    case True
    with "2.prems" show ?thesis by (auto simp: updateLoop.simps split: if_splits)
  next
    case no: False
    show ?thesis
    proof (cases "hasPrefix line (lit ''@@'')")
      case True
      with no "2.prems" obtain h rest' where h: "parseHunk line lines = Inr (h, rest')" "updateLoop m rest' (acc @ [h]) = Inr (hs, rest)"
        by (auto simp: updateLoop.simps split: sum.splits)
      from "2.IH"(1) [OF no True h(1) refl h(2)] parseHunk_sub [OF h(1)] show ?thesis by auto
    next
      case False
      with no "2.prems" have "line = []" by (auto simp: updateLoop.simps split: if_splits)
      moreover from this no False "2.prems" have "updateLoop m lines acc = Inr (hs, rest)" by (simp add: updateLoop.simps)
      ultimately show ?thesis using "2.IH"(2) [OF no False] by auto
    qed
  qed
qed

lemma parseMove_mentioned:
  assumes "parseMove lines = Inr (m, rest)"
  shows "(m \<noteq> [] \<longrightarrow> m \<in> mentioned lines) \<and> set rest \<subseteq> set lines"
  using assms by (auto simp: parseMove_def Let_def split: list.splits if_splits)

lemma parseAddFile_mentioned:
  assumes "parseAddFile line lines = Inr (op, rest)" "hasPrefix line patchAddFileMarker"
  shows "opMentioned (line # lines) op \<and> set rest \<subseteq> set lines"
  using assms addLoop_sub [of lines "[]"]
  by (auto simp: parseAddFile_def Let_def opMentioned_def split: sum.splits if_splits)

lemma parseDeleteFile_mentioned:
  assumes "parseDeleteFile line = Inr op" "hasPrefix line patchDeleteFileMarker"
  shows "opMentioned (line # lines) op"
  using assms
  by (auto simp: parseDeleteFile_def Let_def opMentioned_def split: if_splits)

lemma parseUpdateFile_mentioned:
  assumes "parseUpdateFile line lines = Inr (op, rest)" "hasPrefix line patchUpdateFileMarker"
  shows "opMentioned (line # lines) op \<and> set rest \<subseteq> set lines"
proof -
  from assms(1) obtain m rest1 hs where p: "headerText patchUpdateFileMarker line \<noteq> []"
    "parseMove lines = Inr (m, rest1)" "updateLoop m rest1 [] = Inr (hs, rest)"
    and op: "op = \<lparr>po_kind = lit ''update'', po_path = headerText patchUpdateFileMarker line, po_moveTo = m,
                    po_addLines = [], po_hunks = hs\<rparr>"
    by (auto simp: parseUpdateFile_def Let_def split: sum.splits if_splits)
  have "po_path op \<in> mentioned (line # lines)" using p(1) assms(2) by (auto simp: op)
  with parseMove_mentioned [OF p(2)] updateLoop_sub [OF p(3)] mentioned_mono [of lines "line # lines"] show ?thesis
    by (auto simp: op opMentioned_def)
qed

lemma opsLoop_mentioned:
  assumes "opsLoop lines acc = Inr ops" "\<forall>op \<in> set acc. opMentioned all op" "set lines \<subseteq> set all"
  shows "\<forall>op \<in> set ops. opMentioned all op"
  using assms
proof (induction lines acc rule: opsLoop.induct)
  case (1 acc)
  then show ?case by (simp add: opsLoop.simps)
next
  case (2 line rest acc)
  have sub: "set (line # rest) \<subseteq> set all" using "2.prems" by simp
  consider "line = []" | "line = patchEndMarker" | "hasPrefix line patchAddFileMarker" | "hasPrefix line patchDeleteFileMarker"
    | "hasPrefix line patchUpdateFileMarker"
    using "2.prems"(1) by (auto simp: opsLoop.simps split: if_splits)
  then show ?case
  proof cases
    case 1
    with 2 show ?thesis by (simp add: opsLoop.simps)
  next
    case 2
    with "2.prems" show ?thesis by (auto simp: opsLoop.simps opsLoop_markers split: if_splits)
  next
    case 3
    then obtain p where l: "line = patchAddFileMarker @ p" by (rule hasPrefixE)
    with "2.prems"(1) obtain op rest' where h: "parseAddFile line rest = Inr (op, rest')" "opsLoop rest' (acc @ [op]) = Inr ops"
      by (auto simp: opsLoop_add split: sum.splits)
    from parseAddFile_mentioned [OF h(1) 3] opMentioned_mono [OF sub] "2.prems"(2,3)
    have "\<forall>op \<in> set (acc @ [op]). opMentioned all op" "set rest' \<subseteq> set all" by auto
    with "2.IH"(2) [OF _ _ 3 h(1) refl h(2)] show ?thesis unfolding l using opsLoop_markers by blast
  next
    case 4
    then obtain p where l: "line = patchDeleteFileMarker @ p" by (rule hasPrefixE)
    with "2.prems"(1) obtain op where h: "parseDeleteFile line = Inr op" "opsLoop rest (acc @ [op]) = Inr ops"
      by (auto simp: opsLoop_delete split: sum.splits)
    from parseDeleteFile_mentioned [OF h(1) 4] opMentioned_mono [OF sub] "2.prems"(2,3)
    have "\<forall>op \<in> set (acc @ [op]). opMentioned all op" "set rest \<subseteq> set all" by auto
    with "2.IH"(3) [OF _ _ _ 4 h(1) h(2)] show ?thesis unfolding l using opsLoop_markers by blast
  next
    case 5
    then obtain p where l: "line = patchUpdateFileMarker @ p" by (rule hasPrefixE)
    with "2.prems"(1) obtain op rest' where h: "parseUpdateFile line rest = Inr (op, rest')" "opsLoop rest' (acc @ [op]) = Inr ops"
      by (auto simp: opsLoop_update split: sum.splits)
    from parseUpdateFile_mentioned [OF h(1) 5] opMentioned_mono [OF sub] "2.prems"(2,3)
    have "\<forall>op \<in> set (acc @ [op]). opMentioned all op" "set rest' \<subseteq> set all" by auto
    with "2.IH"(4) [OF _ _ _ _ 5 h(1) refl h(2)] show ?thesis unfolding l using opsLoop_markers by blast
  qed
qed

lemma pathsFromPatchEnvelope_set:
  "set (pathsFromPatchEnvelope patch) = cleanToolPath ` mentioned (splitRune 10 (normalizeLineEndings patch)) - {[]}"
  by (auto simp: pathsFromPatchEnvelope_def uniqueCleanPaths_def set_foldl_addFresh Let_def mentioned_def
      normalizeLineEndings_def LF_def CR_def CRLF_def)

lemma parsePatch_mentioned:
  assumes "parsePatch patch = Inr ops" "op \<in> set ops"
  shows "opMentioned (splitRune 10 (normalizeLineEndings patch)) op"
proof -
  let ?ls = "splitRune 10 (normalizeLineEndings patch)"
  from assms(1) obtain rest where "dropWhile (\<lambda>l. l = []) ?ls = patchBeginMarker # rest" "opsLoop rest [] = Inr ops"
    by (auto simp: parsePatch_def Let_def split: list.splits if_splits)
  moreover from this have "set rest \<subseteq> set ?ls" by (metis set_dropWhileD list.set_intros(2) subsetI)
  ultimately show ?thesis using opsLoop_mentioned [of rest "[]" ops ?ls] assms(2) by simp
qed

text \<open>A path that cleans to nothing is refused by the resolution as well.\<close>

lemma resolve_clean: "resolvePath cfg p = Inr r \<Longrightarrow> cleanToolPath p \<noteq> []"
proof
  assume res: "resolvePath cfg p = Inr r" and c: "cleanToolPath p = []"
  have ne: "trimSpace p \<noteq> []" using res by (auto simp: resolvePath_def)
  have "cleanPath (trimSpace p) \<noteq> []" by (auto simp: cleanPath_def Let_def)
  with c ne have dot: "cleanPath (trimSpace p) = lit ''.''" by (auto simp: cleanToolPath_def Let_def split: if_splits)
  have "\<not> isAbs (trimSpace p)"
  proof
    assume "isAbs (trimSpace p)"
    then have "hd (cleanPath (trimSpace p)) = 47" by (simp add: cleanPath_def lit_def)
    with dot show False by (simp add: lit_def)
  qed
  with res ne dot show False by (simp add: resolvePath_def validateRelativePath_def errIf_def Let_def)
qed

lemma touched_paths:
  assumes "parsePatch patch = Inr ops" "op \<in> set ops" "touches cfg op r"
  obtains p where "resolvePath cfg p = Inr r" "cleanToolPath p \<in> set (pathsFromPatchEnvelope patch)"
proof -
  from assms(3) obtain p where p: "resolvePath cfg p = Inr r" "p = po_path op \<or> po_moveTo op \<noteq> [] \<and> p = po_moveTo op"
    by (auto simp: touches_def)
  with parsePatch_mentioned [OF assms(1,2)] have "p \<in> mentioned (splitRune 10 (normalizeLineEndings patch))"
    by (auto simp: opMentioned_def)
  with resolve_clean [OF p(1)] p(1) that show thesis by (auto simp: pathsFromPatchEnvelope_set)
qed

section \<open>A checked call changes only allowed files\<close>

text \<open>
  What \<open>encoding/json\<close> documents of the structs the code decodes the same arguments into: the value
  of the \<open>path\<close> field does not depend on the other fields of the struct.
\<close>

definition jsonCoherent :: "decoders \<Rightarrow> bool" where
  "jsonCoherent de \<longleftrightarrow>
     (\<forall>a p c. de_write de a = Inr (p, c) \<longrightarrow> de_path de a = Inr p) \<and>
     (\<forall>a p x y. de_edit de a = Inr (p, x, y) \<longrightarrow> de_path de a = Inr p)"

text \<open>
  What the policy's documentation promises, stated without the code's check: a path is listed when
  it is one of the listed paths, or the direct child of a listed absolute directory, that is, the
  directory, a slash and one name.
\<close>

definition childOf :: "gostr \<Rightarrow> gostr \<Rightarrow> bool" where
  "childOf dir c \<longleftrightarrow>
     (let base = (if dir = lit ''/'' then dir else dir @ lit ''/''); name = drop (length base) c
      in hasPrefix c base \<and> name \<noteq> [] \<and> 47 \<notin> set name)"

definition listedPath :: "gostr list \<Rightarrow> gostr list \<Rightarrow> gostr \<Rightarrow> bool" where
  "listedPath paths dirs c \<longleftrightarrow>
     list_ex (\<lambda>e. trimSpace e \<noteq> [] \<and> cleanPath (trimSpace e) = c) paths \<or>
     list_ex (\<lambda>d. isAbs (trimSpace d) \<and> childOf (cleanPath (trimSpace d)) c) dirs"

text \<open>The name a tool writes to, and the name the check looks up: the written one, trimmed once more.\<close>

definition writtenName :: "gostr \<Rightarrow> gostr" where
  "writtenName p = cleanPath (trimSpace p)"

definition checkedName :: "gostr \<Rightarrow> gostr" where
  "checkedName p = cleanPath (trimSpace (writtenName p))"

definition writable :: "PathAccessPolicy \<Rightarrow> gostr \<Rightarrow> bool" where
  "writable pol p \<longleftrightarrow> listedPath (pp_WritePaths pol) (pp_WriteDirs pol) (checkedName p)"

lemma checkedName_trim [simp]: "checkedName (trimSpace p) = checkedName p"
  by (simp add: checkedName_def writtenName_def)

lemma checkedName_exact: "trimSpace (writtenName p) = writtenName p \<Longrightarrow> checkedName p = writtenName p"
  by (simp add: checkedName_def) (simp add: writtenName_def)

lemma cleanToolPath_ne: "cleanToolPath p \<noteq> [] \<Longrightarrow> trimSpace p \<noteq> [] \<and> cleanToolPath p = cleanPath (trimSpace p)"
  by (auto simp: cleanToolPath_def Let_def split: if_splits)

lemma normalizedPathSet_mem:
  "c \<in> set (normalizedPathSet ps) \<longleftrightarrow> c \<noteq> [] \<and> (\<exists>e \<in> set ps. c = cleanToolPath e)"
  by (auto simp: normalizedPathSet_def set_foldl_addFresh)

text \<open>What the code allows is listed: in the directory case the parent of a clean path is what \<open>path.Dir\<close> returns.\<close>

lemma pathAllowed_listed:
  assumes "pathAllowed (cleanToolPath p) (normalizedPathSet paths) (normalizedPathSet dirs)"
  shows "listedPath paths dirs (checkedName p)"
proof -
  let ?c = "cleanToolPath (cleanToolPath p)"
  have ne: "?c \<noteq> []" using assms by (auto simp: pathAllowed_def)
  then have "cleanToolPath p \<noteq> []" by (auto simp: cleanToolPath_def Let_def split: if_splits)
  then have c: "?c = checkedName p"
    using cleanToolPath_ne [of p] cleanToolPath_ne [OF ne] by (simp add: checkedName_def writtenName_def)
  show ?thesis
  proof (cases "?c \<in> set (normalizedPathSet paths)")
    case True
    then obtain e where e: "e \<in> set paths" "?c = cleanToolPath e" by (auto simp: normalizedPathSet_mem)
    with ne cleanToolPath_ne [of e] have "trimSpace e \<noteq> []" "cleanPath (trimSpace e) = checkedName p" by (simp_all add: c)
    with e(1) show ?thesis by (auto simp: listedPath_def list_ex_iff)
  next
    case False
    with assms have abs: "isAbs (checkedName p)" "checkedName p \<noteq> lit ''/''" and dir: "dirPath (checkedName p) \<in> set (normalizedPathSet dirs)"
      by (auto simp: pathAllowed_def Let_def c split: if_splits)
    from dir obtain d where d: "d \<in> set dirs" "dirPath (checkedName p) = cleanToolPath d" "cleanToolPath d \<noteq> []"
      by (auto simp: normalizedPathSet_mem)
    obtain D name where D: "checkedName p = (if D = lit ''/'' then D else D @ lit ''/'') @ name" "plainName name"
      "dirPath (checkedName p) = D" "isAbs D"
      using clean_parent [OF checkedName_def abs] unfolding dirPath_def by blast
    have "cleanPath (trimSpace d) = D" using d D(3) cleanToolPath_ne [of d] by simp
    moreover have "isAbs (trimSpace d)" using D(4) calculation isAbs_cleanPath by metis
    moreover have "childOf D (checkedName p)" using D(1,2) by (auto simp: childOf_def hasPrefix_def plainName_def)
    ultimately show ?thesis using d(1) by (auto simp: listedPath_def list_ex_iff)
  qed
qed

text \<open>\<open>onlyWrites fs0 S m\<close>: whatever \<open>m\<close> does from \<open>fs0\<close>, it keeps a tree a tree and changes only files in \<open>S\<close>.\<close>

definition onlyWrites :: "rawData fs \<Rightarrow> path set \<Rightarrow> ('e, rawData, 'a) act \<Rightarrow> bool" where
  "onlyWrites fs0 S m \<longleftrightarrow>
     (\<forall>w r w'. w_fs w = fs0 \<longrightarrow> m w = (r, w') \<longrightarrow>
        (wfFs fs0 \<longrightarrow> wfFs (w_fs w')) \<and> (\<forall>q. q \<notin> S \<longrightarrow> sameButTemp (content fs0) (w_fs w') q))"

lemma onlyWritesI:
  "(\<And>w r w'. w_fs w = fs0 \<Longrightarrow> m w = (r, w') \<Longrightarrow>
      (wfFs fs0 \<longrightarrow> wfFs (w_fs w')) \<and> (\<forall>q. q \<notin> S \<longrightarrow> sameButTemp (content fs0) (w_fs w') q)) \<Longrightarrow> onlyWrites fs0 S m"
  unfolding onlyWrites_def by blast

lemma onlyWrites_ret [simp]: "onlyWrites fs0 S (retA x)" "onlyWrites fs0 S (failA e)"
  by (auto simp: onlyWrites_def retA_def failA_def)

lemma onlyWrites_lift [simp]: "onlyWrites fs0 S (liftSum f s)"
  by (cases s) (simp_all add: liftSum_def)

lemma onlyWrites_reads: "reads fs0 m Q \<Longrightarrow> onlyWrites fs0 S m"
  by (rule onlyWritesI) (auto dest: yieldsD)

text \<open>Before the write only reads; after it only a report.\<close>

lemma onlyWrites_bind:
  assumes "reads fs0 m Q" "\<And>x. Q x \<Longrightarrow> onlyWrites fs0 S (k x)"
  shows "onlyWrites fs0 S (bindA m k)"
proof (rule onlyWritesI)
  fix w r w' assume w: "w_fs w = fs0" "bindA m k w = (r, w')"
  obtain r1 w1 where m: "m w = (r1, w1)" by fastforce
  from yieldsD [OF assms(1) m w(1)] have w1: "w_fs w1 = fs0" "case r1 of Inl e \<Rightarrow> True | Inr x \<Rightarrow> Q x" by auto
  show "(wfFs fs0 \<longrightarrow> wfFs (w_fs w')) \<and> (\<forall>q. q \<notin> S \<longrightarrow> sameButTemp (content fs0) (w_fs w') q)"
  proof (cases r1)
    case (Inl e)
    with w m w1 show ?thesis by (auto simp: bindA_def)
  next
    case (Inr x)
    with w m have "k x w1 = (r, w')" by (simp add: bindA_def)
    with assms(2) [of x] w1 Inr show ?thesis unfolding onlyWrites_def by auto
  qed
qed

lemma onlyWrites_report: "onlyWrites fs0 S m \<Longrightarrow> onlyWrites fs0 S (bindA m (\<lambda>x. retA (f x)))"
  unfolding onlyWrites_def bindA_def retA_def
  by (auto split: prod.splits sum.splits)

lemma onlyWrites_mapErr: "onlyWrites fs0 S m \<Longrightarrow> onlyWrites fs0 S (mapErr f m)"
  unfolding onlyWrites_def mapErr_def handleA_def retA_def failA_def
  by (auto split: prod.splits sum.splits)

lemma onlyWrites_lift_bind:
  "(\<And>x. s = Inr x \<Longrightarrow> onlyWrites fs0 S (k x)) \<Longrightarrow> onlyWrites fs0 S (bindA (liftSum f s) k)"
  by (rule onlyWrites_bind [OF yields_liftSum, of _ "\<lambda>x. s = Inr x"])

lemma writeAtomic_only:
  assumes "wfFs fs0" "map_of fs0 root = Some DirNode" "root @ relPath r \<in> S"
  shows "onlyWrites fs0 S (writeAtomic env root r data)"
proof (rule onlyWritesI)
  fix w res w' assume w: "w_fs w = fs0" "writeAtomic env root r data w = (res, w')"
  have "q \<noteq> root @ relPath r" if "q \<notin> S" for q using that assms(3) by blast
  then show "(wfFs fs0 \<longrightarrow> wfFs (w_fs w')) \<and> (\<forall>q. q \<notin> S \<longrightarrow> sameButTemp (content fs0) (w_fs w') q)"
    using writeAtomic_run [OF _ _ w(2) refl] assms(1,2) w(1) by simp
qed

lemma openRoot_reads:
  "wfFs fs \<Longrightarrow> reads fs (openRoot env d) (\<lambda>root. root = env_dir env d \<and> map_of fs root = Some DirNode)"
  using openRoot_run by (intro yieldsI) (fastforce split: sum.splits)

lemma readTextFile_reads: "wfFs fs \<Longrightarrow> reads fs (readTextFile root r) (\<lambda>_. True)"
  using readTextFile_run by (intro yieldsI) (fastforce split: sum.splits)

lemma ReadFile_only: "wfFs fs \<Longrightarrow> onlyWrites fs S (ReadFile env cfg p off lim)"
  unfolding ReadFile_def
  by (intro onlyWrites_lift_bind onlyWrites_bind [OF openRoot_reads] onlyWrites_bind [OF readTextFile_reads]
      onlyWrites_lift)

definition targets :: "osEnv \<Rightarrow> Settings \<Rightarrow> (gostr \<Rightarrow> bool) \<Rightarrow> path set" where
  "targets env cfg A = {localPath env r | r p. A p \<and> resolvePath cfg p = Inr r}"

lemma rooted_write_only:
  assumes "wfFs fs" "A p" "resolvePath cfg p = Inr r" "root = env_dir env (rootLocalDir r) \<and> map_of fs root = Some DirNode"
  shows "onlyWrites fs (targets env cfg A) (bindA (writeAtomic env root (rel r) c) (\<lambda>_. retA x))"
  by (rule onlyWrites_report, rule writeAtomic_only) (use assms in \<open>auto simp: targets_def localPath_def\<close>)

lemma WriteFile_only:
  assumes "wfFs fs" "A p"
  shows "onlyWrites fs (targets env cfg A) (WriteFile env cfg p c)"
  unfolding WriteFile_def
proof (rule onlyWrites_lift_bind)
  fix r assume "resolvePath cfg p = Inr r"
  note rooted = rooted_write_only [of fs A p cfg r, OF assms this]
  show "onlyWrites fs (targets env cfg A) (case c of OtherBytes x \<Rightarrow> failA ContentNotUTF8
     | Utf8 s \<Rightarrow> bindA (openRoot env (rootLocalDir r)) (\<lambda>root. bindA (writeAtomic env root (rel r) c) (\<lambda>_.
         retA \<lparr>wr_Path = runtimePath r, wr_BytesWritten = byteLen s\<rparr>)))"
    by (cases c) (simp_all add: onlyWrites_bind [OF openRoot_reads [OF assms(1)] rooted])
qed

lemma EditFile_only:
  assumes "wfFs fs" "A p"
  shows "onlyWrites fs (targets env cfg A) (EditFile env cfg p old new)"
  unfolding EditFile_def
proof (rule onlyWrites_lift_bind)
  fix r assume "resolvePath cfg p = Inr r"
  note rooted = rooted_write_only [of fs A p cfg r, OF assms this]
  have "onlyWrites fs (targets env cfg A)
      (bindA (readTextFile root (rel r)) (\<lambda>tf. bindA (liftSum TextFailed (editText tf old new)) (\<lambda>(before, after).
       bindA (writeAtomic env root (rel r) (finalRaw tf after)) (\<lambda>_.
       retA \<lparr>er_Path = runtimePath r, er_Diff = fst (compactDiff before after),
                er_FirstChangedLine = snd (compactDiff before after)\<rparr>))))"
    if "root = env_dir env (rootLocalDir r) \<and> map_of fs root = Some DirNode" for root
    by (rule onlyWrites_bind [OF readTextFile_reads [OF assms(1)]], rule onlyWrites_lift_bind)
      (use rooted [OF that] in \<open>simp add: split_beta\<close>)
  from onlyWrites_bind [OF openRoot_reads [OF assms(1)] this]
  show "onlyWrites fs (targets env cfg A) (if old = [] then failA OldTextRequired
     else bindA (openRoot env (rootLocalDir r)) (\<lambda>root.
          bindA (readTextFile root (rel r)) (\<lambda>tf.
          bindA (liftSum TextFailed (editText tf old new)) (\<lambda>(before, after).
          bindA (writeAtomic env root (rel r) (finalRaw tf after)) (\<lambda>_.
          retA \<lparr>er_Path = runtimePath r, er_Diff = fst (compactDiff before after),
                er_FirstChangedLine = snd (compactDiff before after)\<rparr>)))))"
    by simp
qed

lemma ApplyPatch_only:
  assumes "wfFs fs" "\<And>p. cleanToolPath p \<in> set (pathsFromPatchEnvelope patch) \<Longrightarrow> A p"
  shows "onlyWrites fs (targets env cfg A) (ApplyPatch env cfg patch)"
proof (rule onlyWritesI)
  fix w r w' assume w: "w_fs w = fs" "ApplyPatch env cfg patch w = (r, w')"
  have "q \<noteq> localPath env r'" if t: "parsePatch patch = Inr ops" "op \<in> set ops" "touches cfg op r'"
    and q: "q \<notin> targets env cfg A" for ops op r' q
  proof -
    from touched_paths [OF t] obtain p where "resolvePath cfg p = Inr r'" "A p" using assms(2) by blast
    with q show ?thesis by (auto simp: targets_def)
  qed
  with ApplyPatch_others [of w env cfg patch r w'] w assms(1)
  show "(wfFs fs \<longrightarrow> wfFs (w_fs w')) \<and> (\<forall>q. q \<notin> targets env cfg A \<longrightarrow> sameButTemp (content fs) (w_fs w') q)"
    by (metis (no_types, lifting))
qed

lemma acquire_reads: "reads fs (acquireMutation ex ps) (\<lambda>_. True)"
  unfolding acquireMutation_def guardA_def
  by (auto intro!: yields_ret yields_fail yields_bind [where R = "\<lambda>_. True"] yields_liftSum split: option.splits)

lemma guardA_reads: "reads fs (guardA e) (\<lambda>_. e = None)"
  unfolding guardA_def by (auto intro!: yields_ret yields_fail split: option.splits)

lemma withExecutor_only:
  assumes "onlyWrites fs S (f ex)"
  shows "onlyWrites fs S (bindA (withExecutor (Some ex) f) (\<lambda>x. retA (g x)))"
  using assms unfolding withExecutor_def by (auto intro: onlyWrites_report onlyWrites_mapErr)

lemma normalizeToolPath_trim: "normalizeToolPath p = Inr path \<Longrightarrow> path = trimSpace p \<and> trimSpace p \<noteq> []"
  by (simp add: normalizeToolPath_def Let_def split: if_splits)

lemma runReadFile_only:
  assumes "wfFs fs"
  shows "onlyWrites fs S (runReadFile env de (Some ex) a)"
  unfolding runReadFile_def executorReadFile_def split_beta
  by (intro onlyWrites_lift_bind onlyWrites_bind [OF guardA_reads] withExecutor_only ReadFile_only assms)

lemma runWriteFile_only:
  assumes "wfFs fs" "\<And>p c. de_write de a = Inr (p, c) \<Longrightarrow> trimSpace p \<noteq> [] \<Longrightarrow> A (trimSpace p)"
  shows "onlyWrites fs (targets env (ex_cfg ex) A) (runWriteFile env de (Some ex) a)"
  unfolding runWriteFile_def executorWriteFile_def split_beta
  by (intro onlyWrites_lift_bind withExecutor_only onlyWrites_bind [OF acquire_reads] WriteFile_only assms(1))
    (use assms(2) in \<open>auto dest!: normalizeToolPath_trim\<close>)

lemma runEditFile_only:
  assumes "wfFs fs" "\<And>p x y. de_edit de a = Inr (p, x, y) \<Longrightarrow> trimSpace p \<noteq> [] \<Longrightarrow> A (trimSpace p)"
  shows "onlyWrites fs (targets env (ex_cfg ex) A) (runEditFile env de (Some ex) a)"
  unfolding runEditFile_def executorEditFile_def split_beta
  by (intro onlyWrites_lift_bind onlyWrites_bind [OF guardA_reads] withExecutor_only onlyWrites_bind [OF acquire_reads]
      EditFile_only assms(1))
    (use assms(2) in \<open>auto dest!: normalizeToolPath_trim\<close>)

lemma runApplyPatch_only:
  assumes "wfFs fs"
    "\<And>patch p. de_patch de a = Inr patch \<Longrightarrow> trimSpace patch \<noteq> [] \<Longrightarrow>
       cleanToolPath p \<in> set (pathsFromPatchEnvelope patch) \<Longrightarrow> A p"
  shows "onlyWrites fs (targets env (ex_cfg ex) A) (runApplyPatch env de (Some ex) a)"
  unfolding runApplyPatch_def executorApplyPatch_def
  by (intro onlyWrites_lift_bind onlyWrites_bind [OF guardA_reads] withExecutor_only onlyWrites_bind [OF acquire_reads]
      ApplyPatch_only assms(1))
    (use assms(2) in \<open>auto simp: errIf_def split: if_splits\<close>)

lemma checked_call_only:
  assumes "wfFs (w_fs w)" "jsonCoherent de" "CheckToolCall de pol call = None"
  shows "onlyWrites (w_fs w) (targets env (ex_cfg ex) (writable pol)) (runFileTool env de (Some ex) call)"
proof -
  let ?name = "trimSpace (tc_Name call)" and ?a = "tc_Arguments call"
  have W: "writable pol (trimSpace p)"
    if "?name = lit ''write_file'' \<or> ?name = lit ''edit_file''" "de_path de ?a = Inr p" "trimSpace p \<noteq> []" for p
    using assms(3) that pathAllowed_listed [of "trimSpace p" "pp_WritePaths pol" "pp_WriteDirs pol"]
    by (auto simp: CheckToolCall_def InspectToolCallAccess_def toolPathArgument_def writable_def Let_def)
  have P: "writable pol p" if "?name = lit ''apply_patch''" "de_patch de ?a = Inr patch" "trimSpace patch \<noteq> []"
    "cleanToolPath p \<in> set (pathsFromPatchEnvelope patch)" for patch p
    using assms(3) that pathAllowed_listed [of p "pp_WritePaths pol" "pp_WriteDirs pol"]
    by (auto simp: CheckToolCall_def InspectToolCallAccess_def applyPatchArgumentPaths_def writable_def Let_def split: if_splits)
  show ?thesis
    using runReadFile_only [OF assms(1)] runWriteFile_only [OF assms(1), of de ?a "writable pol"]
      runEditFile_only [OF assms(1), of de ?a "writable pol"] runApplyPatch_only [OF assms(1), of de ?a "writable pol"]
      W P assms(2)
    unfolding runFileTool_def jsonCoherent_def Let_def by simp
qed

text \<open>The written name itself is listed unless white space at its ends sets it apart from the checked one.\<close>

lemma targets_listed:
  "q \<in> targets env cfg (writable pol) \<longleftrightarrow>
     (\<exists>p r. resolvePath cfg p = Inr r \<and> q = localPath env r \<and>
        listedPath (pp_WritePaths pol) (pp_WriteDirs pol) (checkedName p) \<and>
        (trimSpace (writtenName p) = writtenName p \<longrightarrow>
           listedPath (pp_WritePaths pol) (pp_WriteDirs pol) (writtenName p)))"
  unfolding targets_def writable_def using checkedName_exact by fastforce

text \<open>
  C5: a file-tool call that passes the path policy changes only listed files. For every call of the
  four file tools, whatever faults occur, each file that differs afterwards is one that some name
  resolves to, where that name, cleaned and trimmed once more, is one of the policy's write paths or
  the direct child of one of its write directories: never a nested file, a sibling that shares a
  prefix, or the directory itself. A cleaned name that neither starts nor ends in white space is itself listed; for
  other names the code looks up the trimmed one. For a patch this covers every path the patch parser
  acts on, sources and move destinations alike, although the policy reads the patch with a scanner of
  its own.
\<close>

theorem checked_call_writes_only_allowed:
  assumes "wfFs (w_fs w)" "jsonCoherent de" "CheckToolCall de pol call = None"
    "runFileTool env de (Some ex) call w = (out, w')"
  shows "\<forall>q. sameButTemp (content (w_fs w)) (w_fs w') q \<or>
     (\<exists>p r. resolvePath (ex_cfg ex) p = Inr r \<and> q = localPath env r \<and>
        listedPath (pp_WritePaths pol) (pp_WriteDirs pol) (checkedName p) \<and>
        (trimSpace (writtenName p) = writtenName p \<longrightarrow>
           listedPath (pp_WritePaths pol) (pp_WriteDirs pol) (writtenName p)))"
  using checked_call_only [OF assms(1-3)] assms(4) unfolding onlyWrites_def targets_listed by blast

text \<open>Listed: the file itself and the children of a directory; not a sibling, a nested file or the directory.\<close>

lemma listedPath_samples:
  "listedPath [lit ''/memory/notes/a.md''] [] (lit ''/memory/notes/a.md'')"
  "listedPath [] [lit ''/memory/notes/''] (lit ''/memory/notes/a.md'')"
  "\<not> listedPath [] [lit ''/memory/notes''] (lit ''/memory/notes-evil/a.md'')"
  "\<not> listedPath [] [lit ''/memory/notes''] (lit ''/memory/notes/sub/a.md'')"
  "\<not> listedPath [] [lit ''/memory/notes''] (lit ''/memory/notes'')"
  by code_simp+

definition samplePolicy :: PathAccessPolicy where
  "samplePolicy = \<lparr>pp_ReadPaths = [], pp_WritePaths = [lit ''/workspace/a''], pp_ReadDirs = [], pp_WriteDirs = []\<rparr>"

text \<open>Decoders for a call whose arguments are the path itself.\<close>

definition sampleDecoders :: decoders where
  "sampleDecoders = \<lparr>de_path = Inr, de_patch = Inr, de_read = (\<lambda>a. Inr (a, 0, 0)),
     de_write = (\<lambda>a. Inr (a, Utf8 [122])), de_edit = (\<lambda>a. Inr (a, [120], [122]))\<rparr>"

definition sampleCall :: "gostr \<Rightarrow> ToolCall" where
  "sampleCall path = \<lparr>tc_ID = [], tc_Name = lit ''write_file'', tc_Arguments = path\<rparr>"

lemma sampleDecoders_coherent: "jsonCoherent sampleDecoders"
  by (simp add: jsonCoherent_def sampleDecoders_def)

theorem checked_call_writes_only_allowed_witness:
  "content (w_fs (snd (runFileTool sampleEnv sampleDecoders (Some (NewExecutor sampleRoots))
      (sampleCall (lit ''/workspace/a'')) (sampleDisk [])))) [lit ''w'', lit ''a''] = Some (Utf8 [122]) \<and>
   (\<exists>p r. resolvePath sampleRoots p = Inr r \<and> [lit ''w'', lit ''a''] = localPath sampleEnv r \<and>
      listedPath (pp_WritePaths samplePolicy) (pp_WriteDirs samplePolicy) (checkedName p))"
proof -
  let ?call = "sampleCall (lit ''/workspace/a'')" and ?q = "[lit ''w'', lit ''a'']"
  let ?run = "runFileTool sampleEnv sampleDecoders (Some (NewExecutor sampleRoots)) ?call (sampleDisk [])"
  have ok: "CheckToolCall sampleDecoders samplePolicy ?call = None" by code_simp
  have new: "content (w_fs (snd ?run)) ?q = Some (Utf8 [122])" by code_simp
  have old: "content (w_fs (sampleDisk [])) ?q = Some (Utf8 [120, 10, 121, 10])" by code_simp
  have cfg: "ex_cfg (NewExecutor sampleRoots) = sampleRoots" by (simp add: NewExecutor_def)
  have "?run = (fst ?run, snd ?run)" by simp
  from checked_call_writes_only_allowed [OF sampleDisk_wf sampleDecoders_coherent ok this, THEN spec [of _ ?q]] new old
  show ?thesis by (auto simp: sameButTemp_def cfg)
qed

text \<open>
  The check trims a cleaned name again, so the name it looks up is not always the one the tool
  uses: with only \<open>/workspace/a\<close> listed, a call on \<open>/workspace/a /.\<close> passes and creates the file \<open>a \<close>,
  whose name ends in a space.
\<close>

lemma trimmed_name_is_not_the_written_one:
  "CheckToolCall sampleDecoders samplePolicy (sampleCall (lit ''/workspace/a /.'')) = None \<and>
   content (w_fs (sampleDisk [])) [lit ''w'', lit ''a ''] = None \<and>
   content (w_fs (snd (runFileTool sampleEnv sampleDecoders (Some (NewExecutor sampleRoots))
      (sampleCall (lit ''/workspace/a /.'')) (sampleDisk [])))) [lit ''w'', lit ''a ''] = Some (Utf8 [122])"
proof -
  have "CheckToolCall sampleDecoders samplePolicy (sampleCall (lit ''/workspace/a /.'')) = None" by code_simp
  moreover have "content (w_fs (sampleDisk [])) [lit ''w'', lit ''a ''] = None" by code_simp
  moreover have "content (w_fs (snd (runFileTool sampleEnv sampleDecoders (Some (NewExecutor sampleRoots))
      (sampleCall (lit ''/workspace/a /.'')) (sampleDisk [])))) [lit ''w'', lit ''a ''] = Some (Utf8 [122])" by code_simp
  ultimately show ?thesis by simp
qed

end
