(* ===== verification/Agent_Files.thy ===== *)
theory Agent_Files
  imports Agent_Trace File_Tools
begin

text \<open>
  The engine with the file tools (\<open>systems/agent/internal/app/tools.go\<close>): the interface of a predicate
  that models and tools keep, and its instance for runs whose tool calls are checked by a path
  policy.  The world is a pair: what the model client, the planner and the fitter act on, and the
  disk.  The registry holds the four file tools first, as \<open>buildToolList\<close> lists them, and then any
  other tools, on the whole world: the application registers \<open>exec\<close> and more, which may change the
  disk in any way.  What keeps a run from them is the request's allow-list.  No caller in the
  repository puts a \<open>PathAccessPolicy\<close> on a request; the engine and the package \<open>files\<close> provide for it.
\<close>

section \<open>What a run keeps\<close>

locale engine_frame =
  fixes eg :: "'w Engine" and req :: "'w EngineRequest" and I :: "'w \<Rightarrow> bool"
  assumes models_keep: "modelsKeep eg req I"
    and tools_keep: "toolsKeep eg req I"
begin

lemma run_keeps: "EngineRun co eg req budget w = (out, rn) \<Longrightarrow> I w \<Longrightarrow> I (rn_world rn)"
  by (rule EngineRun_keeps [OF models_keep tools_keep])

end

section \<open>The engine over a disk\<close>

definition overDisk :: "(tool_error \<Rightarrow> gostr) \<Rightarrow> (gostr \<Rightarrow> toolAct) \<Rightarrow> ('m \<times> rawData world) toolRun" where
  "overDisk errText run =
     PlainTool (\<lambda>a w. let (r, disk) = run a (snd w) in (map_sum errText (\<lambda>s. s) r, (fst w, disk)))"

definition fileTools :: "(tool_error \<Rightarrow> gostr) \<Rightarrow> osEnv \<Rightarrow> decoders \<Rightarrow> Executor option \<Rightarrow> ('m \<times> rawData world) Tool list" where
  "fileTools errText env de fileExec =
     [\<lparr>tl_Definition = ReadFileDefinition, tl_Run = overDisk errText (runReadFile env de fileExec)\<rparr>,
      \<lparr>tl_Definition = WriteFileDefinition, tl_Run = overDisk errText (runWriteFile env de fileExec)\<rparr>,
      \<lparr>tl_Definition = EditFileDefinition, tl_Run = overDisk errText (runEditFile env de fileExec)\<rparr>,
      \<lparr>tl_Definition = ApplyPatchDefinition, tl_Run = overDisk errText (runApplyPatch env de fileExec)\<rparr>]"

definition fileRegistry ::
  "(tool_error \<Rightarrow> gostr) \<Rightarrow> osEnv \<Rightarrow> decoders \<Rightarrow> Executor option \<Rightarrow> ('m \<times> rawData world) Tool list \<Rightarrow>
   registry_error + ('m \<times> rawData world) Registry"
where
  "fileRegistry errText env de fileExec others = NewToolRegistry (map Some (fileTools errText env de fileExec @ others))"

definition fileEngine ::
  "(tool_error \<Rightarrow> gostr) \<Rightarrow> osEnv \<Rightarrow> decoders \<Rightarrow> Executor \<Rightarrow> ('m \<times> rawData world) Tool list \<Rightarrow>
   ('m \<times> rawData world) Engine \<Rightarrow> ('m \<times> rawData world) Engine"
where
  "fileEngine errText env de ex others base =
     base\<lparr>eg_tools := (case fileRegistry errText env de (Some ex) others of Inl e \<Rightarrow> None | Inr r \<Rightarrow> Some (BaseRegistry r))\<rparr>"

text \<open>A request whose calls are checked by a path policy.\<close>

definition fileRequest ::
  "(tool_error \<Rightarrow> gostr) \<Rightarrow> decoders \<Rightarrow> PathAccessPolicy \<Rightarrow> 'w EngineRequest \<Rightarrow> 'w EngineRequest"
where
  "fileRequest errText de pol req =
     req\<lparr>er_ToolCallPolicy := Some (\<lambda>call. map_option errText (CheckToolCall de pol call))\<rparr>"

section \<open>What is assumed of the rest\<close>

text \<open>The model client, the planner and the fitter do not write to the disk.\<close>

definition leaveDisk :: "('m \<times> rawData world) Engine \<Rightarrow> ('m \<times> rawData world) EngineRequest \<Rightarrow> bool" where
  "leaveDisk eg req \<longleftrightarrow> (\<forall>d. modelsKeep eg req (\<lambda>w. snd w = d))"

text \<open>The tools a request offers: all of them, or those on its allow-list.\<close>

definition offered :: "'w EngineRequest \<Rightarrow> 'w Tool \<Rightarrow> bool" where
  "offered req t \<longleftrightarrow>
     (let allowed = normalizeAllowedTools (er_AllowedTools req)
      in allowed = [] \<or> trimSpace (td_Name (tl_Definition t)) \<in> set allowed)"

definition diskSafe :: "('m \<times> rawData world) Tool \<Rightarrow> bool" where
  "diskSafe t \<longleftrightarrow>
     (case tl_Run t of
        PlainTool f \<Rightarrow> (\<forall>a w. snd (snd (f a w)) = snd w)
      | StructuredTool f \<Rightarrow> (\<forall>a w. snd (snd (f a w)) = snd w))"

definition confined :: "osEnv \<Rightarrow> decoders \<Rightarrow> Executor \<Rightarrow> PathAccessPolicy \<Rightarrow> rawData world \<Rightarrow> 'm \<times> rawData world \<Rightarrow> bool" where
  "confined env de ex pol disk w \<longleftrightarrow>
     (jsonCoherent de \<longrightarrow> wfFs (w_fs disk) \<longrightarrow>
        wfFs (w_fs (snd w)) \<and>
        (\<forall>q. q \<notin> targets env (ex_cfg ex) (writable pol) \<longrightarrow> sameButTemp (content (w_fs disk)) (w_fs (snd w)) q))"

lemma confined_same: "snd w' = snd w \<Longrightarrow> confined env de ex pol disk w \<Longrightarrow> confined env de ex pol disk w'"
  by (simp add: confined_def)

section \<open>The tool a name is bound to\<close>

lemma registerTools_entries:
  "registerTools i (map Some tools) reg = Inr reg' \<Longrightarrow>
     rg_toolsByName reg' = rg_toolsByName reg @ map (\<lambda>t. (trimSpace (td_Name (tl_Definition t)), t)) tools"
  by (induction tools arbitrary: i reg) (auto simp: Let_def split: if_splits)

lemma registry_entries:
  "NewToolRegistry (map Some tools) = Inr reg \<Longrightarrow>
     rg_toolsByName reg = map (\<lambda>t. (trimSpace (td_Name (tl_Definition t)), t)) tools"
  using registerTools_entries unfolding NewToolRegistry_def by fastforce

lemma tool_names [simp]:
  "trimSpace (td_Name ReadFileDefinition) = lit ''read_file''" "trimSpace (td_Name WriteFileDefinition) = lit ''write_file''"
  "trimSpace (td_Name EditFileDefinition) = lit ''edit_file''" "trimSpace (td_Name ApplyPatchDefinition) = lit ''apply_patch''"
  by code_simp+

lemma tool_names_distinct [simp]:
  "lit ''write_file'' \<noteq> lit ''read_file''" "lit ''edit_file'' \<noteq> lit ''read_file''" "lit ''edit_file'' \<noteq> lit ''write_file''"
  "lit ''apply_patch'' \<noteq> lit ''read_file''" "lit ''apply_patch'' \<noteq> lit ''write_file''" "lit ''apply_patch'' \<noteq> lit ''edit_file''"
  by code_simp+

text \<open>A name is bound to the file tool it names, or to one of the other tools, of that name.\<close>

lemma fileRegistry_tool:
  assumes "fileRegistry errText env de (Some ex) others = Inr reg" "map_of (rg_toolsByName reg) name = Some tool"
  shows "tool \<in> set (fileTools errText env de (Some ex)) \<and> name = trimSpace (td_Name (tl_Definition tool)) \<or>
    tool \<in> set others \<and> name = trimSpace (td_Name (tl_Definition tool))"
  using map_of_SomeD [OF assms(2)] registry_entries [OF assms(1) [unfolded fileRegistry_def]] by auto

lemma fileTool_run:
  assumes "tool \<in> set (fileTools errText env de (Some ex))" "trimSpace (tc_Name call) = trimSpace (td_Name (tl_Definition tool))"
    "map_of (rg_toolsByName reg) (trimSpace (tc_Name call)) = Some tool" "RunTool (BaseRegistry reg) call w = (r, w')"
  shows "snd w' = snd w \<or> (\<exists>out. runFileTool env de (Some ex) call (snd w) = (out, snd w'))"
  using assms
  by (auto simp: fileTools_def overDisk_def runFileTool_def Let_def split: if_splits prod.splits sum.splits)

lemma diskSafe_run:
  assumes "diskSafe tool" "map_of (rg_toolsByName reg) (trimSpace (tc_Name call)) = Some tool"
    "RunTool (BaseRegistry reg) call w = (r, w')"
  shows "snd w' = snd w"
proof (cases "tl_Run tool")
  case (PlainTool f)
  with assms(1) have "snd (snd (f (tc_Arguments call) w)) = snd w" by (simp add: diskSafe_def del: split_paired_All)
  with assms(2,3) PlainTool show ?thesis by (auto simp: Let_def split: if_splits prod.splits sum.splits)
next
  case (StructuredTool f)
  with assms(1) have "snd (snd (f (tc_Arguments call) w)) = snd w" by (simp add: diskSafe_def del: split_paired_All)
  with assms(2,3) StructuredTool show ?thesis by (auto simp: Let_def split: if_splits)
qed

lemma filterRegistry_run:
  assumes "RunTool (filterRegistry base allowed) call w = (r, w')" "w' \<noteq> w"
  shows "RunTool base call w = (r, w') \<and>
    (normalizeAllowedTools allowed = [] \<or> trimSpace (tc_Name call) \<in> set (normalizeAllowedTools allowed))"
  using assms by (auto simp: filterRegistry_def FilterToolRegistry_def Let_def split: if_splits)

text \<open>Whatever a call does to the disk is what the file tool it names does, if the other tools on offer are safe.\<close>

lemma offered_run:
  assumes reg: "fileRegistry errText env de (Some ex) others = Inr reg"
    and safe: "\<And>t. t \<in> set others \<Longrightarrow> offered req t \<Longrightarrow> diskSafe t"
    and run: "RunTool (filterRegistry (BaseRegistry reg) (er_AllowedTools req)) call w = (r, w')"
  shows "snd w' = snd w \<or> (\<exists>out. runFileTool env de (Some ex) call (snd w) = (out, snd w'))"
proof (cases "w' = w")
  case False
  from filterRegistry_run [OF run False] have base: "RunTool (BaseRegistry reg) call w = (r, w')"
    and on: "normalizeAllowedTools (er_AllowedTools req) = [] \<or> trimSpace (tc_Name call) \<in> set (normalizeAllowedTools (er_AllowedTools req))"
    by blast+
  from base False obtain tool where tool: "map_of (rg_toolsByName reg) (trimSpace (tc_Name call)) = Some tool"
    by (auto simp: Let_def split: if_splits option.splits)
  from fileRegistry_tool [OF reg tool] consider
    "tool \<in> set (fileTools errText env de (Some ex))" "trimSpace (tc_Name call) = trimSpace (td_Name (tl_Definition tool))" |
    "tool \<in> set others" "trimSpace (tc_Name call) = trimSpace (td_Name (tl_Definition tool))" by blast
  then show ?thesis
  proof cases
    case 1
    then show ?thesis using fileTool_run [OF _ _ tool base] by blast
  next
    case 2
    then have "offered req tool" using on by (simp add: offered_def Let_def)
    from diskSafe_run [OF safe [OF 2(1) this] tool base] show ?thesis by simp
  qed
qed simp

section \<open>A run whose calls are checked\<close>

lemma leaveDiskD:
  assumes "leaveDisk eg req"
  shows "eg_complete eg ref ms tools w = (x, w') \<Longrightarrow> snd w' = snd w" "eg_plan eg refs rq w = (y, w') \<Longrightarrow> snd w' = snd w"
    "er_ContextFitter req = Some fit \<Longrightarrow> fit mc ms tools gs tail w = (z, w') \<Longrightarrow> snd w' = snd w"
  using modelsKeepD [OF assms [unfolded leaveDisk_def, rule_format, of "snd w"] refl] by blast+

lemma leaveDisk_models:
  assumes "leaveDisk base req"
  shows "modelsKeep (fileEngine errText env de ex others base) (fileRequest errText de pol req) (confined env de ex pol disk)"
  unfolding modelsKeep_def fileEngine_def fileRequest_def
  by (simp del: split_paired_All) (blast dest: leaveDiskD [OF assms] intro: confined_same)

lemma confined_call:
  assumes "confined env de ex pol disk w" "CheckToolCall de pol call = None"
    "runFileTool env de (Some ex) call (snd w) = (out, snd w')"
  shows "confined env de ex pol disk w'"
proof -
  let ?S = "targets env (ex_cfg ex) (writable pol)"
  have "wfFs (w_fs (snd w')) \<and> (\<forall>q. q \<notin> ?S \<longrightarrow> sameButTemp (content (w_fs disk)) (w_fs (snd w')) q)"
    if "jsonCoherent de" "wfFs (w_fs disk)"
  proof -
    from assms(1) that have w: "wfFs (w_fs (snd w))" "\<forall>q. q \<notin> ?S \<longrightarrow> sameButTemp (content (w_fs disk)) (w_fs (snd w)) q"
      by (auto simp: confined_def)
    from checked_call_only [OF w(1) that(1) assms(2), of env ex] assms(3)
    have "wfFs (w_fs (snd w'))" "\<forall>q. q \<notin> ?S \<longrightarrow> sameButTemp (content (w_fs (snd w))) (w_fs (snd w')) q"
      using w(1) unfolding onlyWrites_def by blast+
    with w(2) show ?thesis by (blast intro: sameButTemp_trans)
  qed
  then show ?thesis by (simp add: confined_def)
qed

lemma offered_tools:
  assumes "\<And>t. t \<in> set others \<Longrightarrow> offered req t \<Longrightarrow> diskSafe t"
  shows "toolsKeep (fileEngine errText env de ex others base) (fileRequest errText de pol req) (confined env de ex pol disk)"
proof -
  have "confined env de ex pol disk w'"
    if t: "requestTools (fileEngine errText env de ex others base) (fileRequest errText de pol req) = Some reg"
      and ok: "callOK (fileRequest errText de pol req) call" and w: "confined env de ex pol disk w"
      and run: "RunTool reg call w = (r, w')" for reg call w r w'
  proof -
    from t obtain base_reg where b: "fileRegistry errText env de (Some ex) others = Inr base_reg"
      "reg = filterRegistry (BaseRegistry base_reg) (er_AllowedTools req)"
      by (auto simp: requestTools_def fileEngine_def fileRequest_def split: sum.splits option.splits if_splits)
    from offered_run [OF b(1) assms run [unfolded b(2)]]
    have "snd w' = snd w \<or> (\<exists>out. runFileTool env de (Some ex) call (snd w) = (out, snd w'))" .
    moreover have "CheckToolCall de pol call = None" using ok by (auto simp: callOK_def fileRequest_def)
    ultimately show ?thesis using w confined_call confined_same by blast
  qed
  then show ?thesis unfolding toolsKeep_def by blast
qed

lemma toolsKeep_True: "toolsKeep eg req (\<lambda>_. True)"
  by (simp add: toolsKeep_def)

text \<open>The other tools on offer and the rest of the engine leave the disk alone.\<close>

definition restSafe :: "('m \<times> rawData world) Engine \<Rightarrow> ('m \<times> rawData world) EngineRequest \<Rightarrow> ('m \<times> rawData world) Tool list \<Rightarrow> bool" where
  "restSafe base req others \<longleftrightarrow> leaveDisk base req \<and> (\<forall>t \<in> set others. offered req t \<longrightarrow> diskSafe t)"

interpretation file_run: engine_frame
  "fileEngine errText env de ex others base" "fileRequest errText de pol req"
  "\<lambda>w. restSafe base req others \<longrightarrow> confined env de ex pol disk w"
proof -
  show "engine_frame (fileEngine errText env de ex others base) (fileRequest errText de pol req)
    (\<lambda>w. restSafe base req others \<longrightarrow> confined env de ex pol disk w)"
  proof (cases "restSafe base req others")
    case True
    then have keep: "(\<lambda>w. restSafe base req others \<longrightarrow> confined env de ex pol disk w) = confined env de ex pol disk" by simp
    show ?thesis unfolding keep
      using True by unfold_locales (simp_all add: restSafe_def leaveDisk_models offered_tools)
  qed (unfold_locales, simp_all add: modelsKeep_True toolsKeep_True)
qed

text \<open>
  C6: a whole run of the engine whose file-tool calls are checked by a path policy writes only listed
  files.  Whatever calls the model makes, in whatever order, with whatever faults of the disk: a file
  that differs after the run is one that some name resolves to, where that name, cleaned and trimmed
  once more, is one of the policy's write paths or the direct child of one of its write directories.
  The registry may hold any other tools, such as \<open>exec\<close>; the property needs that those the request's
  allow-list leaves on offer, and the model client, the planner and the fitter, do not write to the
  disk.  A call of a tool that is not on the list changes nothing, and no other tool can take the
  name of a file tool.
\<close>

theorem agent_run_confined:
  assumes "wfFs (w_fs disk)" "jsonCoherent de" "leaveDisk base req" "\<forall>t \<in> set others. offered req t \<longrightarrow> diskSafe t"
    "EngineRun co (fileEngine errText env de ex others base) (fileRequest errText de pol req) budget (m, disk) = (out, rn)"
  shows "\<forall>q. sameButTemp (content (w_fs disk)) (w_fs (snd (rn_world rn))) q \<or>
     (\<exists>p r. resolvePath (ex_cfg ex) p = Inr r \<and> q = localPath env r \<and>
        listedPath (pp_WritePaths pol) (pp_WriteDirs pol) (checkedName p) \<and>
        (trimSpace (writtenName p) = writtenName p \<longrightarrow>
           listedPath (pp_WritePaths pol) (pp_WriteDirs pol) (writtenName p)))"
proof -
  have "confined env de ex pol disk (m, disk)" by (simp add: confined_def)
  moreover have "restSafe base req others" using assms(3,4) by (simp add: restSafe_def)
  ultimately show ?thesis
    using file_run.run_keeps [OF assms(5)] assms(1,2) unfolding confined_def targets_listed by blast
qed

text \<open>
  A model that calls \<open>exec\<close>, which would empty the disk, and then writes the one listed file; the
  request allows \<open>write_file\<close> alone.
\<close>

definition writerModel ::
  "gostr \<Rightarrow> Message list \<Rightarrow> ToolDefinition list \<Rightarrow> 'w \<Rightarrow> (delta list \<times> (gostr + ModelClientResult)) \<times> 'w" where
  "writerModel ref ms tools w =
     (([], Inr (if tools = [] then sampleAnswer (lit ''stop'') [AssistantMessage [TextPart (lit ''done'') []]]
                else sampleAnswer (lit ''tool_calls'')
                  [AssistantMessage [ToolCallPart (lit ''c'') (lit ''exec'') [],
                                     ToolCallPart (lit ''d'') (lit ''write_file'') (lit ''/workspace/a'')]])), w)"

definition execTool :: "('m \<times> rawData world) Tool" where
  "execTool = \<lparr>tl_Definition = ReadFileDefinition\<lparr>td_Name := lit ''exec''\<rparr>,
     tl_Run = PlainTool (\<lambda>a w. (Inr [], (fst w, (snd w)\<lparr>w_fs := []\<rparr>)))\<rparr>"

definition writerBase :: "(nat \<times> rawData world) Engine" where
  "writerBase = \<lparr>eg_complete = writerModel, eg_kind = PlainClient,
     eg_contextForModel = (\<lambda>ref. \<lparr>mc_Ref = ref, mc_MaxContextTokens = 0, mc_MaxOutputTokens = 0\<rparr>),
     eg_plan = (\<lambda>refs rq w. (Inr (PassthroughPlan refs), w)), eg_tools = None,
     eg_modelRefSource = (\<lambda>w. [lit ''m'']), eg_ctxErr = (\<lambda>w. None), eg_maxTurns = defaultMaxTurns\<rparr>"

definition writerRequest :: "gostr list \<Rightarrow> (nat \<times> rawData world) EngineRequest" where
  "writerRequest allowed =
     \<lparr>er_Messages = [UserMessage (lit ''hello'')], er_UseTools = True, er_AllowedTools = allowed,
      er_ToolCallPolicy = None, er_RequireToolCalling = False, er_SystemTextSource = None, er_Observer = False,
      er_MaxFailedModelAttempts = 0, er_ContextFitter = None\<rparr>"

definition writerRun :: "gostr list \<Rightarrow> (EngineResult \<times> engine_error option) \<times> (nat \<times> rawData world) run" where
  "writerRun allowed =
     EngineRun sampleCodecs (fileEngine (\<lambda>e. []) sampleEnv sampleDecoders (NewExecutor sampleRoots) [execTool] writerBase)
       (fileRequest (\<lambda>e. []) sampleDecoders samplePolicy (writerRequest allowed)) (Some (NewTurnBudget 2)) (0, sampleDisk [])"

lemma writerRun_writes:
  "content (w_fs (snd (rn_world (snd (writerRun [lit ''write_file'']))))) [lit ''w'', lit ''a''] = Some (Utf8 [122])"
  by code_simp

text \<open>Without the allow-list the same model empties the disk: the policy does not look at \<open>exec\<close>.\<close>

lemma unlisted_exec_runs:
  "w_fs (snd (rn_world (snd (writerRun [lit ''exec''])))) = []"
  by code_simp

lemma writer_leaves: "leaveDisk writerBase (writerRequest allowed)"
  by (simp add: leaveDisk_def modelsKeep_def writerBase_def writerModel_def writerRequest_def)

theorem agent_run_confined_witness:
  "\<exists>out rn. writerRun [lit ''write_file''] = (out, rn) \<and>
     content (w_fs (snd (rn_world rn))) [lit ''w'', lit ''a''] = Some (Utf8 [122]) \<and>
     (\<exists>p r. resolvePath sampleRoots p = Inr r \<and> [lit ''w'', lit ''a''] = localPath sampleEnv r \<and>
        listedPath (pp_WritePaths samplePolicy) (pp_WriteDirs samplePolicy) (checkedName p))"
proof -
  obtain out rn where run: "writerRun [lit ''write_file''] = (out, rn)"
    by fastforce
  with writerRun_writes have new: "content (w_fs (snd (rn_world rn))) [lit ''w'', lit ''a''] = Some (Utf8 [122])" by simp
  have old: "content (w_fs (sampleDisk [])) [lit ''w'', lit ''a''] = Some (Utf8 [120, 10, 121, 10])" by code_simp
  have cfg: "ex_cfg (NewExecutor sampleRoots) = sampleRoots" by (simp add: NewExecutor_def)
  have "\<not> offered (writerRequest [lit ''write_file'']) execTool" by code_simp
  then have "\<forall>t \<in> set [execTool]. offered (writerRequest [lit ''write_file'']) t \<longrightarrow> diskSafe t" by simp
  from agent_run_confined [OF sampleDisk_wf sampleDecoders_coherent writer_leaves this run [unfolded writerRun_def],
      THEN spec [of _ "[lit ''w'', lit ''a'']"]] new old run
  show ?thesis by (auto simp: sameButTemp_def cfg)
qed

end
