(* ===== verification/Agent_Loop.thy ===== *)
theory Agent_Loop
  imports Agent_Trace Agent_Prompt
begin

text \<open>
  The loop around the engine (\<open>systems/agent/internal/agent\<close>: \<open>loop.go\<close>, \<open>context.go\<close>, \<open>loop_messages.go\<close>,
  \<open>store.go\<close>): one reply to a user, from the check of the message to the turn that is persisted.  The
  conversation store is a record of functions on the world; an optional interface it may implement is
  an option.  The loop's mutex makes a reply one step.
\<close>

section \<open>The store and the prompt context\<close>

record CoreMemoryFile =
  cm_RelativePath :: gostr
  cm_Description :: gostr
  cm_Limit :: int
  cm_Content :: gostr

record SkillCatalogEntry =
  sc_Name :: gostr
  sc_Description :: gostr
  sc_Source :: gostr
  sc_SkillPath :: gostr
  sc_SkillFilePath :: gostr
  sc_Tools :: "gostr list"

record SkillCatalog =
  sc_Entries :: "SkillCatalogEntry list"
  sc_Warnings :: "gostr list"

record 'w PreparedContext =
  pc_Messages :: "Message list"
  pc_FitRequest :: "'w fitter option"

record 'w ConversationStore =
  cs_LoadRecentMessages :: "int \<Rightarrow> 'w \<Rightarrow> (gostr + Message list) \<times> 'w"
  cs_LoadLastUserTimestamp :: "'w \<Rightarrow> (gostr + time option) \<times> 'w"
  cs_ReserveTurnSeq :: "'w \<Rightarrow> (gostr + int) \<times> 'w"
  cs_AppendTurnAtSeq :: "int \<Rightarrow> Message list \<Rightarrow> 'w \<Rightarrow> gostr option \<times> 'w"
  cs_LoadCoreMemory :: "('w \<Rightarrow> (gostr + CoreMemoryFile list) \<times> 'w) option"
  cs_LoadSkillCatalog :: "('w \<Rightarrow> (gostr + SkillCatalog) \<times> 'w) option"
  cs_PrepareContext :: "(Message list \<Rightarrow> Message list \<Rightarrow> 'w \<Rightarrow> (gostr + 'w PreparedContext) \<times> 'w) option"

record 'w ContextBuilder =
  cb_store :: "'w ConversationStore option"
  cb_systemText :: gostr
  cb_systemTextSources :: "('w \<Rightarrow> gostr) option list"
  cb_recentTurns :: int

definition defaultRecentTurns :: int where "defaultRecentTurns = 6"

definition NewContextBuilder ::
  "gostr \<Rightarrow> 'w ConversationStore option \<Rightarrow> int \<Rightarrow> ('w \<Rightarrow> gostr) option list \<Rightarrow> 'w ContextBuilder"
where
  "NewContextBuilder systemText store recentTurns sources =
     \<lparr>cb_store = store, cb_systemText = (if trimSpace systemText = [] then DefaultSystemPrompt else trimSpace systemText),
      cb_systemTextSources = sources, cb_recentTurns = (if recentTurns = 0 then defaultRecentTurns else recentTurns)\<rparr>"

definition SystemText :: "'w ContextBuilder \<Rightarrow> 'w \<Rightarrow> gostr" where
  "SystemText b w =
     joinStr [10, 10] (cb_systemText b #
       filter (\<lambda>s. s \<noteq> []) (map (\<lambda>source. case source of None \<Rightarrow> [] | Some f \<Rightarrow> trimSpace (f w)) (cb_systemTextSources b)))"

definition coreFile :: "CoreMemoryFile \<Rightarrow> gostr" where
  "coreFile f =
     (let p = trimSpace (cm_RelativePath f); desc = trimSpace (cm_Description f)
      in if p = [] then []
         else RenderPromptElement (lit ''core_file'')
                ([(lit ''path'', p)] @ (if desc \<noteq> [] then [(lit ''description'', desc)] else []) @
                 (if 0 < cm_Limit f then [(lit ''limit'', itoa (nat (cm_Limit f)))] else [])) (cm_Content f))"

definition injectCoreMemory :: "CoreMemoryFile list \<Rightarrow> Message option" where
  "injectCoreMemory files =
     (let rendered = filter (\<lambda>s. s \<noteq> []) (map coreFile files)
      in if rendered = [] then None
         else Some (SystemMessage (RenderPromptElement (lit ''core_memory'') [] (joinStr [10, 10] rendered))))"

definition skillEntry :: "SkillCatalogEntry \<Rightarrow> gostr" where
  "skillEntry e =
     (let name = trimSpace (sc_Name e); source = trimSpace (sc_Source e); p = trimSpace (sc_SkillFilePath e);
          body = trimSpace (sc_Description e)
      in if name = [] then []
         else RenderPromptElement (lit ''skill'')
                ([(lit ''name'', name)] @ (if source \<noteq> [] then [(lit ''source'', source)] else []) @
                 (if p \<noteq> [] then [(lit ''path'', p)] else []) @
                 (if sc_Tools e \<noteq> [] then [(lit ''tools'', joinStr (lit '','') (sc_Tools e))] else []))
                (if body = [] then lit ''Available on demand.'' else body))"

definition injectSkillCatalog :: "SkillCatalog \<Rightarrow> Message option" where
  "injectSkillCatalog catalog =
     (let parts = filter (\<lambda>s. s \<noteq> []) (map skillEntry (sc_Entries catalog)) @
                  map (RenderPromptElement (lit ''warning'') []) (filter (\<lambda>s. s \<noteq> []) (map trimSpace (sc_Warnings catalog)))
      in if parts = [] then None
         else Some (SystemMessage (RenderPromptElement (lit ''skill_catalog'') [] (joinStr [10, 10] parts))))"

datatype reply_error =
    BadRole | UnsupportedPart gostr | EmptyInput
  | ReserveFailed gostr | TimestampFailed gostr | CoreMemoryFailed gostr | SkillCatalogFailed gostr
  | RecentFailed gostr | PrepareFailed gostr | EngineFailed engine_error | PersistFailed gostr
  | PersistInterruptedFailed gostr

text \<open>An optional part of the system prefix.\<close>

definition injected ::
  "('w \<Rightarrow> (gostr + 'a) \<times> 'w) option \<Rightarrow> (gostr \<Rightarrow> reply_error) \<Rightarrow> ('a \<Rightarrow> Message option) \<Rightarrow> 'w \<Rightarrow> (reply_error + Message list) \<times> 'w"
where
  "injected load failed inject w =
     (case load of
        None \<Rightarrow> (Inr [], w)
      | Some f \<Rightarrow>
          (case f w of
             (Inl e, w') \<Rightarrow> (Inl (failed e), w')
           | (Inr x, w') \<Rightarrow> (Inr (case inject x of None \<Rightarrow> [] | Some m \<Rightarrow> [m]), w')))"

definition Prepare :: "'w ContextBuilder \<Rightarrow> Message list \<Rightarrow> 'w \<Rightarrow> (reply_error + 'w PreparedContext) \<times> 'w" where
  "Prepare b input w =
     (let sys = [SystemMessage (SystemText b w)]
      in case cb_store b of
           None \<Rightarrow> (Inr \<lparr>pc_Messages = CloneMessages sys @ CloneMessages input, pc_FitRequest = None\<rparr>, w)
         | Some s \<Rightarrow>
             (case injected (cs_LoadCoreMemory s) CoreMemoryFailed injectCoreMemory w of
                (Inl e, w1) \<Rightarrow> (Inl e, w1)
              | (Inr core, w1) \<Rightarrow>
                  (case injected (cs_LoadSkillCatalog s) SkillCatalogFailed injectSkillCatalog w1 of
                     (Inl e, w2) \<Rightarrow> (Inl e, w2)
                   | (Inr skills, w2) \<Rightarrow>
                       (let prefix = sys @ core @ skills
                        in case cs_PrepareContext s of
                             Some f \<Rightarrow>
                               (case f prefix input w2 of (Inl e, w3) \<Rightarrow> (Inl (PrepareFailed e), w3) | (Inr p, w3) \<Rightarrow> (Inr p, w3))
                           | None \<Rightarrow>
                               (case cs_LoadRecentMessages s (cb_recentTurns b) w2 of
                                  (Inl e, w3) \<Rightarrow> (Inl (RecentFailed e), w3)
                                | (Inr recent, w3) \<Rightarrow>
                                    (Inr \<lparr>pc_Messages = CloneMessages prefix @ CloneMessages recent @ CloneMessages input,
                                          pc_FitRequest = None\<rparr>, w3))))))"

section \<open>The user's message\<close>

definition normalizeUserMessage :: "Message \<Rightarrow> reply_error + Message" where
  "normalizeUserMessage msg0 =
     (let msg = NormalizeMessage msg0
      in if mg_Role msg \<noteq> UserRole then Inl BadRole
         else case find (\<lambda>p. pt_Type p \<noteq> TextPartType \<and> pt_Type p \<noteq> MediaPartType) (mg_Parts msg) of
                Some p \<Rightarrow> Inl (UnsupportedPart (pt_Type p))
              | None \<Rightarrow> if mg_Parts msg = [] then Inl EmptyInput else Inr msg)"

text \<open>\<open>time.Sub\<close> saturates at the bounds of a 64-bit duration.\<close>

definition subTimes :: "time \<Rightarrow> time \<Rightarrow> duration" where
  "subTimes t u = max (- (2 ^ 63)) (min (2 ^ 63 - 1) (t - u))"

definition withUserTemporalMetadata :: "Message \<Rightarrow> localTime \<Rightarrow> time option \<Rightarrow> Message" where
  "withUserTemporalMetadata msg0 now lastUserTimestamp =
     (let msg = NormalizeMessage msg0;
          timestamp = (case UserMessageTimeLocal msg of Some stored \<Rightarrow> stored | None \<Rightarrow> now)
      in if mg_Role msg \<noteq> UserRole then msg
         else NormalizeMessage
                (msg\<lparr>mg_UserTemporal := Some \<lparr>ut_TimeLocal = timestamp,
                   ut_SincePrevUserMessage = map_option (\<lambda>previous. max 0 (subTimes (lt_instant timestamp) previous)) lastUserTimestamp\<rparr>\<rparr>))"

section \<open>A reply\<close>

text \<open>What a reply does: events with the sequence stamped on them, the engine's actions, the turns it appends.\<close>

datatype loop_action = Emitted int RunEvent | Acted action | Appended int "Message list" "gostr option"

record 'w Loop =
  lo_engine :: "'w Engine"
  lo_store :: "'w ConversationStore option"
  lo_contextBuilder :: "'w ContextBuilder"

record 'w replyRun =
  rr_world :: 'w
  rr_trace :: "loop_action list"

definition NewLoop ::
  "'w Engine \<Rightarrow> gostr \<Rightarrow> 'w ConversationStore option \<Rightarrow> int \<Rightarrow> ('w \<Rightarrow> gostr) option list \<Rightarrow> 'w Loop"
where
  "NewLoop engine systemText store recentTurns sources =
     \<lparr>lo_engine = engine, lo_store = store,
      lo_contextBuilder = NewContextBuilder systemText store recentTurns sources\<rparr>"

definition say :: "bool \<Rightarrow> int \<Rightarrow> RunEvent \<Rightarrow> 'w replyRun \<Rightarrow> 'w replyRun" where
  "say observer seq event rr = (if observer then rr\<lparr>rr_trace := rr_trace rr @ [Emitted seq event]\<rparr> else rr)"

text \<open>The observer of the engine stamps the sequence on every event.\<close>

definition stampRunSeq :: "int \<Rightarrow> action \<Rightarrow> loop_action" where
  "stampRunSeq seq a = (case a of Observed e \<Rightarrow> Emitted seq e | _ \<Rightarrow> Acted a)"

definition failedEvent :: "gostr \<Rightarrow> RunEvent" where
  "failedEvent e = (eventOf RunEventRunFailed)\<lparr>ev_Err := Some e\<rparr>"

definition resultEvent :: "RunEventType \<Rightarrow> EngineResult \<Rightarrow> gostr option \<Rightarrow> RunEvent" where
  "resultEvent t r e =
     (eventOf t)\<lparr>ev_Turn := rs_Turn r, ev_ModelRef := rs_ModelRef r, ev_FinalText := rs_FinalText r, ev_Err := e\<rparr>"

definition persistTurn :: "'w Loop \<Rightarrow> int \<Rightarrow> Message list \<Rightarrow> 'w replyRun \<Rightarrow> gostr option \<times> 'w replyRun" where
  "persistTurn lo seq ms rr =
     (case lo_store lo of
        None \<Rightarrow> (None, rr)
      | Some s \<Rightarrow>
          (let (e, w) = cs_AppendTurnAtSeq s seq (CloneMessages ms) (rr_world rr)
           in (e, \<lparr>rr_world = w, rr_trace = rr_trace rr @ [Appended seq (CloneMessages ms) e]\<rparr>)))"

definition reserveTurn :: "'w Loop \<Rightarrow> 'w \<Rightarrow> (gostr + int) \<times> 'w" where
  "reserveTurn lo w = (case lo_store lo of None \<Rightarrow> (Inr 0, w) | Some s \<Rightarrow> cs_ReserveTurnSeq s w)"

definition lastUserTime :: "'w Loop \<Rightarrow> 'w \<Rightarrow> (gostr + time option) \<times> 'w" where
  "lastUserTime lo w = (case lo_store lo of None \<Rightarrow> (Inr None, w) | Some s \<Rightarrow> cs_LoadLastUserTimestamp s w)"

text \<open>How a run of the engine ends; the text of an error, for the event that reports it, is an argument.\<close>

definition settle ::
  "(reply_error \<Rightarrow> gostr) \<Rightarrow> 'w Loop \<Rightarrow> bool \<Rightarrow> int \<Rightarrow> Message \<Rightarrow> loop_action list \<Rightarrow>
   (EngineResult \<times> engine_error option) \<times> 'w run \<Rightarrow> (reply_error + Reply) \<times> 'w replyRun"
where
  "settle errText lo observer seq userMessage trace outcome =
     (let ((result, err), rn) = outcome;
          rr1 = \<lparr>rr_world = rn_world rn, rr_trace = trace @ map (stampRunSeq seq) (rn_trace rn)\<rparr>;
          turnMessages = CloneMessages [userMessage] @ CloneMessages (rs_Messages result)
      in case err of
           Some e \<Rightarrow>
             (let (perr, rr2) = (case e of RunStopped s \<Rightarrow> persistTurn lo seq turnMessages rr1 | _ \<Rightarrow> (None, rr1))
              in case perr of
                   Some pe \<Rightarrow> (Inl (PersistInterruptedFailed pe), say observer seq (resultEvent RunEventRunFailed result (Some pe)) rr2)
                 | None \<Rightarrow>
                     (Inl (EngineFailed e), say observer seq (resultEvent RunEventRunFailed result (Some (errText (EngineFailed e)))) rr2))
         | None \<Rightarrow>
             (let (perr, rr2) = persistTurn lo seq turnMessages rr1
              in case perr of
                   Some pe \<Rightarrow> (Inl (PersistFailed pe), say observer seq (resultEvent RunEventRunFailed result (Some pe)) rr2)
                 | None \<Rightarrow>
                     (Inr \<lparr>rp_Text = rs_FinalText result, rp_Attachments = CloneParts (rs_Attachments result),
                           rp_MediaRefs = rs_MediaRefs result\<rparr>,
                      say observer seq (resultEvent RunEventRunFinished result None) rr2)))"

definition replyRequest :: "'w Loop \<Rightarrow> bool \<Rightarrow> 'w PreparedContext \<Rightarrow> 'w EngineRequest" where
  "replyRequest lo observer prepared =
     \<lparr>er_Messages = pc_Messages prepared, er_UseTools = True, er_AllowedTools = [], er_ToolCallPolicy = None,
      er_RequireToolCalling = False, er_SystemTextSource = Some (SystemText (lo_contextBuilder lo)), er_Observer = observer,
      er_MaxFailedModelAttempts = 0, er_ContextFitter = pc_FitRequest prepared\<rparr>"

text \<open>From the start of the run on.\<close>

definition runTurn ::
  "codecs \<Rightarrow> (reply_error \<Rightarrow> gostr) \<Rightarrow> 'w Loop \<Rightarrow> bool \<Rightarrow> int \<Rightarrow> Message \<Rightarrow> 'w replyRun \<Rightarrow> (reply_error + Reply) \<times> 'w replyRun"
where
  "runTurn co errText lo observer seq userMessage rr =
     (case Prepare (lo_contextBuilder lo) [userMessage] (rr_world rr) of
        (Inl e, w) \<Rightarrow> (Inl e, say observer seq (failedEvent (errText e)) (rr\<lparr>rr_world := w\<rparr>))
      | (Inr prepared, w) \<Rightarrow>
          settle errText lo observer seq userMessage (rr_trace rr)
            (EngineRun co (lo_engine lo) (replyRequest lo observer prepared) None w))"

definition LoopReply ::
  "codecs \<Rightarrow> (reply_error \<Rightarrow> gostr) \<Rightarrow> 'w Loop \<Rightarrow> bool \<Rightarrow> localTime \<Rightarrow> Message \<Rightarrow> 'w \<Rightarrow> (reply_error + Reply) \<times> 'w replyRun"
where
  "LoopReply co errText lo observer now msg w =
     (case normalizeUserMessage msg of
        Inl e \<Rightarrow> (Inl e, \<lparr>rr_world = w, rr_trace = []\<rparr>)
      | Inr msg1 \<Rightarrow>
          (case reserveTurn lo w of
             (Inl e, w1) \<Rightarrow> (Inl (ReserveFailed e), say observer 0 (failedEvent e) \<lparr>rr_world = w1, rr_trace = []\<rparr>)
           | (Inr seq, w1) \<Rightarrow>
               (case lastUserTime lo w1 of
                  (Inl e, w2) \<Rightarrow> (Inl (TimestampFailed e), say observer seq (failedEvent e) \<lparr>rr_world = w2, rr_trace = []\<rparr>)
                | (Inr previous, w2) \<Rightarrow>
                    runTurn co errText lo observer seq (withUserTemporalMetadata msg1 now previous)
                      (say observer seq (eventOf RunEventRunStarted) \<lparr>rr_world = w2, rr_trace = []\<rparr>))))"

section \<open>What the engine reports\<close>

text \<open>The engine reports turns and tools, never the start or the end of a run.\<close>

definition engineEvent :: "action \<Rightarrow> bool" where
  "engineEvent a \<longleftrightarrow>
     (case a of
        Observed e \<Rightarrow> ev_Type e \<in> {RunEventModelTurnStarted, RunEventModelTurnDelta, RunEventModelReasoningDelta,
          RunEventToolStarted, RunEventToolFinished}
      | _ \<Rightarrow> True)"

abbreviation quiet :: "'w run \<Rightarrow> bool" where
  "quiet rn \<equiv> list_all engineEvent (rn_trace rn)"

lemma quiet_emit: "quiet rn \<Longrightarrow> engineEvent (Observed e) \<Longrightarrow> quiet (emitRunEvent ob e rn)"
  by (simp add: emitRunEvent_def)

lemma engineEvent_simps [simp]:
  "engineEvent (AskedModel k ref ms tools)" "engineEvent (UsedTool c)" "engineEvent (Observed (deltaEvent turn ref d))"
  "engineEvent (Observed (e\<lparr>ev_Turn := k\<rparr>)) = engineEvent (Observed e)"
  "engineEvent (Observed (e\<lparr>ev_ModelRef := r\<rparr>)) = engineEvent (Observed e)"
  "engineEvent (Observed (e\<lparr>ev_ToolCall := c'\<rparr>)) = engineEvent (Observed e)"
  "engineEvent (Observed (e\<lparr>ev_ToolOutput := r\<rparr>)) = engineEvent (Observed e)"
  "engineEvent (Observed (e\<lparr>ev_Err := x\<rparr>)) = engineEvent (Observed e)"
  "engineEvent (Observed (eventOf RunEventModelTurnStarted))" "engineEvent (Observed (eventOf RunEventToolStarted))"
  "engineEvent (Observed (eventOf RunEventToolFinished))"
  by (simp_all add: engineEvent_def deltaEvent_def eventOf_def)

lemma quiet_deltas: "quiet rn \<Longrightarrow> quiet (foldl (\<lambda>s d. emitRunEvent ob (deltaEvent turn ref d) s) rn ds)"
  by (induction ds arbitrary: rn) (simp_all add: quiet_emit)

lemma quiet_completeModel: "completeModel eg ob turn ref ms tools rn = (r, rn') \<Longrightarrow> quiet rn \<Longrightarrow> quiet rn'"
  by (auto simp: completeModel_def Let_def intro!: quiet_deltas split: prod.splits)

lemma quiet_tryModels:
  "tryModels eg req turn tools ms gs tail eligible refs lastRef failures rn = (out, rn') \<Longrightarrow> quiet rn \<Longrightarrow> quiet rn'"
proof (induction refs arbitrary: lastRef failures rn)
  case Nil
  then show ?case by (auto split: if_splits)
next
  case (Cons r refs)
  let ?st = "emitRunEvent (er_Observer req) ((eventOf RunEventModelTurnStarted)\<lparr>ev_Turn := turn, ev_ModelRef := r\<rparr>) rn"
  have st: "quiet ?st" using Cons.prems(2) by (simp add: quiet_emit)
  obtain fitted rn1 where f: "fitContext eg req r ms tools gs tail ?st = (fitted, rn1)" by fastforce
  have q1: "quiet rn1" using fitContext_run(3) [OF f] st by simp
  show ?case
  proof (cases fitted)
    case (Inl e)
    with Cons.prems f q1 Cons.IH show ?thesis by (auto split: option.splits)
  next
    case (Inr ams)
    obtain result rn2 where c: "completeModel eg (er_Observer req) turn r ams tools rn1 = (result, rn2)" by fastforce
    have q2: "quiet rn2" using quiet_completeModel [OF c q1] .
    from Cons.prems f Inr c q2 Cons.IH show ?thesis
      by (auto simp: Let_def split: option.splits sum.splits if_splits)
  qed
qed

lemma quiet_completeWithObserver:
  "completeWithObserver co eg req ms tools rtc turn gs tail rn = (out, rn') \<Longrightarrow> quiet rn \<Longrightarrow> quiet rn'"
  unfolding completeWithObserver_def Let_def
  by (auto dest!: quiet_tryModels split: if_splits sum.splits prod.splits)

lemma quiet_runTool: "runTool co eg reg policy call rn = (r, rn') \<Longrightarrow> quiet rn \<Longrightarrow> quiet rn'"
  by (auto simp: runTool_def split: option.splits if_splits prod.splits)

lemma quiet_runCall:
  assumes "runCall co eg req reg x start turn ref call lp = (out, lp')" "quiet (lp_run lp)"
  shows "quiet (lp_run lp')"
proof -
  let ?ev = "\<lambda>t. (eventOf t)\<lparr>ev_Turn := turn, ev_ModelRef := ref, ev_ToolCall := Some call\<rparr>"
  obtain r rn1 where r: "runTool co eg reg (er_ToolCallPolicy req) call
      (emitRunEvent (er_Observer req) (?ev RunEventToolStarted) (lp_run lp)) = (r, rn1)" by fastforce
  have "quiet rn1" using quiet_runTool [OF r] assms(2) by (simp add: quiet_emit)
  with assms r show ?thesis
    unfolding runCall_def Let_def by (auto intro!: quiet_emit split: option.splits prod.splits if_splits)
qed

lemma quiet_runCalls:
  "runCalls co eg req reg x start turn ref calls lp = (out, lp') \<Longrightarrow> quiet (lp_run lp) \<Longrightarrow> quiet (lp_run lp')"
  by (induction calls arbitrary: lp) (auto dest: quiet_runCall split: prod.splits option.splits)

lemma quiet_engineTurn:
  assumes "engineTurn co eg req reg toolDefs x start turn lp = (te, lp')" "quiet (lp_run lp)"
  shows "quiet (lp_run lp')"
proof -
  obtain ms rts final tail budget where t: "turnRequest req toolDefs lp = (ms, rts, final, tail, budget)" by (metis prod.exhaust)
  obtain ref out rn1 where c: "completeWithObserver co eg req ms rts (er_RequireToolCalling req \<and> rts \<noteq> []) turn
      (requestStart req start lp) tail ((lp_run lp)\<lparr>rn_budget := budget\<rparr>) = ((ref, out), rn1)" by (metis prod.exhaust)
  have q: "quiet rn1" using quiet_completeWithObserver [OF c] assms(2) by simp
  note eq = assms(1) [unfolded engineTurn_def Let_def t prod.case c]
  have "lp_run lp' = rn1 \<or> (\<exists>calls lp2 out. lp_run lp2 = rn1 \<and> runCalls co eg req reg x start turn ref calls lp2 = (out, lp'))"
  proof (cases out)
    case (Inl e)
    with eq show ?thesis by auto
  next
    case (Inr r)
    define lp2 where "lp2 = lp\<lparr>lp_run := rn1, lp_lastModelRef := ref, lp_lastTurn := turn, lp_emptyRetries := 0,
       lp_messages := lp_messages lp @ NormalizeMessages (CloneMessages (cr_Messages r))\<rparr>"
    obtain o2 lp3 where rc: "runCalls co eg req reg x start turn ref (resultToolCalls (NormalizeMessages (CloneMessages (cr_Messages r)))) lp2 = (o2, lp3)"
      by fastforce
    from eq Inr rc have "lp_run lp' = rn1 \<or> lp' = lp3"
      by (auto simp: lp2_def split: if_splits prod.splits option.splits)
    moreover have "lp_run lp2 = rn1" by (simp add: lp2_def)
    ultimately show ?thesis using rc by blast
  qed
  with q show ?thesis using quiet_runCalls by metis
qed

lemma quiet_runTurns:
  "runTurns co eg req reg toolDefs x start left turn lp = (out, lp') \<Longrightarrow> quiet (lp_run lp) \<Longrightarrow> quiet (lp_run lp')"
proof (induction left arbitrary: turn lp)
  case 0
  then show ?case by (auto dest: leaveLoop_run)
next
  case (Suc left)
  obtain te lp1 where t: "engineTurn co eg req reg toolDefs x start turn lp = (te, lp1)" by fastforce
  note q = quiet_engineTurn [OF t Suc.prems(2)]
  from Suc.prems t q Suc.IH show ?case
    by (cases te) (auto dest: leaveLoop_run split: if_splits)
qed

lemma quiet_EngineRun: "EngineRun co eg req budget w = (out, rn) \<Longrightarrow> quiet rn"
  unfolding EngineRun_def Let_def
  by (auto dest!: quiet_runTurns simp: startState_def split: prod.splits)

section \<open>The end of a reply\<close>

definition endsRun :: "loop_action \<Rightarrow> bool" where
  "endsRun a \<longleftrightarrow> (case a of Emitted seq e \<Rightarrow> ev_Type e = RunEventRunFinished \<or> ev_Type e = RunEventRunFailed | _ \<Rightarrow> False)"

text \<open>The turns a reply tried to append, and the replies after which the turn has to be there.\<close>

definition appends :: "loop_action list \<Rightarrow> (int \<times> Message list \<times> gostr option) list" where
  "appends trace = concat (map (\<lambda>a. case a of Appended seq ms e \<Rightarrow> [(seq, ms, e)] | _ \<Rightarrow> []) trace)"

definition keepsTurn :: "reply_error + Reply \<Rightarrow> bool" where
  "keepsTurn out \<longleftrightarrow> (case out of Inr r \<Rightarrow> True | Inl (EngineFailed (RunStopped s)) \<Rightarrow> True | _ \<Rightarrow> False)"

lemma appends_simps [simp]:
  "appends [] = []" "appends (xs @ ys) = appends xs @ appends ys" "appends [Emitted seq e] = []"
  "appends [Appended seq ms x] = [(seq, ms, x)]" "appends (map (stampRunSeq seq) acts) = []"
  by (simp_all add: appends_def) (induction acts, auto simp: stampRunSeq_def split: action.splits)

lemma endsRun_simps [simp]:
  "\<not> endsRun (Appended seq ms x)" "\<not> endsRun (Emitted seq (eventOf RunEventRunStarted))"
  "endsRun (Emitted seq e) \<longleftrightarrow> ev_Type e = RunEventRunFinished \<or> ev_Type e = RunEventRunFailed"
  by (simp_all add: endsRun_def eventOf_def)

lemma stamped_run: "list_all engineEvent acts \<Longrightarrow> list_all (\<lambda>a. \<not> endsRun a) (map (stampRunSeq seq) acts)"
  by (auto simp: list_all_iff engineEvent_def endsRun_def stampRunSeq_def split: action.splits)

lemma resultEvent_type [simp]: "ev_Type (eventOf t) = t" "ev_Type (resultEvent t r e) = t" "ev_Type (failedEvent x) = RunEventRunFailed"
  by (simp_all add: resultEvent_def failedEvent_def eventOf_def)

text \<open>What the last part of a reply adds to its trace: the engine's run, the append, the end.\<close>

definition endOK :: "'w Loop \<Rightarrow> bool \<Rightarrow> int \<Rightarrow> Message \<Rightarrow> (reply_error + Reply) \<Rightarrow> action list \<Rightarrow> loop_action list \<Rightarrow> loop_action list \<Rightarrow> bool" where
  "endOK lo observer seq um out acts apps fin \<longleftrightarrow>
     list_all engineEvent acts \<and>
     (if observer then \<exists>e. fin = [Emitted seq e] \<and> ev_Type e = (if isl out then RunEventRunFailed else RunEventRunFinished)
      else fin = []) \<and>
     (if lo_store lo = None then apps = []
      else if keepsTurn out then \<exists>ms. apps = [Appended seq (CloneMessage um # ms) None]
      else apps = [] \<or> (\<exists>ms e. apps = [Appended seq ms (Some e)]))"

lemma persistTurn_trace:
  assumes "persistTurn lo seq ms rr = (e, rr')"
  shows "lo_store lo = None \<Longrightarrow> e = None \<and> rr' = rr"
    "lo_store lo \<noteq> None \<Longrightarrow> rr_trace rr' = rr_trace rr @ [Appended seq (CloneMessages ms) e]"
  using assms by (auto simp: persistTurn_def split: prod.splits option.splits)

lemma say_trace [simp]: "rr_world (say observer seq e rr) = rr_world rr"
  "rr_trace (say observer seq e rr) = rr_trace rr @ (if observer then [Emitted seq e] else [])"
  by (simp_all add: say_def)

lemma CloneMessage_idem [simp]: "CloneMessage (CloneMessage m) = CloneMessage m"
  by (cases "mg_ExternalEvent m") (simp_all add: CloneMessage_def CloneParts_def cloneExternalEventMetadata_def)

lemma settle_end:
  assumes "settle errText lo observer seq um trace (EngineRun co eg req None w) = (out, rr')"
  shows "\<exists>acts apps fin. rr_trace rr' = trace @ map (stampRunSeq seq) acts @ apps @ fin \<and> endOK lo observer seq um out acts apps fin"
proof -
  obtain result err rn where run: "EngineRun co eg req None w = ((result, err), rn)" by (metis prod.exhaust)
  define rr1 where "rr1 = \<lparr>rr_world = rn_world rn, rr_trace = trace @ map (stampRunSeq seq) (rn_trace rn)\<rparr>"
  define tm where "tm = CloneMessages [um] @ CloneMessages (rs_Messages result)"
  obtain pe rr2 where p: "persistTurn lo seq tm rr1 = (pe, rr2)" by fastforce
  have cl: "CloneMessages tm = CloneMessage um # CloneMessages (CloneMessages (rs_Messages result))"
    by (simp add: tm_def CloneMessages_def)
  note pt = persistTurn_trace [OF p, unfolded cl]
  note eq = assms [unfolded settle_def Let_def run prod.case, folded rr1_def tm_def, unfolded p prod.case]
  have q: "quiet rn" by (rule quiet_EngineRun [OF run])
  have t1: "rr_trace rr1 = trace @ map (stampRunSeq seq) (rn_trace rn)" by (simp add: rr1_def)
  show ?thesis
  proof (cases "err = None \<or> (\<exists>s. err = Some (RunStopped s))")
    case True
    let ?apps = "if lo_store lo = None then [] else [Appended seq (CloneMessage um # CloneMessages (CloneMessages (rs_Messages result))) pe]"
    have t2: "rr_trace rr2 = trace @ map (stampRunSeq seq) (rn_trace rn) @ ?apps" using pt t1 by auto
    obtain e where "rr_trace rr' = rr_trace rr2 @ (if observer then [Emitted seq e] else [])"
      "ev_Type e = (if isl out then RunEventRunFailed else RunEventRunFinished)"
      "keepsTurn out \<longleftrightarrow> pe = None"
      using True eq by (cases err; cases pe) (auto simp: keepsTurn_def)
    with t2 q pt(1) show ?thesis unfolding endOK_def
      by (intro exI [of _ "rn_trace rn"] exI [of _ ?apps] exI [of _ "if observer then [Emitted seq e] else []"]) auto
  next
    case False
    then obtain e where e: "err = Some e" "\<nexists>s. e = RunStopped s" by (cases err) auto
    with eq have "out = Inl (EngineFailed e)"
      "rr_trace rr' = rr_trace rr1 @ (if observer then [Emitted seq (resultEvent RunEventRunFailed result (Some (errText (EngineFailed e))))] else [])"
      by (cases e; auto)+
    moreover have "\<not> keepsTurn (Inl (EngineFailed e))" using e(2) by (cases e) (auto simp: keepsTurn_def)
    ultimately show ?thesis using q t1 unfolding endOK_def
      by (intro exI [of _ "rn_trace rn"] exI [of _ "[]"]
          exI [of _ "if observer then [Emitted seq (resultEvent RunEventRunFailed result (Some (errText (EngineFailed e))))] else []"])
        auto
  qed
qed

text \<open>
  A reply ends in the check of the message, with nothing done; before the engine runs, with one
  failure reported; or with the engine's run.
\<close>

lemma LoopReply_cases:
  assumes "LoopReply co errText lo observer now msg w = (out, rr)"
  obtains (refused) e where "normalizeUserMessage msg = Inl e" "out = Inl e" "rr_trace rr = []"
  | (early) seq started x where "\<not> isl (normalizeUserMessage msg)" "isl out" "\<not> keepsTurn out" "ev_Type x = RunEventRunFailed"
      "rr_trace rr = (if observer then started @ [Emitted seq x] else [])" "list_all (\<lambda>a. \<not> endsRun a) started" "appends started = []"
  | (ran) seq w1 um acts apps fin where "\<not> isl (normalizeUserMessage msg)" "reserveTurn lo w = (Inr seq, w1)" "mg_Role um = UserRole"
      "mg_Parts um = NormalizeParts (mg_Parts msg)" "CloneMessage um = um"
      "rr_trace rr = (if observer then [Emitted seq (eventOf RunEventRunStarted)] else []) @ map (stampRunSeq seq) acts @ apps @ fin"
      "endOK lo observer seq um out acts apps fin"
proof (cases "normalizeUserMessage msg")
  case (Inl e)
  with assms refused show thesis by (auto simp: LoopReply_def)
next
  case msg1: (Inr msg1)
  obtain reserved w1 where r: "reserveTurn lo w = (reserved, w1)" by fastforce
  show thesis
  proof (cases reserved)
    case (Inl e)
    with assms msg1 r have "out = Inl (ReserveFailed e)" "rr_trace rr = (if observer then [Emitted 0 (failedEvent e)] else [])"
      by (auto simp: LoopReply_def)
    then show thesis using early [of "failedEvent e" "[]" 0] msg1 by (simp add: keepsTurn_def)
  next
    case (Inr seq)
    obtain lst w2 where l: "lastUserTime lo w1 = (lst, w2)" by fastforce
    show thesis
    proof (cases lst)
      case (Inl e)
      with assms msg1 r Inr l have "out = Inl (TimestampFailed e)" "rr_trace rr = (if observer then [Emitted seq (failedEvent e)] else [])"
        by (auto simp: LoopReply_def)
      then show thesis using early [of "failedEvent e" "[]" seq] msg1 by (simp add: keepsTurn_def)
    next
      case previous: (Inr previous)
      define um where "um = withUserTemporalMetadata msg1 now previous"
      obtain prep w3 where p: "Prepare (lo_contextBuilder lo) [um] w2 = (prep, w3)" by fastforce
      let ?start = "if observer then [Emitted seq (eventOf RunEventRunStarted)] else []"
      show thesis
      proof (cases prep)
        case (Inl e)
        have "\<not> keepsTurn (Inl e :: reply_error + Reply)"
          using p Inl by (auto simp: keepsTurn_def Prepare_def injected_def Let_def split: option.splits prod.splits sum.splits)
        moreover have "out = Inl e" "rr_trace rr = (if observer then ?start @ [Emitted seq (failedEvent (errText e))] else [])"
          using assms msg1 r Inr l previous p Inl by (auto simp: LoopReply_def runTurn_def um_def)
        ultimately show thesis using early [of "failedEvent (errText e)" ?start seq] msg1 by (cases observer) simp_all
      next
        case prepared: (Inr prepared)
        have run: "settle errText lo observer seq um ?start
            (EngineRun co (lo_engine lo) (replyRequest lo observer prepared) None w3) = (out, rr)"
          using assms msg1 r Inr l previous p prepared by (simp add: LoopReply_def runTurn_def um_def)
        have m1: "mg_Role msg1 = UserRole" "msg1 = NormalizeMessage msg"
          using msg1 by (auto simp: normalizeUserMessage_def Let_def split: if_splits option.splits)
        have um: "mg_Role um = UserRole" "mg_Parts um = NormalizeParts (mg_Parts msg)" "CloneMessage um = um"
          using m1 by (simp_all add: um_def withUserTemporalMetadata_def Let_def)
        from settle_end [OF run] ran [OF _ r [unfolded Inr] um] msg1 show thesis by auto
      qed
    qed
  qed
qed

text \<open>
  C10: a reply reports its end exactly once. To an observer, a reply whose message is refused says
  nothing; every other reply ends its events with one end of the run, success for a reply and
  failure for an error, and says nothing after it and no other end before it.
\<close>

theorem reply_reports_once:
  assumes "LoopReply co errText lo True now msg w = (out, rr)"
  shows "if isl (normalizeUserMessage msg) then rr_trace rr = [] \<and> isl out
     else \<exists>before seq e. rr_trace rr = before @ [Emitted seq e] \<and>
       ev_Type e = (if isl out then RunEventRunFailed else RunEventRunFinished) \<and> list_all (\<lambda>a. \<not> endsRun a) before"
  using assms
proof (cases rule: LoopReply_cases)
  case (refused e)
  then show ?thesis by simp
next
  case (early seq started x)
  then show ?thesis by auto
next
  case (ran seq w1 um acts apps fin)
  from ran(7) obtain e where fin: "fin = [Emitted seq e]" "ev_Type e = (if isl out then RunEventRunFailed else RunEventRunFinished)"
    and acts: "list_all (\<lambda>a. \<not> endsRun a) (map (stampRunSeq seq) acts)"
    using stamped_run by (auto simp: endOK_def)
  have "list_all (\<lambda>a. \<not> endsRun a) apps" using ran(7) by (auto simp: endOK_def split: if_splits)
  with fin acts ran(1,6) show ?thesis
    by (intro if_not_P [THEN iffD2] exI [of _ "Emitted seq (eventOf RunEventRunStarted) # map (stampRunSeq seq) acts @ apps"]
        exI [of _ seq] exI [of _ e]) (auto simp: list_all_iff)
qed

text \<open>
  C9: a turn is persisted once or not at all. With a store, a reply that succeeds, or that ends in a
  controlled stop of the engine, has appended exactly one turn, under the sequence reserved for it,
  and that turn begins with the user's message; any other reply has appended none, and tried at
  most once.
\<close>

theorem turn_persisted_once:
  assumes "lo_store lo = Some s" "LoopReply co errText lo observer now msg w = (out, rr)"
  shows "if keepsTurn out
     then \<exists>seq w1 um ms. cs_ReserveTurnSeq s w = (Inr seq, w1) \<and> appends (rr_trace rr) = [(seq, um # ms, None)] \<and>
            mg_Role um = UserRole \<and> mg_Parts um = NormalizeParts (mg_Parts msg)
     else length (appends (rr_trace rr)) \<le> 1 \<and> list_all (\<lambda>(seq, ms, e). e \<noteq> None) (appends (rr_trace rr))"
  using assms(2)
proof (cases rule: LoopReply_cases)
  case (refused e)
  then have "\<not> keepsTurn out" by (auto simp: keepsTurn_def normalizeUserMessage_def Let_def split: if_splits option.splits)
  with refused show ?thesis by simp
next
  case (early seq started x)
  then show ?thesis by auto
next
  case (ran seq w1 um acts apps fin)
  have a: "appends (rr_trace rr) = appends apps" using ran(6,7) by (auto simp: endOK_def split: if_splits)
  show ?thesis
  proof (cases "keepsTurn out")
    case True
    with ran(7) assms(1) obtain ms where "apps = [Appended seq (CloneMessage um # ms) None]" by (auto simp: endOK_def)
    moreover have "cs_ReserveTurnSeq s w = (Inr seq, w1)" using ran(2) assms(1) by (simp add: reserveTurn_def)
    ultimately show ?thesis using True a ran(3,4) \<open>CloneMessage um = um\<close> by auto
  next
    case False
    with ran(7) assms(1) a show ?thesis by (auto simp: endOK_def)
  qed
qed

text \<open>A loop over the sample engine, whose world counts the tool calls; the store accepts every turn.\<close>

definition sampleStore :: "nat ConversationStore" where
  "sampleStore = \<lparr>cs_LoadRecentMessages = (\<lambda>n w. (Inr [], w)), cs_LoadLastUserTimestamp = (\<lambda>w. (Inr None, w)),
     cs_ReserveTurnSeq = (\<lambda>w. (Inr 7, w)), cs_AppendTurnAtSeq = (\<lambda>seq ms w. (None, w)), cs_LoadCoreMemory = None,
     cs_LoadSkillCatalog = None, cs_PrepareContext = None\<rparr>"

text \<open>Its model answers at once.\<close>

definition sampleLoop :: "nat Loop" where
  "sampleLoop =
     \<lparr>lo_engine = sampleEngine\<lparr>eg_complete := (\<lambda>ref ms tools w.
        (([], Inr (sampleAnswer (lit ''stop'') [AssistantMessage [TextPart (lit ''done'') []]])), w))\<rparr>,
      lo_store = Some sampleStore,
      lo_contextBuilder = \<lparr>cb_store = Some sampleStore, cb_systemText = lit ''prompt'', cb_systemTextSources = [],
        cb_recentTurns = defaultRecentTurns\<rparr>\<rparr>"

definition sampleReply :: "(reply_error + Reply) \<times> nat replyRun" where
  "sampleReply = LoopReply sampleCodecs (\<lambda>e. []) sampleLoop True \<lparr>lt_instant = 5000000000, lt_offset = 0\<rparr>
     (UserMessage (lit ''hello'')) 0"

lemma sampleReply_run:
  "length (rr_trace (snd sampleReply)) = 5" "isl (fst sampleReply) = False"
  "map (\<lambda>a. length (fst (snd a))) (appends (rr_trace (snd sampleReply))) = [2]"
  by code_simp+

theorem reply_reports_once_witness:
  "\<exists>before seq e. rr_trace (snd sampleReply) = before @ [Emitted seq e] \<and> ev_Type e = RunEventRunFinished \<and>
     length before = 4 \<and> list_all (\<lambda>a. \<not> endsRun a) before"
proof -
  obtain out rr where r: "sampleReply = (out, rr)" by fastforce
  note sample = sampleReply_run [unfolded r fst_conv snd_conv]
  have msg: "\<not> isl (normalizeUserMessage (UserMessage (lit ''hello'')))" by code_simp
  from reply_reports_once [OF r [unfolded sampleReply_def]] msg sample(2) obtain before seq e where
    b: "rr_trace rr = before @ [Emitted seq e]" "ev_Type e = RunEventRunFinished" "list_all (\<lambda>a. \<not> endsRun a) before" by auto
  moreover have "length before = 4" using sample(1) b(1) by simp
  ultimately show ?thesis by (auto simp: r)
qed

theorem turn_persisted_once_witness:
  "\<exists>um ms. appends (rr_trace (snd sampleReply)) = [(7, um # ms, None)] \<and> mg_Role um = UserRole \<and> length ms = 1"
proof -
  obtain out rr where r: "sampleReply = (out, rr)" by fastforce
  note sample = sampleReply_run [unfolded r fst_conv snd_conv]
  have store: "lo_store sampleLoop = Some sampleStore" by (simp add: sampleLoop_def)
  have kept: "keepsTurn out" using sample(2) by (cases out) (auto simp: keepsTurn_def)
  from turn_persisted_once [OF store r [unfolded sampleReply_def]] kept obtain um ms where
    "appends (rr_trace rr) = [(7, um # ms, None)]" "mg_Role um = UserRole" by (auto simp: sampleStore_def)
  with sample(3) show ?thesis by (auto simp: r)
qed

end
