(* ===== verification/Spec2Isabelle.thy ===== *)
theory Spec2Isabelle
  imports Proxy_Config Exec_Session Schedule_Loop Schedule_Requests Agent_Calls Agent_Files Agent_Loop
begin

text \<open>
  A verification development of q15, an agent runtime with an egress proxy, a command execution
  service and a scheduler of agent jobs.  The sources are Go; the paths below are relative to
  \<open>src/\<close>.

  \<^bold>\<open>Parts and how they interact.\<close>  The agent (\<open>systems/agent\<close>) runs model turns, keeps files on disk and
  schedules jobs; it runs commands through the exec service (\<open>systems/exec\<close>), and the traffic of those
  commands goes through the egress proxy (\<open>systems/proxy\<close>), which injects secrets according to a policy
  (\<open>libs/proxy-contract/policy\<close>) that agent, exec and proxy share.

  \<^bold>\<open>Language and libraries.\<close>  A Go string is the list of its code points.  \<open>Go_Prelude\<close> has what the program
  uses of \<open>strings\<close> and the loops it writes again and again; \<open>Unicode_Fold\<close> and \<open>Go_Format\<close> the tables of
  \<open>unicode\<close> (white space, lower and upper case, digits) and the formatting of UTC times; \<open>Go_Path\<close> the
  functions of \<open>path/filepath\<close> and the binary search of \<open>sort\<close>.  Errors are values of a sum type, a panic
  is \<open>None\<close>.  Times and durations are integers of nanoseconds, zero being Go's zero time; where a
  difference of times can leave 64 bits the saturation is written out.

  \<^bold>\<open>Proxy policy\<close> (\<open>Policy\<close>; \<open>libs/proxy-contract/policy\<close>): normalization and validation of policies.  Validation
  accepts exactly the policies that meet a declarative description, and normal forms are stable.

  \<^bold>\<open>Proxy data plane\<close> (\<open>Proxy_Rules\<close>; \<open>systems/proxy/internal/proxy\<close>): compilation of rules, matching, templates,
  header injection, and what happens to requests and responses.  Compiled rules serve every request
  without a panic, unlisted hosts are left alone, and credentials are set and stripped as configured.

  \<^bold>\<open>Proxy configuration\<close> (\<open>Proxy_Config\<close>; \<open>systems/proxy/internal/config\<close> and \<open>app\<close>): resolving a policy against the
  environment.  A resolved policy compiles exactly when stated conditions hold, which ties the policy,
  the resolver and the data plane together.

  \<^bold>\<open>Command sessions\<close> (\<open>Exec_Session\<close>; \<open>systems/exec/internal/service\<close>): sessions with their event logs as a step
  relation over the goroutines that write them, one critical section at a time.  The log of every reachable session is well formed, a
  finished session is stable and reachable, and a watcher receives exactly the events after its mark.

  \<^bold>\<open>Files\<close> (\<open>Atomic_File\<close>; \<open>systems/agent/internal/atomicfile\<close>): a file system in which any system call may fail and
  every state that was passed is remembered, with a Hoare calculus, so that statements hold of a
  crash at any moment.

  \<^bold>\<open>The scheduler\<close> (\<open>systems/agent/internal/cronexpr\<close>, \<open>schedule\<close>, \<open>schedulestore\<close>).  \<open>Cron_Expr\<close> has the strict
  check of cron expressions; the parser and the search of the third-party cron package are parameters,
  and \<open>cronLaws\<close> names what is relied on.  \<open>Schedule_Types\<close> has the data, its normalization and validation,
  and the texts of notifications.  \<open>Schedule_Store\<close> has the store of files; its contract is the locale
  \<open>schedule_store\<close>, interpreted on it.  \<open>Schedule_Manager\<close> has every operation of the manager, with its maps,
  its lock as one step per request, and the answers of clock, executor, publisher and recorder as
  arguments; \<open>sched_step\<close> is the system of requests, claims, deliveries, executions, crashes and restarts.
  Each request there has its own answers of the owner check, the default model and the catalogs; the
  limits stay the same, restarts included.
  \<open>Schedule_Safety\<close> proves, in the locale \<open>scheduler\<close> over any such store, the manager's invariant and that no
  claimed run is lost; \<open>Schedule_Validity\<close> that what is written always passes the checks of the next start;
  \<open>Schedule_Loop\<close> what a claim takes, that the loop catches up within two iterations per job and then waits
  no longer than the next occurrence, and that no notification is dropped, or delivered again once its
  delivery is acknowledged, read off the calls of publisher and recorder with their answers;
  \<open>Schedule_Requests\<close> the contracts of the requests and the isolation of owners.  All of it is
  instantiated with the store of files.

  \<^bold>\<open>File operations\<close> (\<open>systems/agent/internal/fileops\<close> and \<open>tools/files\<close>).  \<open>Text_Lines\<close> has text files: decoding, line
  endings, paging, exact replacement and diffs; following the pages returns the whole file exactly when
  no line is longer than a page.
  \<open>Patch_Text\<close> has the patch language: its parser, which inverts printing, and the application of hunks,
  which refines a relational description.  \<open>File_Paths\<close> has the resolution of runtime paths, which never
  leaves the configured roots.  \<open>File_Ops\<close> has the operations on the file system of \<open>Atomic_File\<close>: a write
  shows the old or the complete new content in every state, an edit replaces one occurrence and keeps
  every other byte of a file with uniform line endings.
  \<open>Patch_Commit\<close> shows that a patch is all or nothing, and where it is not.  \<open>File_Tools\<close> has the tools the
  model calls and the policy in front of them: a call that passes the policy changes only listed files,
  where \<open>listedPath\<close> says what is listed without the code's check and \<open>Path_Clean\<close> has the facts on clean
  paths that connect the two.  The directory behind a root, the random source (\<open>osEnv\<close>), the decoding of JSON arguments
  (\<open>decoders\<close>, with \<open>jsonCoherent\<close> naming what is relied on) and the mutation guard are parameters.

  \<^bold>\<open>Conversation and reply\<close> (\<open>systems/agent/internal/conversation\<close> and \<open>turnreply\<close>).  \<open>Conversation\<close> has the canonical
  transcript: messages, their normal forms and what is read off them.  \<open>Turn_Reply\<close> has the extraction of
  a turn's reply and its canonical transcript: canonicalizing keeps the text of the reply, the calls and
  their results, and for a \<open>closedTurn\<close> the attachments; only tools that opted in deliver attachments.

  \<^bold>\<open>The engine\<close> (\<open>systems/agent/internal/agent\<close> and \<open>modelselection\<close>).  \<open>Agent_Model\<close> has the contracts, their error
  texts, model selection and the tool registry (\<open>tool_registry.go\<close>); \<open>Agent_Engine\<close> one run (\<open>engine.go\<close>,
  \<open>loop_safety.go\<close>, \<open>turn_budget.go\<close>): the model client, planner, fitter and tools act on a world \<open>'w\<close> and the
  run keeps a trace of what it asks, uses and reports.  Hashing, JSON and quoting are \<open>codecs\<close>.
  \<open>Agent_Trace\<close> shows that a run stays within its turns, budget and failed attempts and that tools receive
  only checked calls, and what predicates of the world a run keeps; \<open>Agent_Calls\<close> that every call is
  answered in the transcript and when the loop guard stops a run.  \<open>Agent_Files\<close> puts the file tools and
  the path policy under the engine, through the locale \<open>engine_frame\<close>: a whole run changes only listed
  files, whatever other tools the registry holds, if those on the request's allow-list do not write to
  the disk.  The engine and the package \<open>files\<close> provide for such runs; no caller in the repository passes
  a \<open>PathAccessPolicy\<close> yet, and the policy of sub-agents, a search of the arguments for \<open>/memory\<close>, is not modelled.

  \<^bold>\<open>The loop\<close> (\<open>Agent_Loop\<close>, \<open>Agent_Prompt\<close>; \<open>loop.go\<close>, \<open>context.go\<close>, \<open>loop_messages.go\<close>, \<open>prompt_default.go\<close>): one reply
  to a user, with the conversation store as a record of functions on the world.  A turn is persisted
  exactly once or not at all, and a reply reports its end exactly once.

  \<^bold>\<open>Bounds and fuel.\<close>  Loops over data are structural or have a measure.  The scheduler's endless loop is modelled
  one iteration at a time, and \<open>runLoop\<close> with a number of iterations that is proved to be enough.
  The engine's loop runs over its maximal number of turns, the bound the code has.

  \<^bold>\<open>Not modelled.\<close>  Network and terminal I/O (gRPC, HTTP, Telegram, OAuth, providers), generated code (protobuf,
  SQL queries), the history database, rendering of units, and the user interface.  File
  modes, symbolic links, partial writes, log lines, and the memory model below Go's mutexes are left out.  Requests do not interleave
  with the steps that follow an executor's answer.
\<close>

end
